(* ===== verification/Prelude.thy ===== *)
theory Prelude
  imports Main "HOL-Library.Word" "HOL-Library.Signed_Division"
begin

text \<open>
  Shared vocabulary of the development: Go's 64-bit integers, results that may be an error,
  and the list facts the components share.  A Go \<open>int\<close> or \<open>int64\<close> is an \<open>int\<close>; where its
  arithmetic can leave the 64-bit range the wrap-around is written with \<open>s64\<close>.  A call that
  may fail returns a sum, \<open>Inl\<close> carrying the error, and calls are sequenced by \<open>ebind\<close>.
\<close>

unbundle bit_operations_syntax

named_theorems go_int \<comment> \<open>facts on the 64-bit wrap-around\<close>
named_theorems result_simps \<comment> \<open>facts on results and their sequencing\<close>

section \<open>Machine integers\<close>

type_synonym byte = "8 word"
type_synonym u64 = "64 word"

text \<open>Two's complement reduction to \<open>int64\<close>.\<close>

definition s64 :: "int \<Rightarrow> int" where
  "s64 x = (x + 2 ^ 63) mod 2 ^ 64 - 2 ^ 63"

definition in_s64 :: "int \<Rightarrow> bool" where
  "in_s64 x \<longleftrightarrow> - (2 ^ 63) \<le> x \<and> x < 2 ^ 63"

definition max_int64 :: int where
  "max_int64 = 2 ^ 63 - 1"

lemma in_s64_s64 [go_int, simp]: "in_s64 (s64 x)"
  unfolding in_s64_def s64_def by (simp add: pos_mod_bound [of "2 ^ 64" "x + 2 ^ 63", simplified])

lemma s64_id [go_int]: "in_s64 x \<Longrightarrow> s64 x = x"
  unfolding in_s64_def s64_def by (simp add: mod_pos_pos_trivial)

lemma s64_bounds: "- (2 ^ 63) \<le> s64 x" "s64 x \<le> max_int64"
  using in_s64_s64 [of x] by (auto simp: in_s64_def max_int64_def)

lemma in_s64_nonneg_le: "0 \<le> x \<Longrightarrow> x \<le> y \<Longrightarrow> in_s64 y \<Longrightarrow> in_s64 x"
  by (simp add: in_s64_def)

text \<open>Overflow by one wrap: the sum of two \<open>int64\<close> values.\<close>

lemma s64_sub_overflow:
  assumes "2 ^ 63 \<le> x" "x < 2 ^ 64"
  shows "s64 x = x - 2 ^ 64"
proof -
  have "(x + 2 ^ 63) mod 2 ^ 64 = (x + 2 ^ 63 - 2 ^ 64) mod 2 ^ 64"
    by (rule minus_mod_self2 [symmetric])
  also have "\<dots> = x + 2 ^ 63 - 2 ^ 64"
    using assms by (intro mod_pos_pos_trivial) auto
  finally show ?thesis by (simp add: s64_def)
qed

lemma unat_less_exp: "unat (w :: 'a::len word) < 2 ^ LENGTH('a)"
  by (rule unsigned_less)

section \<open>Results\<close>

type_synonym ('e, 'a) result = "'e + 'a"

definition ebind :: "'e + 'a \<Rightarrow> ('a \<Rightarrow> 'e + 'b) \<Rightarrow> 'e + 'b" where
  "ebind m f = (case m of Inl e \<Rightarrow> Inl e | Inr a \<Rightarrow> f a)"

lemma ebind_Inl [simp, result_simps]: "ebind (Inl e) f = Inl e"
  by (simp add: ebind_def)

lemma ebind_Inr [simp, result_simps]: "ebind (Inr a) f = f a"
  by (simp add: ebind_def)

lemma ebind_eq_Inr [result_simps]: "ebind m f = Inr b \<longleftrightarrow> (\<exists>a. m = Inr a \<and> f a = Inr b)"
  by (cases m) auto

lemma ebind_eq_Inl [result_simps]:
  "ebind m f = Inl e \<longleftrightarrow> m = Inl e \<or> (\<exists>a. m = Inr a \<and> f a = Inl e)"
  by (cases m) auto

lemma ebind_cong [fundef_cong]:
  "m = n \<Longrightarrow> (\<And>a. n = Inr a \<Longrightarrow> f a = g a) \<Longrightarrow> ebind m f = ebind n g"
  by (cases n) auto

lemma ebind_assoc [result_simps]: "ebind (ebind m f) g = ebind m (\<lambda>a. ebind (f a) g)"
  by (cases m) auto

text \<open>A predicate on the value of a result, true of an error.\<close>

definition on_ok :: "('a \<Rightarrow> bool) \<Rightarrow> 'e + 'a \<Rightarrow> bool" where
  "on_ok P m = (case m of Inl e \<Rightarrow> True | Inr a \<Rightarrow> P a)"

text \<open>A predicate on the error of a result, true of a value.\<close>

definition on_err :: "('e \<Rightarrow> bool) \<Rightarrow> 'e + 'a \<Rightarrow> bool" where
  "on_err P m = (case m of Inl e \<Rightarrow> P e | Inr a \<Rightarrow> True)"

lemma on_ok_simps [simp]: "on_ok P (Inl e)" "on_ok P (Inr a) = P a"
  by (simp_all add: on_ok_def)

lemma on_err_simps [simp]: "on_err P (Inl e) = P e" "on_err P (Inr a)"
  by (simp_all add: on_err_def)

lemma on_ok_ebind:
  "on_ok P m \<Longrightarrow> (\<And>a. m = Inr a \<Longrightarrow> P a \<Longrightarrow> on_ok Q (f a)) \<Longrightarrow> on_ok Q (ebind m f)"
  by (cases m) auto

lemma on_err_ebind:
  "on_err P m \<Longrightarrow> (\<And>a. m = Inr a \<Longrightarrow> on_err P (f a)) \<Longrightarrow> on_err P (ebind m f)"
  by (cases m) auto

lemma on_okD: "on_ok P m \<Longrightarrow> m = Inr a \<Longrightarrow> P a"
  by simp

lemma on_errD: "on_err P m \<Longrightarrow> m = Inl e \<Longrightarrow> P e"
  by simp

section \<open>Decimal printing: the \<open>%d\<close> and \<open>%0nd\<close> verbs\<close>

definition digit_char :: "nat \<Rightarrow> char" where
  "digit_char d = ''0123456789'' ! d"

lemma less_10_cases:
  fixes d :: nat
  assumes "d < 10"
  obtains "d = 0" | "d = 1" | "d = 2" | "d = 3" | "d = 4" | "d = 5" | "d = 6" | "d = 7" | "d = 8" | "d = 9"
proof -
  have "d = 0 \<or> d = 1 \<or> d = 2 \<or> d = 3 \<or> d = 4 \<or> d = 5 \<or> d = 6 \<or> d = 7 \<or> d = 8 \<or> d = 9"
    using assms by arith
  then show ?thesis using that by blast
qed

fun show_nat :: "nat \<Rightarrow> string" where
  "show_nat n = (if n < 10 then [digit_char n] else show_nat (n div 10) @ [digit_char (n mod 10)])"

declare show_nat.simps [simp del]

definition show_int :: "int \<Rightarrow> string" where
  "show_int i = (if i < 0 then CHR ''-'' # show_nat (nat (- i)) else show_nat (nat i))"

text \<open>Zero padding counts the sign, as \<open>fmt\<close> does.\<close>

definition show_int0 :: "nat \<Rightarrow> int \<Rightarrow> string" where
  "show_int0 w i =
     (if i < 0
      then (let ds = show_nat (nat (- i)) in CHR ''-'' # replicate (w - 1 - length ds) CHR ''0'' @ ds)
      else (let ds = show_nat (nat i) in replicate (w - length ds) CHR ''0'' @ ds))"

fun digits_val :: "nat \<Rightarrow> string \<Rightarrow> nat" where
  "digits_val a [] = a"
| "digits_val a (c # cs) = digits_val (10 * a + (of_char c - 48)) cs"

lemma digits_val_append: "digits_val a (xs @ ys) = digits_val (digits_val a xs) ys"
  by (induction xs arbitrary: a) auto

lemma of_char_digit: "d < 10 \<Longrightarrow> of_char (digit_char d) = (48 + d :: nat)"
  by (erule less_10_cases) (simp_all add: digit_char_def)

lemma digits_val_digit: "d < 10 \<Longrightarrow> digits_val a [digit_char d] = 10 * a + d"
  by (simp add: of_char_digit)

lemma digits_val_show_nat: "digits_val 0 (show_nat n) = n"
proof (induction n rule: show_nat.induct)
  case (1 n)
  show ?case
  proof (cases "n < 10")
    case True
    then show ?thesis
      using digits_val_digit [of n 0] by (subst show_nat.simps) simp
  next
    case False
    then show ?thesis
      using 1 by (subst show_nat.simps) (simp add: digits_val_append of_char_digit)
  qed
qed

lemma show_nat_inj: "show_nat m = show_nat n \<longleftrightarrow> m = n"
  by (metis digits_val_show_nat)

lemma show_nat_nonempty [simp]: "show_nat n \<noteq> []"
  by (subst show_nat.simps) auto

section \<open>Lists\<close>

lemma nth_append_drop: "n \<le> length xs \<Longrightarrow> i < length xs - n \<Longrightarrow> drop n xs ! i = xs ! (n + i)"
  by simp

lemma take_add_drop: "take (m + n) xs = take m xs @ take n (drop m xs)"
  by (simp add: take_add)

end
