(* ===== verification/Go_Strings.thy ===== *)
theory Go_Strings
  imports Prelude "HOL-Library.Sublist"
begin

text \<open>
  The part of Go's string library the adapters use.  A Go string is a sequence of bytes, here a
  \<open>string\<close> (a list of 8-bit \<open>char\<close>).  Functions that look at runes decode UTF-8 the way
  \<open>unicode/utf8\<close> does: an invalid sequence decodes to \<open>RuneError\<close> (U+FFFD) of width 1.
\<close>

named_theorems str_simps \<comment> \<open>evaluation and size facts of the string library\<close>

section \<open>Runes\<close>

definition rune_error :: nat where
  "rune_error = 65533"

text \<open>The byte classes of \<open>utf8.first\<close>: sequence length and range of the second byte.\<close>

definition lead_info :: "nat \<Rightarrow> (nat \<times> nat \<times> nat) option" where
  "lead_info b =
     (if 194 \<le> b \<and> b \<le> 223 then Some (2, 128, 191)
      else if b = 224 then Some (3, 160, 191)
      else if b = 237 then Some (3, 128, 159)
      else if 225 \<le> b \<and> b \<le> 239 then Some (3, 128, 191)
      else if b = 240 then Some (4, 144, 191)
      else if 241 \<le> b \<and> b \<le> 243 then Some (4, 128, 191)
      else if b = 244 then Some (4, 128, 143)
      else None)"

definition cont_byte :: "nat \<Rightarrow> bool" where
  "cont_byte b \<longleftrightarrow> 128 \<le> b \<and> b \<le> 191"

fun decode_multi :: "nat \<times> nat \<times> nat \<Rightarrow> nat list \<Rightarrow> nat \<times> nat" where
  "decode_multi (n, lo, hi) (b0 # b1 # bs) =
     (if \<not> (lo \<le> b1 \<and> b1 \<le> hi) then (rune_error, 1)
      else if n = 2 then ((b0 mod 32) * 64 + b1 mod 64, 2)
      else case bs of
             [] \<Rightarrow> (rune_error, 1)
           | b2 # bs' \<Rightarrow>
               (if \<not> cont_byte b2 then (rune_error, 1)
                else if n = 3 then ((b0 mod 16) * 4096 + (b1 mod 64) * 64 + b2 mod 64, 3)
                else case bs' of
                       [] \<Rightarrow> (rune_error, 1)
                     | b3 # _ \<Rightarrow>
                         (if \<not> cont_byte b3 then (rune_error, 1)
                          else ((b0 mod 8) * 262144 + (b1 mod 64) * 4096 + (b2 mod 64) * 64 + b3 mod 64, 4))))"
| "decode_multi _ _ = (rune_error, 1)"

text \<open>\<open>utf8.DecodeRuneInString\<close>.\<close>

definition decode_rune :: "nat list \<Rightarrow> nat \<times> nat" where
  "decode_rune bs =
     (case bs of
        [] \<Rightarrow> (rune_error, 0)
      | b # _ \<Rightarrow>
          (if b < 128 then (b, 1)
           else case lead_info b of None \<Rightarrow> (rune_error, 1) | Some l \<Rightarrow> decode_multi l bs))"

text \<open>
  \<open>utf8.DecodeLastRuneInString\<close>: walk back over at most three continuation bytes to a byte that
  can start a rune, and accept the rune only when it ends where the string does.
\<close>

fun rune_start_back :: "nat \<Rightarrow> nat list \<Rightarrow> nat" where
  "rune_start_back k [] = 0"
| "rune_start_back 0 (b # rs) = 0"
| "rune_start_back (Suc k) (b # rs) = (if cont_byte b then Suc (rune_start_back k rs) else 0)"

definition decode_last_rune :: "nat list \<Rightarrow> nat \<times> nat" where
  "decode_last_rune bs =
     (if bs = [] then (rune_error, 0)
      else if last bs < 128 then (last bs, 1)
      else
        (let back = (if cont_byte (last bs) then Suc (rune_start_back 2 (rev (butlast bs))) else 0);
             start = length bs - 1 - back;
             (r, size) = decode_rune (drop start bs)
         in if start + size \<noteq> length bs then (rune_error, 1) else (r, size)))"

lemma decode_multi_size: "snd (decode_multi l bs) \<ge> 1"
  by (induction l bs rule: decode_multi.induct) (auto split: list.splits)

lemma decode_multi_le: "bs \<noteq> [] \<Longrightarrow> snd (decode_multi l bs) \<le> length bs"
  by (induction l bs rule: decode_multi.induct) (auto split: list.splits)

lemma decode_rune_pos: "bs \<noteq> [] \<Longrightarrow> 1 \<le> snd (decode_rune bs)"
  using decode_multi_size by (auto simp: decode_rune_def split: list.splits option.splits)

lemma decode_rune_le: "snd (decode_rune bs) \<le> length bs"
  using decode_multi_le by (fastforce simp: decode_rune_def split: list.splits option.splits)

lemma decode_last_rune_pos: "bs \<noteq> [] \<Longrightarrow> 1 \<le> snd (decode_last_rune bs)"
proof -
  assume ne: "bs \<noteq> []"
  show ?thesis
  proof (cases "last bs < 128")
    case True
    with ne show ?thesis by (simp add: decode_last_rune_def)
  next
    case False
    define start where
      "start = length bs - 1 - (if cont_byte (last bs) then Suc (rune_start_back 2 (rev (butlast bs))) else 0)"
    have "start < length bs" using ne by (auto simp: start_def)
    then have pos: "1 \<le> snd (decode_rune (drop start bs))" by (intro decode_rune_pos) auto
    obtain r size where rs: "decode_rune (drop start bs) = (r, size)" by fastforce
    have "decode_last_rune bs = (if start + size \<noteq> length bs then (rune_error, 1) else (r, size))"
      using ne False rs unfolding decode_last_rune_def Let_def start_def by simp
    with pos rs show ?thesis by simp
  qed
qed

section \<open>Trimming\<close>

abbreviation codes :: "string \<Rightarrow> nat list" where
  "codes s \<equiv> map of_char s"

text \<open>\<open>strings.TrimLeftFunc\<close> and \<open>strings.TrimRightFunc\<close>: drop runes from an end while the predicate holds.\<close>

function trim_left_fn :: "(nat \<Rightarrow> bool) \<Rightarrow> string \<Rightarrow> string" where
  "trim_left_fn p s =
     (if s = [] then []
      else (let (r, n) = decode_rune (codes s) in if p r then trim_left_fn p (drop n s) else s))"
  by pat_completeness auto
termination
proof (relation "measure (\<lambda>(p, s). length s)")
  fix p :: "nat \<Rightarrow> bool" and s :: string and x r n
  assume "s \<noteq> []" and x: "x = decode_rune (codes s)" and "(r, n) = x" and "p r"
  then have "1 \<le> n" using decode_rune_pos [of "codes s"] by (metis map_is_Nil_conv snd_conv)
  with \<open>s \<noteq> []\<close> show "((p, drop n s), (p, s)) \<in> measure (\<lambda>(p, s). length s)" by simp
qed simp

function trim_right_fn :: "(nat \<Rightarrow> bool) \<Rightarrow> string \<Rightarrow> string" where
  "trim_right_fn p s =
     (if s = [] then []
      else (let (r, n) = decode_last_rune (codes s)
            in if p r then trim_right_fn p (take (length s - n) s) else s))"
  by pat_completeness auto
termination
proof (relation "measure (\<lambda>(p, s). length s)")
  fix p :: "nat \<Rightarrow> bool" and s :: string and x r n
  assume "s \<noteq> []" and x: "x = decode_last_rune (codes s)" and "(r, n) = x" and "p r"
  then have "1 \<le> n" using decode_last_rune_pos [of "codes s"] by (metis map_is_Nil_conv snd_conv)
  with \<open>s \<noteq> []\<close> show "((p, take (length s - n) s), (p, s)) \<in> measure (\<lambda>(p, s). length s)"
    by simp
qed simp

declare trim_left_fn.simps [simp del] trim_right_fn.simps [simp del]

text \<open>\<open>unicode.IsSpace\<close>.\<close>

definition is_space_rune :: "nat \<Rightarrow> bool" where
  "is_space_rune r \<longleftrightarrow>
     (9 \<le> r \<and> r \<le> 13) \<or> r = 32 \<or> r = 133 \<or> r = 160 \<or> r = 5760 \<or> (8192 \<le> r \<and> r \<le> 8202)
     \<or> r = 8232 \<or> r = 8233 \<or> r = 8239 \<or> r = 8287 \<or> r = 12288"

definition trim_space :: "string \<Rightarrow> string" where
  "trim_space s = trim_right_fn is_space_rune (trim_left_fn is_space_rune s)"

text \<open>\<open>strings.Trim\<close> with a one-byte ASCII cutset works on bytes.\<close>

definition trim_byte :: "char \<Rightarrow> string \<Rightarrow> string" where
  "trim_byte c s = dropWhile (\<lambda>x. x = c) (rev (dropWhile (\<lambda>x. x = c) (rev s)))"

text \<open>
  \<open>strings.Trim\<close> with a cutset that is not ASCII works on runes; a byte of the cutset that is not
  valid UTF-8 stands for \<open>RuneError\<close>.
\<close>

fun cutset_runes_aux :: "nat \<Rightarrow> nat list \<Rightarrow> nat list" where
  "cutset_runes_aux 0 bs = []"
| "cutset_runes_aux (Suc k) bs =
     (if bs = [] then [] else (let (r, n) = decode_rune bs in r # cutset_runes_aux k (drop n bs)))"

definition cutset_runes :: "nat list \<Rightarrow> nat list" where
  "cutset_runes bs = cutset_runes_aux (length bs) bs"

definition trim_runes :: "nat list \<Rightarrow> string \<Rightarrow> string" where
  "trim_runes cutset s =
     (if s = [] \<or> cutset = [] then s
      else trim_left_fn (\<lambda>r. r \<in> set (cutset_runes cutset))
             (trim_right_fn (\<lambda>r. r \<in> set (cutset_runes cutset)) s))"

lemma trim_left_suffix: "suffix (trim_left_fn p s) s"
proof (induction p s rule: trim_left_fn.induct)
  case (1 p s)
  show ?case
  proof (cases "s = []")
    case True
    then show ?thesis by (simp add: trim_left_fn.simps)
  next
    case False
    obtain r n where rn: "decode_rune (codes s) = (r, n)" by fastforce
    show ?thesis
    proof (cases "p r")
      case True
      then have "suffix (trim_left_fn p (drop n s)) (drop n s)"
        using 1 [OF False] rn by simp
      then have "suffix (trim_left_fn p (drop n s)) s"
        using suffix_drop suffix_order.trans by blast
      then show ?thesis using False True rn by (subst trim_left_fn.simps) simp
    next
      case False
      then show ?thesis using \<open>s \<noteq> []\<close> rn by (subst trim_left_fn.simps) simp
    qed
  qed
qed

lemma trim_right_prefix: "prefix (trim_right_fn p s) s"
proof (induction p s rule: trim_right_fn.induct)
  case (1 p s)
  show ?case
  proof (cases "s = []")
    case True
    then show ?thesis by (simp add: trim_right_fn.simps)
  next
    case False
    obtain r n where rn: "decode_last_rune (codes s) = (r, n)" by fastforce
    show ?thesis
    proof (cases "p r")
      case True
      then have "prefix (trim_right_fn p (take (length s - n) s)) (take (length s - n) s)"
        using 1 [OF False] rn by simp
      then have "prefix (trim_right_fn p (take (length s - n) s)) s"
        using take_is_prefix prefix_order.trans by blast
      then show ?thesis using False True rn by (subst trim_right_fn.simps) simp
    next
      case False
      then show ?thesis using \<open>s \<noteq> []\<close> rn by (subst trim_right_fn.simps) simp
    qed
  qed
qed

lemma trim_left_Nil [simp]: "trim_left_fn p [] = []"
  by (simp add: trim_left_fn.simps)

lemma trim_right_Nil [simp]: "trim_right_fn p [] = []"
  by (simp add: trim_right_fn.simps)

lemma trim_space_Nil [simp]: "trim_space [] = []"
  by (simp add: trim_space_def)

lemma trim_space_length [str_simps]: "length (trim_space s) \<le> length s"
  using suffix_length_le [OF trim_left_suffix] prefix_length_le [OF trim_right_prefix] le_trans
  unfolding trim_space_def by blast

lemma trim_space_sublist: "sublist (trim_space s) s"
  unfolding trim_space_def
  using trim_left_suffix [of is_space_rune s] trim_right_prefix [of is_space_rune]
  by (meson prefix_imp_sublist suffix_imp_sublist sublist_order.order_trans)

text \<open>Trimming is idempotent: cutting a string behind its first rune cannot turn that rune into a space.\<close>

lemma decode_multi_take:
  "decode_multi l (take k bs) = decode_multi l bs \<or> fst (decode_multi l (take k bs)) = rune_error"
proof -
  obtain n lo hi where "l = (n, lo, hi)" by (cases l)
  then show ?thesis
    by (cases k; cases "k - 1"; cases "k - 2"; cases "k - 3"; cases bs; cases "tl bs"; cases "tl (tl bs)"; cases "tl (tl (tl bs))")
      auto
qed

lemma decode_rune_take:
  assumes "0 < k"
  shows "decode_rune (take k bs) = decode_rune bs \<or> fst (decode_rune (take k bs)) = rune_error"
proof (cases bs)
  case (Cons b bs')
  then have "take k bs = b # take (k - 1) bs'" using assms by (cases k) simp_all
  then show ?thesis using Cons decode_multi_take [of _ k bs] by (auto simp: decode_rune_def split: option.split)
qed simp

lemma trim_left_start: "trim_left_fn p s = [] \<or> \<not> p (fst (decode_rune (codes (trim_left_fn p s))))"
proof (induction p s rule: trim_left_fn.induct)
  case (1 p s)
  obtain r n where rn: "decode_rune (codes s) = (r, n)" by fastforce
  show ?case
  proof (cases "s = [] \<or> \<not> p r")
    case True
    then show ?thesis using rn by (subst (1 2) trim_left_fn.simps) auto
  next
    case False
    then have "trim_left_fn p s = trim_left_fn p (drop n s)" using rn by (subst trim_left_fn.simps) simp
    then show ?thesis using 1 [OF _ rn [symmetric] refl] False by auto
  qed
qed

lemma trim_right_end: "trim_right_fn p s = [] \<or> \<not> p (fst (decode_last_rune (codes (trim_right_fn p s))))"
proof (induction p s rule: trim_right_fn.induct)
  case (1 p s)
  obtain r n where rn: "decode_last_rune (codes s) = (r, n)" by fastforce
  show ?case
  proof (cases "s = [] \<or> \<not> p r")
    case True
    then show ?thesis using rn by (subst (1 2) trim_right_fn.simps) auto
  next
    case False
    then have "trim_right_fn p s = trim_right_fn p (take (length s - n) s)" using rn by (subst trim_right_fn.simps) simp
    then show ?thesis using 1 [OF _ rn [symmetric] refl] False by auto
  qed
qed

lemma trim_left_done: "\<not> p (fst (decode_rune (codes s))) \<Longrightarrow> trim_left_fn p s = s"
  by (subst trim_left_fn.simps) (auto split: prod.split)

lemma trim_right_done: "\<not> p (fst (decode_last_rune (codes s))) \<Longrightarrow> trim_right_fn p s = s"
  by (subst trim_right_fn.simps) (auto split: prod.split)

lemma trim_space_idem [simp]: "trim_space (trim_space s) = trim_space s"
proof (cases "trim_space s = []")
  case False
  define u where "u = trim_left_fn is_space_rune s"
  define t where "t = trim_right_fn is_space_rune u"
  have t: "t \<noteq> []" "trim_space s = t" using False by (simp_all add: trim_space_def u_def t_def)
  have "prefix t u" unfolding t_def by (rule trim_right_prefix)
  then obtain v where v: "u = t @ v" by (auto simp: prefix_def)
  then have "codes t = take (length t) (codes u)" by simp
  then have "decode_rune (codes t) = decode_rune (codes u) \<or> fst (decode_rune (codes t)) = rune_error"
    using decode_rune_take [of "length t" "codes u"] t(1) by simp
  moreover have "\<not> is_space_rune (fst (decode_rune (codes u)))"
    using trim_left_start [of is_space_rune s] v t(1) by (simp add: u_def)
  moreover have "\<not> is_space_rune rune_error" by (simp add: is_space_rune_def rune_error_def)
  ultimately have "trim_left_fn is_space_rune t = t" by (metis trim_left_done)
  moreover have "trim_right_fn is_space_rune t = t"
    using trim_right_end [of is_space_rune u] t(1) by (simp add: trim_right_done flip: t_def)
  ultimately show ?thesis by (simp add: t(2)) (simp add: trim_space_def)
qed simp

text \<open>On printable ASCII the trimmed string neither starts nor ends with a blank.\<close>

lemma trim_left_ascii:
  assumes "\<forall>c \<in> set s. of_char c < (128 :: nat)"
  shows "trim_left_fn p s = dropWhile (\<lambda>c. p (of_char c)) s"
  using assms
proof (induction s)
  case (Cons c s)
  then show ?case by (subst trim_left_fn.simps) (simp add: decode_rune_def)
qed simp

lemma trim_right_ascii:
  assumes "\<forall>c \<in> set s. of_char c < (128 :: nat)"
  shows "trim_right_fn p s = rev (dropWhile (\<lambda>c. p (of_char c)) (rev s))"
  using assms
proof (induction s rule: rev_induct)
  case (snoc c s)
  then show ?case by (subst trim_right_fn.simps) (simp add: decode_last_rune_def)
qed simp

section \<open>Searching and splitting\<close>

definition has_prefix :: "string \<Rightarrow> string \<Rightarrow> bool" where
  "has_prefix s p = (take (length p) s = p)"

definition has_suffix :: "string \<Rightarrow> string \<Rightarrow> bool" where
  "has_suffix s p = (length p \<le> length s \<and> drop (length s - length p) s = p)"

fun contains_str :: "string \<Rightarrow> string \<Rightarrow> bool" where
  "contains_str [] p = (p = [])"
| "contains_str (c # s) p = (has_prefix (c # s) p \<or> contains_str s p)"

text \<open>\<open>strings.CutPrefix\<close>.\<close>

definition cut_prefix :: "string \<Rightarrow> string \<Rightarrow> string option" where
  "cut_prefix s p = (if has_prefix s p then Some (drop (length p) s) else None)"

text \<open>\<open>strings.Split\<close> at a one-byte separator.\<close>

fun split_at :: "char \<Rightarrow> string \<Rightarrow> string list" where
  "split_at c [] = [[]]"
| "split_at c (x # s) =
     (if x = c then [] # split_at c s
      else case split_at c s of [] \<Rightarrow> [[x]] | w # ws \<Rightarrow> (x # w) # ws)"

lemma split_at_nonempty [simp]: "split_at c s \<noteq> []"
  by (induction s) (auto split: list.splits)

lemma contains_str_iff: "contains_str s p \<longleftrightarrow> sublist p s"
proof (induction s)
  case Nil
  then show ?case by simp
next
  case (Cons c s)
  have "has_prefix (c # s) p \<longleftrightarrow> prefix p (c # s)"
    by (simp add: has_prefix_def prefix_def) (metis append_eq_conv_conj append_take_drop_id)
  with Cons show ?case by (simp add: sublist_Cons_right)
qed

section \<open>Numbers: \<open>strconv.Atoi\<close> and \<open>strconv.ParseInt\<close> in base 10\<close>

definition is_digit :: "char \<Rightarrow> bool" where
  "is_digit c \<longleftrightarrow> 48 \<le> (of_char c :: nat) \<and> (of_char c :: nat) \<le> 57"

definition parse_digits :: "string \<Rightarrow> nat option" where
  "parse_digits s = (if s \<noteq> [] \<and> list_all is_digit s then Some (digits_val 0 s) else None)"

definition atoi :: "string \<Rightarrow> int option" where
  "atoi s =
     (case s of
        [] \<Rightarrow> None
      | c # cs \<Rightarrow>
          (let v = (if c = CHR ''-'' then map_option (\<lambda>n. - int n) (parse_digits cs)
                    else if c = CHR ''+'' then map_option int (parse_digits cs)
                    else map_option int (parse_digits s))
           in case v of None \<Rightarrow> None | Some i \<Rightarrow> if in_s64 i then Some i else None))"

lemma atoi_in_s64: "atoi s = Some i \<Longrightarrow> in_s64 i"
  by (auto simp: atoi_def Let_def split: list.splits option.splits if_splits)

lemma is_digit_show_nat: "list_all is_digit (show_nat n)"
proof (induction n rule: show_nat.induct)
  case (1 n)
  have d: "m < 10 \<Longrightarrow> is_digit (digit_char m)" for m
    by (simp add: is_digit_def of_char_digit)
  show ?case
    using 1 d by (subst show_nat.simps) auto
qed

lemma parse_digits_show_nat: "parse_digits (show_nat n) = Some n"
  by (simp add: parse_digits_def is_digit_show_nat digits_val_show_nat)

lemma atoi_show_int: "in_s64 i \<Longrightarrow> atoi (show_int i) = Some i"
proof -
  assume "in_s64 i"
  obtain c cs where s: "show_nat (nat i) = c # cs"
    using show_nat_nonempty [of "nat i"] by (cases "show_nat (nat i)") auto
  have "is_digit c" using is_digit_show_nat [of "nat i"] s by simp
  then have "c \<noteq> CHR ''-''" "c \<noteq> CHR ''+''" by (auto simp: is_digit_def)
  with \<open>in_s64 i\<close> s show ?thesis
    using parse_digits_show_nat [of "nat i"] parse_digits_show_nat [of "nat (- i)"]
    by (auto simp: atoi_def show_int_def Let_def)
qed

section \<open>Letter case\<close>

text \<open>
  \<open>strings.EqualFold\<close> against an ASCII string: letters fold, and the Kelvin sign and the long s are the only
  other characters that fold into ASCII.
\<close>

definition ascii_lower :: "char \<Rightarrow> char" where
  "ascii_lower c = (let n = of_char c :: nat in if 65 \<le> n \<and> n \<le> 90 then char_of (n + 32) else c)"

fun fold_case :: "string \<Rightarrow> string" where
  "fold_case (a # b # c # s) =
     (if a = CHR 0xE2 \<and> b = CHR 0x84 \<and> c = CHR 0xAA then CHR ''k'' # fold_case s
      else if a = CHR 0xC5 \<and> b = CHR 0xBF then CHR ''s'' # fold_case (c # s)
      else ascii_lower a # fold_case (b # c # s))"
| "fold_case [a, b] = (if a = CHR 0xC5 \<and> b = CHR 0xBF then ''s'' else [ascii_lower a, ascii_lower b])"
| "fold_case [a] = [ascii_lower a]"
| "fold_case [] = []"

definition equal_fold :: "string \<Rightarrow> string \<Rightarrow> bool" where
  "equal_fold s t = (fold_case s = fold_case t)"

text \<open>
  \<open>strings.ToLower\<close> as far as a comparison of the result with an ASCII string goes: the Kelvin sign and the dotted
  capital I are the only other characters whose lower case is ASCII.
\<close>

fun lower_view :: "string \<Rightarrow> string" where
  "lower_view (a # b # c # s) =
     (if a = CHR 0xE2 \<and> b = CHR 0x84 \<and> c = CHR 0xAA then CHR ''k'' # lower_view s
      else if a = CHR 0xC4 \<and> b = CHR 0xB0 then CHR ''i'' # lower_view (c # s)
      else ascii_lower a # lower_view (b # c # s))"
| "lower_view [a, b] = (if a = CHR 0xC4 \<and> b = CHR 0xB0 then ''i'' else [ascii_lower a, ascii_lower b])"
| "lower_view [a] = [ascii_lower a]"
| "lower_view [] = []"

lemma fold_case_ascii: "\<forall>c \<in> set s. of_char c < (128 :: nat) \<Longrightarrow> fold_case s = map ascii_lower s"
proof (induction s rule: fold_case.induct)
  case (1 a b c s)
  then have "a \<noteq> CHR 0xE2" "a \<noteq> CHR 0xC5" by auto
  then show ?case using 1 by simp
next
  case (2 a b)
  then have "a \<noteq> CHR 0xC5" by auto
  then show ?case by simp
qed simp_all

end
