(* ===== verification/Poll.thy ===== *)
theory Poll
  imports Prelude Go_Strings
begin

text \<open>
  The polling schedule shared by every adapter (\<open>adapters/common/poll/poll.go\<close>): the delay
  derived from caching headers, the backoff after a failed poll, and jitter.  Durations are Go's
  \<open>time.Duration\<close>, nanoseconds in an \<open>int64\<close>; a product that may overflow is wrapped by \<open>s64\<close>.
  \<open>http.ParseTime\<close> and the clock belong to the environment: \<open>clock_env\<close> carries both.
\<close>

type_synonym header = "string \<Rightarrow> string option"

text \<open>\<open>Header.Get\<close>: the value of a field, or the empty string.\<close>

definition hget :: "header \<Rightarrow> string \<Rightarrow> string" where
  "hget h k = (case h k of None \<Rightarrow> '''' | Some v \<Rightarrow> v)"

record clock_env =
  now :: int
  parse_time :: "string \<Rightarrow> int option"

definition second :: int where
  "second = 1000000000"

text \<open>\<open>time.Time.Sub\<close> saturates at the ends of \<open>int64\<close>.\<close>

definition time_sub :: "int \<Rightarrow> int \<Rightarrow> int" where
  "time_sub a b = max (- (2 ^ 63)) (min max_int64 (a - b))"

definition time_until :: "clock_env \<Rightarrow> int \<Rightarrow> int" where
  "time_until c t = time_sub t (now c)"

section \<open>The model\<close>

fun parse_max_age_dirs :: "string list \<Rightarrow> int option" where
  "parse_max_age_dirs [] = None"
| "parse_max_age_dirs (d # ds) =
     (case cut_prefix (trim_space d) ''max-age='' of
        None \<Rightarrow> parse_max_age_dirs ds
      | Some v \<Rightarrow> (case atoi v of None \<Rightarrow> None | Some n \<Rightarrow> if n < 0 then None else Some n))"

definition parse_max_age :: "string \<Rightarrow> int option" where
  "parse_max_age cache_control = parse_max_age_dirs (split_at CHR '','' cache_control)"

definition compute_next_poll_delay :: "clock_env \<Rightarrow> header \<Rightarrow> int \<Rightarrow> int" where
  "compute_next_poll_delay c h floor =
     (let delay = floor;
          delay = (if hget h ''Expires'' \<noteq> '''' then
                     (case parse_time c (hget h ''Expires'') of
                        None \<Rightarrow> delay
                      | Some t \<Rightarrow> if delay < time_until c t then time_until c t else delay)
                   else delay)
      in case parse_max_age (hget h ''Cache-Control'') of
           None \<Rightarrow> delay
         | Some max_age \<Rightarrow> (let d = s64 (max_age * second) in if delay < d then d else delay))"

definition parse_retry_after :: "clock_env \<Rightarrow> header \<Rightarrow> int option" where
  "parse_retry_after c h =
     (let v = hget h ''Retry-After'' in
      if v = '''' then None
      else case atoi v of
             Some seconds \<Rightarrow> Some (s64 ((if seconds < 0 then 0 else seconds) * second))
           | None \<Rightarrow>
               (case parse_time c v of
                  Some t \<Rightarrow> if 0 < time_until c t then Some (time_until c t) else Some 0
                | None \<Rightarrow> None))"

definition clamp :: "int \<Rightarrow> int \<Rightarrow> int \<Rightarrow> int" where
  "clamp value floor ceiling =
     (if value < floor then floor else if ceiling < value then ceiling else value)"

definition compute_backoff :: "clock_env \<Rightarrow> header \<Rightarrow> int \<Rightarrow> int \<Rightarrow> int \<Rightarrow> int" where
  "compute_backoff c h previous floor ceiling =
     (case parse_retry_after c h of
        Some delay \<Rightarrow> if delay < floor then floor else delay
      | None \<Rightarrow> if previous < floor then floor else clamp (s64 (previous * 2)) floor ceiling)"

text \<open>\<open>rng\<close> is \<open>Int63n\<close>: for a positive bound it returns a number in [0, bound).\<close>

definition int63n_ok :: "(int \<Rightarrow> int) \<Rightarrow> bool" where
  "int63n_ok rng \<longleftrightarrow> (\<forall>n > 0. 0 \<le> rng n \<and> rng n < n)"

definition jitter :: "int \<Rightarrow> int \<Rightarrow> (int \<Rightarrow> int) \<Rightarrow> int" where
  "jitter delay maximum rng = (if maximum \<le> 0 then delay else s64 (delay + rng maximum))"

section \<open>Backoff as an interface\<close>

text \<open>
  What a client of a backoff needs: from any previous delay the next one lies between the floor
  and the ceiling, and it does not shrink while the previous delay is within the bounds.
\<close>

locale backoff_policy =
  fixes next_delay :: "int \<Rightarrow> int" and lo hi :: int
  assumes bounds_ordered: "lo \<le> hi"
    and next_ge: "lo \<le> next_delay p"
    and next_le: "p \<le> hi \<Longrightarrow> next_delay p \<le> hi"
    and next_grows: "p \<le> hi \<Longrightarrow> p \<le> next_delay p"
    and next_double: "lo \<le> p \<Longrightarrow> p \<le> hi \<Longrightarrow> next_delay p = min hi (2 * p)"
    and next_start: "p < lo \<Longrightarrow> next_delay p = lo"
begin

lemma iterate_bounds: "p \<le> hi \<Longrightarrow> (next_delay ^^ n) p \<le> hi"
  by (induction n) (auto intro: next_le)

lemma iterate_ge: "lo \<le> (next_delay ^^ Suc n) p"
  by (simp add: next_ge)

lemma iterate_mono: "p \<le> hi \<Longrightarrow> (next_delay ^^ n) p \<le> (next_delay ^^ Suc n) p"
  by (simp add: next_grows iterate_bounds)

lemma iterate_closed_form:
  assumes "0 < lo" "p < lo"
  shows "(next_delay ^^ Suc n) p = min hi (lo * 2 ^ n)"
proof (induction n)
  case 0
  then show ?case using assms bounds_ordered by (simp add: next_start)
next
  case (Suc n)
  have "lo \<le> lo * 2 ^ n" using assms(1) by (simp add: mult_le_cancel_left1)
  then have "lo \<le> min hi (lo * 2 ^ n)" using bounds_ordered by simp
  then have "next_delay (min hi (lo * 2 ^ n)) = min hi (2 * min hi (lo * 2 ^ n))"
    by (simp add: next_double)
  also have "\<dots> = min hi (lo * 2 ^ Suc n)"
    using assms(1) bounds_ordered by (auto simp: min_def)
  finally show ?case using Suc by simp
qed

end

definition no_header :: header where
  "no_header = (\<lambda>_. None)"

lemma parse_retry_after_no_header [simp]: "parse_retry_after c no_header = None"
  by (simp add: parse_retry_after_def hget_def no_header_def)

lemma clamp_bounds: "lo \<le> hi \<Longrightarrow> lo \<le> clamp v lo hi \<and> clamp v lo hi \<le> hi"
  by (simp add: clamp_def)

text \<open>
  The doubling policy without a \<open>Retry-After\<close> header satisfies the interface for every pair of
  bounds whose ceiling can be doubled in an \<open>int64\<close>; the interpretation is on the adapters' own
  defaults, one second to thirty seconds.
\<close>

lemma backoff_policy_compute_backoff:
  assumes "0 < lo" "lo \<le> hi" "2 * hi \<le> max_int64"
  shows "backoff_policy (\<lambda>p. compute_backoff c no_header p lo hi) lo hi"
proof
  have dbl: "s64 (p * 2) = 2 * p" if "lo \<le> p" "p \<le> hi" for p
    using that assms by (subst s64_id) (auto simp: in_s64_def max_int64_def)
  show "lo \<le> hi" by fact
  show "lo \<le> compute_backoff c no_header p lo hi" for p
    using clamp_bounds [OF assms(2)] by (simp add: compute_backoff_def)
  show "compute_backoff c no_header p lo hi \<le> hi" if "p \<le> hi" for p
    using clamp_bounds [OF assms(2)] assms by (simp add: compute_backoff_def)
  show "p \<le> compute_backoff c no_header p lo hi" if "p \<le> hi" for p
    using that dbl [of p] assms by (auto simp: compute_backoff_def clamp_def)
  show "compute_backoff c no_header p lo hi = min hi (2 * p)" if "lo \<le> p" "p \<le> hi" for p
    using that dbl [of p] assms by (auto simp: compute_backoff_def clamp_def)
  show "compute_backoff c no_header p lo hi = lo" if "p < lo" for p
    using that by (simp add: compute_backoff_def)
qed

interpretation default_backoff: backoff_policy
  "\<lambda>p. compute_backoff c no_header p second (30 * second)" second "30 * second" for c
  by (rule backoff_policy_compute_backoff) (simp_all add: second_def max_int64_def)

section \<open>Properties\<close>

definition epoch_clock :: clock_env where
  "epoch_clock = \<lparr>now = 0, parse_time = (\<lambda>_. None)\<rparr>"

lemma parse_retry_after_seconds:
  assumes "hget h ''Retry-After'' = show_int n" "0 \<le> n" "n < 2 ^ 63"
  shows "parse_retry_after c h = Some (s64 (n * second))"
proof -
  have "atoi (show_int n) = Some n"
    using assms by (intro atoi_show_int) (simp add: in_s64_def)
  moreover have "show_int n \<noteq> ''''" using assms by (simp add: show_int_def)
  ultimately show ?thesis using assms by (simp add: parse_retry_after_def)
qed

text \<open>Whatever caching headers a response carries, including a \<open>max-age\<close> whose product with a
  second overflows \<open>int64\<close>, the next poll is never scheduled below the floor.\<close>

theorem next_poll_delay_ge_floor: "floor \<le> compute_next_poll_delay c h floor"
  by (simp add: compute_next_poll_delay_def Let_def split: option.splits)

text \<open>With no \<open>Retry-After\<close>, repeated failures wait the floor, twice the floor, four times the
  floor and so on, capped by the ceiling and never wrapping around.\<close>

theorem backoff_doubles_to_ceiling:
  assumes "0 < lo" "lo \<le> hi" "2 * hi \<le> max_int64"
  shows "((\<lambda>p. compute_backoff c no_header p lo hi) ^^ Suc n) 0 = min hi (lo * 2 ^ n)"
  by (rule backoff_policy.iterate_closed_form [OF backoff_policy_compute_backoff [OF assms]])
    (use assms in auto)

theorem backoff_doubles_to_ceiling_witness:
  "((\<lambda>p. compute_backoff epoch_clock no_header p second (30 * second)) ^^ Suc 3) 0 = 8 * second
   \<and> ((\<lambda>p. compute_backoff epoch_clock no_header p second (30 * second)) ^^ Suc 5) 0 = 30 * second"
  using backoff_doubles_to_ceiling [of second "30 * second" 3 epoch_clock]
    backoff_doubles_to_ceiling [of second "30 * second" 5 epoch_clock]
  by (simp add: second_def max_int64_def)

text \<open>A \<open>Retry-After\<close> in seconds that fits a duration is honoured exactly, raised to the floor
  but never cut by the ceiling.\<close>

theorem retry_after_honoured:
  assumes "hget h ''Retry-After'' = show_int n" "0 \<le> n" "n * second \<le> max_int64"
  shows "compute_backoff c h previous floor ceiling = max floor (n * second)"
proof -
  have n: "n < 2 ^ 63" "in_s64 (n * second)"
    using assms by (auto simp: second_def max_int64_def in_s64_def)
  then show ?thesis
    using parse_retry_after_seconds [OF assms(1,2) n(1)] by (simp add: compute_backoff_def s64_id)
qed

theorem retry_after_honoured_witness:
  "compute_backoff epoch_clock [''Retry-After'' \<mapsto> show_int 120] 0 second (30 * second) = 120 * second"
  using retry_after_honoured [of "[''Retry-After'' \<mapsto> show_int 120]" 120 epoch_clock 0 second "30 * second"]
  by (simp add: hget_def second_def max_int64_def)

text \<open>A \<open>Retry-After\<close> so large that its nanoseconds overflow \<open>int64\<close> is not honoured: a request to
  wait 9223372037 seconds becomes a negative duration and the poller retries after the floor.\<close>

theorem retry_after_overflow:
  assumes "hget h ''Retry-After'' = show_int 9223372037" "0 \<le> floor"
  shows "compute_backoff c h previous floor ceiling = floor"
proof -
  have "s64 (9223372037 * second) = 9223372037 * second - 2 ^ 64"
    by (rule s64_sub_overflow) (simp_all add: second_def)
  then have "s64 (9223372037 * second) < 0" by (simp add: second_def)
  then show ?thesis
    using assms parse_retry_after_seconds [OF assms(1)] by (simp add: compute_backoff_def)
qed

theorem retry_after_overflow_witness:
  "compute_backoff epoch_clock [''Retry-After'' \<mapsto> show_int 9223372037] 0 second (30 * second) = second"
  using retry_after_overflow [of "[''Retry-After'' \<mapsto> show_int 9223372037]" second epoch_clock 0 "30 * second"]
  by (simp add: hget_def second_def)

end
