(* ===== verification/Go_Float.thy ===== *)
theory Go_Float
  imports Prelude "HOL-Library.Log_Nat" Complex_Main
begin

text \<open>
  Go's \<open>float64\<close>: IEEE 754 binary64 with round to nearest, ties to even.  A finite number is a
  sign, a mantissa and a binary exponent in canonical form (mantissa in [2^52, 2^53), or exponent
  -1074 for a subnormal, or mantissa and exponent 0 for a zero), so that two equal numbers that are
  not zeros are equal terms.  Every operation rounds the exact result once.
\<close>

datatype f64 = FNaN | FInf bool | FNum bool int int

section \<open>Rounding\<close>

text \<open>The quotient \<open>n / (d * 2 ^ e)\<close> as a numerator and a denominator.\<close>

definition scale_ratio :: "int \<Rightarrow> int \<Rightarrow> int \<Rightarrow> int \<times> int" where
  "scale_ratio n d e = (if 0 \<le> e then (n, d * 2 ^ nat e) else (n * 2 ^ nat (- e), d))"

definition ratio_exp :: "int \<Rightarrow> int \<Rightarrow> int" where
  "ratio_exp n d =
     (let e0 = bitlen n - bitlen d - 53;
          (n', d') = scale_ratio n d e0
      in max (if n' div d' < 2 ^ 53 then e0 else e0 + 1) (- 1074))"

definition round_half_even :: "int \<Rightarrow> int \<Rightarrow> int" where
  "round_half_even n d =
     (let q = n div d; r = n mod d
      in if d < 2 * r \<or> (2 * r = d \<and> q mod 2 = 1) then q + 1 else q)"

text \<open>The double nearest to \<open>n / d\<close> with the given sign, for \<open>n \<ge> 0\<close> and \<open>d > 0\<close>.\<close>

definition round_ratio :: "bool \<Rightarrow> int \<Rightarrow> int \<Rightarrow> f64" where
  "round_ratio s n d =
     (if n = 0 then FNum s 0 0
      else
        (let e = ratio_exp n d;
             (n', d') = scale_ratio n d e;
             q = round_half_even n' d';
             (m, e') = (if q = 2 ^ 53 then (2 ^ 52, e + 1) else (q, e))
         in if 971 < e' then FInf s else if m = 0 then FNum s 0 0 else FNum s m e'))"

text \<open>The double nearest to \<open>m * 2 ^ e\<close>; \<open>s\<close> is the sign of a zero result.\<close>

definition round_int :: "bool \<Rightarrow> int \<Rightarrow> int \<Rightarrow> f64" where
  "round_int s m e =
     (if m = 0 then FNum s 0 0
      else if 0 \<le> e then round_ratio (m < 0) (\<bar>m\<bar> * 2 ^ nat e) 1
      else round_ratio (m < 0) \<bar>m\<bar> (2 ^ nat (- e)))"

section \<open>Operations\<close>

definition f_of_int :: "int \<Rightarrow> f64" where
  "f_of_int i = round_int False i 0"

definition signed_mant :: "bool \<Rightarrow> int \<Rightarrow> int" where
  "signed_mant s m = (if s then - m else m)"

fun f_neg :: "f64 \<Rightarrow> f64" where
  "f_neg FNaN = FNaN"
| "f_neg (FInf s) = FInf (\<not> s)"
| "f_neg (FNum s m e) = FNum (\<not> s) m e"

fun f_abs :: "f64 \<Rightarrow> f64" where
  "f_abs FNaN = FNaN"
| "f_abs (FInf s) = FInf False"
| "f_abs (FNum s m e) = FNum False m e"

fun f_add :: "f64 \<Rightarrow> f64 \<Rightarrow> f64" where
  "f_add FNaN y = FNaN"
| "f_add x FNaN = FNaN"
| "f_add (FInf s) (FInf t) = (if s = t then FInf s else FNaN)"
| "f_add (FInf s) (FNum _ _ _) = FInf s"
| "f_add (FNum _ _ _) (FInf t) = FInf t"
| "f_add (FNum s m e) (FNum t n g) =
     (let k = min e g;
          v = signed_mant s m * 2 ^ nat (e - k) + signed_mant t n * 2 ^ nat (g - k)
      in round_int (s \<and> t) v k)"

definition f_sub :: "f64 \<Rightarrow> f64 \<Rightarrow> f64" where
  "f_sub x y = f_add x (f_neg y)"

fun f_mul :: "f64 \<Rightarrow> f64 \<Rightarrow> f64" where
  "f_mul FNaN y = FNaN"
| "f_mul x FNaN = FNaN"
| "f_mul (FInf s) (FInf t) = FInf (s \<noteq> t)"
| "f_mul (FInf s) (FNum t n g) = (if n = 0 then FNaN else FInf (s \<noteq> t))"
| "f_mul (FNum s m e) (FInf t) = (if m = 0 then FNaN else FInf (s \<noteq> t))"
| "f_mul (FNum s m e) (FNum t n g) = round_int (s \<noteq> t) (signed_mant s m * signed_mant t n) (e + g)"

fun f_div :: "f64 \<Rightarrow> f64 \<Rightarrow> f64" where
  "f_div FNaN y = FNaN"
| "f_div x FNaN = FNaN"
| "f_div (FInf s) (FInf t) = FNaN"
| "f_div (FInf s) (FNum t n g) = FInf (s \<noteq> t)"
| "f_div (FNum s m e) (FInf t) = FNum (s \<noteq> t) 0 0"
| "f_div (FNum s m e) (FNum t n g) =
     (if n = 0 then (if m = 0 then FNaN else FInf (s \<noteq> t))
      else if g \<le> e then round_ratio (s \<noteq> t) (m * 2 ^ nat (e - g)) n
      else round_ratio (s \<noteq> t) m (n * 2 ^ nat (g - e)))"

text \<open>Comparison: numbers are aligned to a common exponent; every comparison with NaN is false.\<close>

fun f_lt :: "f64 \<Rightarrow> f64 \<Rightarrow> bool" where
  "f_lt FNaN y = False"
| "f_lt x FNaN = False"
| "f_lt (FInf s) (FInf t) = (s \<and> \<not> t)"
| "f_lt (FInf s) (FNum _ _ _) = s"
| "f_lt (FNum _ _ _) (FInf t) = (\<not> t)"
| "f_lt (FNum s m e) (FNum t n g) =
     (let k = min e g
      in signed_mant s m * 2 ^ nat (e - k) < signed_mant t n * 2 ^ nat (g - k))"

fun f_eq :: "f64 \<Rightarrow> f64 \<Rightarrow> bool" where
  "f_eq FNaN y = False"
| "f_eq x FNaN = False"
| "f_eq (FInf s) (FInf t) = (s = t)"
| "f_eq (FInf s) (FNum _ _ _) = False"
| "f_eq (FNum _ _ _) (FInf t) = False"
| "f_eq (FNum s m e) (FNum t n g) =
     (let k = min e g
      in signed_mant s m * 2 ^ nat (e - k) = signed_mant t n * 2 ^ nat (g - k))"

definition f_le :: "f64 \<Rightarrow> f64 \<Rightarrow> bool" where
  "f_le x y \<longleftrightarrow> f_lt x y \<or> f_eq x y"

text \<open>Integer part towards zero, as an exact integer; \<open>None\<close> for NaN and the infinities.\<close>

fun f_trunc :: "f64 \<Rightarrow> int option" where
  "f_trunc (FNum s m e) =
     (let n = (if 0 \<le> e then m * 2 ^ nat e else m div 2 ^ nat (- e)) in Some (signed_mant s n))"
| "f_trunc _ = None"

text \<open>
  The conversion \<open>int64(x)\<close>: when the value does not fit, the result is implementation-dependent;
  \<open>ovf\<close> is that result (on amd64, \<open>- 2 ^ 63\<close>).
\<close>

definition f_to_i64 :: "int \<Rightarrow> f64 \<Rightarrow> int" where
  "f_to_i64 ovf x = (case f_trunc x of Some i \<Rightarrow> if in_s64 i then i else ovf | None \<Rightarrow> ovf)"

text \<open>\<open>math.Round\<close>: to the nearest integer, halves away from zero.\<close>

fun f_round :: "f64 \<Rightarrow> f64" where
  "f_round FNaN = FNaN"
| "f_round (FInf s) = FInf s"
| "f_round (FNum s m e) =
     (if 0 \<le> e then FNum s m e
      else round_int s (signed_mant s ((2 * m + 2 ^ nat (- e)) div (2 * 2 ^ nat (- e)))) 0)"

text \<open>\<open>int(math.Round(x))\<close>.\<close>

definition round_to_int :: "int \<Rightarrow> f64 \<Rightarrow> int" where
  "round_to_int ovf x = f_to_i64 ovf (f_round x)"

section \<open>\<open>math.Pow10\<close>\<close>

text \<open>Go multiplies or divides entries of two tables of correctly rounded powers of ten.\<close>

definition pow10tab :: "nat \<Rightarrow> f64" where
  "pow10tab i = round_ratio False (10 ^ i) 1"

definition pow10postab32 :: "nat \<Rightarrow> f64" where
  "pow10postab32 i = round_ratio False (10 ^ (32 * i)) 1"

definition pow10negtab32 :: "nat \<Rightarrow> f64" where
  "pow10negtab32 i = round_ratio False 1 (10 ^ (32 * i))"

definition pow10 :: "int \<Rightarrow> f64" where
  "pow10 n =
     (if 0 \<le> n \<and> n \<le> 308 then f_mul (pow10postab32 (nat n div 32)) (pow10tab (nat n mod 32))
      else if - 323 \<le> n \<and> n \<le> 0 then f_div (pow10negtab32 (nat (- n) div 32)) (pow10tab (nat (- n) mod 32))
      else if 0 < n then FInf False
      else FNum False 0 0)"

section \<open>Values\<close>

text \<open>The real number a finite double stands for.\<close>

fun f_val :: "f64 \<Rightarrow> real" where
  "f_val (FNum s m e) = real_of_int (signed_mant s m) * 2 powi e"
| "f_val _ = 0"

fun is_num :: "f64 \<Rightarrow> bool" where
  "is_num (FNum _ _ _) = True"
| "is_num _ = False"

lemma align_val:
  assumes "k \<le> e"
  shows "real_of_int (a * 2 ^ nat (e - k)) * 2 powi k = real_of_int a * 2 powi e"
proof -
  have "(2::real) ^ nat (e - k) = 2 powi (e - k)"
    using assms by (simp add: power_int_def)
  then show ?thesis
    by (simp add: power_int_add [symmetric])
qed

lemma f_lt_val: "is_num x \<Longrightarrow> is_num y \<Longrightarrow> f_lt x y \<longleftrightarrow> f_val x < f_val y"
proof -
  assume "is_num x" "is_num y"
  then obtain s m e t n g where xy: "x = FNum s m e" "y = FNum t n g"
    by (metis is_num.elims(2))
  let ?k = "min e g"
  have "f_lt x y \<longleftrightarrow> real_of_int (signed_mant s m * 2 ^ nat (e - ?k)) < real_of_int (signed_mant t n * 2 ^ nat (g - ?k))"
    using xy by (simp add: Let_def del: of_int_mult)
  also have "\<dots> \<longleftrightarrow> real_of_int (signed_mant s m * 2 ^ nat (e - ?k)) * 2 powi ?k
      < real_of_int (signed_mant t n * 2 ^ nat (g - ?k)) * 2 powi ?k"
    by (simp del: of_int_mult)
  also have "\<dots> \<longleftrightarrow> f_val x < f_val y"
    using xy align_val [of ?k e "signed_mant s m"] align_val [of ?k g "signed_mant t n"]
    by (simp del: of_int_mult)
  finally show ?thesis .
qed

lemma f_eq_val: "is_num x \<Longrightarrow> is_num y \<Longrightarrow> f_eq x y \<longleftrightarrow> f_val x = f_val y"
proof -
  assume "is_num x" "is_num y"
  then obtain s m e t n g where xy: "x = FNum s m e" "y = FNum t n g"
    by (metis is_num.elims(2))
  let ?k = "min e g"
  have "f_eq x y \<longleftrightarrow> real_of_int (signed_mant s m * 2 ^ nat (e - ?k)) = real_of_int (signed_mant t n * 2 ^ nat (g - ?k))"
    using xy by (simp add: Let_def del: of_int_mult)
  also have "\<dots> \<longleftrightarrow> real_of_int (signed_mant s m * 2 ^ nat (e - ?k)) * 2 powi ?k
      = real_of_int (signed_mant t n * 2 ^ nat (g - ?k)) * 2 powi ?k"
    by (simp del: of_int_mult)
  also have "\<dots> \<longleftrightarrow> f_val x = f_val y"
    using xy align_val [of ?k e "signed_mant s m"] align_val [of ?k g "signed_mant t n"]
    by (simp del: of_int_mult)
  finally show ?thesis .
qed

lemma f_lt_trans: "f_lt x y \<Longrightarrow> f_lt y z \<Longrightarrow> f_lt x z"
proof (cases "is_num x \<and> is_num y \<and> is_num z")
  case True
  then show "f_lt x y \<Longrightarrow> f_lt y z \<Longrightarrow> f_lt x z" by (simp add: f_lt_val)
next
  case False
  then show "f_lt x y \<Longrightarrow> f_lt y z \<Longrightarrow> f_lt x z" by (cases x; cases y; cases z; auto)
qed

lemma f_lt_irrefl: "\<not> f_lt x x"
  by (cases x) (auto simp: Let_def)

lemma f_to_i64_in_s64: "in_s64 ovf \<Longrightarrow> in_s64 (f_to_i64 ovf x)"
  by (auto simp: f_to_i64_def split: option.splits)

end
