(* ===== verification/BitReader.thy ===== *)
theory BitReader
  imports Prelude
begin

text \<open>
  The bit cursor of the BUFR decoder (\<open>wis2_adapter/app/bufr/bitreader.go\<close>).  The reader is a
  record of the payload and a bit position; reading returns the value and the advanced reader, or an
  error that leaves the reader as it was.  The byte-wise loop of \<open>ReadBits\<close> is kept as it is, on
  words of the widths the code uses, and proved equal to taking a slice of the big-endian bit string.  An
  index outside the payload, at which Go panics, is the outcome \<open>ReadPanic\<close>.
\<close>

record bit_reader =
  rd_data :: "byte list"
  rd_pos :: nat

datatype read_err = ErrUnexpectedEOF | ErrNegativeBitCount | ErrInvalidBitCount int | ReadPanic

section \<open>The model\<close>

definition new_bit_reader :: "byte list \<Rightarrow> bit_reader" where
  "new_bit_reader data = \<lparr>rd_data = data, rd_pos = 0\<rparr>"

definition bits_remaining :: "bit_reader \<Rightarrow> int" where
  "bits_remaining b =
     (let rem = int (length (rd_data b)) * 8 - int (rd_pos b) in if rem < 0 then 0 else rem)"

definition skip_bits :: "bit_reader \<Rightarrow> int \<Rightarrow> read_err + bit_reader" where
  "skip_bits b n =
     (if n < 0 then Inl ErrNegativeBitCount
      else if int (length (rd_data b)) * 8 < int (rd_pos b) + n then Inl ErrUnexpectedEOF
      else Inr (b\<lparr>rd_pos := rd_pos b + nat n\<rparr>))"

text \<open>The bits of one byte that one iteration of the loop takes.\<close>

definition read_chunk :: "byte \<Rightarrow> nat \<Rightarrow> nat \<Rightarrow> u64" where
  "read_chunk byte bitOffset tk =
     (let bitsAvail = 8 - bitOffset;
          shift = bitsAvail - tk;
          mask = push_bit shift (push_bit tk 1 - 1 :: byte)
      in ucast (drop_bit shift (byte AND mask)))"

function read_loop :: "byte list \<Rightarrow> nat \<Rightarrow> nat \<Rightarrow> u64 \<Rightarrow> read_err + u64 \<times> nat" where
  "read_loop data bitPos n res =
     (if 0 < n then
        (let byteIdx = bitPos div 8;
             bitOffset = bitPos mod 8;
             bitsAvail = 8 - bitOffset;
             tk = (if bitsAvail < n then bitsAvail else n)
         in if length data \<le> byteIdx then Inl ReadPanic
            else (let chunk = read_chunk (data ! byteIdx) bitOffset tk
                  in read_loop data (bitPos + tk) (n - tk) (push_bit tk res OR chunk)))
      else Inr (res, bitPos))"
  by pat_completeness auto
termination
  by (relation "measure (\<lambda>(data, bitPos, n, res). n)") auto

declare read_loop.simps [simp del]

definition read_bits :: "bit_reader \<Rightarrow> int \<Rightarrow> read_err + u64 \<times> bit_reader" where
  "read_bits b n =
     (if n = 0 then Inr (0, b)
      else if n < 0 \<or> 64 < n then Inl (ErrInvalidBitCount n)
      else if int (length (rd_data b)) * 8 < int (rd_pos b) + n then Inl ErrUnexpectedEOF
      else ebind (read_loop (rd_data b) (rd_pos b) (nat n) 0) (\<lambda>(res, pos). Inr (res, b\<lparr>rd_pos := pos\<rparr>)))"

definition read_signed_bits :: "bit_reader \<Rightarrow> int \<Rightarrow> read_err + int \<times> bit_reader" where
  "read_signed_bits b n =
     (if n \<le> 1 then Inr (0, b)
      else ebind (read_bits b n) (\<lambda>(raw, b').
        (let signBit = drop_bit (nat n - 1) raw AND 1;
             magMask = push_bit (nat n - 1) 1 - 1 :: u64;
             mag = sint (raw AND magMask)
         in if signBit = 1 then Inr (- mag, b') else Inr (mag, b'))))"

fun read_chars :: "nat \<Rightarrow> bit_reader \<Rightarrow> read_err + byte list \<times> bit_reader" where
  "read_chars 0 b = Inr ([], b)"
| "read_chars (Suc k) b =
     ebind (read_bits b 8) (\<lambda>(v, b').
       ebind (read_chars k b') (\<lambda>(cs, b''). Inr ((ucast v :: byte) # cs, b'')))"

definition read_string :: "bit_reader \<Rightarrow> int \<Rightarrow> read_err + (string \<times> bool) \<times> bit_reader" where
  "read_string b charCount =
     (if charCount \<le> 0 then Inr (('''', False), b)
      else ebind (read_chars (nat charCount) b) (\<lambda>(buf, b').
        if list_all (\<lambda>c. c = 255) buf then Inr (('''', True), b')
        else Inr ((map (\<lambda>c. char_of (unat c)) buf, False), b')))"

definition is_all_ones :: "u64 \<Rightarrow> int \<Rightarrow> bool" where
  "is_all_ones val width =
     (if width \<le> 0 then False
      else if 64 \<le> width then val = NOT 0
      else val = push_bit (nat width) 1 - 1)"

section \<open>Bit strings\<close>

definition byte_bits :: "byte \<Rightarrow> bool list" where
  "byte_bits b = rev (map (bit b) [0..<8])"

definition bits_of :: "byte list \<Rightarrow> bool list" where
  "bits_of data = concat (map byte_bits data)"

definition bits_val :: "bool list \<Rightarrow> nat" where
  "bits_val bs = foldl (\<lambda>a b. 2 * a + of_bool b) 0 bs"

lemma length_byte_bits [simp]: "length (byte_bits b) = 8"
  by (simp add: byte_bits_def)

lemma length_bits_of [simp]: "length (bits_of data) = 8 * length data"
  by (induction data) (simp_all add: bits_of_def)

lemma foldl_bits: "foldl (\<lambda>a b. 2 * a + of_bool b) k bs = k * 2 ^ length bs + (bits_val bs :: nat)"
proof (induction bs arbitrary: k rule: rev_induct)
  case (snoc b bs)
  have "foldl (\<lambda>a b. 2 * a + of_bool b) k (bs @ [b])
      = 2 * (k * 2 ^ length bs + bits_val bs) + of_bool b"
    by (simp add: snoc.IH)
  moreover have "bits_val (bs @ [b]) = 2 * bits_val bs + of_bool b"
    by (simp add: bits_val_def)
  ultimately show ?case by (simp add: algebra_simps)
qed (simp add: bits_val_def)

lemma bits_val_Nil [simp]: "bits_val [] = 0"
  by (simp add: bits_val_def)

lemma bits_val_append: "bits_val (xs @ ys) = bits_val xs * 2 ^ length ys + bits_val ys"
  by (simp add: bits_val_def foldl_bits [of "foldl (\<lambda>a b. 2 * a + of_bool b) 0 xs", unfolded bits_val_def])

lemma bits_val_less: "bits_val bs < 2 ^ length bs"
proof (induction bs rule: rev_induct)
  case (snoc b bs)
  then show ?case by (cases b) (simp_all add: bits_val_append bits_val_def)
qed simp

lemma bits_val_slice:
  assumes "p + t \<le> length bs"
  shows "bits_val (take t (drop p bs)) = bits_val bs div 2 ^ (length bs - p - t) mod 2 ^ t"
proof -
  define a where "a = take p bs"
  define m where "m = take t (drop p bs)"
  define r where "r = drop (p + t) bs"
  have bs: "bs = a @ m @ r"
    unfolding a_def m_def r_def by (metis append_take_drop_id drop_drop add.commute)
  have len: "length m = t" "length r = length bs - p - t"
    using assms by (simp_all add: m_def r_def)
  have "bits_val bs = (bits_val a * 2 ^ t + bits_val m) * 2 ^ length r + bits_val r"
    by (subst bs) (simp add: bits_val_append len algebra_simps power_add)
  then have "bits_val bs div 2 ^ length r = bits_val a * 2 ^ t + bits_val m"
    using bits_val_less [of r] by simp
  then show ?thesis
    using bits_val_less [of m] len by (simp add: m_def [symmetric])
qed

lemma bits_val_byte: "bits_val (byte_bits b) = unat b"
proof -
  have rev_val: "bits_val (rev xs) = horner_sum of_bool 2 xs" for xs
  proof (induction xs)
    case (Cons x xs)
    have "bits_val [x] = of_bool x" by (simp add: bits_val_def)
    with Cons show ?case by (simp add: bits_val_append)
  qed simp
  have "map (bit b) [0..<8] = map (bit (unat b)) [0..<8]"
    by (rule map_cong) (simp_all add: bit_unsigned_iff)
  then have "bits_val (byte_bits b) = horner_sum of_bool 2 (map (bit (unat b)) [0..<8])"
    by (simp only: byte_bits_def rev_val)
  also have "\<dots> = take_bit 8 (unat b)"
    by (rule horner_sum_bit_eq_take_bit)
  also have "\<dots> = unat b"
    using unat_less_exp [of b] by (simp add: take_bit_nat_eq_self)
  finally show ?thesis .
qed

section \<open>The loop reads a slice\<close>

lemma read_chunk_take_bit:
  assumes "o8 < 8" "t \<le> 8 - o8"
  shows "read_chunk b o8 t = ucast (take_bit t (drop_bit (8 - o8 - t) b))"
proof -
  have "drop_bit s (b AND push_bit s (push_bit t 1 - 1)) = take_bit t (drop_bit s b)" if "s + t \<le> 8" for s
  proof -
    have "push_bit t 1 - 1 = (mask t :: byte)"
      by (simp add: mask_eq_exp_minus_1 push_bit_eq_mult)
    then show ?thesis
      using that by (intro bit_word_eqI) (auto simp: bit_simps)
  qed
  from this [of "8 - o8 - t"] show ?thesis
    using assms by (simp add: read_chunk_def Let_def)
qed

lemma unat_read_chunk:
  assumes "o8 < 8" "t \<le> 8 - o8"
  shows "unat (read_chunk b o8 t) = bits_val (take t (drop o8 (byte_bits b)))"
proof -
  have "unat (ucast x :: u64) = unat x" for x :: byte
    using unat_less_exp [of x] by (simp add: unsigned_ucast_eq take_bit_nat_eq_self)
  then have "unat (read_chunk b o8 t) = unat (take_bit t (drop_bit (8 - o8 - t) b))"
    by (simp add: read_chunk_take_bit [OF assms])
  also have "\<dots> = take_bit t (unat (drop_bit (8 - o8 - t) b))"
    by (simp only: unsigned_take_bit_eq)
  also have "\<dots> = take_bit t (drop_bit (8 - o8 - t) (take_bit 8 (unat b)))"
    by (subst unsigned_drop_bit_eq) simp
  also have "\<dots> = take_bit t (drop_bit (8 - o8 - t) (unat b))"
    using unat_less_exp [of b] by (simp add: take_bit_nat_eq_self)
  also have "\<dots> = unat b div 2 ^ (8 - o8 - t) mod 2 ^ t"
    by (simp add: take_bit_eq_mod drop_bit_eq_div)
  also have "\<dots> = bits_val (take t (drop o8 (byte_bits b)))"
    using assms bits_val_slice [of o8 t "byte_bits b"] by (simp add: bits_val_byte)
  finally show ?thesis .
qed

lemma take_drop_bits_of:
  assumes "p < 8 * length data" "t \<le> 8 - p mod 8"
  shows "take t (drop p (bits_of data)) = take t (drop (p mod 8) (byte_bits (data ! (p div 8))))"
proof -
  have q: "p div 8 < length data" using assms(1) by (simp add: less_mult_imp_div_less mult.commute)
  have "bits_of data = bits_of (take (p div 8) data) @ byte_bits (data ! (p div 8)) @ bits_of (drop (Suc (p div 8)) data)"
    unfolding bits_of_def
    by (subst id_take_nth_drop [OF q]) simp
  moreover have "length (bits_of (take (p div 8) data)) = 8 * (p div 8)"
    using q by simp
  moreover have "p = 8 * (p div 8) + p mod 8" by simp
  ultimately have "drop p (bits_of data)
      = drop (p mod 8) (byte_bits (data ! (p div 8)) @ bits_of (drop (Suc (p div 8)) data))"
    by (metis append_eq_conv_conj drop_drop add.commute)
  then show ?thesis using assms(2) by simp
qed

lemma unat_or_shift:
  assumes "unat c < 2 ^ t" "unat r * 2 ^ t < 2 ^ 64"
  shows "unat (push_bit t r OR c :: u64) = unat r * 2 ^ t + unat c"
proof -
  have "push_bit t r AND c = 0"
  proof (rule bit_word_eqI)
    fix n
    have "take_bit t c = c"
      using assms(1) by (metis take_bit_nat_eq_self_iff unsigned_take_bit_eq unsigned_word_eqI)
    then show "bit (push_bit t r AND c) n = bit 0 n"
      by (metis bit_0_eq bit_and_iff bit_push_bit_iff bit_take_bit_iff bot_apply bot_bool_def leD)
  qed
  then have "push_bit t r OR c = push_bit t r + c"
    using word_plus_and_or [of "push_bit t r" c] by simp
  moreover have "unat (push_bit t r) = unat r * 2 ^ t"
    by (subst unsigned_push_bit_eq)
      (use assms(2) in \<open>simp add: push_bit_eq_mult take_bit_nat_eq_self\<close>)
  moreover have "unat r * 2 ^ t + unat c < 2 ^ 64"
  proof (cases "t \<le> 64")
    case True
    then have "unat r * 2 ^ t < 2 ^ (64 - t) * 2 ^ t"
      using assms(2) by (simp flip: power_add)
    then have "unat r < 2 ^ (64 - t)" by simp
    then have "(unat r + 1) * 2 ^ t \<le> 2 ^ (64 - t) * 2 ^ t"
      by (intro mult_right_mono) auto
    then have "unat r * 2 ^ t + 2 ^ t \<le> 2 ^ 64" using True by (simp flip: power_add)
    then show ?thesis using assms(1) by linarith
  next
    case False
    then have "(2::nat) ^ 64 \<le> 2 ^ t" by (intro power_increasing) auto
    then have "unat r = 0"
      using assms(2) by (metis le_neq_implies_less less_le_trans mult_is_0 nat_mult_1 mult_le_mono1 not_le less_one)
    then show ?thesis using unat_less_exp [of c] by simp
  qed
  ultimately show ?thesis by (simp add: unat_word_ariths)
qed


lemma read_loop_slice:
  assumes "p + n \<le> 8 * length data" "unat r * 2 ^ n < 2 ^ 64" "n \<le> 64"
  shows "\<exists>v. read_loop data p n r = Inr (v, p + n) \<and> unat v = unat r * 2 ^ n + bits_val (take n (drop p (bits_of data)))"
  using assms
proof (induction data p n r rule: read_loop.induct)
  case (1 data p n r)
  show ?case
  proof (cases "0 < n")
    case False
    then show ?thesis by (simp add: read_loop.simps)
  next
    case True
    define t where "t = (if 8 - p mod 8 < n then 8 - p mod 8 else n)"
    define c where "c = read_chunk (data ! (p div 8)) (p mod 8) t"
    have t: "t \<le> n" "t \<le> 8 - p mod 8" "0 < t" using True by (auto simp: t_def)
    have p: "p < 8 * length data" using "1.prems"(1) True by simp
    then have q: "\<not> length data \<le> p div 8" by (simp add: not_le less_mult_imp_div_less mult.commute)
    have step: "read_loop data p n r = read_loop data (p + t) (n - t) (push_bit t r OR c)"
      using True q by (subst read_loop.simps) (simp add: t_def c_def Let_def)
    have c: "unat c = bits_val (take t (drop p (bits_of data)))"
      unfolding c_def using t(2) by (subst unat_read_chunk) (simp_all add: take_drop_bits_of [OF p t(2)])
    have "length (take t (drop p (bits_of data))) = t"
      using "1.prems"(1) t by simp
    then have c_less: "unat c < 2 ^ t" using c bits_val_less [of "take t (drop p (bits_of data))"] by simp
    have two: "(2::nat) ^ n = 2 ^ t * 2 ^ (n - t)" using t(1) by (simp flip: power_add)
    have "unat r * 2 ^ t \<le> unat r * 2 ^ n"
      using t(1) by (intro mult_le_mono2 power_increasing) auto
    then have "unat r * 2 ^ t < 2 ^ 64"
      using "1.prems"(2) by (rule le_less_trans)
    then have shift: "unat (push_bit t r OR c) = unat r * 2 ^ t + unat c"
      by (intro unat_or_shift c_less)
    have split: "bits_val (take n (drop p (bits_of data)))
        = bits_val (take t (drop p (bits_of data))) * 2 ^ (n - t) + bits_val (take (n - t) (drop (p + t) (bits_of data)))"
    proof -
      have "take n (drop p (bits_of data)) = take t (drop p (bits_of data)) @ take (n - t) (drop (p + t) (bits_of data))"
        using take_add [of t "n - t" "drop p (bits_of data)"] t(1) by (simp add: add.commute)
      moreover have "length (take (n - t) (drop (p + t) (bits_of data))) = n - t"
        using "1.prems"(1) t(1) by simp
      ultimately show ?thesis by (simp add: bits_val_append)
    qed
    have "unat (push_bit t r OR c) * 2 ^ (n - t) < 2 ^ 64"
    proof -
      have "unat r + 1 \<le> 2 ^ (64 - n)"
      proof -
        have "unat r * 2 ^ n < 2 ^ (64 - n) * 2 ^ n"
          using "1.prems"(2,3) by (simp flip: power_add)
        then show ?thesis by simp
      qed
      moreover have "(unat r * 2 ^ t + unat c) * 2 ^ (n - t) < (unat r + 1) * 2 ^ t * 2 ^ (n - t)"
        using c_less by simp
      moreover have "(unat r + 1) * 2 ^ t * 2 ^ (n - t) = (unat r + 1) * 2 ^ n"
        by (simp only: two mult.assoc)
      ultimately have "(unat r * 2 ^ t + unat c) * 2 ^ (n - t) < 2 ^ (64 - n) * 2 ^ n"
        by (metis less_le_trans mult_le_mono1)
      then show ?thesis using shift "1.prems"(3) by (simp flip: power_add)
    qed
    then have "\<exists>v. read_loop data (p + t) (n - t) (push_bit t r OR c) = Inr (v, p + t + (n - t))
        \<and> unat v = unat (push_bit t r OR c) * 2 ^ (n - t) + bits_val (take (n - t) (drop (p + t) (bits_of data)))"
      using "1.IH" [OF True refl refl refl t_def q c_def] "1.prems" t(1) by simp
    then show ?thesis
      using step shift c split two t(1) by (simp add: algebra_simps)
  qed
qed

section \<open>What one read does\<close>

lemma read_bits_ok:
  assumes "0 \<le> n" "n \<le> 64" "int (rd_pos b) + n \<le> int (length (rd_data b)) * 8"
  obtains v where "read_bits b n = Inr (v, b\<lparr>rd_pos := rd_pos b + nat n\<rparr>)"
    "unat v = bits_val (take (nat n) (drop (rd_pos b) (bits_of (rd_data b))))"
proof (cases "n = 0")
  case True
  then show ?thesis using that [of 0] by (simp add: read_bits_def)
next
  case False
  have "rd_pos b + nat n \<le> 8 * length (rd_data b)" using assms by linarith
  then obtain v where "read_loop (rd_data b) (rd_pos b) (nat n) 0 = Inr (v, rd_pos b + nat n)"
      "unat v = bits_val (take (nat n) (drop (rd_pos b) (bits_of (rd_data b))))"
    using read_loop_slice [of "rd_pos b" "nat n" "rd_data b" 0] assms by (auto simp: nat_le_iff)
  then show ?thesis
    using that [of v] False assms by (auto simp: read_bits_def)
qed


definition reader_ok :: "bit_reader \<Rightarrow> bool" where
  "reader_ok b \<longleftrightarrow> rd_pos b \<le> 8 * length (rd_data b)"

lemma reader_ok_new [simp]: "reader_ok (new_bit_reader data)"
  by (simp add: reader_ok_def new_bit_reader_def)

lemma bits_remaining_eq: "reader_ok b \<Longrightarrow> bits_remaining b = 8 * int (length (rd_data b)) - int (rd_pos b)"
  by (simp add: bits_remaining_def reader_ok_def Let_def)

lemma bits_remaining_nonneg [simp]: "0 \<le> bits_remaining b"
  by (simp add: bits_remaining_def Let_def)

text \<open>The reader after consuming \<open>n\<close> bits.\<close>

definition advance :: "bit_reader \<Rightarrow> int \<Rightarrow> bit_reader" where
  "advance b n = b\<lparr>rd_pos := rd_pos b + nat n\<rparr>"

lemma advance_0 [simp]: "advance b 0 = b"
  by (simp add: advance_def)

lemma advance_data [simp]: "rd_data (advance b n) = rd_data b"
  by (simp add: advance_def)

lemma advance_pos [simp]: "rd_pos (advance b n) = rd_pos b + nat n"
  by (simp add: advance_def)

lemma advance_advance: "0 \<le> m \<Longrightarrow> 0 \<le> n \<Longrightarrow> advance (advance b m) n = advance b (m + n)"
  by (simp add: advance_def nat_add_distrib)

lemma reader_ok_advance: "reader_ok b \<Longrightarrow> n \<le> bits_remaining b \<Longrightarrow> reader_ok (advance b n)"
  by (auto simp: bits_remaining_eq) (auto simp: reader_ok_def)

lemma bits_remaining_advance:
  "reader_ok b \<Longrightarrow> 0 \<le> n \<Longrightarrow> n \<le> bits_remaining b \<Longrightarrow> bits_remaining (advance b n) = bits_remaining b - n"
  using reader_ok_advance [of b n] by (simp add: bits_remaining_eq)

lemma read_bits_within:
  assumes "reader_ok b" "0 \<le> n" "n \<le> 64" "n \<le> bits_remaining b"
  shows "\<exists>v. read_bits b n = Inr (v, advance b n)"
proof -
  have "int (rd_pos b) + n \<le> int (length (rd_data b)) * 8"
    using assms by (simp add: bits_remaining_eq)
  from read_bits_ok [OF assms(2,3) this] show ?thesis
    unfolding advance_def by metis
qed

lemma read_bits_Inr: "read_bits b n = Inr (v, b') \<Longrightarrow> reader_ok b \<Longrightarrow>
    0 \<le> n \<and> n \<le> 64 \<and> n \<le> bits_remaining b \<and> b' = advance b n"
proof -
  assume r: "read_bits b n = Inr (v, b')" and ok: "reader_ok b"
  then have n: "0 \<le> n \<and> n \<le> 64 \<and> n \<le> bits_remaining b"
    by (cases "n = 0")
      (auto simp: read_bits_def bits_remaining_eq reader_ok_def split: if_splits)
  then show ?thesis using read_bits_within [OF ok, of n] r by auto
qed

lemma read_bits_Inl:
  assumes "read_bits b n = Inl e" "reader_ok b"
  shows "e = ErrInvalidBitCount n \<and> (n < 0 \<or> 64 < n) \<or> e = ErrUnexpectedEOF \<and> bits_remaining b < n"
proof (cases "0 \<le> n \<and> n \<le> 64 \<and> n \<le> bits_remaining b")
  case True
  then show ?thesis using read_bits_within [OF assms(2), of n] assms(1) by auto
next
  case False
  then show ?thesis using assms by (auto simp: read_bits_def bits_remaining_eq split: if_splits)
qed

lemma skip_bits_within:
  "reader_ok b \<Longrightarrow> 0 \<le> n \<Longrightarrow> n \<le> bits_remaining b \<Longrightarrow> skip_bits b n = Inr (advance b n)"
  by (simp add: skip_bits_def bits_remaining_eq advance_def)

lemma skip_bits_Inr: "skip_bits b n = Inr b' \<Longrightarrow> reader_ok b \<Longrightarrow>
    0 \<le> n \<and> n \<le> bits_remaining b \<and> b' = advance b n"
  by (auto simp: skip_bits_def bits_remaining_eq advance_def split: if_splits)

lemma read_chars_within:
  assumes "reader_ok b" "8 * int k \<le> bits_remaining b"
  shows "\<exists>cs. read_chars k b = Inr (cs, advance b (8 * int k)) \<and> length cs = k"
  using assms
proof (induction k arbitrary: b)
  case (Suc k)
  obtain v where v: "read_bits b 8 = Inr (v, advance b 8)"
    using read_bits_within [of b 8] Suc.prems by auto
  have "8 * int k \<le> bits_remaining (advance b 8)" "reader_ok (advance b 8)"
    using Suc.prems bits_remaining_advance [of b 8] reader_ok_advance [of b 8] by auto
  from Suc.IH [OF this(2,1)] obtain cs where
    "read_chars k (advance b 8) = Inr (cs, advance (advance b 8) (8 * int k))" "length cs = k"
    by blast
  then show ?case using v by (simp add: advance_advance algebra_simps)
qed simp

lemma read_chars_Inr:
  assumes "read_chars k b = Inr (cs, b')" "reader_ok b"
  shows "8 * int k \<le> bits_remaining b \<and> b' = advance b (8 * int k)"
  using assms
proof (induction k arbitrary: b cs)
  case (Suc k)
  from Suc.prems obtain v b1 cs1 where 1: "read_bits b 8 = Inr (v, b1)"
    and 2: "read_chars k b1 = Inr (cs1, b')"
    by (auto simp: ebind_eq_Inr)
  have b1: "b1 = advance b 8" "8 \<le> bits_remaining b"
    using read_bits_Inr [OF 1 Suc.prems(2)] by auto
  have "reader_ok b1" using b1 Suc.prems(2) reader_ok_advance by blast
  from Suc.IH [OF 2 this] b1 bits_remaining_advance [OF Suc.prems(2), of 8]
  show ?case by (simp add: advance_advance algebra_simps)
qed simp

lemma read_string_within:
  assumes "reader_ok b" "8 * n \<le> bits_remaining b"
  shows "\<exists>x. read_string b n = Inr (x, advance b (8 * max 0 n))"
proof (cases "n \<le> 0")
  case True
  then have "read_string b n = Inr (('''', False), advance b (8 * max 0 n))"
    by (simp add: read_string_def)
  then show ?thesis by blast
next
  case False
  then obtain cs where "read_chars (nat n) b = Inr (cs, advance b (8 * n))"
    using read_chars_within [of b "nat n"] assms by auto
  then show ?thesis using False by (auto simp: read_string_def)
qed

lemma read_string_Inr:
  "read_string b n = Inr (x, b') \<Longrightarrow> reader_ok b \<Longrightarrow>
    8 * max 0 n \<le> bits_remaining b \<and> b' = advance b (8 * max 0 n)"
  by (auto simp: read_string_def ebind_eq_Inr split: if_splits dest: read_chars_Inr)

lemma read_signed_bits_within:
  assumes "reader_ok b" "n \<le> 64" "n \<le> bits_remaining b"
  shows "\<exists>v. read_signed_bits b n = Inr (v, advance b (if n \<le> 1 then 0 else n))"
proof (cases "n \<le> 1")
  case True
  then show ?thesis by (simp add: read_signed_bits_def)
next
  case False
  then obtain v where "read_bits b n = Inr (v, advance b n)"
    using read_bits_within [of b n] assms by auto
  then show ?thesis using False by (auto simp: read_signed_bits_def Let_def)
qed

lemma read_signed_bits_Inr:
  "read_signed_bits b n = Inr (v, b') \<Longrightarrow> reader_ok b \<Longrightarrow>
    (n \<le> 1 \<and> b' = b) \<or> (1 < n \<and> n \<le> 64 \<and> n \<le> bits_remaining b \<and> b' = advance b n)"
  by (auto simp: read_signed_bits_def ebind_eq_Inr Let_def split: if_splits dest: read_bits_Inr)

section \<open>Reading as an interface\<close>

text \<open>
  The decoders' idiom: nothing is read once the stream is exhausted, and a request for \<open>w\<close> bits
  that the stream does not hold exhausts it instead of failing.
\<close>

definition guarded ::
    "int \<Rightarrow> int \<Rightarrow> bool \<Rightarrow> 'r \<Rightarrow> 'e + 'v \<times> 'r \<Rightarrow> 'e + ('v option \<times> bool \<times> 'r)" where
  "guarded rem w ex r rd =
     (if ex \<or> rem < w then Inr (None, True, r)
      else ebind rd (\<lambda>(v, r'). Inr (Some v, False, r')))"

text \<open>
  The contract of one kind of read: a legal request that the stream can pay for succeeds, and a
  read that succeeds took exactly its cost.
\<close>

locale bit_source =
  fixes ok :: "'r \<Rightarrow> bool"
    and remaining :: "'r \<Rightarrow> int"
    and read :: "'r \<Rightarrow> int \<Rightarrow> 'e + 'v \<times> 'r"
    and cost :: "int \<Rightarrow> int"
    and legal :: "int \<Rightarrow> bool"
  assumes read_within: "ok r \<Longrightarrow> legal n \<Longrightarrow> cost n \<le> remaining r \<Longrightarrow> \<exists>v r'. read r n = Inr (v, r')"
    and read_ok: "ok r \<Longrightarrow> read r n = Inr (v, r') \<Longrightarrow> ok r'"
    and read_cost: "ok r \<Longrightarrow> read r n = Inr (v, r') \<Longrightarrow> remaining r' = remaining r - cost n"
    and cost_nonneg: "0 \<le> cost n"
begin

lemma guarded_total:
  "ok r \<Longrightarrow> legal n \<Longrightarrow> cost n \<le> w \<Longrightarrow> \<exists>x. guarded (remaining r) w ex r (read r n) = Inr x"
  using read_within [of r n] by (fastforce simp: guarded_def)

lemma guarded_result:
  assumes "ok r" "guarded (remaining r) w ex r (read r n) = Inr (v, ex', r')"
  shows "ok r' \<and> remaining r' \<le> remaining r \<and> (ex \<longrightarrow> v = None \<and> ex' \<and> r' = r) \<and> (v = None \<longleftrightarrow> ex')"
  using assms read_ok [of r n] read_cost [of r n] cost_nonneg [of n]
  by (fastforce simp: guarded_def ebind_eq_Inr split: if_splits)

lemma read_shrinks: "ok r \<Longrightarrow> read r n = Inr (v, r') \<Longrightarrow> remaining r' \<le> remaining r"
  using read_cost [of r n v r'] cost_nonneg [of n] by simp

end

interpretation bits: bit_source reader_ok bits_remaining read_bits
    "\<lambda>n. max 0 n" "\<lambda>n. 0 \<le> n \<and> n \<le> 64"
proof
  show "\<exists>v r'. read_bits r n = Inr (v, r')"
    if "reader_ok r" "0 \<le> n \<and> n \<le> 64" "max 0 n \<le> bits_remaining r" for r n
    using that read_bits_within [of r n] by auto
  show "reader_ok r'" if "reader_ok r" "read_bits r n = Inr (v, r')" for r n v r'
    using read_bits_Inr [OF that(2,1)] reader_ok_advance that(1) by blast
  show "bits_remaining r' = bits_remaining r - max 0 n"
    if "reader_ok r" "read_bits r n = Inr (v, r')" for r n v r'
    using read_bits_Inr [OF that(2,1)] bits_remaining_advance [OF that(1), of n] by auto
qed simp

interpretation signed: bit_source reader_ok bits_remaining read_signed_bits
    "\<lambda>n. if n \<le> 1 then 0 else n" "\<lambda>n. n \<le> 64"
proof
  show "\<exists>v r'. read_signed_bits r n = Inr (v, r')"
    if "reader_ok r" "n \<le> 64" "(if n \<le> 1 then 0 else n) \<le> bits_remaining r" for r n
    using that read_signed_bits_within [of r n]
    by (cases "n \<le> 1") (auto simp: read_signed_bits_def)
  show "reader_ok r'" if "reader_ok r" "read_signed_bits r n = Inr (v, r')" for r n v r'
    using read_signed_bits_Inr [OF that(2,1)] reader_ok_advance that(1) by blast
  show "bits_remaining r' = bits_remaining r - (if n \<le> 1 then 0 else n)"
    if "reader_ok r" "read_signed_bits r n = Inr (v, r')" for r n v r'
    using read_signed_bits_Inr [OF that(2,1)] bits_remaining_advance [OF that(1), of n] by auto
qed simp

interpretation chars: bit_source reader_ok bits_remaining read_string
    "\<lambda>n. 8 * max 0 n" "\<lambda>n. True"
proof
  show "\<exists>v r'. read_string r n = Inr (v, r')"
    if "reader_ok r" True "8 * max 0 n \<le> bits_remaining r" for r n
    using that read_string_within [of r n] by (fastforce simp: max_def split: if_splits)
  show "reader_ok r'" if "reader_ok r" "read_string r n = Inr (v, r')" for r n v r'
    using read_string_Inr [OF that(2,1)] reader_ok_advance that(1) by blast
  show "bits_remaining r' = bits_remaining r - 8 * max 0 n"
    if "reader_ok r" "read_string r n = Inr (v, r')" for r n v r'
    using read_string_Inr [OF that(2,1)] bits_remaining_advance [OF that(1), of "8 * max 0 n"] by auto
qed simp

text \<open>Skipping, as a read of no value.\<close>

definition skip_read :: "bit_reader \<Rightarrow> int \<Rightarrow> read_err + unit \<times> bit_reader" where
  "skip_read b n = ebind (skip_bits b n) (\<lambda>b'. Inr ((), b'))"

interpretation skip: bit_source reader_ok bits_remaining skip_read "\<lambda>n. max 0 n" "\<lambda>n. 0 \<le> n"
proof
  show "\<exists>v r'. skip_read r n = Inr (v, r')"
    if "reader_ok r" "0 \<le> n" "max 0 n \<le> bits_remaining r" for r n
    using that skip_bits_within [of r n] by (auto simp: skip_read_def)
  show "reader_ok r'" if "reader_ok r" "skip_read r n = Inr (v, r')" for r n v r'
    using that reader_ok_advance by (auto simp: skip_read_def ebind_eq_Inr dest!: skip_bits_Inr)
  show "bits_remaining r' = bits_remaining r - max 0 n"
    if "reader_ok r" "skip_read r n = Inr (v, r')" for r n v r'
    using that bits_remaining_advance [OF that(1), of n]
    by (auto simp: skip_read_def ebind_eq_Inr dest!: skip_bits_Inr)
qed simp

section \<open>Properties\<close>

text \<open>C5: Reading n bits (0 to 64) that the payload still holds returns, as a 64-bit number, exactly the
  next n bits of the payload read most significant bit first, and moves the cursor n bits on.\<close>

theorem read_bits_is_slice:
  assumes "0 \<le> n" "n \<le> 64" "int (rd_pos b) + n \<le> int (length (rd_data b)) * 8"
  shows "\<exists>v. read_bits b n = Inr (v, advance b n)
    \<and> unat v = bits_val (take (nat n) (drop (rd_pos b) (bits_of (rd_data b))))"
  using read_bits_ok [OF assms] unfolding advance_def by metis

theorem read_bits_is_slice_witness:
  "\<exists>v. read_bits \<lparr>rd_data = [171, 205], rd_pos = 4\<rparr> 8 = Inr (v, \<lparr>rd_data = [171, 205], rd_pos = 12\<rparr>)
    \<and> unat v = 188"
proof -
  have "bits_val (take (nat 8) (drop 4 (bits_of [171, 205]))) = 188"
    by (simp add: bits_of_def byte_bits_def upt_rec bits_val_def)
  then show ?thesis
    using read_bits_is_slice [of 8 "\<lparr>rd_data = [171, 205], rd_pos = 4\<rparr>"] by (simp add: advance_def)
qed

lemma is_all_ones_iff:
  assumes "0 < w" "w \<le> 64"
  shows "is_all_ones v w \<longleftrightarrow> unat v = 2 ^ nat w - 1"
proof -
  have "(NOT 0 :: u64) = mask 64"
    by (simp add: mask_eq_exp_minus_1)
  moreover have "push_bit (nat w) 1 - 1 = (mask (nat w) :: u64)"
    by (simp add: mask_eq_exp_minus_1 push_bit_eq_mult)
  ultimately have "is_all_ones v w \<longleftrightarrow> v = mask (nat w)"
    using assms by (auto simp: is_all_ones_def)
  also have "\<dots> \<longleftrightarrow> unat v = unat (mask (nat w) :: u64)"
    by (simp add: word_unat_eq_iff)
  also have "unat (mask (nat w) :: u64) = mask (nat w)"
  proof -
    have "(mask (nat w) :: u64) = take_bit (nat w) (- 1)"
      by (simp add: take_bit_minus_one_eq_mask)
    then have "unat (mask (nat w) :: u64) = take_bit (nat w) (mask 64)"
      by (simp only: unsigned_take_bit_eq unsigned_minus_1_eq_mask) simp
    then show ?thesis using assms by (simp add: take_bit_of_mask min_def)
  qed
  finally show ?thesis by (simp add: mask_eq_exp_minus_1)
qed

end
