(* ===== verification/BufrTables.thy ===== *)
theory BufrTables
  imports Prelude Go_Strings Go_Float BitReader
begin

text \<open>
  The vocabulary of the BUFR decoder (\<open>wis2_adapter/app/bufr/bufr.go\<close>): descriptors, values,
  messages and errors; and the descriptor tables (\<open>bufr/tables/tables.go\<close>) as the loader builds
  them from the embedded CSV files.  A CSV file is the list of results \<open>csv.Reader.Read\<close> returns
  before \<open>io.EOF\<close>: a record, or an error that the loader skips.
\<close>

section \<open>Descriptors, values, messages, errors\<close>

record descriptor =
  dF :: int
  dX :: int
  dY :: int

text \<open>Go's integer division and remainder truncate towards zero (\<open>sdiv\<close>, \<open>smod\<close>).\<close>

definition new_descriptor :: "int \<Rightarrow> descriptor" where
  "new_descriptor code =
     \<lparr>dF = code sdiv 100000, dX = (code smod 100000) sdiv 1000, dY = code smod 1000\<rparr>"

definition desc_code :: "descriptor \<Rightarrow> int" where
  "desc_code d = dF d * 100000 + dX d * 1000 + dY d"

definition desc_string :: "descriptor \<Rightarrow> string" where
  "desc_string d = show_int (dF d) @ '' '' @ show_int0 2 (dX d) @ '' '' @ show_int0 3 (dY d)"

definition is_local :: "descriptor \<Rightarrow> bool" where
  "is_local d \<longleftrightarrow> (dF d = 0 \<or> dF d = 3) \<and> (48 \<le> dX d \<or> 192 \<le> dY d)"

text \<open>
  The \<open>Value\<close> field of a BUFR value is an interface holding the float or the string pointer; it is
  not nil when the pointer it holds is.
\<close>

datatype any_val = AnyNil | AnyFloat "f64 option" | AnyString "string option"

record bvalue =
  v_desc :: descriptor
  v_name :: string
  v_unit :: string
  v_float :: "f64 option"
  v_string :: "string option"
  v_any :: any_val

definition is_missing :: "bvalue \<Rightarrow> bool" where
  "is_missing v \<longleftrightarrow> v_float v = None \<and> v_string v = None"

record message =
  m_edition :: int
  m_master_table :: int
  m_master_table_version :: int
  m_local_table_version :: int
  m_centre :: int
  m_sub_centre :: int
  m_category :: int
  m_subcategory :: int
  m_compressed :: bool
  m_subsets :: "bvalue list list"

definition empty_message :: message where
  "empty_message = \<lparr>m_edition = 0, m_master_table = 0, m_master_table_version = 0,
     m_local_table_version = 0, m_centre = 0, m_sub_centre = 0, m_category = 0,
     m_subcategory = 0, m_compressed = False, m_subsets = []\<rparr>"

text \<open>
  The errors of the decoder.  \<open>GoPanic\<close> is none of them: it stands for a run-time panic (an index or a slice out of
  range, a slice made with a negative size), as \<open>ReadPanic\<close> does inside \<open>ErrRead\<close>.
\<close>

datatype bufr_err =
    ErrLocalDescriptor descriptor
  | ErrUnknownDescriptor descriptor
  | ErrTruncated string
  | ErrInvalidBUFR string
  | ErrLimitExceeded string
  | ErrNoBUFRFound string
  | ErrRead read_err
  | GoPanic

text \<open>The \<open>Error()\<close> methods of the typed errors.\<close>

fun error_text :: "bufr_err \<Rightarrow> string option" where
  "error_text (ErrLocalDescriptor d) =
     Some (''local descriptor not supported: '' @ desc_string d @ '' ('' @ show_int0 6 (desc_code d) @ '')'')"
| "error_text (ErrUnknownDescriptor d) =
     Some (''unknown descriptor: '' @ desc_string d @ '' ('' @ show_int0 6 (desc_code d) @ '')'')"
| "error_text (ErrTruncated s) = Some (''truncated BUFR data: '' @ s)"
| "error_text (ErrInvalidBUFR s) = Some (''invalid BUFR: '' @ s)"
| "error_text (ErrLimitExceeded s) = Some (''limit exceeded: '' @ s)"
| "error_text (ErrNoBUFRFound s) = Some (''no BUFR message found: '' @ s)"
| "error_text (ErrRead e) = None"
| "error_text GoPanic = None"

section \<open>Tables\<close>

record table_b_entry =
  tb_name :: string
  tb_unit :: string
  tb_scale :: int
  tb_reference :: int
  tb_width :: int

datatype csv_read = CsvRecord "string list" | CsvError

record tables =
  table_b :: "int \<Rightarrow> table_b_entry option"
  table_d :: "int \<Rightarrow> int list option"

definition empty_tables :: tables where
  "empty_tables = \<lparr>table_b = (\<lambda>_. None), table_d = (\<lambda>_. None)\<rparr>"

text \<open>The index of the last header cell with a given name, -1 when there is none.\<close>

fun find_col :: "string \<Rightarrow> int \<Rightarrow> int \<Rightarrow> string list \<Rightarrow> int" where
  "find_col name i found [] = found"
| "find_col name i found (h # hs) = find_col name (i + 1) (if trim_space h = name then i else found) hs"

definition cell :: "string list \<Rightarrow> int \<Rightarrow> string" where
  "cell rec col = trim_space (rec ! nat col)"

definition parse_row_b :: "string list \<Rightarrow> string list \<Rightarrow> (int \<times> table_b_entry) option" where
  "parse_row_b header rec =
     (let colFXY = find_col ''FXY'' 0 (- 1) header;
          colName = find_col ''ElementName_en'' 0 (- 1) header;
          colUnit = find_col ''BUFR_Unit'' 0 (- 1) header;
          colScale = find_col ''BUFR_Scale'' 0 (- 1) header;
          colRef = find_col ''BUFR_ReferenceValue'' 0 (- 1) header;
          colWidth = find_col ''BUFR_DataWidth_Bits'' 0 (- 1) header
      in if colFXY < 0 \<or> colName < 0 \<or> colUnit < 0 \<or> colScale < 0 \<or> colRef < 0 \<or> colWidth < 0 then None
         else if int (length rec) \<le> colFXY \<or> int (length rec) \<le> colName \<or> int (length rec) \<le> colUnit
              \<or> int (length rec) \<le> colScale \<or> int (length rec) \<le> colRef \<or> int (length rec) \<le> colWidth then None
         else if length (cell rec colFXY) \<noteq> 6 then None
         else case atoi (cell rec colFXY) of
             None \<Rightarrow> None
           | Some code \<Rightarrow> (case atoi (cell rec colScale) of
               None \<Rightarrow> None
             | Some scale \<Rightarrow> (case atoi (cell rec colRef) of
                 None \<Rightarrow> None
               | Some refVal \<Rightarrow> (case atoi (cell rec colWidth) of
                   None \<Rightarrow> None
                 | Some width \<Rightarrow>
                     Some (code, \<lparr>tb_name = cell rec colName, tb_unit = cell rec colUnit,
                                  tb_scale = scale, tb_reference = refVal, tb_width = width\<rparr>)))))"

definition parse_row_d :: "string list \<Rightarrow> string list \<Rightarrow> (int \<times> int) option" where
  "parse_row_d header rec =
     (let colFXY1 = find_col ''FXY1'' 0 (- 1) header;
          colFXY2 = find_col ''FXY2'' 0 (- 1) header
      in if colFXY1 < 0 \<or> colFXY2 < 0 then None
         else if int (length rec) \<le> colFXY1 \<or> int (length rec) \<le> colFXY2 then None
         else if length (cell rec colFXY1) \<noteq> 6 \<or> length (cell rec colFXY2) \<noteq> 6 then None
         else case (atoi (cell rec colFXY1), atoi (cell rec colFXY2)) of
             (Some fxy1, Some fxy2) \<Rightarrow> Some (fxy1, fxy2)
           | _ \<Rightarrow> None)"

fun load_rows_b :: "string list \<Rightarrow> csv_read list \<Rightarrow> tables \<Rightarrow> tables" where
  "load_rows_b header [] t = t"
| "load_rows_b header (CsvError # rs) t = load_rows_b header rs t"
| "load_rows_b header (CsvRecord rec # rs) t =
     (case parse_row_b header rec of
        None \<Rightarrow> load_rows_b header rs t
      | Some (code, e) \<Rightarrow> load_rows_b header rs (t\<lparr>table_b := (table_b t)(code \<mapsto> e)\<rparr>))"

fun load_rows_d :: "string list \<Rightarrow> csv_read list \<Rightarrow> tables \<Rightarrow> tables" where
  "load_rows_d header [] t = t"
| "load_rows_d header (CsvError # rs) t = load_rows_d header rs t"
| "load_rows_d header (CsvRecord rec # rs) t =
     (case parse_row_d header rec of
        None \<Rightarrow> load_rows_d header rs t
      | Some (fxy1, fxy2) \<Rightarrow>
          load_rows_d header rs
            (t\<lparr>table_d := (table_d t)(fxy1 \<mapsto> (case table_d t fxy1 of None \<Rightarrow> [] | Some l \<Rightarrow> l) @ [fxy2])\<rparr>))"

fun load_table_b :: "csv_read list \<Rightarrow> tables \<Rightarrow> tables" where
  "load_table_b (CsvRecord header # rs) t = load_rows_b header rs t"
| "load_table_b _ t = t"

fun load_table_d :: "csv_read list \<Rightarrow> tables \<Rightarrow> tables" where
  "load_table_d (CsvRecord header # rs) t = load_rows_d header rs t"
| "load_table_d _ t = t"

fun ensure_loaded :: "(string \<times> csv_read list) list \<Rightarrow> tables \<Rightarrow> tables" where
  "ensure_loaded [] t = t"
| "ensure_loaded ((name, rows) # fs) t =
     ensure_loaded fs
       (if has_prefix name ''BUFRCREX_TableB_en_'' \<and> has_suffix name ''.csv'' then load_table_b rows t
        else if has_prefix name ''BUFR_TableD_en_'' \<and> has_suffix name ''.csv'' then load_table_d rows t
        else t)"

definition load_tables :: "(string \<times> csv_read list) list \<Rightarrow> tables" where
  "load_tables files = ensure_loaded files empty_tables"

definition lookup_b :: "tables \<Rightarrow> int \<Rightarrow> table_b_entry option" where
  "lookup_b t code = table_b t code"

definition lookup_d :: "tables \<Rightarrow> int \<Rightarrow> int list option" where
  "lookup_d t code = table_d t code"

section \<open>Descriptor codes round trip\<close>

definition fxy_ok :: "descriptor \<Rightarrow> bool" where
  "fxy_ok d \<longleftrightarrow> 0 \<le> dF d \<and> 0 \<le> dX d \<and> dX d < 100 \<and> 0 \<le> dY d \<and> dY d < 1000"

lemma sdiv_nonneg: "0 \<le> a \<Longrightarrow> 0 < b \<Longrightarrow> a sdiv b = a div (b :: int)"
  by (simp add: signed_divide_int_def sgn_if)

lemma smod_nonneg: "0 \<le> a \<Longrightarrow> 0 < b \<Longrightarrow> a smod b = a mod (b :: int)"
  by (simp add: signed_modulo_int_def sgn_if)

lemma desc_code_nonneg: "fxy_ok d \<Longrightarrow> 0 \<le> desc_code d"
  by (simp add: fxy_ok_def desc_code_def)

lemma div_mod_combine:
  fixes a b r :: int
  assumes "0 \<le> r" "r < b"
  shows "(a * b + r) div b = a" "(a * b + r) mod b = r"
  using assms by simp_all

lemma new_descriptor_desc_code: "fxy_ok d \<Longrightarrow> new_descriptor (desc_code d) = d"
proof -
  assume ok: "fxy_ok d"
  define r where "r = dX d * 1000 + dY d"
  have r: "0 \<le> r" "r < 100000" using ok by (auto simp: fxy_ok_def r_def)
  have c: "desc_code d = dF d * 100000 + r" "desc_code d = (dF d * 100 + dX d) * 1000 + dY d"
    by (simp_all add: desc_code_def r_def)
  have y: "0 \<le> dY d" "dY d < 1000" using ok by (auto simp: fxy_ok_def)
  have "desc_code d div 100000 = dF d" "desc_code d mod 100000 = r"
    unfolding c(1) by (rule div_mod_combine [OF r])+
  moreover have "desc_code d mod 1000 = dY d"
    unfolding c(2) by (rule div_mod_combine [OF y])
  moreover have "r div 1000 = dX d"
    unfolding r_def by (rule div_mod_combine [OF y])
  ultimately show ?thesis
    using desc_code_nonneg [OF ok] r by (simp add: new_descriptor_def sdiv_nonneg smod_nonneg)
qed

lemma desc_code_new_descriptor: "0 \<le> c \<Longrightarrow> desc_code (new_descriptor c) = c"
proof -
  assume c: "0 \<le> c"
  have "c mod 100000 mod 1000 = c mod 1000" by (simp add: mod_mod_cancel)
  then have "c mod 100000 = c mod 100000 div 1000 * 1000 + c mod 1000"
    using div_mult_mod_eq [of "c mod 100000" 1000] by simp
  then have "c = c div 100000 * 100000 + c mod 100000 div 1000 * 1000 + c mod 1000"
    using div_mult_mod_eq [of c 100000] by linarith
  then show ?thesis
    using c by (simp add: desc_code_def new_descriptor_def sdiv_nonneg smod_nonneg)
qed

section \<open>What the loader builds\<close>

definition rows_of_d :: "(string \<times> csv_read list) \<Rightarrow> (int \<times> int) list" where
  "rows_of_d f =
     (if has_prefix (fst f) ''BUFRCREX_TableB_en_'' \<and> has_suffix (fst f) ''.csv'' then []
      else if has_prefix (fst f) ''BUFR_TableD_en_'' \<and> has_suffix (fst f) ''.csv'' then
        (case snd f of
           CsvRecord header # rs \<Rightarrow>
             List.map_filter (\<lambda>r. case r of CsvError \<Rightarrow> None | CsvRecord rec \<Rightarrow> parse_row_d header rec) rs
         | _ \<Rightarrow> [])
      else [])"

definition add_rows :: "(int \<times> int) list \<Rightarrow> (int \<Rightarrow> int list option) \<Rightarrow> int \<Rightarrow> int list option" where
  "add_rows rows m c =
     (let new = map snd (filter (\<lambda>r. fst r = c) rows) in
      if new = [] then m c else Some ((case m c of None \<Rightarrow> [] | Some l \<Rightarrow> l) @ new))"

lemma add_rows_Nil [simp]: "add_rows [] m = m"
  by (rule ext) (simp add: add_rows_def)

lemma add_rows_append: "add_rows (xs @ ys) m = add_rows ys (add_rows xs m)"
  by (rule ext) (auto simp: add_rows_def Let_def split: option.splits)

lemma load_rows_b_d [simp]: "table_d (load_rows_b header rs t) = table_d t"
  by (induction header rs t rule: load_rows_b.induct) (auto split: option.splits)

lemma load_table_b_d [simp]: "table_d (load_table_b rs t) = table_d t"
  by (cases "(rs, t)" rule: load_table_b.cases) auto

lemma load_rows_d_rows:
  "table_d (load_rows_d header rs t)
     = add_rows (List.map_filter (\<lambda>r. case r of CsvError \<Rightarrow> None | CsvRecord rec \<Rightarrow> parse_row_d header rec) rs) (table_d t)"
proof (induction header rs t rule: load_rows_d.induct)
  case (3 header rec rs t)
  show ?case
  proof (cases "parse_row_d header rec")
    case None
    then show ?thesis using 3 by (simp add: List.map_filter_def)
  next
    case (Some p)
    obtain a b where p: "p = (a, b)" by fastforce
    have "(table_d t)(a \<mapsto> (case table_d t a of None \<Rightarrow> [] | Some l \<Rightarrow> l) @ [b]) = add_rows [(a, b)] (table_d t)"
      by (rule ext) (auto simp: add_rows_def)
    let ?rest = "List.map_filter (\<lambda>r. case r of CsvError \<Rightarrow> None | CsvRecord rec \<Rightarrow> parse_row_d header rec) rs"
    have "table_d (load_rows_d header (CsvRecord rec # rs) t) = add_rows ?rest (add_rows [(a, b)] (table_d t))"
      using 3(2) [OF Some p [symmetric]] Some p \<open>_ = add_rows [(a, b)] (table_d t)\<close> by simp
    also have "\<dots> = add_rows ([(a, b)] @ ?rest) (table_d t)"
      by (rule add_rows_append [symmetric])
    finally show ?thesis
      using Some p by (simp add: List.map_filter_def)
  qed
qed (simp_all add: List.map_filter_def)

lemma load_table_d_rows:
  "\<not> (has_prefix n ''BUFRCREX_TableB_en_'' \<and> has_suffix n ''.csv'') \<Longrightarrow>
   has_prefix n ''BUFR_TableD_en_'' \<Longrightarrow> has_suffix n ''.csv'' \<Longrightarrow>
   table_d (load_table_d rs t) = add_rows (rows_of_d (n, rs)) (table_d t)"
  by (cases "(rs, t)" rule: load_table_d.cases) (auto simp: rows_of_d_def load_rows_d_rows)

lemma ensure_loaded_rows:
  "table_d (ensure_loaded fs t) = add_rows (concat (map rows_of_d fs)) (table_d t)"
proof (induction fs t rule: ensure_loaded.induct)
  case (2 name rows fs t)
  let ?B = "has_prefix name ''BUFRCREX_TableB_en_'' \<and> has_suffix name ''.csv''"
  let ?D = "has_prefix name ''BUFR_TableD_en_'' \<and> has_suffix name ''.csv''"
  show ?case
  proof (cases "\<not> ?B \<and> ?D")
    case True
    then have "table_d (load_table_d rows t) = add_rows (rows_of_d (name, rows)) (table_d t)"
      by (intro load_table_d_rows) auto
    then show ?thesis
      using 2 True by (auto simp: add_rows_append split: if_splits)
  next
    case False
    then have "rows_of_d (name, rows) = []" by (auto simp: rows_of_d_def)
    then show ?thesis using 2 False by auto
  qed
qed simp

end
