(* ===== verification/BufrState.thy ===== *)
theory BufrState
  imports BufrTables
begin

text \<open>
  The state both BUFR data decoders carry from descriptor to descriptor
  (\<open>decoderState\<close> in \<open>wis2_adapter/app/bufr/decoder.go\<close>), together with the bit cursor, and the
  helpers on values that both decoders use.  The recursion depth, which the code increments on entry
  and decrements on exit, is an argument of the decoders instead of a field.
\<close>

definition maxMessageSize :: int where "maxMessageSize = 16 * 1024 * 1024"
definition maxRecursionDepth :: nat where "maxRecursionDepth = 64"
definition maxExpandedDescriptors :: nat where "maxExpandedDescriptors = 100000"
definition maxReplicationCount :: int where "maxReplicationCount = 1000"
definition maxSubsets :: int where "maxSubsets = 10000"

lemmas bufr_limits = maxMessageSize_def maxRecursionDepth_def maxExpandedDescriptors_def
  maxReplicationCount_def maxSubsets_def

record decoder_state =
  dataWidthChange :: int
  scaleChange :: int
  newRefWidth :: int
  newRefValues :: "int \<Rightarrow> int option"
  assocFieldWidth :: int
  stringWidthOverride :: int
  scaleRefWidthExtra :: int
  bitmapRemaining :: nat
  bitmapBits :: "bool list"
  skipNextLocal :: bool
  localWidth :: int
  totalDescriptorsRead :: nat
  streamExhausted :: bool
  rdr :: bit_reader

definition init_state :: "bit_reader \<Rightarrow> decoder_state" where
  "init_state r = \<lparr>dataWidthChange = 0, scaleChange = 0, newRefWidth = 0, newRefValues = (\<lambda>_. None),
     assocFieldWidth = 0, stringWidthOverride = 0, scaleRefWidthExtra = 0, bitmapRemaining = 0,
     bitmapBits = [], skipNextLocal = False, localWidth = 0, totalDescriptorsRead = 0,
     streamExhausted = False, rdr = r\<rparr>"

text \<open>The tables, and the result of converting an out-of-range float to \<open>int64\<close> on this platform.\<close>

record bufr_env =
  env_tables :: tables
  env_ovf :: int

text \<open>
  Accesses that panic in Go when they are out of range: an index, a slice expression, and the size of a
  slice to be made.  The model lets a slice expression reach up to the length only, where Go allows the
  capacity.
\<close>

definition nth_at :: "'a list \<Rightarrow> nat \<Rightarrow> bufr_err + 'a" where
  "nth_at xs i = (if i < length xs then Inr (xs ! i) else Inl GoPanic)"

definition index_at :: "'a list \<Rightarrow> int \<Rightarrow> bufr_err + 'a" where
  "index_at xs k = (if k < 0 then Inl GoPanic else nth_at xs (nat k))"

definition slice_at :: "'a list \<Rightarrow> nat \<Rightarrow> nat \<Rightarrow> bufr_err + 'a list" where
  "slice_at xs lo hi = (if lo \<le> hi \<and> hi \<le> length xs then Inr (take (hi - lo) (drop lo xs)) else Inl GoPanic)"

definition make_size :: "int \<Rightarrow> bufr_err + nat" where
  "make_size n = (if n < 0 then Inl GoPanic else Inr (nat n))"

fun is_panic :: "bufr_err \<Rightarrow> bool" where
  "is_panic GoPanic = True"
| "is_panic (ErrRead ReadPanic) = True"
| "is_panic _ = False"

lemma nth_at_in [simp]: "i < length xs \<Longrightarrow> nth_at xs i = Inr (xs ! i)"
  by (simp add: nth_at_def)

lemma index_at_in: "0 \<le> k \<Longrightarrow> k < int (length xs) \<Longrightarrow> index_at xs k = Inr (xs ! nat k)"
  by (simp add: index_at_def)

lemma slice_at_in: "lo + n \<le> length xs \<Longrightarrow> slice_at xs lo (lo + n) = Inr (take n (drop lo xs))"
  by (simp add: slice_at_def)

lemma make_size_nonneg [simp]: "0 \<le> n \<Longrightarrow> make_size n = Inr (nat n)"
  by (simp add: make_size_def)

definition lift_read :: "read_err + 'a \<Rightarrow> bufr_err + 'a" where
  "lift_read m = (case m of Inl e \<Rightarrow> Inl (ErrRead e) | Inr a \<Rightarrow> Inr a)"

text \<open>
  The stream idiom of the decoders: when the stream is exhausted, or holds fewer than \<open>w\<close> bits (it is
  then marked exhausted), nothing is read; otherwise the read happens and its error is the decoder's.
\<close>

definition stream_read ::
    "decoder_state \<Rightarrow> int \<Rightarrow> (bit_reader \<Rightarrow> read_err + 'v \<times> bit_reader) \<Rightarrow> bufr_err + 'v option \<times> decoder_state"
  where
  "stream_read st w rd =
     ebind (lift_read (guarded (bits_remaining (rdr st)) w (streamExhausted st) (rdr st) (rd (rdr st))))
       (\<lambda>(v, ex, r). Inr (v, st\<lparr>streamExhausted := ex, rdr := r\<rparr>))"

text \<open>\<open>isStringMissing\<close>: the cutset is NUL, byte FF and blank.\<close>

definition is_string_missing :: "string \<Rightarrow> bool" where
  "is_string_missing s \<longleftrightarrow> trim_runes [0, 255, 32] s = ''''"

definition string_value :: "string \<times> bool \<Rightarrow> string option" where
  "string_value x =
     (if \<not> snd x \<and> \<not> is_string_missing (fst x)
      then Some (trim_space (trim_byte (char_of (0 :: nat)) (fst x))) else None)"

definition float_entry :: "descriptor \<Rightarrow> string \<Rightarrow> string \<Rightarrow> f64 option \<Rightarrow> bvalue" where
  "float_entry d name u f = \<lparr>v_desc = d, v_name = name, v_unit = u, v_float = f, v_string = None, v_any = AnyFloat f\<rparr>"

definition string_entry :: "descriptor \<Rightarrow> string \<Rightarrow> string \<Rightarrow> string option \<Rightarrow> bvalue" where
  "string_entry d name u s = \<lparr>v_desc = d, v_name = name, v_unit = u, v_float = None, v_string = s, v_any = AnyString s\<rparr>"

definition blank_entry :: "descriptor \<Rightarrow> string \<Rightarrow> string \<Rightarrow> bvalue" where
  "blank_entry d name u = \<lparr>v_desc = d, v_name = name, v_unit = u, v_float = None, v_string = None, v_any = AnyNil\<rparr>"

text \<open>\<open>(float64(raw) + float64(effRef)) * math.Pow10(-effScale)\<close>.\<close>

definition decode_number :: "u64 \<Rightarrow> int \<Rightarrow> int \<Rightarrow> f64" where
  "decode_number raw effRef effScale =
     f_mul (f_add (f_of_int (uint raw)) (f_of_int effRef)) (pow10 (- effScale))"

definition eff_ref :: "bufr_env \<Rightarrow> decoder_state \<Rightarrow> descriptor \<Rightarrow> table_b_entry \<Rightarrow> int" where
  "eff_ref E st desc entry =
     (let effRef = (case newRefValues st (desc_code desc) of Some prevRef \<Rightarrow> prevRef | None \<Rightarrow> tb_reference entry)
      in if 0 < scaleRefWidthExtra st
         then s64 (effRef * f_to_i64 (env_ovf E) (pow10 (scaleRefWidthExtra st))) else effRef)"

definition eff_scale :: "decoder_state \<Rightarrow> table_b_entry \<Rightarrow> int" where
  "eff_scale st entry = tb_scale entry + scaleChange st + scaleRefWidthExtra st"

definition eff_width :: "decoder_state \<Rightarrow> table_b_entry \<Rightarrow> int" where
  "eff_width st entry =
     (let effWidth = tb_width entry + dataWidthChange st
      in if 0 < scaleRefWidthExtra st then effWidth + (10 * scaleRefWidthExtra st + 2) div 3 else effWidth)"

definition limit_total :: "nat \<Rightarrow> bufr_err" where
  "limit_total n = ErrLimitExceeded
     (''expanded descriptors '' @ show_nat n @ '' exceeded max '' @ show_nat maxExpandedDescriptors)"

definition limit_depth :: "nat \<Rightarrow> bufr_err" where
  "limit_depth n = ErrLimitExceeded
     (''recursion depth '' @ show_nat n @ '' exceeded max '' @ show_nat maxRecursionDepth)"

definition limit_replication :: "int \<Rightarrow> bufr_err" where
  "limit_replication n = ErrLimitExceeded
     (''replication count '' @ show_int n @ '' exceeds maximum '' @ show_int maxReplicationCount)"

section \<open>Facts shared by the decoders\<close>

definition state_ok :: "decoder_state \<Rightarrow> bool" where
  "state_ok st \<longleftrightarrow> reader_ok (rdr st) \<and> bitmapRemaining st \<le> length (bitmapBits st) \<and> 0 \<le> localWidth st"

text \<open>
  How a piece of decoding may change the state: the cursor only advances within the same payload,
  an exhausted stream stays exhausted, and the descriptor count does not go down.
\<close>

definition advances :: "decoder_state \<Rightarrow> decoder_state \<Rightarrow> bool" where
  "advances st st' \<longleftrightarrow>
     state_ok st' \<and> rd_data (rdr st') = rd_data (rdr st) \<and> rd_pos (rdr st) \<le> rd_pos (rdr st')
     \<and> totalDescriptorsRead st \<le> totalDescriptorsRead st'
     \<and> (streamExhausted st \<longrightarrow> streamExhausted st' \<and> rdr st' = rdr st)"

lemma advances_refl: "state_ok st \<Longrightarrow> advances st st"
  by (simp add: advances_def)

lemma advances_trans: "advances a b \<Longrightarrow> advances b c \<Longrightarrow> advances a c"
  unfolding advances_def by auto

lemma lift_read_eq_Inr [simp]: "lift_read m = Inr a \<longleftrightarrow> m = Inr a"
  by (cases m) (simp_all add: lift_read_def)

lemma lift_read_eq_Inl [simp]: "lift_read m = Inl e \<longleftrightarrow> (\<exists>r. m = Inl r \<and> e = ErrRead r)"
  by (cases m) (auto simp: lift_read_def)

text \<open>A kind of read advances the cursor within its payload.\<close>

definition read_step :: "(bit_reader \<Rightarrow> read_err + 'v \<times> bit_reader) \<Rightarrow> bool" where
  "read_step rd \<longleftrightarrow>
     (\<forall>r v r'. reader_ok r \<longrightarrow> rd r = Inr (v, r') \<longrightarrow>
        reader_ok r' \<and> rd_data r' = rd_data r \<and> rd_pos r \<le> rd_pos r')"

lemma read_step_bits [simp]: "read_step (\<lambda>r. read_bits r n)"
  unfolding read_step_def using read_bits_Inr bits.read_ok by fastforce

lemma read_step_chars [simp]: "read_step (\<lambda>r. read_string r n)"
  unfolding read_step_def using read_string_Inr chars.read_ok by fastforce

lemma read_step_signed [simp]: "read_step (\<lambda>r. read_signed_bits r n)"
  unfolding read_step_def using read_signed_bits_Inr signed.read_ok by fastforce

lemma read_step_skip [simp]: "read_step (\<lambda>r. skip_read r n)"
  unfolding read_step_def using skip.read_ok
  by (fastforce simp: skip_read_def ebind_eq_Inr dest!: skip_bits_Inr)

text \<open>What a guarded read does to the state, with all that the decoders use of it.\<close>

definition read_effect :: "decoder_state \<Rightarrow> 'v option \<Rightarrow> decoder_state \<Rightarrow> bool" where
  "read_effect st v st' \<longleftrightarrow>
     advances st st' \<and> totalDescriptorsRead st' = totalDescriptorsRead st
     \<and> (v = None \<longleftrightarrow> streamExhausted st')
     \<and> (\<exists>r ex. st' = st\<lparr>streamExhausted := ex, rdr := r\<rparr>)"

lemma stream_read_effect:
  assumes "stream_read st w rd = Inr (v, st')" "read_step rd" "state_ok st"
  shows "read_effect st v st'"
proof -
  obtain ex r where g: "guarded (bits_remaining (rdr st)) w (streamExhausted st) (rdr st) (rd (rdr st)) = Inr (v, ex, r)"
    and st': "st' = st\<lparr>streamExhausted := ex, rdr := r\<rparr>"
    using assms(1) by (auto simp: stream_read_def ebind_eq_Inr)
  have upd: "\<exists>r ex. st' = st\<lparr>streamExhausted := ex, rdr := r\<rparr>" using st' by blast
  have "advances st st' \<and> totalDescriptorsRead st' = totalDescriptorsRead st \<and> (v = None \<longleftrightarrow> streamExhausted st')"
  proof (cases "streamExhausted st \<or> bits_remaining (rdr st) < w")
    case True
    then have "v = None" "ex" "r = rdr st" using g by (auto simp: guarded_def)
    then show ?thesis using st' assms(3) by (auto simp: advances_def state_ok_def)
  next
    case False
    then obtain v' where v: "v = Some v'" "\<not> ex" "rd (rdr st) = Inr (v', r)"
      using g by (auto simp: guarded_def ebind_eq_Inr)
    then have "reader_ok r \<and> rd_data r = rd_data (rdr st) \<and> rd_pos (rdr st) \<le> rd_pos r"
      using assms(2,3) unfolding read_step_def state_ok_def by blast
    then show ?thesis using v st' False assms(3) by (auto simp: advances_def state_ok_def)
  qed
  with upd show ?thesis by (simp add: read_effect_def)
qed

lemma read_effect_advances: "read_effect st v st' \<Longrightarrow> advances st st'"
  by (simp add: read_effect_def)

lemma read_effect_exhausted: "read_effect st v st' \<Longrightarrow> streamExhausted st \<Longrightarrow> v = None"
  by (auto simp: read_effect_def advances_def)

text \<open>A guarded read whose request is legal and covered by the guard never fails.\<close>

lemma stream_read_total:
  assumes "\<exists>x. guarded (bits_remaining (rdr st)) w (streamExhausted st) (rdr st) (rd (rdr st)) = Inr x"
  shows "\<exists>x. stream_read st w rd = Inr x"
  using assms by (auto simp: stream_read_def lift_read_def split: prod.splits)

lemma stream_bits_total:
  "state_ok st \<Longrightarrow> 0 \<le> n \<Longrightarrow> n \<le> 64 \<Longrightarrow> n \<le> w \<Longrightarrow> \<exists>x. stream_read st w (\<lambda>r. read_bits r n) = Inr x"
  by (rule stream_read_total) (rule bits.guarded_total, auto simp: state_ok_def)

lemma stream_chars_total:
  "state_ok st \<Longrightarrow> 8 * max 0 n \<le> w \<Longrightarrow> \<exists>x. stream_read st w (\<lambda>r. read_string r n) = Inr x"
  by (rule stream_read_total) (rule chars.guarded_total, auto simp: state_ok_def)

lemma stream_skip_total:
  "state_ok st \<Longrightarrow> 0 \<le> n \<Longrightarrow> n \<le> w \<Longrightarrow> \<exists>x. stream_read st w (\<lambda>r. skip_read r n) = Inr x"
  by (rule stream_read_total) (rule skip.guarded_total, auto simp: state_ok_def)

lemma stream_signed_total:
  "state_ok st \<Longrightarrow> n \<le> 64 \<Longrightarrow> 0 \<le> w \<Longrightarrow> n \<le> w \<Longrightarrow> \<exists>x. stream_read st w (\<lambda>r. read_signed_bits r n) = Inr x"
  by (rule stream_read_total) (rule signed.guarded_total, auto simp: state_ok_def)

lemma stream_bitsE:
  assumes "state_ok st" "0 \<le> n" "n \<le> 64" "n \<le> w"
  obtains v st' where "stream_read st w (\<lambda>r. read_bits r n) = Inr (v, st')" "read_effect st v st'"
proof -
  obtain v st' where *: "stream_read st w (\<lambda>r. read_bits r n) = Inr (v, st')"
    using stream_bits_total [OF assms] by auto
  moreover have "read_effect st v st'"
    by (rule stream_read_effect [OF * read_step_bits assms(1)])
  ultimately show thesis by (rule that)
qed

lemma stream_charsE:
  assumes "state_ok st" "8 * max 0 n \<le> w"
  obtains v st' where "stream_read st w (\<lambda>r. read_string r n) = Inr (v, st')" "read_effect st v st'"
proof -
  obtain v st' where *: "stream_read st w (\<lambda>r. read_string r n) = Inr (v, st')"
    using stream_chars_total [OF assms] by auto
  moreover have "read_effect st v st'"
    by (rule stream_read_effect [OF * read_step_chars assms(1)])
  ultimately show thesis by (rule that)
qed

lemma stream_skipE:
  assumes "state_ok st" "0 \<le> n" "n \<le> w"
  obtains v st' where "stream_read st w (\<lambda>r. skip_read r n) = Inr (v, st')" "read_effect st v st'"
proof -
  obtain v st' where *: "stream_read st w (\<lambda>r. skip_read r n) = Inr (v, st')"
    using stream_skip_total [OF assms] by auto
  moreover have "read_effect st v st'"
    by (rule stream_read_effect [OF * read_step_skip assms(1)])
  ultimately show thesis by (rule that)
qed

text \<open>The errors the decoders may stop with: no panic, and no read error but an unreadable reference width.\<close>

fun decode_error_ok :: "bufr_err \<Rightarrow> bool" where
  "decode_error_ok (ErrRead (ErrInvalidBitCount n)) = (64 < n)"
| "decode_error_ok (ErrRead _) = False"
| "decode_error_ok GoPanic = False"
| "decode_error_ok _ = True"

lemma decode_error_no_panic: "decode_error_ok e \<Longrightarrow> \<not> is_panic e"
  by (cases e rule: is_panic.cases) simp_all

lemma stream_signedE:
  assumes "state_ok st" "0 < n"
  obtains
    (ok) v st' where "stream_read st n (\<lambda>r. read_signed_bits r n) = Inr (v, st')" "read_effect st v st'"
  | (width) e where "stream_read st n (\<lambda>r. read_signed_bits r n) = Inl e" "decode_error_ok e"
proof (cases "stream_read st n (\<lambda>r. read_signed_bits r n)")
  case (Inr x)
  obtain v st' where x: "x = (v, st')" by fastforce
  then have *: "stream_read st n (\<lambda>r. read_signed_bits r n) = Inr (v, st')" using Inr by simp
  have "read_effect st v st'"
    by (rule stream_read_effect [OF * read_step_signed assms(1)])
  with * show thesis by (rule ok)
next
  case (Inl e)
  have "64 < n" using stream_signed_total [of st n n] assms Inl by force
  then have "e = ErrRead (ErrInvalidBitCount n)"
    using Inl assms(2)
    by (auto simp: stream_read_def guarded_def read_signed_bits_def read_bits_def ebind_eq_Inl split: if_splits)
  then show thesis using width Inl \<open>64 < n\<close> by simp
qed

text \<open>
  A descriptor that can come from Section 3 or from the tables: an operator's operand is not negative.
\<close>

definition desc_ok :: "descriptor \<Rightarrow> bool" where
  "desc_ok d \<longleftrightarrow> (dF d = 2 \<longrightarrow> 0 \<le> dY d)"

definition tables_ok :: "tables \<Rightarrow> bool" where
  "tables_ok t \<longleftrightarrow> (\<forall>c seq. lookup_d t c = Some seq \<longrightarrow> list_all (\<lambda>x. desc_ok (new_descriptor x)) seq)"

text \<open>A value that carries no data: missing, or the zero count of a replication that was not read.\<close>

definition value_absent :: "bvalue \<Rightarrow> bool" where
  "value_absent v \<longleftrightarrow> is_missing v \<or> (v_string v = None \<and> v_float v = Some (f_of_int 0))"

end
