(* ===== verification/BufrUncompressed.thy ===== *)
theory BufrUncompressed
  imports BufrState
begin

text \<open>
  The decoder of uncompressed BUFR data (\<open>decodeUncompressed\<close> and
  \<open>decodeDescriptorsUncompressed\<close> in \<open>wis2_adapter/app/bufr/decoder.go\<close>), one definition per case of
  the descriptor switch.  The recursion over sequences and replications is on the recursion depth,
  which the code bounds by 64, and on the position in the descriptor list; a descriptor whose F is
  none of 0 to 3 leaves the position where it is, so the loop spins until the descriptor budget stops it.
\<close>

section \<open>The cases of the descriptor switch\<close>

definition u_local :: "descriptor \<Rightarrow> decoder_state \<Rightarrow> bufr_err + decoder_state" where
  "u_local desc st =
     (if skipNextLocal st then
        (let st = st\<lparr>skipNextLocal := False\<rparr> in
         ebind (stream_read st (localWidth st) (\<lambda>r. skip_read r (localWidth st))) (\<lambda>(_, st). Inr st))
      else Inl (ErrLocalDescriptor desc))"

fun u_bitmap :: "nat \<Rightarrow> decoder_state \<Rightarrow> bufr_err + bool list \<times> decoder_state" where
  "u_bitmap 0 st = Inr ([], st)"
| "u_bitmap (Suc k) st =
     ebind (stream_read st 1 (\<lambda>r. read_bits r 1)) (\<lambda>(raw, st).
       ebind (u_bitmap k st) (\<lambda>(bits, st). Inr ((raw = Some 1) # bits, st)))"

definition u_operator :: "descriptor \<Rightarrow> decoder_state \<Rightarrow> bufr_err + bvalue list \<times> decoder_state" where
  "u_operator desc st =
     (let x = dX desc; y = dY desc in
      if x = 1 then
        Inr ([], st\<lparr>dataWidthChange := (if y = 0 then 0 else y - 128)\<rparr>)
      else if x = 2 then
        Inr ([], st\<lparr>scaleChange := (if y = 0 then 0 else y - 128)\<rparr>)
      else if x = 3 then
        (if y = 0 then Inr ([], st\<lparr>newRefWidth := 0, newRefValues := (\<lambda>_. None)\<rparr>)
         else if y = 255 then Inr ([], st\<lparr>newRefWidth := 0\<rparr>)
         else Inr ([], st\<lparr>newRefWidth := y\<rparr>))
      else if x = 4 then
        Inr ([], st\<lparr>assocFieldWidth := y\<rparr>)
      else if x = 5 then
        ebind (stream_read st (y * 8) (\<lambda>r. read_string r y)) (\<lambda>(s, st).
          Inr ([string_entry desc ''Signify character'' ''CCITT IA5''
                  (case s of None \<Rightarrow> None | Some x \<Rightarrow> string_value x)], st))
      else if x = 6 then
        Inr ([], st\<lparr>skipNextLocal := True, localWidth := y\<rparr>)
      else if x = 7 then
        Inr ([], st\<lparr>scaleRefWidthExtra := y\<rparr>)
      else if x = 8 then
        Inr ([], st\<lparr>stringWidthOverride := y * 8\<rparr>)
      else if x = 37 then
        (if y = 0 then Inr ([], st\<lparr>bitmapRemaining := 0, bitmapBits := []\<rparr>)
         else ebind (make_size y) (\<lambda>k. ebind (u_bitmap k st) (\<lambda>(bits, st).
                Inr ([], st\<lparr>bitmapRemaining := k, bitmapBits := bits\<rparr>))))
      else Inr ([], st))"

text \<open>
  The replication factor: fixed in the descriptor, or delayed, read from the data of the descriptor
  that follows.  Returns the count and the values to append.
\<close>

definition u_factor ::
    "bufr_env \<Rightarrow> descriptor list \<Rightarrow> nat \<Rightarrow> decoder_state \<Rightarrow> bufr_err + int \<times> bvalue list \<times> decoder_state" where
  "u_factor E descriptors i st =
     ebind (nth_at descriptors i) (\<lambda>desc.
      if dX desc \<le> 0 then
        Inl (ErrInvalidBUFR (''invalid replication descriptor count '' @ show_int (dX desc)))
      else if dY desc \<noteq> 0 then Inr (dY desc, [], st)
      else if length descriptors \<le> i + 1 then Inl (ErrTruncated ''missing delayed replication factor'')
      else
        ebind (nth_at descriptors (i + 1)) (\<lambda>factorDesc.
         case lookup_b (env_tables E) (desc_code factorDesc) of
           None \<Rightarrow> Inl (ErrUnknownDescriptor factorDesc)
         | Some entry \<Rightarrow>
             (let effWidth = tb_width entry + dataWidthChange st in
              if effWidth \<le> 0 \<or> 64 < effWidth then
                Inl (ErrInvalidBUFR (''invalid factor width '' @ show_int effWidth))
              else
                ebind (stream_read st effWidth (\<lambda>r. read_bits r effWidth)) (\<lambda>(rawBits, st).
                  (let repCount =
                     (case rawBits of
                        None \<Rightarrow> 0
                      | Some raw \<Rightarrow>
                          if desc_code factorDesc = 31000 then sint raw
                          else if is_all_ones raw effWidth then 0 else sint raw)
                   in Inr (repCount,
                        [float_entry factorDesc (tb_name entry) (tb_unit entry) (Some (f_of_int repCount))], st))))))"

definition u_assoc :: "descriptor \<Rightarrow> decoder_state \<Rightarrow> bufr_err + decoder_state" where
  "u_assoc desc st =
     (if 0 < assocFieldWidth st \<and> desc_code desc \<noteq> 31021 \<and> \<not> streamExhausted st then
        ebind (stream_read st (assocFieldWidth st) (\<lambda>r. skip_read r (assocFieldWidth st))) (\<lambda>(_, st). Inr st)
      else Inr st)"

definition u_new_ref :: "descriptor \<Rightarrow> decoder_state \<Rightarrow> bufr_err + bvalue list \<times> decoder_state" where
  "u_new_ref desc st =
     ebind (stream_read st (newRefWidth st) (\<lambda>r. read_signed_bits r (newRefWidth st))) (\<lambda>(newRef, st).
       (case newRef of
          None \<Rightarrow> Inr ([], st)
        | Some v \<Rightarrow> Inr ([], st\<lparr>newRefValues := (newRefValues st)(desc_code desc \<mapsto> v)\<rparr>)))"

definition u_data ::
    "bufr_env \<Rightarrow> descriptor \<Rightarrow> table_b_entry \<Rightarrow> decoder_state \<Rightarrow> bufr_err + bvalue list \<times> decoder_state" where
  "u_data E desc entry st =
     (if tb_unit entry = ''CCITT IA5'' then
        (let effWidth = (if 0 < stringWidthOverride st then stringWidthOverride st else tb_width entry);
             charCount = effWidth sdiv 8
         in ebind (stream_read st effWidth (\<lambda>r. read_string r charCount)) (\<lambda>(s, st).
              Inr ([string_entry desc (tb_name entry) (tb_unit entry)
                      (case s of None \<Rightarrow> None | Some x \<Rightarrow> string_value x)], st)))
      else
        (let effWidth = eff_width st entry in
         if effWidth \<le> 0 \<or> 64 < effWidth then
           Inl (ErrInvalidBUFR (''invalid element width '' @ show_int effWidth))
         else
           ebind (stream_read st effWidth (\<lambda>r. read_bits r effWidth)) (\<lambda>(rawBits, st).
             Inr ([float_entry desc (tb_name entry) (tb_unit entry)
                     (case rawBits of
                        None \<Rightarrow> None
                      | Some raw \<Rightarrow>
                          if is_all_ones raw effWidth then None
                          else Some (decode_number raw (eff_ref E st desc entry) (eff_scale st entry)))], st))))"

definition u_element ::
    "bufr_env \<Rightarrow> descriptor \<Rightarrow> decoder_state \<Rightarrow> bufr_err + bvalue list \<times> decoder_state" where
  "u_element E desc st =
     (case lookup_b (env_tables E) (desc_code desc) of
        None \<Rightarrow> Inl (ErrUnknownDescriptor desc)
      | Some entry \<Rightarrow>
          if 0 < newRefWidth st then u_new_ref desc st
          else
            ebind (if 0 < bitmapRemaining st
                   then index_at (bitmapBits st) (int (length (bitmapBits st)) - int (bitmapRemaining st))
                   else Inr True) (\<lambda>bitPresent.
              (let blank = [blank_entry desc (tb_name entry) (tb_unit entry)];
                   st = st\<lparr>bitmapRemaining := bitmapRemaining st - 1\<rparr>
               in if \<not> bitPresent then Inr (blank, st)
                  else ebind (u_assoc desc st) (\<lambda>st. u_data E desc entry st))))"

section \<open>The loop over descriptors\<close>

function decode_u :: "bufr_env \<Rightarrow> nat \<Rightarrow> descriptor list \<Rightarrow> decoder_state \<Rightarrow> bufr_err + bvalue list \<times> decoder_state"
  and loop_u :: "bufr_env \<Rightarrow> nat \<Rightarrow> descriptor list \<Rightarrow> nat \<Rightarrow> bvalue list \<Rightarrow> decoder_state
        \<Rightarrow> bufr_err + bvalue list \<times> decoder_state"
  and repeat_u :: "bufr_env \<Rightarrow> nat \<Rightarrow> descriptor list \<Rightarrow> nat \<Rightarrow> bvalue list \<Rightarrow> decoder_state
        \<Rightarrow> bufr_err + bvalue list \<times> decoder_state"
where
  "decode_u E depth descriptors st =
     (if maxRecursionDepth < depth + 1 then Inl (limit_depth (depth + 1))
      else loop_u E (depth + 1) descriptors 0 [] st)"
| "loop_u E depth descriptors i res st0 =
     (if length descriptors \<le> i then Inr (res, st0)
      else if maxExpandedDescriptors < totalDescriptorsRead st0 + 1 then
        Inl (limit_total (totalDescriptorsRead st0 + 1))
      else
        (let st = st0\<lparr>totalDescriptorsRead := totalDescriptorsRead st0 + 1\<rparr> in
         ebind (nth_at descriptors i) (\<lambda>desc.
            if is_local desc then
              ebind (u_local desc st) (\<lambda>st. loop_u E depth descriptors (i + 1) res st)
            else if dF desc = 2 then
              ebind (u_operator desc st) (\<lambda>(vals, st). loop_u E depth descriptors (i + 1) (res @ vals) st)
            else if dF desc = 3 then
              (case lookup_d (env_tables E) (desc_code desc) of
                 None \<Rightarrow> Inl (ErrUnknownDescriptor desc)
               | Some seq \<Rightarrow>
                   ebind (decode_u E depth (map new_descriptor seq) st)
                     (\<lambda>(vals, st). loop_u E depth descriptors (i + 1) (res @ vals) st))
            else if dF desc = 1 then
              ebind (u_factor E descriptors i st) (\<lambda>(repCount, vals, st).
                (let i = (if dY desc = 0 then i + 1 else i); repDescriptors = nat (dX desc) in
                 if maxReplicationCount < repCount then Inl (limit_replication repCount)
                 else if length descriptors < i + 1 + repDescriptors then
                   Inl (ErrTruncated ''descriptor stream ended before replication block'')
                 else
                   ebind (slice_at descriptors (i + 1) (i + 1 + repDescriptors)) (\<lambda>block.
                     ebind (repeat_u E depth block (nat repCount) (res @ vals) st)
                       (\<lambda>(res, st). loop_u E depth descriptors (i + 1 + repDescriptors) res st))))
            else if dF desc = 0 then
              ebind (u_element E desc st) (\<lambda>(vals, st). loop_u E depth descriptors (i + 1) (res @ vals) st)
            else loop_u E depth descriptors i res st)))"
| "repeat_u E depth block n res st =
     (if n = 0 then Inr (res, st)
      else ebind (decode_u E depth block st) (\<lambda>(vals, st). repeat_u E depth block (n - 1) (res @ vals) st))"
  by pat_completeness auto
termination
  by (relation "measures
      [\<lambda>x. case x of Inl (E, depth, ds, st) \<Rightarrow> 65 - depth
                  | Inr (Inl (E, depth, ds, i, res, st)) \<Rightarrow> 65 - depth
                  | Inr (Inr (E, depth, block, n, res, st)) \<Rightarrow> 65 - depth,
       \<lambda>x. case x of Inl _ \<Rightarrow> 0 | Inr (Inl _) \<Rightarrow> 2 | Inr (Inr _) \<Rightarrow> 1,
       \<lambda>x. case x of Inl _ \<Rightarrow> 0
                  | Inr (Inl (E, depth, ds, i, res, st)) \<Rightarrow> length ds - i
                  | Inr (Inr (E, depth, block, n, res, st)) \<Rightarrow> n,
       \<lambda>x. case x of Inr (Inl (E, depth, ds, i, res, st)) \<Rightarrow> 100001 - totalDescriptorsRead st | _ \<Rightarrow> 0]")
    (auto simp: bufr_limits)

declare decode_u.simps [simp del] loop_u.simps [simp del] repeat_u.simps [simp del]

definition reset_subset :: "decoder_state \<Rightarrow> decoder_state" where
  "reset_subset st = st\<lparr>dataWidthChange := 0, scaleChange := 0, newRefWidth := 0, newRefValues := (\<lambda>_. None),
     assocFieldWidth := 0, stringWidthOverride := 0, scaleRefWidthExtra := 0, bitmapRemaining := 0,
     bitmapBits := [], skipNextLocal := False, streamExhausted := False\<rparr>"

fun subsets_u :: "bufr_env \<Rightarrow> descriptor list \<Rightarrow> nat \<Rightarrow> decoder_state \<Rightarrow> bufr_err + bvalue list list \<times> decoder_state" where
  "subsets_u E descriptors 0 st = Inr ([], st)"
| "subsets_u E descriptors (Suc n) st =
     ebind (decode_u E 0 descriptors (reset_subset st)) (\<lambda>(vals, st).
       ebind (subsets_u E descriptors n st) (\<lambda>(rest, st). Inr (vals # rest, st)))"

definition decode_uncompressed :: "bufr_env \<Rightarrow> descriptor list \<Rightarrow> nat \<Rightarrow> bit_reader \<Rightarrow> bufr_err + bvalue list list" where
  "decode_uncompressed E descriptors numSubsets r =
     ebind (subsets_u E descriptors numSubsets (init_state r)) (\<lambda>(subsets, _). Inr subsets)"

section \<open>Every case behaves\<close>

text \<open>
  The postcondition of one case of the switch: an error is one the decoder may report, never an
  over-read; otherwise the state advances, at most one value is appended, and nothing but absent
  values comes out of an exhausted stream.
\<close>

definition step_good :: "decoder_state \<Rightarrow> bufr_err + bvalue list \<times> decoder_state \<Rightarrow> bool" where
  "step_good st out \<longleftrightarrow>
     (case out of
        Inl e \<Rightarrow> decode_error_ok e
      | Inr (vals, st') \<Rightarrow>
          advances st st' \<and> totalDescriptorsRead st' = totalDescriptorsRead st \<and> length vals \<le> 1
          \<and> (streamExhausted st \<longrightarrow> list_all value_absent vals))"

lemma step_good_Inl [simp]: "step_good st (Inl e) = decode_error_ok e"
  by (simp add: step_good_def)

lemma step_good_Inr [simp]: "step_good st (Inr (vals, st')) \<longleftrightarrow>
    advances st st' \<and> totalDescriptorsRead st' = totalDescriptorsRead st \<and> length vals \<le> 1
    \<and> (streamExhausted st \<longrightarrow> list_all value_absent vals)"
  by (simp add: step_good_def)

lemma value_absent_simps [simp]:
  "value_absent (blank_entry d n u)"
  "value_absent (string_entry d n u None)"
  "value_absent (float_entry d n u None)"
  "value_absent (float_entry d n u (Some (f_of_int 0)))"
  by (simp_all add: value_absent_def is_missing_def blank_entry_def string_entry_def float_entry_def)

text \<open>Fields that the stream facts do not look at may change freely.\<close>

lemma advances_other:
  assumes "advances st st1" "rdr st2 = rdr st1" "streamExhausted st2 = streamExhausted st1"
    "totalDescriptorsRead st2 = totalDescriptorsRead st1"
    "bitmapRemaining st2 \<le> length (bitmapBits st2)" "0 \<le> localWidth st2"
  shows "advances st st2"
  using assms by (auto simp: advances_def state_ok_def)

lemma advances_from_other:
  assumes "advances st1 st2" "rdr st1 = rdr st" "streamExhausted st1 = streamExhausted st"
    "totalDescriptorsRead st1 = totalDescriptorsRead st"
  shows "advances st st2"
  using assms by (auto simp: advances_def)

lemma advances_ok: "advances st st' \<Longrightarrow> state_ok st'"
  by (simp add: advances_def)

lemma read_effect_other:
  assumes "read_effect st v st'" "state_ok st"
  shows "bitmapRemaining st' = bitmapRemaining st" "bitmapBits st' = bitmapBits st"
    "localWidth st' = localWidth st" "totalDescriptorsRead st' = totalDescriptorsRead st"
  using assms by (auto simp: read_effect_def)

lemma u_local_good:
  assumes "state_ok st"
  shows "case u_local desc st of
           Inl e \<Rightarrow> decode_error_ok e
         | Inr st' \<Rightarrow> advances st st' \<and> totalDescriptorsRead st' = totalDescriptorsRead st"
proof (cases "skipNextLocal st")
  case True
  let ?st = "st\<lparr>skipNextLocal := False\<rparr>"
  have ok: "state_ok ?st" "0 \<le> localWidth ?st" using assms by (auto simp: state_ok_def)
  obtain v st' where "stream_read ?st (localWidth ?st) (\<lambda>r. skip_read r (localWidth ?st)) = Inr (v, st')"
    and e: "read_effect ?st v st'"
    using stream_skipE [OF ok order_refl] by blast
  moreover have "advances st st'"
    by (rule advances_from_other [OF read_effect_advances [OF e]]) simp_all
  ultimately show ?thesis using True e by (simp add: u_local_def Let_def read_effect_def)
next
  case False
  then show ?thesis by (simp add: u_local_def)
qed

lemma u_bitmap_good:
  "state_ok st \<Longrightarrow> \<exists>bits st'. u_bitmap k st = Inr (bits, st') \<and> length bits = k \<and> advances st st'
     \<and> totalDescriptorsRead st' = totalDescriptorsRead st \<and> localWidth st' = localWidth st"
proof (induction k arbitrary: st)
  case 0
  then show ?case by (simp add: advances_refl)
next
  case (Suc k)
  obtain v st1 where 1: "stream_read st 1 (\<lambda>r. read_bits r 1) = Inr (v, st1)" "read_effect st v st1"
    using stream_bitsE [OF Suc.prems, of 1 1] by auto
  have "state_ok st1" by (rule advances_ok [OF read_effect_advances [OF 1(2)]])
  from Suc.IH [OF this] obtain bits st' where "u_bitmap k st1 = Inr (bits, st')" "length bits = k"
    "advances st1 st'" "totalDescriptorsRead st' = totalDescriptorsRead st1" "localWidth st' = localWidth st1"
    by blast
  then show ?case
    using 1 read_effect_other [OF 1(2) Suc.prems] advances_trans [OF read_effect_advances [OF 1(2)]]
    by auto
qed

lemma u_operator_good:
  assumes "state_ok st" "desc_ok desc" "dF desc = 2"
  shows "step_good st (u_operator desc st)"
proof -
  have y: "0 \<le> dY desc" using assms by (simp add: desc_ok_def)
  have keep: "advances st st'" if "rdr st' = rdr st" "streamExhausted st' = streamExhausted st"
    "totalDescriptorsRead st' = totalDescriptorsRead st" "bitmapRemaining st' \<le> length (bitmapBits st')"
    "0 \<le> localWidth st'" for st'
    by (rule advances_other [OF advances_refl [OF assms(1)]]) (use that in auto)
  have bm: "bitmapRemaining st \<le> length (bitmapBits st)" "0 \<le> localWidth st"
    using assms(1) by (auto simp: state_ok_def)
  consider "dX desc = 5" | "dX desc = 37" "dY desc \<noteq> 0" | "dX desc \<noteq> 5 \<and> (dX desc \<noteq> 37 \<or> dY desc = 0)" by blast
  then show ?thesis
  proof cases
    case 1
    have "8 * max 0 (dY desc) \<le> dY desc * 8" using y by simp
    then obtain v st' where r: "stream_read st (dY desc * 8) (\<lambda>r. read_string r (dY desc)) = Inr (v, st')"
      and e: "read_effect st v st'"
      using stream_charsE [OF assms(1)] by blast
    show ?thesis
      using 1 r e read_effect_advances [OF e] read_effect_exhausted [OF e] read_effect_other [OF e assms(1)]
      by (simp add: u_operator_def Let_def)
  next
    case 2
    obtain bits st' where "u_bitmap (nat (dY desc)) st = Inr (bits, st')" "length bits = nat (dY desc)"
      "advances st st'" "totalDescriptorsRead st' = totalDescriptorsRead st" "localWidth st' = localWidth st"
      using u_bitmap_good [OF assms(1)] by blast
    then show ?thesis
      using 2 bm y by (auto simp: u_operator_def Let_def intro!: advances_other [of st st'])
  next
    case 3
    then show ?thesis
      using y bm by (auto simp: u_operator_def Let_def intro!: keep)
  qed
qed

lemma u_factor_good:
  assumes "state_ok st" "i < length ds"
  shows "case u_factor E ds i st of
           Inl e \<Rightarrow> decode_error_ok e
         | Inr (n, vals, st') \<Rightarrow> step_good st (Inr (vals, st')) \<and> 0 < dX (ds ! i)"
proof -
  consider (bad) "dX (ds ! i) \<le> 0 \<or> dY (ds ! i) \<noteq> 0 \<or> length ds \<le> i + 1 \<or> lookup_b (env_tables E) (desc_code (ds ! (i + 1))) = None"
    | (read) entry where "\<not> dX (ds ! i) \<le> 0" "dY (ds ! i) = 0" "\<not> length ds \<le> i + 1"
      "lookup_b (env_tables E) (desc_code (ds ! (i + 1))) = Some entry"
    by fastforce
  then show ?thesis
  proof cases
    case bad
    then show ?thesis using assms by (auto simp: u_factor_def Let_def advances_refl split: option.splits if_splits)
  next
    case read
    let ?w = "tb_width entry + dataWidthChange st"
    show ?thesis
    proof (cases "?w \<le> 0 \<or> 64 < ?w")
      case True
      then show ?thesis using read assms(2) by (simp add: u_factor_def Let_def)
    next
      case False
      then have w: "0 \<le> ?w" "?w \<le> 64" by auto
      obtain v st' where r: "stream_read st ?w (\<lambda>r. read_bits r ?w) = Inr (v, st')" and e: "read_effect st v st'"
        using stream_bitsE [OF assms(1) w order_refl] by blast
      show ?thesis
        using read False r e assms(2) read_effect_advances [OF e] read_effect_exhausted [OF e] read_effect_other [OF e assms(1)]
        by (simp add: u_factor_def Let_def)
    qed
  qed
qed

lemma u_assoc_good:
  assumes "state_ok st"
  shows "\<exists>st'. u_assoc desc st = Inr st' \<and> advances st st' \<and> totalDescriptorsRead st' = totalDescriptorsRead st"
proof (cases "0 < assocFieldWidth st \<and> desc_code desc \<noteq> 31021 \<and> \<not> streamExhausted st")
  case True
  then have "0 \<le> assocFieldWidth st" by simp
  then obtain v st' where "stream_read st (assocFieldWidth st) (\<lambda>r. skip_read r (assocFieldWidth st)) = Inr (v, st')"
    "read_effect st v st'"
    using stream_skipE [OF assms _ order_refl] by blast
  then show ?thesis using True by (simp add: u_assoc_def read_effect_def)
next
  case False
  then have "u_assoc desc st = Inr st" by (auto simp: u_assoc_def)
  then show ?thesis using assms by (simp add: advances_refl)
qed

lemma u_new_ref_good:
  assumes "state_ok st" "0 < newRefWidth st"
  shows "step_good st (u_new_ref desc st)"
proof (cases rule: stream_signedE [OF assms])
  case (1 v st')
  note e = 1(2)
  show ?thesis
    using 1 read_effect_advances [OF e] read_effect_other [OF e assms(1)] advances_ok [OF read_effect_advances [OF e]]
    by (auto simp: u_new_ref_def state_ok_def split: option.splits intro!: advances_other [of st st'])
next
  case (2 e)
  then show ?thesis by (simp add: u_new_ref_def)
qed

lemma eight_sdiv: "8 * max 0 (w sdiv 8) \<le> max 0 (w :: int)"
proof (cases "0 \<le> w")
  case True
  then show ?thesis using sdiv_nonneg [of w 8] by simp
next
  case False
  then have "w sdiv 8 \<le> 0" by (simp add: signed_divide_int_def sgn_if)
  then show ?thesis by simp
qed

lemma u_data_good:
  assumes "state_ok st"
  shows "step_good st (u_data E desc entry st)"
proof (cases "tb_unit entry = ''CCITT IA5''")
  case True
  let ?w = "if 0 < stringWidthOverride st then stringWidthOverride st else tb_width entry"
  show ?thesis
  proof (cases "0 \<le> ?w")
    case nn: True
    then have "8 * max 0 (?w sdiv 8) \<le> ?w" using eight_sdiv [of ?w] by simp
    then obtain v st' where r: "stream_read st ?w (\<lambda>r. read_string r (?w sdiv 8)) = Inr (v, st')"
      and e: "read_effect st v st'"
      using stream_charsE [OF assms] by blast
    show ?thesis
      using True r e read_effect_advances [OF e] read_effect_exhausted [OF e] read_effect_other [OF e assms]
      by (simp add: u_data_def Let_def)
  next
    case neg: False
    then have "?w sdiv 8 \<le> 0" using eight_sdiv [of ?w] by linarith
    then have "\<exists>v st'. stream_read st ?w (\<lambda>r. read_string r (?w sdiv 8)) = Inr (v, st') \<and> read_effect st v st'"
    proof -
      assume c: "?w sdiv 8 \<le> 0"
      have "\<exists>x. stream_read st ?w (\<lambda>r. read_string r (?w sdiv 8)) = Inr x"
        using c by (intro stream_read_total) (auto simp: guarded_def read_string_def)
      then obtain v st' where "stream_read st ?w (\<lambda>r. read_string r (?w sdiv 8)) = Inr (v, st')" by fastforce
      with stream_read_effect [OF this read_step_chars assms] show ?thesis by blast
    qed
    then obtain v st' where r: "stream_read st ?w (\<lambda>r. read_string r (?w sdiv 8)) = Inr (v, st')"
      and e: "read_effect st v st'" by blast
    show ?thesis
      using True r e read_effect_advances [OF e] read_effect_exhausted [OF e] read_effect_other [OF e assms]
      by (simp add: u_data_def Let_def)
  qed
next
  case False
  let ?w = "eff_width st entry"
  show ?thesis
  proof (cases "?w \<le> 0 \<or> 64 < ?w")
    case True
    then show ?thesis using False by (simp add: u_data_def Let_def)
  next
    case w: False
    then have "0 \<le> ?w" "?w \<le> 64" by auto
    then obtain v st' where r: "stream_read st ?w (\<lambda>r. read_bits r ?w) = Inr (v, st')" and e: "read_effect st v st'"
      using stream_bitsE [OF assms _ _ order_refl] by blast
    show ?thesis
      using False w r e read_effect_advances [OF e] read_effect_exhausted [OF e] read_effect_other [OF e assms]
      by (simp add: u_data_def Let_def)
  qed
qed

lemma step_good_from:
  assumes "step_good st1 out" "rdr st1 = rdr st" "streamExhausted st1 = streamExhausted st"
    "totalDescriptorsRead st1 = totalDescriptorsRead st"
  shows "step_good st out"
  using assms by (auto simp: step_good_def split: sum.splits intro: advances_from_other)

lemma step_good_after:
  assumes "advances st st1" "totalDescriptorsRead st1 = totalDescriptorsRead st" "step_good st1 out"
  shows "step_good st out"
  using assms by (auto simp: step_good_def advances_def split: sum.splits)

lemma u_element_good:
  assumes "state_ok st"
  shows "step_good st (u_element E desc st)"
proof (cases "lookup_b (env_tables E) (desc_code desc)")
  case None
  then show ?thesis by (simp add: u_element_def)
next
  case (Some entry)
  show ?thesis
  proof (cases "0 < newRefWidth st")
    case True
    then show ?thesis using Some u_new_ref_good [OF assms True] by (simp add: u_element_def)
  next
    case False
    let ?st = "st\<lparr>bitmapRemaining := bitmapRemaining st - 1\<rparr>"
    have ok: "state_ok ?st" using assms by (auto simp: state_ok_def)
    have adv: "advances st ?st" using assms by (auto simp: advances_def state_ok_def)
    obtain st1 where "u_assoc desc ?st = Inr st1" "advances ?st st1"
      "totalDescriptorsRead st1 = totalDescriptorsRead ?st"
      using u_assoc_good [OF ok] by blast
    then have "step_good ?st (ebind (u_assoc desc ?st) (\<lambda>st. u_data E desc entry st))"
      using step_good_after [of ?st st1] u_data_good [OF advances_ok] by simp
    then have "step_good st (ebind (u_assoc desc ?st) (\<lambda>st. u_data E desc entry st))"
      by (rule step_good_from) simp_all
    moreover have "\<exists>b. (if 0 < bitmapRemaining st
        then index_at (bitmapBits st) (int (length (bitmapBits st)) - int (bitmapRemaining st)) else Inr True) = Inr b"
      using assms by (auto simp: state_ok_def index_at_in)
    ultimately show ?thesis
      using Some False adv by (auto simp: u_element_def Let_def)
  qed
qed

section \<open>Whole runs behave\<close>

definition run_good :: "decoder_state \<Rightarrow> bvalue list \<Rightarrow> bufr_err + bvalue list \<times> decoder_state \<Rightarrow> bool" where
  "run_good st res out \<longleftrightarrow>
     (case out of
        Inl e \<Rightarrow> decode_error_ok e
      | Inr (res', st') \<Rightarrow>
          (\<exists>vals. res' = res @ vals \<and> advances st st'
             \<and> length vals + totalDescriptorsRead st \<le> totalDescriptorsRead st'
             \<and> (totalDescriptorsRead st \<le> maxExpandedDescriptors \<longrightarrow> totalDescriptorsRead st' \<le> maxExpandedDescriptors)
             \<and> (streamExhausted st \<longrightarrow> list_all value_absent vals)))"

lemma run_good_Inl [simp]: "run_good st res (Inl e) = decode_error_ok e"
  by (simp add: run_good_def)

lemma run_good_done [simp]: "state_ok st \<Longrightarrow> run_good st res (Inr (res, st))"
  by (simp add: run_good_def advances_refl)

text \<open>A run after some values and some counted descriptors.\<close>

lemma run_good_then:
  assumes "advances st st1" "length vals + totalDescriptorsRead st \<le> totalDescriptorsRead st1"
    "totalDescriptorsRead st1 \<le> maxExpandedDescriptors"
    "streamExhausted st \<longrightarrow> list_all value_absent vals"
    "run_good st1 (res @ vals) out"
  shows "run_good st res out"
proof (cases out)
  case (Inr x)
  obtain res' st' where x: "x = (res', st')" by fastforce
  then obtain vs where "res' = (res @ vals) @ vs" "advances st1 st'"
    "length vs + totalDescriptorsRead st1 \<le> totalDescriptorsRead st'"
    "totalDescriptorsRead st' \<le> maxExpandedDescriptors"
    "streamExhausted st1 \<longrightarrow> list_all value_absent vs"
    using assms(3,5) Inr by (auto simp: run_good_def)
  then show ?thesis
    using assms Inr x advances_trans [OF assms(1)]
    by (auto simp: run_good_def advances_def intro!: exI [of _ "vals @ vs"])
qed (use assms(5) in simp)

lemma run_goodD:
  "run_good st res (Inr (res', st')) \<Longrightarrow> \<exists>vals. res' = res @ vals \<and> advances st st'
     \<and> length vals + totalDescriptorsRead st \<le> totalDescriptorsRead st'
     \<and> (totalDescriptorsRead st \<le> maxExpandedDescriptors \<longrightarrow> totalDescriptorsRead st' \<le> maxExpandedDescriptors)
     \<and> (streamExhausted st \<longrightarrow> list_all value_absent vals)"
  by (simp add: run_good_def)

text \<open>The state with one more descriptor counted, and the loop's characteristic equations.\<close>

definition counted :: "decoder_state \<Rightarrow> decoder_state" where
  "counted st = st\<lparr>totalDescriptorsRead := totalDescriptorsRead st + 1\<rparr>"

lemma counted_ok: "state_ok st \<Longrightarrow> state_ok (counted st) \<and> advances st (counted st)"
  by (auto simp: counted_def advances_def state_ok_def)

lemma counted_simps [simp]:
  "totalDescriptorsRead (counted st) = Suc (totalDescriptorsRead st)"
  "streamExhausted (counted st) = streamExhausted st"
  "rdr (counted st) = rdr st"
  by (simp_all add: counted_def)

text \<open>One iteration whose case is over: the loop goes on from the state it left.\<close>

lemma run_good_step:
  assumes st: "state_ok st" and lim: "\<not> maxExpandedDescriptors < totalDescriptorsRead st + 1"
    and step: "step_good (counted st) out"
    and next_run: "\<And>vals st'. out = Inr (vals, st') \<Longrightarrow> state_ok st' \<Longrightarrow> run_good st' (res @ vals) (k vals st')"
  shows "run_good st res (ebind out (\<lambda>(vals, st'). k vals st'))"
proof (cases out)
  case (Inl e)
  then show ?thesis using step by simp
next
  case (Inr x)
  obtain vals st' where x: "x = (vals, st')" by fastforce
  have adv: "advances st st'"
    using step Inr x counted_ok [OF st] advances_trans by (metis step_good_Inr)
  have "run_good st' (res @ vals) (k vals st')"
    using next_run Inr x advances_ok [OF adv] by simp
  then have "run_good st res (k vals st')"
    using step Inr x lim by (intro run_good_then [OF adv, of vals]) auto
  then show ?thesis using Inr x by simp
qed

lemma run_good_nested:
  assumes st: "state_ok st" and lim: "\<not> maxExpandedDescriptors < totalDescriptorsRead st + 1"
    and nested: "run_good (counted st) [] out"
    and next_run: "\<And>vals st'. out = Inr (vals, st') \<Longrightarrow> state_ok st' \<Longrightarrow> run_good st' (res @ vals) (k vals st')"
  shows "run_good st res (ebind out (\<lambda>(vals, st'). k vals st'))"
proof (cases out)
  case (Inl e)
  then show ?thesis using nested by simp
next
  case (Inr x)
  obtain vals st' where x: "x = (vals, st')" by fastforce
  have n: "advances (counted st) st'" "length vals + totalDescriptorsRead (counted st) \<le> totalDescriptorsRead st'"
    "totalDescriptorsRead st' \<le> maxExpandedDescriptors" "streamExhausted st \<longrightarrow> list_all value_absent vals"
    using nested Inr x lim by (auto dest!: run_goodD)
  have adv: "advances st st'" using n(1) counted_ok [OF st] advances_trans by blast
  have "run_good st' (res @ vals) (k vals st')"
    using next_run Inr x advances_ok [OF adv] by simp
  then have "run_good st res (k vals st')"
    using n by (intro run_good_then [OF adv, of vals]) auto
  then show ?thesis using Inr x by simp
qed

lemma run_good_bind:
  assumes "run_good st res out" "totalDescriptorsRead st \<le> maxExpandedDescriptors"
    and "\<And>res' st'. out = Inr (res', st') \<Longrightarrow> state_ok st' \<Longrightarrow> run_good st' res' (k res' st')"
  shows "run_good st res (ebind out (\<lambda>(r, s). k r s))"
proof (cases out)
  case (Inl e)
  then show ?thesis using assms(1) by simp
next
  case (Inr x)
  obtain res' st' where x: "x = (res', st')" by fastforce
  then obtain vals where v: "res' = res @ vals" "advances st st'"
    "length vals + totalDescriptorsRead st \<le> totalDescriptorsRead st'"
    "totalDescriptorsRead st' \<le> maxExpandedDescriptors" "streamExhausted st \<longrightarrow> list_all value_absent vals"
    using assms(1,2) Inr by (auto dest!: run_goodD)
  have "run_good st' (res @ vals) (k res' st')"
    using assms(3) [of res' st'] Inr x v(1) advances_ok [OF v(2)] by simp
  then have "run_good st res (k res' st')"
    using v by (intro run_good_then [OF v(2), of vals]) auto
  then show ?thesis using Inr x by simp
qed

lemma list_all_take_drop: "list_all P xs \<Longrightarrow> list_all P (take n (drop m xs))"
  by (auto simp: list_all_iff dest: in_set_takeD in_set_dropD)

lemma nested_desc_ok: "tables_ok t \<Longrightarrow> lookup_d t c = Some seq \<Longrightarrow> list_all desc_ok (map new_descriptor seq)"
  by (simp add: tables_ok_def list_all_iff)

lemma loop_u_end: "length ds \<le> i \<Longrightarrow> loop_u E depth ds i res st = Inr (res, st)"
  by (subst loop_u.simps) simp

lemma loop_u_limit:
  "i < length ds \<Longrightarrow> maxExpandedDescriptors < totalDescriptorsRead st + 1 \<Longrightarrow>
   loop_u E depth ds i res st = Inl (limit_total (totalDescriptorsRead st + 1))"
  by (subst loop_u.simps) simp

lemma loop_u_local:
  assumes inside: "i < length ds" and lim: "\<not> maxExpandedDescriptors < totalDescriptorsRead st + 1"
  shows "is_local (ds ! i) \<Longrightarrow>
   loop_u E depth ds i res st = ebind (u_local (ds ! i) (counted st)) (\<lambda>st'. loop_u E depth ds (i + 1) res st')"
  using inside lim by (subst loop_u.simps) (simp add: counted_def)

lemma loop_u_operator:
  assumes inside: "i < length ds" and lim: "\<not> maxExpandedDescriptors < totalDescriptorsRead st + 1"
  shows "\<not> is_local (ds ! i) \<Longrightarrow> dF (ds ! i) = 2 \<Longrightarrow>
   loop_u E depth ds i res st
     = ebind (u_operator (ds ! i) (counted st)) (\<lambda>(vals, st'). loop_u E depth ds (i + 1) (res @ vals) st')"
  using inside lim by (subst loop_u.simps) (simp add: counted_def)

lemma loop_u_sequence:
  assumes inside: "i < length ds" and lim: "\<not> maxExpandedDescriptors < totalDescriptorsRead st + 1"
  shows "\<not> is_local (ds ! i) \<Longrightarrow> dF (ds ! i) = 3 \<Longrightarrow> lookup_d (env_tables E) (desc_code (ds ! i)) = Some seq \<Longrightarrow>
   loop_u E depth ds i res st
     = ebind (decode_u E depth (map new_descriptor seq) (counted st))
         (\<lambda>(vals, st'). loop_u E depth ds (i + 1) (res @ vals) st')"
  using inside lim by (subst loop_u.simps) (simp add: counted_def)

lemma loop_u_unknown_sequence:
  assumes inside: "i < length ds" and lim: "\<not> maxExpandedDescriptors < totalDescriptorsRead st + 1"
  shows "\<not> is_local (ds ! i) \<Longrightarrow> dF (ds ! i) = 3 \<Longrightarrow> lookup_d (env_tables E) (desc_code (ds ! i)) = None \<Longrightarrow>
   loop_u E depth ds i res st = Inl (ErrUnknownDescriptor (ds ! i))"
  using inside lim by (subst loop_u.simps) simp

lemma loop_u_replication:
  assumes inside: "i < length ds" and lim: "\<not> maxExpandedDescriptors < totalDescriptorsRead st + 1"
  shows "\<not> is_local (ds ! i) \<Longrightarrow> dF (ds ! i) = 1 \<Longrightarrow>
   loop_u E depth ds i res st
     = ebind (u_factor E ds i (counted st)) (\<lambda>(n, vals, st').
         (let i' = (if dY (ds ! i) = 0 then i + 1 else i); m = nat (dX (ds ! i)) in
          if maxReplicationCount < n then Inl (limit_replication n)
          else if length ds < i' + 1 + m then Inl (ErrTruncated ''descriptor stream ended before replication block'')
          else ebind (repeat_u E depth (take m (drop (i' + 1) ds)) (nat n) (res @ vals) st')
                 (\<lambda>(res', st''). loop_u E depth ds (i' + 1 + m) res' st'')))"
  using inside lim by (subst loop_u.simps) (simp add: counted_def slice_at_def Let_def cong: if_cong)

lemma loop_u_element:
  assumes inside: "i < length ds" and lim: "\<not> maxExpandedDescriptors < totalDescriptorsRead st + 1"
  shows "\<not> is_local (ds ! i) \<Longrightarrow> dF (ds ! i) = 0 \<Longrightarrow>
   loop_u E depth ds i res st
     = ebind (u_element E (ds ! i) (counted st)) (\<lambda>(vals, st'). loop_u E depth ds (i + 1) (res @ vals) st')"
  using inside lim by (subst loop_u.simps) (simp add: counted_def)

lemma loop_u_spin:
  assumes inside: "i < length ds" and lim: "\<not> maxExpandedDescriptors < totalDescriptorsRead st + 1"
  shows "\<not> is_local (ds ! i) \<Longrightarrow> dF (ds ! i) \<notin> {0, 1, 2, 3} \<Longrightarrow>
   loop_u E depth ds i res st = loop_u E depth ds i res (counted st)"
  using inside lim by (subst loop_u.simps) (simp add: counted_def)

theorem decode_u_good:
  assumes "tables_ok (env_tables E)"
  shows "list_all desc_ok ds \<Longrightarrow> state_ok st \<Longrightarrow> run_good st [] (decode_u E depth ds st)"
    and "list_all desc_ok ds \<Longrightarrow> state_ok st \<Longrightarrow> run_good st res (loop_u E depth ds i res st)"
    and "list_all desc_ok ds \<Longrightarrow> state_ok st \<Longrightarrow> totalDescriptorsRead st \<le> maxExpandedDescriptors \<Longrightarrow>
           run_good st res (repeat_u E depth ds n res st)"
  using assms
proof (induction E depth ds st and E depth ds i res st and E depth ds n res st
    rule: decode_u_loop_u_repeat_u.induct)
  case (1 E depth ds st)
  then show ?case
    by (subst decode_u.simps) (auto simp: limit_depth_def)
next
  case (3 E depth block n res st)
  show ?case
  proof (cases "n = 0")
    case True
    then show ?thesis using 3 by (subst repeat_u.simps) simp
  next
    case False
    have run: "run_good st [] (decode_u E depth block st)" using 3 False by simp
    show ?thesis
    proof (cases "decode_u E depth block st")
      case (Inl e)
      then show ?thesis using run False by (subst repeat_u.simps) simp
    next
      case (Inr x)
      obtain vals st' where x: "x = (vals, st')" by fastforce
      have n: "advances st st'" "length vals + totalDescriptorsRead st \<le> totalDescriptorsRead st'"
        "totalDescriptorsRead st' \<le> maxExpandedDescriptors" "streamExhausted st \<longrightarrow> list_all value_absent vals"
        using run Inr x "3.prems"(3) by (auto dest!: run_goodD)
      have "run_good st' (res @ vals) (repeat_u E depth block (n - 1) (res @ vals) st')"
        using "3.IH"(2) [OF False Inr x [symmetric]] "3.prems"(1,4) advances_ok [OF n(1)] n(3) by simp
      then have "run_good st res (repeat_u E depth block (n - 1) (res @ vals) st')"
        using n by (intro run_good_then [OF n(1), of vals]) auto
      then show ?thesis using False Inr x by (subst repeat_u.simps) simp
    qed
  qed
next
  case (2 E depth ds i res st)
  show ?case
  proof (cases "length ds \<le> i \<or> maxExpandedDescriptors < totalDescriptorsRead st + 1")
    case True
    then consider "length ds \<le> i" | "i < length ds" "maxExpandedDescriptors < totalDescriptorsRead st + 1"
      by fastforce
    then show ?thesis
      by cases (use "2.prems"(2) in \<open>simp_all add: loop_u_end loop_u_limit limit_total_def\<close>)
  next
    case False
    then have in1: "i < length ds" and nle: "\<not> length ds \<le> i"
      and lim: "\<not> maxExpandedDescriptors < totalDescriptorsRead st + 1" by auto
    have st: "state_ok st" "state_ok (counted st)" "advances st (counted st)"
      using "2.prems"(2) counted_ok by auto
    have d_ok: "desc_ok (ds ! i)" using "2.prems"(1) in1 by (simp add: list_all_length)
    note IH = "2.IH" [folded counted_def, OF nle lim refl nth_at_in [OF in1]]
    consider (local) "is_local (ds ! i)" | (op) "\<not> is_local (ds ! i)" "dF (ds ! i) = 2"
      | (seq) "\<not> is_local (ds ! i)" "dF (ds ! i) = 3" | (rep) "\<not> is_local (ds ! i)" "dF (ds ! i) = 1"
      | (elem) "\<not> is_local (ds ! i)" "dF (ds ! i) = 0" | (spin) "\<not> is_local (ds ! i)" "dF (ds ! i) \<notin> {0, 1, 2, 3}"
      by blast
    then show ?thesis
    proof cases
      case local
      show ?thesis
      proof (cases "u_local (ds ! i) (counted st)")
        case (Inl e)
        then show ?thesis
          using loop_u_local [OF in1 lim local] u_local_good [OF st(2), of "ds ! i"] by simp
      next
        case (Inr st')
        then have n: "advances st st'" "totalDescriptorsRead st' = Suc (totalDescriptorsRead st)"
          using u_local_good [OF st(2), of "ds ! i"] st(3) advances_trans by auto
        have "run_good st' res (loop_u E depth ds (i + 1) res st')"
          using IH(1) [OF local Inr] "2.prems"(1,3) advances_ok [OF n(1)] by simp
        then have "run_good st res (loop_u E depth ds (i + 1) res st')"
          using n(2) lim by (intro run_good_then [OF n(1), of "[]"]) auto
        then show ?thesis using Inr loop_u_local [OF in1 lim local] by simp
      qed
    next
      case op
      show ?thesis
        unfolding loop_u_operator [OF in1 lim op]
        by (rule run_good_step [OF st(1) lim u_operator_good [OF st(2) d_ok op(2)]])
          (use IH(2) [OF op] "2.prems"(1,3) in auto)
    next
      case elem
      show ?thesis
        unfolding loop_u_element [OF in1 lim elem]
        by (rule run_good_step [OF st(1) lim u_element_good [OF st(2)]])
          (use IH(7) [OF elem(1)] elem(2) "2.prems"(1,3) in auto)
    next
      case spin
      have "run_good (counted st) res (loop_u E depth ds i res (counted st))"
        using IH(8) [OF spin(1)] spin(2) st(2) "2.prems"(1,3) by simp
      then have "run_good st res (loop_u E depth ds i res (counted st))"
        using lim by (intro run_good_then [OF st(3), of "[]"]) auto
      then show ?thesis by (simp only: loop_u_spin [OF in1 lim spin])
    next
      case seq
      show ?thesis
      proof (cases "lookup_d (env_tables E) (desc_code (ds ! i))")
        case None
        then show ?thesis by (simp add: loop_u_unknown_sequence [OF in1 lim seq])
      next
        case (Some s)
        have nested: "run_good (counted st) [] (decode_u E depth (map new_descriptor s) (counted st))"
          using IH(3) [OF seq(1)] seq(2) Some nested_desc_ok [OF "2.prems"(3) Some] st(2) "2.prems"(3) by simp
        show ?thesis
          unfolding loop_u_sequence [OF in1 lim seq Some]
          by (rule run_good_nested [OF st(1) lim nested])
            (use IH(4) [OF seq(1)] seq(2) Some "2.prems"(1,3) in auto)
      qed
    next
      case rep
      show ?thesis
      proof (cases "u_factor E ds i (counted st)")
        case (Inl e)
        then show ?thesis
          using u_factor_good [OF st(2) in1, where E = E] by (simp add: loop_u_replication [OF in1 lim rep])
      next
        case (Inr x)
        obtain n vals st' where x: "x = (n, vals, st')" by (metis prod.exhaust)
        define i' where "i' = (if dY (ds ! i) = 0 then i + 1 else i)"
        define m where "m = nat (dX (ds ! i))"
        have f: "step_good (counted st) (Inr (vals, st'))"
          using u_factor_good [OF st(2) in1, where E = E] Inr x by simp
        then have adv: "advances st st'" and cnt: "totalDescriptorsRead st' = Suc (totalDescriptorsRead st)"
          and "length vals \<le> 1" "streamExhausted st \<longrightarrow> list_all value_absent vals"
          using st(3) advances_trans by auto
        note step = run_good_then [OF adv, of vals res] and ok' = advances_ok [OF adv]
        show ?thesis
        proof (cases "maxReplicationCount < n \<or> length ds < i' + 1 + m")
          case True
          then show ?thesis
            using Inr x by (auto simp: loop_u_replication [OF in1 lim rep] Let_def limit_replication_def
              i'_def [symmetric] m_def [symmetric])
        next
          case fits: False
          let ?block = "take m (drop (i' + 1) ds)"
          have sl: "slice_at ds (i' + 1) (i' + 1 + m) = Inr ?block"
            using fits by (intro slice_at_in) simp
          have block: "run_good st' (res @ vals) (repeat_u E depth ?block (nat n) (res @ vals) st')"
            using IH(5) [OF rep(1)] rep(2) Inr x fits sl "2.prems"(1,3) ok' lim cnt
            by (simp add: list_all_take_drop i'_def m_def slice_at_def)
          have "run_good st' (res @ vals) (ebind (repeat_u E depth ?block (nat n) (res @ vals) st')
                 (\<lambda>(res', st''). loop_u E depth ds (i' + 1 + m) res' st''))"
          proof (rule run_good_bind [OF block])
            fix res' st''
            assume "repeat_u E depth ?block (nat n) (res @ vals) st' = Inr (res', st'')" "state_ok st''"
            then show "run_good st'' res' (loop_u E depth ds (i' + 1 + m) res' st'')"
              using IH(6) [OF rep(1)] rep(2) Inr x fits "2.prems"(1,3) by (simp add: i'_def m_def slice_at_def)
          qed (use lim cnt in simp)
          then have "run_good st res (ebind (repeat_u E depth ?block (nat n) (res @ vals) st')
                 (\<lambda>(res', st''). loop_u E depth ds (i' + 1 + m) res' st''))"
            using step cnt lim \<open>length vals \<le> 1\<close> \<open>streamExhausted st \<longrightarrow> _\<close> by simp
          then show ?thesis
            using Inr x fits by (simp add: loop_u_replication [OF in1 lim rep] Let_def
              i'_def [symmetric] m_def [symmetric])
        qed
      qed
    qed
  qed
qed

section \<open>All subsets\<close>

definition subsets_good :: "nat \<Rightarrow> decoder_state \<Rightarrow> bufr_err + bvalue list list \<times> decoder_state \<Rightarrow> bool" where
  "subsets_good n st out \<longleftrightarrow>
     (case out of
        Inl e \<Rightarrow> decode_error_ok e
      | Inr (subsets, st') \<Rightarrow>
          length subsets = n \<and> state_ok st'
          \<and> sum_list (map length subsets) + totalDescriptorsRead st \<le> totalDescriptorsRead st'
          \<and> totalDescriptorsRead st' \<le> maxExpandedDescriptors)"

lemma reset_subset_ok:
  "state_ok st \<Longrightarrow> state_ok (reset_subset st)"
  "totalDescriptorsRead (reset_subset st) = totalDescriptorsRead st"
  by (simp_all add: reset_subset_def state_ok_def)

lemma init_state_ok: "state_ok (init_state (new_bit_reader data))"
  by (simp add: init_state_def state_ok_def)

lemma subsets_u_good:
  assumes "tables_ok (env_tables E)" "list_all desc_ok ds"
  shows "state_ok st \<Longrightarrow> totalDescriptorsRead st \<le> maxExpandedDescriptors \<Longrightarrow> subsets_good n st (subsets_u E ds n st)"
proof (induction n arbitrary: st)
  case 0
  then show ?case by (simp add: subsets_good_def)
next
  case (Suc n)
  have run: "run_good (reset_subset st) [] (decode_u E 0 ds (reset_subset st))"
    using decode_u_good(1) [OF assms] Suc.prems(1) reset_subset_ok by simp
  show ?case
  proof (cases "decode_u E 0 ds (reset_subset st)")
    case (Inl e)
    then show ?thesis using run by (simp add: subsets_good_def)
  next
    case (Inr x)
    obtain vals st' where x: "x = (vals, st')" by fastforce
    then have v: "advances (reset_subset st) st'" "length vals + totalDescriptorsRead st \<le> totalDescriptorsRead st'"
      "totalDescriptorsRead st' \<le> maxExpandedDescriptors"
      using run Inr Suc.prems(2) reset_subset_ok(2) by (auto dest!: run_goodD)
    have "subsets_good n st' (subsets_u E ds n st')"
      using Suc.IH advances_ok [OF v(1)] v(3) by simp
    then show ?thesis
      using Inr x v by (auto simp: subsets_good_def split: sum.splits)
  qed
qed

section \<open>Properties\<close>

lemma decode_uncompressed_good:
  assumes "tables_ok (env_tables E)" "list_all desc_ok ds"
  shows "case decode_uncompressed E ds n (new_bit_reader data) of
      Inl e \<Rightarrow> \<not> is_panic e \<and> e \<noteq> ErrRead ErrUnexpectedEOF \<and> e \<noteq> ErrRead ErrNegativeBitCount
                \<and> (\<forall>w. e = ErrRead (ErrInvalidBitCount w) \<longrightarrow> 64 < w)
    | Inr subsets \<Rightarrow> length subsets = n \<and> sum_list (map length subsets) \<le> 100000"
proof -
  have "subsets_good n (init_state (new_bit_reader data)) (subsets_u E ds n (init_state (new_bit_reader data)))"
    using subsets_u_good [OF assms init_state_ok] by (simp add: init_state_def)
  then show ?thesis
    by (auto simp: decode_uncompressed_def subsets_good_def init_state_def bufr_limits decode_error_no_panic split: sum.splits)
qed

text \<open>C2: Decoding uncompressed data never over-reads the payload: whatever the payload, a failure is a
  reported data error (never a panic, an unexpected end of data, a negative bit count or a zero width; the only
  read error left is an operator that asks for reference values wider than 64 bits); a success has
  one value list per subset and no more values in all subsets together than the limit on expanded
  descriptors.\<close>

theorem decode_uncompressed_safe:
  assumes "tables_ok (env_tables E)" "list_all desc_ok ds"
  shows "case decode_uncompressed E ds n (new_bit_reader data) of
      Inl e \<Rightarrow> \<not> is_panic e \<and> e \<noteq> ErrRead ErrUnexpectedEOF \<and> e \<noteq> ErrRead ErrNegativeBitCount
                \<and> (\<forall>w. e = ErrRead (ErrInvalidBitCount w) \<longrightarrow> 64 < w)
    | Inr subsets \<Rightarrow> length subsets = n \<and> sum_list (map length subsets) \<le> 100000"
  by (rule decode_uncompressed_good [OF assms])

text \<open>A small table and payload: one 8-bit temperature, two subsets.\<close>

definition demo_tables :: tables where
  "demo_tables = \<lparr>table_b = [12101 \<mapsto> \<lparr>tb_name = ''TEMPERATURE'', tb_unit = ''K'', tb_scale = 1, tb_reference = 0, tb_width = 8\<rparr>],
     table_d = [301001 \<mapsto> [12101, 12101]]\<rparr>"

definition demo_env :: bufr_env where
  "demo_env = \<lparr>env_tables = demo_tables, env_ovf = 0\<rparr>"

lemma demo_tables_ok: "tables_ok (env_tables demo_env)"
  by (auto simp: tables_ok_def demo_env_def demo_tables_def lookup_d_def desc_ok_def new_descriptor_def
      split: if_splits)

theorem decode_uncompressed_safe_witness:
  "case decode_uncompressed demo_env [\<lparr>dF = 0, dX = 12, dY = 101\<rparr>] 2 (new_bit_reader [200, 255]) of
      Inl e \<Rightarrow> \<not> is_panic e \<and> e \<noteq> ErrRead ErrUnexpectedEOF \<and> e \<noteq> ErrRead ErrNegativeBitCount
                \<and> (\<forall>w. e = ErrRead (ErrInvalidBitCount w) \<longrightarrow> 64 < w)
    | Inr subsets \<Rightarrow> length subsets = 2 \<and> sum_list (map length subsets) \<le> 100000"
  by (rule decode_uncompressed_safe) (simp_all add: demo_tables_ok desc_ok_def)

text \<open>Once the stream is exhausted (a read asked for more than was left), the rest of the subset decodes
  without touching the payload, and every value it yields is missing or a zero replication count.\<close>

theorem exhausted_stream_yields_absent:
  assumes "tables_ok (env_tables E)" "list_all desc_ok ds" "state_ok st" "streamExhausted st"
    "decode_u E depth ds st = Inr (vals, st')"
  shows "list_all value_absent vals \<and> rdr st' = rdr st \<and> streamExhausted st'"
  using decode_u_good(1) [OF assms(1,2,3), of depth] assms(4,5)
  by (auto simp: advances_def dest!: run_goodD)

definition demo_exhausted :: decoder_state where
  "demo_exhausted = (init_state (new_bit_reader [200]))\<lparr>streamExhausted := True\<rparr>"

lemma demo_exhausted_ok: "state_ok demo_exhausted" "streamExhausted demo_exhausted"
  by (simp_all add: demo_exhausted_def state_ok_def init_state_def)

theorem exhausted_stream_yields_absent_witness:
  "\<exists>vals st'. decode_u demo_env 0 [\<lparr>dF = 0, dX = 12, dY = 101\<rparr>] demo_exhausted = Inr (vals, st')
    \<and> list_all value_absent vals \<and> rdr st' = rdr demo_exhausted \<and> streamExhausted st'"
proof -
  have "\<not> isl (decode_u demo_env 0 [\<lparr>dF = 0, dX = 12, dY = 101\<rparr>] demo_exhausted)"
    by (subst decode_u.simps) (simp add: loop_u_element loop_u_end demo_exhausted_def init_state_def counted_def
        bufr_limits is_local_def u_element_def u_assoc_def u_data_def eff_width_def demo_env_def demo_tables_def lookup_b_def
        desc_code_def stream_read_def guarded_def lift_read_def)
  then obtain vals st' where run: "decode_u demo_env 0 [\<lparr>dF = 0, dX = 12, dY = 101\<rparr>] demo_exhausted = Inr (vals, st')"
    by (cases "decode_u demo_env 0 [\<lparr>dF = 0, dX = 12, dY = 101\<rparr>] demo_exhausted") auto
  with exhausted_stream_yields_absent [OF demo_tables_ok _ demo_exhausted_ok run] show ?thesis
    by (simp add: desc_ok_def)
qed

text \<open>Outside operators, a numeric element takes exactly its effective width: its value is missing
  when the bits are all ones, and otherwise (raw + reference) * 10 ^ -scale of the number that the next
  bits of the payload spell; the cursor moves over those bits and nothing else changes.\<close>

theorem element_decodes_slice:
  assumes "state_ok st" "\<not> streamExhausted st" "newRefWidth st \<le> 0" "assocFieldWidth st \<le> 0" "bitmapRemaining st = 0"
    and entry: "lookup_b (env_tables E) (desc_code desc) = Some entry" "tb_unit entry \<noteq> ''CCITT IA5''"
    and w: "w = eff_width st entry" "0 < w" "w \<le> 64" "w \<le> bits_remaining (rdr st)"
    and raw: "raw = bits_val (take (nat w) (drop (rd_pos (rdr st)) (bits_of (rd_data (rdr st)))))"
  shows "u_element E desc st =
    Inr ([float_entry desc (tb_name entry) (tb_unit entry)
            (if raw = 2 ^ nat w - 1 then None
             else Some (f_mul (f_add (f_of_int (int raw)) (f_of_int (eff_ref E st desc entry)))
                         (pow10 (- eff_scale st entry))))],
         st\<lparr>rdr := advance (rdr st) w\<rparr>)"
proof -
  have "int (rd_pos (rdr st)) + w \<le> int (length (rd_data (rdr st))) * 8"
    using w(4) assms(1) by (simp add: bits_remaining_eq state_ok_def)
  then obtain v where v: "read_bits (rdr st) w = Inr (v, advance (rdr st) w)" "unat v = raw"
    using read_bits_ok [of w "rdr st"] w raw unfolding advance_def by auto
  have st: "st\<lparr>bitmapRemaining := 0\<rparr> = st"
    using assms(5) by (cases st) simp
  have read: "stream_read st w (\<lambda>r. read_bits r w) = Inr (Some v, st\<lparr>rdr := advance (rdr st) w\<rparr>)"
    using v w(4) assms(2) by (cases st) (simp add: stream_read_def guarded_def lift_read_def)
  have eff: "eff_width (st\<lparr>rdr := r\<rparr>) entry = eff_width st entry" "eff_ref E (st\<lparr>rdr := r\<rparr>) desc entry = eff_ref E st desc entry"
    "eff_scale (st\<lparr>rdr := r\<rparr>) entry = eff_scale st entry" for r
    by (simp_all add: eff_width_def eff_ref_def eff_scale_def Let_def)
  have u: "uint v = int raw" using v(2) by (simp add: uint_nat)
  show ?thesis
    using assms(3-5) entry w(1-3) read v(2)
    by (simp add: u_element_def st u_assoc_def u_data_def eff is_all_ones_iff decode_number_def u Let_def del: One_nat_def)
qed

theorem element_decodes_slice_witness:
  "u_element demo_env \<lparr>dF = 0, dX = 12, dY = 101\<rparr> (init_state (new_bit_reader [200, 255])) =
     Inr ([float_entry \<lparr>dF = 0, dX = 12, dY = 101\<rparr> ''TEMPERATURE'' ''K''
             (Some (f_mul (f_add (f_of_int 200) (f_of_int 0)) (pow10 (- 1))))],
          (init_state (new_bit_reader [200, 255]))\<lparr>rdr := advance (new_bit_reader [200, 255]) 8\<rparr>)"
proof -
  let ?st = "init_state (new_bit_reader [200, 255])" and ?d = "\<lparr>dF = 0, dX = 12, dY = 101\<rparr>"
  let ?e = "\<lparr>tb_name = ''TEMPERATURE'', tb_unit = ''K'', tb_scale = 1, tb_reference = 0, tb_width = 8\<rparr>"
  have raw: "(200 :: nat) = bits_val (take (nat 8) (drop (rd_pos (rdr ?st)) (bits_of (rd_data (rdr ?st)))))"
    by (simp add: init_state_def new_bit_reader_def bits_of_def byte_bits_def upt_rec bits_val_def)
  have w: "8 = eff_width ?st ?e" "8 \<le> bits_remaining (rdr ?st)"
    "lookup_b (env_tables demo_env) (desc_code ?d) = Some ?e"
    by (simp_all add: init_state_def eff_width_def bits_remaining_def new_bit_reader_def demo_env_def demo_tables_def
        lookup_b_def desc_code_def)
  from element_decodes_slice [OF _ _ _ _ _ w(3) _ w(1) _ _ w(2) raw] init_state_ok [of "[200, 255]"]
  show ?thesis
    by (simp add: init_state_def eff_ref_def eff_scale_def)
qed

end
