(* ===== verification/BufrCompressed.thy ===== *)
theory BufrCompressed
  imports BufrUncompressed
begin

text \<open>
  The decoder of compressed BUFR data (\<open>decodeCompressed\<close> and \<open>decodeDescriptorsCompressed\<close> in
  \<open>wis2_adapter/app/bufr/decoder.go\<close>).  One descriptor yields one column: a value for every subset, made
  of a common reference and, when the 6-bit increment width is not zero, one increment per subset.  The
  cases of the switch return the columns to append; the loop appends them to the subsets.
\<close>

section \<open>Columns\<close>

type_synonym column = "bvalue list"

definition append_column :: "column \<Rightarrow> bvalue list list \<Rightarrow> bvalue list list" where
  "append_column col subsets = map2 (\<lambda>vs v. vs @ [v]) subsets col"

definition append_columns :: "column list \<Rightarrow> bvalue list list \<Rightarrow> bvalue list list" where
  "append_columns cols subsets = fold append_column cols subsets"

text \<open>The increments of a character column, one per subset.\<close>

fun c_inc_strings ::
    "(string option \<Rightarrow> bvalue) \<Rightarrow> bool \<Rightarrow> int \<Rightarrow> nat \<Rightarrow> decoder_state \<Rightarrow> bufr_err + column \<times> decoder_state" where
  "c_inc_strings mk isRefMiss nbinc 0 st = Inr ([], st)"
| "c_inc_strings mk isRefMiss nbinc (Suc k) st =
     ebind (stream_read st (nbinc * 8) (\<lambda>r. read_string r nbinc)) (\<lambda>(inc, st).
       ebind (c_inc_strings mk isRefMiss nbinc k st) (\<lambda>(vs, st).
         Inr (mk (case inc of None \<Rightarrow> None | Some x \<Rightarrow> if isRefMiss then None else string_value x) # vs, st)))"

definition c_string_column ::
    "descriptor \<Rightarrow> string \<Rightarrow> string \<Rightarrow> int \<Rightarrow> int \<Rightarrow> nat \<Rightarrow> decoder_state \<Rightarrow> bufr_err + column list \<times> decoder_state" where
  "c_string_column desc name u charCount width n st =
     (if streamExhausted st \<or> bits_remaining (rdr st) < width + 6 then
        Inr ([replicate n (blank_entry desc name u)], st\<lparr>streamExhausted := True\<rparr>)
      else
        ebind (lift_read (read_string (rdr st) charCount)) (\<lambda>((refStr, isRefMiss), r).
          ebind (lift_read (read_bits r 6)) (\<lambda>(nbincBits, r).
            (let nbinc = sint nbincBits; st = st\<lparr>rdr := r\<rparr>; mk = string_entry desc name u in
             if nbinc = 0 then Inr ([replicate n (mk (string_value (refStr, isRefMiss)))], st)
             else ebind (c_inc_strings mk isRefMiss nbinc n st) (\<lambda>(col, st). Inr ([col], st))))))"

text \<open>The increments of a numeric column.\<close>

fun c_inc_numbers ::
    "(f64 option \<Rightarrow> bvalue) \<Rightarrow> u64 \<Rightarrow> bool \<Rightarrow> int \<Rightarrow> int \<Rightarrow> int \<Rightarrow> nat \<Rightarrow> decoder_state
      \<Rightarrow> bufr_err + column \<times> decoder_state" where
  "c_inc_numbers mk refBits isRefMiss effRef effScale nbinc 0 st = Inr ([], st)"
| "c_inc_numbers mk refBits isRefMiss effRef effScale nbinc (Suc k) st =
     ebind (stream_read st nbinc (\<lambda>r. read_bits r nbinc)) (\<lambda>(inc, st).
       ebind (c_inc_numbers mk refBits isRefMiss effRef effScale nbinc k st) (\<lambda>(vs, st).
         Inr (mk (case inc of
                    None \<Rightarrow> None
                  | Some incBits \<Rightarrow>
                      if \<not> isRefMiss \<and> \<not> is_all_ones incBits nbinc
                      then Some (decode_number (refBits + incBits) effRef effScale) else None) # vs, st)))"

definition c_number_column ::
    "bufr_env \<Rightarrow> descriptor \<Rightarrow> table_b_entry \<Rightarrow> int \<Rightarrow> nat \<Rightarrow> decoder_state \<Rightarrow> bufr_err + column list \<times> decoder_state" where
  "c_number_column E desc entry effWidth n st =
     (if streamExhausted st \<or> bits_remaining (rdr st) < effWidth + 6 then
        Inr ([replicate n (blank_entry desc (tb_name entry) (tb_unit entry))], st\<lparr>streamExhausted := True\<rparr>)
      else
        ebind (lift_read (read_bits (rdr st) effWidth)) (\<lambda>(refBits, r).
          ebind (lift_read (read_bits r 6)) (\<lambda>(nbincBits, r).
            (let isRefMiss = is_all_ones refBits effWidth; nbinc = sint nbincBits; st = st\<lparr>rdr := r\<rparr>;
                 effRef = eff_ref E st desc entry; effScale = eff_scale st entry;
                 mk = float_entry desc (tb_name entry) (tb_unit entry)
             in if nbinc = 0 then
                  Inr ([replicate n (mk (if isRefMiss then None else Some (decode_number refBits effRef effScale)))], st)
                else ebind (c_inc_numbers mk refBits isRefMiss effRef effScale nbinc n st)
                       (\<lambda>(col, st). Inr ([col], st))))))"

section \<open>The cases of the descriptor switch\<close>

definition c_local :: "descriptor \<Rightarrow> decoder_state \<Rightarrow> bufr_err + decoder_state" where
  "c_local desc st =
     (if skipNextLocal st then
        (let st = st\<lparr>skipNextLocal := False\<rparr> in
         ebind (stream_read st (localWidth st) (\<lambda>r. skip_read r (localWidth st))) (\<lambda>(_, st). Inr st))
      else Inl (ErrLocalDescriptor desc))"

definition c_operator :: "descriptor \<Rightarrow> nat \<Rightarrow> decoder_state \<Rightarrow> bufr_err + column list \<times> decoder_state" where
  "c_operator desc n st =
     (let x = dX desc; y = dY desc in
      if x = 1 then
        Inr ([], st\<lparr>dataWidthChange := (if y = 0 then 0 else y - 128)\<rparr>)
      else if x = 2 then
        Inr ([], st\<lparr>scaleChange := (if y = 0 then 0 else y - 128)\<rparr>)
      else if x = 3 then
        (if y = 0 then Inr ([], st\<lparr>newRefWidth := 0, newRefValues := (\<lambda>_. None)\<rparr>)
         else if y = 255 then Inr ([], st\<lparr>newRefWidth := 0\<rparr>)
         else Inr ([], st\<lparr>newRefWidth := y\<rparr>))
      else if x = 4 then
        Inr ([], st\<lparr>assocFieldWidth := y\<rparr>)
      else if x = 5 then
        c_string_column desc ''Signify character'' ''CCITT IA5'' y (y * 8) n st
      else if x = 6 then
        Inr ([], st\<lparr>skipNextLocal := True, localWidth := y\<rparr>)
      else if x = 7 then
        Inr ([], st\<lparr>scaleRefWidthExtra := y\<rparr>)
      else if x = 8 then
        Inr ([], st\<lparr>stringWidthOverride := y * 8\<rparr>)
      else Inr ([], st))"

text \<open>
  The increments of a delayed replication factor: read, one per subset, and thrown away.  These reads
  are not guarded by the number of bits left.
\<close>

fun c_skip_increments :: "nat \<Rightarrow> int \<Rightarrow> bit_reader \<Rightarrow> read_err + bit_reader" where
  "c_skip_increments 0 nbinc r = Inr r"
| "c_skip_increments (Suc k) nbinc r = ebind (read_bits r nbinc) (\<lambda>(_, r). c_skip_increments k nbinc r)"

definition c_factor ::
    "bufr_env \<Rightarrow> descriptor list \<Rightarrow> nat \<Rightarrow> nat \<Rightarrow> decoder_state \<Rightarrow> bufr_err + int \<times> column list \<times> decoder_state" where
  "c_factor E descriptors i n st =
     ebind (nth_at descriptors i) (\<lambda>desc.
      if dX desc \<le> 0 then
        Inl (ErrInvalidBUFR (''invalid replication descriptor count '' @ show_int (dX desc)))
      else if dY desc \<noteq> 0 then Inr (dY desc, [], st)
      else if length descriptors \<le> i + 1 then Inl (ErrTruncated ''missing delayed replication factor'')
      else
        ebind (nth_at descriptors (i + 1)) (\<lambda>factorDesc.
         case lookup_b (env_tables E) (desc_code factorDesc) of
           None \<Rightarrow> Inl (ErrUnknownDescriptor factorDesc)
         | Some entry \<Rightarrow>
             (let effWidth = tb_width entry + dataWidthChange st;
                  col = (\<lambda>repCount. replicate n (float_entry factorDesc (tb_name entry) (tb_unit entry) (Some (f_of_int repCount))))
              in if streamExhausted st \<or> bits_remaining (rdr st) < effWidth + 6 then
                   Inr (0, [col 0], st\<lparr>streamExhausted := True\<rparr>)
                 else
                   ebind (lift_read (read_bits (rdr st) effWidth)) (\<lambda>(refBits, r).
                     ebind (lift_read (read_bits r 6)) (\<lambda>(nbincBits, r).
                       (let nbinc = sint nbincBits;
                            repCount = (if desc_code factorDesc = 31000 then sint refBits
                                        else if is_all_ones refBits effWidth then 0 else sint refBits)
                        in ebind (lift_read (if 0 < nbinc then c_skip_increments n nbinc r else Inr r)) (\<lambda>r.
                             Inr (repCount, [col repCount], st\<lparr>rdr := r\<rparr>))))))))"

definition c_new_ref :: "descriptor \<Rightarrow> decoder_state \<Rightarrow> bufr_err + column list \<times> decoder_state" where
  "c_new_ref desc st =
     ebind (stream_read st (newRefWidth st) (\<lambda>r. read_signed_bits r (newRefWidth st))) (\<lambda>(newRef, st).
       (case newRef of
          None \<Rightarrow> Inr ([], st)
        | Some v \<Rightarrow> Inr ([], st\<lparr>newRefValues := (newRefValues st)(desc_code desc \<mapsto> v)\<rparr>)))"

definition c_data ::
    "bufr_env \<Rightarrow> descriptor \<Rightarrow> table_b_entry \<Rightarrow> nat \<Rightarrow> decoder_state \<Rightarrow> bufr_err + column list \<times> decoder_state" where
  "c_data E desc entry n st =
     (if tb_unit entry = ''CCITT IA5'' then
        (let effWidth = (if 0 < stringWidthOverride st then stringWidthOverride st else tb_width entry)
         in c_string_column desc (tb_name entry) (tb_unit entry) (effWidth sdiv 8) effWidth n st)
      else
        (let effWidth = eff_width st entry in
         if effWidth \<le> 0 \<or> 64 < effWidth then
           Inl (ErrInvalidBUFR (''invalid element width '' @ show_int effWidth))
         else c_number_column E desc entry effWidth n st))"

definition c_element ::
    "bufr_env \<Rightarrow> descriptor \<Rightarrow> nat \<Rightarrow> decoder_state \<Rightarrow> bufr_err + column list \<times> decoder_state" where
  "c_element E desc n st =
     (case lookup_b (env_tables E) (desc_code desc) of
        None \<Rightarrow> Inl (ErrUnknownDescriptor desc)
      | Some entry \<Rightarrow> if 0 < newRefWidth st then c_new_ref desc st else c_data E desc entry n st)"

section \<open>The loop over descriptors\<close>

function decode_c :: "bufr_env \<Rightarrow> nat \<Rightarrow> descriptor list \<Rightarrow> bvalue list list \<Rightarrow> decoder_state
        \<Rightarrow> bufr_err + bvalue list list \<times> decoder_state"
  and loop_c :: "bufr_env \<Rightarrow> nat \<Rightarrow> descriptor list \<Rightarrow> nat \<Rightarrow> bvalue list list \<Rightarrow> decoder_state
        \<Rightarrow> bufr_err + bvalue list list \<times> decoder_state"
  and repeat_c :: "bufr_env \<Rightarrow> nat \<Rightarrow> descriptor list \<Rightarrow> nat \<Rightarrow> bvalue list list \<Rightarrow> decoder_state
        \<Rightarrow> bufr_err + bvalue list list \<times> decoder_state"
where
  "decode_c E depth descriptors subsets st =
     (if maxRecursionDepth < depth + 1 then Inl (limit_depth (depth + 1))
      else loop_c E (depth + 1) descriptors 0 subsets st)"
| "loop_c E depth descriptors i subsets st0 =
     (if length descriptors \<le> i then Inr (subsets, st0)
      else
        (let inc = max 1 (length subsets); st = st0\<lparr>totalDescriptorsRead := totalDescriptorsRead st0 + inc\<rparr> in
         if maxExpandedDescriptors < totalDescriptorsRead st0 + inc then Inl (limit_total (totalDescriptorsRead st0 + inc))
         else
           (let n = length subsets in ebind (nth_at descriptors i) (\<lambda>desc.
            if is_local desc then
              ebind (c_local desc st) (\<lambda>st. loop_c E depth descriptors (i + 1) subsets st)
            else if dF desc = 2 then
              ebind (c_operator desc n st) (\<lambda>(cols, st). loop_c E depth descriptors (i + 1) (append_columns cols subsets) st)
            else if dF desc = 3 then
              (case lookup_d (env_tables E) (desc_code desc) of
                 None \<Rightarrow> Inl (ErrUnknownDescriptor desc)
               | Some seq \<Rightarrow>
                   ebind (decode_c E depth (map new_descriptor seq) subsets st)
                     (\<lambda>(subsets, st). loop_c E depth descriptors (i + 1) subsets st))
            else if dF desc = 1 then
              ebind (c_factor E descriptors i n st) (\<lambda>(repCount, cols, st).
                (let i = (if dY desc = 0 then i + 1 else i); repDescriptors = nat (dX desc) in
                 if maxReplicationCount < repCount then Inl (limit_replication repCount)
                 else if length descriptors < i + 1 + repDescriptors then
                   Inl (ErrTruncated ''descriptor stream ended before replication block'')
                 else
                   ebind (slice_at descriptors (i + 1) (i + 1 + repDescriptors)) (\<lambda>block.
                     ebind (repeat_c E depth block (nat repCount) (append_columns cols subsets) st)
                       (\<lambda>(subsets, st). loop_c E depth descriptors (i + 1 + repDescriptors) subsets st))))
            else if dF desc = 0 then
              ebind (c_element E desc n st) (\<lambda>(cols, st). loop_c E depth descriptors (i + 1) (append_columns cols subsets) st)
            else loop_c E depth descriptors i subsets st))))"
| "repeat_c E depth block k subsets st =
     (if k = 0 then Inr (subsets, st)
      else ebind (decode_c E depth block subsets st) (\<lambda>(subsets, st). repeat_c E depth block (k - 1) subsets st))"
  by pat_completeness auto
termination
  by (relation "measures
      [\<lambda>x. case x of Inl (E, depth, ds, S, st) \<Rightarrow> 65 - depth
                  | Inr (Inl (E, depth, ds, i, S, st)) \<Rightarrow> 65 - depth
                  | Inr (Inr (E, depth, block, k, S, st)) \<Rightarrow> 65 - depth,
       \<lambda>x. case x of Inl _ \<Rightarrow> 0 | Inr (Inl _) \<Rightarrow> 2 | Inr (Inr _) \<Rightarrow> 1,
       \<lambda>x. case x of Inl _ \<Rightarrow> 0
                  | Inr (Inl (E, depth, ds, i, S, st)) \<Rightarrow> length ds - i
                  | Inr (Inr (E, depth, block, k, S, st)) \<Rightarrow> k,
       \<lambda>x. case x of Inr (Inl (E, depth, ds, i, S, st)) \<Rightarrow> 100001 - totalDescriptorsRead st | _ \<Rightarrow> 0]")
    (auto simp: bufr_limits)

declare decode_c.simps [simp del] loop_c.simps [simp del] repeat_c.simps [simp del]

definition decode_compressed :: "bufr_env \<Rightarrow> descriptor list \<Rightarrow> nat \<Rightarrow> bit_reader \<Rightarrow> bufr_err + bvalue list list" where
  "decode_compressed E descriptors numSubsets r =
     ebind (decode_c E 0 descriptors (replicate numSubsets []) (init_state r)) (\<lambda>(subsets, _). Inr subsets)"

section \<open>Every case behaves\<close>

text \<open>A column with one value for each of \<open>n\<close> subsets, all of the same descriptor, name and unit.\<close>

definition label_of :: "bvalue \<Rightarrow> descriptor \<times> string \<times> string" where
  "label_of v = (v_desc v, v_name v, v_unit v)"

definition uniform :: "nat \<Rightarrow> column \<Rightarrow> bool" where
  "uniform n col \<longleftrightarrow> length col = n \<and> (\<exists>l. \<forall>v \<in> set col. label_of v = l)"

lemma uniform_replicate [simp]: "uniform n (replicate n v)"
  unfolding uniform_def by (intro conjI exI [of _ "label_of v"]) auto

lemma label_of_entry [simp]:
  "label_of (string_entry d nm u s) = (d, nm, u)" "label_of (float_entry d nm u f) = (d, nm, u)"
  "label_of (blank_entry d nm u) = (d, nm, u)"
  by (simp_all add: label_of_def string_entry_def float_entry_def blank_entry_def)

text \<open>
  The errors: those of the uncompressed decoder and, only where a delayed replication occurs, the errors
  of its unguarded reads.
\<close>

definition c_error_ok :: "bool \<Rightarrow> bufr_err \<Rightarrow> bool" where
  "c_error_ok delayed e \<longleftrightarrow>
     decode_error_ok e
     \<or> (delayed \<and> (e = ErrRead ErrUnexpectedEOF \<or> (\<exists>w. e = ErrRead (ErrInvalidBitCount w))))"

definition c_step_good :: "bool \<Rightarrow> nat \<Rightarrow> decoder_state \<Rightarrow> bufr_err + column list \<times> decoder_state \<Rightarrow> bool" where
  "c_step_good delayed n st out \<longleftrightarrow>
     (case out of
        Inl e \<Rightarrow> c_error_ok delayed e
      | Inr (cols, st') \<Rightarrow>
          advances st st' \<and> totalDescriptorsRead st' = totalDescriptorsRead st \<and> length cols \<le> 1
          \<and> (\<forall>col \<in> set cols. uniform n col \<and> (streamExhausted st \<longrightarrow> list_all value_absent col)))"

lemma c_step_good_Inl [simp]: "c_step_good delayed n st (Inl e) = c_error_ok delayed e"
  by (simp add: c_step_good_def)

lemma c_step_good_Inr [simp]: "c_step_good delayed n st (Inr (cols, st')) \<longleftrightarrow>
    advances st st' \<and> totalDescriptorsRead st' = totalDescriptorsRead st \<and> length cols \<le> 1
    \<and> (\<forall>col \<in> set cols. uniform n col \<and> (streamExhausted st \<longrightarrow> list_all value_absent col))"
  by (simp add: c_step_good_def)

lemma c_error_ok_decode [simp]: "decode_error_ok e \<Longrightarrow> c_error_ok delayed e"
  by (simp add: c_error_ok_def)

text \<open>A reader moved within its payload.\<close>

lemma advances_reader:
  assumes "state_ok st" "\<not> streamExhausted st" "0 \<le> k" "k \<le> bits_remaining (rdr st)"
  shows "advances st (st\<lparr>rdr := advance (rdr st) k\<rparr>)"
  using assms by (auto simp: advances_def state_ok_def reader_ok_advance)

lemma advances_exhaust: "state_ok st \<Longrightarrow> advances st (st\<lparr>streamExhausted := True\<rparr>)"
  by (auto simp: advances_def state_ok_def)

text \<open>The increment width, as the code reads it, is the number its six bits spell.\<close>

lemma read_small:
  assumes "reader_ok r" "0 \<le> k" "k < 64" "read_bits r k = Inr (v, r')"
  shows "unat v < 2 ^ nat k" "sint v = int (unat v)"
proof -
  have "int (rd_pos r) + k \<le> int (length (rd_data r)) * 8"
    using read_bits_Inr [OF assms(4,1)] assms(1) by (simp add: bits_remaining_eq)
  then have v: "unat v = bits_val (take (nat k) (drop (rd_pos r) (bits_of (rd_data r))))"
    using read_bits_ok [of k r] assms(2-4) by auto
  also have "\<dots> < 2 ^ length (take (nat k) (drop (rd_pos r) (bits_of (rd_data r))))"
    by (rule bits_val_less)
  also have "\<dots> \<le> 2 ^ nat k" by (intro power_increasing) simp_all
  finally show less: "unat v < 2 ^ nat k" .
  moreover have "(2 :: nat) ^ nat k \<le> 2 ^ 63" using assms(3) by (intro power_increasing) simp_all
  ultimately have "unat v < 2 ^ 63" by (rule less_le_trans)
  then have "int (unat v) < int (2 ^ 63)" by (simp only: of_nat_less_iff)
  then have "uint v < 2 ^ 63" by simp
  then have "signed_take_bit 63 (uint v) = uint v"
    using uint_ge_0 [of v] by (intro signed_take_bit_int_eq_self) linarith+
  then have "sint v = uint v" by (simp add: sint_uint)
  then show "sint v = int (unat v)" by simp
qed

lemma nbinc_read:
  assumes "reader_ok r" "6 \<le> bits_remaining r"
  obtains nb where "read_bits r 6 = Inr (nb, advance r 6)" "0 \<le> sint nb" "sint nb < 64"
proof -
  obtain nb where nb: "read_bits r 6 = Inr (nb, advance r 6)"
    using read_bits_within [of r 6] assms by auto
  have "unat nb < 2 ^ nat 6" "sint nb = int (unat nb)"
    using read_small [OF assms(1) _ _ nb] by simp_all
  moreover have "(2 :: nat) ^ nat 6 = 64" by simp
  ultimately have "0 \<le> sint nb" "sint nb < 64" by linarith+
  then show thesis by (rule that [OF nb])
qed

lemma c_inc_strings_good:
  assumes "\<And>s. label_of (mk s) = l"
  shows "state_ok st \<Longrightarrow> 0 \<le> nbinc \<Longrightarrow>
    \<exists>vs st'. c_inc_strings mk miss nbinc k st = Inr (vs, st') \<and> advances st st'
      \<and> totalDescriptorsRead st' = totalDescriptorsRead st \<and> length vs = k \<and> (\<forall>v \<in> set vs. label_of v = l)"
proof (induction k arbitrary: st)
  case 0
  then show ?case by (simp add: advances_refl)
next
  case (Suc k)
  have "8 * max 0 nbinc \<le> nbinc * 8" using Suc.prems(2) by simp
  then obtain v st1 where 1: "stream_read st (nbinc * 8) (\<lambda>r. read_string r nbinc) = Inr (v, st1)" "read_effect st v st1"
    using stream_charsE [OF Suc.prems(1)] by blast
  have a: "advances st st1" by (rule read_effect_advances [OF 1(2)])
  from Suc.IH [OF advances_ok [OF a] Suc.prems(2)] obtain vs st' where
    "c_inc_strings mk miss nbinc k st1 = Inr (vs, st')" "advances st1 st'"
    "totalDescriptorsRead st' = totalDescriptorsRead st1" "length vs = k" "\<forall>v \<in> set vs. label_of v = l"
    by blast
  then show ?case
    using 1 read_effect_other [OF 1(2) Suc.prems(1)] advances_trans [OF a] assms by auto
qed

lemma c_inc_numbers_good:
  assumes "\<And>s. label_of (mk s) = l"
  shows "state_ok st \<Longrightarrow> 0 \<le> nbinc \<Longrightarrow> nbinc \<le> 64 \<Longrightarrow>
    \<exists>vs st'. c_inc_numbers mk ref miss er es nbinc k st = Inr (vs, st') \<and> advances st st'
      \<and> totalDescriptorsRead st' = totalDescriptorsRead st \<and> length vs = k \<and> (\<forall>v \<in> set vs. label_of v = l)"
proof (induction k arbitrary: st)
  case 0
  then show ?case by (simp add: advances_refl)
next
  case (Suc k)
  obtain v st1 where 1: "stream_read st nbinc (\<lambda>r. read_bits r nbinc) = Inr (v, st1)" "read_effect st v st1"
    using stream_bitsE [OF Suc.prems order_refl] by blast
  have a: "advances st st1" by (rule read_effect_advances [OF 1(2)])
  from Suc.IH [OF advances_ok [OF a] Suc.prems(2,3)] obtain vs st' where
    "c_inc_numbers mk ref miss er es nbinc k st1 = Inr (vs, st')" "advances st1 st'"
    "totalDescriptorsRead st' = totalDescriptorsRead st1" "length vs = k" "\<forall>v \<in> set vs. label_of v = l"
    by blast
  then show ?case
    using 1 read_effect_other [OF 1(2) Suc.prems(1)] advances_trans [OF a] assms by auto
qed

lemma c_string_column_good:
  assumes st: "state_ok st" and w: "8 * max 0 cc \<le> w"
  shows "c_step_good delayed n st (c_string_column desc nm u cc w n st)"
proof (cases "streamExhausted st \<or> bits_remaining (rdr st) < w + 6")
  case True
  then show ?thesis
    using advances_exhaust [OF st] by (simp add: c_string_column_def list_all_length)
next
  case False
  let ?r = "advance (rdr st) (8 * max 0 cc)"
  have ok: "reader_ok (rdr st)" using st by (simp add: state_ok_def)
  have fits: "8 * max 0 cc + 6 \<le> bits_remaining (rdr st)" using False w by linarith
  have "8 * cc \<le> bits_remaining (rdr st)" using fits by linarith
  then obtain x where x: "read_string (rdr st) cc = Inr (x, ?r)"
    using read_string_within [OF ok, of cc] by blast
  have r: "reader_ok ?r" "6 \<le> bits_remaining ?r"
    using reader_ok_advance [OF ok, of "8 * max 0 cc"] bits_remaining_advance [OF ok, of "8 * max 0 cc"] fits by auto
  obtain nb where nb: "read_bits ?r 6 = Inr (nb, advance ?r 6)" "0 \<le> sint nb"
    using nbinc_read [OF r] by blast
  let ?st = "st\<lparr>rdr := advance (rdr st) (8 * max 0 cc + 6)\<rparr>"
  have adv: "advances st ?st" using advances_reader [OF st, of "8 * max 0 cc + 6"] False fits by simp
  have same: "advance ?r 6 = advance (rdr st) (8 * max 0 cc + 6)" by (simp add: advance_advance)
  obtain vs st' where vs: "c_inc_strings (string_entry desc nm u) (snd x) (sint nb) n ?st = Inr (vs, st')"
    "advances ?st st'" "totalDescriptorsRead st' = totalDescriptorsRead ?st" "length vs = n"
    "\<forall>v \<in> set vs. label_of v = (desc, nm, u)"
    using c_inc_strings_good [where mk = "string_entry desc nm u", OF label_of_entry(1) advances_ok [OF adv] nb(2)]
    by blast
  show ?thesis
    using False x nb(1) same vs adv advances_trans [OF adv vs(2)]
    by (cases x) (auto simp: c_string_column_def lift_read_def Let_def uniform_def)
qed

lemma c_number_column_good:
  assumes st: "state_ok st" and w: "0 \<le> w" "w \<le> 64"
  shows "c_step_good delayed n st (c_number_column E desc entry w n st)"
proof (cases "streamExhausted st \<or> bits_remaining (rdr st) < w + 6")
  case True
  then show ?thesis
    using advances_exhaust [OF st] by (simp add: c_number_column_def list_all_length)
next
  case False
  let ?r = "advance (rdr st) w"
  have ok: "reader_ok (rdr st)" using st by (simp add: state_ok_def)
  have fits: "w + 6 \<le> bits_remaining (rdr st)" using False by linarith
  obtain x where x: "read_bits (rdr st) w = Inr (x, ?r)"
    using read_bits_within [OF ok w] fits by auto
  have r: "reader_ok ?r" "6 \<le> bits_remaining ?r"
    using reader_ok_advance [OF ok, of w] bits_remaining_advance [OF ok, of w] fits w by auto
  obtain nb where nb: "read_bits ?r 6 = Inr (nb, advance ?r 6)" "0 \<le> sint nb" "sint nb < 64"
    using nbinc_read [OF r] by blast
  let ?st = "st\<lparr>rdr := advance (rdr st) (w + 6)\<rparr>"
  have adv: "advances st ?st" using advances_reader [OF st, of "w + 6"] False fits w by simp
  have same: "advance ?r 6 = advance (rdr st) (w + 6)" using w by (simp add: advance_advance)
  obtain vs st' where vs: "c_inc_numbers (float_entry desc (tb_name entry) (tb_unit entry)) x (is_all_ones x w)
      (eff_ref E ?st desc entry) (eff_scale ?st entry) (sint nb) n ?st = Inr (vs, st')"
    "advances ?st st'" "totalDescriptorsRead st' = totalDescriptorsRead ?st" "length vs = n"
    "\<forall>v \<in> set vs. label_of v = (desc, tb_name entry, tb_unit entry)"
    using c_inc_numbers_good [OF label_of_entry(2) advances_ok [OF adv] nb(2)] nb(3) by (meson less_imp_le)
  show ?thesis
    using False x nb(1) same vs adv advances_trans [OF adv vs(2)]
    by (auto simp: c_number_column_def lift_read_def Let_def uniform_def)
qed

lemma c_local_eq: "c_local = u_local"
  by (intro ext) (simp add: c_local_def u_local_def)

lemma c_new_ref_eq: "c_new_ref desc st = map_sum id (\<lambda>(vals, st). ([], st)) (u_new_ref desc st)"
  by (cases "stream_read st (newRefWidth st) (\<lambda>r. read_signed_bits r (newRefWidth st))")
    (auto simp: c_new_ref_def u_new_ref_def split: option.splits)

lemma c_new_ref_good:
  assumes "state_ok st" "0 < newRefWidth st"
  shows "c_step_good delayed n st (c_new_ref desc st)"
  using u_new_ref_good [OF assms, of desc] by (cases "u_new_ref desc st") (auto simp: c_new_ref_eq)

lemma c_operator_eq:
  assumes "dX desc \<noteq> 5" "dX desc \<noteq> 37"
  shows "c_operator desc n st = map_sum id (\<lambda>(vals, st). ([], st)) (u_operator desc st)"
  using assms by (simp add: c_operator_def u_operator_def Let_def)

lemma c_operator_good:
  assumes "state_ok st" "desc_ok desc" "dF desc = 2"
  shows "c_step_good delayed n st (c_operator desc n st)"
proof -
  have y: "0 \<le> dY desc" using assms by (simp add: desc_ok_def)
  consider "dX desc = 5" | "dX desc = 37" | "dX desc \<noteq> 5 \<and> dX desc \<noteq> 37" by blast
  then show ?thesis
  proof cases
    case 1
    then show ?thesis
      using c_string_column_good [OF assms(1), of "dY desc" "dY desc * 8"] y by (simp add: c_operator_def Let_def)
  next
    case 2
    then show ?thesis using advances_refl [OF assms(1)] by (simp add: c_operator_def Let_def)
  next
    case 3
    then show ?thesis
      using u_operator_good [OF assms] by (cases "u_operator desc st") (auto simp: c_operator_eq)
  qed
qed

text \<open>Tables whose widths are not negative, as the published ones are.\<close>

definition widths_ok :: "tables \<Rightarrow> bool" where
  "widths_ok t \<longleftrightarrow> (\<forall>c e. lookup_b t c = Some e \<longrightarrow> 0 \<le> tb_width e)"

lemma c_data_good:
  assumes "state_ok st" "0 \<le> tb_width entry"
  shows "c_step_good delayed n st (c_data E desc entry n st)"
proof (cases "tb_unit entry = ''CCITT IA5''")
  case True
  let ?w = "if 0 < stringWidthOverride st then stringWidthOverride st else tb_width entry"
  have "8 * max 0 (?w sdiv 8) \<le> ?w" using eight_sdiv [of ?w] assms(2) by auto
  then show ?thesis
    using c_string_column_good [OF assms(1), of "?w sdiv 8" ?w] True by (simp add: c_data_def Let_def)
next
  case False
  show ?thesis
  proof (cases "eff_width st entry \<le> 0 \<or> 64 < eff_width st entry")
    case True
    then show ?thesis using False by (simp add: c_data_def Let_def)
  next
    case w: False
    then have "c_step_good delayed n st (c_number_column E desc entry (eff_width st entry) n st)"
      by (intro c_number_column_good [OF assms(1)]) linarith+
    then show ?thesis using False w by (simp add: c_data_def Let_def)
  qed
qed

lemma c_element_good:
  assumes "state_ok st" "widths_ok (env_tables E)"
  shows "c_step_good delayed n st (c_element E desc n st)"
proof (cases "lookup_b (env_tables E) (desc_code desc)")
  case None
  then show ?thesis by (simp add: c_element_def)
next
  case (Some entry)
  then have "0 \<le> tb_width entry" using assms(2) by (simp add: widths_ok_def)
  then show ?thesis
    using Some c_new_ref_good [OF assms(1)] c_data_good [OF assms(1)] by (simp add: c_element_def)
qed

text \<open>Reads that are not guarded still stay within the payload, or fail.\<close>

lemma c_skip_increments_good:
  "reader_ok r \<Longrightarrow> 0 \<le> nbinc \<Longrightarrow> nbinc < 64 \<Longrightarrow>
   case c_skip_increments k nbinc r of
     Inl e \<Rightarrow> e = ErrUnexpectedEOF
   | Inr r' \<Rightarrow> reader_ok r' \<and> rd_data r' = rd_data r \<and> rd_pos r \<le> rd_pos r'"
proof (induction k arbitrary: r)
  case (Suc k)
  show ?case
  proof (cases "read_bits r nbinc")
    case (Inl e)
    then show ?thesis using read_bits_Inl [OF Inl Suc.prems(1)] Suc.prems by simp
  next
    case (Inr x)
    obtain v r1 where x: "x = (v, r1)" by fastforce
    then have "reader_ok r1 \<and> rd_data r1 = rd_data r \<and> rd_pos r \<le> rd_pos r1"
      using Inr read_step_bits [of nbinc] Suc.prems(1) unfolding read_step_def by blast
    then show ?thesis
      using Suc.IH [of r1] Suc.prems Inr x by (auto split: sum.splits)
  qed
qed simp

lemma c_factor_good:
  assumes st: "state_ok st" and in1: "i < length ds" and delayed: "dY (ds ! i) = 0 \<longrightarrow> delayed"
  shows "case c_factor E ds i n st of
           Inl e \<Rightarrow> c_error_ok delayed e
         | Inr (k, cols, st') \<Rightarrow> c_step_good delayed n st (Inr (cols, st'))"
proof -
  let ?d = "ds ! (i + 1)"
  consider (bad) "dX (ds ! i) \<le> 0 \<or> dY (ds ! i) \<noteq> 0 \<or> length ds \<le> i + 1 \<or> lookup_b (env_tables E) (desc_code ?d) = None"
    | (read) entry where "\<not> dX (ds ! i) \<le> 0" "dY (ds ! i) = 0" "\<not> length ds \<le> i + 1"
      "lookup_b (env_tables E) (desc_code ?d) = Some entry"
    by fastforce
  then show ?thesis
  proof cases
    case bad
    then show ?thesis using st in1 by (auto simp: c_factor_def Let_def advances_refl split: option.splits)
  next
    case read
    have D: "delayed" using delayed read(2) by simp
    have ok: "reader_ok (rdr st)" using st by (simp add: state_ok_def)
    let ?w = "tb_width entry + dataWidthChange st"
    show ?thesis
    proof (cases "streamExhausted st \<or> bits_remaining (rdr st) < ?w + 6")
      case True
      then show ?thesis
        using read in1 advances_exhaust [OF st] by (simp add: c_factor_def Let_def list_all_length)
    next
      case live: False
      show ?thesis
      proof (cases "read_bits (rdr st) ?w")
        case (Inl e)
        then show ?thesis
          using read in1 live D read_bits_Inl [OF Inl ok]
          by (auto simp: c_factor_def Let_def lift_read_def c_error_ok_def)
      next
        case (Inr x)
        obtain v r1 where x: "x = (v, r1)" by fastforce
        then have r1: "0 \<le> ?w" "r1 = advance (rdr st) ?w" using Inr read_bits_Inr [OF _ ok] by auto
        then have ok1: "reader_ok r1" "6 \<le> bits_remaining r1"
          using live reader_ok_advance [OF ok, of ?w] bits_remaining_advance [OF ok, of ?w] by auto
        obtain nb where nb: "read_bits r1 6 = Inr (nb, advance r1 6)" "0 \<le> sint nb" "sint nb < 64"
          using nbinc_read [OF ok1] by blast
        have ok2: "reader_ok (advance r1 6)" by (rule reader_ok_advance [OF ok1])
        let ?skip = "if 0 < sint nb then c_skip_increments n (sint nb) (advance r1 6) else Inr (advance r1 6)"
        have skip: "case ?skip of Inl e \<Rightarrow> e = ErrUnexpectedEOF
            | Inr r' \<Rightarrow> reader_ok r' \<and> rd_data r' = rd_data (rdr st) \<and> rd_pos (rdr st) \<le> rd_pos r'"
          using c_skip_increments_good [OF ok2 nb(2,3), of n] r1 ok2 by (auto split: sum.splits)
        show ?thesis
        proof (cases ?skip)
          case (Inl e)
          then have "c_error_ok delayed (ErrRead e)" using skip D by (simp add: c_error_ok_def)
          then show ?thesis
            using read in1 live \<open>read_bits (rdr st) ?w = Inr x\<close> x nb(1) Inl
            by (simp add: c_factor_def Let_def lift_read_def)
        next
          case (Inr r')
          have "advances st (st\<lparr>rdr := r'\<rparr>)"
            using skip Inr st live by (auto simp: advances_def state_ok_def)
          then show ?thesis
            using read in1 live \<open>read_bits (rdr st) ?w = Inr x\<close> x nb(1) Inr
            by (simp add: c_factor_def Let_def lift_read_def)
        qed
      qed
    qed
  qed
qed

section \<open>Whole runs behave\<close>

definition columns_ok :: "nat \<Rightarrow> bool \<Rightarrow> column list \<Rightarrow> bool" where
  "columns_ok n absent cols \<longleftrightarrow> (\<forall>col \<in> set cols. uniform n col \<and> (absent \<longrightarrow> list_all value_absent col))"

definition c_run_good :: "bool \<Rightarrow> bvalue list list \<Rightarrow> decoder_state \<Rightarrow> bufr_err + bvalue list list \<times> decoder_state \<Rightarrow> bool" where
  "c_run_good delayed S st out \<longleftrightarrow>
     (case out of
        Inl e \<Rightarrow> c_error_ok delayed e
      | Inr (S', st') \<Rightarrow>
          (\<exists>cols. S' = append_columns cols S \<and> columns_ok (length S) (streamExhausted st) cols \<and> advances st st'
             \<and> length cols * max 1 (length S) + totalDescriptorsRead st \<le> totalDescriptorsRead st'
             \<and> (totalDescriptorsRead st \<le> maxExpandedDescriptors \<longrightarrow> totalDescriptorsRead st' \<le> maxExpandedDescriptors)))"

lemma c_run_good_Inl [simp]: "c_run_good delayed S st (Inl e) = c_error_ok delayed e"
  by (simp add: c_run_good_def)

lemma columns_ok_simps [simp]:
  "columns_ok n a []"
  "columns_ok n a (xs @ ys) \<longleftrightarrow> columns_ok n a xs \<and> columns_ok n a ys"
  by (auto simp: columns_ok_def)

lemma append_columns_simps [simp]:
  "append_columns [] S = S"
  "append_columns (xs @ ys) S = append_columns ys (append_columns xs S)"
  "append_columns (col # cols) S = append_columns cols (append_column col S)"
  by (simp_all add: append_columns_def)

lemma length_append_columns: "columns_ok (length S) a cols \<Longrightarrow> length (append_columns cols S) = length S"
proof (induction cols arbitrary: S)
  case (Cons col cols)
  then have "length (append_column col S) = length S" by (simp add: append_column_def columns_ok_def uniform_def)
  with Cons.IH [of "append_column col S"] Cons.prems show ?case by (simp add: columns_ok_def)
qed simp

lemma c_run_good_done [simp]: "state_ok st \<Longrightarrow> c_run_good delayed S st (Inr (S, st))"
  by (auto simp: c_run_good_def advances_refl intro!: exI [of _ "[]"])

lemma c_run_goodD:
  assumes "c_run_good delayed S st (Inr (S', st'))"
  obtains cols where "S' = append_columns cols S" "columns_ok (length S) (streamExhausted st) cols" "advances st st'"
    "length cols * max 1 (length S) + totalDescriptorsRead st \<le> totalDescriptorsRead st'"
    "totalDescriptorsRead st \<le> maxExpandedDescriptors \<longrightarrow> totalDescriptorsRead st' \<le> maxExpandedDescriptors"
    "length S' = length S"
  using assms length_append_columns unfolding c_run_good_def by (auto simp only: sum.case prod.case)

lemma c_run_good_then:
  assumes "advances st st1" "length cols * max 1 (length S) + totalDescriptorsRead st \<le> totalDescriptorsRead st1"
    "totalDescriptorsRead st1 \<le> maxExpandedDescriptors" "columns_ok (length S) (streamExhausted st) cols"
    "c_run_good delayed (append_columns cols S) st1 out"
  shows "c_run_good delayed S st out"
proof (cases out)
  case (Inr x)
  obtain S' st' where x: "x = (S', st')" by fastforce
  have len: "length (append_columns cols S) = length S" by (rule length_append_columns [OF assms(4)])
  obtain cs where c: "S' = append_columns cs (append_columns cols S)" "columns_ok (length S) (streamExhausted st1) cs"
    "advances st1 st'" "length cs * max 1 (length S) + totalDescriptorsRead st1 \<le> totalDescriptorsRead st'"
    "totalDescriptorsRead st' \<le> maxExpandedDescriptors"
    using assms(3,5) Inr x len by (auto elim!: c_run_goodD)
  have "streamExhausted st \<longrightarrow> streamExhausted st1" using assms(1) by (simp add: advances_def)
  then have "columns_ok (length S) (streamExhausted st) (cols @ cs)"
    using assms(4) c(2) by (auto simp: columns_ok_def)
  then show ?thesis
    using Inr x c assms(2,3) advances_trans [OF assms(1) c(3)]
    by (auto simp: c_run_good_def add_mult_distrib intro!: exI [of _ "cols @ cs"])
qed (use assms(5) in simp)

lemma c_run_good_bind:
  assumes "c_run_good delayed S st out" "totalDescriptorsRead st \<le> maxExpandedDescriptors"
    and "\<And>S' st'. out = Inr (S', st') \<Longrightarrow> state_ok st' \<Longrightarrow> c_run_good delayed S' st' (k S' st')"
  shows "c_run_good delayed S st (ebind out (\<lambda>(a, b). k a b))"
proof (cases out)
  case (Inl e)
  then show ?thesis using assms(1) by simp
next
  case (Inr x)
  obtain S' st' where x: "x = (S', st')" by fastforce
  then obtain cols where c: "S' = append_columns cols S" "columns_ok (length S) (streamExhausted st) cols" "advances st st'"
    "length cols * max 1 (length S) + totalDescriptorsRead st \<le> totalDescriptorsRead st'"
    "totalDescriptorsRead st' \<le> maxExpandedDescriptors"
    using assms(1,2) Inr by (auto elim!: c_run_goodD)
  have "c_run_good delayed S' st' (k S' st')"
    using assms(3) Inr x advances_ok [OF c(3)] by simp
  then have "c_run_good delayed S st (k S' st')"
    using c_run_good_then [OF c(3,4,5,2)] c(1) by simp
  then show ?thesis using Inr x by simp
qed

text \<open>The state with one more descriptor counted, once per subset, and the loop's characteristic equations.\<close>

definition counted_c :: "nat \<Rightarrow> decoder_state \<Rightarrow> decoder_state" where
  "counted_c n st = st\<lparr>totalDescriptorsRead := totalDescriptorsRead st + max 1 n\<rparr>"

lemma counted_c_ok: "state_ok st \<Longrightarrow> state_ok (counted_c n st) \<and> advances st (counted_c n st)"
  by (auto simp: counted_c_def advances_def state_ok_def)

lemma counted_c_simps [simp]:
  "totalDescriptorsRead (counted_c n st) = totalDescriptorsRead st + max 1 n"
  "streamExhausted (counted_c n st) = streamExhausted st"
  "rdr (counted_c n st) = rdr st"
  by (simp_all add: counted_c_def)

definition c_within :: "bvalue list list \<Rightarrow> decoder_state \<Rightarrow> bool" where
  "c_within S st \<longleftrightarrow> totalDescriptorsRead st + max 1 (length S) \<le> maxExpandedDescriptors"

lemma loop_c_end: "length ds \<le> i \<Longrightarrow> loop_c E depth ds i S st = Inr (S, st)"
  by (subst loop_c.simps) simp

lemma loop_c_limit:
  "i < length ds \<Longrightarrow> \<not> c_within S st \<Longrightarrow>
   loop_c E depth ds i S st = Inl (limit_total (totalDescriptorsRead st + max 1 (length S)))"
  by (subst loop_c.simps) (simp add: c_within_def Let_def)

lemma loop_c_local:
  assumes "i < length ds" "c_within S st" "is_local (ds ! i)"
  shows "loop_c E depth ds i S st
    = ebind (c_local (ds ! i) (counted_c (length S) st)) (\<lambda>st'. loop_c E depth ds (i + 1) S st')"
  using assms by (subst loop_c.simps) (simp add: counted_c_def c_within_def Let_def)

lemma loop_c_operator:
  assumes "i < length ds" "c_within S st" "\<not> is_local (ds ! i)" "dF (ds ! i) = 2"
  shows "loop_c E depth ds i S st = ebind (c_operator (ds ! i) (length S) (counted_c (length S) st))
           (\<lambda>(cols, st'). loop_c E depth ds (i + 1) (append_columns cols S) st')"
  using assms by (subst loop_c.simps) (simp add: counted_c_def c_within_def Let_def)

lemma loop_c_sequence:
  assumes "i < length ds" "c_within S st" "\<not> is_local (ds ! i)" "dF (ds ! i) = 3"
    "lookup_d (env_tables E) (desc_code (ds ! i)) = Some seq"
  shows "loop_c E depth ds i S st = ebind (decode_c E depth (map new_descriptor seq) S (counted_c (length S) st))
           (\<lambda>(S', st'). loop_c E depth ds (i + 1) S' st')"
  using assms by (subst loop_c.simps) (simp add: counted_c_def c_within_def Let_def)

lemma loop_c_unknown_sequence:
  assumes "i < length ds" "c_within S st" "\<not> is_local (ds ! i)" "dF (ds ! i) = 3"
    "lookup_d (env_tables E) (desc_code (ds ! i)) = None"
  shows "loop_c E depth ds i S st = Inl (ErrUnknownDescriptor (ds ! i))"
  using assms by (subst loop_c.simps) (simp add: c_within_def Let_def)

lemma loop_c_replication:
  assumes "i < length ds" "c_within S st" "\<not> is_local (ds ! i)" "dF (ds ! i) = 1"
  shows "loop_c E depth ds i S st = ebind (c_factor E ds i (length S) (counted_c (length S) st)) (\<lambda>(k, cols, st').
      (let i' = (if dY (ds ! i) = 0 then i + 1 else i); m = nat (dX (ds ! i)) in
       if maxReplicationCount < k then Inl (limit_replication k)
       else if length ds < i' + 1 + m then Inl (ErrTruncated ''descriptor stream ended before replication block'')
       else ebind (repeat_c E depth (take m (drop (i' + 1) ds)) (nat k) (append_columns cols S) st')
              (\<lambda>(S', st''). loop_c E depth ds (i' + 1 + m) S' st'')))"
  using assms by (subst loop_c.simps) (simp add: counted_c_def c_within_def slice_at_def Let_def cong: if_cong)

lemma loop_c_element:
  assumes "i < length ds" "c_within S st" "\<not> is_local (ds ! i)" "dF (ds ! i) = 0"
  shows "loop_c E depth ds i S st = ebind (c_element E (ds ! i) (length S) (counted_c (length S) st))
           (\<lambda>(cols, st'). loop_c E depth ds (i + 1) (append_columns cols S) st')"
  using assms by (subst loop_c.simps) (simp add: counted_c_def c_within_def Let_def)

lemma loop_c_spin:
  assumes "i < length ds" "c_within S st" "\<not> is_local (ds ! i)" "dF (ds ! i) \<notin> {0, 1, 2, 3}"
  shows "loop_c E depth ds i S st = loop_c E depth ds i S (counted_c (length S) st)"
  using assms by (subst loop_c.simps) (simp add: counted_c_def c_within_def Let_def)

text \<open>One iteration whose case is over, and one that starts a nested run.\<close>

lemma c_run_good_counted:
  assumes st: "state_ok st" and lim: "c_within S st"
    and run: "c_run_good delayed S (counted_c (length S) st) out"
  shows "c_run_good delayed S st out"
  using c_run_good_then [of st "counted_c (length S) st" "[]" S delayed out] counted_c_ok [OF st] assms
  by (simp add: c_within_def)

lemma c_run_good_after:
  assumes st: "state_ok st" and lim: "c_within S st"
    and step: "c_step_good delayed (length S) (counted_c (length S) st) (Inr (cols, st'))"
    and next_run: "state_ok st' \<Longrightarrow> totalDescriptorsRead st' \<le> maxExpandedDescriptors \<Longrightarrow>
      c_run_good delayed (append_columns cols S) st' out"
  shows "c_run_good delayed S st out"
proof -
  have adv: "advances st st'"
    using step counted_c_ok [OF st, of "length S"] advances_trans [of st "counted_c (length S) st" st'] by simp
  have k: "totalDescriptorsRead st' = totalDescriptorsRead st + max 1 (length S)" "length cols \<le> 1"
    "columns_ok (length S) (streamExhausted st) cols"
    using step by (auto simp: columns_ok_def)
  have "length cols * max 1 (length S) \<le> 1 * max 1 (length S)" using k(2) by (rule mult_le_mono1)
  then have "length cols * max 1 (length S) + totalDescriptorsRead st \<le> totalDescriptorsRead st'"
    using k(1) by linarith
  moreover have "totalDescriptorsRead st' \<le> maxExpandedDescriptors" using k(1) lim by (simp add: c_within_def)
  ultimately show ?thesis
    by (rule c_run_good_then [OF adv _ _ k(3)]) (rule next_run [OF advances_ok [OF adv]], fact)
qed

lemma c_run_good_step:
  assumes "state_ok st" "c_within S st" "c_step_good delayed (length S) (counted_c (length S) st) out"
    and "\<And>cols st'. out = Inr (cols, st') \<Longrightarrow> state_ok st' \<Longrightarrow> c_run_good delayed (append_columns cols S) st' (k cols st')"
  shows "c_run_good delayed S st (ebind out (\<lambda>(cols, st'). k cols st'))"
proof (cases out)
  case (Inr x)
  obtain cols st' where x: "x = (cols, st')" by fastforce
  show ?thesis
    using c_run_good_after [OF assms(1,2), of delayed cols st' "k cols st'"] assms(3,4) Inr x by simp
qed (use assms(3) in simp)

text \<open>Descriptors and tables without a delayed replication.\<close>

definition delay_free :: "descriptor list \<Rightarrow> bool" where
  "delay_free ds \<longleftrightarrow> list_all (\<lambda>d. \<not> (dF d = 1 \<and> dY d = 0)) ds"

definition tables_delay_free :: "tables \<Rightarrow> bool" where
  "tables_delay_free t \<longleftrightarrow> (\<forall>c seq. lookup_d t c = Some seq \<longrightarrow> delay_free (map new_descriptor seq))"

lemma delay_free_block: "delay_free ds \<Longrightarrow> delay_free (take n (drop m ds))"
  by (simp add: delay_free_def list_all_take_drop)

lemma delay_free_nth: "delay_free ds \<Longrightarrow> i < length ds \<Longrightarrow> dF (ds ! i) = 1 \<Longrightarrow> dY (ds ! i) \<noteq> 0"
  by (auto simp: delay_free_def list_all_length)

theorem decode_c_good:
  assumes T: "tables_ok (env_tables E)" "widths_ok (env_tables E)" "delayed \<or> tables_delay_free (env_tables E)"
  shows "list_all desc_ok ds \<Longrightarrow> delayed \<or> delay_free ds \<Longrightarrow> state_ok st \<Longrightarrow>
           c_run_good delayed S st (decode_c E depth ds S st)"
    and "list_all desc_ok ds \<Longrightarrow> delayed \<or> delay_free ds \<Longrightarrow> state_ok st \<Longrightarrow>
           c_run_good delayed S st (loop_c E depth ds i S st)"
    and "list_all desc_ok ds \<Longrightarrow> delayed \<or> delay_free ds \<Longrightarrow> state_ok st \<Longrightarrow> totalDescriptorsRead st \<le> maxExpandedDescriptors \<Longrightarrow>
           c_run_good delayed S st (repeat_c E depth ds n S st)"
  using T
proof (induction E depth ds S st and E depth ds i S st and E depth ds n S st
    rule: decode_c_loop_c_repeat_c.induct)
  case (1 E depth ds S st)
  then show ?case
    by (subst decode_c.simps) (auto simp: limit_depth_def)
next
  case (3 E depth block n S st)
  show ?case
  proof (cases "n = 0")
    case True
    then show ?thesis using 3 by (subst repeat_c.simps) simp
  next
    case False
    have run: "c_run_good delayed S st (decode_c E depth block S st)" using 3 False by simp
    have "c_run_good delayed S st (ebind (decode_c E depth block S st) (\<lambda>(S, st). repeat_c E depth block (n - 1) S st))"
    proof (rule c_run_good_bind [OF run "3.prems"(4)])
      fix S' st'
      assume r: "decode_c E depth block S st = Inr (S', st')" "state_ok st'"
      then have "totalDescriptorsRead st' \<le> maxExpandedDescriptors"
        using run "3.prems"(4) by (auto elim: c_run_goodD)
      then show "c_run_good delayed S' st' (repeat_c E depth block (n - 1) S' st')"
        using "3.IH"(2) [OF False r(1) refl] "3.prems" r(2) by simp
    qed
    then show ?thesis using False by (subst repeat_c.simps) simp
  qed
next
  case (2 E depth ds i S st)
  show ?case
  proof (cases "length ds \<le> i \<or> \<not> c_within S st")
    case True
    then consider "length ds \<le> i" | "i < length ds" "\<not> c_within S st" by fastforce
    then show ?thesis
      by cases (use "2.prems"(3) in \<open>simp_all add: loop_c_end loop_c_limit limit_total_def\<close>)
  next
    case False
    then have in1: "i < length ds" and nle: "\<not> length ds \<le> i" and lim: "c_within S st"
      and lim': "\<not> maxExpandedDescriptors < totalDescriptorsRead st + max 1 (length S)"
      by (auto simp: c_within_def)
    let ?st = "counted_c (length S) st"
    have st: "state_ok st" "state_ok ?st" using "2.prems"(3) counted_c_ok by auto
    have d_ok: "desc_ok (ds ! i)" using "2.prems"(1) in1 by (simp add: list_all_length)
    note IH = "2.IH" [OF nle refl refl lim' refl nth_at_in [OF in1], folded counted_c_def]
    note T = "2.prems"(1,2,4,5,6)
    consider (local) "is_local (ds ! i)" | (op) "\<not> is_local (ds ! i)" "dF (ds ! i) = 2"
      | (seq) "\<not> is_local (ds ! i)" "dF (ds ! i) = 3" | (rep) "\<not> is_local (ds ! i)" "dF (ds ! i) = 1"
      | (elem) "\<not> is_local (ds ! i)" "dF (ds ! i) = 0" | (spin) "\<not> is_local (ds ! i)" "dF (ds ! i) \<notin> {0, 1, 2, 3}"
      by blast
    then show ?thesis
    proof cases
      case local
      show ?thesis
      proof (cases "c_local (ds ! i) ?st")
        case (Inl e)
        then show ?thesis
          using loop_c_local [OF in1 lim local] u_local_good [OF st(2), of "ds ! i"] by (simp add: c_local_eq)
      next
        case (Inr st')
        then have "c_step_good delayed (length S) ?st (Inr ([], st'))"
          using u_local_good [OF st(2), of "ds ! i"] by (simp add: c_local_eq)
        then have "c_run_good delayed S st (loop_c E depth ds (i + 1) S st')"
          by (rule c_run_good_after [OF st(1) lim]) (use IH(1) [OF local Inr] T in simp)
        then show ?thesis using Inr loop_c_local [OF in1 lim local] by simp
      qed
    next
      case op
      show ?thesis
        unfolding loop_c_operator [OF in1 lim op]
        by (rule c_run_good_step [OF st(1) lim c_operator_good [OF st(2) d_ok op(2)]])
          (use IH(2) [OF op] T in auto)
    next
      case elem
      show ?thesis
        unfolding loop_c_element [OF in1 lim elem]
        by (rule c_run_good_step [OF st(1) lim c_element_good [OF st(2) T(4)]])
          (use IH(7) [OF elem(1)] elem(2) T in auto)
    next
      case spin
      have "c_run_good delayed S ?st (loop_c E depth ds i S ?st)"
        using IH(8) [OF spin(1)] spin(2) st(2) T by simp
      then have "c_run_good delayed S st (loop_c E depth ds i S ?st)"
        by (rule c_run_good_counted [OF st(1) lim])
      then show ?thesis by (simp only: loop_c_spin [OF in1 lim spin])
    next
      case seq
      show ?thesis
      proof (cases "lookup_d (env_tables E) (desc_code (ds ! i))")
        case None
        then show ?thesis by (simp add: loop_c_unknown_sequence [OF in1 lim seq])
      next
        case (Some s)
        have "delayed \<or> delay_free (map new_descriptor s)" using T(5) Some by (auto simp: tables_delay_free_def)
        then have nested: "c_run_good delayed S ?st (decode_c E depth (map new_descriptor s) S ?st)"
          using IH(3) [OF seq(1)] seq(2) Some nested_desc_ok [OF T(3) Some] st(2) T by simp
        show ?thesis
          unfolding loop_c_sequence [OF in1 lim seq Some]
          by (rule c_run_good_counted [OF st(1) lim], rule c_run_good_bind [OF nested])
            (use IH(4) [OF seq(1)] seq(2) Some T lim in \<open>auto simp: c_within_def\<close>)
      qed
    next
      case rep
      have delayed: "dY (ds ! i) = 0 \<longrightarrow> delayed" using T(2) delay_free_nth [OF _ in1 rep(2)] by blast
      show ?thesis
      proof (cases "c_factor E ds i (length S) ?st")
        case (Inl e)
        then show ?thesis
          using c_factor_good [OF st(2) in1 delayed, where E = E and n = "length S"] by (simp add: loop_c_replication [OF in1 lim rep])
      next
        case (Inr x)
        obtain k cols st' where x: "x = (k, cols, st')" by (metis prod.exhaust)
        define i' where "i' = (if dY (ds ! i) = 0 then i + 1 else i)"
        define m where "m = nat (dX (ds ! i))"
        have f: "c_step_good delayed (length S) ?st (Inr (cols, st'))"
          using c_factor_good [OF st(2) in1 delayed, where E = E and n = "length S"] Inr x by simp
        show ?thesis
        proof (cases "maxReplicationCount < k \<or> length ds < i' + 1 + m")
          case True
          then show ?thesis
            using Inr x by (auto simp: loop_c_replication [OF in1 lim rep] Let_def limit_replication_def
              i'_def [symmetric] m_def [symmetric])
        next
          case fits: False
          let ?block = "take m (drop (i' + 1) ds)"
          have sl: "slice_at ds (i' + 1) (i' + 1 + m) = Inr ?block"
            using fits by (intro slice_at_in) simp
          have "c_run_good delayed S st (ebind (repeat_c E depth ?block (nat k) (append_columns cols S) st')
                 (\<lambda>(S', st''). loop_c E depth ds (i' + 1 + m) S' st''))"
          proof (rule c_run_good_after [OF st(1) lim f])
            assume ok': "state_ok st'" "totalDescriptorsRead st' \<le> maxExpandedDescriptors"
            have "delayed \<or> delay_free ?block" using T(2) delay_free_block by blast
            then have "c_run_good delayed (append_columns cols S) st' (repeat_c E depth ?block (nat k) (append_columns cols S) st')"
              using IH(5) [OF rep(1)] rep(2) Inr x fits sl T ok'
              by (simp add: list_all_take_drop i'_def m_def slice_at_def)
            then show "c_run_good delayed (append_columns cols S) st' (ebind (repeat_c E depth ?block (nat k) (append_columns cols S) st')
                 (\<lambda>(S', st''). loop_c E depth ds (i' + 1 + m) S' st''))"
            proof (rule c_run_good_bind [OF _ ok'(2)])
              fix S' st''
              assume "repeat_c E depth ?block (nat k) (append_columns cols S) st' = Inr (S', st'')" "state_ok st''"
              then show "c_run_good delayed S' st'' (loop_c E depth ds (i' + 1 + m) S' st'')"
                using IH(6) [OF rep(1)] rep(2) Inr x fits T by (simp add: i'_def m_def slice_at_def)
            qed
          qed
          then show ?thesis
            using Inr x fits by (simp add: loop_c_replication [OF in1 lim rep] Let_def
              i'_def [symmetric] m_def [symmetric])
        qed
      qed
    qed
  qed
qed

section \<open>Columns and slices of the payload\<close>

text \<open>The number that \<open>w\<close> bits spell, \<open>off\<close> bits after the cursor.\<close>

definition slice_val :: "bit_reader \<Rightarrow> int \<Rightarrow> int \<Rightarrow> nat" where
  "slice_val r off w = bits_val (take (nat w) (drop (rd_pos r + nat off) (bits_of (rd_data r))))"

lemma slice_val_advance: "0 \<le> a \<Longrightarrow> 0 \<le> b \<Longrightarrow> slice_val (advance r a) b w = slice_val r (a + b) w"
  by (simp add: slice_val_def nat_add_distrib add.assoc)

lemma read_bits_slice:
  assumes "reader_ok r" "0 \<le> w" "w \<le> 64" "w \<le> bits_remaining r"
  shows "read_bits r w = Inr (of_nat (slice_val r 0 w), advance r w)"
proof -
  have "int (rd_pos r) + w \<le> int (length (rd_data r)) * 8"
    using assms by (simp add: bits_remaining_eq)
  then obtain v where v: "read_bits r w = Inr (v, advance r w)" "unat v = slice_val r 0 w"
    using read_bits_ok [of w r] assms unfolding advance_def slice_val_def by auto
  have "of_nat (unat v) = (of_nat (slice_val r 0 w) :: u64)" by (simp only: v(2))
  then have "v = of_nat (slice_val r 0 w)" by simp
  with v(1) show ?thesis by simp
qed

lemma slice_val_less: "slice_val r off w < 2 ^ nat w"
proof -
  have "slice_val r off w < 2 ^ length (take (nat w) (drop (rd_pos r + nat off) (bits_of (rd_data r))))"
    unfolding slice_val_def by (rule bits_val_less)
  also have "\<dots> \<le> 2 ^ nat w" by (intro power_increasing) simp_all
  finally show ?thesis .
qed

definition inc_value :: "u64 \<Rightarrow> bool \<Rightarrow> int \<Rightarrow> int \<Rightarrow> int \<Rightarrow> u64 \<Rightarrow> f64 option" where
  "inc_value refBits isRefMiss effRef effScale nbinc inc =
     (if isRefMiss \<or> is_all_ones inc nbinc then None else Some (decode_number (refBits + inc) effRef effScale))"

lemma c_inc_numbers_slices:
  "state_ok st \<Longrightarrow> \<not> streamExhausted st \<Longrightarrow> 0 \<le> nbinc \<Longrightarrow> nbinc \<le> 64 \<Longrightarrow> int k * nbinc \<le> bits_remaining (rdr st) \<Longrightarrow>
   c_inc_numbers mk ref miss er es nbinc k st
     = Inr (map (\<lambda>s. mk (inc_value ref miss er es nbinc (of_nat (slice_val (rdr st) (int s * nbinc) nbinc)))) [0..<k],
            st\<lparr>rdr := advance (rdr st) (int k * nbinc)\<rparr>)"
proof (induction k arbitrary: st)
  case 0
  then show ?case by simp
next
  case (Suc k)
  let ?st = "st\<lparr>rdr := advance (rdr st) nbinc\<rparr>"
  have ok: "reader_ok (rdr st)" using Suc.prems(1) by (simp add: state_ok_def)
  have fits: "nbinc + int k * nbinc \<le> bits_remaining (rdr st)" using Suc.prems(5) by (simp add: algebra_simps)
  have one: "nbinc \<le> bits_remaining (rdr st)"
    using fits Suc.prems(3) mult_nonneg_nonneg [of "int k" nbinc] by linarith
  have read: "stream_read st nbinc (\<lambda>r. read_bits r nbinc) = Inr (Some (of_nat (slice_val (rdr st) 0 nbinc)), ?st)"
    using read_bits_slice [OF ok Suc.prems(3,4) one] one Suc.prems(2)
    by (cases st) (simp add: stream_read_def guarded_def lift_read_def)
  have ok': "state_ok ?st" by (rule advances_ok [OF advances_reader [OF Suc.prems(1,2,3) one]])
  have rem: "int k * nbinc \<le> bits_remaining (rdr ?st)"
    using bits_remaining_advance [OF ok Suc.prems(3) one] fits by simp
  have shift: "slice_val (advance (rdr st) nbinc) (int s * nbinc) nbinc = slice_val (rdr st) ((1 + int s) * nbinc) nbinc" for s
    using Suc.prems(3) by (simp add: slice_val_advance algebra_simps)
  have "[0..<Suc k] = 0 # map Suc [0..<k]" by (simp add: upt_conv_Cons map_Suc_upt)
  moreover have "advance (rdr ?st) (int k * nbinc) = advance (rdr st) (int (Suc k) * nbinc)"
    using Suc.prems(3) by (simp add: advance_advance algebra_simps)
  ultimately show ?case
    using Suc.IH [OF ok' _ Suc.prems(3,4) rem] Suc.prems(2) read
    by (simp add: shift comp_def inc_value_def)
qed

section \<open>Properties\<close>

text \<open>A numeric element of compressed data is one column: with w its effective width, the next w bits are the
  common reference, the following six bits the increment width b, and then come b bits for each subset;
  subset s gets the reference plus its increment (scaled), missing when the reference or that increment
  is all ones; with b = 0 every subset gets the reference.  The cursor ends right after the increments.\<close>

theorem compressed_number_column:
  assumes st: "state_ok st" "\<not> streamExhausted st" and unit: "tb_unit entry \<noteq> ''CCITT IA5''"
    and w: "w = eff_width st entry" "0 < w" "w \<le> 64"
    and b: "b = int (slice_val (rdr st) w 6)" and fits: "w + 6 + int n * b \<le> bits_remaining (rdr st)"
    and ref: "ref = of_nat (slice_val (rdr st) 0 w)"
    and inc: "\<And>s. inc s = of_nat (slice_val (rdr st) (w + 6 + int s * b) b)"
  shows "c_data E desc entry n st =
    Inr ([map (\<lambda>s. float_entry desc (tb_name entry) (tb_unit entry)
                 (if is_all_ones ref w \<or> (b \<noteq> 0 \<and> is_all_ones (inc s) b) then None
                  else Some (decode_number (if b = 0 then ref else ref + inc s) (eff_ref E st desc entry) (eff_scale st entry))))
            [0..<n]],
         st\<lparr>rdr := advance (rdr st) (w + 6 + int n * b)\<rparr>)"
proof -
  let ?r = "advance (rdr st) w" and ?r2 = "advance (rdr st) (w + 6)"
  have ok: "reader_ok (rdr st)" using st by (simp add: state_ok_def)
  have b0: "0 \<le> b" "b < 64" using slice_val_less [of "rdr st" w 6] b by simp_all
  have nb: "0 \<le> int n * b" using b0 by simp
  have r1: "read_bits (rdr st) w = Inr (ref, ?r)"
    using read_bits_slice [OF ok _ w(3)] w(2) fits nb ref by simp
  have ok1: "reader_ok ?r" "bits_remaining ?r = bits_remaining (rdr st) - w"
    using reader_ok_advance [OF ok, of w] bits_remaining_advance [OF ok, of w] w fits nb by auto
  have "6 \<le> bits_remaining ?r" using ok1(2) fits nb by linarith
  then have r2: "read_bits ?r 6 = Inr (of_nat (slice_val ?r 0 6), ?r2)"
    using read_bits_slice [OF ok1(1), of 6] w by (simp add: advance_advance)
  have "sint (of_nat (slice_val ?r 0 6) :: u64) = int (unat (of_nat (slice_val ?r 0 6) :: u64))"
    using read_small(2) [OF ok1(1) _ _ r2] by simp
  also have "\<dots> = b"
  proof -
    have "slice_val ?r 0 6 < 2 ^ 64" using slice_val_less [of ?r 0 6] by simp
    then have "unat (of_nat (slice_val ?r 0 6) :: u64) = slice_val ?r 0 6"
      by (simp add: unsigned_of_nat take_bit_nat_eq_self)
    then have "int (unat (of_nat (slice_val ?r 0 6) :: u64)) = int (slice_val ?r 0 6)" by (rule arg_cong)
    then show ?thesis using b w by (simp only: slice_val_advance) simp
  qed
  finally have nbinc: "sint (of_nat (slice_val ?r 0 6) :: u64) = b" .
  let ?st = "st\<lparr>rdr := ?r2\<rparr>"
  have ok2: "state_ok ?st" by (rule advances_ok [OF advances_reader [OF st]]) (use w fits nb in linarith)+
  have rem: "int n * b \<le> bits_remaining (rdr ?st)"
    using bits_remaining_advance [OF ok, of "w + 6"] w fits nb by simp
  have eff: "eff_ref E ?st desc entry = eff_ref E st desc entry" "eff_scale ?st entry = eff_scale st entry"
    by (simp_all add: eff_ref_def eff_scale_def Let_def)
  have incs: "slice_val ?r2 (int s * b) b = slice_val (rdr st) (w + 6 + int s * b) b" for s
    using w b0 by (simp add: slice_val_advance)
  have end_pos: "advance ?r2 (int n * b) = advance (rdr st) (w + 6 + int n * b)"
    using w nb by (simp add: advance_advance)
  have live: "\<not> bits_remaining (rdr st) < w + 6" using fits nb by linarith
  have "c_number_column E desc entry w n st =
    Inr ([map (\<lambda>s. float_entry desc (tb_name entry) (tb_unit entry)
                 (if is_all_ones ref w \<or> (b \<noteq> 0 \<and> is_all_ones (inc s) b) then None
                  else Some (decode_number (if b = 0 then ref else ref + inc s) (eff_ref E st desc entry) (eff_scale st entry))))
            [0..<n]],
         st\<lparr>rdr := advance (rdr st) (w + 6 + int n * b)\<rparr>)"
  proof (cases "b = 0")
    case True
    then show ?thesis
      using live st(2) r1 r2 nbinc eff
      by (simp add: c_number_column_def lift_read_def Let_def map_replicate_const)
  next
    case False
    then show ?thesis
      using live st(2) r1 r2 nbinc eff c_inc_numbers_slices [OF ok2 _ b0(1) _ rem] b0 inc end_pos
      by (simp add: c_number_column_def lift_read_def Let_def incs inc_value_def)
  qed
  then show ?thesis using unit w by (simp add: c_data_def Let_def)
qed

theorem compressed_number_column_witness:
  "c_data demo_env \<lparr>dF = 0, dX = 12, dY = 101\<rparr> \<lparr>tb_name = ''TEMPERATURE'', tb_unit = ''K'', tb_scale = 1, tb_reference = 0, tb_width = 8\<rparr>
      2 (init_state (new_bit_reader [200, 9, 192])) =
    Inr ([[float_entry \<lparr>dF = 0, dX = 12, dY = 101\<rparr> ''TEMPERATURE'' ''K'' (Some (decode_number 201 0 1)),
           float_entry \<lparr>dF = 0, dX = 12, dY = 101\<rparr> ''TEMPERATURE'' ''K'' None]],
         (init_state (new_bit_reader [200, 9, 192]))\<lparr>rdr := advance (new_bit_reader [200, 9, 192]) 18\<rparr>)"
proof -
  let ?r = "new_bit_reader [200, 9, 192]" and ?d = "\<lparr>dF = 0, dX = 12, dY = 101\<rparr>"
  let ?e = "\<lparr>tb_name = ''TEMPERATURE'', tb_unit = ''K'', tb_scale = 1, tb_reference = 0, tb_width = 8\<rparr>"
  have slices: "slice_val ?r 0 8 = 200" "slice_val ?r 8 6 = 2" "slice_val ?r 14 2 = 1" "slice_val ?r 16 2 = 3"
    by (simp_all add: slice_val_def new_bit_reader_def bits_of_def byte_bits_def upt_rec bits_val_def)
  define inc :: "nat \<Rightarrow> u64" where "inc = (\<lambda>s. of_nat (slice_val ?r (8 + 6 + int s * 2) 2))"
  have inc: "inc 0 = 1" "inc (Suc 0) = 3" using slices by (simp_all add: inc_def)
  have r: "rdr (init_state ?r) = ?r" by (simp add: init_state_def)
  have eff: "eff_width (init_state ?r) ?e = 8" "eff_ref demo_env (init_state ?r) ?d ?e = 0" "eff_scale (init_state ?r) ?e = 1"
    by (simp_all add: init_state_def eff_width_def eff_ref_def eff_scale_def)
  have fits: "8 + 6 + int 2 * 2 \<le> bits_remaining (rdr (init_state ?r))"
    by (simp only: r) (simp add: bits_remaining_def new_bit_reader_def)
  have ones: "\<not> is_all_ones 200 8" "\<not> is_all_ones 1 2" "is_all_ones 3 2" by (simp_all add: is_all_ones_def)
  have two: "[0..<2] = [0, Suc 0]" by (simp add: upt_rec)
  have "c_data demo_env ?d ?e 2 (init_state ?r) =
    Inr ([map (\<lambda>s. float_entry ?d (tb_name ?e) (tb_unit ?e)
                 (if is_all_ones 200 8 \<or> ((2 :: int) \<noteq> 0 \<and> is_all_ones (inc s) 2) then None
                  else Some (decode_number (if (2 :: int) = 0 then 200 else 200 + inc s)
                         (eff_ref demo_env (init_state ?r) ?d ?e) (eff_scale (init_state ?r) ?e))))
            [0..<2]],
         (init_state ?r)\<lparr>rdr := advance (rdr (init_state ?r)) (8 + 6 + int 2 * 2)\<rparr>)"
    by (rule compressed_number_column [OF init_state_ok _ _ eff(1) [symmetric] _ _ _ fits])
      (simp_all only: r slices inc_def, simp_all add: init_state_def)
  then show ?thesis by (simp only: two list.map inc eff r ones) simp
qed

lemma labels_append_columns:
  "columns_ok (length S) a cols \<Longrightarrow> \<forall>s \<in> set S. map label_of s = ls \<Longrightarrow>
   \<exists>ls'. length ls' = length ls + length cols \<and> (\<forall>s \<in> set (append_columns cols S). map label_of s = ls')"
proof (induction cols arbitrary: S ls)
  case (Cons col cols)
  then obtain l where l: "\<forall>v \<in> set col. label_of v = l" "length col = length S"
    by (auto simp: columns_ok_def uniform_def)
  let ?S = "append_column col S"
  have "length ?S = length S" using l(2) by (simp add: append_column_def)
  moreover have "\<forall>s \<in> set ?S. map label_of s = ls @ [l]"
    using l Cons.prems(2) by (fastforce simp: append_column_def dest: set_zip_leftD set_zip_rightD)
  ultimately obtain ls' where "length ls' = length (ls @ [l]) + length cols"
    "\<forall>s \<in> set (append_columns cols ?S). map label_of s = ls'"
    using Cons.IH [of ?S "ls @ [l]"] Cons.prems(1) by (auto simp: columns_ok_def)
  then show ?case by (intro exI [of _ ls']) simp
qed auto

lemma decode_compressed_shape:
  assumes "tables_ok (env_tables E)" "widths_ok (env_tables E)" "list_all desc_ok ds"
  shows "case decode_compressed E ds n (new_bit_reader data) of
      Inl e \<Rightarrow> \<not> is_panic e \<and> (delay_free ds \<and> tables_delay_free (env_tables E) \<longrightarrow>
                 e \<noteq> ErrRead ErrUnexpectedEOF \<and> (\<forall>w. e = ErrRead (ErrInvalidBitCount w) \<longrightarrow> 64 < w))
    | Inr subsets \<Rightarrow> length subsets = n \<and>
        (\<exists>ls. (\<forall>s \<in> set subsets. map label_of s = ls) \<and> length subsets * length ls \<le> 100000)"
proof -
  let ?delayed = "\<not> (delay_free ds \<and> tables_delay_free (env_tables E))"
  let ?S = "replicate n ([] :: bvalue list)" and ?st = "init_state (new_bit_reader data)"
  have d: "?delayed \<or> tables_delay_free (env_tables E)" "?delayed \<or> delay_free ds" by auto
  have run: "c_run_good ?delayed ?S ?st (decode_c E 0 ds ?S ?st)"
    by (rule decode_c_good(1) [OF assms(1,2) d(1) assms(3) d(2) init_state_ok])
  show ?thesis
  proof (cases "decode_c E 0 ds ?S ?st")
    case (Inl e)
    then show ?thesis using run by (auto simp: decode_compressed_def c_error_ok_def decode_error_no_panic)
  next
    case (Inr x)
    obtain S' st' where x: "x = (S', st')" by fastforce
    have "c_run_good ?delayed ?S ?st (Inr (S', st'))" using run Inr x by simp
    then obtain cols where c: "S' = append_columns cols ?S" "columns_ok (length ?S) (streamExhausted ?st) cols"
      "length cols * max 1 (length ?S) + totalDescriptorsRead ?st \<le> totalDescriptorsRead st'"
      "totalDescriptorsRead ?st \<le> maxExpandedDescriptors \<longrightarrow> totalDescriptorsRead st' \<le> maxExpandedDescriptors"
      "length S' = length ?S"
      by (rule c_run_goodD)
    have "\<forall>s \<in> set ?S. map label_of s = []" by simp
    from labels_append_columns [OF c(2) this] obtain ls where
      "length ls = length ([] :: (descriptor \<times> string \<times> string) list) + length cols"
      "\<forall>s \<in> set (append_columns cols ?S). map label_of s = ls" by blast
    then have ls: "length ls = length cols" "\<forall>s \<in> set S'. map label_of s = ls"
      unfolding c(1) [symmetric] by simp_all
    have "n * length ls \<le> length cols * max 1 n" using ls(1) by (simp add: mult.commute)
    also have "\<dots> \<le> 100000" using c(3,4) by (simp add: bufr_limits init_state_def)
    finally show ?thesis using Inr x c(5) ls(2) by (auto simp: decode_compressed_def)
  qed
qed

text \<open>C4: Compressed data decodes to a rectangle: on success there is one value list per subset, all of the same
  length, with the same descriptor, name and unit at each position, and number of subsets times number of
  values stays within the limit on expanded descriptors.  Without delayed replications (neither in the
  message nor in the tables) it never over-reads the payload; it never panics.\<close>

theorem decode_compressed_rectangular:
  assumes "tables_ok (env_tables E)" "widths_ok (env_tables E)" "list_all desc_ok ds"
  shows "case decode_compressed E ds n (new_bit_reader data) of
      Inl e \<Rightarrow> \<not> is_panic e \<and> (delay_free ds \<and> tables_delay_free (env_tables E) \<longrightarrow>
                 e \<noteq> ErrRead ErrUnexpectedEOF \<and> (\<forall>w. e = ErrRead (ErrInvalidBitCount w) \<longrightarrow> 64 < w))
    | Inr subsets \<Rightarrow> length subsets = n \<and>
        (\<exists>ls. (\<forall>s \<in> set subsets. map label_of s = ls) \<and> length subsets * length ls \<le> 100000)"
  by (rule decode_compressed_shape [OF assms])

lemma demo_widths_ok: "widths_ok (env_tables demo_env)"
  by (auto simp: widths_ok_def demo_env_def demo_tables_def lookup_b_def split: if_splits)

theorem decode_compressed_rectangular_witness:
  "case decode_compressed demo_env [\<lparr>dF = 0, dX = 12, dY = 101\<rparr>] 2 (new_bit_reader [200, 9, 192]) of
      Inl e \<Rightarrow> \<not> is_panic e \<and> (delay_free [\<lparr>dF = 0, dX = 12, dY = 101\<rparr>] \<and> tables_delay_free (env_tables demo_env) \<longrightarrow>
                 e \<noteq> ErrRead ErrUnexpectedEOF \<and> (\<forall>w. e = ErrRead (ErrInvalidBitCount w) \<longrightarrow> 64 < w))
    | Inr subsets \<Rightarrow> length subsets = 2 \<and>
        (\<exists>ls. (\<forall>s \<in> set subsets. map label_of s = ls) \<and> length subsets * length ls \<le> 100000)"
  by (rule decode_compressed_rectangular) (simp_all add: demo_tables_ok demo_widths_ok desc_ok_def)

text \<open>The operators of compressed data change the decoder's state exactly as those of uncompressed data do,
  except the bitmap operator 2 37 YYY, which the compressed decoder ignores: it neither reads the bitmap nor
  skips the values it marks as absent.  (The character operator 2 05 YYY reads a column.)\<close>

theorem compressed_operators_agree:
  assumes "dX desc \<noteq> 5"
  shows "c_operator desc n st =
    (if dX desc = 37 then Inr ([], st) else map_sum id (\<lambda>(vals, st'). ([], st')) (u_operator desc st))"
  using assms by (simp add: c_operator_eq) (simp add: c_operator_def)

theorem compressed_operators_agree_witness:
  "c_operator \<lparr>dF = 2, dX = 1, dY = 130\<rparr> 3 (init_state (new_bit_reader []))
     = Inr ([], (init_state (new_bit_reader []))\<lparr>dataWidthChange := 2\<rparr>)"
  using compressed_operators_agree [of "\<lparr>dF = 2, dX = 1, dY = 130\<rparr>" 3 "init_state (new_bit_reader [])"]
  by (simp add: u_operator_def)

definition replication_env :: bufr_env where
  "replication_env = \<lparr>env_tables = \<lparr>table_b =
     [12101 \<mapsto> \<lparr>tb_name = ''TEMPERATURE'', tb_unit = ''K'', tb_scale = 1, tb_reference = 0, tb_width = 8\<rparr>,
      31001 \<mapsto> \<lparr>tb_name = ''FACTOR'', tb_unit = ''Numeric'', tb_scale = 0, tb_reference = 0, tb_width = 8\<rparr>],
     table_d = Map.empty\<rparr>, env_ovf = 0\<rparr>"

text \<open>The increments of a delayed replication factor are read without asking how many bits are left: on a
  truncated compressed payload the decoder gives up with the raw end-of-data error, and all values read
  so far are lost, where every other element marks the stream exhausted and yields missing values.\<close>

theorem compressed_factor_over_reads:
  "decode_compressed replication_env
     [\<lparr>dF = 1, dX = 1, dY = 0\<rparr>, \<lparr>dF = 0, dX = 31, dY = 1\<rparr>, \<lparr>dF = 0, dX = 12, dY = 101\<rparr>] 2
     (new_bit_reader [1, 40]) = Inl (ErrRead ErrUnexpectedEOF)"
proof -
  let ?r = "new_bit_reader [1, 40]" and ?ds = "[\<lparr>dF = 1, dX = 1, dY = 0\<rparr>, \<lparr>dF = 0, dX = 31, dY = 1\<rparr>, \<lparr>dF = 0, dX = 12, dY = 101\<rparr>]"
  have 1: "read_bits ?r 8 = Inr (1, advance ?r 8)" by code_simp
  have 2: "read_bits (advance ?r 8) 6 = Inr (10, advance ?r 14)" by code_simp
  have 3: "read_bits (advance ?r 14) 10 = Inl ErrUnexpectedEOF" by code_simp
  have "bits_remaining ?r = 16" by code_simp
  then have "c_factor replication_env ?ds 0 2 (counted_c 2 (init_state ?r)) = Inl (ErrRead ErrUnexpectedEOF)"
    by (simp add: c_factor_def replication_env_def lookup_b_def desc_code_def counted_c_def init_state_def
        1 2 3 lift_read_def numeral_2_eq_2 Let_def)
  moreover have "loop_c replication_env 1 ?ds 0 [[], []] (init_state ?r)
      = ebind (c_factor replication_env ?ds 0 2 (counted_c 2 (init_state ?r))) (\<lambda>(k, cols, st').
          (let i' = 0 + 1; m = nat 1 in
           if maxReplicationCount < k then Inl (limit_replication k)
           else if length ?ds < i' + 1 + m then Inl (ErrTruncated ''descriptor stream ended before replication block'')
           else ebind (repeat_c replication_env 1 (take m (drop (i' + 1) ?ds)) (nat k) (append_columns cols [[], []]) st')
              (\<lambda>(S', st''). loop_c replication_env 1 ?ds (i' + 1 + m) S' st'')))"
    by (subst loop_c_replication) (simp_all add: c_within_def init_state_def bufr_limits is_local_def numeral_2_eq_2)
  ultimately show ?thesis
    by (simp add: decode_compressed_def decode_c.simps bufr_limits numeral_2_eq_2)
qed

end
