(* ===== verification/BufrMessage.thy ===== *)
theory BufrMessage
  imports BufrCompressed
begin

text \<open>
  The framing of BUFR messages (\<open>Decode\<close> and \<open>decodeSingleMessage\<close> in
  \<open>wis2_adapter/app/bufr/decoder.go\<close>): the scan of a byte stream for messages, and the walk through the
  sections of one message down to the bit payload.  An access outside a slice is a Go panic, here and in
  the decoders of the data (\<open>GoPanic\<close> and \<open>ReadPanic\<close>), and \<open>decodeSingleMessage\<close> recovers it: then its
  error is \<open>Recovered\<close>.  An error carries the message as filled so far, which the code returns with it.
\<close>

datatype msg_err = MsgErr bufr_err | Recovered

type_synonym 'a msg_result = "(message \<times> msg_err) + 'a"

definition fail :: "message \<Rightarrow> bufr_err \<Rightarrow> 'a msg_result" where
  "fail m e = Inl (m, MsgErr e)"

text \<open>The deferred \<open>recover\<close>: the outcome of code that runs under it with the message \<open>m\<close> filled so far.\<close>

definition recovering :: "message \<Rightarrow> bufr_err + 'a \<Rightarrow> 'a msg_result" where
  "recovering m x =
     (case x of
        Inl e \<Rightarrow> if is_panic e then Inl (m, Recovered) else fail m e
      | Inr a \<Rightarrow> Inr a)"

definition byte_at :: "message \<Rightarrow> byte list \<Rightarrow> nat \<Rightarrow> int msg_result" where
  "byte_at m b i = ebind (recovering m (nth_at b i)) (\<lambda>v. Inr (uint v))"

definition be16_at :: "message \<Rightarrow> byte list \<Rightarrow> nat \<Rightarrow> int msg_result" where
  "be16_at m b i = ebind (byte_at m b i) (\<lambda>h. ebind (byte_at m b (i + 1)) (\<lambda>l. Inr (push_bit 8 h OR l)))"

definition be24_at :: "message \<Rightarrow> byte list \<Rightarrow> nat \<Rightarrow> int msg_result" where
  "be24_at m b i =
     ebind (byte_at m b i) (\<lambda>h. ebind (byte_at m b (i + 1)) (\<lambda>c. ebind (byte_at m b (i + 2)) (\<lambda>l.
       Inr (push_bit 16 h OR push_bit 8 c OR l))))"

text \<open>Section 1 of the two editions: the message, and whether Section 2 is present.\<close>

definition section1_v4 :: "message \<Rightarrow> byte list \<Rightarrow> (message \<times> bool) msg_result" where
  "section1_v4 m b =
     ebind (byte_at m b 11) (\<lambda>v. let m = m\<lparr>m_master_table := v\<rparr> in
     ebind (be16_at m b 12) (\<lambda>v. let m = m\<lparr>m_centre := v\<rparr> in
     ebind (be16_at m b 14) (\<lambda>v. let m = m\<lparr>m_sub_centre := v\<rparr> in
     ebind (byte_at m b 17) (\<lambda>flags. let hasSec2 = (flags AND 128 \<noteq> 0) in
     ebind (byte_at m b 18) (\<lambda>v. let m = m\<lparr>m_category := v\<rparr> in
     ebind (byte_at m b 20) (\<lambda>v. let m = m\<lparr>m_subcategory := v\<rparr> in
     ebind (byte_at m b 21) (\<lambda>v. let m = m\<lparr>m_master_table_version := v\<rparr> in
     ebind (byte_at m b 22) (\<lambda>v. let m = m\<lparr>m_local_table_version := v\<rparr> in
     Inr (m, hasSec2)))))))))"

definition section1_v3 :: "message \<Rightarrow> byte list \<Rightarrow> (message \<times> bool) msg_result" where
  "section1_v3 m b =
     ebind (byte_at m b 11) (\<lambda>v. let m = m\<lparr>m_master_table := v\<rparr> in
     ebind (byte_at m b 12) (\<lambda>v. let m = m\<lparr>m_sub_centre := v\<rparr> in
     ebind (byte_at m b 13) (\<lambda>v. let m = m\<lparr>m_centre := v\<rparr> in
     ebind (byte_at m b 15) (\<lambda>flags. let hasSec2 = (flags AND 128 \<noteq> 0) in
     ebind (byte_at m b 16) (\<lambda>v. let m = m\<lparr>m_category := v\<rparr> in
     ebind (byte_at m b 17) (\<lambda>v. let m = m\<lparr>m_subcategory := v\<rparr> in
     ebind (byte_at m b 18) (\<lambda>v. let m = m\<lparr>m_master_table_version := v\<rparr> in
     ebind (byte_at m b 19) (\<lambda>v. let m = m\<lparr>m_local_table_version := v\<rparr> in
     Inr (m, hasSec2)))))))))"

text \<open>Sections 0 and 1: the message, the presence of Section 2 and the position after Section 1.\<close>

definition section1 :: "byte list \<Rightarrow> (message \<times> bool \<times> nat) msg_result" where
  "section1 b =
     (let m = empty_message; len = int (length b) in
      if len < 16 then fail m (ErrTruncated ''message shorter than 16 bytes'')
      else ebind (byte_at m b 7) (\<lambda>edition.
        if edition \<noteq> 3 \<and> edition \<noteq> 4 then
          fail m (ErrInvalidBUFR (''unsupported BUFR edition '' @ show_int edition))
        else (let m = m\<lparr>m_edition := edition\<rparr> in
          if len < 11 then fail m (ErrTruncated ''truncated Section 1 length'')
          else ebind (be24_at m b 8) (\<lambda>s1Len.
            if s1Len < 8 \<or> len - 4 < 8 + s1Len then fail m (ErrTruncated ''invalid Section 1 length'')
            else if edition = 4 then
              (if s1Len < 22 then
                 fail m (ErrInvalidBUFR (''Section 1 edition 4 length '' @ show_int s1Len @ '' too short''))
               else ebind (section1_v4 m b) (\<lambda>(m, hasSec2). Inr (m, hasSec2, 8 + nat s1Len)))
            else
              (if s1Len < 17 then
                 fail m (ErrInvalidBUFR (''Section 1 edition 3 length '' @ show_int s1Len @ '' too short''))
               else ebind (section1_v3 m b) (\<lambda>(m, hasSec2). Inr (m, hasSec2, 8 + nat s1Len)))))))"

definition section2 :: "message \<Rightarrow> byte list \<Rightarrow> bool \<Rightarrow> nat \<Rightarrow> nat msg_result" where
  "section2 m b hasSec2 pos =
     (let len = int (length b) in
      if hasSec2 then
        (if len - 4 < int pos + 3 then fail m (ErrTruncated ''truncated Section 2 header'')
         else ebind (be24_at m b pos) (\<lambda>s2Len.
           if s2Len < 3 \<or> len - 4 < int pos + s2Len then fail m (ErrTruncated ''invalid Section 2 length'')
           else Inr (pos + nat s2Len)))
      else Inr pos)"

definition wire_descriptor :: "int \<Rightarrow> descriptor" where
  "wire_descriptor val = \<lparr>dF = drop_bit 14 val AND 3, dX = drop_bit 8 val AND 63, dY = val AND 255\<rparr>"

fun read_descriptors :: "message \<Rightarrow> byte list \<Rightarrow> nat \<Rightarrow> nat \<Rightarrow> descriptor list msg_result" where
  "read_descriptors m b pos 0 = Inr []"
| "read_descriptors m b pos (Suc k) =
     ebind (be16_at m b pos) (\<lambda>val.
       ebind (read_descriptors m b (pos + 2) k) (\<lambda>ds. Inr (wire_descriptor val # ds)))"

text \<open>Section 3: the message, the number of subsets, the descriptors and the position after it.\<close>

definition section3 :: "message \<Rightarrow> byte list \<Rightarrow> nat \<Rightarrow> (message \<times> nat \<times> descriptor list \<times> nat) msg_result" where
  "section3 m b pos =
     (let len = int (length b) in
      if len - 4 < int pos + 7 then fail m (ErrTruncated ''truncated Section 3 header'')
      else ebind (be24_at m b pos) (\<lambda>s3Len.
        if s3Len < 7 \<or> len - 4 < int pos + s3Len then fail m (ErrTruncated ''invalid Section 3 length'')
        else ebind (be16_at m b (pos + 4)) (\<lambda>numSubsets.
          if numSubsets \<le> 0 then
            fail m (ErrInvalidBUFR (''invalid numberOfSubsets '' @ show_int numSubsets))
          else if maxSubsets < numSubsets then
            fail m (ErrLimitExceeded (''numberOfSubsets '' @ show_int numSubsets @ '' exceeds limit '' @ show_int maxSubsets))
          else ebind (byte_at m b (pos + 6)) (\<lambda>s3Flags.
            (let m = m\<lparr>m_compressed := (s3Flags AND 64 \<noteq> 0)\<rparr>;
                 numDesc = (s3Len - 7) div 2
             in ebind (recovering m (make_size numDesc)) (\<lambda>k.
                ebind (read_descriptors m b (pos + 7) k) (\<lambda>ds.
                  Inr (m, nat numSubsets, ds, pos + nat s3Len))))))))"

definition section4 :: "message \<Rightarrow> byte list \<Rightarrow> nat \<Rightarrow> byte list msg_result" where
  "section4 m b pos =
     (let len = int (length b) in
      if len - 4 < int pos + 4 then fail m (ErrTruncated ''truncated Section 4 header'')
      else ebind (be24_at m b pos) (\<lambda>s4Len.
        if s4Len < 4 \<or> len - 4 < int pos + s4Len then fail m (ErrTruncated ''invalid Section 4 length'')
        else recovering m (slice_at b (pos + 4) (pos + nat s4Len))))"

definition decode_sections :: "bufr_env \<Rightarrow> byte list \<Rightarrow> message msg_result" where
  "decode_sections E b =
     ebind (section1 b) (\<lambda>(m, hasSec2, pos).
     ebind (section2 m b hasSec2 pos) (\<lambda>pos.
     ebind (section3 m b pos) (\<lambda>(m, numSubsets, descriptors, pos).
     ebind (section4 m b pos) (\<lambda>payload.
     ebind (recovering m
              (if m_compressed m then decode_compressed E descriptors numSubsets (new_bit_reader payload)
               else decode_uncompressed E descriptors numSubsets (new_bit_reader payload)))
       (\<lambda>subsets. Inr (m\<lparr>m_subsets := subsets\<rparr>))))))"

definition decode_single_message :: "bufr_env \<Rightarrow> byte list \<Rightarrow> message \<times> msg_err option" where
  "decode_single_message E b =
     (case decode_sections E b of Inl (m, e) \<Rightarrow> (m, Some e) | Inr m \<Rightarrow> (m, None))"

section \<open>The scan\<close>

fun bytes_index :: "byte list \<Rightarrow> byte list \<Rightarrow> nat option" where
  "bytes_index pat s =
     (if take (length pat) s = pat then Some 0
      else (case s of [] \<Rightarrow> None | _ # t \<Rightarrow> map_option Suc (bytes_index pat t)))"

declare bytes_index.simps [simp del]

definition bufr_magic :: "byte list" where "bufr_magic = [66, 85, 70, 82]"
definition bufr_trailer :: "byte list" where "bufr_trailer = [55, 55, 55, 55]"

definition be24 :: "byte list \<Rightarrow> nat \<Rightarrow> int" where
  "be24 b i = push_bit 16 (uint (b ! i)) OR push_bit 8 (uint (b ! (i + 1))) OR uint (b ! (i + 2))"

text \<open>The scan is outside the \<open>recover\<close>; it reads only positions below the length that its guards have checked just before.\<close>

function decode_loop :: "bufr_env \<Rightarrow> byte list \<Rightarrow> nat \<Rightarrow> bool \<Rightarrow> message list \<Rightarrow> msg_err option list
    \<Rightarrow> bool \<times> message list \<times> msg_err option list" where
  "decode_loop E data pos foundAny messages errorsList =
     (if length data \<le> pos then (foundAny, messages, errorsList)
      else (case bytes_index bufr_magic (drop pos data) of
        None \<Rightarrow> (foundAny, messages, errorsList)
      | Some idx \<Rightarrow>
          (let startPos = pos + idx in
           if length data < startPos + 8 then
             (True, messages @ [empty_message],
              errorsList @ [Some (MsgErr (ErrTruncated ''truncated Section 0 header''))])
           else
             (let totalLen = be24 data (startPos + 4); edition = uint (data ! (startPos + 7));
                  m = empty_message\<lparr>m_edition := edition\<rparr> in
              if maxMessageSize < totalLen then
                decode_loop E data (startPos + 4) True (messages @ [m])
                  (errorsList @ [Some (MsgErr (ErrLimitExceeded
                     (''message length '' @ show_int totalLen @ '' exceeds max '' @ show_int maxMessageSize)))])
              else if totalLen < 16 then
                decode_loop E data (startPos + 4) True (messages @ [m])
                  (errorsList @ [Some (MsgErr (ErrInvalidBUFR (''message length '' @ show_int totalLen @ '' too small'')))])
              else if int (length data) < int startPos + totalLen then
                (True, messages @ [m],
                 errorsList @ [Some (MsgErr (ErrTruncated (''message length '' @ show_int totalLen
                    @ '' exceeds available stream '' @ show_nat (length data - startPos))))])
              else
                (let endPos = startPos + nat totalLen in
                 if take 4 (drop (endPos - 4) data) \<noteq> bufr_trailer then
                   decode_loop E data (startPos + 4) True (messages @ [m])
                     (errorsList @ [Some (MsgErr (ErrInvalidBUFR (''missing '' @ [CHR 0x27] @ ''7777'' @ [CHR 0x27] @ '' terminator'')))])
                 else
                   (let (msg, err) = decode_single_message E (take (nat totalLen) (drop startPos data)) in
                    decode_loop E data endPos True (messages @ [msg]) (errorsList @ [err])))))))"
  by pat_completeness auto
termination
  by (relation "measure (\<lambda>(E, data, pos, _). length data - pos)") auto

declare decode_loop.simps [simp del]

definition decode :: "bufr_env \<Rightarrow> byte list \<Rightarrow> message list \<times> msg_err option list" where
  "decode E data =
     (if data = [] then ([], [Some (MsgErr (ErrTruncated ''empty input''))])
      else (let (foundAny, messages, errorsList) = decode_loop E data 0 False [] [] in
            if foundAny then (messages, errorsList)
            else ([], [Some (MsgErr (ErrNoBUFRFound ''no BUFR header found''))])))"

section \<open>Inside the message\<close>

lemma recovering_Inr [simp]: "recovering m (Inr a) = Inr a"
  by (simp add: recovering_def)

lemma recovering_error: "\<not> is_panic e \<Longrightarrow> recovering m (Inl e) = fail m e"
  by (simp add: recovering_def)

lemma byte_at_in [simp]: "i < length b \<Longrightarrow> byte_at m b i = Inr (uint (b ! i))"
  by (simp add: byte_at_def)

lemma be16_at_in: "i + 1 < length b \<Longrightarrow> \<exists>v \<ge> 0. be16_at m b i = Inr v"
  by (simp add: be16_at_def)

lemma be24_at_in: "i + 2 < length b \<Longrightarrow> \<exists>v \<ge> 0. be24_at m b i = Inr v"
  by (simp add: be24_at_def)

text \<open>A section that does not panic, and the bound it leaves on the position.\<close>

definition section_good :: "nat \<Rightarrow> ('a \<Rightarrow> nat) \<Rightarrow> 'a msg_result \<Rightarrow> bool" where
  "section_good len pos_of out \<longleftrightarrow>
     (case out of Inl (m, e) \<Rightarrow> e \<noteq> Recovered | Inr x \<Rightarrow> pos_of x + 4 \<le> len)"

lemma section_good_fail [simp]: "section_good len p (fail m e)"
  by (simp add: section_good_def fail_def)

lemma section_good_Inr [simp]: "section_good len p (Inr x) \<longleftrightarrow> p x + 4 \<le> len"
  by (simp add: section_good_def)

lemma section1_v4_in: "22 < length b \<Longrightarrow> \<exists>m' s. section1_v4 m b = Inr (m', s) \<and> m_edition m' = m_edition m"
  using be16_at_in [of 12 b] be16_at_in [of 14 b]
  by (auto simp: section1_v4_def Let_def be16_at_def)

lemma section1_v3_in: "19 < length b \<Longrightarrow> \<exists>m' s. section1_v3 m b = Inr (m', s) \<and> m_edition m' = m_edition m"
  by (auto simp: section1_v3_def Let_def)

lemma be24_at_eq: "i + 2 < length b \<Longrightarrow> be24_at m b i = Inr (be24 b i)"
  by (simp add: be24_at_def be24_def)

lemma section1_good:
  "section_good (length b) (\<lambda>(m, s, pos). pos) (section1 b) \<and>
   (\<forall>m s pos. section1 b = Inr (m, s, pos) \<longrightarrow> m_edition m = 3 \<or> m_edition m = 4)"
proof (cases "length b < 16 \<or> (uint (b ! 7) \<noteq> 3 \<and> uint (b ! 7) \<noteq> 4)")
  case True
  then show ?thesis by (auto simp: section1_def Let_def fail_def section_good_def)
next
  case False
  then have len: "\<not> length b < 16" "be24_at m b 8 = Inr (be24 b 8)" for m by (simp_all add: be24_at_eq)
  show ?thesis
  proof (cases "be24 b 8 < 8 \<or> int (length b) - 4 < 8 + be24 b 8")
    case True
    then show ?thesis using False len by (auto simp: section1_def Let_def fail_def section_good_def)
  next
    case fits: False
    consider "uint (b ! 7) = 4" "22 \<le> be24 b 8" | "uint (b ! 7) = 3" "17 \<le> be24 b 8"
      | "uint (b ! 7) = 4" "be24 b 8 < 22" | "uint (b ! 7) = 3" "be24 b 8 < 17"
      using False by linarith
    then show ?thesis
    proof cases
      case 1
      then have "22 < length b" using fits by linarith
      then obtain m' s where "section1_v4 (empty_message\<lparr>m_edition := 4\<rparr>) b = Inr (m', s)" "m_edition m' = 4"
        using section1_v4_in by fastforce
      then show ?thesis using 1 fits len by (simp add: section1_def Let_def)
    next
      case 2
      then have "19 < length b" using fits by linarith
      then obtain m' s where "section1_v3 (empty_message\<lparr>m_edition := 3\<rparr>) b = Inr (m', s)" "m_edition m' = 3"
        using section1_v3_in by fastforce
      then show ?thesis using 2 fits len by (simp add: section1_def Let_def)
    qed (use fits len in \<open>simp_all add: section1_def Let_def fail_def section_good_def\<close>)
  qed
qed

lemma section2_good:
  assumes "pos + 4 \<le> length b"
  shows "section_good (length b) (\<lambda>pos. pos) (section2 m b s pos)"
proof (cases "s \<and> \<not> int (length b) - 4 < int pos + 3")
  case True
  then obtain l where "0 \<le> l" "be24_at m b pos = Inr l" using be24_at_in [of pos b m] by auto
  then show ?thesis using True assms by (simp add: section2_def Let_def) linarith
next
  case False
  then show ?thesis using assms by (auto simp: section2_def Let_def)
qed

lemma read_descriptors_in:
  "pos + 2 * k \<le> length b \<Longrightarrow> \<exists>ds. read_descriptors m b pos k = Inr ds \<and> length ds = k \<and> list_all desc_ok ds"
proof (induction k arbitrary: pos)
  case (Suc k)
  obtain v where v: "0 \<le> v" "be16_at m b pos = Inr v" using be16_at_in [of pos b m] Suc.prems by auto
  obtain ds where "read_descriptors m b (pos + 2) k = Inr ds" "length ds = k" "list_all desc_ok ds"
    using Suc by force
  then show ?case using v by (simp add: desc_ok_def wire_descriptor_def list_all_iff)
qed simp

text \<open>Section 3 that succeeds: how many subsets and descriptors it announces.\<close>

lemma section3_good:
  assumes "pos + 4 \<le> length b"
  shows "section_good (length b) (\<lambda>(m, n, ds, pos). pos) (section3 m b pos) \<and>
    (\<forall>m' n ds pos'. section3 m b pos = Inr (m', n, ds, pos') \<longrightarrow>
       1 \<le> n \<and> int n \<le> maxSubsets \<and> list_all desc_ok ds \<and> m_edition m' = m_edition m)"
proof (cases "int (length b) - 4 < int pos + 7")
  case True
  then show ?thesis by (simp add: section3_def Let_def fail_def section_good_def)
next
  case False
  obtain l where l: "0 \<le> l" "be24_at m b pos = Inr l" using False be24_at_in [of pos b m] by auto
  obtain n where n: "0 \<le> n" "be16_at m b (pos + 4) = Inr n" using False be16_at_in [of "pos + 4" b m] by auto
  show ?thesis
  proof (cases "l < 7 \<or> int (length b) - 4 < int pos + l \<or> n \<le> 0 \<or> maxSubsets < n")
    case True
    then show ?thesis using False l n by (auto simp: section3_def Let_def fail_def section_good_def)
  next
    case fits: False
    let ?m = "m\<lparr>m_compressed := (uint (b ! (pos + 6)) AND 64 \<noteq> 0)\<rparr>"
    have "pos + 7 + 2 * nat ((l - 7) div 2) \<le> length b" using fits by linarith
    then obtain ds where "read_descriptors ?m b (pos + 7) (nat ((l - 7) div 2)) = Inr ds" "list_all desc_ok ds"
      using read_descriptors_in [of "pos + 7"] by blast
    moreover have "pos + 6 < length b" using False by linarith
    ultimately show ?thesis using False fits l n by (simp add: section3_def Let_def) linarith
  qed
qed

lemma section4_good: "pos + 4 \<le> length b \<Longrightarrow> section_good (length b) (\<lambda>_. 0) (section4 m b pos)"
proof (cases "int (length b) - 4 < int pos + 4")
  case False
  then obtain l where l: "0 \<le> l" "be24_at m b pos = Inr l" using be24_at_in [of pos b m] by auto
  show ?thesis
  proof (cases "l < 4 \<or> int (length b) - 4 < int pos + l")
    case True
    then show ?thesis using False l by (auto simp: section4_def Let_def)
  next
    case fits: False
    then have "pos + 4 \<le> pos + nat l" "pos + nat l \<le> length b" by linarith+
    then have "slice_at b (pos + 4) (pos + nat l) = Inr (take (nat l - 4) (drop (pos + 4) b))"
      by (simp add: slice_at_def)
    then show ?thesis using False fits l by (simp add: section4_def Let_def)
  qed
qed (simp add: section4_def Let_def)

lemma section_good_Inl: "section_good len p (Inl y) \<Longrightarrow> \<exists>m e. y = (m, MsgErr e)"
  by (cases y; cases "snd y") (auto simp: section_good_def)

text \<open>The decoders do not panic on the descriptors that Section 3 yields.\<close>

lemma payload_no_panic:
  assumes "tables_ok (env_tables E)" "widths_ok (env_tables E)" "list_all desc_ok ds"
    "(if compressed then decode_compressed E ds n (new_bit_reader payload)
      else decode_uncompressed E ds n (new_bit_reader payload)) = Inl e"
  shows "\<not> is_panic e"
  using assms(4) decode_compressed_shape [OF assms(1-3), of n payload]
    decode_uncompressed_good [OF assms(1,3), of n payload]
  by (auto split: if_splits)

text \<open>The two ways through a message: a reported error, or the subsets of the decoder it selects.\<close>

lemma decode_sections_cases:
  assumes tables: "tables_ok (env_tables E)" "widths_ok (env_tables E)"
  obtains (error) m e where "decode_sections E b = Inl (m, MsgErr e)"
  | (decoded) m n ds payload subsets where "decode_sections E b = Inr (m\<lparr>m_subsets := subsets\<rparr>)"
      "m_edition m = 3 \<or> m_edition m = 4" "1 \<le> n" "int n \<le> maxSubsets" "list_all desc_ok ds"
      "(if m_compressed m then decode_compressed E ds n (new_bit_reader payload)
        else decode_uncompressed E ds n (new_bit_reader payload)) = Inr subsets"
proof (cases "section1 b")
  case (Inl x)
  then obtain m e where "x = (m, MsgErr e)" using section1_good [of b] section_good_Inl by metis
  then show thesis using error Inl by (simp add: decode_sections_def)
next
  case 1: (Inr x)
  obtain m1 s pos1 where x: "x = (m1, s, pos1)" by (metis prod.exhaust)
  have ed: "m_edition m1 = 3 \<or> m_edition m1 = 4" and p1: "pos1 + 4 \<le> length b"
    using section1_good [of b] 1 x by auto
  show thesis
  proof (cases "section2 m1 b s pos1")
    case (Inl y)
    then obtain m e where "y = (m, MsgErr e)" using section2_good [OF p1, of m1 s] section_good_Inl by metis
    then show thesis using error Inl 1 x by (simp add: decode_sections_def)
  next
    case 2: (Inr pos2)
    have p2: "pos2 + 4 \<le> length b" using section2_good [OF p1, of m1 s] 2 by simp
    show thesis
    proof (cases "section3 m1 b pos2")
      case (Inl y)
      then obtain m e where "y = (m, MsgErr e)" using section3_good [OF p2, of m1] section_good_Inl by metis
      then show thesis using error Inl 1 2 x by (simp add: decode_sections_def)
    next
      case 3: (Inr y)
      obtain m3 n ds pos3 where y: "y = (m3, n, ds, pos3)" by (metis prod.exhaust)
      have g: "1 \<le> n" "int n \<le> maxSubsets" "list_all desc_ok ds" "m_edition m3 = m_edition m1" and p3: "pos3 + 4 \<le> length b"
        using section3_good [OF p2, of m1] 3 y by auto
      show thesis
      proof (cases "section4 m3 b pos3")
        case (Inl z)
        then obtain m e where "z = (m, MsgErr e)" using section4_good [OF p3, of m3] section_good_Inl by metis
        then show thesis using error Inl 1 2 3 x y by (simp add: decode_sections_def)
      next
        case 4: (Inr payload)
        let ?out = "if m_compressed m3 then decode_compressed E ds n (new_bit_reader payload)
                    else decode_uncompressed E ds n (new_bit_reader payload)"
        show thesis
        proof (cases ?out)
          case (Inl e)
          then show thesis
            using error payload_no_panic [OF tables g(3) Inl] 1 2 3 4 x y
            by (simp add: decode_sections_def recovering_error) (simp add: fail_def)
        next
          case (Inr subsets)
          show thesis
            by (rule decoded [where m = m3 and subsets = subsets and n = n and ds = ds and payload = payload]) (use Inr 1 2 3 4 x y g ed in \<open>simp_all add: decode_sections_def\<close>)
        qed
      qed
    qed
  qed
qed

lemma decode_single_cases:
  assumes "tables_ok (env_tables E)" "widths_ok (env_tables E)"
  obtains (error) m e where "decode_single_message E b = (m, Some (MsgErr e))"
  | (decoded) m n ds payload subsets where "decode_single_message E b = (m\<lparr>m_subsets := subsets\<rparr>, None)"
      "m_edition m = 3 \<or> m_edition m = 4" "1 \<le> n" "int n \<le> maxSubsets" "list_all desc_ok ds"
      "(if m_compressed m then decode_compressed E ds n (new_bit_reader payload)
        else decode_uncompressed E ds n (new_bit_reader payload)) = Inr subsets"
  by (rule decode_sections_cases [OF assms, of b]) (auto simp: decode_single_message_def)

section \<open>Properties\<close>

text \<open>C1: Decoding one message never panics, whatever its bytes: every byte the section walk and the bit reader
  read, every descriptor, replication block and bitmap bit lies inside its slice and no slice is made with a
  negative size, so the recover in decodeSingleMessage never has anything to do.  (The tables list
  descriptors of the wire's ranges and non-negative widths.)\<close>

theorem decode_single_message_no_panic:
  assumes "tables_ok (env_tables E)" "widths_ok (env_tables E)"
  shows "snd (decode_single_message E b) \<noteq> Some Recovered"
  by (rule decode_single_cases [OF assms, of b]) auto

text \<open>A message that decodes without error is of edition 3 or 4 and holds between 1 and 10,000 subsets, with at
  most 100,000 values in all of them together.\<close>

theorem decoded_message_bounds:
  assumes "tables_ok (env_tables E)" "widths_ok (env_tables E)" "decode_single_message E b = (m, None)"
  shows "(m_edition m = 3 \<or> m_edition m = 4) \<and> 1 \<le> length (m_subsets m) \<and> length (m_subsets m) \<le> 10000
    \<and> sum_list (map length (m_subsets m)) \<le> 100000"
proof (cases rule: decode_single_cases [OF assms(1,2), of b, case_names error decoded])
  case (error m e)
  then show ?thesis using assms(3) by simp
next
  case (decoded m' n ds payload subsets)
  have "length subsets = n \<and> sum_list (map length subsets) \<le> 100000"
  proof (cases "m_compressed m'")
    case True
    then have "decode_compressed E ds n (new_bit_reader payload) = Inr subsets" using decoded(6) by simp
    then obtain ls where n: "length subsets = n" and ls: "\<forall>s \<in> set subsets. map label_of s = ls" "length subsets * length ls \<le> 100000"
      using decode_compressed_shape [OF assms(1,2) decoded(5), of n payload] by auto
    have "\<forall>s \<in> set subsets. length s = length ls" using ls(1) by (metis length_map)
    then have "sum_list (map length subsets) = length subsets * length ls"
      by (induction subsets) auto
    with n ls(2) show ?thesis by simp
  next
    case False
    then show ?thesis using decoded(6) decode_uncompressed_good [OF assms(1) decoded(5), of n payload] by simp
  qed
  then show ?thesis using decoded assms(3) by (auto simp: bufr_limits)
qed

text \<open>A message with one uncompressed subset of one temperature.\<close>

definition demo_message :: "byte list" where
  "demo_message = [66, 85, 70, 82, 0, 0, 48, 4,
     0, 0, 22, 0, 0, 7, 0, 0, 0, 0, 0, 0, 0, 31, 0, 0, 0, 0, 0, 0, 0, 0,
     0, 0, 9, 0, 0, 1, 128, 12, 101,
     0, 0, 5, 0, 200] @ [55, 55, 55, 55]"

definition demo_decoded :: message where
  "demo_decoded = empty_message\<lparr>m_edition := 4, m_centre := 7, m_master_table_version := 31,
     m_subsets := [[float_entry \<lparr>dF = 0, dX = 12, dY = 101\<rparr> ''TEMPERATURE'' ''K''
        (Some (f_mul (f_add (f_of_int 200) (f_of_int 0)) (pow10 (- 1))))]]\<rparr>"

lemma demo_uncompressed:
  "decode_uncompressed demo_env [\<lparr>dF = 0, dX = 12, dY = 101\<rparr>] 1 (new_bit_reader [200])
     = Inr [[float_entry \<lparr>dF = 0, dX = 12, dY = 101\<rparr> ''TEMPERATURE'' ''K''
              (Some (f_mul (f_add (f_of_int 200) (f_of_int 0)) (pow10 (- 1))))]]"
proof -
  let ?d = "\<lparr>dF = 0, dX = 12, dY = 101\<rparr>" and ?r = "new_bit_reader [200]"
  have read: "read_bits ?r 8 = Inr (200, advance ?r 8)" "bits_remaining ?r = 8" by code_simp+
  have ones: "\<not> is_all_ones 200 8" by (simp add: is_all_ones_def)
  show ?thesis
    by (simp add: decode_uncompressed_def decode_u.simps bufr_limits loop_u_element loop_u_end is_local_def
        reset_subset_def init_state_def counted_def u_element_def u_assoc_def u_data_def eff_width_def eff_ref_def eff_scale_def
        demo_env_def demo_tables_def lookup_b_def desc_code_def stream_read_def guarded_def lift_read_def read ones decode_number_def)
qed

lemma demo_message_decodes: "decode_single_message demo_env demo_message = (demo_decoded, None)"
proof -
  have 1: "section1 demo_message = Inr (empty_message\<lparr>m_edition := 4, m_centre := 7, m_master_table_version := 31\<rparr>, False, 30)"
    by code_simp
  let ?m = "empty_message\<lparr>m_edition := 4, m_centre := 7, m_master_table_version := 31\<rparr>"
  have 3: "section3 ?m demo_message 30 = Inr (?m, 1, [\<lparr>dF = 0, dX = 12, dY = 101\<rparr>], 39)"
    by code_simp
  have 4: "section4 ?m demo_message 39 = Inr [200]"
    by code_simp
  have c: "\<not> m_compressed empty_message" by (simp add: empty_message_def)
  show ?thesis
    by (simp add: decode_single_message_def decode_sections_def 1 section2_def 3 4 c demo_uncompressed demo_decoded_def
        del: One_nat_def)
qed

theorem decode_single_message_no_panic_witness:
  "snd (decode_single_message demo_env demo_message) \<noteq> Some Recovered"
  by (rule decode_single_message_no_panic [OF demo_tables_ok demo_widths_ok])

theorem decoded_message_bounds_witness:
  "(m_edition demo_decoded = 3 \<or> m_edition demo_decoded = 4) \<and> 1 \<le> length (m_subsets demo_decoded)
    \<and> length (m_subsets demo_decoded) \<le> 10000 \<and> sum_list (map length (m_subsets demo_decoded)) \<le> 100000"
  by (rule decoded_message_bounds [OF demo_tables_ok demo_widths_ok demo_message_decodes])

section \<open>Scanning a stream of messages\<close>

text \<open>
  A message as the scan wants it: the magic, a length field that tells its own length within the
  limits, and the trailer.
\<close>

definition framed :: "byte list \<Rightarrow> bool" where
  "framed b \<longleftrightarrow> 16 \<le> length b \<and> int (length b) \<le> maxMessageSize \<and> take 4 b = bufr_magic
     \<and> be24 b 4 = int (length b) \<and> drop (length b - 4) b = bufr_trailer"

lemma magic_lengths [simp]: "length bufr_magic = 4" "length bufr_trailer = 4"
  by (simp_all add: bufr_magic_def bufr_trailer_def)

lemma bytes_index_none: "66 \<notin> set s \<Longrightarrow> bytes_index bufr_magic s = None"
  by (induction s) (subst bytes_index.simps; auto simp: bufr_magic_def)+

lemma bytes_index_gap: "66 \<notin> set g \<Longrightarrow> take 4 b = bufr_magic \<Longrightarrow> bytes_index bufr_magic (g @ b) = Some (length g)"
proof (induction g)
  case Nil
  then show ?case by (subst bytes_index.simps) simp
next
  case (Cons x g)
  then show ?case by (subst bytes_index.simps) (auto simp: bufr_magic_def)
qed

lemma be24_append: "i + 2 < length b \<Longrightarrow> be24 (a @ b @ c) (length a + i) = be24 b i"
  by (simp add: be24_def nth_append)

lemma decode_loop_message:
  assumes "66 \<notin> set g" "framed b"
  shows "decode_loop E (pre @ g @ b @ rest) (length pre) found ms es =
    decode_loop E (pre @ g @ b @ rest) (length (pre @ g @ b)) True
      (ms @ [fst (decode_single_message E b)]) (es @ [snd (decode_single_message E b)])"
proof -
  let ?data = "pre @ g @ b @ rest" and ?start = "length pre + length g"
  have len: "16 \<le> length b" "int (length b) \<le> maxMessageSize" using assms(2) by (auto simp: framed_def)
  have "take 4 (b @ rest) = bufr_magic" using assms(2) len(1) by (simp add: framed_def)
  then have idx: "bytes_index bufr_magic (drop (length pre) ?data) = Some (length g)"
    using bytes_index_gap [OF assms(1)] by simp
  have "be24 ((pre @ g) @ b @ rest) (length (pre @ g) + 4) = be24 b 4"
    by (rule be24_append) (use len(1) in simp)
  then have total: "be24 ?data (?start + 4) = int (length b)" using assms(2) by (simp add: framed_def)
  have "drop (?start + length b - 4) ?data = bufr_trailer @ rest" using assms(2) len(1) by (simp add: framed_def)
  then have trailer: "take 4 (drop (?start + length b - 4) ?data) = bufr_trailer" by (simp only:) simp
  have body: "take (length b) (drop ?start ?data) = b" by simp
  show ?thesis
    using len idx total trailer body
    by (subst decode_loop.simps) (auto simp: Let_def case_prod_beta add.assoc)
qed

lemma decode_loop_rest:
  assumes "66 \<notin> set tail"
  shows "decode_loop E (pre @ tail) (length pre) found ms es = (found, ms, es)"
  using bytes_index_none [OF assms] by (subst decode_loop.simps) simp

lemma decode_loop_stream:
  "\<forall>(g, b) \<in> set parts. 66 \<notin> set g \<and> framed b \<Longrightarrow> 66 \<notin> set tail \<Longrightarrow>
   decode_loop E (pre @ concat (map (\<lambda>(g, b). g @ b) parts) @ tail) (length pre) found ms es
     = (found \<or> parts \<noteq> [], ms @ map (\<lambda>(g, b). fst (decode_single_message E b)) parts,
        es @ map (\<lambda>(g, b). snd (decode_single_message E b)) parts)"
proof (induction parts arbitrary: pre found ms es)
  case Nil
  then show ?case by (simp add: decode_loop_rest)
next
  case (Cons p parts)
  obtain g b where p: "p = (g, b)" by fastforce
  have gb: "66 \<notin> set g" "framed b" using Cons.prems(1) p by auto
  show ?case
    using decode_loop_message [OF gb, of E pre "concat (map (\<lambda>(g, b). g @ b) parts) @ tail" found ms es]
      Cons.IH [of "pre @ g @ b"] Cons.prems p by simp
qed

text \<open>C3: A stream of well-framed messages separated (and followed) by bytes without a "B", such as bulletin headings,
  decodes to exactly those messages in order, each decoded on its own from its own bytes, with its own
  error beside it.\<close>

theorem decode_framed_stream:
  assumes "parts \<noteq> []" "\<forall>(g, b) \<in> set parts. 66 \<notin> set g \<and> framed b" "66 \<notin> set tail"
  shows "decode E (concat (map (\<lambda>(g, b). g @ b) parts) @ tail)
    = (map (\<lambda>(g, b). fst (decode_single_message E b)) parts, map (\<lambda>(g, b). snd (decode_single_message E b)) parts)"
proof -
  let ?data = "concat (map (\<lambda>(g, b). g @ b) parts) @ tail"
  have "?data \<noteq> []"
    using assms(1,2) by (cases parts) (auto simp: framed_def)
  then show ?thesis
    using decode_loop_stream [OF assms(2,3), of E "[]" False "[]" "[]"] assms(1) by (simp add: decode_def)
qed

lemma demo_message_framed: "framed demo_message"
  by (simp add: framed_def demo_message_def bufr_magic_def bufr_trailer_def be24_def maxMessageSize_def)

theorem decode_framed_stream_witness:
  "decode demo_env ([1, 13, 10] @ demo_message @ [13] @ demo_message @ [10])
     = ([demo_decoded, demo_decoded], [None, None])"
  using decode_framed_stream [of "[([1, 13, 10], demo_message), ([13], demo_message)]" "[10]" demo_env]
  by (simp add: demo_message_framed demo_message_decodes)

lemma decode_loop_parallel:
  "length ms = length es \<Longrightarrow>
   case decode_loop E data pos found ms es of (found', ms', es') \<Rightarrow>
     length ms' = length es' \<and> (found' \<longrightarrow> found \<or> ms' \<noteq> []) \<and> (ms \<noteq> [] \<longrightarrow> ms' \<noteq> [])"
proof (induction E data pos found ms es rule: decode_loop.induct)
  case (1 E data pos found ms es)
  show ?case
  proof (cases "length data \<le> pos \<or> bytes_index bufr_magic (drop pos data) = None")
    case True
    then show ?thesis using "1.prems" by (subst decode_loop.simps) auto
  next
    case False
    then obtain idx where idx: "\<not> length data \<le> pos" "bytes_index bufr_magic (drop pos data) = Some idx" by auto
    note IH = "1.IH" [OF idx refl]
    let ?start = "pos + idx"
    let ?total = "be24 data (?start + 4)"
    consider "length data < ?start + 8" | "\<not> length data < ?start + 8" "maxMessageSize < ?total \<or> ?total < 16"
      | "\<not> length data < ?start + 8" "\<not> maxMessageSize < ?total" "\<not> ?total < 16" "int (length data) < int ?start + ?total"
      | "\<not> length data < ?start + 8" "\<not> maxMessageSize < ?total" "\<not> ?total < 16" "\<not> int (length data) < int ?start + ?total"
      by blast
    then show ?thesis
    proof cases
      case 2
      then show ?thesis
        using IH(1,2) [OF _ refl refl refl] idx "1.prems"
        by (subst decode_loop.simps) (auto simp: Let_def split: prod.splits)
    next
      case 4
      then show ?thesis
        using IH(3,4) [OF 4(1) refl refl refl 4(2,3,4) refl] idx "1.prems"
        by (subst decode_loop.simps) (auto simp: Let_def case_prod_beta split: prod.splits)
    qed (use idx "1.prems" in \<open>subst decode_loop.simps; simp add: Let_def\<close>)+
  qed
qed

text \<open>Decode pairs every message with its error: the two lists have the same length, except for an input without any
  "BUFR" (or empty), for which there is no message and one error.\<close>

theorem decode_pairs_errors:
  "case decode E data of (ms, es) \<Rightarrow> (ms = [] \<and> length es = 1) \<or> (ms \<noteq> [] \<and> length ms = length es)"
  using decode_loop_parallel [where ms = "[]" and es = "[]" and E = E and data = data and pos = 0 and found = False]
  by (auto simp: decode_def split: prod.splits)

end
