(* ===== verification/Actions.thy ===== *)
theory Actions
  imports Prelude "HOL-Library.State_Monad"
begin

text \<open>
  Stateful code as actions of the library's state monad, and a weakest precondition for them: \<open>wp m Q s\<close>
  says that running \<open>m\<close> from \<open>s\<close> ends in a result and a state that satisfy \<open>Q\<close>.  The rules below push a
  weakest precondition through sequencing and branching, so that a property of a handler reduces to
  facts on the operations it calls.
\<close>

abbreviation (input) ret :: "'a \<Rightarrow> ('s, 'a) state" where "ret \<equiv> State_Monad.return"

definition gets :: "('s \<Rightarrow> 'a) \<Rightarrow> ('s, 'a) state" where
  "gets f = State (\<lambda>s. (f s, s))"

definition modify :: "('s \<Rightarrow> 's) \<Rightarrow> ('s, unit) state" where
  "modify f = State (\<lambda>s. ((), f s))"

lemma run_state_gets [simp]: "run_state (gets f) s = (f s, s)"
  by (simp add: gets_def)

lemma run_state_modify [simp]: "run_state (modify f) s = ((), f s)"
  by (simp add: modify_def)

definition wp :: "('s, 'a) state \<Rightarrow> ('a \<Rightarrow> 's \<Rightarrow> bool) \<Rightarrow> 's \<Rightarrow> bool" where
  "wp m Q s = (case run_state m s of (x, s') \<Rightarrow> Q x s')"

named_theorems wp_simps \<comment> \<open>equations that push a weakest precondition inwards\<close>

lemma wp_return [wp_simps]: "wp (ret x) Q s = Q x s"
  by (simp add: wp_def)

lemma wp_bind [wp_simps]: "wp (State_Monad.bind m f) Q s = wp m (\<lambda>x. wp (f x) Q) s"
  by (simp add: wp_def split: prod.split)

lemma wp_gets [wp_simps]: "wp (gets f) Q s = Q (f s) s"
  by (simp add: wp_def)

lemma wp_modify [wp_simps]: "wp (modify f) Q s = Q () (f s)"
  by (simp add: wp_def)

lemma wp_if [wp_simps]: "wp (if b then m else n) Q s = (if b then wp m Q s else wp n Q s)"
  by simp

lemma wp_prod [wp_simps]: "wp (case p of (a, b) \<Rightarrow> f a b) Q s = wp (f (fst p) (snd p)) Q s"
  by (simp add: case_prod_beta)

lemma wp_let [wp_simps]: "wp (Let v f) Q s = wp (f v) Q s"
  by simp

lemma wp_option: "wp (case x of None \<Rightarrow> m | Some a \<Rightarrow> f a) Q s
    \<longleftrightarrow> (x = None \<longrightarrow> wp m Q s) \<and> (\<forall>a. x = Some a \<longrightarrow> wp (f a) Q s)"
  by (simp split: option.split)

lemma wp_sum: "wp (case x of Inl a \<Rightarrow> f a | Inr b \<Rightarrow> g b) Q s
    \<longleftrightarrow> (\<forall>a. x = Inl a \<longrightarrow> wp (f a) Q s) \<and> (\<forall>b. x = Inr b \<longrightarrow> wp (g b) Q s)"
  by (simp split: sum.split)

lemma wp_mono: "wp m Q s \<Longrightarrow> (\<And>x s'. Q x s' \<Longrightarrow> R x s') \<Longrightarrow> wp m R s"
  by (simp add: wp_def split: prod.splits)

lemma wp_run: "wp m Q s \<Longrightarrow> run_state m s = (x, s') \<Longrightarrow> Q x s'"
  by (simp add: wp_def)

text \<open>An action that keeps an invariant.\<close>

definition keeps :: "('s \<Rightarrow> bool) \<Rightarrow> ('s, 'a) state \<Rightarrow> bool" where
  "keeps I m \<longleftrightarrow> (\<forall>s. I s \<longrightarrow> wp m (\<lambda>_. I) s)"

lemma keepsI: "(\<And>s. I s \<Longrightarrow> wp m (\<lambda>_. I) s) \<Longrightarrow> keeps I m"
  by (simp add: keeps_def)

lemma keepsD: "keeps I m \<Longrightarrow> I s \<Longrightarrow> wp m (\<lambda>_. I) s"
  by (simp add: keeps_def)

lemma keeps_wp: "keeps I m \<Longrightarrow> I s \<Longrightarrow> (\<And>x s'. I s' \<Longrightarrow> Q x s') \<Longrightarrow> wp m Q s"
  using wp_mono [of m "\<lambda>_. I" s Q] by (auto dest: keepsD)

lemma keeps_snd: "keeps I m \<Longrightarrow> I s \<Longrightarrow> I (snd (run_state m s))"
  by (cases "run_state m s") (auto simp: keeps_def wp_def)

lemma keeps_return [simp]: "keeps I (ret x)"
  by (simp add: keeps_def wp_return)

lemma keeps_bind: "keeps I m \<Longrightarrow> (\<And>x. keeps I (f x)) \<Longrightarrow> keeps I (State_Monad.bind m f)"
  by (auto simp: keeps_def wp_bind intro: wp_mono)

text \<open>Doing something for every element of a list, until one of them says to stop.\<close>

fun each :: "('a \<Rightarrow> ('s, bool) state) \<Rightarrow> 'a list \<Rightarrow> ('s, bool) state" where
  "each f [] = ret True"
| "each f (x # xs) = do { go_on \<leftarrow> f x; if go_on then each f xs else ret False }"

lemma each_keeps: "(\<And>x. x \<in> set xs \<Longrightarrow> keeps I (f x)) \<Longrightarrow> keeps I (each f xs)"
proof (induction xs)
  case (Cons x xs)
  then have "keeps I (f x)" "keeps I (each f xs)" by auto
  then show ?case by (auto simp: keeps_def wp_bind wp_if wp_return intro: wp_mono)
qed simp

end
