(* ===== verification/CoreClient.thy ===== *)
theory CoreClient
  imports Prelude Go_Strings
begin

text \<open>
  The client of the MatrixWhale core that the adapters share (\<open>adapters/common/core/client.go\<close>) and the
  JMA adapter's wrapper around it (\<open>jma_adapter/app/client/core_client.go\<close>): posting features, decoding
  the acknowledgement, and checking it.  The HTTP exchange and the JSON decoder are the environment's:
  an exchange is either an error or a status with a body, which may break off.
\<close>

text \<open>What an adapter reports of one poll beside the features it produced.\<close>

record poll_meta =
  pm_fetched_at :: string
  pm_http_status :: int
  pm_feature_count :: nat
  pm_bytes :: nat
  pm_feed_url :: string
  pm_backfill :: bool
  pm_error :: string
  pm_format :: string

record ack =
  ack_received :: "int option"
  ack_deduped :: "int option"
  ack_written :: "int option"
  ack_dropped :: "int option"
  ack_message :: "string option"

datatype http_exchange =
    DoError string
  | Response (resp_status: int) (resp_body: string) (resp_broken: bool)

definition maxResponseBodySize :: nat where
  "maxResponseBodySize = 2 ^ 20"

text \<open>\<open>readLimited\<close>: a body of more than the limit is an error, also when it breaks off only later.\<close>

definition read_limited :: "string \<Rightarrow> bool \<Rightarrow> nat \<Rightarrow> string + string" where
  "read_limited content broken limit =
     (if broken \<and> length content < limit + 1 then Inl ''read error''
      else if limit < length (take (limit + 1) content) then
        Inl (''response body exceeds '' @ show_nat limit @ '' bytes'')
      else Inr content)"

definition response_snippet :: "string \<Rightarrow> string" where
  "response_snippet body = (if 200 < length body then take 200 body else body)"

text \<open>\<open>Client.Send\<close> from the HTTP exchange on.\<close>

definition send :: "(string \<Rightarrow> ack option) \<Rightarrow> http_exchange \<Rightarrow> string + ack" where
  "send decode_ack x =
     (case x of
        DoError e \<Rightarrow> Inl (''send data to Matrix Whale: '' @ e)
      | Response status content broken \<Rightarrow>
          (case read_limited content broken maxResponseBodySize of
             Inl e \<Rightarrow> Inl (''read Matrix Whale response: '' @ e)
           | Inr body \<Rightarrow>
               if status < 200 \<or> 300 \<le> status then
                 Inl (''Matrix Whale request failed with status '' @ show_int status @ '': '' @ response_snippet body)
               else
                 (let trimmed = trim_space body in
                  if trimmed = [] \<or> hd trimmed \<noteq> CHR ''{'' then
                    Inl (''Matrix Whale response is not a JSON object: '' @ response_snippet body)
                  else (case decode_ack trimmed of
                          None \<Rightarrow> Inl ''invalid Matrix Whale response JSON''
                        | Some ack \<Rightarrow> Inr ack))))"

text \<open>\<open>ValidateAck\<close>; \<open>None\<close> is Go's nil error.\<close>

fun check_counts :: "int list \<Rightarrow> int \<Rightarrow> string option" where
  "check_counts [] sent = None"
| "check_counts (c # cs) sent =
     (if c < 0 then Some ''Matrix Whale response contains a negative count''
      else if sent < c then
        Some (''Matrix Whale response count '' @ show_int c @ '' exceeds sent feature count '' @ show_int sent)
      else check_counts cs sent)"

definition validate_ack :: "ack \<Rightarrow> int \<Rightarrow> string option" where
  "validate_ack ack sent =
     (case (ack_received ack, ack_deduped ack, ack_written ack, ack_dropped ack, ack_message ack) of
        (Some received, Some deduped, Some written, Some dropped, Some message) \<Rightarrow>
          (case check_counts [received, deduped, written, dropped] sent of
             Some e \<Rightarrow> Some e
           | None \<Rightarrow>
               if received \<noteq> sent then
                 Some (''Matrix Whale received count '' @ show_int received @ '' does not match sent feature count '' @ show_int sent)
               else if s64 (s64 (deduped + written) + dropped) \<noteq> received then
                 Some ''Matrix Whale response counts do not sum to received''
               else None)
      | _ \<Rightarrow> Some ''Matrix Whale response is missing a required field'')"

section \<open>The JMA wrapper\<close>

text \<open>Of a fetch result, the wrapper looks only at the HTTP status and at whether an error is recorded.\<close>

record sent_result =
  sr_status :: int
  sr_has_error :: bool

definition send_index :: "(string \<Rightarrow> ack option) \<Rightarrow> http_exchange \<Rightarrow> nat \<Rightarrow> string + ack" where
  "send_index decode_ack x n =
     ebind (send decode_ack x) (\<lambda>ack.
       case validate_ack ack (int n) of Some e \<Rightarrow> Inl e | None \<Rightarrow> Inr ack)"

text \<open>
  \<open>SendMessages\<close>.  The code dereferences the dropped count and the message; a nil pointer there would
  panic, which is \<open>None\<close> here.
\<close>

definition send_messages ::
    "(string \<Rightarrow> ack option) \<Rightarrow> http_exchange \<Rightarrow> sent_result list \<Rightarrow> (string + ack) option" where
  "send_messages decode_ack x results =
     (case send decode_ack x of
        Inl e \<Rightarrow> Some (Inl e)
      | Inr ack \<Rightarrow>
          (case validate_ack ack (int (length results)) of
             Some e \<Rightarrow> Some (Inl e)
           | None \<Rightarrow>
               (case ack_dropped ack of
                  None \<Rightarrow> Some (Inr ack)
                | Some dropped \<Rightarrow>
                    if 0 < dropped \<and> list_ex (\<lambda>r. \<not> sr_has_error r \<and> sr_status r = 200) results then
                      (case ack_message ack of
                         None \<Rightarrow> None
                       | Some m \<Rightarrow> Some (Inl (''core dropped '' @ show_int dropped @ '' features: '' @ m)))
                    else Some (Inr ack))))"

text \<open>\<open>GetPending\<close>: the decoded items, each an item URL with its feed URL.\<close>

definition get_pending ::
    "(string \<Rightarrow> (string \<times> string) list option) \<Rightarrow> http_exchange \<Rightarrow> string + (string \<times> string) list" where
  "get_pending decode_pending x =
     (case x of
        DoError e \<Rightarrow> Inl (''get pending items: '' @ e)
      | Response status content broken \<Rightarrow>
          if status < 200 \<or> 300 \<le> status then Inl (''get pending returned status '' @ show_int status)
          else (case decode_pending content of
                  None \<Rightarrow> Inl ''decode pending response''
                | Some items \<Rightarrow> Inr items))"

section \<open>What an accepted acknowledgement says\<close>

lemma check_counts_None: "check_counts cs sent = None \<longleftrightarrow> (\<forall>c \<in> set cs. 0 \<le> c \<and> c \<le> sent)"
  by (induction cs) auto

lemma validate_ack_None_iff:
  assumes "0 \<le> sent" "sent < 2 ^ 61"
  shows "validate_ack ack sent = None \<longleftrightarrow>
    (\<exists>d w x m. ack = \<lparr>ack_received = Some sent, ack_deduped = Some d, ack_written = Some w,
                       ack_dropped = Some x, ack_message = Some m\<rparr>
       \<and> 0 \<le> d \<and> 0 \<le> w \<and> 0 \<le> x \<and> d + w + x = sent)"
    (is "?L \<longleftrightarrow> ?R")
proof
  assume v: ?L
  then obtain r d w x m where ack: "ack = \<lparr>ack_received = Some r, ack_deduped = Some d, ack_written = Some w,
      ack_dropped = Some x, ack_message = Some m\<rparr>"
    by (cases ack) (auto simp: validate_ack_def split: option.splits)
  have c: "check_counts [r, d, w, x] sent = None" "r = sent" "s64 (s64 (d + w) + x) = r"
    using v by (auto simp: ack validate_ack_def split: option.splits if_splits)
  then have b: "0 \<le> d" "d \<le> sent" "0 \<le> w" "w \<le> sent" "0 \<le> x" "x \<le> sent"
    by (auto simp only: check_counts_None list.set)
  have "s64 (d + w) = d + w" using b assms by (intro s64_id) (simp add: in_s64_def)
  moreover have "s64 (d + w + x) = d + w + x" using b assms by (intro s64_id) (simp add: in_s64_def)
  ultimately show ?R using ack b c by auto
next
  assume ?R
  then obtain d w x m where ack: "ack = \<lparr>ack_received = Some sent, ack_deduped = Some d, ack_written = Some w,
      ack_dropped = Some x, ack_message = Some m\<rparr>" and b: "0 \<le> d" "0 \<le> w" "0 \<le> x" "d + w + x = sent" by blast
  have "check_counts [sent, d, w, x] sent = None" using b assms by (simp only: check_counts_None) auto
  moreover have "s64 (d + w) = d + w" "s64 (d + w + x) = d + w + x"
    using b assms by (auto intro!: s64_id simp: in_s64_def)
  ultimately show ?L using ack b(4) by (simp only: validate_ack_def) simp
qed

section \<open>Properties\<close>

text \<open>SendMessages never dereferences a nil field of the acknowledgement, and when it reports success for a batch
  that holds a valid telegram, core has accounted for exactly the batch and dropped nothing of it.\<close>

theorem send_messages_success:
  assumes "int (length results) < 2 ^ 61"
  shows "send_messages decode_ack x results \<noteq> None
    \<and> (\<forall>ack. send_messages decode_ack x results = Some (Inr ack) \<longrightarrow>
         (\<exists>r \<in> set results. \<not> sr_has_error r \<and> sr_status r = 200) \<longrightarrow>
         ack_received ack = Some (int (length results)) \<and> ack_dropped ack = Some 0
         \<and> (\<exists>d w. ack_deduped ack = Some d \<and> ack_written ack = Some w \<and> d + w = int (length results)))"
proof (cases "send decode_ack x")
  case (Inl e)
  then show ?thesis by (simp add: send_messages_def)
next
  case (Inr a)
  show ?thesis
  proof (cases "validate_ack a (int (length results))")
    case None
    then obtain d w y m where "a = \<lparr>ack_received = Some (int (length results)), ack_deduped = Some d,
        ack_written = Some w, ack_dropped = Some y, ack_message = Some m\<rparr>"
      "0 \<le> d" "0 \<le> w" "0 \<le> y" "d + w + y = int (length results)"
      using validate_ack_None_iff [of "int (length results)" a] assms by auto
    then show ?thesis using Inr None by (auto simp: send_messages_def list_ex_iff)
  next
    case (Some e)
    then show ?thesis using Inr by (simp add: send_messages_def)
  qed
qed

definition demo_ack :: ack where
  "demo_ack = \<lparr>ack_received = Some 1, ack_deduped = Some 0, ack_written = Some 1, ack_dropped = Some 0, ack_message = Some ''ok''\<rparr>"

theorem send_messages_success_witness:
  "send_messages (\<lambda>_. Some demo_ack) (Response 200 ''{}'' False) [\<lparr>sr_status = 200, sr_has_error = False\<rparr>] = Some (Inr demo_ack)
   \<and> ack_dropped demo_ack = Some 0"
proof -
  have "trim_space ''{}'' = ''{}''" by code_simp
  then have "send (\<lambda>_. Some demo_ack) (Response 200 ''{}'' False) = Inr demo_ack"
    by (simp add: send_def read_limited_def maxResponseBodySize_def)
  then have s: "send_messages (\<lambda>_. Some demo_ack) (Response 200 ''{}'' False) [\<lparr>sr_status = 200, sr_has_error = False\<rparr>] = Some (Inr demo_ack)"
    by (simp add: send_messages_def validate_ack_def demo_ack_def s64_def)
  with send_messages_success [of "[\<lparr>sr_status = 200, sr_has_error = False\<rparr>]" "\<lambda>_. Some demo_ack" "Response 200 ''{}'' False"]
  show ?thesis by simp
qed

end
