(* ===== verification/JmaUrl.thy ===== *)
theory JmaUrl
  imports Prelude Go_Strings
begin

text \<open>
  The allowlist of the JMA adapter (\<open>jma_adapter/app/client/url_validator.go\<close>) and the choice of item URLs
  from an Atom feed (the second half of \<open>ParseAtomFeed\<close> in \<open>jma_adapter/app/parser/atom.go\<close>).  Parsing a
  URL is \<open>net/url\<close>'s and decoding XML is \<open>encoding/xml\<close>'s: \<open>url_parser\<close> and the decoded entries are
  arguments.
\<close>

record purl =
  u_scheme :: string
  u_hostname :: string
  u_has_user :: bool
  u_port :: string
  u_raw_query :: string
  u_fragment :: string
  u_path :: string
  u_raw_path :: string

datatype url_err =
    ErrParseURL
  | ErrInvalidScheme
  | ErrInvalidHost
  | ErrCredentialsNotAllowed
  | ErrPortNotAllowed
  | ErrQueryNotAllowed
  | ErrFragmentNotAllowed
  | ErrPathTraversal
  | ErrUnallowedFeedPath
  | ErrUnallowedDataPath

type_synonym url_parser = "string \<Rightarrow> purl option"

record url_validator =
  allowed_host :: string
  allow_http :: bool

definition validate_common :: "url_parser \<Rightarrow> url_validator \<Rightarrow> string \<Rightarrow> url_err + purl" where
  "validate_common parse v raw =
     (case parse raw of
        None \<Rightarrow> Inl ErrParseURL
      | Some u \<Rightarrow>
          if u_scheme u = ''http'' \<and> \<not> allow_http v then Inl ErrInvalidScheme
          else if u_scheme u \<noteq> ''http'' \<and> u_scheme u \<noteq> ''https'' then Inl ErrInvalidScheme
          else if allowed_host v \<noteq> '''' \<and> \<not> equal_fold (u_hostname u) (allowed_host v) then Inl ErrInvalidHost
          else if u_has_user u then Inl ErrCredentialsNotAllowed
          else if \<not> allow_http v \<and> u_port u \<noteq> '''' then Inl ErrPortNotAllowed
          else if u_raw_query u \<noteq> '''' then Inl ErrQueryNotAllowed
          else if u_fragment u \<noteq> '''' then Inl ErrFragmentNotAllowed
          else if contains_str (u_path u) ''..'' \<or> contains_str (u_raw_path u) ''..''
                  \<or> contains_str raw ''%2e'' \<or> contains_str raw ''%2E'' then Inl ErrPathTraversal
          else Inr u)"

definition allowed_feed_paths :: "string list" where
  "allowed_feed_paths =
     [''/developer/xml/feed/extra.xml'', ''/developer/xml/feed/extra_l.xml'', ''/developer/xml/feed/eqvol.xml'',
      ''/developer/xml/feed/eqvol_l.xml'', ''/developer/xml/feed/regular.xml'', ''/developer/xml/feed/regular_l.xml'',
      ''/developer/xml/feed/other.xml'', ''/developer/xml/feed/other_l.xml'']"

text \<open>The regular expression \<open>^/developer/xml/data/[A-Za-z0-9_.-]+\.xml$\<close>.\<close>

definition data_prefix :: string where "data_prefix = ''/developer/xml/data/''"

definition name_char :: "char \<Rightarrow> bool" where
  "name_char c \<longleftrightarrow>
     (let n = of_char c :: nat in (65 \<le> n \<and> n \<le> 90) \<or> (97 \<le> n \<and> n \<le> 122) \<or> (48 \<le> n \<and> n \<le> 57))
     \<or> c \<in> {CHR ''_'', CHR ''.'', CHR ''-''}"

definition data_path_ok :: "string \<Rightarrow> bool" where
  "data_path_ok path =
     (case cut_prefix path data_prefix of
        None \<Rightarrow> False
      | Some f \<Rightarrow> 4 < length f \<and> has_suffix f ''.xml'' \<and> list_all name_char (take (length f - 4) f))"

definition validate_feed_url :: "url_parser \<Rightarrow> url_validator \<Rightarrow> string \<Rightarrow> url_err + purl" where
  "validate_feed_url parse v raw =
     ebind (validate_common parse v raw) (\<lambda>u.
       if u_path u \<notin> set allowed_feed_paths then Inl ErrUnallowedFeedPath else Inr u)"

definition validate_data_url :: "url_parser \<Rightarrow> url_validator \<Rightarrow> string \<Rightarrow> url_err + purl" where
  "validate_data_url parse v raw =
     ebind (validate_common parse v raw) (\<lambda>u.
       if \<not> data_path_ok (u_path u) then Inl ErrUnallowedDataPath else Inr u)"

section \<open>Items of an Atom feed\<close>

record atom_link =
  link_type :: string
  link_href :: string

record atom_entry =
  entry_id :: string
  entry_title :: string
  entry_updated :: string
  entry_published :: string
  entry_links :: "atom_link list"

record index_item =
  ix_item_url :: string
  ix_feed_url :: string
  ix_guid :: "string option"
  ix_title :: "string option"
  ix_published :: "string option"

fun first_link :: "(atom_link \<Rightarrow> bool) \<Rightarrow> atom_link list \<Rightarrow> string" where
  "first_link p [] = ''''"
| "first_link p (l # ls) = (if p l then link_href l else first_link p ls)"

definition entry_url :: "atom_entry \<Rightarrow> string" where
  "entry_url e =
     (let itemURL = first_link (\<lambda>l. link_type l = ''application/xml'' \<and> link_href l \<noteq> '''') (entry_links e);
          itemURL = (if itemURL = '''' then first_link (\<lambda>l. has_suffix (link_href l) ''.xml'') (entry_links e) else itemURL);
          itemURL = (if itemURL = '''' \<and> has_prefix (entry_id e) ''http'' \<and> has_suffix (entry_id e) ''.xml''
                     then entry_id e else itemURL)
      in trim_space itemURL)"

definition optional_text :: "string \<Rightarrow> string option" where
  "optional_text s = (if s \<noteq> '''' then Some s else None)"

text \<open>
  The environment of the feed parser: the URL parser, the validator if there is one, and whether
  \<open>time.Parse\<close> accepts a string as RFC 3339 (with or without fractional seconds).
\<close>

record atom_env =
  ae_parse :: url_parser
  ae_validator :: "url_validator option"
  ae_rfc3339 :: "string \<Rightarrow> bool"

definition valid_timestamp :: "atom_env \<Rightarrow> string \<Rightarrow> bool" where
  "valid_timestamp E ts = (let ts = trim_space ts in ts \<noteq> '''' \<and> ae_rfc3339 E ts)"

definition make_item :: "atom_env \<Rightarrow> string \<Rightarrow> atom_entry \<Rightarrow> string \<Rightarrow> index_item" where
  "make_item E feedURL e itemURL =
     (let pubTime = (if entry_updated e = '''' then entry_published e else entry_updated e)
      in \<lparr>ix_item_url = itemURL, ix_feed_url = feedURL, ix_guid = optional_text (entry_id e),
          ix_title = optional_text (entry_title e),
          ix_published = (if pubTime \<noteq> '''' \<and> valid_timestamp E pubTime then Some pubTime else None)\<rparr>)"

definition url_rejected :: "atom_env \<Rightarrow> string \<Rightarrow> bool" where
  "url_rejected E itemURL =
     (case ae_validator E of
        None \<Rightarrow> False
      | Some v \<Rightarrow> (case validate_data_url (ae_parse E) v itemURL of Inl _ \<Rightarrow> True | Inr _ \<Rightarrow> False))"

fun atom_items :: "atom_env \<Rightarrow> string \<Rightarrow> atom_entry list \<Rightarrow> string list \<Rightarrow> index_item list" where
  "atom_items E feedURL [] seen = []"
| "atom_items E feedURL (e # es) seen =
     (let itemURL = entry_url e in
      if itemURL = '''' \<or> (\<not> has_prefix itemURL ''http://'' \<and> \<not> has_prefix itemURL ''https://'') then
        atom_items E feedURL es seen
      else if itemURL \<in> set seen then atom_items E feedURL es seen
      else if url_rejected E itemURL then atom_items E feedURL es seen
      else make_item E feedURL e itemURL # atom_items E feedURL es (itemURL # seen))"

section \<open>What an accepted URL is\<close>

lemma validate_common_Inr:
  "validate_common parse v raw = Inr u \<Longrightarrow>
    parse raw = Some u \<and> (u_scheme u = ''https'' \<or> (allow_http v \<and> u_scheme u = ''http''))
    \<and> (allowed_host v = '''' \<or> equal_fold (u_hostname u) (allowed_host v)) \<and> \<not> u_has_user u
    \<and> (allow_http v \<or> u_port u = '''') \<and> u_raw_query u = '''' \<and> u_fragment u = '''' \<and> \<not> contains_str (u_path u) ''..''"
  by (auto simp: validate_common_def split: option.splits if_splits)

lemma data_path_ok_shape:
  assumes "data_path_ok path"
  shows "\<exists>name. path = data_prefix @ name @ ''.xml'' \<and> name \<noteq> [] \<and> list_all name_char name"
proof -
  obtain f where f: "cut_prefix path data_prefix = Some f" "4 < length f" "has_suffix f ''.xml''"
    "list_all name_char (take (length f - 4) f)"
    using assms by (auto simp: data_path_ok_def split: option.splits)
  have "f = take (length f - 4) f @ drop (length f - 4) f" by simp
  also have "drop (length f - 4) f = ''.xml''" using f(3) by (simp add: has_suffix_def numeral_eq_Suc)
  finally have "f = take (length f - 4) f @ ''.xml''" .
  moreover have "path = data_prefix @ f"
    using f(1) by (auto simp: cut_prefix_def has_prefix_def split: if_splits)
      (metis append_take_drop_id)
  ultimately have "path = data_prefix @ take (length f - 4) f @ ''.xml''" by simp
  with f(2,4) show ?thesis by (intro exI [of _ "take (length f - 4) f"]) auto
qed

lemma name_char_no_slash: "name_char c \<Longrightarrow> c \<noteq> CHR ''/''"
  by (auto simp: name_char_def Let_def)

lemma atom_items_good:
  "distinct (map ix_item_url (atom_items E feedURL es seen))
   \<and> set (map ix_item_url (atom_items E feedURL es seen)) \<inter> set seen = {}
   \<and> (\<forall>i \<in> set (atom_items E feedURL es seen). ix_feed_url i = feedURL \<and> \<not> url_rejected E (ix_item_url i))"
proof (induction E feedURL es seen rule: atom_items.induct)
  case (2 E feedURL e es seen)
  let ?u = "entry_url e"
  have "ix_item_url (make_item E feedURL e u) = u" "ix_feed_url (make_item E feedURL e u) = feedURL" for u
    by (simp_all add: make_item_def Let_def)
  with 2 show ?case by (simp add: Let_def)
qed simp

section \<open>Properties\<close>

text \<open>C12: An accepted data URL is an https URL of the allowed host, without credentials, port, query or fragment, and
  its path names one file directly inside /developer/xml/data/: nothing in it can climb out of there.\<close>

theorem accepted_data_url:
  assumes "validate_data_url parse v raw = Inr u" "\<not> allow_http v" "allowed_host v \<noteq> ''''"
  shows "parse raw = Some u \<and> u_scheme u = ''https'' \<and> equal_fold (u_hostname u) (allowed_host v) \<and> \<not> u_has_user u
    \<and> u_port u = '''' \<and> u_raw_query u = '''' \<and> u_fragment u = '''' \<and> \<not> sublist ''..'' (u_path u)
    \<and> (\<exists>name. u_path u = ''/developer/xml/data/'' @ name @ ''.xml'' \<and> name \<noteq> [] \<and> CHR ''/'' \<notin> set name)"
proof -
  have c: "validate_common parse v raw = Inr u" and p: "data_path_ok (u_path u)"
    using assms(1) by (auto simp: validate_data_url_def ebind_eq_Inr split: if_splits)
  obtain name where "u_path u = data_prefix @ name @ ''.xml''" "name \<noteq> []" "list_all name_char name"
    using data_path_ok_shape [OF p] by blast
  then have "\<exists>name. u_path u = ''/developer/xml/data/'' @ name @ ''.xml'' \<and> name \<noteq> [] \<and> CHR ''/'' \<notin> set name"
    unfolding data_prefix_def by (intro exI [of _ name]) (auto simp: list_all_iff dest: name_char_no_slash)
  with validate_common_Inr [OF c] assms(2,3) show ?thesis by (auto simp: contains_str_iff)
qed

definition jma_validator :: url_validator where
  "jma_validator = \<lparr>allowed_host = ''www.data.jma.go.jp'', allow_http = False\<rparr>"

definition demo_url :: purl where
  "demo_url = \<lparr>u_scheme = ''https'', u_hostname = ''WWW.data.jma.go.jp'', u_has_user = False, u_port = '''',
     u_raw_query = '''', u_fragment = '''', u_path = ''/developer/xml/data/a_1.xml'', u_raw_path = ''''\<rparr>"

lemma demo_url_valid: "validate_data_url (\<lambda>_. Some demo_url) jma_validator ''x'' = Inr demo_url"
  by code_simp

theorem accepted_data_url_witness:
  "u_scheme demo_url = ''https'' \<and> \<not> sublist ''..'' (u_path demo_url)"
  using accepted_data_url [OF demo_url_valid] by (simp add: jma_validator_def)

text \<open>The items taken from a feed are distinct, carry the URL of the feed, and with a validator in place each of
  them is an accepted data URL.\<close>

theorem feed_items_distinct_and_valid:
  "distinct (map ix_item_url (atom_items E feedURL es []))
   \<and> (\<forall>i \<in> set (atom_items E feedURL es []). ix_feed_url i = feedURL
        \<and> (\<forall>v. ae_validator E = Some v \<longrightarrow> (\<exists>u. validate_data_url (ae_parse E) v (ix_item_url i) = Inr u)))"
  using atom_items_good [of E feedURL es "[]"]
  by (auto simp: url_rejected_def split: option.splits sum.splits) (metis sum.exhaust)

definition demo_atom_env :: atom_env where
  "demo_atom_env = \<lparr>ae_parse = (\<lambda>_. Some demo_url), ae_validator = Some jma_validator, ae_rfc3339 = (\<lambda>_. True)\<rparr>"

definition demo_entry :: atom_entry where
  "demo_entry = \<lparr>entry_id = ''id'', entry_title = '''', entry_updated = '''', entry_published = '''',
     entry_links = [\<lparr>link_type = ''application/xml'', link_href = ''https://h/a.xml''\<rparr>]\<rparr>"

theorem feed_items_distinct_and_valid_witness:
  "map ix_item_url (atom_items demo_atom_env ''f'' [demo_entry, demo_entry] []) = [''https://h/a.xml'']
   \<and> distinct (map ix_item_url (atom_items demo_atom_env ''f'' [demo_entry, demo_entry] []))"
proof -
  have "map ix_item_url (atom_items demo_atom_env ''f'' [demo_entry, demo_entry] []) = [''https://h/a.xml'']" by code_simp
  with feed_items_distinct_and_valid [of demo_atom_env "''f''" "[demo_entry, demo_entry]"] show ?thesis by simp
qed

end
