(* ===== verification/JmaStore.thy ===== *)
theory JmaStore
  imports Actions Poll CoreClient JmaUrl "HOL-Library.AList" "HOL-Library.List_Lexorder" "HOL-Library.Char_ord"
begin

text \<open>
  The JMA adapter's persistent state (\<open>jma_adapter/app/state/state.go\<close>): the daily byte budget, the
  history of fetched URLs, the feed schedules and the global backoff, and the spool of undelivered items.
  The state of the adapter holds the store's memory beside the contents of its files; every operation
  that writes consumes one step of the environment, which decides whether the write succeeds.  The trace
  records the durable effects and the requests in order, newest first, so that what holds of every trace
  holds of whatever a crash leaves behind.
\<close>

datatype jerr =
    ErrDailyByteLimitExceeded
  | ErrNegativeAmount
  | ErrIntegerOverflow
  | ErrStatePersistence
  | ErrClientPersistence
  | ErrGlobalRetryActive
  | ErrUpstream (upstream_status: int) (upstream_retry: int) (upstream_has_retry: bool)
  | ErrItemTooLarge
  | ErrRedirectNotAllowed
  | ErrBadURL url_err
  | ErrCancelled
  | ErrTransport
  | ErrCorruptedState
  | ErrTelegram string
  | ErrOS

text \<open>\<open>ByteBudget\<close>, its date as the number of the UTC day.\<close>

record byte_budget =
  bb_date :: int
  bb_used :: int

record feed_schedule =
  fs_last_attempt :: int
  fs_next_allowed :: int
  fs_last_modified :: string
  fs_etag :: string
  fs_last_polled :: int
  fs_errors :: int

record feed_state =
  fs_feeds :: "string \<Rightarrow> feed_schedule option"
  fs_last_long :: int
  fs_backoff :: int

text \<open>An error text is represented by the error it is printed from.\<close>

record spool_item =
  sp_id :: string
  sp_item_url :: string
  sp_feed_url :: string
  sp_fetched_at :: int
  sp_status :: int
  sp_raw :: "string option"
  sp_error :: "jerr option"
  sp_message :: "string option"
  sp_attempts :: int
  sp_last_attempt :: "int option"

datatype spool_file = SpoolOk spool_item | SpoolCorrupt

datatype 'a stored = Missing | Unreadable | Stored 'a

datatype request = FeedReq | DataReq

datatype event =
    EvBudget byte_budget
  | EvFeeds "string \<Rightarrow> feed_schedule option"
  | EvBackoff int
  | EvFetched string
  | EvSpooled string
  | EvUnspooled string string
  | EvQuarantined string
  | EvHttp request int int string
  | EvSent string int
  | EvCore
  | EvFatal

record jma =
  clock :: int
  tick :: nat
  d_budget :: "byte_budget stored"
  d_feeds :: "feed_state stored"
  d_history :: "string stored"
  d_spool :: "(string \<times> spool_file) list"
  d_quarantine :: "(string \<times> spool_file) list"
  budget :: byte_budget
  feeds :: feed_state
  fetched :: "string \<Rightarrow> bool"
  last_request :: int
  retry_until :: int
  fatal :: "jerr option"
  trace :: "event list"

text \<open>
  The environment: how far the clock moves before each reading, which writes and reads succeed, how many
  bytes of a failing append reach the file all the same, which waits are cancelled, what the HTTP exchanges answer, the random numbers, and the library functions the
  code calls.  SHA-256, JSON, XML and gzip are among the latter.
\<close>

record http_response =
  r_status :: int
  r_hdr :: header
  r_wire :: string
  r_wire_broken :: bool
  r_gz_header :: "bool \<times> nat"
  r_gz_plain :: string
  r_gz_broken :: bool
  r_gz_wire :: nat

record jma_env =
  e_delta :: "nat \<Rightarrow> nat"
  e_ok :: "nat \<Rightarrow> bool"
  e_torn :: "nat \<Rightarrow> nat"
  e_cancelled :: "nat \<Rightarrow> bool"
  e_http :: "nat \<Rightarrow> http_response option"
  e_core :: "nat \<Rightarrow> http_exchange"
  e_rng :: "nat \<Rightarrow> int \<Rightarrow> int"
  e_parse_time :: "string \<Rightarrow> int option"
  e_sha256 :: "string \<Rightarrow> byte list"
  e_decode_ack :: "string \<Rightarrow> ack option"
  e_decode_pending :: "string \<Rightarrow> (string \<times> string) list option"
  e_atom :: "string \<Rightarrow> string \<Rightarrow> atom_entry list option"
  e_atom_env :: atom_env
  e_telegram :: "string \<Rightarrow> string \<Rightarrow> string option \<times> jerr option"
  e_marshal :: "string \<Rightarrow> string option"
  e_unmarshal :: "string \<Rightarrow> string option"
  daily_limit :: int
  max_item_bytes :: int
  request_interval :: int
  poll_interval :: int
  long_poll_interval :: int
  cfg_feeds :: "string list"
  cfg_long_feeds :: "string list"
  validator :: url_validator

section \<open>Steps of the environment\<close>

definition zero_time :: int where
  "zero_time = - 62135596800 * 1000000000"

definition utc_day :: "int \<Rightarrow> int" where
  "utc_day t = t div (86400 * 1000000000)"

definition step :: "(nat \<Rightarrow> 'a) \<Rightarrow> (jma, 'a) state" where
  "step f = State (\<lambda>s. (f (tick s), s\<lparr>tick := tick s + 1\<rparr>))"

text \<open>\<open>time.Now()\<close>.\<close>

definition now_op :: "jma_env \<Rightarrow> (jma, int) state" where
  "now_op E = State (\<lambda>s. let t = clock s + int (e_delta E (tick s)) in (t, s\<lparr>clock := t, tick := tick s + 1\<rparr>))"

definition emit :: "event \<Rightarrow> (jma, unit) state" where
  "emit e = modify (\<lambda>s. s\<lparr>trace := e # trace s\<rparr>)"

text \<open>\<open>atomicWriteFile\<close>: write to a temporary file, sync, rename; the file changes only if all of it succeeds.\<close>

definition atomic_write :: "jma_env \<Rightarrow> (jma \<Rightarrow> jma) \<Rightarrow> (jma, bool) state" where
  "atomic_write E upd = do {
     ok \<leftarrow> step (e_ok E);
     if ok then do { modify upd; ret True } else ret False
   }"

section \<open>Byte budget\<close>

definition persist_budget :: "jma_env \<Rightarrow> (jma, bool) state" where
  "persist_budget E = do {
     b \<leftarrow> gets budget;
     ok \<leftarrow> atomic_write E (\<lambda>s. s\<lparr>d_budget := Stored b\<rparr>);
     if ok then do { emit (EvBudget b); ret True } else ret False
   }"

definition load_byte_budget :: "jma_env \<Rightarrow> (jma, jerr option) state" where
  "load_byte_budget E = do {
     f \<leftarrow> gets d_budget;
     case f of
       Missing \<Rightarrow> do {
         t \<leftarrow> now_op E;
         modify (\<lambda>s. s\<lparr>budget := \<lparr>bb_date = utc_day t, bb_used = 0\<rparr>\<rparr>);
         ok \<leftarrow> persist_budget E;
         ret (if ok then None else Some ErrOS)
       }
     | Unreadable \<Rightarrow> ret (Some ErrCorruptedState)
     | Stored bb \<Rightarrow>
         if bb_used bb < 0 then ret (Some ErrCorruptedState)
         else do {
           t \<leftarrow> now_op E;
           modify (\<lambda>s. s\<lparr>budget := (if bb_date bb \<noteq> utc_day t then \<lparr>bb_date = utc_day t, bb_used = 0\<rparr> else bb)\<rparr>);
           ret None
         }
   }"

definition reserve :: "jma_env \<Rightarrow> int \<Rightarrow> (jma, jerr option) state" where
  "reserve E estimatedBytes =
     (if estimatedBytes < 0 then ret (Some ErrNegativeAmount)
      else do {
        t \<leftarrow> now_op E;
        b \<leftarrow> gets budget;
        let b = (if bb_date b \<noteq> utc_day t then \<lparr>bb_date = utc_day t, bb_used = 0\<rparr> else b);
        modify (\<lambda>s. s\<lparr>budget := b\<rparr>);
        if s64 (max_int64 - bb_used b) < estimatedBytes then ret (Some ErrIntegerOverflow)
        else if daily_limit E < s64 (bb_used b + estimatedBytes) then ret (Some ErrDailyByteLimitExceeded)
        else do {
          modify (\<lambda>s. s\<lparr>budget := b\<lparr>bb_used := s64 (bb_used b + estimatedBytes)\<rparr>\<rparr>);
          ok \<leftarrow> persist_budget E;
          if ok then ret None
          else do { modify (\<lambda>s. s\<lparr>budget := b\<rparr>); ret (Some ErrStatePersistence) }
        }
      })"

definition commit :: "jma_env \<Rightarrow> int \<Rightarrow> int \<Rightarrow> (jma, jerr option) state" where
  "commit E reserved actual =
     (if reserved < 0 \<or> actual < 0 then ret (Some ErrNegativeAmount)
      else do {
        t \<leftarrow> now_op E;
        old \<leftarrow> gets budget;
        let newUsed = s64 (bb_used old - reserved);
        if bb_date old = utc_day t \<and> s64 (max_int64 - newUsed) < actual then ret (Some ErrIntegerOverflow)
        else do {
          let sum = s64 (newUsed + actual);
          let b = (if bb_date old \<noteq> utc_day t then \<lparr>bb_date = utc_day t, bb_used = actual\<rparr>
                   else old\<lparr>bb_used := (if sum < 0 then 0 else sum)\<rparr>);
          modify (\<lambda>s. s\<lparr>budget := b\<rparr>);
          ok \<leftarrow> persist_budget E;
          if ok then ret None
          else do { modify (\<lambda>s. s\<lparr>budget := old\<rparr>); ret (Some ErrStatePersistence) }
        }
      })"

definition get_bytes_used :: "(jma, int) state" where
  "get_bytes_used = gets (\<lambda>s. bb_used (budget s))"

section \<open>History of fetched URLs\<close>

text \<open>
  The history file is kept as its bytes: one URL to a line.  Reading it back, every piece between two
  newlines is trimmed, and what is not empty counts as a fetched URL.
\<close>

definition newline :: char where
  "newline = CHR 0x0A"

definition history_entries :: "string \<Rightarrow> string list" where
  "history_entries data = (if data = '''' then [] else filter (\<lambda>l. l \<noteq> '''') (map trim_space (split_at newline data)))"

definition history_bytes :: "jma \<Rightarrow> string" where
  "history_bytes s = (case d_history s of Stored data \<Rightarrow> data | _ \<Rightarrow> '''')"

definition load_history :: "jma_env \<Rightarrow> (jma, jerr option) state" where
  "load_history E = do {
     f \<leftarrow> gets d_history;
     case f of
       Unreadable \<Rightarrow> ret (Some ErrCorruptedState)
     | _ \<Rightarrow> do {
         let lines = (case f of Stored data \<Rightarrow> history_entries data | _ \<Rightarrow> []);
         modify (\<lambda>s. s\<lparr>fetched := (\<lambda>u. fetched s u \<or> u \<in> set lines)\<rparr>);
         ok \<leftarrow> step (e_ok E);
         if ok then do {
           modify (\<lambda>s. s\<lparr>d_history := (case d_history s of Missing \<Rightarrow> Stored '''' | h \<Rightarrow> h)\<rparr>);
           ret None
         } else ret (Some ErrOS)
       }
   }"

definition is_fetched :: "string \<Rightarrow> (jma, bool) state" where
  "is_fetched itemURL = gets (\<lambda>s. fetched s itemURL)"

definition append_history :: "string \<Rightarrow> jma \<Rightarrow> jma" where
  "append_history bytes s = s\<lparr>d_history := Stored (history_bytes s @ bytes)\<rparr>"

text \<open>
  \<open>MarkFetched\<close>: the URL and a newline are written, then synced; only then does the URL count as fetched.  A
  write that fails may leave a beginning of the line in the file.
\<close>

definition mark_fetched :: "jma_env \<Rightarrow> string \<Rightarrow> (jma, jerr option) state" where
  "mark_fetched E itemURL = do {
     already \<leftarrow> gets (\<lambda>s. fetched s itemURL);
     if already then ret None
     else do {
       let line = itemURL @ [newline];
       (written, torn) \<leftarrow> step (\<lambda>n. (e_ok E n, e_torn E n));
       if \<not> written then do { modify (append_history (take torn line)); ret (Some ErrStatePersistence) }
       else do {
         modify (append_history line);
         synced \<leftarrow> step (e_ok E);
         if \<not> synced then ret (Some ErrStatePersistence)
         else do {
           emit (EvFetched itemURL);
           modify (\<lambda>s. s\<lparr>fetched := (fetched s)(itemURL := True)\<rparr>);
           ret None
         }
       }
     }
   }"

section \<open>Feed schedules\<close>

definition zero_schedule :: feed_schedule where
  "zero_schedule = \<lparr>fs_last_attempt = zero_time, fs_next_allowed = zero_time, fs_last_modified = '''',
     fs_etag = '''', fs_last_polled = zero_time, fs_errors = 0\<rparr>"

definition schedule_of :: "feed_state \<Rightarrow> string \<Rightarrow> feed_schedule" where
  "schedule_of fs url = (case fs_feeds fs url of None \<Rightarrow> zero_schedule | Some sch \<Rightarrow> sch)"

definition load_feed_state :: "(jma, jerr option) state" where
  "load_feed_state = do {
     f \<leftarrow> gets d_feeds;
     case f of
       Missing \<Rightarrow> ret None
     | Unreadable \<Rightarrow> ret (Some ErrCorruptedState)
     | Stored fs \<Rightarrow> do { modify (\<lambda>s. s\<lparr>feeds := fs\<rparr>); ret None }
   }"

definition persist_feed_state :: "jma_env \<Rightarrow> (jma, bool) state" where
  "persist_feed_state E = do {
     fs \<leftarrow> gets feeds;
     ok \<leftarrow> atomic_write E (\<lambda>s. s\<lparr>d_feeds := Stored fs\<rparr>);
     if ok then do { emit (EvFeeds (fs_feeds fs)); ret True } else ret False
   }"

definition get_feed_schedule :: "string \<Rightarrow> (jma, feed_schedule) state" where
  "get_feed_schedule feedURL = gets (\<lambda>s. schedule_of (feeds s) feedURL)"

text \<open>The update all schedule operations share: change one feed's schedule in memory, then persist.\<close>

definition update_schedule :: "jma_env \<Rightarrow> string \<Rightarrow> (feed_schedule \<Rightarrow> feed_schedule) \<Rightarrow> (jma, jerr option) state" where
  "update_schedule E feedURL upd = do {
     modify (\<lambda>s. s\<lparr>feeds := (feeds s)\<lparr>fs_feeds := (fs_feeds (feeds s))(feedURL \<mapsto> upd (schedule_of (feeds s) feedURL))\<rparr>\<rparr>);
     ok \<leftarrow> persist_feed_state E;
     ret (if ok then None else Some ErrStatePersistence)
   }"

definition record_feed_attempt :: "jma_env \<Rightarrow> string \<Rightarrow> int \<Rightarrow> int \<Rightarrow> (jma, jerr option) state" where
  "record_feed_attempt E feedURL attemptAt nextAllowedAt =
     update_schedule E feedURL (\<lambda>sch. sch\<lparr>fs_last_attempt := attemptAt, fs_next_allowed := nextAllowedAt\<rparr>)"

definition record_feed_success :: "jma_env \<Rightarrow> string \<Rightarrow> int \<Rightarrow> (jma, jerr option) state" where
  "record_feed_success E feedURL nextAllowedAt =
     update_schedule E feedURL (\<lambda>sch. sch\<lparr>fs_next_allowed := nextAllowedAt, fs_errors := 0\<rparr>)"

definition record_feed_failure :: "jma_env \<Rightarrow> string \<Rightarrow> int \<Rightarrow> int \<Rightarrow> int \<Rightarrow> (jma, jerr option) state" where
  "record_feed_failure E feedURL attemptAt nextAllowedAt consecutiveErrors =
     update_schedule E feedURL
       (\<lambda>sch. sch\<lparr>fs_last_attempt := attemptAt, fs_next_allowed := nextAllowedAt, fs_errors := consecutiveErrors\<rparr>)"

definition save_feed_validator :: "jma_env \<Rightarrow> string \<Rightarrow> string \<Rightarrow> string \<Rightarrow> int \<Rightarrow> (jma, jerr option) state" where
  "save_feed_validator E feedURL lastModified etag polledAt =
     update_schedule E feedURL
       (\<lambda>sch. sch\<lparr>fs_last_modified := lastModified, fs_etag := etag, fs_last_polled := polledAt\<rparr>)"

definition get_global_backoff_until :: "(jma, int) state" where
  "get_global_backoff_until = gets (\<lambda>s. fs_backoff (feeds s))"

definition set_global_backoff :: "jma_env \<Rightarrow> int \<Rightarrow> (jma, jerr option) state" where
  "set_global_backoff E until = do {
     emit (EvBackoff until);
     modify (\<lambda>s. s\<lparr>feeds := (feeds s)\<lparr>fs_backoff := until\<rparr>\<rparr>);
     ok \<leftarrow> persist_feed_state E;
     ret (if ok then None else Some ErrStatePersistence)
   }"

text \<open>The time of the last long poll is kept, though the controller does not use it.\<close>

definition get_last_long_poll_time :: "(jma, int) state" where
  "get_last_long_poll_time = gets (\<lambda>s. fs_last_long (feeds s))"

definition set_last_long_poll_time :: "jma_env \<Rightarrow> int \<Rightarrow> (jma, jerr option) state" where
  "set_last_long_poll_time E t = do {
     modify (\<lambda>s. s\<lparr>feeds := (feeds s)\<lparr>fs_last_long := t\<rparr>\<rparr>);
     ok \<leftarrow> persist_feed_state E;
     ret (if ok then None else Some ErrStatePersistence)
   }"

section \<open>Spool\<close>

definition hex_digit :: "nat \<Rightarrow> char" where
  "hex_digit n = char_of (if n < 10 then 48 + n else 87 + n)"

definition hex_encode :: "byte list \<Rightarrow> string" where
  "hex_encode bs = concat (map (\<lambda>b. [hex_digit (unat b div 16), hex_digit (unat b mod 16)]) bs)"

text \<open>\<open>SpoolItemKey\<close>: the first 16 bytes of the SHA-256 of the URL, in hexadecimal.\<close>

definition spool_item_key :: "jma_env \<Rightarrow> string \<Rightarrow> string" where
  "spool_item_key E itemURL = hex_encode (take 16 (e_sha256 E itemURL))"

definition has_spool :: "jma_env \<Rightarrow> string \<Rightarrow> (jma, bool) state" where
  "has_spool E itemURL = gets (\<lambda>s. map_of (d_spool s) (spool_item_key E itemURL) \<noteq> None)"

definition save_spool :: "jma_env \<Rightarrow> spool_item \<Rightarrow> (jma, jerr option) state" where
  "save_spool E item = do {
     let key = spool_item_key E (sp_item_url item);
     ok \<leftarrow> atomic_write E (\<lambda>s. s\<lparr>d_spool := AList.update key (SpoolOk item) (d_spool s)\<rparr>);
     if ok then do { emit (EvSpooled key); ret None } else ret (Some ErrStatePersistence)
   }"

definition delete_spool :: "jma_env \<Rightarrow> string \<Rightarrow> (jma, jerr option) state" where
  "delete_spool E itemURL = do {
     let key = spool_item_key E itemURL;
     ok \<leftarrow> step (e_ok E);
     if ok then do {
       modify (\<lambda>s. s\<lparr>d_spool := AList.delete key (d_spool s)\<rparr>);
       emit (EvUnspooled key itemURL);
       ret None
     } else ret (Some ErrStatePersistence)
   }"

definition quarantine_file :: "string \<Rightarrow> jma \<Rightarrow> jma" where
  "quarantine_file key s =
     (case map_of (d_spool s) key of
        None \<Rightarrow> s
      | Some f \<Rightarrow> s\<lparr>d_spool := AList.delete key (d_spool s), d_quarantine := AList.update key f (d_quarantine s)\<rparr>)"

definition quarantine_spool :: "jma_env \<Rightarrow> string \<Rightarrow> (jma, jerr option) state" where
  "quarantine_spool E itemURL = do {
     let key = spool_item_key E itemURL;
     made \<leftarrow> step (e_ok E);
     if \<not> made then ret (Some ErrOS)
     else do {
       renamed \<leftarrow> step (e_ok E);
       if renamed then do { modify (quarantine_file key); emit (EvQuarantined key); ret None }
       else ret (Some ErrStatePersistence)
     }
   }"

text \<open>
  \<open>ListSpool\<close>: the files in the order of their names; a file that cannot be read or parsed is moved to
  the quarantine directory, whether or not that move succeeds.
\<close>

fun list_spool_files :: "jma_env \<Rightarrow> (string \<times> spool_file) list \<Rightarrow> (jma, spool_item list) state" where
  "list_spool_files E [] = ret []"
| "list_spool_files E ((name, f) # rest) = do {
     readable \<leftarrow> step (e_ok E);
     case (if readable then f else SpoolCorrupt) of
       SpoolOk item \<Rightarrow> do { items \<leftarrow> list_spool_files E rest; ret (item # items) }
     | SpoolCorrupt \<Rightarrow> do {
         moved \<leftarrow> step (e_ok E);
         (if moved then do { modify (quarantine_file name); emit (EvQuarantined name) } else ret ());
         list_spool_files E rest
       }
   }"

definition list_spool :: "jma_env \<Rightarrow> (jma, jerr + spool_item list) state" where
  "list_spool E = do {
     ok \<leftarrow> step (e_ok E);
     if \<not> ok then ret (Inl ErrStatePersistence)
     else do {
       files \<leftarrow> gets (\<lambda>s. sort_key fst (d_spool s));
       items \<leftarrow> list_spool_files E files;
       ret (Inr items)
     }
   }"

section \<open>Start\<close>

text \<open>\<open>NewStore\<close>: the memory of a fresh process, loaded from the files; corruption fails closed.\<close>

definition fresh_memory :: "jma \<Rightarrow> jma" where
  "fresh_memory s = s\<lparr>budget := \<lparr>bb_date = 0, bb_used = 0\<rparr>,
     feeds := \<lparr>fs_feeds = Map.empty, fs_last_long = zero_time, fs_backoff = zero_time\<rparr>,
     fetched := (\<lambda>_. False), last_request := zero_time, retry_until := zero_time, fatal := None\<rparr>"

definition new_store :: "jma_env \<Rightarrow> (jma, jerr option) state" where
  "new_store E =
     (if daily_limit E \<le> 0 then ret (Some ErrNegativeAmount)
      else do {
        modify fresh_memory;
        dir_made \<leftarrow> step (e_ok E);
        spool_made \<leftarrow> (if dir_made then step (e_ok E) else ret False);
        if \<not> spool_made then ret (Some ErrOS)
        else do {
          e \<leftarrow> load_byte_budget E;
          if e \<noteq> None then ret e
          else do {
            e \<leftarrow> load_feed_state;
            if e \<noteq> None then ret e else load_history E
          }
        }
      })"

end
