(* ===== verification/JmaClient.thy ===== *)
theory JmaClient
  imports JmaStore
begin

text \<open>
  The JMA adapter's upstream client (\<open>jma_adapter/app/client/jma_client.go\<close>): the global backoff, the
  pacing of requests, and the two kinds of fetch with their budget reservation and bounded reading.  The
  event of a request carries the pacing stamp and the clock when the request is sent.
\<close>

section \<open>Backoff and pacing\<close>

definition check_global_retry :: "jma_env \<Rightarrow> (jma, bool) state" where
  "check_global_retry E = do {
     until \<leftarrow> get_global_backoff_until;
     t \<leftarrow> now_op E;
     if t < until then ret True
     else gets (\<lambda>s. t < retry_until s)
   }"

definition set_global_retry :: "jma_env \<Rightarrow> int \<Rightarrow> (jma, jerr option) state" where
  "set_global_retry E until = do {
     modify (\<lambda>s. if until = zero_time \<or> retry_until s < until then s\<lparr>retry_until := until\<rparr> else s);
     e \<leftarrow> set_global_backoff E until;
     ret (if e \<noteq> None then Some ErrClientPersistence else None)
   }"

text \<open>\<open>time.After\<close> fires when at least the duration has passed.\<close>

definition sleep :: "jma_env \<Rightarrow> int \<Rightarrow> (jma, unit) state" where
  "sleep E d = State (\<lambda>s. ((), s\<lparr>clock := clock s + max 0 d + int (e_delta E (tick s)), tick := tick s + 1\<rparr>))"

definition wait_rate_limit :: "jma_env \<Rightarrow> (jma, jerr option) state" where
  "wait_rate_limit E = do {
     active \<leftarrow> check_global_retry E;
     if active then ret (Some ErrGlobalRetryActive)
     else do {
       t \<leftarrow> now_op E;
       last \<leftarrow> gets last_request;
       let elapsed = time_sub t last;
       cancelled \<leftarrow> (if elapsed < request_interval E then do {
           c \<leftarrow> step (e_cancelled E);
           if c then ret True else do { sleep E (request_interval E - elapsed); ret False }
         } else ret False);
       if cancelled then ret (Some ErrCancelled)
       else do {
         t \<leftarrow> now_op E;
         modify (\<lambda>s. s\<lparr>last_request := t\<rparr>);
         ret None
       }
     }
   }"

section \<open>One exchange\<close>

record feed_result =
  fr_body :: string
  fr_last_modified :: string
  fr_etag :: string
  fr_not_modified :: bool
  fr_next_delay :: int
  fr_retry_after :: int
  fr_has_retry :: bool

definition do_request :: "jma_env \<Rightarrow> request \<Rightarrow> string \<Rightarrow> (jma, http_response option) state" where
  "do_request E kind url = do {
     stamp \<leftarrow> gets last_request;
     t \<leftarrow> gets clock;
     emit (EvHttp kind stamp t url);
     step (e_http E)
   }"

text \<open>Commit the bytes consumed; a failing commit replaces the error at hand.\<close>

definition commit_then :: "jma_env \<Rightarrow> int \<Rightarrow> int \<Rightarrow> jerr \<Rightarrow> (jma, jerr) state" where
  "commit_then E reserved actual e = do {
     c \<leftarrow> commit E reserved actual;
     ret (if c \<noteq> None then ErrClientPersistence else e)
   }"

text \<open>The clock and the date parser, as \<open>poll\<close> sees them.\<close>

definition poll_env :: "jma_env \<Rightarrow> (jma, clock_env) state" where
  "poll_env E = do { t \<leftarrow> now_op E; ret \<lparr>now = t, parse_time = e_parse_time E\<rparr> }"

text \<open>
  Reading a body bounded by \<open>n\<close> bytes: what is read, whether reading failed, and the bytes that came over
  the wire, in a 64-bit counter.  An identity body is cut after \<open>n\<close> bytes; of a gzip body only what it
  decodes to is cut.
\<close>

definition read_plain :: "http_response \<Rightarrow> nat \<Rightarrow> string \<times> bool \<times> int" where
  "read_plain r n = (take n (r_wire r), length (r_wire r) < n \<and> r_wire_broken r, int (min n (length (r_wire r))))"

definition read_gzip :: "http_response \<Rightarrow> nat \<Rightarrow> string \<times> bool \<times> int" where
  "read_gzip r n = (take n (r_gz_plain r), length (r_gz_plain r) < n \<and> r_gz_broken r, s64 (int (r_gz_wire r)))"

definition is_gzip :: "http_response \<Rightarrow> bool" where
  "is_gzip r \<longleftrightarrow> r_status r = 200 \<and> hget (r_hdr r) ''Content-Encoding'' = ''gzip''"

text \<open>
  The part both fetches share after the status has been looked at: decode, bound, commit.  The result is
  the body.
\<close>

definition read_response :: "jma_env \<Rightarrow> int \<Rightarrow> http_response \<Rightarrow> (jma, jerr + string) state" where
  "read_response E reserved r =
     (if is_gzip r \<and> \<not> fst (r_gz_header r) then do {
        e \<leftarrow> commit_then E reserved (s64 (int (snd (r_gz_header r)))) ErrTransport;
        ret (Inl e)
      } else
        (case (if is_gzip r then read_gzip else read_plain) r (nat (max_item_bytes E + 1)) of
           (content, failed, wire) \<Rightarrow>
             if failed then do { e \<leftarrow> commit_then E reserved wire ErrTransport; ret (Inl e) }
             else if max_item_bytes E < int (length content) \<or> max_item_bytes E < wire then do {
               e \<leftarrow> commit_then E reserved wire ErrItemTooLarge;
               ret (Inl e)
             } else do {
               c \<leftarrow> commit E reserved wire;
               ret (if c \<noteq> None then Inl ErrClientPersistence else Inr content)
             }))"

text \<open>The server's wish to be left alone: its Retry-After, or half a minute after a refusal or failure.\<close>

definition note_retry :: "jma_env \<Rightarrow> int \<Rightarrow> http_response \<Rightarrow> int option \<Rightarrow> (jma, jerr option) state" where
  "note_retry E reserved r retryAfter =
     (case retryAfter of
        Some d \<Rightarrow> do {
          t \<leftarrow> now_op E;
          e \<leftarrow> set_global_retry E (t + d);
          if e \<noteq> None then do { _ \<leftarrow> commit E reserved 0; ret e } else ret None
        }
      | None \<Rightarrow>
          if r_status r = 403 \<or> r_status r = 429 \<or> 500 \<le> r_status r then do {
            t \<leftarrow> now_op E;
            e \<leftarrow> set_global_retry E (t + 30 * second);
            if e \<noteq> None then do { _ \<leftarrow> commit E reserved 0; ret e } else ret None
          } else ret None)"

definition retry_or_zero :: "int option \<Rightarrow> int" where
  "retry_or_zero x = (case x of None \<Rightarrow> 0 | Some d \<Rightarrow> d)"

section \<open>Fetching a feed\<close>

text \<open>A fetch of a feed yields an error with the hints that came with it, if any, or a result.\<close>

definition fetch_feed :: "jma_env \<Rightarrow> string \<Rightarrow> (jma, (feed_result option \<times> jerr) + feed_result) state" where
  "fetch_feed E feedURL =
     (case validate_feed_url (ae_parse (e_atom_env E)) (validator E) feedURL of
        Inl e \<Rightarrow> ret (Inl (None, ErrBadURL e))
      | Inr _ \<Rightarrow> do {
          w \<leftarrow> wait_rate_limit E;
          case w of
            Some e \<Rightarrow> ret (Inl (None, e))
          | None \<Rightarrow> do {
              let reserved = max_item_bytes E + 1;
              e \<leftarrow> reserve E reserved;
              case e of
                Some e \<Rightarrow> ret (Inl (None, e))
              | None \<Rightarrow> do {
                  resp \<leftarrow> do_request E FeedReq feedURL;
                  case resp of
                    None \<Rightarrow> do { e \<leftarrow> commit_then E reserved 0 ErrTransport; ret (Inl (None, e)) }
                  | Some r \<Rightarrow>
                      if 301 \<le> r_status r \<and> r_status r \<le> 308 \<and> r_status r \<noteq> 304 then do {
                        e \<leftarrow> commit_then E reserved 0 ErrRedirectNotAllowed;
                        ret (Inl (None, e))
                      } else do {
                        c \<leftarrow> poll_env E;
                        let retryAfter = parse_retry_after c (r_hdr r);
                        c \<leftarrow> poll_env E;
                        let nextDelay = compute_next_poll_delay c (r_hdr r) (poll_interval E);
                        e \<leftarrow> note_retry E reserved r retryAfter;
                        let hints = \<lparr>fr_body = '''', fr_last_modified = '''', fr_etag = '''', fr_not_modified = False,
                              fr_next_delay = nextDelay, fr_retry_after = retry_or_zero retryAfter,
                              fr_has_retry = (retryAfter \<noteq> None)\<rparr>;
                        if e \<noteq> None then ret (Inl (None, the e))
                        else if r_status r = 304 then do {
                          c \<leftarrow> commit E reserved 0;
                          ret (if c \<noteq> None then Inl (None, ErrClientPersistence) else Inr (hints\<lparr>fr_not_modified := True\<rparr>))
                        } else if r_status r < 200 \<or> 300 \<le> r_status r then do {
                          c \<leftarrow> commit E reserved (int (min 4096 (length (r_wire r))));
                          ret (Inl (if c \<noteq> None then (None, ErrClientPersistence)
                               else (Some hints, ErrUpstream (r_status r) (retry_or_zero retryAfter) (retryAfter \<noteq> None))))
                        } else do {
                          b \<leftarrow> read_response E reserved r;
                          ret (case b of
                                 Inl e \<Rightarrow> Inl (None, e)
                               | Inr content \<Rightarrow> Inr (hints\<lparr>fr_body := content,
                                   fr_last_modified := hget (r_hdr r) ''Last-Modified'', fr_etag := hget (r_hdr r) ''ETag''\<rparr>))
                        }
                      }
                }
            }
        })"

section \<open>Fetching a document\<close>

definition fetch_data :: "jma_env \<Rightarrow> string \<Rightarrow> (jma, jerr + string) state" where
  "fetch_data E dataURL =
     (case validate_data_url (ae_parse (e_atom_env E)) (validator E) dataURL of
        Inl e \<Rightarrow> ret (Inl (ErrBadURL e))
      | Inr _ \<Rightarrow> do {
          w \<leftarrow> wait_rate_limit E;
          case w of
            Some e \<Rightarrow> ret (Inl e)
          | None \<Rightarrow> do {
              let reserved = max_item_bytes E + 1;
              e \<leftarrow> reserve E reserved;
              case e of
                Some e \<Rightarrow> ret (Inl e)
              | None \<Rightarrow> do {
                  resp \<leftarrow> do_request E DataReq dataURL;
                  case resp of
                    None \<Rightarrow> do { e \<leftarrow> commit_then E reserved 0 ErrTransport; ret (Inl e) }
                  | Some r \<Rightarrow>
                      if 301 \<le> r_status r \<and> r_status r \<le> 308 then do {
                        e \<leftarrow> commit_then E reserved 0 ErrRedirectNotAllowed;
                        ret (Inl e)
                      } else do {
                        c \<leftarrow> poll_env E;
                        let retryAfter = parse_retry_after c (r_hdr r);
                        e \<leftarrow> note_retry E reserved r retryAfter;
                        if e \<noteq> None then ret (Inl (the e))
                        else if r_status r < 200 \<or> 300 \<le> r_status r then do {
                          c \<leftarrow> commit E reserved (int (min 4096 (length (r_wire r))));
                          ret (Inl (if c \<noteq> None then ErrClientPersistence
                               else ErrUpstream (r_status r) (retry_or_zero retryAfter) (retryAfter \<noteq> None)))
                        } else read_response E reserved r
                      }
                }
            }
        })"

end
