(* ===== verification/JmaController.thy ===== *)
theory JmaController
  imports JmaClient
begin

text \<open>
  The JMA adapter's controller (\<open>jma_adapter/app/controller/controller.go\<close>): replay of the spool, polling of
  the feeds, draining of the pending queue, and the acquisition of one document.  Parsing a telegram and
  its JSON form are the environment's.  The draining loop runs on fuel; that a cycle whose clock advances
  has enough is proved below.
\<close>

section \<open>The fatal latch\<close>

definition set_fatal :: "jerr \<Rightarrow> (jma, unit) state" where
  "set_fatal e = do {
     f \<leftarrow> gets fatal;
     if f = None then do { modify (\<lambda>s. s\<lparr>fatal := Some e\<rparr>); emit EvFatal } else ret ()
   }"

definition is_fatal :: "(jma, bool) state" where
  "is_fatal = gets (\<lambda>s. fatal s \<noteq> None)"

text \<open>A durable operation whose failure latches: whether it succeeded.\<close>

definition durable :: "(jma, jerr option) state \<Rightarrow> (jma, bool) state" where
  "durable m = do {
     e \<leftarrow> m;
     case e of None \<Rightarrow> ret True | Some e \<Rightarrow> do { set_fatal e; ret False }
   }"

section \<open>Calls to core\<close>

definition core_send :: "jma_env \<Rightarrow> string \<Rightarrow> int \<Rightarrow> bool \<Rightarrow> (jma, bool) state" where
  "core_send E itemURL status has_error = do {
     emit (EvSent itemURL status);
     x \<leftarrow> step (e_core E);
     ret (case send_messages (e_decode_ack E) x [\<lparr>sr_status = status, sr_has_error = has_error\<rparr>] of
            Some (Inr _) \<Rightarrow> True | _ \<Rightarrow> False)
   }"

definition core_index :: "jma_env \<Rightarrow> nat \<Rightarrow> (jma, bool) state" where
  "core_index E n = do {
     emit EvCore;
     x \<leftarrow> step (e_core E);
     ret (case send_index (e_decode_ack E) x n of Inl _ \<Rightarrow> False | Inr _ \<Rightarrow> True)
   }"

definition core_pending :: "jma_env \<Rightarrow> (jma, string + (string \<times> string) list) state" where
  "core_pending E = do {
     emit EvCore;
     x \<leftarrow> step (e_core E);
     ret (get_pending (e_decode_pending E) x)
   }"

section \<open>Replaying the spool\<close>

text \<open>A delivery that failed is counted in the spooled item, which stays.\<close>

definition save_attempt :: "jma_env \<Rightarrow> spool_item \<Rightarrow> (jma, bool) state" where
  "save_attempt E item = do {
     t \<leftarrow> now_op E;
     durable (save_spool E (item\<lparr>sp_attempts := sp_attempts item + 1, sp_last_attempt := Some t\<rparr>))
   }"

definition decode_failed :: "jma_env \<Rightarrow> spool_item \<Rightarrow> bool" where
  "decode_failed E item =
     (case sp_message item of None \<Rightarrow> False | Some j \<Rightarrow> j \<noteq> '''' \<and> e_unmarshal E j = None)"

definition replay_item :: "jma_env \<Rightarrow> spool_item \<Rightarrow> (jma, bool) state" where
  "replay_item E item = do {
     stop \<leftarrow> step (e_cancelled E);
     f \<leftarrow> is_fatal;
     if stop \<or> f then ret False
     else if sp_item_url item = '''' then durable (quarantine_spool E (sp_id item))
     else if decode_failed E item then do {
       ok \<leftarrow> durable (quarantine_spool E (sp_item_url item));
       if ok then durable (mark_fetched E (sp_item_url item)) else ret False
     }
     else do {
       t \<leftarrow> now_op E;
       sent \<leftarrow> core_send E (sp_item_url item) (sp_status item) (sp_error item \<noteq> None);
       if \<not> sent then do { _ \<leftarrow> save_attempt E item; ret False }
       else do {
         ok \<leftarrow> durable (mark_fetched E (sp_item_url item));
         if ok then durable (delete_spool E (sp_item_url item)) else ret False
       }
     }
   }"

definition replay_spool :: "jma_env \<Rightarrow> (jma, unit) state" where
  "replay_spool E = do {
     f \<leftarrow> is_fatal;
     if f then ret ()
     else do {
       items \<leftarrow> list_spool E;
       case items of
         Inl e \<Rightarrow> set_fatal e
       | Inr items \<Rightarrow> do { _ \<leftarrow> each (replay_item E) items; ret () }
     }
   }"

section \<open>Acquiring one document\<close>

definition new_item :: "jma_env \<Rightarrow> string \<Rightarrow> string \<Rightarrow> int \<Rightarrow> int \<Rightarrow> spool_item" where
  "new_item E itemURL feedURL t status = \<lparr>sp_id = spool_item_key E itemURL, sp_item_url = itemURL, sp_feed_url = feedURL,
     sp_fetched_at = t, sp_status = status, sp_raw = None, sp_error = None, sp_message = None,
     sp_attempts = 0, sp_last_attempt = None\<rparr>"

text \<open>Spool, mark, send, and delete once core has confirmed.\<close>

definition deliver :: "jma_env \<Rightarrow> spool_item \<Rightarrow> (jma, unit) state" where
  "deliver E item = do {
     spooled \<leftarrow> durable (save_spool E item);
     if \<not> spooled then ret ()
     else do {
       marked \<leftarrow> durable (mark_fetched E (sp_item_url item));
       if \<not> marked then ret ()
       else do {
         sent \<leftarrow> core_send E (sp_item_url item) (sp_status item) (sp_error item \<noteq> None);
         if sent then do { _ \<leftarrow> durable (delete_spool E (sp_item_url item)); ret () }
         else do { _ \<leftarrow> save_attempt E item; ret () }
       }
     }
   }"

definition fetch_failed :: "jma_env \<Rightarrow> string \<Rightarrow> string \<Rightarrow> int \<Rightarrow> jerr \<Rightarrow> (jma, unit) state" where
  "fetch_failed E itemURL feedURL t e =
     (if e = ErrDailyByteLimitExceeded then ret ()
      else if e = ErrClientPersistence \<or> e = ErrStatePersistence then set_fatal e
      else (case e of
          ErrUpstream status _ _ \<Rightarrow>
            if status = 400 \<or> status = 404 \<or> status = 410 then
              deliver E ((new_item E itemURL feedURL t status)\<lparr>sp_error := Some e\<rparr>)
            else do { _ \<leftarrow> core_send E itemURL status True; ret () }
        | _ \<Rightarrow> do { _ \<leftarrow> core_send E itemURL 0 True; ret () }))"

definition fetch_and_ingest :: "jma_env \<Rightarrow> string \<Rightarrow> string \<Rightarrow> (jma, unit) state" where
  "fetch_and_ingest E itemURL feedURL = do {
     f \<leftarrow> is_fatal;
     if f then ret ()
     else do {
       t \<leftarrow> now_op E;
       res \<leftarrow> fetch_data E itemURL;
       case res of
         Inl e \<Rightarrow> fetch_failed E itemURL feedURL t e
       | Inr raw \<Rightarrow>
           (let (msg, parseErr) = e_telegram E itemURL raw;
                json = (case msg of None \<Rightarrow> None | Some m \<Rightarrow> e_marshal E m);
                err = (if msg \<noteq> None \<and> json = None then Some (ErrTelegram ''marshal'') else parseErr)
            in deliver E ((new_item E itemURL feedURL t 200)\<lparr>sp_raw := Some raw, sp_error := err, sp_message := json\<rparr>))
     }
   }"

section \<open>Polling one feed\<close>

definition two_seconds :: int where "two_seconds = 2 * second"

definition positive_jitter :: "jma_env \<Rightarrow> int \<Rightarrow> (jma, int) state" where
  "positive_jitter E maxJitter = (if maxJitter \<le> 0 then ret 0 else step (\<lambda>n. e_rng E n maxJitter))"

definition exponential_base :: "int \<Rightarrow> int \<Rightarrow> int" where
  "exponential_base floor consecutiveErrors =
     (if consecutiveErrors \<le> 1 then floor
      else (let shift = min consecutiveErrors 6; backoff = s64 (floor * 2 ^ nat shift); maxBackoff = 6 * 3600 * second
            in if maxBackoff < backoff then maxBackoff else backoff))"

definition compute_exponential_backoff :: "jma_env \<Rightarrow> int \<Rightarrow> int \<Rightarrow> (jma, int) state" where
  "compute_exponential_backoff E floor consecutiveErrors = do {
     j \<leftarrow> positive_jitter E two_seconds;
     ret (s64 (exponential_base floor consecutiveErrors + j))
   }"

definition feed_floor :: "jma_env \<Rightarrow> bool \<Rightarrow> int" where
  "feed_floor E isLongFeed = (if isLongFeed then long_poll_interval E else poll_interval E)"

definition delay_of :: "int \<Rightarrow> feed_result \<Rightarrow> bool \<Rightarrow> int" where
  "delay_of floor r with_retry =
     (let delay = (if floor < fr_next_delay r then fr_next_delay r else floor)
      in if with_retry \<and> fr_has_retry r \<and> delay < fr_retry_after r then fr_retry_after r else delay)"

definition schedule_success :: "jma_env \<Rightarrow> string \<Rightarrow> int \<Rightarrow> (jma, bool) state" where
  "schedule_success E feedURL delay = do {
     t \<leftarrow> now_op E;
     durable (record_feed_success E feedURL (t + delay))
   }"

definition feed_failed :: "jma_env \<Rightarrow> string \<Rightarrow> int \<Rightarrow> feed_schedule \<Rightarrow> feed_result option \<Rightarrow> jerr \<Rightarrow> (jma, unit) state" where
  "feed_failed E feedURL floor sch hints e =
     (if e = ErrDailyByteLimitExceeded then ret ()
      else if e = ErrClientPersistence \<or> e = ErrStatePersistence then set_fatal e
      else do {
        let consecutive = fs_errors sch + 1;
        backoff \<leftarrow> (case hints of
            Some r \<Rightarrow> if fr_has_retry r then do { j \<leftarrow> positive_jitter E two_seconds; ret (s64 (fr_retry_after r + j)) }
                      else compute_exponential_backoff E floor consecutive
          | None \<Rightarrow> compute_exponential_backoff E floor consecutive);
        backoff \<leftarrow> (if backoff < floor then do { j \<leftarrow> positive_jitter E two_seconds; ret (s64 (floor + j)) } else ret backoff);
        t \<leftarrow> now_op E;
        t' \<leftarrow> now_op E;
        _ \<leftarrow> durable (record_feed_failure E feedURL t' (t + backoff) consecutive);
        ret ()
      })"

text \<open>The entries that are neither fetched nor spooled yet.\<close>

definition unseen_items :: "jma_env \<Rightarrow> index_item list \<Rightarrow> jma \<Rightarrow> index_item list" where
  "unseen_items E items s =
     filter (\<lambda>i. \<not> fetched s (ix_item_url i) \<and> map_of (d_spool s) (spool_item_key E (ix_item_url i)) = None) items"

definition ingest_item :: "jma_env \<Rightarrow> index_item \<Rightarrow> (jma, bool) state" where
  "ingest_item E item = do { fetch_and_ingest E (ix_item_url item) (ix_feed_url item); ret True }"

definition feed_fetched :: "jma_env \<Rightarrow> string \<Rightarrow> bool \<Rightarrow> feed_result \<Rightarrow> (jma, unit) state" where
  "feed_fetched E feedURL isLongFeed res =
     (let floor = feed_floor E isLongFeed in
      if fr_not_modified res then do { _ \<leftarrow> schedule_success E feedURL (delay_of floor res True); ret () }
      else (case e_atom E feedURL (fr_body res) of
          None \<Rightarrow> do { _ \<leftarrow> schedule_success E feedURL (delay_of floor res False); ret () }
        | Some entries \<Rightarrow> do {
            newItems \<leftarrow> gets (unseen_items E (atom_items (e_atom_env E) feedURL entries []));
            accepted \<leftarrow> (if newItems = [] then ret True else core_index E (length newItems));
            if \<not> accepted then do {
              _ \<leftarrow> each (ingest_item E) newItems;
              _ \<leftarrow> schedule_success E feedURL (delay_of floor res False);
              ret ()
            } else do {
              t \<leftarrow> now_op E;
              saved \<leftarrow> (if fr_last_modified res \<noteq> '''' \<or> fr_etag res \<noteq> ''''
                then durable (save_feed_validator E feedURL (fr_last_modified res) (fr_etag res) t) else ret True);
              if \<not> saved then ret ()
              else do { _ \<leftarrow> schedule_success E feedURL (delay_of floor res True); ret () }
            }
          }))"

definition process_feed :: "jma_env \<Rightarrow> string \<Rightarrow> bool \<Rightarrow> (jma, unit) state" where
  "process_feed E feedURL isLongFeed = do {
     f \<leftarrow> is_fatal;
     if f then ret ()
     else do {
       let floor = feed_floor E isLongFeed;
       sch \<leftarrow> get_feed_schedule feedURL;
       t \<leftarrow> now_op E;
       if t < fs_next_allowed sch then ret ()
       else do {
         planned \<leftarrow> durable (record_feed_attempt E feedURL t (t + floor));
         until \<leftarrow> get_global_backoff_until;
         if \<not> planned \<or> t < until then ret ()
         else do {
           res \<leftarrow> fetch_feed E feedURL;
           case res of
             Inl (hints, e) \<Rightarrow> feed_failed E feedURL floor sch hints e
           | Inr r \<Rightarrow> feed_fetched E feedURL isLongFeed r
         }
       }
     }
   }"

section \<open>Draining the pending queue\<close>

text \<open>
  One batch: the URLs seen so far in this drain, how many of the batch were new, and whether draining
  may go on.
\<close>

fun drain_batch :: "jma_env \<Rightarrow> (string \<times> string) list \<Rightarrow> string list \<Rightarrow> nat \<Rightarrow> (jma, bool \<times> string list \<times> nat) state" where
  "drain_batch E [] seen new = ret (True, seen, new)"
| "drain_batch E ((itemURL, feedURL) # items) seen new = do {
     stop \<leftarrow> step (e_cancelled E);
     f \<leftarrow> is_fatal;
     if stop \<or> f then ret (False, seen, new)
     else do {
       t \<leftarrow> now_op E;
       until \<leftarrow> get_global_backoff_until;
       if t < until then ret (False, seen, new)
       else if itemURL \<in> set seen then drain_batch E items seen new
       else do {
         spooled \<leftarrow> has_spool E itemURL;
         done \<leftarrow> is_fetched itemURL;
         if spooled \<or> done then drain_batch E items (itemURL # seen) (new + 1)
         else do {
           fetch_and_ingest E itemURL feedURL;
           f \<leftarrow> is_fatal;
           if f then ret (False, itemURL # seen, new + 1)
           else drain_batch E items (itemURL # seen) (new + 1)
         }
       }
     }
   }"

text \<open>The result says whether draining ended by itself; without fuel it is cut off.\<close>

fun drain_loop :: "jma_env \<Rightarrow> int \<Rightarrow> nat \<Rightarrow> string list \<Rightarrow> (jma, bool) state" where
  "drain_loop E deadline 0 seen = ret False"
| "drain_loop E deadline (Suc fuel) seen = do {
     t \<leftarrow> now_op E;
     if deadline \<le> t then ret True
     else do {
       stop \<leftarrow> step (e_cancelled E);
       f \<leftarrow> is_fatal;
       if stop \<or> f then ret True
       else do {
         t \<leftarrow> now_op E;
         until \<leftarrow> get_global_backoff_until;
         if t < until then ret True
         else do {
           pending \<leftarrow> core_pending E;
           case pending of
             Inl _ \<Rightarrow> ret True
           | Inr items \<Rightarrow>
               if items = [] then ret True
               else do {
                 r \<leftarrow> drain_batch E items seen 0;
                 if \<not> fst r \<or> snd (snd r) = 0 then ret True
                 else drain_loop E deadline fuel (fst (snd r))
               }
         }
       }
     }
   }"

definition drain_pending :: "jma_env \<Rightarrow> int \<Rightarrow> (jma, bool) state" where
  "drain_pending E deadline = do {
     f \<leftarrow> is_fatal;
     if f then ret True
     else do {
       t \<leftarrow> now_op E;
       until \<leftarrow> get_global_backoff_until;
       if t < until then ret True
       else do {
         now \<leftarrow> gets clock;
         drain_loop E deadline (nat (deadline - now) + 1) []
       }
     }
   }"

section \<open>Cycles\<close>

definition poll_feed :: "jma_env \<Rightarrow> bool \<Rightarrow> string \<Rightarrow> (jma, bool) state" where
  "poll_feed E isLongFeed feedURL = do {
     f \<leftarrow> is_fatal;
     stop \<leftarrow> step (e_cancelled E);
     if f \<or> stop then ret False else do { process_feed E feedURL isLongFeed; ret True }
   }"

definition poll_cycle :: "jma_env \<Rightarrow> int \<Rightarrow> (jma, unit) state" where
  "poll_cycle E deadline = do {
     replay_spool E;
     f \<leftarrow> is_fatal;
     if f then ret ()
     else do {
       t \<leftarrow> now_op E;
       until \<leftarrow> get_global_backoff_until;
       if t < until then ret ()
       else do {
         go_on \<leftarrow> each (poll_feed E False) (cfg_feeds E);
         if \<not> go_on then ret ()
         else do {
           go_on \<leftarrow> each (poll_feed E True) (cfg_long_feeds E);
           f \<leftarrow> is_fatal;
           stop \<leftarrow> step (e_cancelled E);
           if \<not> go_on \<or> f \<or> stop then ret ()
           else do { _ \<leftarrow> drain_pending E deadline; ret () }
         }
       }
     }
   }"

text \<open>\<open>Run\<close>, for a number of cycles.\<close>

fun run_cycles :: "jma_env \<Rightarrow> nat \<Rightarrow> (jma, unit) state" where
  "run_cycles E 0 = ret ()"
| "run_cycles E (Suc n) = do {
     stop \<leftarrow> step (e_cancelled E);
     f \<leftarrow> is_fatal;
     if stop \<or> f then ret ()
     else do {
       start \<leftarrow> now_op E;
       let deadline = start + poll_interval E;
       poll_cycle E deadline;
       stop \<leftarrow> step (e_cancelled E);
       if stop then ret ()
       else do {
         t \<leftarrow> now_op E;
         cancelled \<leftarrow> (if 0 < deadline - t then do {
             c \<leftarrow> step (e_cancelled E);
             if c then ret True else do { sleep E (deadline - t); ret False }
           } else ret False);
         if cancelled then ret () else run_cycles E n
       }
     }
   }"

definition run :: "jma_env \<Rightarrow> nat \<Rightarrow> (jma, unit) state" where
  "run E n = do { replay_spool E; run_cycles E n }"

end
