(* ===== verification/JmaInvariant.thy ===== *)
theory JmaInvariant
  imports JmaController
begin

text \<open>
  What holds of every run of the JMA controller, whatever core, the servers, the disk and the clock do.
  A judgement on each event, given the events before it, is shown to hold of the whole trace by an
  invariant that every operation keeps.
\<close>

section \<open>The judgement on events\<close>

text \<open>The feeds polled in one half of a cycle, and the interval a feed asks for.\<close>

definition configured :: "jma_env \<Rightarrow> bool \<Rightarrow> string list" where
  "configured E long = (if long then cfg_long_feeds E else cfg_feeds E)"

definition floor_of :: "jma_env \<Rightarrow> string \<Rightarrow> int" where
  "floor_of E url =
     (if url \<notin> set (cfg_long_feeds E) then poll_interval E
      else if url \<notin> set (cfg_feeds E) then long_poll_interval E
      else min (poll_interval E) (long_poll_interval E))"

text \<open>What is assumed of the configuration and of the random numbers.\<close>

definition env_ok :: "jma_env \<Rightarrow> bool" where
  "env_ok E \<longleftrightarrow>
     0 \<le> poll_interval E \<and> poll_interval E < 2 ^ 62 \<and> 0 \<le> long_poll_interval E \<and> long_poll_interval E < 2 ^ 62
     \<and> request_interval E < 2 ^ 62 \<and> (\<forall>n m. 0 < m \<longrightarrow> 0 \<le> e_rng E n m \<and> e_rng E n m < m)"

text \<open>
  For the byte budget: the amounts are 64-bit integers and none is negative, as the store checks when it
  opens; and \<open>x\<close> bounds by how much what comes over the wire, or what was already spent, exceeds what was
  reserved, or the limit.
\<close>

definition amounts_ok :: "jma_env \<Rightarrow> jma \<Rightarrow> bool" where
  "amounts_ok E s0 \<longleftrightarrow> 0 \<le> daily_limit E \<and> max_item_bytes E < max_int64
     \<and> 0 \<le> bb_used (budget s0) \<and> bb_used (budget s0) \<le> max_int64"

definition overdraft :: "jma_env \<Rightarrow> jma \<Rightarrow> int \<Rightarrow> bool" where
  "overdraft E s0 x \<longleftrightarrow> 0 \<le> x \<and> bb_used (budget s0) \<le> daily_limit E + x \<and> 4096 \<le> max_item_bytes E + 1 + x
     \<and> (\<forall>n r. e_http E n = Some r \<longrightarrow>
          s64 (int (r_gz_wire r)) \<le> max_item_bytes E + 1 + x \<and> s64 (int (snd (r_gz_header r))) \<le> max_item_bytes E + 1 + x)"

definition spend_ok :: "jma_env \<Rightarrow> jma \<Rightarrow> byte_budget \<Rightarrow> bool" where
  "spend_ok E s0 b \<longleftrightarrow> (amounts_ok E s0 \<longrightarrow> 0 \<le> bb_used b \<and> bb_used b \<le> max_int64
     \<and> (\<forall>x. overdraft E s0 x \<longrightarrow> bb_used b \<le> daily_limit E + x))"

fun last_budget :: "event list \<Rightarrow> byte_budget option" where
  "last_budget [] = None"
| "last_budget (EvBudget b # tr) = Some b"
| "last_budget (_ # tr) = last_budget tr"

text \<open>The budget last written covers a whole item at this time, within the limit.\<close>

definition covered :: "jma_env \<Rightarrow> event list \<Rightarrow> int \<Rightarrow> bool" where
  "covered E tr t \<longleftrightarrow>
     (\<exists>b. last_budget tr = Some b \<and> bb_date b = utc_day t \<and> max_item_bytes E + 1 \<le> bb_used b \<and> bb_used b \<le> daily_limit E)"

fun last_feeds :: "event list \<Rightarrow> (string \<Rightarrow> feed_schedule option) option" where
  "last_feeds [] = None"
| "last_feeds (EvFeeds m # tr) = Some m"
| "last_feeds (_ # tr) = last_feeds tr"

definition planned :: "jma_env \<Rightarrow> event list \<Rightarrow> string \<Rightarrow> int \<Rightarrow> bool" where
  "planned E tr url t \<longleftrightarrow>
     (\<exists>m sch. last_feeds tr = Some m \<and> m url = Some sch
        \<and> fs_last_attempt sch + floor_of E url \<le> fs_next_allowed sch \<and> fs_last_attempt sch \<le> t)"

definition known :: "jma \<Rightarrow> event list \<Rightarrow> string \<Rightarrow> bool" where
  "known s0 tr url \<longleftrightarrow> fetched s0 url \<or> EvFetched url \<in> set tr"

definition in_spool :: "jma \<Rightarrow> string \<Rightarrow> bool" where
  "in_spool s key \<longleftrightarrow> map_of (d_spool s) key \<noteq> None"

fun event_ok :: "jma_env \<Rightarrow> jma \<Rightarrow> event \<Rightarrow> event list \<Rightarrow> bool" where
  "event_ok E s0 (EvBudget b) tr = spend_ok E s0 b"
| "event_ok E s0 (EvHttp kind stamp t url) tr =
     (stamp \<le> t \<and> fs_backoff (feeds s0) \<le> t \<and> (\<forall>u. EvBackoff u \<in> set tr \<longrightarrow> u \<le> t)
      \<and> (\<forall>k st t' u. EvHttp k st t' u \<in> set tr \<longrightarrow> st + request_interval E \<le> stamp)
      \<and> EvFatal \<notin> set tr \<and> (amounts_ok E s0 \<longrightarrow> covered E tr t)
      \<and> (kind = DataReq \<longrightarrow> \<not> known s0 tr url
           \<and> (\<exists>u. validate_data_url (ae_parse (e_atom_env E)) (validator E) url = Inr u))
      \<and> (kind = FeedReq \<longrightarrow> planned E tr url t \<and> (\<exists>long. url \<in> set (configured E long))
           \<and> (\<forall>st t'. EvHttp FeedReq st t' url \<in> set tr \<longrightarrow> t' + floor_of E url \<le> t)
           \<and> (\<exists>u. validate_feed_url (ae_parse (e_atom_env E)) (validator E) url = Inr u)))"
| "event_ok E s0 (EvSent url status) tr =
     (EvFatal \<notin> set tr
      \<and> (status \<in> {200, 400, 404, 410} \<longrightarrow>
           EvSpooled (spool_item_key E url) \<in> set tr \<or> in_spool s0 (spool_item_key E url)))"
| "event_ok E s0 (EvUnspooled key url) tr = (key = spool_item_key E url \<and> known s0 tr url)"
| "event_ok E s0 EvCore tr = (EvFatal \<notin> set tr)"
| "event_ok E s0 _ tr = True"

fun trace_ok :: "jma_env \<Rightarrow> jma \<Rightarrow> event list \<Rightarrow> bool" where
  "trace_ok E s0 [] = True"
| "trace_ok E s0 (e # tr) = (event_ok E s0 e tr \<and> trace_ok E s0 tr)"

section \<open>The invariant\<close>

text \<open>
  \<open>X\<close> holds the feed whose schedule is being worked on, if any: between the request and the recording of
  its outcome the schedule does not yet cover the request.
\<close>

definition spool_named :: "jma_env \<Rightarrow> jma \<Rightarrow> bool" where
  "spool_named E s \<longleftrightarrow>
     (\<forall>k item. map_of (d_spool s) k = Some (SpoolOk item) \<longrightarrow> k = spool_item_key E (sp_item_url item))
     \<and> distinct (map fst (d_spool s))"

definition backoff_covered :: "jma \<Rightarrow> jma \<Rightarrow> bool" where
  "backoff_covered s0 s \<longleftrightarrow>
     fs_backoff (feeds s0) \<le> max (fs_backoff (feeds s)) (clock s)
     \<and> (\<forall>u. EvBackoff u \<in> set (trace s) \<longrightarrow> u \<le> max (fs_backoff (feeds s)) (clock s))"

definition feeds_covered :: "jma_env \<Rightarrow> string set \<Rightarrow> jma \<Rightarrow> bool" where
  "feeds_covered E X s \<longleftrightarrow>
     (\<forall>st t url. EvHttp FeedReq st t url \<in> set (trace s) \<longrightarrow> url \<in> X \<or> fatal s \<noteq> None
        \<or> t + floor_of E url \<le> fs_next_allowed (schedule_of (feeds s) url))"

definition jinv :: "jma_env \<Rightarrow> jma \<Rightarrow> string set \<Rightarrow> jma \<Rightarrow> bool" where
  "jinv E s0 X s \<longleftrightarrow>
     trace_ok E s0 (trace s)
     \<and> (\<forall>u. fetched s u \<longleftrightarrow> known s0 (trace s) u)
     \<and> (\<forall>k. in_spool s k \<longrightarrow> EvSpooled k \<in> set (trace s) \<or> in_spool s0 k)
     \<and> spool_named E s
     \<and> (fatal s \<noteq> None \<longleftrightarrow> EvFatal \<in> set (trace s))
     \<and> backoff_covered s0 s
     \<and> (\<forall>k st t u. EvHttp k st t u \<in> set (trace s) \<longrightarrow> st \<le> last_request s \<and> t \<le> clock s)
     \<and> last_request s \<le> clock s
     \<and> spend_ok E s0 (budget s)
     \<and> feeds_covered E X s"

text \<open>No backoff is in force: everything announced so far has passed.\<close>

definition quiet :: "jma \<Rightarrow> jma \<Rightarrow> bool" where
  "quiet s0 s \<longleftrightarrow> fs_backoff (feeds s0) \<le> clock s \<and> (\<forall>u. EvBackoff u \<in> set (trace s) \<longrightarrow> u \<le> clock s)"

text \<open>A change that concerns the byte budget and the clock alone.\<close>

definition budget_only :: "jma \<Rightarrow> jma \<Rightarrow> bool" where
  "budget_only s s' \<longleftrightarrow>
     feeds s' = feeds s \<and> fetched s' = fetched s \<and> d_spool s' = d_spool s \<and> fatal s' = fatal s
     \<and> clock s \<le> clock s' \<and> set (trace s) \<subseteq> set (trace s')
     \<and> (\<forall>e \<in> set (trace s'). e \<in> set (trace s) \<or> (\<exists>b. e = EvBudget b)) \<and> last_feeds (trace s') = last_feeds (trace s)"

lemma budget_only_refl [simp]: "budget_only s s"
  by (simp add: budget_only_def)

lemma budget_only_trans: "budget_only a b \<Longrightarrow> budget_only b c \<Longrightarrow> budget_only a c"
  unfolding budget_only_def by (auto 4 4)

lemma quiet_budget_only: "budget_only s s' \<Longrightarrow> quiet s0 s \<Longrightarrow> quiet s0 s'"
  unfolding budget_only_def quiet_def by (fastforce dest: order_trans)

section \<open>Steps\<close>

lemma wp_step [wp_simps]: "wp (step f) Q s = Q (f (tick s)) (s\<lparr>tick := tick s + 1\<rparr>)"
  by (simp add: wp_def step_def)

lemma wp_emit [wp_simps]: "wp (emit e) Q s = Q () (s\<lparr>trace := e # trace s\<rparr>)"
  by (simp add: emit_def wp_modify)

lemma wp_now_op: "(\<And>t. clock s \<le> t \<Longrightarrow> Q t (s\<lparr>clock := t, tick := tick s + 1\<rparr>)) \<Longrightarrow> wp (now_op E) Q s"
  by (simp add: wp_def now_op_def Let_def)

lemma wp_sleep: "(\<And>t. clock s + max 0 d \<le> t \<Longrightarrow> Q () (s\<lparr>clock := t, tick := tick s + 1\<rparr>)) \<Longrightarrow> wp (sleep E d) Q s"
  by (simp add: wp_def sleep_def)

lemma jinv_transfer:
  assumes "jinv E s0 X s" "feeds s' = feeds s" "fetched s' = fetched s" "d_spool s' = d_spool s"
    "last_request s' = last_request s" "fatal s' = fatal s" "clock s \<le> clock s'" "trace s' = trace s"
    "spend_ok E s0 (budget s')"
  shows "jinv E s0 X s'"
proof -
  have "in_spool s' = in_spool s" "spool_named E s' = spool_named E s" "feeds_covered E X s' = feeds_covered E X s"
    using assms(2-8) by (auto simp: in_spool_def spool_named_def feeds_covered_def fun_eq_iff)
  moreover have "backoff_covered s0 s \<Longrightarrow> backoff_covered s0 s'"
    using assms(2,7,8) by (fastforce simp: backoff_covered_def le_max_iff_disj)
  moreover have "(\<forall>k st t u. EvHttp k st t u \<in> set (trace s) \<longrightarrow> st \<le> last_request s \<and> t \<le> clock s) \<Longrightarrow>
      (\<forall>k st t u. EvHttp k st t u \<in> set (trace s') \<longrightarrow> st \<le> last_request s' \<and> t \<le> clock s')"
    using assms(5,7,8) by fastforce
  ultimately show ?thesis
    using assms unfolding jinv_def by auto
qed

lemma jinv_budget_ok: "jinv E s0 X s \<Longrightarrow> spend_ok E s0 (budget s)"
  by (simp add: jinv_def)

lemma jinv_tick [simp]: "jinv E s0 X (s\<lparr>tick := n\<rparr>) = jinv E s0 X s"
proof -
  have "jinv E s0 X s" if "jinv E s0 X (s\<lparr>tick := n\<rparr>)"
    using jinv_transfer [OF that, of s] jinv_budget_ok [OF that] by simp
  moreover have "jinv E s0 X (s\<lparr>tick := n\<rparr>)" if "jinv E s0 X s"
    using jinv_transfer [OF that, of "s\<lparr>tick := n\<rparr>"] jinv_budget_ok [OF that] by simp
  ultimately show ?thesis by blast
qed

lemma jinv_clock: "jinv E s0 X s \<Longrightarrow> clock s \<le> t \<Longrightarrow> jinv E s0 X (s\<lparr>clock := t, tick := n\<rparr>)"
  by (rule jinv_transfer) (auto simp: jinv_budget_ok)

lemma feeds_covered_subset: "feeds_covered E X s \<Longrightarrow> X \<subseteq> Y \<Longrightarrow> feeds_covered E Y s"
  unfolding feeds_covered_def by blast

lemma jinv_subset: "jinv E s0 X s \<Longrightarrow> X \<subseteq> Y \<Longrightarrow> jinv E s0 Y s"
  using feeds_covered_subset [of E X s Y] by (simp add: jinv_def)

lemma jinv_disk [intro]:
  assumes "jinv E s0 X s"
  shows "jinv E s0 X (s\<lparr>d_budget := b\<rparr>)" "jinv E s0 X (s\<lparr>d_feeds := f\<rparr>)" "jinv E s0 X (s\<lparr>d_history := h\<rparr>)"
    "jinv E s0 X (s\<lparr>d_quarantine := q\<rparr>)" "jinv E s0 X (s\<lparr>retry_until := t\<rparr>)"
  by (rule jinv_transfer [OF assms]; simp add: jinv_budget_ok [OF assms])+

lemma wp_now_jinv:
  assumes "jinv E s0 X s"
    and Q: "\<And>t s'. jinv E s0 X s' \<Longrightarrow> budget_only s s' \<Longrightarrow> last_request s' = last_request s \<Longrightarrow> budget s' = budget s \<Longrightarrow>
      clock s \<le> t \<Longrightarrow> clock s' = t \<Longrightarrow> Q t s'"
  shows "wp (now_op E) Q s"
proof (rule wp_now_op)
  fix t assume "clock s \<le> t"
  then show "Q t (s\<lparr>clock := t, tick := tick s + 1\<rparr>)"
    using jinv_clock [OF assms(1)] by (intro Q) (auto simp: budget_only_def)
qed

section \<open>The byte budget\<close>

text \<open>An event that only the judgement on itself looks at.\<close>

lemma jinv_budget:
  assumes "jinv E s0 X s" "spend_ok E s0 b"
  shows "jinv E s0 X (s\<lparr>budget := b\<rparr>)"
  by (rule jinv_transfer [OF assms(1)]) (use assms(2) in simp_all)

lemma jinv_event:
  assumes "jinv E s0 X s" "event_ok E s0 e (trace s)"
    "(case e of EvBudget _ \<Rightarrow> True | EvFeeds _ \<Rightarrow> True | EvSent _ _ \<Rightarrow> True | EvCore \<Rightarrow> True | EvUnspooled _ _ \<Rightarrow> True
        | EvQuarantined _ \<Rightarrow> True | _ \<Rightarrow> False)"
  shows "jinv E s0 X (s\<lparr>trace := e # trace s\<rparr>)"
proof -
  have "known s0 (e # trace s) = known s0 (trace s)" using assms(3) by (auto simp: known_def fun_eq_iff split: event.splits)
  moreover have "feeds_covered E X (s\<lparr>trace := e # trace s\<rparr>) = feeds_covered E X s"
    "backoff_covered s0 (s\<lparr>trace := e # trace s\<rparr>) = backoff_covered s0 s"
    "spool_named E (s\<lparr>trace := e # trace s\<rparr>) = spool_named E s" "in_spool (s\<lparr>trace := e # trace s\<rparr>) = in_spool s"
    using assms(3) by (auto simp: feeds_covered_def backoff_covered_def spool_named_def in_spool_def fun_eq_iff split: event.splits)
  moreover have "EvFatal \<noteq> e" "\<And>k. EvSpooled k \<noteq> e" "\<And>k st t u. EvHttp k st t u \<noteq> e" using assms(3) by auto
  ultimately show ?thesis using assms(1,2) by (simp add: jinv_def)
qed

lemma wp_persist_budget:
  assumes "jinv E s0 X s"
    and Q: "\<And>ok s'. jinv E s0 X s' \<Longrightarrow> budget_only s s' \<Longrightarrow> last_request s' = last_request s \<Longrightarrow> budget s' = budget s \<Longrightarrow>
      clock s' = clock s \<Longrightarrow> (ok \<longrightarrow> last_budget (trace s') = Some (budget s)) \<Longrightarrow> Q ok s'"
  shows "wp (persist_budget E) Q s"
proof -
  let ?s = "s\<lparr>tick := tick s + 1\<rparr>"
  have 1: "jinv E s0 X ?s" using assms(1) by simp
  have 2: "jinv E s0 X (?s\<lparr>d_budget := Stored (budget s)\<rparr>)" by (rule jinv_disk [OF 1])
  have 3: "jinv E s0 X (?s\<lparr>d_budget := Stored (budget s), trace := EvBudget (budget s) # trace s\<rparr>)"
    using jinv_event [OF 2, of "EvBudget (budget s)"] jinv_budget_ok [OF assms(1)] by simp
  show ?thesis
    unfolding persist_budget_def atomic_write_def wp_simps
    using 1 3 by (auto simp: wp_simps budget_only_def intro!: Q)
qed

lemma s64_small: "- (2 ^ 63) \<le> x \<Longrightarrow> x < 2 ^ 63 \<Longrightarrow> s64 x = x"
  by (simp add: s64_id in_s64_def)

lemma budget_only_upd [simp]: "budget_only s (s\<lparr>budget := b\<rparr>)"
  by (simp add: budget_only_def)

text \<open>A whole item is reserved in the budget in memory, and the budget is within the limit.\<close>

definition room :: "jma_env \<Rightarrow> jma \<Rightarrow> byte_budget \<Rightarrow> bool" where
  "room E s0 b \<longleftrightarrow> (amounts_ok E s0 \<longrightarrow> max_item_bytes E + 1 \<le> bb_used b \<and> bb_used b \<le> daily_limit E)"

text \<open>What an exchange consumed, for a bound on the excess.\<close>

definition wire_fits :: "jma_env \<Rightarrow> jma \<Rightarrow> int \<Rightarrow> bool" where
  "wire_fits E s0 actual \<longleftrightarrow> (amounts_ok E s0 \<longrightarrow> actual \<le> max_int64
     \<and> (\<forall>x. overdraft E s0 x \<longrightarrow> actual \<le> max_item_bytes E + 1 + x))"

lemma spend_ok_fresh: "spend_ok E s0 \<lparr>bb_date = d, bb_used = 0\<rparr>"
  by (auto simp: spend_ok_def amounts_ok_def overdraft_def max_int64_def)

lemma s64_amount: "0 \<le> x \<Longrightarrow> x \<le> max_int64 \<Longrightarrow> s64 x = x"
  by (rule s64_small) (simp_all add: max_int64_def)

lemma reserve_ok:
  assumes "spend_ok E s0 b" "0 \<le> est" "\<not> s64 (max_int64 - bb_used b) < est" "\<not> daily_limit E < s64 (bb_used b + est)"
    "max_item_bytes E + 1 \<le> est"
  shows "spend_ok E s0 (b\<lparr>bb_used := s64 (bb_used b + est)\<rparr>)" "room E s0 (b\<lparr>bb_used := s64 (bb_used b + est)\<rparr>)"
proof -
  have sum: "s64 (bb_used b + est) = bb_used b + est \<and> 0 \<le> bb_used b \<and> bb_used b + est \<le> max_int64" if "amounts_ok E s0"
  proof -
    have u: "0 \<le> bb_used b" "bb_used b \<le> max_int64" using assms(1) that by (simp_all add: spend_ok_def)
    then have "s64 (max_int64 - bb_used b) = max_int64 - bb_used b" by (intro s64_amount) auto
    then have "bb_used b + est \<le> max_int64" using assms(3) by simp
    then show ?thesis using u assms(2) by (auto intro: s64_amount)
  qed
  show "spend_ok E s0 (b\<lparr>bb_used := s64 (bb_used b + est)\<rparr>)"
    using sum assms(2,4) by (auto simp: spend_ok_def overdraft_def)
  show "room E s0 (b\<lparr>bb_used := s64 (bb_used b + est)\<rparr>)"
    using sum assms(4,5) by (auto simp: room_def)
qed

lemma commit_ok:
  assumes "room E s0 old" "0 \<le> reserved" "reserved = max_item_bytes E + 1" "0 \<le> actual" "wire_fits E s0 actual"
    "\<not> (bb_date old = day \<and> s64 (max_int64 - s64 (bb_used old - reserved)) < actual)" "spend_ok E s0 old"
  shows "spend_ok E s0 (if bb_date old \<noteq> day then \<lparr>bb_date = day, bb_used = actual\<rparr>
    else old\<lparr>bb_used := (if s64 (s64 (bb_used old - reserved) + actual) < 0 then 0
      else s64 (s64 (bb_used old - reserved) + actual))\<rparr>)"
proof (cases "amounts_ok E s0")
  case True
  then have used: "reserved \<le> bb_used old" "bb_used old \<le> daily_limit E" "bb_used old \<le> max_int64"
    using assms(1,3,7) by (simp_all add: room_def spend_ok_def)
  have fits: "actual \<le> max_int64" "\<And>x. overdraft E s0 x \<Longrightarrow> actual \<le> reserved + x"
    using assms(3,5) True by (simp_all add: wire_fits_def)
  have left: "s64 (bb_used old - reserved) = bb_used old - reserved"
    "s64 (max_int64 - (bb_used old - reserved)) = max_int64 - (bb_used old - reserved)"
    using used assms(2) by (auto intro!: s64_amount)
  show ?thesis
  proof (cases "bb_date old = day")
    case same: True
    then have le: "bb_used old - reserved + actual \<le> max_int64" using assms(6) left by simp
    then have "s64 (bb_used old - reserved + actual) = bb_used old - reserved + actual"
      using used(1) assms(4) by (intro s64_amount) auto
    then show ?thesis using same le left used fits(2) assms(4) by (fastforce simp: spend_ok_def)
  next
    case False
    then show ?thesis using fits used assms(4) by (fastforce simp: spend_ok_def)
  qed
qed (simp add: spend_ok_def)

text \<open>What reserving and committing share: try the new budget, fall back to the old one if it cannot be written.\<close>

lemma wp_try_budget:
  assumes "jinv E s0 X s" "spend_ok E s0 new" "spend_ok E s0 old"
    and Q: "\<And>e s'. jinv E s0 X s' \<Longrightarrow> budget_only s s' \<Longrightarrow> last_request s' = last_request s \<Longrightarrow> clock s' = clock s \<Longrightarrow>
      (e = None \<longrightarrow> budget s' = new \<and> last_budget (trace s') = Some new) \<Longrightarrow>
      e = None \<or> e = Some ErrStatePersistence \<Longrightarrow> Q e s'"
  shows "wp (persist_budget E) (\<lambda>ok s'. if ok then Q None s' else Q (Some ErrStatePersistence) (s'\<lparr>budget := old\<rparr>))
     (s\<lparr>budget := new\<rparr>)"
proof (rule wp_persist_budget [OF jinv_budget [OF assms(1,2)]], goal_cases)
  case (1 ok s')
  have only: "budget_only s s'" using 1(2) by (simp add: budget_only_def)
  then have "budget_only s (s'\<lparr>budget := old\<rparr>)" by (simp add: budget_only_def)
  then show ?case using only 1 jinv_budget [OF 1(1) assms(3)] by (auto intro: Q)
qed

lemma wp_reserve:
  assumes "jinv E s0 X s"
    and Q: "\<And>e s'. jinv E s0 X s' \<Longrightarrow> budget_only s s' \<Longrightarrow> last_request s' = last_request s \<Longrightarrow>
      (e = None \<longrightarrow> room E s0 (budget s') \<and> (amounts_ok E s0 \<longrightarrow> covered E (trace s') (clock s'))) \<Longrightarrow>
      (\<forall>st d h. e \<noteq> Some (ErrUpstream st d h)) \<Longrightarrow> Q e s'"
  shows "wp (reserve E (max_item_bytes E + 1)) Q s"
proof (cases "max_item_bytes E + 1 < 0")
  case True
  then show ?thesis using assms(1) by (auto simp: reserve_def wp_simps intro!: Q)
next
  case False
  let ?est = "max_item_bytes E + 1"
  show ?thesis
    unfolding reserve_def if_not_P [OF False] wp_simps
  proof (rule wp_now_jinv [OF assms(1)], goal_cases)
    case (1 t s1)
    define b where "b = (if bb_date (budget s1) \<noteq> utc_day t then \<lparr>bb_date = utc_day t, bb_used = 0\<rparr> else budget s1)"
    have b: "spend_ok E s0 b"
      using jinv_budget_ok [OF 1(1)] spend_ok_fresh by (auto simp: b_def)
    have s: "jinv E s0 X (s1\<lparr>budget := b\<rparr>)" by (rule jinv_budget [OF 1(1) b])
    have only: "budget_only s (s1\<lparr>budget := b\<rparr>)" by (rule budget_only_trans [OF 1(2)]) simp
    let ?new = "b\<lparr>bb_used := s64 (bb_used b + ?est)\<rparr>"
    have "if s64 (max_int64 - bb_used b) < ?est then Q (Some ErrIntegerOverflow) (s1\<lparr>budget := b\<rparr>)
       else if daily_limit E < s64 (bb_used b + ?est) then Q (Some ErrDailyByteLimitExceeded) (s1\<lparr>budget := b\<rparr>)
       else wp (persist_budget E)
         (\<lambda>ok s'. if ok then Q None s' else Q (Some ErrStatePersistence) (s'\<lparr>budget := b\<rparr>))
         (s1\<lparr>budget := b, budget := ?new\<rparr>)"
    proof (cases "s64 (max_int64 - bb_used b) < ?est \<or> daily_limit E < s64 (bb_used b + ?est)")
      case True
      then show ?thesis using s only 1 by (auto intro!: Q)
    next
      case no: False
      then have n: "\<not> s64 (max_int64 - bb_used b) < ?est" "\<not> daily_limit E < s64 (bb_used b + ?est)" by auto
      note new = reserve_ok [OF b _ n order_refl]
      show ?thesis
        unfolding if_not_P [OF n(1)] if_not_P [OF n(2)]
      proof (rule wp_try_budget [OF s new(1) b], goal_cases)
        case (2 e s')
        have "covered E (trace s') (clock s')" if "e = None" "amounts_ok E s0"
          using 2(4,5) that new(2) False 1(6) by (auto simp: covered_def room_def b_def)
        then show ?case
          using 2 new(2) False \<open>last_request s1 = last_request s\<close> budget_only_trans [OF only] by (intro Q) auto
      qed (use False in simp)
    qed
    then show ?case unfolding b_def by simp
  qed
qed

lemma wp_commit:
  assumes "jinv E s0 X s" and sizes: "room E s0 (budget s)" "wire_fits E s0 actual"
    and Q: "\<And>e s'. jinv E s0 X s' \<Longrightarrow> budget_only s s' \<Longrightarrow> last_request s' = last_request s \<Longrightarrow> Q e s'"
  shows "wp (commit E (max_item_bytes E + 1) actual) Q s"
proof (cases "max_item_bytes E + 1 < 0 \<or> actual < 0")
  case True
  then show ?thesis using assms(1) by (auto simp: commit_def wp_simps intro!: Q)
next
  case False
  show ?thesis
    unfolding commit_def if_not_P [OF False] wp_simps
  proof (rule wp_now_jinv [OF assms(1)], goal_cases)
    case (1 t s1)
    let ?u = "s64 (bb_used (budget s1) - (max_item_bytes E + 1))"
    define b where "b = (if bb_date (budget s1) \<noteq> utc_day t then \<lparr>bb_date = utc_day t, bb_used = actual\<rparr>
      else (budget s1)\<lparr>bb_used := (if s64 (?u + actual) < 0 then 0 else s64 (?u + actual))\<rparr>)"
    have old: "spend_ok E s0 (budget s1)"
      by (rule jinv_budget_ok [OF 1(1)])
    have b: "spend_ok E s0 b" if "\<not> (bb_date (budget s1) = utc_day t \<and> s64 (max_int64 - ?u) < actual)"
      unfolding b_def by (rule commit_ok) (use that False sizes old 1(4) in auto)
    show ?case
      unfolding b_def [symmetric]
    proof (cases "bb_date (budget s1) = utc_day t \<and> s64 (max_int64 - ?u) < actual", goal_cases)
      case 1
      then show ?case unfolding if_P [OF 1] using \<open>jinv E s0 X s1\<close> \<open>budget_only s s1\<close> \<open>last_request s1 = last_request s\<close> by (intro Q)
    next
      case 2
      show ?case
        unfolding if_not_P [OF 2]
        by (rule wp_try_budget [OF 1(1) b [OF 2] old]) (use 1 budget_only_trans [OF 1(2)] in \<open>auto intro: Q\<close>)
    qed
  qed
qed

lemma wp_commit_then:
  assumes "jinv E s0 X s" and sizes: "room E s0 (budget s)" "wire_fits E s0 actual"
    and Q: "\<And>e' s'. jinv E s0 X s' \<Longrightarrow> budget_only s s' \<Longrightarrow> last_request s' = last_request s \<Longrightarrow>
      e' = e \<or> e' = ErrClientPersistence \<Longrightarrow> Q e' s'"
  shows "wp (commit_then E (max_item_bytes E + 1) actual e) Q s"
  unfolding commit_then_def wp_simps by (rule wp_commit [OF assms(1) sizes]) (auto intro: Q)

section \<open>Pacing and backoff\<close>

definition paced :: "jma_env \<Rightarrow> jma \<Rightarrow> bool" where
  "paced E s \<longleftrightarrow> (\<forall>k st t u. EvHttp k st t u \<in> set (trace s) \<longrightarrow> st + request_interval E \<le> last_request s)"

text \<open>What every operation leaves alone, but for the URLs \<open>U\<close> it may mark as fetched.\<close>

definition frame :: "string set \<Rightarrow> jma \<Rightarrow> jma \<Rightarrow> bool" where
  "frame U s s' \<longleftrightarrow> clock s \<le> clock s' \<and> set (trace s) \<subseteq> set (trace s') \<and> (\<forall>u. fetched s' u \<longrightarrow> fetched s u \<or> u \<in> U)"

lemma frame_refl [simp]: "frame U s s"
  by (simp add: frame_def)

lemma frame_trans: "frame U a b \<Longrightarrow> frame U b c \<Longrightarrow> frame U a c"
  unfolding frame_def by (meson order_trans)

lemma frame_subset: "frame U s s' \<Longrightarrow> U \<subseteq> V \<Longrightarrow> frame V s s'"
  unfolding frame_def by blast

lemma budget_only_frame: "budget_only s s' \<Longrightarrow> frame U s s' \<and> fatal s' = fatal s"
  by (auto simp: budget_only_def frame_def)

lemma budget_only_events:
  assumes "budget_only s s'"
  shows "EvHttp k st t u \<in> set (trace s') \<longleftrightarrow> EvHttp k st t u \<in> set (trace s)"
    "EvBackoff v \<in> set (trace s') \<longleftrightarrow> EvBackoff v \<in> set (trace s)"
  using assms unfolding budget_only_def by blast+

lemma jinv_last_request:
  assumes "jinv E s0 X s" "last_request s \<le> t" "t \<le> clock s"
  shows "jinv E s0 X (s\<lparr>last_request := t\<rparr>)"
proof -
  have "feeds_covered E X (s\<lparr>last_request := t\<rparr>) = feeds_covered E X s" "in_spool (s\<lparr>last_request := t\<rparr>) = in_spool s"
    "spool_named E (s\<lparr>last_request := t\<rparr>) = spool_named E s" "backoff_covered s0 (s\<lparr>last_request := t\<rparr>) = backoff_covered s0 s"
    by (simp_all add: feeds_covered_def in_spool_def spool_named_def backoff_covered_def fun_eq_iff)
  with assms show ?thesis unfolding jinv_def by (auto 0 4)
qed

lemma jinv_http_past: "jinv E s0 X s \<Longrightarrow> EvHttp k st t u \<in> set (trace s) \<Longrightarrow> st \<le> last_request s \<and> t \<le> clock s"
  unfolding jinv_def by blast

lemma jinv_quiet: "jinv E s0 X s \<Longrightarrow> fs_backoff (feeds s) \<le> clock s \<Longrightarrow> quiet s0 s"
  unfolding jinv_def backoff_covered_def quiet_def by (auto simp: max_def split: if_splits)

lemma wp_check_global_retry:
  assumes "jinv E s0 X s"
    and Q: "\<And>b s'. jinv E s0 X s' \<Longrightarrow> budget_only s s' \<Longrightarrow> last_request s' = last_request s \<Longrightarrow>
      (\<not> b \<longrightarrow> quiet s0 s') \<Longrightarrow> Q b s'"
  shows "wp (check_global_retry E) Q s"
  unfolding check_global_retry_def get_global_backoff_until_def wp_simps
proof (rule wp_now_jinv [OF assms(1)], goal_cases)
  case (1 t s')
  then have "feeds s' = feeds s" by (simp add: budget_only_def)
  then show ?case using 1 jinv_quiet [OF 1(1)] by (auto intro!: Q)
qed

lemma elapsed_pace:
  assumes "l \<le> t" "i < 2 ^ 62"
  shows "time_sub t l < i \<Longrightarrow> t + max 0 (i - time_sub t l) \<le> t' \<Longrightarrow> l + i \<le> t'"
    "\<not> time_sub t l < i \<Longrightarrow> l + i \<le> t"
  using assms by (auto simp: time_sub_def max_int64_def split: if_splits)

lemma wp_wait_rate_limit:
  assumes "env_ok E" "jinv E s0 X s"
    and Q: "\<And>e s'. jinv E s0 X s' \<Longrightarrow> budget_only s s' \<Longrightarrow> e \<in> {None, Some ErrGlobalRetryActive, Some ErrCancelled} \<Longrightarrow>
      (e = None \<longrightarrow> quiet s0 s' \<and> paced E s') \<Longrightarrow> Q e s'"
  shows "wp (wait_rate_limit E) Q s"
  unfolding wait_rate_limit_def wp_simps
proof (rule wp_check_global_retry [OF assms(2)], goal_cases)
  case (1 b s1)
  show ?case
  proof (cases b)
    case True
    then show ?thesis using 1 by (auto intro!: Q)
  next
    case False
    with 1 have q: "quiet s0 s1" by simp
    show ?thesis
      unfolding if_not_P [OF False]
    proof (rule wp_now_jinv [OF 1(1)], goal_cases)
      case (1 t s2)
      have le: "last_request s2 \<le> t" using 1 by (simp add: jinv_def)
      have bo: "budget_only s s2" using \<open>budget_only s s1\<close> 1(2) by (rule budget_only_trans)
      have paceable: "st \<le> last_request s2" if "EvHttp k st t' u \<in> set (trace s2)" for k st t' u
        using jinv_http_past [OF 1(1) that] by simp
      have final: "wp (now_op E) (\<lambda>t s. Q None (s\<lparr>last_request := t\<rparr>)) s3"
        if "jinv E s0 X s3" "budget_only s2 s3" "last_request s3 = last_request s2"
          "last_request s2 + request_interval E \<le> clock s3" for s3
      proof (rule wp_now_jinv [OF that(1)], goal_cases)
        case (1 t' s4)
        then have j: "jinv E s0 X (s4\<lparr>last_request := t'\<rparr>)"
          using le that \<open>clock s2 = t\<close> by (intro jinv_last_request) (auto simp: budget_only_def)
        have "budget_only s s4" by (rule budget_only_trans [OF bo budget_only_trans [OF that(2) 1(2)]])
        then have b: "budget_only s (s4\<lparr>last_request := t'\<rparr>)" by (simp add: budget_only_def)
        have "budget_only s2 s4" by (rule budget_only_trans [OF that(2) 1(2)])
        then have "paced E (s4\<lparr>last_request := t'\<rparr>)"
          using that(4) 1 paceable by (force simp: paced_def budget_only_events)
        moreover have "quiet s0 s4" using quiet_budget_only [OF _ q] \<open>budget_only s1 s2\<close> \<open>budget_only s2 s4\<close> budget_only_trans by blast
        then have "quiet s0 (s4\<lparr>last_request := t'\<rparr>)" by (simp add: quiet_def)
        ultimately show ?case using j b by (intro Q) auto
      qed
      show ?case
      proof (cases "time_sub t (last_request s2) < request_interval E")
        case True
        have s3: "jinv E s0 X (s2\<lparr>tick := n\<rparr>)" for n using 1(1) by simp
        have b3: "budget_only s (s2\<lparr>tick := n\<rparr>)" for n using bo by (simp add: budget_only_def)
        have "wp (sleep E (request_interval E - time_sub t (last_request s2)))
            (\<lambda>_. wp (now_op E) (\<lambda>t s. Q None (s\<lparr>last_request := t\<rparr>))) (s2\<lparr>tick := tick s2 + 1\<rparr>)"
        proof (rule wp_sleep, rule final, goal_cases)
          case (1 t')
          then show ?case using jinv_clock [OF s3, of "tick s2 + 1" t'] by simp
        next
          case (4 t')
          then show ?case using elapsed_pace(1) [OF le _ True] assms(1) \<open>clock s2 = t\<close> by (simp add: env_ok_def)
        qed (auto simp: budget_only_def)
        then show ?thesis
          using True s3 b3 by (auto simp: wp_simps intro!: Q)
      next
        case False
        then show ?thesis
          using elapsed_pace(2) [OF le _ False] assms(1) 1 by (auto simp: wp_simps env_ok_def intro!: final)
      qed
    qed
  qed
qed

end
