(* ===== verification/JmaSafety.thy ===== *)
theory JmaSafety
  imports JmaInvariant
begin

text \<open>
  The invariant of \<open>JmaInvariant\<close> through the JMA controller's operations, from one request up to whole
  runs, and the properties of every run.
\<close>

section \<open>Requests\<close>

definition same_items :: "jma \<Rightarrow> jma \<Rightarrow> bool" where
  "same_items s s' \<longleftrightarrow> frame {} s s' \<and> fatal s' = fatal s"

lemma same_items_refl [simp]: "same_items s s"
  by (simp add: same_items_def)

lemma same_items_trans: "same_items a b \<Longrightarrow> same_items b c \<Longrightarrow> same_items a c"
  unfolding same_items_def by (auto intro: frame_trans)

lemma budget_only_same_items: "budget_only s s' \<Longrightarrow> same_items s s'"
  by (auto simp: same_items_def dest: budget_only_frame)

lemma paced_budget_only: "budget_only s s' \<Longrightarrow> last_request s' = last_request s \<Longrightarrow> paced E s \<Longrightarrow> paced E s'"
  by (auto simp: paced_def budget_only_events)

text \<open>A request is recorded when its own judgement holds; a feed then counts as open.\<close>

lemma jinv_http:
  assumes "jinv E s0 X s" "event_ok E s0 (EvHttp kind (last_request s) (clock s) url) (trace s)"
    "kind = FeedReq \<Longrightarrow> url \<in> X"
  shows "jinv E s0 X (s\<lparr>trace := EvHttp kind (last_request s) (clock s) url # trace s\<rparr>)" (is "jinv E s0 X ?s")
proof -
  have "known s0 (trace ?s) = known s0 (trace s)" by (auto simp: known_def fun_eq_iff)
  moreover have "feeds_covered E X s \<Longrightarrow> feeds_covered E X ?s" using assms(3) by (fastforce simp: feeds_covered_def)
  moreover have "backoff_covered s0 ?s = backoff_covered s0 s" "spool_named E ?s = spool_named E s" "in_spool ?s = in_spool s"
    by (auto simp: backoff_covered_def spool_named_def in_spool_def fun_eq_iff)
  ultimately show ?thesis using assms(1,2) by (auto simp: jinv_def simp del: event_ok.simps)
qed

lemma jinv_backoff:
  assumes "jinv E s0 X s" "quiet s0 s"
  shows "jinv E s0 X (s\<lparr>trace := EvBackoff u # trace s, feeds := (feeds s)\<lparr>fs_backoff := u\<rparr>\<rparr>)" (is "jinv E s0 X ?s")
proof -
  have "known s0 (trace ?s) = known s0 (trace s)" by (auto simp: known_def fun_eq_iff)
  moreover have "feeds_covered E X ?s = feeds_covered E X s" "spool_named E ?s = spool_named E s" "in_spool ?s = in_spool s"
    by (auto simp: feeds_covered_def spool_named_def in_spool_def schedule_of_def fun_eq_iff)
  moreover have "backoff_covered s0 ?s" using assms(2) by (fastforce simp: backoff_covered_def quiet_def)
  ultimately show ?thesis using assms(1) by (auto simp: jinv_def)
qed

lemma wp_persist_feed_state:
  assumes "jinv E s0 X s"
    and Q: "\<And>ok s'. jinv E s0 X s' \<Longrightarrow> same_items s s' \<Longrightarrow> feeds s' = feeds s \<Longrightarrow> clock s' = clock s \<Longrightarrow> budget s' = budget s \<Longrightarrow>
      (ok \<longrightarrow> last_feeds (trace s') = Some (fs_feeds (feeds s))) \<Longrightarrow>
      (\<forall>e \<in> set (trace s'). e \<in> set (trace s) \<or> (\<exists>m. e = EvFeeds m)) \<Longrightarrow> Q ok s'"
  shows "wp (persist_feed_state E) Q s"
proof -
  let ?s = "s\<lparr>tick := tick s + 1\<rparr>"
  have 1: "jinv E s0 X ?s" using assms(1) by simp
  have 2: "jinv E s0 X (?s\<lparr>d_feeds := Stored (feeds s)\<rparr>)" by (rule jinv_disk [OF 1])
  have 3: "jinv E s0 X (?s\<lparr>d_feeds := Stored (feeds s), trace := EvFeeds (fs_feeds (feeds s)) # trace s\<rparr>)"
    using jinv_event [OF 2, of "EvFeeds (fs_feeds (feeds s))"] by simp
  show ?thesis
    unfolding persist_feed_state_def atomic_write_def wp_simps
    using 1 3 by (auto simp: wp_simps same_items_def frame_def intro!: Q)
qed

lemma wp_set_global_retry:
  assumes "jinv E s0 X s" "quiet s0 s"
    and Q: "\<And>e s'. jinv E s0 X s' \<Longrightarrow> same_items s s' \<Longrightarrow> e = None \<or> e = Some ErrClientPersistence \<Longrightarrow>
      budget s' = budget s \<Longrightarrow> Q e s'"
  shows "wp (set_global_retry E u) Q s"
proof -
  have q: "jinv E s0 X (s\<lparr>retry_until := r\<rparr>)" "quiet s0 (s\<lparr>retry_until := r\<rparr>)" for r
    using jinv_disk(5) [OF assms(1)] assms(2) by (auto simp: quiet_def)
  define r where "r = (if u = zero_time \<or> retry_until s < u then u else retry_until s)"
  have r: "(if u = zero_time \<or> retry_until s < u then s\<lparr>retry_until := u\<rparr> else s) = s\<lparr>retry_until := r\<rparr>"
    by (simp add: r_def)
  let ?s = "s\<lparr>retry_until := r, trace := EvBackoff u # trace s, feeds := (feeds s)\<lparr>fs_backoff := u\<rparr>\<rparr>"
  have items: "same_items s ?s" by (auto simp: same_items_def frame_def)
  have j: "jinv E s0 X ?s" using jinv_backoff [OF q, of u r] by simp
  have "wp (persist_feed_state E) (\<lambda>ok s'. Q (if ok then None else Some ErrClientPersistence) s') ?s"
    by (rule wp_persist_feed_state [OF j]) (auto intro!: Q same_items_trans [OF items])
  then show ?thesis
    unfolding set_global_retry_def set_global_backoff_def wp_simps r by (auto elim!: wp_mono split: if_splits)
qed

lemma wp_commit_item:
  assumes "jinv E s0 X s" "room E s0 (budget s)" "wire_fits E s0 actual"
    and Q: "\<And>e s'. jinv E s0 X s' \<Longrightarrow> same_items s s' \<Longrightarrow> Q e s'"
  shows "wp (commit E (max_item_bytes E + 1) actual) Q s"
  by (rule wp_commit [OF assms(1-3)]) (auto intro: Q budget_only_same_items)

lemma wp_commit_then_item:
  assumes "jinv E s0 X s" "room E s0 (budget s)" "wire_fits E s0 actual"
    and Q: "\<And>e' s'. jinv E s0 X s' \<Longrightarrow> same_items s s' \<Longrightarrow> e' = e \<or> e' = ErrClientPersistence \<Longrightarrow> Q e' s'"
  shows "wp (commit_then E (max_item_bytes E + 1) actual e) Q s"
  unfolding commit_then_def wp_simps by (rule wp_commit_item [OF assms(1-3)]) (auto intro: Q)

lemma wire_le:
  assumes "e_http E n = Some r"
  shows "0 \<le> max_item_bytes E + 1 \<Longrightarrow> wire_fits E s0 (int (min (nat (max_item_bytes E + 1)) k))"
    "wire_fits E s0 (s64 (int (r_gz_wire r)))" "wire_fits E s0 (s64 (int (snd (r_gz_header r))))"
    "wire_fits E s0 (int (min 4096 k))"
  using assms s64_bounds(2)
  by (auto simp: wire_fits_def amounts_ok_def overdraft_def max_int64_def)

lemma wire_fits_0: "wire_fits E s0 0"
  by (auto simp: wire_fits_def overdraft_def max_int64_def)

text \<open>The errors a response can end in once its status is accepted.\<close>

definition read_error :: "jerr \<Rightarrow> bool" where
  "read_error e \<longleftrightarrow> e \<in> {ErrTransport, ErrItemTooLarge, ErrClientPersistence}"

lemma wp_read_response:
  assumes "jinv E s0 X s" "room E s0 (budget s)" "e_http E n = Some r"
    and Q: "\<And>b s'. jinv E s0 X s' \<Longrightarrow> same_items s s' \<Longrightarrow> (\<forall>e. b = Inl e \<longrightarrow> read_error e) \<Longrightarrow> Q b s'"
  shows "wp (read_response E (max_item_bytes E + 1) r) Q s"
proof -
  obtain content failed wire where
    read: "(if is_gzip r then read_gzip else read_plain) r (nat (max_item_bytes E + 1)) = (content, failed, wire)"
    by (metis prod_cases3)
  have "wire_fits E s0 0" by (rule wire_fits_0)
  then have wire: "wire_fits E s0 wire"
    using read wire_le(1) [OF assms(3), of s0 "length (r_wire r)"] wire_le(2) [OF assms(3)]
    by (cases "0 \<le> max_item_bytes E + 1") (auto simp: read_gzip_def read_plain_def split: if_splits)
  have after: "wp (commit_then E (max_item_bytes E + 1) a e) (\<lambda>e. Q (Inl e)) s"
    if "wire_fits E s0 a" "read_error e" for a e
    by (rule wp_commit_then_item [OF assms(1,2) that(1)]) (use that(2) in \<open>auto simp: read_error_def intro!: Q\<close>)
  have fin: "wp (commit E (max_item_bytes E + 1) wire)
      (\<lambda>c s'. Q (if c \<noteq> None then Inl ErrClientPersistence else Inr content) s') s"
    by (rule wp_commit_item [OF assms(1,2) wire]) (auto simp: read_error_def intro!: Q)
  show ?thesis
    unfolding read_response_def wp_simps read prod.case
    using after [OF wire_le(3) [OF assms(3)], of ErrTransport] after [OF wire, of ErrTransport]
      after [OF wire, of ErrItemTooLarge] fin
    by (simp add: read_error_def wp_simps)
qed

lemma wp_poll_env:
  assumes "jinv E s0 X s"
    and Q: "\<And>c s'. jinv E s0 X s' \<Longrightarrow> budget_only s s' \<Longrightarrow> budget s' = budget s \<Longrightarrow> Q c s'"
  shows "wp (poll_env E) Q s"
  unfolding poll_env_def wp_simps by (rule wp_now_jinv [OF assms(1)]) (auto intro: Q)

lemma wp_note_retry:
  assumes "jinv E s0 X s" "quiet s0 s" "room E s0 (budget s)"
    and Q: "\<And>e s'. jinv E s0 X s' \<Longrightarrow> same_items s s' \<Longrightarrow> e = None \<or> e = Some ErrClientPersistence \<Longrightarrow>
      (e = None \<longrightarrow> budget s' = budget s) \<Longrightarrow> Q e s'"
  shows "wp (note_retry E (max_item_bytes E + 1) r d) Q s"
proof -
  have "wp (do { t \<leftarrow> now_op E; e \<leftarrow> set_global_retry E (t + d);
      if e \<noteq> None then do { _ \<leftarrow> commit E (max_item_bytes E + 1) 0; ret e } else ret None }) Q s" for d
    unfolding wp_bind
  proof (rule wp_now_jinv [OF assms(1)], goal_cases)
    case (1 t s1)
    have q: "quiet s0 s1" by (rule quiet_budget_only [OF 1(2) assms(2)])
    have b: "budget s1 = budget s" by (rule 1(4))
    show ?case
    proof (rule wp_set_global_retry [OF 1(1) q], goal_cases)
      case (1 e s2)
      then have room: "room E s0 (budget s2)" and same: "budget s2 = budget s" using b assms(3) by simp_all
      have items: "same_items s s2" using \<open>budget_only s s1\<close> 1(2) by (blast intro: budget_only_same_items same_items_trans)
      show ?case
      proof (cases "e = None")
        case True
        then show ?thesis using Q [OF 1(1) items] same by (simp add: wp_simps)
      next
        case False
        have "wp (commit E (max_item_bytes E + 1) 0) (\<lambda>_. Q e) s2"
          by (rule wp_commit_item [OF 1(1) room wire_fits_0])
            (use 1(3) same_items_trans [OF items] \<open>e \<noteq> None\<close> in \<open>auto intro: Q\<close>)
        then show ?thesis using False by (auto simp: wp_simps elim!: wp_mono)
      qed
    qed
  qed
  then show ?thesis
    unfolding note_retry_def using Q [OF assms(1)] by (auto simp: wp_return split: option.split)
qed

text \<open>What allows one request, apart from the global pacing and backoff.\<close>

definition may_request :: "jma_env \<Rightarrow> jma \<Rightarrow> request \<Rightarrow> string \<Rightarrow> jma \<Rightarrow> bool" where
  "may_request E s0 kind url s \<longleftrightarrow>
     (kind = DataReq \<longrightarrow> \<not> fetched s url
        \<and> (\<exists>u. validate_data_url (ae_parse (e_atom_env E)) (validator E) url = Inr u))
     \<and> (kind = FeedReq \<longrightarrow> planned E (trace s) url (clock s) \<and> (\<exists>long. url \<in> set (configured E long))
        \<and> (\<forall>st t'. EvHttp FeedReq st t' url \<in> set (trace s) \<longrightarrow> t' + floor_of E url \<le> clock s)
        \<and> (\<exists>u. validate_feed_url (ae_parse (e_atom_env E)) (validator E) url = Inr u))"

lemma may_request_budget_only:
  assumes "budget_only s s'" "may_request E s0 kind url s"
  shows "may_request E s0 kind url s'"
proof -
  have c: "clock s \<le> clock s'" "last_feeds (trace s') = last_feeds (trace s)" "fetched s' = fetched s"
    using assms(1) by (auto simp: budget_only_def)
  then have "planned E (trace s) url (clock s) \<longrightarrow> planned E (trace s') url (clock s')"
    by (fastforce simp: planned_def)
  with c assms show ?thesis unfolding may_request_def budget_only_events [OF assms(1)] by fastforce
qed

lemma event_ok_http:
  assumes "jinv E s0 X s" "quiet s0 s" "paced E s" "fatal s = None" "may_request E s0 kind url s"
    "amounts_ok E s0 \<longrightarrow> covered E (trace s) (clock s)"
  shows "event_ok E s0 (EvHttp kind (last_request s) (clock s) url) (trace s)"
proof -
  have "last_request s \<le> clock s" "\<forall>u. fetched s u \<longleftrightarrow> known s0 (trace s) u" "EvFatal \<notin> set (trace s)"
    using assms(1,4) by (auto simp: jinv_def)
  then show ?thesis using assms(2,3,5,6) by (auto simp: quiet_def paced_def may_request_def)
qed

lemma wp_do_request:
  assumes "jinv E s0 X s" "quiet s0 s" "paced E s" "fatal s = None" "may_request E s0 kind url s"
    "amounts_ok E s0 \<longrightarrow> covered E (trace s) (clock s)" "kind = FeedReq \<Longrightarrow> url \<in> X"
    and Q: "\<And>resp s'. jinv E s0 X s' \<Longrightarrow> same_items s s' \<Longrightarrow> quiet s0 s' \<Longrightarrow> budget s' = budget s \<Longrightarrow>
      (\<forall>r. resp = Some r \<longrightarrow> (\<exists>n. e_http E n = Some r)) \<Longrightarrow> Q resp s'"
  shows "wp (do_request E kind url) Q s"
proof -
  have "jinv E s0 X (s\<lparr>trace := EvHttp kind (last_request s) (clock s) url # trace s\<rparr>)"
    by (rule jinv_http [OF assms(1) event_ok_http [OF assms(1-6)] assms(7)])
  then show ?thesis
    using assms(2) by (auto simp: do_request_def wp_simps quiet_def same_items_def frame_def intro!: Q)
qed

lemma wp_reserved_request:
  assumes "env_ok E" "jinv E s0 X s" "fatal s = None" "may_request E s0 kind url s" "X \<subseteq> Y" "kind = FeedReq \<Longrightarrow> url \<in> Y"
    and A: "\<And>e s'. jinv E s0 X s' \<Longrightarrow> budget_only s s' \<Longrightarrow> e \<in> {ErrGlobalRetryActive, ErrCancelled} \<Longrightarrow> A e s'"
    and B: "\<And>e s'. jinv E s0 X s' \<Longrightarrow> budget_only s s' \<Longrightarrow> (\<forall>st d h. e \<noteq> ErrUpstream st d h) \<Longrightarrow> B e s'"
    and C: "\<And>resp s'. jinv E s0 Y s' \<Longrightarrow> same_items s s' \<Longrightarrow> quiet s0 s' \<Longrightarrow> room E s0 (budget s') \<Longrightarrow>
      (\<forall>r. resp = Some r \<longrightarrow> (\<exists>n. e_http E n = Some r)) \<Longrightarrow> C resp s'"
  shows "wp (wait_rate_limit E) (\<lambda>w s1.
      (w = None \<longrightarrow> wp (reserve E (max_item_bytes E + 1)) (\<lambda>e s2.
          (e = None \<longrightarrow> wp (do_request E kind url) C s2) \<and> (\<forall>a. e = Some a \<longrightarrow> B a s2)) s1)
      \<and> (\<forall>a. w = Some a \<longrightarrow> A a s1)) s"
proof (rule wp_wait_rate_limit [OF assms(1,2)], intro conjI impI allI, goal_cases)
  case (1 w s1)
  note w = 1
  show ?case
  proof (rule wp_reserve [OF w(1)], intro conjI impI allI, goal_cases)
    case (1 e s2)
    have b: "budget_only s s2" using w(2) 1(2) by (rule budget_only_trans)
    have "quiet s0 s2" "paced E s2"
      using w(4,5) 1 quiet_budget_only [OF 1(2)] paced_budget_only [OF 1(2)] by auto
    moreover have room: "room E s0 (budget s2)" "amounts_ok E s0 \<longrightarrow> covered E (trace s2) (clock s2)"
      using 1(4) \<open>e = None\<close> by simp_all
    moreover have "fatal s2 = None" using b assms(3) by (simp add: budget_only_def)
    ultimately show ?case
      using assms(6) budget_only_same_items [OF b]
      by (intro wp_do_request [OF jinv_subset [OF 1(1) assms(5)] _ _ _ may_request_budget_only [OF b assms(4)] room(2)] C)
        (auto intro: same_items_trans)
  next
    case (2 e s2 a)
    then show ?case using w(2) by (intro B) (auto intro: budget_only_trans)
  qed
next
  case (2 w s1 a)
  then show ?case by (intro A) auto
qed

section \<open>Fetches\<close>

lemma wp_fetch_data:
  assumes "env_ok E" "jinv E s0 X s" "fatal s = None" "\<not> fetched s url"
    and Q: "\<And>r s'. jinv E s0 X s' \<Longrightarrow> same_items s s' \<Longrightarrow> (\<forall>st d h. r = Inl (ErrUpstream st d h) \<longrightarrow> st \<noteq> 200) \<Longrightarrow> Q r s'"
  shows "wp (fetch_data E url) Q s"
proof (cases "validate_data_url (ae_parse (e_atom_env E)) (validator E) url")
  case (Inl e)
  then show ?thesis using Q [OF assms(2)] by (simp add: fetch_data_def wp_simps)
next
  case (Inr u)
  then have may: "may_request E s0 DataReq url s" using assms(4) by (simp add: may_request_def)
  show ?thesis
    unfolding fetch_data_def Inr sum.case wp_simps wp_option Let_def
  proof (rule wp_reserved_request [OF assms(1-3) may order_refl], goal_cases)
    case (2 e s')
    then show ?case by (intro Q) (auto dest: budget_only_same_items)
  next
    case (3 e s')
    then show ?case by (intro Q) (auto dest: budget_only_same_items)
  next
    case (4 resp s1)
    note q = 4
    let ?n = "max_item_bytes E + 1"
    have trans: "same_items s1 s' \<Longrightarrow> same_items s s'" for s' by (rule same_items_trans [OF 4(2)])
    show ?case
    proof (intro conjI impI allI, goal_cases)
      case 1
      show ?case by (rule wp_commit_then_item [OF q(1,4) wire_fits_0]) (auto intro!: Q trans)
    next
      case (2 r)
      then obtain n where n: "e_http E n = Some r" using q(5) by auto
      show ?case
      proof (cases "301 \<le> r_status r \<and> r_status r \<le> 308")
        case True
        show ?thesis
          unfolding if_P [OF True] by (rule wp_commit_then_item [OF q(1,4) wire_fits_0]) (auto intro!: Q trans)
      next
        case False
        show ?thesis
          unfolding if_not_P [OF False]
        proof (rule wp_poll_env [OF q(1)], goal_cases)
          case (1 c s2)
          have s2: "same_items s s2" by (rule trans [OF budget_only_same_items [OF 1(2)]])
          have r2: "room E s0 (budget s2)" using 1(3) q(4) by simp
          show ?case
          proof (rule wp_note_retry [OF 1(1) quiet_budget_only [OF 1(2) q(3)] r2], goal_cases)
            case (1 e s3)
            note s3 = 1(1-3) same_items_trans [OF s2 1(2)]
            have r3: "room E s0 (budget s3)" if "e = None" using 1(4) r2 that by simp
            have t3: "same_items s3 s' \<Longrightarrow> same_items s s'" for s' by (rule same_items_trans [OF s3(4)])
            show ?case
              using s3(3)
              by (auto simp: wp_simps intro!: Q s3 t3 wp_commit_item [OF s3(1) r3 wire_le(4) [OF n]]
                  wp_read_response [OF s3(1) r3 n] simp: read_error_def split: if_splits)
          qed
        qed
      qed
    qed
  qed simp
qed

lemma wp_fetch_feed:
  assumes "env_ok E" "jinv E s0 {} s" "fatal s = None" "planned E (trace s) url (clock s)" "url \<in> set (configured E long)"
    "\<forall>st t'. EvHttp FeedReq st t' url \<in> set (trace s) \<longrightarrow> t' + floor_of E url \<le> clock s"
    and Q: "\<And>r s'. jinv E s0 {url} s' \<Longrightarrow> same_items s s' \<Longrightarrow>
      (\<forall>h. r = Inl (h, ErrDailyByteLimitExceeded) \<longrightarrow> jinv E s0 {} s') \<Longrightarrow> Q r s'"
  shows "wp (fetch_feed E url) Q s"
proof (cases "validate_feed_url (ae_parse (e_atom_env E)) (validator E) url")
  case (Inl e)
  then show ?thesis using Q [OF jinv_subset [OF assms(2)]] by (simp add: fetch_feed_def wp_simps)
next
  case (Inr u)
  then have may: "may_request E s0 FeedReq url s" using assms(4-6) by (auto simp: may_request_def)
  show ?thesis
    unfolding fetch_feed_def Inr sum.case wp_simps wp_option Let_def
  proof (rule wp_reserved_request [OF assms(1-3) may empty_subsetI [of "{url}"]], goal_cases)
    case (2 e s')
    then show ?case by (intro Q) (auto dest: budget_only_same_items jinv_subset)
  next
    case (3 e s')
    then show ?case by (intro Q) (auto dest: budget_only_same_items jinv_subset)
  next
    case (4 resp s1)
    note q = 4
    have trans: "same_items s1 s' \<Longrightarrow> same_items s s'" for s' by (rule same_items_trans [OF 4(2)])
    show ?case
    proof (intro conjI impI allI, goal_cases)
      case 1
      show ?case by (rule wp_commit_then_item [OF q(1,4) wire_fits_0]) (auto intro!: Q trans)
    next
      case (2 r)
      then obtain n where n: "e_http E n = Some r" using q(5) by auto
      show ?case
      proof (cases "301 \<le> r_status r \<and> r_status r \<le> 308 \<and> r_status r \<noteq> 304")
        case True
        show ?thesis
          unfolding if_P [OF True] by (rule wp_commit_then_item [OF q(1,4) wire_fits_0]) (auto intro!: Q trans)
      next
        case False
        show ?thesis
          unfolding if_not_P [OF False]
        proof (rule wp_poll_env [OF q(1)], rule wp_poll_env, assumption, goal_cases)
          case (1 c s2 c' s3)
          have bo: "budget_only s1 s3" by (rule budget_only_trans [OF 1(2,5)])
          have s3: "same_items s s3" by (rule trans [OF budget_only_same_items [OF bo]])
          have r3: "room E s0 (budget s3)" using 1(3,6) q(4) by simp
          show ?case
          proof (rule wp_note_retry [OF 1(4) quiet_budget_only [OF bo q(3)] r3], goal_cases)
            case (1 e s4)
            note s4 = 1(1-3) same_items_trans [OF s3 1(2)]
            have r4: "room E s0 (budget s4)" if "e = None" using 1(4) r3 that by simp
            have t4: "same_items s4 s' \<Longrightarrow> same_items s s'" for s' by (rule same_items_trans [OF s4(4)])
            show ?case
              using s4(3)
              by (auto simp: wp_simps intro!: Q s4 t4 wp_commit_item [OF s4(1) r4 wire_le(4) [OF n]]
                  wp_commit_item [OF s4(1) r4 wire_fits_0] wp_read_response [OF s4(1) r4 n]
                  simp: read_error_def split: if_splits sum.splits)
          qed
        qed
      qed
    qed
  qed simp
qed

section \<open>The fatal latch\<close>

lemma jinv_fatal:
  assumes "jinv E s0 X s"
  shows "jinv E s0 {} (s\<lparr>fatal := Some e, trace := EvFatal # trace s\<rparr>)" (is "jinv E s0 {} ?s")
proof -
  have "known s0 (trace ?s) = known s0 (trace s)" by (auto simp: known_def fun_eq_iff)
  moreover have "feeds_covered E {} ?s" by (simp add: feeds_covered_def)
  moreover have "backoff_covered s0 ?s = backoff_covered s0 s" "spool_named E ?s = spool_named E s" "in_spool ?s = in_spool s"
    by (auto simp: backoff_covered_def spool_named_def in_spool_def fun_eq_iff)
  ultimately show ?thesis using assms by (auto simp: jinv_def)
qed

lemma jinv_latched: "jinv E s0 X s \<Longrightarrow> fatal s \<noteq> None \<Longrightarrow> jinv E s0 Y s"
  by (simp add: jinv_def feeds_covered_def)

lemma wp_set_fatal:
  assumes "jinv E s0 X s"
    and Q: "\<And>s'. jinv E s0 {} s' \<Longrightarrow> frame {} s s' \<Longrightarrow> fatal s' \<noteq> None \<Longrightarrow> Q () s'"
  shows "wp (set_fatal e) Q s"
proof (cases "fatal s")
  case None
  have "frame {} s (s\<lparr>fatal := Some e, trace := EvFatal # trace s\<rparr>)" by (auto simp: frame_def)
  then show ?thesis using None jinv_fatal [OF assms(1)] by (simp add: set_fatal_def wp_simps Q)
next
  case (Some f)
  then show ?thesis using jinv_latched [OF assms(1), of "{}"] by (simp add: set_fatal_def wp_simps Q)
qed

lemma wp_durable:
  assumes "wp m (\<lambda>e s'. jinv E s0 X s' \<and> frame U s s' \<and> (e = None \<longrightarrow> Q True s')) s"
    and Q: "\<And>s'. jinv E s0 {} s' \<Longrightarrow> frame U s s' \<Longrightarrow> fatal s' \<noteq> None \<Longrightarrow> Q False s'"
  shows "wp (durable m) Q s"
  unfolding durable_def wp_bind
proof (rule wp_mono [OF assms(1)], goal_cases)
  case (1 e s1)
  show ?case
  proof (cases e)
    case (Some a)
    have "wp (set_fatal a) (\<lambda>_. Q False) s1"
      by (rule wp_set_fatal) (use 1 in \<open>auto intro!: Q elim: frame_trans frame_subset\<close>)
    then show ?thesis using Some by (auto simp: wp_simps elim: wp_mono)
  qed (use 1 in \<open>simp add: wp_simps\<close>)
qed

section \<open>History and spool\<close>

lemma spool_named_cong: "spool_named E s \<Longrightarrow> d_spool s' = d_spool s \<Longrightarrow> spool_named E s'"
  unfolding spool_named_def by metis

lemma spool_named_update: "spool_named E s \<Longrightarrow>
    spool_named E (s\<lparr>d_spool := AList.update (spool_item_key E (sp_item_url item)) (SpoolOk item) (d_spool s)\<rparr>)"
  by (auto simp: spool_named_def update_conv' distinct_update)

lemma in_spool_update: "in_spool (s\<lparr>d_spool := AList.update k f (d_spool s)\<rparr>) k' \<longleftrightarrow> k' = k \<or> in_spool s k'"
  by (auto simp: in_spool_def update_conv')

lemma spool_named_delete: "spool_named E s \<Longrightarrow> spool_named E (s\<lparr>d_spool := AList.delete k (d_spool s)\<rparr>)"
  by (auto simp: spool_named_def delete_conv' distinct_delete split: if_splits)

lemma in_spool_delete: "in_spool (s\<lparr>d_spool := AList.delete k (d_spool s)\<rparr>) k' \<Longrightarrow> in_spool s k'"
  by (auto simp: in_spool_def delete_conv' split: if_splits)

lemma jinv_spooled:
  assumes "jinv E s0 X s"
  shows "jinv E s0 X (s\<lparr>d_spool := AList.update (spool_item_key E (sp_item_url item)) (SpoolOk item) (d_spool s),
    trace := EvSpooled (spool_item_key E (sp_item_url item)) # trace s\<rparr>)" (is "jinv E s0 X ?s")
proof -
  have "known s0 (trace ?s) = known s0 (trace s)" by (auto simp: known_def fun_eq_iff)
  moreover have "feeds_covered E X ?s = feeds_covered E X s" "backoff_covered s0 ?s = backoff_covered s0 s"
    by (auto simp: feeds_covered_def backoff_covered_def)
  moreover have "spool_named E s \<Longrightarrow> spool_named E ?s"
    by (drule spool_named_update [of E s item], erule spool_named_cong, simp)
  moreover have "in_spool ?s = (\<lambda>k. k = spool_item_key E (sp_item_url item) \<or> in_spool s k)"
    using in_spool_update by (simp add: in_spool_def fun_eq_iff)
  ultimately show ?thesis using assms unfolding jinv_def by (simp add: all_conj_distrib imp_conjL)
qed

lemma jinv_marked:
  assumes "jinv E s0 X s"
  shows "jinv E s0 X (s\<lparr>trace := EvFetched u # trace s, fetched := (fetched s)(u := True)\<rparr>)" (is "jinv E s0 X ?s")
proof -
  have "known s0 (trace ?s) = (known s0 (trace s))(u := True)" by (auto simp: known_def fun_eq_iff)
  moreover have "feeds_covered E X ?s = feeds_covered E X s" "backoff_covered s0 ?s = backoff_covered s0 s"
    "spool_named E ?s = spool_named E s" "in_spool ?s = in_spool s"
    by (auto simp: feeds_covered_def backoff_covered_def spool_named_def in_spool_def fun_eq_iff)
  ultimately show ?thesis using assms unfolding jinv_def by simp
qed

lemma jinv_deleted:
  assumes "jinv E s0 X s"
  shows "jinv E s0 X (s\<lparr>d_spool := AList.delete k (d_spool s)\<rparr>)" (is "jinv E s0 X ?s")
proof -
  have "feeds_covered E X ?s = feeds_covered E X s" "backoff_covered s0 ?s = backoff_covered s0 s"
    by (auto simp: feeds_covered_def backoff_covered_def)
  then show ?thesis
    using assms spool_named_delete [of E s k] in_spool_delete [where s = s and k = k] unfolding jinv_def by simp
qed

lemma jinv_unspooled:
  assumes "jinv E s0 X s" "fetched s url"
  shows "jinv E s0 X (s\<lparr>d_spool := AList.delete (spool_item_key E url) (d_spool s),
    trace := EvUnspooled (spool_item_key E url) url # trace s\<rparr>)"
proof -
  have "known s0 (trace s) url" using assms by (simp add: jinv_def)
  then show ?thesis
    using jinv_event [OF jinv_deleted [OF assms(1)], of "EvUnspooled (spool_item_key E url) url" "spool_item_key E url"]
    by simp
qed

lemma jinv_quarantined:
  assumes "jinv E s0 X s"
  shows "jinv E s0 X (quarantine_file k s)"
  using jinv_disk(4) [OF jinv_deleted [OF assms, of k]] assms by (simp add: quarantine_file_def split: option.split)

lemma same_items_quarantine [simp]: "same_items s (quarantine_file k s)"
  by (simp add: same_items_def frame_def quarantine_file_def split: option.split)

text \<open>An item is backed by the spool when its file was written, now or before the run.\<close>

definition backed :: "jma_env \<Rightarrow> jma \<Rightarrow> string \<Rightarrow> jma \<Rightarrow> bool" where
  "backed E s0 url s \<longleftrightarrow> EvSpooled (spool_item_key E url) \<in> set (trace s) \<or> in_spool s0 (spool_item_key E url)"

lemma backed_frame: "frame U s s' \<Longrightarrow> backed E s0 url s \<Longrightarrow> backed E s0 url s'"
  by (auto simp: backed_def frame_def)

lemma wp_save_spool:
  assumes "jinv E s0 X s"
    and Q: "\<And>e s'. jinv E s0 X s' \<Longrightarrow> same_items s s' \<Longrightarrow> (e = None \<longrightarrow> backed E s0 (sp_item_url item) s') \<Longrightarrow> Q e s'"
  shows "wp (save_spool E item) Q s"
proof -
  have t: "jinv E s0 X (s\<lparr>tick := tick s + 1\<rparr>)" using assms(1) by simp
  show ?thesis
    using t jinv_spooled [OF t, of item]
    by (auto simp: save_spool_def atomic_write_def wp_simps same_items_def frame_def backed_def intro!: Q)
qed

lemma wp_mark_fetched:
  assumes "jinv E s0 X s"
    and Q: "\<And>e s'. jinv E s0 X s' \<Longrightarrow> frame {url} s s' \<Longrightarrow> fatal s' = fatal s \<Longrightarrow> (e = None \<longrightarrow> fetched s' url) \<Longrightarrow> Q e s'"
  shows "wp (mark_fetched E url) Q s"
proof -
  have h: "jinv E s0 X (s\<lparr>tick := n\<rparr>)" "jinv E s0 X (s\<lparr>d_history := h, tick := n\<rparr>)" for n h
    using assms(1) jinv_disk(3) [of E s0 X s h] by auto
  show ?thesis
    using assms(1) h(1) [of "tick s + 1"] h(2) [where n = "tick s + 2"] jinv_marked [OF h(2) [where n = "tick s + 2"], where u = url]
    by (auto simp: mark_fetched_def append_history_def wp_simps frame_def intro!: Q split: stored.splits)
qed

lemma wp_delete_spool:
  assumes "jinv E s0 X s" "fetched s url"
    and Q: "\<And>e s'. jinv E s0 X s' \<Longrightarrow> same_items s s' \<Longrightarrow> Q e s'"
  shows "wp (delete_spool E url) Q s"
proof -
  have t: "jinv E s0 X (s\<lparr>tick := tick s + 1\<rparr>)" using assms(1) by simp
  show ?thesis
    using t jinv_unspooled [OF t, of url] assms(2)
    by (auto simp: delete_spool_def wp_simps same_items_def frame_def intro!: Q)
qed

lemma wp_quarantine:
  assumes "jinv E s0 X s"
    and Q: "\<And>s'. jinv E s0 X s' \<Longrightarrow> same_items s s' \<Longrightarrow> Q () s'"
  shows "wp (do { modify (quarantine_file k); emit (EvQuarantined k) }) Q s"
proof -
  have "jinv E s0 X ((quarantine_file k s)\<lparr>trace := EvQuarantined k # trace (quarantine_file k s)\<rparr>)"
    by (rule jinv_event [OF jinv_quarantined [OF assms(1)]]) simp_all
  moreover have "same_items (quarantine_file k s)
      ((quarantine_file k s)\<lparr>trace := EvQuarantined k # trace (quarantine_file k s)\<rparr>)"
    by (auto simp: same_items_def frame_def)
  ultimately show ?thesis
    using same_items_trans [OF same_items_quarantine [of s k]] by (auto simp: wp_simps intro!: Q)
qed

lemma wp_quarantine_spool:
  assumes "jinv E s0 X s"
    and Q: "\<And>e s'. jinv E s0 X s' \<Longrightarrow> same_items s s' \<Longrightarrow> Q e s'"
  shows "wp (quarantine_spool E url) Q s"
proof -
  have t: "jinv E s0 X (s\<lparr>tick := n\<rparr>)" "same_items s (s\<lparr>tick := n\<rparr>)" for n
    using assms(1) by (auto simp: same_items_def frame_def)
  have "wp (do { modify (quarantine_file (spool_item_key E url)); emit (EvQuarantined (spool_item_key E url)) })
      (\<lambda>_. Q None) (s\<lparr>tick := n\<rparr>)" for n
    by (rule wp_quarantine [OF t(1)]) (auto intro!: Q same_items_trans [OF t(2)])
  from this [of "tick s + 2"] show ?thesis
    using t(1) [of "tick s + 1"] t(2) [of "tick s + 1"] t(1) [of "tick s + 2"] t(2) [of "tick s + 2"]
    by (auto simp: quarantine_spool_def wp_simps intro!: Q)
qed

section \<open>Delivery\<close>

lemma wp_core_send:
  assumes "jinv E s0 X s" "fatal s = None" "status \<in> {200, 400, 404, 410} \<longrightarrow> backed E s0 url s"
    and Q: "\<And>b s'. jinv E s0 X s' \<Longrightarrow> same_items s s' \<Longrightarrow> Q b s'"
  shows "wp (core_send E url status has_error) Q s"
proof -
  have "jinv E s0 X (s\<lparr>trace := EvSent url status # trace s\<rparr>)"
    using assms(1-3) by (intro jinv_event) (auto simp: backed_def jinv_def)
  then show ?thesis by (auto simp: core_send_def wp_simps same_items_def frame_def intro!: Q)
qed

lemma jinv_open: "jinv E s0 {} s \<Longrightarrow> jinv E s0 X s"
  by (rule jinv_subset) auto

lemma wp_save_attempt:
  assumes "jinv E s0 X s"
    and Q: "\<And>b s'. jinv E s0 X s' \<Longrightarrow> frame {} s s' \<Longrightarrow> Q b s'"
  shows "wp (save_attempt E item) Q s"
  unfolding save_attempt_def wp_simps
proof (rule wp_now_jinv [OF assms(1)], goal_cases)
  case (1 t s1)
  have f: "frame {} s s1" using budget_only_frame [OF 1(2)] by blast
  show ?case
  proof (rule wp_durable [where E = E and X = X and U = "{}" and ?s0.0 = s0], rule wp_save_spool [OF 1(1)], goal_cases)
    case (1 e s2)
    then show ?case using frame_trans [OF f] by (auto simp: same_items_def intro!: Q)
  next
    case (2 s2)
    then show ?case using frame_trans [OF f] by (auto intro!: Q jinv_open)
  qed
qed

text \<open>What follows once the item is spooled and marked.\<close>

lemma wp_send_marked:
  assumes "jinv E s0 X s" "fatal s = None" "backed E s0 url s" "fetched s url"
    and Q: "\<And>b s'. jinv E s0 X s' \<Longrightarrow> frame {} s s' \<Longrightarrow> Q b s'"
  shows "wp (core_send E url status b) (\<lambda>sent s'.
      (sent \<longrightarrow> wp (durable (delete_spool E url)) Q s') \<and> (\<not> sent \<longrightarrow> wp (save_attempt E item) Q s')) s"
proof (rule wp_core_send [OF assms(1,2)], goal_cases)
  case (2 sent s1)
  have f: "frame {} s s1" "fetched s1 url" using 2(2) assms(1,4) 2(1) by (auto simp: same_items_def frame_def jinv_def known_def)
  show ?case
  proof (intro conjI impI, goal_cases)
    case 1
    show ?case
    proof (rule wp_durable [where E = E and X = X and U = "{}" and ?s0.0 = s0], rule wp_delete_spool [OF 2(1) f(2)], goal_cases)
      case (1 e s2)
      then show ?case using frame_trans [OF f(1)] by (auto simp: same_items_def intro!: Q)
    next
      case (2 s2)
      then show ?case using frame_trans [OF f(1)] by (auto intro!: Q jinv_open)
    qed
  next
    case 2
    show ?case by (rule wp_save_attempt [OF \<open>jinv E s0 X s1\<close>]) (auto intro!: Q elim: frame_trans [OF f(1)])
  qed
qed (use assms(3) in simp)

lemma wp_deliver:
  assumes "jinv E s0 X s" "fatal s = None"
    and Q: "\<And>s'. jinv E s0 X s' \<Longrightarrow> frame {sp_item_url item} s s' \<Longrightarrow> Q () s'"
  shows "wp (deliver E item) Q s"
  unfolding deliver_def wp_simps
proof (rule wp_durable [where E = E and X = X and U = "{}" and ?s0.0 = s0], rule wp_save_spool [OF assms(1)], goal_cases)
  case (1 e s1)
  let ?U = "{sp_item_url item}"
  have f1: "frame ?U s s1" "fatal s1 = None" using 1(2) assms(2) frame_subset by (auto simp: same_items_def)
  have "wp (durable (mark_fetched E (sp_item_url item))) (\<lambda>marked s'. if \<not> marked then Q () s'
     else wp (core_send E (sp_item_url item) (sp_status item) (sp_error item \<noteq> None)) (\<lambda>sent s'.
       if sent then wp (durable (delete_spool E (sp_item_url item))) (\<lambda>_. Q ()) s'
       else wp (save_attempt E item) (\<lambda>_. Q ()) s') s') s1" if "backed E s0 (sp_item_url item) s1"
  proof (rule wp_durable [where E = E and X = X and U = ?U and ?s0.0 = s0], rule wp_mark_fetched [OF 1(1)], goal_cases)
    case (1 e s2)
    have f2: "frame ?U s s2" using f1(1) 1(2) by (rule frame_trans)
    have "wp (core_send E (sp_item_url item) (sp_status item) (sp_error item \<noteq> None)) (\<lambda>sent s'.
       (sent \<longrightarrow> wp (durable (delete_spool E (sp_item_url item))) (\<lambda>_. Q ()) s')
       \<and> (\<not> sent \<longrightarrow> wp (save_attempt E item) (\<lambda>_. Q ()) s')) s2" if "e = None"
      by (rule wp_send_marked [OF 1(1) _ backed_frame [OF 1(2) \<open>backed E s0 (sp_item_url item) s1\<close>]])
        (use 1 f1 that in \<open>auto intro!: Q frame_trans [OF f2] elim: frame_subset\<close>)
    then show ?case using 1 by (auto elim: wp_mono)
  next
    case (2 s2)
    then show ?case using frame_trans [OF f1(1)] by (auto intro!: Q jinv_open)
  qed
  then show ?case using 1 by (simp add: same_items_def)
next
  case (2 s1)
  then show ?case by (auto intro!: Q jinv_open elim: frame_subset)
qed

section \<open>Acquisition\<close>

lemma wp_fetch_and_ingest:
  assumes "env_ok E" "jinv E s0 X s" "\<not> fetched s url"
    and Q: "\<And>s'. jinv E s0 X s' \<Longrightarrow> frame {url} s s' \<Longrightarrow> Q () s'"
  shows "wp (fetch_and_ingest E url feed) Q s"
proof (cases "fatal s = None")
  case False
  then show ?thesis using Q [OF assms(2)] by (auto simp: fetch_and_ingest_def is_fatal_def wp_simps)
next
  case True
  show ?thesis
    unfolding fetch_and_ingest_def is_fatal_def wp_simps
  proof (simp add: True, rule wp_now_jinv [OF assms(2)], goal_cases)
    case (1 t s1)
    have f1: "frame {url} s s1" "fatal s1 = None" "\<not> fetched s1 url"
      using budget_only_frame [OF 1(2)] True 1(2) assms(3) by (auto simp: budget_only_def)
    show ?case
    proof (rule wp_fetch_data [OF assms(1) 1(1) f1(2,3)], goal_cases)
      case (1 r s2)
      have f2: "frame {url} s s2" "fatal s2 = None"
        using 1(2) f1 frame_trans [OF f1(1)] frame_subset by (auto simp: same_items_def)
      have deliver: "wp (deliver E item) Q s2" if "sp_item_url item = url" for item
        by (rule wp_deliver [OF 1(1) f2(2)], rule Q) (use that frame_trans [OF f2(1)] in auto)
      have fatal: "wp (set_fatal e) Q s2" for e
        by (rule wp_set_fatal [OF 1(1)]) (auto intro!: Q jinv_open frame_trans [OF f2(1)] elim: frame_subset)
      have send: "wp (do { _ \<leftarrow> core_send E url st True; ret () }) Q s2" if "st \<notin> {200, 400, 404, 410}" for st
        unfolding wp_simps
        by (rule wp_core_send [OF 1(1) f2(2)])
          (use that in \<open>auto simp: same_items_def intro!: Q frame_trans [OF f2(1)] elim: frame_subset\<close>)
      have "wp (fetch_failed E url feed t e) Q s2" if "r = Inl e" for e
        unfolding fetch_failed_def
        using that 1(3) Q [OF 1(1) f2(1)] fatal send [of 0] send deliver
        by (auto simp: wp_return new_item_def split: jerr.split)
      then show ?case
        using deliver by (auto simp: wp_sum new_item_def Let_def split: sum.split prod.split)
    qed
  qed
qed

lemma wp_ingest_each:
  assumes "env_ok E" "jinv E s0 X s" "\<forall>i \<in> set items. \<not> fetched s (ix_item_url i)" "distinct (map ix_item_url items)"
    and Q: "\<And>b s'. jinv E s0 X s' \<Longrightarrow> frame (ix_item_url ` set items) s s' \<Longrightarrow> Q b s'"
  shows "wp (each (ingest_item E) items) Q s"
  using assms(2-) unfolding ingest_item_def
proof (induction items arbitrary: s Q)
  case Nil
  then show ?case by (simp add: wp_simps)
next
  case (Cons i items)
  show ?case
    unfolding each.simps wp_simps
  proof (simp, rule wp_fetch_and_ingest [OF assms(1) Cons.prems(1)], goal_cases)
    case (2 s1)
    have new: "\<not> fetched s1 (ix_item_url j)" if "j \<in> set items" for j
    proof -
      have "ix_item_url j \<in> ix_item_url ` set items" using that by simp
      then have "ix_item_url j \<noteq> ix_item_url i" using Cons.prems(3) by auto
      then show ?thesis using 2(2) Cons.prems(2) that unfolding frame_def by auto
    qed
    show ?case
    proof (rule Cons.IH [OF 2(1)], goal_cases)
      case (3 s2 b)
      have "frame (ix_item_url ` set (i # items)) s s1" by (rule frame_subset [OF 2(2)]) auto
      moreover have "frame (ix_item_url ` set (i # items)) s1 s2" by (rule frame_subset [OF 3(2)]) auto
      ultimately show ?case using 3(1) by (intro Cons.prems(4)) (auto intro: frame_trans)
    qed (use Cons.prems(3) new in simp_all)
  qed (use Cons.prems(2) in simp)
qed

section \<open>Schedules\<close>

lemma jinv_schedule:
  assumes "jinv E s0 X s" "X \<subseteq> insert url Y"
    "\<forall>st t. EvHttp FeedReq st t url \<in> set (trace s) \<longrightarrow> url \<in> Y \<or> t + floor_of E url \<le> fs_next_allowed new"
  shows "jinv E s0 Y (s\<lparr>feeds := (feeds s)\<lparr>fs_feeds := (fs_feeds (feeds s))(url \<mapsto> new)\<rparr>\<rparr>)" (is "jinv E s0 Y ?s")
proof -
  have "feeds_covered E X s \<Longrightarrow> feeds_covered E Y ?s"
    using assms(2,3) unfolding feeds_covered_def by (auto simp: schedule_of_def) blast+
  moreover have "backoff_covered s0 ?s = backoff_covered s0 s" "spool_named E ?s = spool_named E s" "in_spool ?s = in_spool s"
    by (auto simp: backoff_covered_def spool_named_def in_spool_def fun_eq_iff)
  ultimately show ?thesis using assms(1) unfolding jinv_def by simp
qed

lemma wp_update_schedule:
  assumes "jinv E s0 X s" "X \<subseteq> insert url Y"
    "\<forall>st t. EvHttp FeedReq st t url \<in> set (trace s) \<longrightarrow> url \<in> Y \<or>
       t + floor_of E url \<le> fs_next_allowed (upd (schedule_of (feeds s) url))"
    and Q: "\<And>e s'. jinv E s0 Y s' \<Longrightarrow> same_items s s' \<Longrightarrow> clock s' = clock s \<Longrightarrow> fs_backoff (feeds s') = fs_backoff (feeds s) \<Longrightarrow>
      (e = None \<longrightarrow> (\<exists>m. last_feeds (trace s') = Some m \<and> m url = Some (upd (schedule_of (feeds s) url)))) \<Longrightarrow>
      (\<forall>e \<in> set (trace s'). e \<in> set (trace s) \<or> (\<exists>m. e = EvFeeds m)) \<Longrightarrow> Q e s'"
  shows "wp (update_schedule E url upd) Q s"
  unfolding update_schedule_def wp_simps
  by (rule wp_persist_feed_state [OF jinv_schedule [OF assms(1-3)]])
    (auto simp: same_items_def frame_def split: if_splits intro!: Q)

lemma wp_return_eta: "wp (ret x) Q = Q x"
  by (simp add: fun_eq_iff wp_return)

lemma wp_bind_eta: "wp (State_Monad.bind m f) Q = wp m (\<lambda>x. wp (f x) Q)"
  by (simp add: fun_eq_iff wp_bind)

lemma wp_core_index:
  assumes "jinv E s0 X s" "fatal s = None"
    and Q: "\<And>b s'. jinv E s0 X s' \<Longrightarrow> same_items s s' \<Longrightarrow> Q b s'"
  shows "wp (core_index E n) Q s"
proof -
  have "jinv E s0 X (s\<lparr>trace := EvCore # trace s\<rparr>)"
    using assms(1,2) by (intro jinv_event) (auto simp: jinv_def)
  then show ?thesis by (auto simp: core_index_def wp_simps same_items_def frame_def intro!: Q)
qed

text \<open>Recording the outcome of a poll closes the feed, if the next poll is far enough away.\<close>

lemma wp_close_schedule:
  assumes "jinv E s0 {url} s"
    "\<forall>st t. EvHttp FeedReq st t url \<in> set (trace s) \<longrightarrow> t + floor_of E url \<le> fs_next_allowed (upd (schedule_of (feeds s) url))"
    and Q: "\<And>b s'. jinv E s0 {} s' \<Longrightarrow> frame {} s s' \<Longrightarrow> Q b s'"
  shows "wp (durable (update_schedule E url upd)) Q s"
proof (rule wp_durable [where E = E and X = "{}" and U = "{}" and ?s0.0 = s0], rule wp_update_schedule [OF assms(1), where Y = "{}"], goal_cases)
  case 2
  then show ?case using assms(2) by blast
qed (auto simp: same_items_def intro!: Q)

lemma floor_of_le:
  "url \<in> set (configured E long) \<Longrightarrow> floor_of E url \<le> feed_floor E long"
  "env_ok E \<Longrightarrow> 0 \<le> floor_of E url" "env_ok E \<Longrightarrow> 0 \<le> feed_floor E long"
  by (auto simp: floor_of_def feed_floor_def env_ok_def configured_def split: if_splits)

lemma wp_schedule_success:
  assumes "jinv E s0 {url} s" "floor_of E url \<le> delay"
    and Q: "\<And>b s'. jinv E s0 {} s' \<Longrightarrow> frame {} s s' \<Longrightarrow> Q b s'"
  shows "wp (schedule_success E url delay) Q s"
  unfolding schedule_success_def record_feed_success_def wp_simps
proof (rule wp_now_jinv [OF assms(1)], goal_cases)
  case (1 t s1)
  have "frame {} s s1" using budget_only_frame [OF 1(2)] by blast
  moreover have "\<forall>st t'. EvHttp FeedReq st t' url \<in> set (trace s1) \<longrightarrow> t' + floor_of E url \<le> t + delay"
    using jinv_http_past [OF 1(1)] assms(2) \<open>clock s1 = t\<close> by fastforce
  ultimately show ?case
    by (intro wp_close_schedule [OF 1(1)]) (auto intro!: Q elim: frame_trans)
qed

lemma delay_of_floor: "floor \<le> delay_of floor r b"
  by (auto simp: delay_of_def Let_def)

section \<open>One feed\<close>

lemma wp_feed_fetched:
  assumes "env_ok E" "jinv E s0 {url} s" "fatal s = None" "url \<in> set (configured E long)"
    and Q: "\<And>s'. jinv E s0 {} s' \<Longrightarrow> Q () s'"
  shows "wp (feed_fetched E url long res) Q s"
proof -
  have fl: "floor_of E url \<le> delay_of (feed_floor E long) res b" for b
    using floor_of_le(1) [OF assms(4)] delay_of_floor order_trans by blast
  have close: "wp (schedule_success E url (delay_of (feed_floor E long) res b)) (\<lambda>_. Q ()) s'" if "jinv E s0 {url} s'" for s' b
    by (rule wp_schedule_success [OF that fl]) (rule Q)
  let ?items = "\<lambda>entries. atom_items (e_atom_env E) url entries []"
  have rejected: "wp (do { _ \<leftarrow> each (ingest_item E) (unseen_items E (?items entries) s);
      _ \<leftarrow> schedule_success E url (delay_of (feed_floor E long) res False); ret () }) Q s1"
    if "jinv E s0 {url} s1" "frame {} s s1" for entries s1
    unfolding wp_bind wp_bind_eta wp_return_eta
  proof (rule wp_ingest_each [OF assms(1) that(1)])
    show "\<forall>i \<in> set (unseen_items E (?items entries) s). \<not> fetched s1 (ix_item_url i)"
      using that(2) by (auto simp: unseen_items_def frame_def)
    show "distinct (map ix_item_url (unseen_items E (?items entries) s))"
      using atom_items_good [of "e_atom_env E" url entries "[]"] by (auto simp: unseen_items_def distinct_map_filter)
  qed (rule close)
  have accepted: "wp (do { t \<leftarrow> now_op E;
      saved \<leftarrow> (if b then durable (save_feed_validator E url lm et t) else ret True);
      if \<not> saved then ret () else do { _ \<leftarrow> schedule_success E url (delay_of (feed_floor E long) res True); ret () } }) Q s1"
    if "jinv E s0 {url} s1" for s1 b lm et
    unfolding wp_bind
  proof (rule wp_now_jinv [OF that], goal_cases)
    case (1 t s2)
    have "wp (durable (save_feed_validator E url lm et t)) (\<lambda>saved. wp (if \<not> saved then ret ()
        else do { _ \<leftarrow> schedule_success E url (delay_of (feed_floor E long) res True); ret () }) Q) s2"
      unfolding save_feed_validator_def
      by (rule wp_durable [where E = E and X = "{url}" and U = "{}" and ?s0.0 = s0],
          rule wp_update_schedule [OF 1(1), where Y = "{url}"])
        (auto simp: same_items_def wp_bind wp_return_eta wp_return intro!: Q close)
    then show ?case using close [OF 1(1)] by (auto simp: wp_bind wp_return_eta wp_return)
  qed
  show ?thesis
  proof (cases "fr_not_modified res \<or> e_atom E url (fr_body res) = None")
    case True
    then show ?thesis using close [OF assms(2)] by (auto simp: feed_fetched_def Let_def wp_bind wp_return_eta)
  next
    case False
    then obtain entries where e: "\<not> fr_not_modified res" "e_atom E url (fr_body res) = Some entries" by auto
    show ?thesis
    proof (cases "unseen_items E (?items entries) s = []")
      case True
      then show ?thesis using e accepted [OF assms(2)] by (simp add: feed_fetched_def Let_def wp_bind wp_gets wp_return)
    next
      case False
      then show ?thesis
        using e rejected accepted
        by (auto simp: feed_fetched_def Let_def wp_bind wp_gets same_items_def intro!: wp_core_index [OF assms(2,3)])
    qed
  qed
qed

text \<open>What a failed fetch still schedules is at least the floor away.\<close>

lemma wp_step_range:
  assumes "env_ok E" "jinv E s0 X s" "0 < m"
    and Q: "\<And>j s'. jinv E s0 X s' \<Longrightarrow> frame {} s s' \<Longrightarrow> 0 \<le> j \<Longrightarrow> j < m \<Longrightarrow> Q j s'"
  shows "wp (positive_jitter E m) Q s"
  using assms(1-3) by (auto simp: positive_jitter_def wp_simps env_ok_def frame_def intro!: Q)

lemma floor_jitter:
  assumes "env_ok E" "0 \<le> j" "j < two_seconds"
  shows "feed_floor E long \<le> s64 (feed_floor E long + j)"
proof -
  have "s64 (feed_floor E long + j) = feed_floor E long + j"
    using assms by (intro s64_small) (auto simp: feed_floor_def env_ok_def two_seconds_def second_def)
  then show ?thesis using assms(2) by simp
qed

lemma wp_feed_backoff:
  assumes "env_ok E" "jinv E s0 X s"
    and Q: "\<And>b s'. jinv E s0 X s' \<Longrightarrow> frame {} s s' \<Longrightarrow> feed_floor E long \<le> b \<Longrightarrow> Q b s'"
  shows "wp (if b < feed_floor E long then do { j \<leftarrow> positive_jitter E two_seconds; ret (s64 (feed_floor E long + j)) }
     else ret b) Q s"
proof (cases "b < feed_floor E long")
  case True
  have "wp (positive_jitter E two_seconds) (\<lambda>j. Q (s64 (feed_floor E long + j))) s"
    by (rule wp_step_range [OF assms(1,2)])
      (use floor_jitter [OF assms(1)] in \<open>auto simp: two_seconds_def second_def intro!: Q\<close>)
  then show ?thesis using True by (simp add: wp_bind wp_return_eta)
next
  case False
  then show ?thesis using assms(2) by (auto simp: wp_return intro!: Q)
qed

lemma wp_first_backoff:
  assumes "env_ok E" "jinv E s0 X s"
    and Q: "\<And>b s'. jinv E s0 X s' \<Longrightarrow> frame {} s s' \<Longrightarrow> Q b s'"
  shows "wp (case hints of
            Some r \<Rightarrow> if fr_has_retry r then do { j \<leftarrow> positive_jitter E two_seconds; ret (s64 (fr_retry_after r + j)) }
                      else compute_exponential_backoff E floor n
          | None \<Rightarrow> compute_exponential_backoff E floor n) Q s"
proof -
  have "wp (positive_jitter E two_seconds) (\<lambda>j. Q (f j)) s" for f
    by (rule wp_step_range [OF assms(1,2)]) (auto simp: two_seconds_def second_def intro!: Q)
  then show ?thesis
    by (auto simp: compute_exponential_backoff_def wp_bind wp_return_eta split: option.split)
qed

lemma wp_feed_failed:
  assumes "env_ok E" "jinv E s0 {url} s" "e = ErrDailyByteLimitExceeded \<longrightarrow> jinv E s0 {} s" "url \<in> set (configured E long)"
    and Q: "\<And>s'. jinv E s0 {} s' \<Longrightarrow> Q () s'"
  shows "wp (feed_failed E url (feed_floor E long) sch hints e) Q s"
proof -
  have fatal: "wp (set_fatal e) Q s" by (rule wp_set_fatal [OF assms(2)]) (rule Q)
  have "wp (do {
        let consecutive = fs_errors sch + 1;
        backoff \<leftarrow> (case hints of
            Some r \<Rightarrow> if fr_has_retry r then do { j \<leftarrow> positive_jitter E two_seconds; ret (s64 (fr_retry_after r + j)) }
                      else compute_exponential_backoff E (feed_floor E long) consecutive
          | None \<Rightarrow> compute_exponential_backoff E (feed_floor E long) consecutive);
        backoff \<leftarrow> (if backoff < feed_floor E long
          then do { j \<leftarrow> positive_jitter E two_seconds; ret (s64 (feed_floor E long + j)) } else ret backoff);
        t \<leftarrow> now_op E;
        t' \<leftarrow> now_op E;
        _ \<leftarrow> durable (record_feed_failure E url t' (t + backoff) consecutive);
        ret ()
      }) Q s"
    unfolding Let_def wp_bind
  proof (rule wp_first_backoff [OF assms(1,2)], rule wp_feed_backoff [OF assms(1)], assumption, goal_cases)
    case (1 b0 s1 b s2)
    show ?case
    proof (rule wp_now_jinv [OF 1(3)], rule wp_now_jinv, assumption, goal_cases)
      case (1 t s3 t' s4)
      have "t'' \<le> t" if "EvHttp FeedReq st t'' url \<in> set (trace s4)" for st t''
        using that jinv_http_past [OF \<open>jinv E s0 {url} s2\<close>] \<open>clock s2 \<le> t\<close> budget_only_events(1) [OF 1(2)]
          budget_only_events(1) [OF 1(8)] by fastforce
      then have "\<forall>st t''. EvHttp FeedReq st t'' url \<in> set (trace s4) \<longrightarrow> t'' + floor_of E url \<le> t + b"
        using floor_of_le(1) [OF assms(4)] \<open>feed_floor E long \<le> b\<close> by fastforce
      then show ?case
        unfolding record_feed_failure_def wp_return_eta by (intro wp_close_schedule [OF 1(7)]) (auto intro: Q)
    qed
  qed
  then show ?thesis
    using assms(3) fatal Q by (auto simp: feed_failed_def wp_return)
qed

lemma jinv_old_polls:
  assumes "jinv E s0 {} s" "fatal s = None" "fs_next_allowed (schedule_of (feeds s) url) \<le> t"
    "EvHttp FeedReq st t' url \<in> set (trace s)"
  shows "t' + floor_of E url \<le> t"
proof -
  have "feeds_covered E {} s" using assms(1) by (simp add: jinv_def)
  then have "t' + floor_of E url \<le> fs_next_allowed (schedule_of (feeds s) url)"
    using assms(2,4) unfolding feeds_covered_def by blast
  then show ?thesis using assms(3) by linarith
qed

lemma wp_process_feed:
  assumes "env_ok E" "jinv E s0 {} s" "url \<in> set (configured E long)"
    and Q: "\<And>s'. jinv E s0 {} s' \<Longrightarrow> Q () s'"
  shows "wp (process_feed E url long) Q s"
proof (cases "fatal s = None")
  case False
  then show ?thesis using Q [OF assms(2)] by (auto simp: process_feed_def is_fatal_def wp_simps)
next
  case True
  let ?attempt = "\<lambda>t sch. sch\<lparr>fs_last_attempt := t, fs_next_allowed := t + feed_floor E long\<rparr>"
  show ?thesis
    unfolding process_feed_def is_fatal_def get_feed_schedule_def get_global_backoff_until_def wp_simps Let_def
  proof (simp add: True, rule wp_now_jinv [OF assms(2)], goal_cases)
    case (1 t s1)
    have same: "feeds s1 = feeds s" "fatal s1 = None" using 1(2) True by (auto simp: budget_only_def)
    have "wp (durable (record_feed_attempt E url t (t + feed_floor E long)))
        (\<lambda>planned s'. ((planned \<longrightarrow> t < fs_backoff (feeds s')) \<longrightarrow> Q () s')
          \<and> (planned \<and> \<not> t < fs_backoff (feeds s') \<longrightarrow> wp (fetch_feed E url)
            (\<lambda>r. wp (case r of Inl (hints, e) \<Rightarrow> feed_failed E url (feed_floor E long) (schedule_of (feeds s) url) hints e
                       | Inr r \<Rightarrow> feed_fetched E url long r) Q) s')) s1"
      if due: "\<not> t < fs_next_allowed (schedule_of (feeds s) url)"
      unfolding record_feed_attempt_def
    proof (rule wp_durable [where E = E and X = "{}" and U = "{}" and ?s0.0 = s0],
        rule wp_update_schedule [OF 1(1), where Y = "{}"], goal_cases)
      case 2
      have "t' + floor_of E url \<le> t" if "EvHttp FeedReq st t' url \<in> set (trace s1)" for st t'
        using jinv_old_polls [OF 1(1) same(2) _ that] due same(1) by simp
      moreover have "0 \<le> feed_floor E long" by (rule floor_of_le(3) [OF assms(1)])
      ultimately show ?case by fastforce
    next
      case (3 e s2)
      have polls: "t' + floor_of E url \<le> clock s2" if "EvHttp FeedReq st t' url \<in> set (trace s2)" for st t'
      proof -
        have "EvHttp FeedReq st t' url \<in> set (trace s1)" using that 3(6) by blast
        from jinv_old_polls [OF 1(1) same(2) _ this, of t] show ?thesis using due same(1) 3(3) \<open>clock s1 = t\<close> by simp
      qed
      have "wp (fetch_feed E url) (\<lambda>r. wp (case r of
          Inl (hints, e) \<Rightarrow> feed_failed E url (feed_floor E long) (schedule_of (feeds s) url) hints e
        | Inr r \<Rightarrow> feed_fetched E url long r) Q) s2" if "e = None"
      proof (rule wp_fetch_feed [OF assms(1) 3(1)])
        show "fatal s2 = None" using 3(2) same(2) by (simp add: same_items_def)
        show "planned E (trace s2) url (clock s2)"
          using 3(3,5) that floor_of_le(1) [OF assms(3)] \<open>clock s1 = t\<close> by (auto simp: planned_def)
        show "url \<in> set (configured E long)" by (rule assms(3))
        show "\<forall>st t'. EvHttp FeedReq st t' url \<in> set (trace s2) \<longrightarrow> t' + floor_of E url \<le> clock s2"
          using polls by blast
        show "wp (case r of Inl (hints, e) \<Rightarrow> feed_failed E url (feed_floor E long) (schedule_of (feeds s) url) hints e
            | Inr r \<Rightarrow> feed_fetched E url long r) Q s3"
          if "jinv E s0 {url} s3" "same_items s2 s3" "\<forall>h. r = Inl (h, ErrDailyByteLimitExceeded) \<longrightarrow> jinv E s0 {} s3" for r s3
          using that 3(2) same(2)
          by (auto simp: same_items_def split: sum.split prod.split
              intro!: wp_feed_failed [OF assms(1) _ _ assms(3)] wp_feed_fetched [OF assms(1) _ _ assms(3)] Q)
      qed
      then show ?case using 3(1,2) Q by (simp add: same_items_def)
    qed (simp_all add: Q)
    then show ?case
      using Q [OF 1(1)]  by (simp add: wp_return)
  qed
qed

end
