(* ===== verification/JmaRuns.thy ===== *)
theory JmaRuns
  imports JmaSafety
begin

text \<open>
  The invariant of \<open>JmaInvariant\<close> through the replay of the spool, the draining of the pending queue and
  whole runs, and the properties of every run of the JMA controller.
\<close>

section \<open>Replay\<close>

lemma wp_replay_item:
  assumes "jinv E s0 {} s" "backed E s0 (sp_item_url item) s"
    and Q: "\<And>b s'. jinv E s0 {} s' \<Longrightarrow> frame UNIV s s' \<Longrightarrow> Q b s'"
  shows "wp (replay_item E item) Q s"
proof -
  let ?s = "s\<lparr>tick := tick s + 1\<rparr>" and ?u = "sp_item_url item"
  have j: "jinv E s0 {} ?s" "frame UNIV s ?s" "fatal ?s = fatal s" using assms(1) by (auto simp: frame_def)
  have up: "frame U a b \<Longrightarrow> frame UNIV a b" for U a b by (erule frame_subset) simp
  have mark: "wp (durable (mark_fetched E ?u)) Q s1" if "jinv E s0 {} s1" "frame UNIV s s1" for s1
    by (rule wp_durable [where E = E and X = "{}" and U = UNIV and ?s0.0 = s0], rule wp_mark_fetched [OF that(1)])
      (auto intro!: Q frame_trans [OF that(2) up] intro: up)
  have quarantine: "wp (durable (quarantine_spool E k)) R ?s"
    if "\<And>b s'. jinv E s0 {} s' \<Longrightarrow> frame UNIV s s' \<Longrightarrow> R b s'" for k R
    by (rule wp_durable [where E = E and X = "{}" and U = "{}" and ?s0.0 = s0], rule wp_quarantine_spool [OF j(1)])
      (auto simp: same_items_def intro!: that frame_trans [OF j(2) up])
  have send: "wp (now_op E) (\<lambda>t. wp (do { sent \<leftarrow> core_send E ?u (sp_status item) (sp_error item \<noteq> None);
       if \<not> sent then do { _ \<leftarrow> save_attempt E item; ret False }
       else do {
         ok \<leftarrow> durable (mark_fetched E ?u);
         if ok then durable (delete_spool E ?u) else ret False
       } }) Q) ?s" if f: "fatal s = None"
    unfolding wp_bind
  proof (rule wp_now_jinv [OF j(1)], goal_cases)
    case (1 t s1)
    have f1: "frame UNIV s s1" "fatal s1 = None"
      using frame_trans [OF j(2), of s1] budget_only_frame [OF 1(2), of UNIV] f by simp_all
    show ?case
    proof (rule wp_core_send [OF 1(1) f1(2)], goal_cases)
      case 1
      show ?case using backed_frame [OF f1(1) assms(2)] by simp
    next
      case (2 b s2)
      have f2: "frame UNIV s s2" using frame_trans [OF f1(1) up] 2(2) by (auto simp: same_items_def)
      have "wp (durable (mark_fetched E ?u)) (\<lambda>ok. wp (if ok then durable (delete_spool E ?u) else ret False) Q) s2"
      proof (rule wp_durable [where E = E and X = "{}" and U = UNIV and ?s0.0 = s0], rule wp_mark_fetched [OF 2(1)], goal_cases)
        case (1 e s3)
        have f3: "frame UNIV s s3" by (rule frame_trans [OF f2 up [OF 1(2)]])
        have "wp (durable (delete_spool E ?u)) Q s3" if "e = None"
          by (rule wp_durable [where E = E and X = "{}" and U = UNIV and ?s0.0 = s0], rule wp_delete_spool [OF 1(1)])
            (use 1(4) that in \<open>auto simp: same_items_def intro!: Q frame_trans [OF f3 up] intro: up\<close>)
        then show ?case using 1 up by auto
      qed (auto simp: wp_return intro!: Q frame_trans [OF f2 up])
      moreover have "wp (save_attempt E item) (\<lambda>_. Q False) s2"
        by (rule wp_save_attempt [OF 2(1)]) (auto intro!: Q frame_trans [OF f2 up])
      ultimately show ?case by (simp add: wp_bind wp_return_eta)
    qed
  qed
  show ?thesis
    using quarantine [of Q] quarantine [of "\<lambda>ok. wp (if ok then durable (mark_fetched E ?u) else ret False) Q"]
      send mark Q [OF j(1,2)] Q
    by (auto simp: replay_item_def is_fatal_def wp_bind wp_step wp_gets wp_return wp_return_eta)
qed

lemma frame_UNIV: "frame U s s' \<Longrightarrow> frame UNIV s s'"
  by (erule frame_subset) simp

lemma same_items_frame: "same_items s s' \<Longrightarrow> frame UNIV s s'"
  unfolding same_items_def by (blast intro: frame_UNIV)

lemma jinv_backed:
  assumes "jinv E s0 X s" "(k, SpoolOk item) \<in> set (d_spool s)"
  shows "backed E s0 (sp_item_url item) s"
proof -
  have n: "spool_named E s" and sp: "\<And>k. in_spool s k \<Longrightarrow> EvSpooled k \<in> set (trace s) \<or> in_spool s0 k"
    using assms(1) by (auto simp: jinv_def)
  have m: "map_of (d_spool s) k = Some (SpoolOk item)"
    using n assms(2) by (intro map_of_is_SomeI) (simp_all add: spool_named_def)
  then have "in_spool s k" by (simp add: in_spool_def)
  moreover have "k = spool_item_key E (sp_item_url item)" using n m unfolding spool_named_def by blast
  ultimately show ?thesis using sp by (simp add: backed_def)
qed

lemma wp_list_spool_files:
  assumes "jinv E s0 {} s" "\<forall>k item. (k, SpoolOk item) \<in> set files \<longrightarrow> backed E s0 (sp_item_url item) s"
    and Q: "\<And>items s'. jinv E s0 {} s' \<Longrightarrow> frame UNIV s s' \<Longrightarrow> \<forall>i \<in> set items. backed E s0 (sp_item_url i) s' \<Longrightarrow> Q items s'"
  shows "wp (list_spool_files E files) Q s"
  using assms
proof (induction files arbitrary: s Q)
  case Nil
  then show ?case by (simp add: wp_simps)
next
  case (Cons kf files)
  obtain k f where kf: "kf = (k, f)" by (cases kf)
  let ?s = "s\<lparr>tick := tick s + 1\<rparr>" and ?t = "s\<lparr>tick := tick s + 2\<rparr>"
  have s: "jinv E s0 {} ?s" "frame UNIV s ?s" "jinv E s0 {} ?t" "frame UNIV s ?t" using Cons.prems(1) by (auto simp: frame_def)
  have rest: "wp (list_spool_files E files) R s1"
    if "jinv E s0 {} s1" "frame UNIV s s1"
      "\<And>items s'. jinv E s0 {} s' \<Longrightarrow> frame UNIV s1 s' \<Longrightarrow> \<forall>i \<in> set items. backed E s0 (sp_item_url i) s' \<Longrightarrow> R items s'"
    for s1 R
    by (rule Cons.IH [OF that(1) _ that(3)]) (use Cons.prems(2) backed_frame [OF that(2)] in auto)
  have corrupt: "wp (do { (if m then do { modify (quarantine_file k); emit (EvQuarantined k) } else ret ());
       list_spool_files E files }) Q ?t" for m
  proof -
    have "wp (do { modify (quarantine_file k); emit (EvQuarantined k) }) (\<lambda>_. wp (list_spool_files E files) Q) ?t"
    proof (rule wp_quarantine [OF s(3)], goal_cases)
      case (1 s1)
      have f: "frame UNIV s s1" by (rule frame_trans [OF s(4) same_items_frame [OF 1(2)]])
      show ?case by (rule rest [OF 1(1) f]) (use Cons.prems(3) frame_trans [OF f] in blast)
    qed
    moreover have "wp (list_spool_files E files) Q ?t"
      by (rule rest [OF s(3,4)]) (use Cons.prems(3) frame_trans [OF s(4)] in blast)
    ultimately show ?thesis by (simp add: wp_bind wp_return)
  qed
  have ok: "wp (list_spool_files E files) (\<lambda>items. Q (item # items)) ?s" if "f = SpoolOk item" for item
  proof (rule rest [OF s(1,2)], rule Cons.prems(3), goal_cases)
    case (2 items s')
    show ?case by (rule frame_trans [OF s(2) 2(2)])
  next
    case (3 items s')
    have "backed E s0 (sp_item_url item) s'"
      using backed_frame [OF frame_trans [OF s(2) 3(2)]] Cons.prems(2) that kf by auto
    then show ?case using 3(3) by simp
  qed
  show ?case
    using ok corrupt unfolding kf list_spool_files.simps wp_bind
    by (simp add: wp_step wp_bind_eta wp_return_eta split: spool_file.split)
qed

lemma wp_replay_each:
  assumes "jinv E s0 {} s" "\<forall>i \<in> set items. backed E s0 (sp_item_url i) s"
    and Q: "\<And>b s'. jinv E s0 {} s' \<Longrightarrow> Q b s'"
  shows "wp (each (replay_item E) items) Q s"
  using assms
proof (induction items arbitrary: s Q)
  case (Cons i items)
  show ?case
    unfolding each.simps wp_bind
  proof (rule wp_replay_item [OF Cons.prems(1)], goal_cases)
    case (2 b s1)
    have "wp (each (replay_item E) items) Q s1"
      by (rule Cons.IH [OF 2(1)]) (use Cons.prems(2,3) backed_frame [OF 2(2)] in auto)
    then show ?case using Cons.prems(3) 2(1) by (simp add: wp_return)
  qed (use Cons.prems(2) in simp)
qed (simp add: wp_return)

lemma wp_replay_spool:
  assumes "jinv E s0 {} s"
    and Q: "\<And>s'. jinv E s0 {} s' \<Longrightarrow> Q () s'"
  shows "wp (replay_spool E) Q s"
proof -
  let ?s = "s\<lparr>tick := tick s + 1\<rparr>"
  have s: "jinv E s0 {} ?s" using assms(1) by simp
  have "wp (set_fatal e) Q ?s" for e by (rule wp_set_fatal [OF s]) (rule Q)
  moreover have "wp (list_spool_files E (sort_key fst (d_spool s))) (\<lambda>items. wp (each (replay_item E) items) (\<lambda>_. Q ())) ?s"
  proof (rule wp_list_spool_files [OF s], goal_cases)
    case 1
    show ?case using jinv_backed [OF s] by auto
  next
    case (2 items s1)
    show ?case by (rule wp_replay_each [OF 2(1,3)]) (rule Q)
  qed
  ultimately show ?thesis
    using Q [OF assms(1)]
    by (auto simp: replay_spool_def list_spool_def is_fatal_def wp_bind wp_step wp_gets wp_return wp_bind_eta wp_return_eta)
qed

section \<open>Draining\<close>

lemma wp_drain_batch:
  assumes "env_ok E" "jinv E s0 {} s"
    and Q: "\<And>r s'. jinv E s0 {} s' \<Longrightarrow> Q r s'"
  shows "wp (drain_batch E items seen n) Q s"
  using assms(2)
proof (induction items arbitrary: seen n s)
  case Nil
  then show ?case by (simp add: wp_simps Q)
next
  case (Cons p items)
  obtain url feed where p: "p = (url, feed)" by (cases p)
  let ?s = "s\<lparr>tick := tick s + 1\<rparr>"
  have s: "jinv E s0 {} ?s" using Cons.prems by simp
  have "wp (now_op E) (\<lambda>t s1. if t < fs_backoff (feeds s1) then Q (False, seen, n) s1
       else if url \<in> set seen then wp (drain_batch E items seen n) Q s1
       else if map_of (d_spool s1) (spool_item_key E url) \<noteq> None \<or> fetched s1 url
         then wp (drain_batch E items (url # seen) (n + 1)) Q s1
       else wp (fetch_and_ingest E url feed) (\<lambda>_ s2. if fatal s2 \<noteq> None then Q (False, url # seen, n + 1) s2
         else wp (drain_batch E items (url # seen) (n + 1)) Q s2) s1) ?s"
  proof (rule wp_now_jinv [OF s], goal_cases)
    case (1 t s1)
    have "wp (fetch_and_ingest E url feed) (\<lambda>_ s2. if fatal s2 \<noteq> None then Q (False, url # seen, n + 1) s2
         else wp (drain_batch E items (url # seen) (n + 1)) Q s2) s1" if "\<not> fetched s1 url"
      by (rule wp_fetch_and_ingest [OF assms(1) 1(1) that]) (auto intro: Q Cons.IH)
    then show ?case using Q [OF 1(1)] Cons.IH [OF 1(1)] by simp
  qed
  then show ?case
    using Q [OF s] unfolding p drain_batch.simps has_spool_def is_fetched_def is_fatal_def get_global_backoff_until_def wp_simps
    by (cases "e_cancelled E (tick s) \<or> fatal s \<noteq> None") (simp_all add: wp_return_eta wp_step split del: if_split)
qed

lemma wp_core_pending:
  assumes "jinv E s0 X s" "fatal s = None"
    and Q: "\<And>b s'. jinv E s0 X s' \<Longrightarrow> same_items s s' \<Longrightarrow> Q b s'"
  shows "wp (core_pending E) Q s"
proof -
  have "jinv E s0 X (s\<lparr>trace := EvCore # trace s\<rparr>)"
    using assms(1,2) by (intro jinv_event) (auto simp: jinv_def)
  then show ?thesis by (auto simp: core_pending_def wp_simps same_items_def frame_def intro!: Q)
qed

lemma wp_drain_loop:
  assumes "env_ok E" "jinv E s0 {} s"
    and Q: "\<And>r s'. jinv E s0 {} s' \<Longrightarrow> Q r s'"
  shows "wp (drain_loop E deadline fuel seen) Q s"
  using assms(2)
proof (induction fuel arbitrary: seen s)
  case 0
  then show ?case by (simp add: wp_simps Q)
next
  case (Suc fuel)
  have batch: "wp (drain_batch E items seen 0)
      (\<lambda>r. wp (if fst r \<longrightarrow> snd (snd r) = 0 then ret True else drain_loop E deadline fuel (fst (snd r))) Q) s1"
    if "jinv E s0 {} s1" for s1 items
    by (rule wp_drain_batch [OF assms(1) that]) (auto simp: wp_return intro: Q Suc.IH)
  have pending: "wp (core_pending E) (\<lambda>p. wp (case p of Inl _ \<Rightarrow> ret True
        | Inr items \<Rightarrow> if items = [] then ret True else do {
            r \<leftarrow> drain_batch E items seen 0;
            if \<not> fst r \<or> snd (snd r) = 0 then ret True else drain_loop E deadline fuel (fst (snd r)) }) Q) s1"
    if "jinv E s0 {} s1" "fatal s1 = None" for s1
    by (rule wp_core_pending [OF that])
      (auto simp: wp_return wp_bind intro!: Q batch split: sum.split)
  show ?case
    unfolding drain_loop.simps wp_bind
  proof (rule wp_now_jinv [OF Suc.prems], goal_cases)
    case (1 t s1)
    let ?s = "s1\<lparr>tick := tick s1 + 1\<rparr>"
    have s: "jinv E s0 {} ?s" using 1(1) by simp
    have "wp (now_op E) (\<lambda>t. wp (do { until \<leftarrow> get_global_backoff_until;
        if t < until then ret True else do { pending \<leftarrow> core_pending E;
          case pending of Inl _ \<Rightarrow> ret True
          | Inr items \<Rightarrow> if items = [] then ret True else do {
            r \<leftarrow> drain_batch E items seen 0;
            if \<not> fst r \<or> snd (snd r) = 0 then ret True else drain_loop E deadline fuel (fst (snd r)) } } }) Q) ?s"
      if "fatal s1 = None"
    proof (rule wp_now_jinv [OF s], goal_cases)
      case (1 t s2)
      have "fatal s2 = None" using 1(2) that by (simp add: budget_only_def)
      then show ?case
        using pending [OF 1(1)] Q [OF 1(1)] by (simp add: get_global_backoff_until_def wp_bind wp_gets wp_return)
    qed
    then show ?case
      using Q [OF 1(1)] Q [OF s] by (auto simp: is_fatal_def wp_bind wp_gets wp_return wp_step wp_return_eta)
  qed
qed

lemma wp_drain_pending:
  assumes "env_ok E" "jinv E s0 {} s"
    and Q: "\<And>r s'. jinv E s0 {} s' \<Longrightarrow> Q r s'"
  shows "wp (drain_pending E deadline) Q s"
proof -
  have "wp (now_op E) (\<lambda>t s1. if t < fs_backoff (feeds s1) then Q True s1
      else wp (drain_loop E deadline (nat (deadline - clock s1) + 1) []) Q s1) s"
    by (rule wp_now_jinv [OF assms(2)]) (auto simp del: drain_loop.simps intro: Q wp_drain_loop [OF assms(1)])
  then show ?thesis
    using Q [OF assms(2)] unfolding drain_pending_def is_fatal_def get_global_backoff_until_def wp_simps
    by (cases "fatal s = None") (simp_all split del: if_split)
qed

section \<open>Cycles\<close>

lemma wp_poll_feed:
  assumes "env_ok E" "jinv E s0 {} s" "url \<in> set (configured E long)"
    and Q: "\<And>b s'. jinv E s0 {} s' \<Longrightarrow> Q b s'"
  shows "wp (poll_feed E long url) Q s"
proof -
  have s: "jinv E s0 {} (s\<lparr>tick := tick s + 1\<rparr>)" using assms(2) by simp
  have "wp (process_feed E url long) (\<lambda>_. Q True) (s\<lparr>tick := tick s + 1\<rparr>)"
    by (rule wp_process_feed [OF assms(1) s assms(3)]) (rule Q)
  then show ?thesis using Q [OF s] by (simp add: poll_feed_def is_fatal_def wp_simps wp_return_eta)
qed

lemma wp_poll_feeds:
  assumes "env_ok E" "jinv E s0 {} s" "set urls \<subseteq> set (configured E long)"
    and Q: "\<And>b s'. jinv E s0 {} s' \<Longrightarrow> Q b s'"
  shows "wp (each (poll_feed E long) urls) Q s"
  using assms(2-)
proof (induction urls arbitrary: s Q)
  case (Cons url urls)
  show ?case
    unfolding each.simps wp_bind
    by (rule wp_poll_feed [OF assms(1) Cons.prems(1)]) (use Cons.prems(2) in \<open>auto simp: wp_return intro: Cons\<close>)
qed (simp add: wp_return)

lemma wp_poll_cycle:
  assumes "env_ok E" "jinv E s0 {} s"
    and Q: "\<And>s'. jinv E s0 {} s' \<Longrightarrow> Q () s'"
  shows "wp (poll_cycle E deadline) Q s"
proof -
  have urls: "set (cfg_feeds E) \<subseteq> set (configured E False)" "set (cfg_long_feeds E) \<subseteq> set (configured E True)"
    by (simp_all add: configured_def)
  have drain: "wp (do { f \<leftarrow> is_fatal; stop \<leftarrow> step (e_cancelled E);
      if \<not> g \<or> f \<or> stop then ret () else do { _ \<leftarrow> drain_pending E deadline; ret () } }) Q s1" if "jinv E s0 {} s1" for s1 g
  proof -
    have s: "jinv E s0 {} (s1\<lparr>tick := tick s1 + 1\<rparr>)" using that by simp
    have "wp (drain_pending E deadline) (\<lambda>_. Q ()) (s1\<lparr>tick := tick s1 + 1\<rparr>)"
      by (rule wp_drain_pending [OF assms(1) s]) (rule Q)
    then show ?thesis using Q [OF s] by (simp add: is_fatal_def wp_simps wp_return_eta)
  qed
  have long: "wp (each (poll_feed E True) (cfg_long_feeds E)) (\<lambda>g. wp (do { f \<leftarrow> is_fatal; stop \<leftarrow> step (e_cancelled E);
      if \<not> g \<or> f \<or> stop then ret () else do { _ \<leftarrow> drain_pending E deadline; ret () } }) Q) s1" if "jinv E s0 {} s1" for s1
    by (rule wp_poll_feeds [OF assms(1) that urls(2) drain])
  have short: "wp (each (poll_feed E False) (cfg_feeds E)) (\<lambda>go. wp (if \<not> go then ret () else do {
      g \<leftarrow> each (poll_feed E True) (cfg_long_feeds E); f \<leftarrow> is_fatal; stop \<leftarrow> step (e_cancelled E);
      if \<not> g \<or> f \<or> stop then ret () else do { _ \<leftarrow> drain_pending E deadline; ret () } }) Q) s1" if "jinv E s0 {} s1" for s1
    by (rule wp_poll_feeds [OF assms(1) that urls(1)]) (use long Q in \<open>auto simp: wp_bind wp_return\<close>)
  show ?thesis
    unfolding poll_cycle_def wp_bind
  proof (rule wp_replay_spool [OF assms(2)], goal_cases)
    case (1 s1)
    have "wp (now_op E) (\<lambda>t s2. if t < fs_backoff (feeds s2) then Q () s2 else
        wp (each (poll_feed E False) (cfg_feeds E)) (\<lambda>go. wp (if \<not> go then ret () else do {
          g \<leftarrow> each (poll_feed E True) (cfg_long_feeds E); f \<leftarrow> is_fatal; stop \<leftarrow> step (e_cancelled E);
          if \<not> g \<or> f \<or> stop then ret () else do { _ \<leftarrow> drain_pending E deadline; ret () } }) Q) s2) s1"
      by (rule wp_now_jinv [OF 1]) (use short Q in auto)
    then show ?case
      using Q [OF 1] by (auto simp: is_fatal_def get_global_backoff_until_def wp_bind wp_gets wp_return elim!: wp_mono split: if_splits)
  qed
qed

lemma wp_run_cycles:
  assumes "env_ok E" "jinv E s0 {} s"
    and Q: "\<And>s'. jinv E s0 {} s' \<Longrightarrow> Q () s'"
  shows "wp (run_cycles E n) Q s"
  using assms(2)
proof (induction n arbitrary: s)
  case 0
  then show ?case by (simp add: wp_return Q)
next
  case (Suc n)
  have sleep: "wp (sleep E d) (\<lambda>_. wp (run_cycles E n) Q) s1" if "jinv E s0 {} s1" for s1 d
    by (rule wp_sleep, rule Suc.IH, rule jinv_clock [OF that]) simp
  have rest: "wp (do { stop \<leftarrow> step (e_cancelled E); if stop then ret ()
       else do {
         t \<leftarrow> now_op E;
         cancelled \<leftarrow> (if 0 < deadline - t then do {
             c \<leftarrow> step (e_cancelled E);
             if c then ret True else do { sleep E (deadline - t); ret False }
           } else ret False);
         if cancelled then ret () else run_cycles E n
       } }) Q s1" if "jinv E s0 {} s1" for s1 deadline
  proof -
    have s: "jinv E s0 {} (s1\<lparr>tick := tick s1 + 1\<rparr>)" using that by simp
    have "wp (now_op E) (\<lambda>t. wp (do {
         cancelled \<leftarrow> (if 0 < deadline - t then do {
             c \<leftarrow> step (e_cancelled E);
             if c then ret True else do { sleep E (deadline - t); ret False }
           } else ret False);
         if cancelled then ret () else run_cycles E n }) Q) (s1\<lparr>tick := tick s1 + 1\<rparr>)"
    proof (rule wp_now_jinv [OF s], goal_cases)
      case (1 t s2)
      have s2: "jinv E s0 {} (s2\<lparr>tick := tick s2 + 1\<rparr>)" using 1(1) by simp
      show ?case
        using sleep [OF s2] Suc.IH [OF 1(1)] Q [OF s2]
        by (simp add: wp_bind wp_step wp_return wp_return_eta wp_bind_eta)
    qed
    then show ?thesis using Q [OF s] by (simp add: wp_bind wp_step wp_return)
  qed
  let ?s = "s\<lparr>tick := tick s + 1\<rparr>"
  have s: "jinv E s0 {} ?s" using Suc.prems by simp
  have "wp (now_op E) (\<lambda>t. wp (poll_cycle E (t + poll_interval E)) (\<lambda>_. wp (do { stop \<leftarrow> step (e_cancelled E);
       if stop then ret ()
       else do {
         t' \<leftarrow> now_op E;
         cancelled \<leftarrow> (if 0 < t + poll_interval E - t' then do {
             c \<leftarrow> step (e_cancelled E);
             if c then ret True else do { sleep E (t + poll_interval E - t'); ret False }
           } else ret False);
         if cancelled then ret () else run_cycles E n
       } }) Q)) ?s"
    by (rule wp_now_jinv [OF s], rule wp_poll_cycle [OF assms(1)]) (auto intro: rest)
  then show ?case
    using Q [OF s] by (simp add: is_fatal_def wp_bind wp_gets wp_step wp_return wp_bind_eta Let_def)
qed

lemma wp_jma_run:
  assumes "env_ok E" "jinv E s0 {} s"
  shows "wp (run E n) (\<lambda>_. jinv E s0 {}) s"
  unfolding run_def wp_bind by (rule wp_replay_spool [OF assms(2)], rule wp_run_cycles [OF assms(1)]) simp_all

section \<open>Properties of every run\<close>

text \<open>A process starts with an empty trace and a sound spool.\<close>

definition start_ok :: "jma_env \<Rightarrow> jma \<Rightarrow> bool" where
  "start_ok E s \<longleftrightarrow> trace s = [] \<and> fatal s = None \<and> last_request s \<le> clock s \<and> spool_named E s"

lemma start_jinv: "start_ok E s \<Longrightarrow> jinv E s {} s"
  by (auto simp: start_ok_def jinv_def known_def backoff_covered_def feeds_covered_def spend_ok_def amounts_ok_def overdraft_def)

definition run_trace :: "jma_env \<Rightarrow> nat \<Rightarrow> jma \<Rightarrow> event list" where
  "run_trace E n s = trace (snd (run_state (run E n) s))"

lemma run_trace_ok: "env_ok E \<Longrightarrow> start_ok E s \<Longrightarrow> trace_ok E s (run_trace E n s)"
  using wp_jma_run [OF _ start_jinv, of E s n] by (auto simp: wp_def run_trace_def jinv_def split: prod.splits)

text \<open>A judgement on an event and the events before it, for every event of a trace.\<close>

fun every_event :: "(event \<Rightarrow> event list \<Rightarrow> bool) \<Rightarrow> event list \<Rightarrow> bool" where
  "every_event P [] = True"
| "every_event P (e # past) = (P e past \<and> every_event P past)"

lemma trace_ok_every: "trace_ok E s0 tr \<Longrightarrow> (\<And>e past. event_ok E s0 e past \<Longrightarrow> P e past) \<Longrightarrow> every_event P tr"
  by (induction tr) auto

fun after_backoff :: "event \<Rightarrow> event list \<Rightarrow> bool" where
  "after_backoff (EvHttp kind stamp t url) past = (\<forall>u. EvBackoff u \<in> set past \<longrightarrow> u \<le> t)"
| "after_backoff _ past = True"

fun requests_apart :: "int \<Rightarrow> event \<Rightarrow> event list \<Rightarrow> bool" where
  "requests_apart d (EvHttp kind stamp t url) past =
     (\<forall>k st t' u. EvHttp k st t' u \<in> set past \<longrightarrow> st + d \<le> stamp)"
| "requests_apart d _ past = True"

text \<open>
  A feed that is polled is configured, and an earlier poll of it is as long ago as its own kind asks: the poll
  interval for a feed that is polled often, the long interval for one polled rarely, the shorter of the two
  for a feed configured as both.
\<close>

fun polls_apart :: "jma_env \<Rightarrow> event \<Rightarrow> event list \<Rightarrow> bool" where
  "polls_apart E (EvHttp FeedReq stamp t url) past =
     ((url \<in> set (cfg_feeds E) \<or> url \<in> set (cfg_long_feeds E))
      \<and> (\<forall>st t'. EvHttp FeedReq st t' url \<in> set past \<longrightarrow>
           t' + (if url \<notin> set (cfg_long_feeds E) then poll_interval E
                 else if url \<notin> set (cfg_feeds E) then long_poll_interval E
                 else min (poll_interval E) (long_poll_interval E)) \<le> t))"
| "polls_apart E _ past = True"

fun poll_recorded :: "jma_env \<Rightarrow> event \<Rightarrow> event list \<Rightarrow> bool" where
  "poll_recorded E (EvHttp FeedReq stamp t url) past = planned E past url t"
| "poll_recorded E _ past = True"

fun fetched_once :: "jma_env \<Rightarrow> jma \<Rightarrow> event \<Rightarrow> event list \<Rightarrow> bool" where
  "fetched_once E s (EvHttp DataReq stamp t url) past =
     (\<not> fetched s url \<and> EvFetched url \<notin> set past
      \<and> (\<exists>u. validate_data_url (ae_parse (e_atom_env E)) (validator E) url = Inr u))"
| "fetched_once E s _ past = True"

fun durable_order :: "jma_env \<Rightarrow> jma \<Rightarrow> event \<Rightarrow> event list \<Rightarrow> bool" where
  "durable_order E s (EvSent url status) past =
     (status \<in> {200, 400, 404, 410} \<longrightarrow>
        EvSpooled (spool_item_key E url) \<in> set past \<or> in_spool s (spool_item_key E url))"
| "durable_order E s (EvUnspooled key url) past =
     (key = spool_item_key E url \<and> (fetched s url \<or> EvFetched url \<in> set past))"
| "durable_order E s _ past = True"

text \<open>
  Before a request the disk carries a budget of the same day that has a whole item reserved and is within the
  daily limit; and no budget on disk is negative, or above a bound.
\<close>

fun budget_kept :: "jma_env \<Rightarrow> event \<Rightarrow> event list \<Rightarrow> bool" where
  "budget_kept E (EvHttp kind stamp t url) past =
     (\<exists>b. last_budget past = Some b \<and> bb_date b = utc_day t \<and> max_item_bytes E + 1 \<le> bb_used b \<and> bb_used b \<le> daily_limit E)"
| "budget_kept E (EvBudget b) past = (0 \<le> bb_used b)"
| "budget_kept E _ past = True"

fun budget_at_most :: "int \<Rightarrow> event \<Rightarrow> event list \<Rightarrow> bool" where
  "budget_at_most limit (EvBudget b) past = (bb_used b \<le> limit)"
| "budget_at_most limit _ past = True"

fun silent_when_fatal :: "event \<Rightarrow> event list \<Rightarrow> bool" where
  "silent_when_fatal (EvHttp kind stamp t url) past = (EvFatal \<notin> set past)"
| "silent_when_fatal (EvSent url status) past = (EvFatal \<notin> set past)"
| "silent_when_fatal EvCore past = (EvFatal \<notin> set past)"
| "silent_when_fatal _ past = True"

lemma event_ok_judgements:
  assumes "event_ok E s e past"
  shows "after_backoff e past" "requests_apart (request_interval E) e past" "polls_apart E e past"
    "poll_recorded E e past" "fetched_once E s e past" "durable_order E s e past" "silent_when_fatal e past"
    "amounts_ok E s \<Longrightarrow> budget_kept E e past"
    "amounts_ok E s \<Longrightarrow> overdraft E s x \<Longrightarrow> budget_at_most (daily_limit E + x) e past"
proof -
  show "requests_apart (request_interval E) e past" using assms by (cases e) (auto 0 3)
  show "polls_apart E e past"
    using assms unfolding floor_of_def configured_def
    by (cases "(E, e, past)" rule: polls_apart.cases) (auto simp: floor_of_def configured_def split: if_splits)
  show "after_backoff e past" using assms by (cases e) auto
  show "poll_recorded E e past" using assms by (cases "(E, e, past)" rule: poll_recorded.cases) auto
  show "fetched_once E s e past" using assms by (cases "(E, s, e, past)" rule: fetched_once.cases) (auto simp: known_def)
  show "durable_order E s e past" using assms by (cases e) (auto simp: known_def)
  show "silent_when_fatal e past" using assms by (cases e) auto
  show "amounts_ok E s \<Longrightarrow> budget_kept E e past" using assms by (cases e) (auto simp: covered_def spend_ok_def)
  show "amounts_ok E s \<Longrightarrow> overdraft E s x \<Longrightarrow> budget_at_most (daily_limit E + x) e past"
    using assms by (cases e) (auto simp: spend_ok_def)
qed

lemma run_every:
  assumes "env_ok E" "start_ok E s" "\<And>e past. event_ok E s e past \<Longrightarrow> P e past"
  shows "every_event P (run_trace E n s)"
  by (rule trace_ok_every [OF run_trace_ok [OF assms(1,2)] assms(3)])

text \<open>
  A run to apply the properties to: one feed without entries, one pending document, a core that answers once,
  and servers that answer every request.
\<close>

definition demo_feed_url :: purl where
  "demo_feed_url = demo_url\<lparr>u_path := ''/developer/xml/feed/extra.xml''\<rparr>"

definition demo_response :: http_response where
  "demo_response = \<lparr>r_status = 200, r_hdr = (\<lambda>_. None), r_wire = ''x'', r_wire_broken = False,
     r_gz_header = (True, 0), r_gz_plain = '''', r_gz_broken = False, r_gz_wire = 0\<rparr>"

definition demo_env :: jma_env where
  "demo_env = \<lparr>e_delta = (\<lambda>_. 1), e_ok = (\<lambda>_. True), e_torn = (\<lambda>_. 0), e_cancelled = (\<lambda>_. False), e_http = (\<lambda>_. Some demo_response),
     e_core = (\<lambda>n. if n = 26 then Response 200 '''' False else DoError ''down''), e_rng = (\<lambda>_ _. 0),
     e_parse_time = (\<lambda>_. None), e_sha256 = (\<lambda>_. []), e_decode_ack = (\<lambda>_. None),
     e_decode_pending = (\<lambda>_. Some [(''u'', ''f'')]), e_atom = (\<lambda>_ _. Some []),
     e_atom_env = demo_atom_env\<lparr>ae_parse := (\<lambda>s. Some (if s = ''g'' then demo_feed_url else demo_url))\<rparr>,
     e_telegram = (\<lambda>_ _. (Some ''m'', None)), e_marshal = Some, e_unmarshal = Some,
     daily_limit = 1000000, max_item_bytes = 4, request_interval = 3, poll_interval = 60, long_poll_interval = 3600,
     cfg_feeds = [''g''], cfg_long_feeds = [], validator = jma_validator\<rparr>"

definition demo_start :: jma where
  "demo_start = \<lparr>clock = 10, tick = 0, d_budget = Missing, d_feeds = Missing, d_history = Missing, d_spool = [],
     d_quarantine = [], budget = \<lparr>bb_date = 0, bb_used = 0\<rparr>,
     feeds = \<lparr>fs_feeds = Map.empty, fs_last_long = 0, fs_backoff = 0\<rparr>, fetched = (\<lambda>_. False),
     last_request = 0, retry_until = 0, fatal = None, trace = []\<rparr>"

lemma demo_ok: "env_ok demo_env" "start_ok demo_env demo_start"
  by (auto simp: env_ok_def demo_env_def start_ok_def demo_start_def spool_named_def)

text \<open>The kinds of the events of a run, for inspecting one.\<close>

fun event_name :: "event \<Rightarrow> string" where
  "event_name (EvBudget _) = ''budget''"
| "event_name (EvFeeds _) = ''feeds''"
| "event_name (EvBackoff _) = ''backoff''"
| "event_name (EvFetched _) = ''fetched''"
| "event_name (EvSpooled _) = ''spooled''"
| "event_name (EvUnspooled _ _) = ''unspooled''"
| "event_name (EvQuarantined _) = ''quarantined''"
| "event_name (EvHttp _ _ _ _) = ''http''"
| "event_name (EvSent _ _) = ''sent''"
| "event_name EvCore = ''core''"
| "event_name EvFatal = ''fatal''"

lemma demo_run: "map event_name (rev (run_trace demo_env 1 demo_start))
   = [''feeds'', ''budget'', ''http'', ''budget'', ''feeds'', ''core'',
      ''budget'', ''http'', ''budget'', ''spooled'', ''fetched'', ''sent'', ''spooled'', ''core'']"
  by code_simp



text \<open>The stamps of any two requests of a run, whatever they fetch, are at least the request interval apart.\<close>

theorem requests_are_paced:
  "env_ok E \<Longrightarrow> start_ok E s \<Longrightarrow> every_event (requests_apart (request_interval E)) (run_trace E n s)"
  by (rule run_every) (auto dest: event_ok_judgements)

theorem requests_are_paced_witness:
  "every_event (requests_apart 3) (run_trace demo_env 1 demo_start)
   \<and> length (filter (\<lambda>e. e = ''http'') (map event_name (rev (run_trace demo_env 1 demo_start)))) = 2"
  using requests_are_paced [OF demo_ok, of 1] unfolding demo_run by (simp add: demo_env_def)

text \<open>C9: Only configured feeds are polled, and two polls of the same feed in a run are at least that feed's own interval
  apart (the poll interval, or the long poll interval for a feed configured as a long one only), errors, short
  Retry-After headers, overflowing delays and restarts of the schedule included.\<close>

theorem feed_polls_are_apart:
  "env_ok E \<Longrightarrow> start_ok E s \<Longrightarrow> every_event (polls_apart E) (run_trace E n s)"
  by (rule run_every) (auto dest: event_ok_judgements)

theorem feed_polls_are_apart_witness:
  "every_event (polls_apart demo_env) (run_trace demo_env 1 demo_start)
   \<and> ''feeds'' \<in> set (map event_name (rev (run_trace demo_env 1 demo_start)))"
  using feed_polls_are_apart [OF demo_ok, of 1] unfolding demo_run by simp

text \<open>Before a feed is polled, the file on disk already carries this poll with a next time at least the poll interval
  later, so a crash during the poll cannot lead to an early second one.\<close>

theorem feed_polls_are_recorded:
  "env_ok E \<Longrightarrow> start_ok E s \<Longrightarrow> every_event (poll_recorded E) (run_trace E n s)"
  by (rule run_every) (auto dest: event_ok_judgements)

theorem feed_polls_are_recorded_witness:
  "every_event (poll_recorded demo_env) (run_trace demo_env 1 demo_start)
   \<and> take 3 (map event_name (rev (run_trace demo_env 1 demo_start))) = [''feeds'', ''budget'', ''http'']"
  using feed_polls_are_recorded [OF demo_ok, of 1] unfolding demo_run by simp

text \<open>C7: A document is requested only from an accepted URL, and only if it is not in the history yet: no document is
  fetched again once it was fetched.\<close>

theorem documents_fetched_once:
  "env_ok E \<Longrightarrow> start_ok E s \<Longrightarrow> every_event (fetched_once E s) (run_trace E n s)"
  by (rule run_every) (auto dest: event_ok_judgements)

theorem documents_fetched_once_witness:
  "every_event (fetched_once demo_env demo_start) (run_trace demo_env 1 demo_start)
   \<and> ''fetched'' \<in> set (map event_name (rev (run_trace demo_env 1 demo_start)))"
  using documents_fetched_once [OF demo_ok, of 1] unfolding demo_run by simp

text \<open>C6: A document goes to core only once it is in the spool, and leaves the spool only once its URL is in the history:
  no crash loses a fetched document.\<close>

theorem delivery_is_durable:
  "env_ok E \<Longrightarrow> start_ok E s \<Longrightarrow> every_event (durable_order E s) (run_trace E n s)"
  by (rule run_every) (auto dest: event_ok_judgements)

theorem delivery_is_durable_witness:
  "every_event (durable_order demo_env demo_start) (run_trace demo_env 1 demo_start)
   \<and> ''sent'' \<in> set (map event_name (rev (run_trace demo_env 1 demo_start)))"
  using delivery_is_durable [OF demo_ok, of 1] unfolding demo_run by simp

text \<open>Once a failure to persist has latched, the adapter sends nothing more, neither upstream nor to core.\<close>

theorem fatal_is_silent:
  "env_ok E \<Longrightarrow> start_ok E s \<Longrightarrow> every_event silent_when_fatal (run_trace E n s)"
  by (rule run_every) (auto dest: event_ok_judgements)

theorem fatal_is_silent_witness:
  "every_event silent_when_fatal (run_trace (demo_env\<lparr>e_ok := (\<lambda>_. False)\<rparr>) 2 demo_start)"
  by (rule fatal_is_silent) (auto simp: env_ok_def demo_env_def start_ok_def demo_start_def spool_named_def)

text \<open>C10: Whatever the servers send: no request goes out unless the budget last written to disk is of the same day, has a
  whole item reserved, and is within the daily limit; no budget on disk is negative; and none passes the limit
  by more than the largest excess of one response over what was reserved for it.\<close>

theorem budget_within_limit:
  assumes "env_ok E" "start_ok E s" "amounts_ok E s"
  shows "every_event (budget_kept E) (run_trace E n s)
    \<and> (\<forall>x. overdraft E s x \<longrightarrow> every_event (budget_at_most (daily_limit E + x)) (run_trace E n s))"
  using assms(3) by (auto intro!: run_every [OF assms(1,2)] dest: event_ok_judgements)

lemma demo_amounts: "amounts_ok demo_env demo_start" "overdraft demo_env demo_start 4091"
  by (auto simp: amounts_ok_def overdraft_def demo_env_def demo_start_def demo_response_def max_int64_def s64_amount)

theorem budget_within_limit_witness:
  "every_event (budget_kept demo_env) (run_trace demo_env 1 demo_start)
   \<and> every_event (budget_at_most 1004091) (run_trace demo_env 1 demo_start)
   \<and> length (filter (\<lambda>e. e = ''http'') (map event_name (rev (run_trace demo_env 1 demo_start)))) = 2"
  using budget_within_limit [OF demo_ok demo_amounts(1), of 1] demo_amounts(2)
  unfolding demo_run by (auto simp: demo_env_def)

end
