(* ===== verification/JmaProgress.thy ===== *)
theory JmaProgress
  imports JmaRuns
begin

text \<open>
  Progress of the JMA adapter: no operation turns the clock back, a drain whose clock advances ends by
  itself, the exponential backoff stays within its bounds, and a store that opens is ready for a run.
\<close>

section \<open>The clock\<close>

definition forward :: "(jma, 'a) state \<Rightarrow> bool" where
  "forward m \<longleftrightarrow> (\<forall>s. clock s \<le> clock (snd (run_state m s)))"

named_theorems forward \<comment> \<open>actions that do not turn the clock back\<close>

lemma forward_wp: "forward m \<Longrightarrow> (\<And>x s'. clock s \<le> clock s' \<Longrightarrow> Q x s') \<Longrightarrow> wp m Q s"
  by (auto simp: forward_def wp_def split: prod.split) (metis snd_conv)

lemma forward_return [forward]: "forward (ret x)"
  by (simp add: forward_def)

lemma forward_bind [forward]: "forward m \<Longrightarrow> (\<And>x. forward (f x)) \<Longrightarrow> forward (State_Monad.bind m f)"
  by (auto simp: forward_def split: prod.split) (metis order_trans snd_conv)

lemma forward_gets [forward]: "forward (gets f)"
  by (simp add: forward_def)

lemma forward_modify [forward]: "(\<And>s. clock s \<le> clock (f s)) \<Longrightarrow> forward (modify f)"
  by (simp add: forward_def)

lemma forward_step [forward]: "forward (step f)"
  by (simp add: forward_def step_def)

lemma forward_now_op [forward]: "forward (now_op E)"
  by (simp add: forward_def now_op_def Let_def)

lemma forward_sleep [forward]: "forward (sleep E d)"
  by (simp add: forward_def sleep_def)

lemma forward_emit [forward]: "forward (emit e)"
  by (simp add: forward_def emit_def)

lemma forward_if [forward]: "forward m \<Longrightarrow> forward n \<Longrightarrow> forward (if b then m else n)"
  by simp

lemma forward_option [forward]: "forward m \<Longrightarrow> (\<And>a. forward (f a)) \<Longrightarrow> forward (case x of None \<Rightarrow> m | Some a \<Rightarrow> f a)"
  by (simp split: option.split)

lemma forward_sum [forward]:
  "(\<And>a. forward (f a)) \<Longrightarrow> (\<And>b. forward (g b)) \<Longrightarrow> forward (case x of Inl a \<Rightarrow> f a | Inr b \<Rightarrow> g b)"
  by (simp split: sum.split)

lemma forward_prod [forward]: "(\<And>a b. forward (f a b)) \<Longrightarrow> forward (case p of (a, b) \<Rightarrow> f a b)"
  by (simp split: prod.split)

lemma forward_let [forward]: "(\<And>x. forward (f x)) \<Longrightarrow> forward (Let v f)"
  by simp

lemma forward_each [forward]: "(\<And>x. forward (f x)) \<Longrightarrow> forward (each f xs)"
  by (induction xs) (auto intro!: forward)

lemma forward_atomic_write [forward]: "(\<And>s. clock s \<le> clock (f s)) \<Longrightarrow> forward (atomic_write E f)"
  unfolding atomic_write_def by (intro forward) auto

lemma forward_persist [forward]: "forward (persist_budget E)" "forward (persist_feed_state E)"
  unfolding persist_budget_def persist_feed_state_def by (intro forward; simp)+

lemma forward_reserve [forward]: "forward (reserve E n)"
  unfolding reserve_def by (intro forward; simp)

lemma forward_commit [forward]: "forward (commit E m n)"
  unfolding commit_def by (intro forward; simp)

lemma forward_mark_fetched [forward]: "forward (mark_fetched E url)"
  unfolding mark_fetched_def append_history_def by (intro forward; simp)

lemma forward_spool [forward]: "forward (save_spool E item)" "forward (delete_spool E url)"
  unfolding save_spool_def delete_spool_def by (intro forward; simp)+

lemma forward_retry [forward]: "forward (set_global_retry E t)" "forward (check_global_retry E)"
  unfolding set_global_retry_def set_global_backoff_def check_global_retry_def get_global_backoff_until_def
  by (intro forward; simp)+

lemma forward_wait [forward]: "forward (wait_rate_limit E)"
  unfolding wait_rate_limit_def by (intro forward; simp)

lemma forward_request [forward]: "forward (do_request E kind url)" "forward (commit_then E a b e)" "forward (poll_env E)"
  unfolding do_request_def commit_then_def poll_env_def by (intro forward)+

lemma forward_response [forward]: "forward (note_retry E a r d)" "forward (read_response E a r)"
  unfolding note_retry_def read_response_def by (intro forward)+

lemma forward_fetch_data [forward]: "forward (fetch_data E url)"
  unfolding fetch_data_def by (intro forward)

lemma forward_durable [forward]: "forward m \<Longrightarrow> forward (durable m)"
  unfolding durable_def set_fatal_def by (intro forward; simp)

lemma forward_core [forward]: "forward (core_send E url st b)" "forward (core_pending E)" "forward (set_fatal e)"
  unfolding core_send_def core_pending_def set_fatal_def by (intro forward; simp)+

lemma forward_deliver [forward]: "forward (deliver E item)"
  unfolding deliver_def save_attempt_def by (intro forward)

lemma forward_fetch_and_ingest [forward]: "forward (fetch_and_ingest E url feed)"
proof -
  have "forward (fetch_failed E url feed t e)" for t e
    unfolding fetch_failed_def by (cases e) (auto intro!: forward)
  then show ?thesis unfolding fetch_and_ingest_def is_fatal_def by (intro forward)
qed

lemma forward_drain_batch [forward]: "forward (drain_batch E items seen n)"
proof (induction items arbitrary: seen n)
  case Nil
  then show ?case by (simp add: forward)
next
  case (Cons p items)
  then show ?case
    by (cases p) (auto simp: is_fatal_def get_global_backoff_until_def has_spool_def is_fetched_def intro!: forward)
qed

section \<open>Draining ends\<close>

lemma wp_now_exact: "wp (now_op E) Q s = Q (clock s + int (e_delta E (tick s)))
    (s\<lparr>clock := clock s + int (e_delta E (tick s)), tick := tick s + 1\<rparr>)"
  by (simp add: wp_def now_op_def Let_def)

lemma drain_loop_ends:
  assumes "\<And>n. 1 \<le> e_delta E n"
  shows "nat (deadline - clock s) < fuel \<Longrightarrow> wp (drain_loop E deadline fuel seen) (\<lambda>r _. r) s"
proof (induction fuel arbitrary: seen s)
  case (Suc fuel)
  let ?t = "clock s + int (e_delta E (tick s))"
  let ?s = "s\<lparr>clock := ?t, tick := tick s + 1\<rparr>" let ?s' = "?s\<lparr>tick := tick s + 2\<rparr>"
  have adv: "clock s < ?t" using assms [of "tick s"] by simp
  show ?case
  proof (cases "deadline \<le> ?t")
    case True
    then show ?thesis by (simp add: wp_bind wp_now_exact wp_return)
  next
    case False
    have body: "wp (do {
         t \<leftarrow> now_op E;
         until \<leftarrow> get_global_backoff_until;
         if t < until then ret True
         else do {
           pending \<leftarrow> core_pending E;
           case pending of
             Inl _ \<Rightarrow> ret True
           | Inr items \<Rightarrow>
               if items = [] then ret True
               else do {
                 r \<leftarrow> drain_batch E items seen 0;
                 if \<not> fst r \<or> snd (snd r) = 0 then ret True
                 else drain_loop E deadline fuel (fst (snd r))
               }
         } }) (\<lambda>r _. r) s1" if s1: "?t \<le> clock s1" for s1
    proof -
      have loop: "wp (drain_loop E deadline fuel seen') (\<lambda>r _. r) s'" if "?t \<le> clock s'" for seen' s'
        by (rule Suc.IH) (use that adv False Suc.prems in linarith)
      have rest: "wp (drain_batch E items seen 0) (\<lambda>r. wp (if \<not> fst r \<or> snd (snd r) = 0 then ret True
          else drain_loop E deadline fuel (fst (snd r))) (\<lambda>r _. r)) s'" if "?t \<le> clock s'" for items s'
        by (rule forward_wp [OF forward_drain_batch]) (use that loop in \<open>auto simp: wp_return\<close>)
      show ?thesis
        unfolding wp_bind
      proof (rule forward_wp [OF forward_now_op], goal_cases)
        case (1 t s2)
        have s2: "?t \<le> clock s2" using 1 s1 by simp
        have "wp (core_pending E) (\<lambda>p. wp (case p of Inl _ \<Rightarrow> ret True | Inr items \<Rightarrow> if items = [] then ret True
            else do { r \<leftarrow> drain_batch E items seen 0;
                 if \<not> fst r \<or> snd (snd r) = 0 then ret True else drain_loop E deadline fuel (fst (snd r)) }) (\<lambda>r _. r)) s2"
          by (rule forward_wp [OF forward_core(2)])
            (use s2 rest in \<open>auto simp: wp_return wp_bind split: sum.split\<close>)
        then show ?case by (simp add: get_global_backoff_until_def wp_bind wp_gets wp_return)
      qed
    qed
    have "wp (now_op E) (\<lambda>t s1. if deadline \<le> t then True else
        (if e_cancelled E (tick s1) \<or> fatal s1 \<noteq> None then True
         else wp (do {
         t \<leftarrow> now_op E;
         until \<leftarrow> get_global_backoff_until;
         if t < until then ret True
         else do {
           pending \<leftarrow> core_pending E;
           case pending of
             Inl _ \<Rightarrow> ret True
           | Inr items \<Rightarrow>
               if items = [] then ret True
               else do {
                 r \<leftarrow> drain_batch E items seen 0;
                 if \<not> fst r \<or> snd (snd r) = 0 then ret True
                 else drain_loop E deadline fuel (fst (snd r))
               }
         } }) (\<lambda>r _. r) (s1\<lparr>tick := tick s1 + 1\<rparr>))) s"
      unfolding wp_now_exact using body by simp
    then show ?thesis
      unfolding drain_loop.simps wp_bind
      by (rule wp_mono) (auto simp: wp_return wp_bind_eta wp_step is_fatal_def wp_gets split: if_splits)
  qed
qed simp

text \<open>C11: When every reading of the clock moves it on, draining the pending queue ends by itself, within the fuel of the
  model, whatever core answers: at the deadline at the latest.\<close>

theorem drain_pending_ends:
  assumes "\<And>n. 1 \<le> e_delta E n"
  shows "fst (run_state (drain_pending E deadline) s)"
proof -
  have "wp (now_op E) (\<lambda>t. wp (do { until \<leftarrow> get_global_backoff_until;
       if t < until then ret True
       else do { now \<leftarrow> gets clock; drain_loop E deadline (nat (deadline - now) + 1) [] } }) (\<lambda>r _. r)) s"
    by (rule wp_now_op)
      (auto simp: get_global_backoff_until_def wp_bind wp_gets wp_return simp del: drain_loop.simps intro!: drain_loop_ends assms)
  then have "wp (drain_pending E deadline) (\<lambda>r _. r) s"
    by (simp add: drain_pending_def is_fatal_def wp_bind wp_gets wp_return)
  then show ?thesis by (auto simp: wp_def split: prod.splits)
qed

theorem drain_pending_ends_witness:
  "fst (run_state (drain_pending demo_env 70) demo_start)"
  by (rule drain_pending_ends) (simp add: demo_env_def)

section \<open>Exponential backoff\<close>

lemma s64_moderate: "x \<le> 1382400000000000 \<Longrightarrow> 0 \<le> x \<Longrightarrow> s64 x = x"
  by (intro s64_small) auto

text \<open>With a floor between one nanosecond and six hours, the backoff after errors starts at the floor, grows with
  the number of errors, and never passes six hours.\<close>

theorem exponential_base_bounds:
  assumes "0 < floor" "floor \<le> 6 * 3600 * second"
  shows "floor \<le> exponential_base floor n \<and> exponential_base floor n \<le> 6 * 3600 * second
    \<and> exponential_base floor n \<le> exponential_base floor (n + 1)
    \<and> (n \<le> 1 \<longrightarrow> exponential_base floor n = floor)"
proof -
  have pow: "floor * 2 ^ k \<le> floor * 2 ^ j" if "k \<le> j" for k j :: nat
    using that assms(1) by (intro mult_left_mono power_increasing) auto
  have base: "exponential_base floor m = (if m \<le> 1 then floor else min (6 * 3600 * second) (floor * 2 ^ nat (min m 6)))" for m
  proof -
    have "floor * 2 ^ nat (min m 6) \<le> floor * 2 ^ 6" by (rule pow) (simp add: nat_le_iff)
    then have "floor * 2 ^ nat (min m 6) \<le> 1382400000000000" using assms(2) by (simp add: second_def)
    moreover have "0 \<le> floor * 2 ^ nat (min m 6)" using assms(1) by simp
    ultimately have "s64 (floor * 2 ^ nat (min m 6)) = floor * 2 ^ nat (min m 6)"
      using s64_moderate by blast
    then show ?thesis by (simp add: exponential_base_def Let_def min_def)
  qed
  have "floor \<le> floor * 2 ^ k" for k :: nat using pow [of 0 k] by simp
  moreover have "floor * 2 ^ nat (min n 6) \<le> floor * 2 ^ nat (min (n + 1) 6)" by (rule pow) simp
  ultimately show ?thesis using assms by (auto simp: base min_le_iff_disj)
qed

theorem exponential_base_bounds_witness:
  "60 * second \<le> exponential_base (60 * second) 9 \<and> exponential_base (60 * second) 9 \<le> 6 * 3600 * second"
  using exponential_base_bounds [of "60 * second" 9] by (simp add: second_def)

section \<open>Opening the store\<close>

text \<open>The URLs a history file stands for.\<close>

definition history_lines :: "jma \<Rightarrow> string set" where
  "history_lines s = set (history_entries (history_bytes s))"

lemma new_store_opens:
  assumes "run_state (new_store E) s = (None, s')"
  shows "(\<forall>u. fetched s' u \<longleftrightarrow> u \<in> history_lines s)
    \<and> (\<forall>fs. d_feeds s = Stored fs \<longrightarrow> feeds s' = fs) \<and> d_feeds s \<noteq> Unreadable
    \<and> (\<forall>b. d_budget s = Stored b \<longrightarrow> 0 \<le> bb_used b
         \<and> (bb_date b = utc_day (clock s') \<and> budget s' = b \<or> bb_used (budget s') = 0))
    \<and> d_budget s \<noteq> Unreadable \<and> d_history s \<noteq> Unreadable
    \<and> d_spool s' = d_spool s \<and> fatal s' = None \<and> last_request s' = zero_time \<and> history_bytes s' = history_bytes s"
proof -
  have "wp (new_store E) (\<lambda>e s'. e = None \<longrightarrow> (\<forall>u. fetched s' u \<longleftrightarrow> u \<in> history_lines s)
    \<and> (\<forall>fs. d_feeds s = Stored fs \<longrightarrow> feeds s' = fs) \<and> d_feeds s \<noteq> Unreadable
    \<and> (\<forall>b. d_budget s = Stored b \<longrightarrow> 0 \<le> bb_used b
         \<and> (bb_date b = utc_day (clock s') \<and> budget s' = b \<or> bb_used (budget s') = 0))
    \<and> d_budget s \<noteq> Unreadable \<and> d_history s \<noteq> Unreadable
    \<and> d_spool s' = d_spool s \<and> fatal s' = None \<and> last_request s' = zero_time \<and> history_bytes s' = history_bytes s) s"
    by (cases "d_budget s"; cases "d_feeds s"; cases "d_history s")
      (simp_all add: new_store_def fresh_memory_def load_byte_budget_def load_feed_state_def load_history_def persist_budget_def
        atomic_write_def wp_bind wp_modify wp_step wp_gets wp_return wp_now_exact wp_emit Let_def history_lines_def history_entries_def history_bytes_def wp_return_eta)
  then show ?thesis using assms by (simp add: wp_def)
qed

text \<open>Opening the store restores what was persisted: the fetched URLs are exactly the lines of the history, the feed
  schedules and the spool are those on disk, and the budget is the stored one on the same day and empty on another; a
  file that cannot be read, or a negative budget, keeps the store from opening.\<close>

theorem new_store_recovers:
  assumes "run_state (new_store E) s = (None, s')"
  shows "(\<forall>u. fetched s' u = (u \<in> history_lines s)) \<and> (\<forall>fs. d_feeds s = Stored fs \<longrightarrow> feeds s' = fs)
    \<and> d_spool s' = d_spool s
    \<and> (\<forall>b. d_budget s = Stored b \<longrightarrow> 0 \<le> bb_used b \<and>
         (bb_date b = utc_day (clock s') \<and> budget s' = b \<or> bb_used (budget s') = 0))
    \<and> d_feeds s \<noteq> Unreadable \<and> d_budget s \<noteq> Unreadable \<and> d_history s \<noteq> Unreadable"
  using new_store_opens [OF assms] by blast

definition demo_disk :: jma where
  "demo_disk = demo_start\<lparr>d_budget := Stored \<lparr>bb_date = 0, bb_used = 5\<rparr>, d_history := Stored ('' u '' @ [newline])\<rparr>"

lemma demo_disk_opens:
  "run_state (new_store demo_env) demo_disk = (None, snd (run_state (new_store demo_env) demo_disk))"
proof -
  have "fst (run_state (new_store demo_env) demo_disk) = None" by code_simp
  then show ?thesis by (metis prod.collapse)
qed

theorem new_store_recovers_witness:
  "fetched (snd (run_state (new_store demo_env) demo_disk)) ''u''
   \<and> \<not> fetched (snd (run_state (new_store demo_env) demo_disk)) '' u ''"
proof -
  have "history_lines demo_disk = {''u''}" by code_simp
  with new_store_recovers [OF demo_disk_opens] show ?thesis by simp
qed

section \<open>The history across restarts\<close>

lemma split_at_append: "split_at c (a @ c # b) = split_at c a @ split_at c b"
  by (induction a) (auto split: list.split)

lemma split_at_plain: "c \<notin> set u \<Longrightarrow> split_at c u = [u]"
  by (induction u) auto

text \<open>A file without an unfinished last line.\<close>

definition line_complete :: "string \<Rightarrow> bool" where
  "line_complete data \<longleftrightarrow> data = '''' \<or> last data = newline"

lemma history_entries_split: "history_entries data = filter (\<lambda>l. l \<noteq> '''') (map trim_space (split_at newline data))"
  by (simp add: history_entries_def)

lemma history_entries_line: "history_entries (a @ newline # b) = history_entries a @ history_entries b"
  by (simp add: history_entries_split split_at_append)

lemma history_entries_append:
  assumes "line_complete data"
  shows "history_entries (data @ rest) = history_entries data @ history_entries rest"
proof (cases "data = ''''")
  case False
  then have "data = butlast data @ [newline]" using assms by (metis line_complete_def append_butlast_last_id)
  then obtain a where "data = a @ [newline]" by blast
  then show ?thesis using history_entries_line [of a rest] history_entries_line [of a "''''"] by (simp add: history_entries_def)
qed (simp add: history_entries_def)

lemma history_entries_url:
  assumes "newline \<notin> set url" "trim_space url = url" "url \<noteq> ''''"
  shows "history_entries (url @ [newline]) = [url]"
  using assms history_entries_line [of url "''''"] by (simp add: history_entries_split split_at_plain)

text \<open>What marking does to the file: the whole line, or a beginning of it when it fails.\<close>

lemma mark_fetched_file:
  assumes "run_state (mark_fetched E url) s = (e, s1)" "\<not> fetched s url"
  shows "\<exists>k. history_bytes s1 = history_bytes s @ take k (url @ [newline]) \<and> (e = None \<longrightarrow> length url < k)
    \<and> d_history s1 \<noteq> Unreadable"
proof -
  have "wp (mark_fetched E url) (\<lambda>e s'. \<exists>k. history_bytes s' = history_bytes s @ take k (url @ [newline])
      \<and> (e = None \<longrightarrow> length url < k) \<and> d_history s' \<noteq> Unreadable) s"
    using assms(2)
    by (auto simp: mark_fetched_def append_history_def history_bytes_def wp_bind wp_gets wp_step wp_return wp_modify wp_emit
        Let_def intro: exI [of _ "Suc (length url)"])
  then show ?thesis using assms(1) by (simp add: wp_def)
qed

lemma mark_fetched_known: "fetched s url \<Longrightarrow> run_state (mark_fetched E url) s = (None, s)"
  by (simp add: mark_fetched_def)

text \<open>C36: Marking a URL and opening the store again: when the file ended in a whole line that stood for all fetched URLs,
  no earlier URL is lost, even if the write fails half way; and when marking succeeds, exactly the earlier URLs
  and the new one are fetched, and the file ends in a whole line again, for a URL that is not empty and has neither a
  newline nor surrounding space.\<close>

theorem marked_url_survives_restart:
  assumes "run_state (mark_fetched E url) s = (e, s1)" "run_state (new_store E') s1 = (None, s2)"
    and complete: "line_complete (history_bytes s)" "\<forall>u. fetched s u \<longrightarrow> u \<in> history_lines s"
    and url: "newline \<notin> set url" "trim_space url = url" "url \<noteq> ''''"
  shows "(\<forall>u \<in> history_lines s. fetched s2 u)
    \<and> (e = None \<longrightarrow> (\<forall>u. fetched s2 u \<longleftrightarrow> u = url \<or> u \<in> history_lines s) \<and> line_complete (history_bytes s2))"
proof -
  have open2: "fetched s2 u \<longleftrightarrow> u \<in> history_lines s1" "history_bytes s2 = history_bytes s1" for u
    using new_store_opens [OF assms(2)] by blast+
  show ?thesis
  proof (cases "fetched s url")
    case True
    then have "s1 = s" "url \<in> history_lines s" using assms(1) mark_fetched_known complete(2) by auto
    then show ?thesis using open2 complete(1) by auto
  next
    case False
    obtain k where k: "history_bytes s1 = history_bytes s @ take k (url @ [newline])" "e = None \<longrightarrow> length url < k"
      using mark_fetched_file [OF assms(1) False] by blast
    have lines: "history_lines s1 = history_lines s \<union> set (history_entries (take k (url @ [newline])))"
      by (simp add: history_lines_def k(1) history_entries_append [OF complete(1)])
    moreover have "take k (url @ [newline]) = url @ [newline]" if "e = None" using k(2) that by simp
    ultimately show ?thesis
      using open2 k(1) history_entries_url [OF url] by (auto simp: line_complete_def)
  qed
qed

theorem marked_url_survives_restart_witness:
  "fetched (snd (run_state (new_store demo_env) (snd (run_state (mark_fetched demo_env ''u'') demo_start)))) ''u''"
proof -
  let ?s1 = "snd (run_state (mark_fetched demo_env ''u'') demo_start)"
  have "fst (run_state (mark_fetched demo_env ''u'') demo_start) = None" by code_simp
  then have a: "run_state (mark_fetched demo_env ''u'') demo_start = (None, ?s1)" by (metis prod.collapse)
  have "fst (run_state (new_store demo_env) ?s1) = None" by code_simp
  then have b: "run_state (new_store demo_env) ?s1 = (None, snd (run_state (new_store demo_env) ?s1))"
    by (metis prod.collapse)
  have "trim_space ''u'' = ''u''" "newline \<notin> set ''u''" "line_complete (history_bytes demo_start)"
    "\<forall>u. fetched demo_start u \<longrightarrow> u \<in> history_lines demo_start"
    by code_simp (simp_all add: newline_def line_complete_def history_bytes_def demo_start_def)
  then show ?thesis using marked_url_survives_restart [OF a b] by simp
qed

text \<open>
  A line torn by a failing write is not repaired when the store is opened again: the next URL marked is
  appended to what is left of it, and is not among the fetched URLs after another restart.
\<close>

lemma history_entries_plain:
  "newline \<notin> set line \<Longrightarrow> history_entries (line @ [newline]) = filter (\<lambda>l. l \<noteq> '''') [trim_space line]"
  using history_entries_line [of line "''''"] by (simp add: history_entries_split split_at_plain)

theorem torn_line_hides_next:
  assumes "run_state (mark_fetched E url) s = (None, s1)" "run_state (new_store E') s1 = (None, s2)" "\<not> fetched s url"
    and torn: "history_bytes s = data @ torn" "line_complete data" "newline \<notin> set torn" "newline \<notin> set url"
    and new: "url \<notin> set (history_entries data)" "trim_space (torn @ url) \<noteq> url"
  shows "\<not> fetched s2 url"
proof -
  obtain k where k: "history_bytes s1 = history_bytes s @ take k (url @ [newline])" "length url < k"
    using mark_fetched_file [OF assms(1,3)] by blast
  then have "history_bytes s1 = data @ (torn @ url) @ [newline]" using torn(1) by simp
  then have "history_lines s1 = set (history_entries data) \<union> set (filter (\<lambda>l. l \<noteq> '''') [trim_space (torn @ url)])"
    unfolding history_lines_def using torn(3,4) history_entries_append [OF torn(2)] history_entries_plain [of "torn @ url"]
    by (simp del: filter.simps)
  then show ?thesis using new_store_opens [OF assms(2)] new by auto
qed

end
