(* ===== verification/Broker.thy ===== *)
theory Broker
  imports Poll
begin

text \<open>
  The WIS2 adapter's connection to the MQTT brokers (\<open>wis2_adapter/app/broker/rotator.go\<close> and the loop of
  \<open>broker.go\<close>): a round robin over the brokers with a growing delay, and the state machine that connects,
  waits, and reports whether it is connected.  The MQTT library decides which connection attempts
  succeed and when a connection is lost; its decisions are the inputs of the step function.
\<close>

section \<open>The rotator\<close>

record rotator =
  rt_brokers :: "string list"
  rt_index :: nat
  rt_backoff :: int
  rt_floor :: int
  rt_ceiling :: int
  rt_max_jitter :: int

definition new_rotator :: "string list \<Rightarrow> int \<Rightarrow> int \<Rightarrow> int \<Rightarrow> rotator" where
  "new_rotator brokers floor ceiling maxJitter =
     \<lparr>rt_brokers = (if brokers = [] then [''mqtts://localhost:8883''] else brokers),
      rt_index = 0, rt_backoff = 0,
      rt_floor = (if floor \<le> 0 then second else floor),
      rt_ceiling = (if ceiling \<le> 0 then 30 * second else ceiling),
      rt_max_jitter = maxJitter\<rparr>"

definition current :: "rotator \<Rightarrow> string" where
  "current r = rt_brokers r ! rt_index r"

text \<open>\<open>Rotate\<close> returns the next broker and the delay before it is tried.\<close>

definition rotate_broker :: "clock_env \<Rightarrow> (int \<Rightarrow> int) \<Rightarrow> rotator \<Rightarrow> (string \<times> int) \<times> rotator" where
  "rotate_broker c rng r =
     (let index = (rt_index r + 1) mod length (rt_brokers r);
          backoff = compute_backoff c no_header (rt_backoff r) (rt_floor r) (rt_ceiling r);
          r = r\<lparr>rt_index := index, rt_backoff := backoff\<rparr>
      in ((current r, jitter backoff (rt_max_jitter r) rng), r))"

definition reset_backoff :: "rotator \<Rightarrow> rotator" where
  "reset_backoff r = r\<lparr>rt_backoff := 0\<rparr>"

section \<open>The connection loop\<close>

text \<open>Where the loop of \<open>Run\<close> stands: at its top, dialing, connected, waiting before the next attempt, returned.\<close>

datatype phase = LoopTop | Dialing | Up | Waiting int | Returned

record mqtt_broker =
  mb_rotator :: rotator
  mb_connected :: bool
  mb_last_error :: string
  mb_closed :: bool
  mb_phase :: phase

datatype input = Proceed | ConnectFails string | ConnectSucceeds | ConnectionLost | CtxDone | CloseCalled

definition new_mqtt_broker :: "string list \<Rightarrow> mqtt_broker" where
  "new_mqtt_broker brokers =
     \<lparr>mb_rotator = new_rotator brokers second (30 * second) (second div 2), mb_connected = False,
      mb_last_error = '''', mb_closed = False, mb_phase = LoopTop\<rparr>"

definition set_connected :: "bool \<Rightarrow> string \<Rightarrow> mqtt_broker \<Rightarrow> mqtt_broker" where
  "set_connected connected errStr b = b\<lparr>mb_connected := connected, mb_last_error := errStr\<rparr>"

text \<open>After a failure: note the error, rotate, wait.\<close>

definition back_off :: "clock_env \<Rightarrow> (int \<Rightarrow> int) \<Rightarrow> string \<Rightarrow> mqtt_broker \<Rightarrow> mqtt_broker" where
  "back_off c rng err b =
     (let b = set_connected False err b; ((_, delay), r) = rotate_broker c rng (mb_rotator b)
      in b\<lparr>mb_rotator := r, mb_phase := Waiting delay\<rparr>)"

definition broker_step :: "clock_env \<Rightarrow> (int \<Rightarrow> int) \<Rightarrow> input \<Rightarrow> mqtt_broker \<Rightarrow> mqtt_broker option" where
  "broker_step c rng i b =
     (case (i, mb_phase b) of
        (CloseCalled, _) \<Rightarrow> Some (b\<lparr>mb_closed := True\<rparr>)
      | (Proceed, LoopTop) \<Rightarrow> Some (b\<lparr>mb_phase := (if mb_closed b then Returned else Dialing)\<rparr>)
      | (CtxDone, LoopTop) \<Rightarrow> Some (b\<lparr>mb_phase := Returned\<rparr>)
      | (ConnectFails err, Dialing) \<Rightarrow> Some (back_off c rng err b)
      | (ConnectSucceeds, Dialing) \<Rightarrow>
          (let b = set_connected True '''' b
           in Some (b\<lparr>mb_rotator := reset_backoff (mb_rotator b), mb_phase := Up\<rparr>))
      | (CtxDone, Up) \<Rightarrow> Some (b\<lparr>mb_phase := Returned\<rparr>)
      | (ConnectionLost, Up) \<Rightarrow> Some (back_off c rng ''connection closed'' b)
      | (CtxDone, Waiting _) \<Rightarrow> Some (b\<lparr>mb_phase := Returned\<rparr>)
      | (Proceed, Waiting _) \<Rightarrow> Some (b\<lparr>mb_phase := LoopTop\<rparr>)
      | _ \<Rightarrow> None)"

inductive broker_reaches :: "clock_env \<Rightarrow> mqtt_broker \<Rightarrow> mqtt_broker \<Rightarrow> bool" for c b0 where
  start: "broker_reaches c b0 b0"
| step: "broker_reaches c b0 b \<Longrightarrow> int63n_ok rng \<Longrightarrow> broker_step c rng i b = Some b' \<Longrightarrow> broker_reaches c b0 b'"

section \<open>Rotation\<close>

definition rotator_ok :: "rotator \<Rightarrow> bool" where
  "rotator_ok r \<longleftrightarrow> rt_brokers r \<noteq> [] \<and> rt_index r < length (rt_brokers r) \<and> 0 < rt_floor r \<and> rt_floor r \<le> rt_ceiling r
     \<and> rt_ceiling r \<le> 2 ^ 61 \<and> rt_max_jitter r \<le> 2 ^ 61 \<and> rt_backoff r \<le> rt_ceiling r"

lemma rotator_policy:
  "rotator_ok r \<Longrightarrow> backoff_policy (\<lambda>p. compute_backoff c no_header p (rt_floor r) (rt_ceiling r)) (rt_floor r) (rt_ceiling r)"
  by (rule backoff_policy_compute_backoff) (auto simp: rotator_ok_def max_int64_def)

lemma new_rotator_ok:
  "ceiling \<le> 2 ^ 61 \<Longrightarrow> maxJitter \<le> 2 ^ 61 \<Longrightarrow> (if floor \<le> 0 then second else floor) \<le> (if ceiling \<le> 0 then 30 * second else ceiling)
   \<Longrightarrow> rotator_ok (new_rotator brokers floor ceiling maxJitter)"
  by (auto simp: rotator_ok_def new_rotator_def second_def)

text \<open>One rotation: the next broker, and a delay between the floor and the ceiling plus the jitter.\<close>

lemma rotate_broker_ok:
  assumes "rotator_ok r" "int63n_ok rng" "rotate_broker c rng r = ((url, delay), r')"
  shows "rotator_ok r'" "rt_index r' = (rt_index r + 1) mod length (rt_brokers r)" "rt_brokers r' = rt_brokers r"
    "rt_floor r' = rt_floor r" "rt_ceiling r' = rt_ceiling r" "rt_max_jitter r' = rt_max_jitter r"
    "url = current r'" "rt_floor r \<le> delay" "delay \<le> rt_ceiling r + max 0 (rt_max_jitter r)"
    "rt_backoff r' = compute_backoff c no_header (rt_backoff r) (rt_floor r) (rt_ceiling r)"
proof -
  note policy = rotator_policy [OF assms(1), of c]
  let ?b = "compute_backoff c no_header (rt_backoff r) (rt_floor r) (rt_ceiling r)"
  have b: "rt_floor r \<le> ?b" "?b \<le> rt_ceiling r"
    using backoff_policy.next_ge [OF policy] backoff_policy.next_le [OF policy] assms(1) by (auto simp: rotator_ok_def)
  have "?b \<le> jitter ?b (rt_max_jitter r) rng \<and> jitter ?b (rt_max_jitter r) rng \<le> ?b + max 0 (rt_max_jitter r)"
  proof (cases "rt_max_jitter r \<le> 0")
    case False
    then have j: "0 \<le> rng (rt_max_jitter r)" "rng (rt_max_jitter r) < rt_max_jitter r"
      using assms(2) by (auto simp: int63n_ok_def)
    then have "s64 (?b + rng (rt_max_jitter r)) = ?b + rng (rt_max_jitter r)"
      using b assms(1) by (intro s64_id) (auto simp: in_s64_def rotator_ok_def)
    then show ?thesis using j False by (simp add: jitter_def)
  qed (simp add: jitter_def)
  moreover have "(rt_index r + 1) mod length (rt_brokers r) < length (rt_brokers r)"
    using assms(1) by (simp add: rotator_ok_def)
  ultimately show "rotator_ok r'" "rt_index r' = (rt_index r + 1) mod length (rt_brokers r)" "rt_brokers r' = rt_brokers r"
    "rt_floor r' = rt_floor r" "rt_ceiling r' = rt_ceiling r" "rt_max_jitter r' = rt_max_jitter r"
    "url = current r'" "rt_floor r \<le> delay" "delay \<le> rt_ceiling r + max 0 (rt_max_jitter r)" "rt_backoff r' = ?b"
    using assms(1,3) b by (auto simp: rotate_broker_def Let_def rotator_ok_def)
qed

definition rotations :: "clock_env \<Rightarrow> (int \<Rightarrow> int) \<Rightarrow> nat \<Rightarrow> rotator \<Rightarrow> rotator" where
  "rotations c rng n = ((\<lambda>r. snd (rotate_broker c rng r)) ^^ n)"

lemma rotations_ok:
  assumes "rotator_ok r" "int63n_ok rng"
  shows "rotator_ok (rotations c rng n r) \<and> rt_brokers (rotations c rng n r) = rt_brokers r
    \<and> rt_floor (rotations c rng n r) = rt_floor r \<and> rt_ceiling (rotations c rng n r) = rt_ceiling r
    \<and> rt_index (rotations c rng n r) = (rt_index r + n) mod length (rt_brokers r)
    \<and> rt_backoff (rotations c rng n r) = ((\<lambda>p. compute_backoff c no_header p (rt_floor r) (rt_ceiling r)) ^^ n) (rt_backoff r)"
proof (induction n)
  case 0
  then show ?case using assms(1) by (simp add: rotations_def rotator_ok_def)
next
  case (Suc n)
  let ?r = "rotations c rng n r"
  obtain url delay r' where r': "rotate_broker c rng ?r = ((url, delay), r')" by (metis prod.collapse)
  then have "rotations c rng (Suc n) r = r'" by (simp add: rotations_def)
  then show ?case
    using Suc rotate_broker_ok [OF _ assms(2) r'] by (simp add: mod_Suc_eq)
qed

lemma rotations_reach:
  assumes "rotator_ok r" "int63n_ok rng" "broker \<in> set (rt_brokers r)"
  shows "\<exists>n < length (rt_brokers r). current (rotations c rng n r) = broker"
proof -
  let ?n = "length (rt_brokers r)"
  obtain i where i: "i < ?n" "rt_brokers r ! i = broker" using assms(3) by (metis in_set_conv_nth)
  define n where "n = (i + ?n - rt_index r) mod ?n"
  have idx: "rt_index r < ?n" using assms(1) by (simp add: rotator_ok_def)
  then have "(rt_index r + n) mod ?n = i" using i(1) by (simp add: n_def mod_add_right_eq)
  moreover have "n < ?n" unfolding n_def by (rule mod_less_divisor, rule le_less_trans [OF le0 idx])
  ultimately show ?thesis using rotations_ok [OF assms(1,2), of c n] i(2) by (intro exI [of _ n]) (simp add: current_def)
qed

section \<open>Connecting\<close>

text \<open>The loop driven by brokers that each always accept or always refuse, for a number of rounds.\<close>

fun connect_loop :: "clock_env \<Rightarrow> (int \<Rightarrow> int) \<Rightarrow> (string \<Rightarrow> string option) \<Rightarrow> nat \<Rightarrow> mqtt_broker \<Rightarrow> mqtt_broker option" where
  "connect_loop c rng refuses 0 b = None"
| "connect_loop c rng refuses (Suc n) b =
     Option.bind (broker_step c rng Proceed b) (\<lambda>b.
       case refuses (current (mb_rotator b)) of
         None \<Rightarrow> broker_step c rng ConnectSucceeds b
       | Some err \<Rightarrow> Option.bind (broker_step c rng (ConnectFails err) b) (\<lambda>b.
           Option.bind (broker_step c rng Proceed b) (connect_loop c rng refuses n)))"

lemma rotations_Suc: "rotations c rng (Suc n) r = rotations c rng n (snd (rotate_broker c rng r))"
  by (simp add: rotations_def funpow_Suc_right del: funpow.simps)

lemma connect_loop_connects:
  assumes "mb_phase b = LoopTop" "\<not> mb_closed b" "refuses (current (rotations c rng n (mb_rotator b))) = None" "n < fuel"
  shows "\<exists>b'. connect_loop c rng refuses fuel b = Some b' \<and> mb_phase b' = Up \<and> mb_connected b' \<and> mb_last_error b' = ''''
    \<and> rt_backoff (mb_rotator b') = 0 \<and> refuses (current (mb_rotator b')) = None"
  using assms
proof (induction fuel arbitrary: n b)
  case (Suc fuel)
  show ?case
  proof (cases "refuses (current (mb_rotator b))")
    case None
    then show ?thesis using Suc.prems by (simp add: broker_step_def set_connected_def reset_backoff_def current_def)
  next
    case (Some err)
    then obtain m where m: "n = Suc m" using Suc.prems(3) by (cases n) (auto simp: rotations_def)
    let ?b = "b\<lparr>mb_connected := False, mb_last_error := err, mb_rotator := snd (rotate_broker c rng (mb_rotator b)), mb_phase := LoopTop\<rparr>"
    have "connect_loop c rng refuses (Suc fuel) b = connect_loop c rng refuses fuel ?b"
      using Some Suc.prems(1,2)
      by (simp add: broker_step_def back_off_def set_connected_def Let_def split: prod.split)
    moreover have "\<exists>b'. connect_loop c rng refuses fuel ?b = Some b' \<and> mb_phase b' = Up \<and> mb_connected b' \<and> mb_last_error b' = ''''
        \<and> rt_backoff (mb_rotator b') = 0 \<and> refuses (current (mb_rotator b')) = None"
      using Suc.prems m by (intro Suc.IH [of _ m]) (simp_all add: rotations_Suc)
    ultimately show ?thesis by simp
  qed
qed simp

section \<open>The invariant of the connection\<close>

definition broker_inv :: "mqtt_broker \<Rightarrow> bool" where
  "broker_inv b \<longleftrightarrow> rotator_ok (mb_rotator b)
     \<and> (case mb_phase b of
          Up \<Rightarrow> mb_connected b \<and> mb_last_error b = '''' \<and> rt_backoff (mb_rotator b) = 0
        | Waiting d \<Rightarrow> \<not> mb_connected b \<and> rt_floor (mb_rotator b) \<le> d
            \<and> d \<le> rt_ceiling (mb_rotator b) + max 0 (rt_max_jitter (mb_rotator b))
        | Returned \<Rightarrow> True
        | _ \<Rightarrow> \<not> mb_connected b)"

lemma back_off_inv:
  assumes "rotator_ok (mb_rotator b)" "int63n_ok rng"
  shows "broker_inv (back_off c rng err b)"
proof -
  obtain url delay r' where r': "rotate_broker c rng (mb_rotator b) = ((url, delay), r')" by (metis prod.collapse)
  then show ?thesis using rotate_broker_ok [OF assms r']
    by (simp add: broker_inv_def back_off_def set_connected_def)
qed

lemma reset_backoff_ok: "rotator_ok r \<Longrightarrow> rotator_ok (reset_backoff r)"
  by (simp add: rotator_ok_def reset_backoff_def)

lemma broker_step_inv:
  assumes "broker_inv b" "int63n_ok rng" "broker_step c rng i b = Some b'"
  shows "broker_inv b'"
proof -
  have ok: "rotator_ok (mb_rotator b)" using assms(1) by (simp add: broker_inv_def)
  show ?thesis
  proof (cases "\<exists>err. b' = back_off c rng err b")
    case True
    then show ?thesis using back_off_inv [OF ok assms(2)] by blast
  next
    case False
    then show ?thesis
      using assms(1,3) reset_backoff_ok [OF ok]
      by (cases i; cases "mb_phase b")
        (auto simp: broker_step_def broker_inv_def set_connected_def reset_backoff_def split: if_split_asm)
  qed
qed

lemma broker_reaches_inv: "broker_reaches c b0 b \<Longrightarrow> broker_inv b0 \<Longrightarrow> broker_inv b"
  by (induction rule: broker_reaches.induct) (blast intro: broker_step_inv)+

lemma broker_step_config:
  assumes "int63n_ok rng" "broker_step c rng i b = Some b'" "rotator_ok (mb_rotator b)"
  shows "rt_floor (mb_rotator b') = rt_floor (mb_rotator b) \<and> rt_ceiling (mb_rotator b') = rt_ceiling (mb_rotator b)
    \<and> rt_max_jitter (mb_rotator b') = rt_max_jitter (mb_rotator b)"
proof -
  obtain url delay r' where r': "rotate_broker c rng (mb_rotator b) = ((url, delay), r')" by (metis prod.collapse)
  then show ?thesis
    using rotate_broker_ok [OF assms(3,1) r'] assms(2)
    by (cases i; cases "mb_phase b") (auto simp: broker_step_def back_off_def set_connected_def reset_backoff_def)
qed

lemma new_mqtt_broker_inv: "broker_inv (new_mqtt_broker brokers)"
  unfolding broker_inv_def new_mqtt_broker_def
  by (simp, rule new_rotator_ok) (simp_all add: second_def)

section \<open>Properties\<close>

lemma int63n_zero: "int63n_ok (\<lambda>_. 0)"
  by (simp add: int63n_ok_def)

text \<open>C14: As long as one of the configured brokers accepts connections, the loop connects to a broker that accepts after at
  most as many attempts as there are brokers, whichever broker it stands at, and its last error and its backoff
  are cleared.\<close>

theorem rotation_finds_a_broker:
  assumes "rotator_ok (mb_rotator b)" "int63n_ok rng" "mb_phase b = LoopTop" "\<not> mb_closed b"
    "broker \<in> set (rt_brokers (mb_rotator b))" "refuses broker = None"
  shows "\<exists>b'. connect_loop c rng refuses (length (rt_brokers (mb_rotator b))) b = Some b' \<and> mb_phase b' = Up \<and> mb_connected b'
    \<and> mb_last_error b' = '''' \<and> rt_backoff (mb_rotator b') = 0 \<and> refuses (current (mb_rotator b')) = None"
  using rotations_reach [OF assms(1,2,5), of c] connect_loop_connects [OF assms(3,4)] assms(6) by metis

theorem rotation_finds_a_broker_witness:
  "\<exists>b'. connect_loop epoch_clock (\<lambda>_. 0) (\<lambda>u. if u = ''c'' then None else Some ''refused'') 3 (new_mqtt_broker [''a'', ''b'', ''c'']) = Some b'
     \<and> mb_connected b'"
proof -
  let ?b = "new_mqtt_broker [''a'', ''b'', ''c'']"
  have b: "rotator_ok (mb_rotator ?b)" using new_mqtt_broker_inv by (simp add: broker_inv_def)
  have l: "mb_phase ?b = LoopTop" "\<not> mb_closed ?b" "''c'' \<in> set (rt_brokers (mb_rotator ?b))" "length (rt_brokers (mb_rotator ?b)) = 3"
    by (simp_all add: new_mqtt_broker_def new_rotator_def)
  show ?thesis
    using rotation_finds_a_broker [OF b int63n_zero l(1-3), of "\<lambda>u. if u = ''c'' then None else Some ''refused''"
        epoch_clock, unfolded l(4)] by auto
qed

text \<open>However connecting, losing the connection, cancelling and closing are interleaved, the adapter reports
  itself connected only while it is connected or has returned, a wait between attempts is at least one second and at
  most thirty and a half, and a connection that is up has cleared the last error and the backoff.\<close>

theorem broker_state_invariant:
  assumes "broker_reaches c (new_mqtt_broker brokers) b"
  shows "(mb_connected b \<longrightarrow> mb_phase b = Up \<or> mb_phase b = Returned)
    \<and> (mb_phase b = Up \<longrightarrow> mb_connected b \<and> mb_last_error b = '''' \<and> rt_backoff (mb_rotator b) = 0)
    \<and> (\<forall>d. mb_phase b = Waiting d \<longrightarrow> \<not> mb_connected b \<and> second \<le> d \<and> d \<le> 30 * second + second div 2)
    \<and> rt_index (mb_rotator b) < length (rt_brokers (mb_rotator b))"
proof -
  have inv: "broker_inv b" using broker_reaches_inv [OF assms new_mqtt_broker_inv] .
  have "rt_floor (mb_rotator b) = second \<and> rt_ceiling (mb_rotator b) = 30 * second \<and> rt_max_jitter (mb_rotator b) = second div 2"
    using assms
  proof (induction rule: broker_reaches.induct)
    case start
    then show ?case by (simp add: new_mqtt_broker_def new_rotator_def second_def)
  next
    case (step b rng i b')
    moreover have "rotator_ok (mb_rotator b)"
      using broker_reaches_inv [OF step(1) new_mqtt_broker_inv] by (simp add: broker_inv_def)
    ultimately show ?case using broker_step_config [OF step(2,3)] by simp
  qed
  then show ?thesis
    using inv by (auto simp: broker_inv_def rotator_ok_def second_def split: phase.splits)
qed

theorem broker_state_invariant_witness:
  "\<exists>d. mb_phase (back_off epoch_clock (\<lambda>_. 0) ''refused'' (new_mqtt_broker []\<lparr>mb_phase := Dialing\<rparr>)) = Waiting d
     \<and> second \<le> d"
proof -
  let ?b = "new_mqtt_broker []"
  have "broker_reaches epoch_clock ?b (?b\<lparr>mb_phase := Dialing\<rparr>)"
    by (rule broker_reaches.step [OF broker_reaches.start int63n_zero, where i = Proceed])
      (simp add: broker_step_def new_mqtt_broker_def)
  then have "broker_reaches epoch_clock ?b (back_off epoch_clock (\<lambda>_. 0) ''refused'' (?b\<lparr>mb_phase := Dialing\<rparr>))"
    by (rule broker_reaches.step [OF _ int63n_zero, where i = "ConnectFails ''refused''"]) (simp add: broker_step_def)
  from broker_state_invariant [OF this]
  have le: "mb_phase (back_off epoch_clock (\<lambda>_. 0) ''refused'' (?b\<lparr>mb_phase := Dialing\<rparr>)) = Waiting d \<Longrightarrow> second \<le> d" for d
    by blast
  have "\<exists>d. mb_phase (back_off epoch_clock (\<lambda>_. 0) ''refused'' (?b\<lparr>mb_phase := Dialing\<rparr>)) = Waiting d"
    by (simp add: back_off_def Let_def split: prod.split)
  then show ?thesis using le by blast
qed

end
