(* ===== verification/Limiter.thy ===== *)
theory Limiter
  imports Poll
begin

text \<open>
  The request limiters: the CAP adapter's \<open>HostLimiter\<close> (\<open>cap_adapter/app/adapter/limiter.go\<close>), shared by its
  polling goroutines, and the GDACS adapter's sequential \<open>Limiter\<close> (\<open>gdacs_adapter/app/adapter/limiter.go\<close>).  The
  goroutines that call \<open>Wait\<close> and \<open>Done\<close> are interleaved at their channel and mutex operations; the
  clock is monotone, as Go's is.
\<close>

section \<open>The gap as an interface\<close>

text \<open>
  What both limiters rest on: the wait computed from the minimum gap, the end of the previous
  request and the current time is exactly what is missing.
\<close>

locale gap_rule =
  fixes gap_wait :: "int \<Rightarrow> int \<Rightarrow> int \<Rightarrow> int"
  assumes wait_exact: "0 \<le> gap \<Longrightarrow> gap \<le> max_int64 \<Longrightarrow> prev \<le> t \<Longrightarrow> t + max 0 (gap_wait gap prev t) = max t (prev + gap)"
begin

lemma starts_after_gap:
  assumes "0 \<le> gap" "gap \<le> max_int64" "prev \<le> t" "t + max 0 (gap_wait gap prev t) \<le> start"
  shows "prev + gap \<le> start"
  using wait_exact [OF assms(1-3)] assms(4) by linarith

lemma no_wait_when_due:
  assumes "0 \<le> gap" "gap \<le> max_int64" "prev \<le> t" "gap_wait gap prev t \<le> 0"
  shows "prev + gap \<le> t"
  using wait_exact [OF assms(1-3)] assms(4) by linarith

lemma never_over_waits:
  assumes "0 \<le> gap" "gap \<le> max_int64" "prev \<le> t"
  shows "gap_wait gap prev t \<le> gap"
  using wait_exact [OF assms] assms by linarith

end

section \<open>The limiter shared by hosts\<close>

record host_state =
  hs_sem :: nat
  hs_last_end :: int
  hs_has_run :: bool

record host_limiter =
  hl_min_interval :: int
  hl_max_parallel :: nat
  hl_global :: nat
  hl_hosts :: "string \<rightharpoonup> host_state"

text \<open>A channel of capacity n is the number of tokens in it.\<close>

definition new_host_limiter :: "int \<Rightarrow> int \<Rightarrow> host_limiter" where
  "new_host_limiter minHostInterval maxParallelHosts =
     \<lparr>hl_min_interval = minHostInterval,
      hl_max_parallel = (if maxParallelHosts \<le> 0 then 1 else nat maxParallelHosts),
      hl_global = 0, hl_hosts = Map.empty\<rparr>"

definition fresh_host :: host_state where
  "fresh_host = \<lparr>hs_sem = 0, hs_last_end = 0, hs_has_run = False\<rparr>"

definition get_host_state :: "string \<Rightarrow> host_limiter \<Rightarrow> host_state \<times> host_limiter" where
  "get_host_state host hl =
     (case hl_hosts hl host of
        Some hs \<Rightarrow> (hs, hl)
      | None \<Rightarrow> (fresh_host, hl\<lparr>hl_hosts := (hl_hosts hl)(host \<mapsto> fresh_host)\<rparr>))"

text \<open>The state the goroutine's pointer leads to, and an update through that pointer.\<close>

definition host_of :: "host_limiter \<Rightarrow> string \<Rightarrow> host_state" where
  "host_of hl host = fst (get_host_state host hl)"

definition set_host :: "string \<Rightarrow> host_state \<Rightarrow> host_limiter \<Rightarrow> host_limiter" where
  "set_host host hs hl = hl\<lparr>hl_hosts := (hl_hosts hl)(host \<mapsto> hs)\<rparr>"

definition host_wait :: "int \<Rightarrow> int \<Rightarrow> int \<Rightarrow> int" where
  "host_wait minHostInterval lastEnd t =
     (let elapsed = time_sub t lastEnd
      in if elapsed < minHostInterval then s64 (minHostInterval - elapsed) else 0)"

definition wait_duration :: "host_limiter \<Rightarrow> host_state \<Rightarrow> int \<Rightarrow> int" where
  "wait_duration hl hs t =
     (if hs_has_run hs then host_wait (hl_min_interval hl) (hs_last_end hs) t else 0)"

lemma time_sub_forward: "b \<le> a \<Longrightarrow> 0 \<le> time_sub a b \<and> time_sub a b = min max_int64 (a - b)"
  by (auto simp: time_sub_def max_int64_def)

interpretation host_gap: gap_rule host_wait
proof
  fix gap prev t :: int
  assume gap: "0 \<le> gap" "gap \<le> max_int64" and t: "prev \<le> t"
  show "t + max 0 (host_wait gap prev t) = max t (prev + gap)"
  proof (cases "time_sub t prev < gap")
    case True
    then have "s64 (gap - time_sub t prev) = gap - time_sub t prev"
      using gap time_sub_forward [OF t] by (intro s64_id) (auto simp: in_s64_def max_int64_def)
    then show ?thesis using True gap time_sub_forward [OF t] by (auto simp: host_wait_def Let_def)
  qed (use gap time_sub_forward [OF t] in \<open>auto simp: host_wait_def Let_def\<close>)
qed

section \<open>Goroutines\<close>

text \<open>
  Where a goroutine stands: outside, blocked on the host's semaphore, holding it, asleep until an
  instant, blocked on the global semaphore, with its request in flight, and at the two points inside \<open>Done\<close>
  between its three operations.
\<close>

datatype pc = Idle | AtHost string | HasHost string | Sleeping string int | AtGlobal string
  | InFlight string | ReleasedGlobal string | Recorded string

datatype act = Call string | Proceed | Cancel

datatype log_event = Started string int | Ended string int

definition acquire_host :: "string \<Rightarrow> host_limiter \<Rightarrow> host_limiter option" where
  "acquire_host host hl =
     (let hs = host_of hl host
      in if hs_sem hs < 1 then Some (set_host host (hs\<lparr>hs_sem := hs_sem hs + 1\<rparr>) hl) else None)"

definition release_host :: "string \<Rightarrow> host_limiter \<Rightarrow> host_limiter" where
  "release_host host hl = (let hs = host_of hl host in set_host host (hs\<lparr>hs_sem := hs_sem hs - 1\<rparr>) hl)"

definition acquire_global :: "host_limiter \<Rightarrow> host_limiter option" where
  "acquire_global hl = (if hl_global hl < hl_max_parallel hl then Some (hl\<lparr>hl_global := hl_global hl + 1\<rparr>) else None)"

definition release_global :: "host_limiter \<Rightarrow> host_limiter" where
  "release_global hl = hl\<lparr>hl_global := hl_global hl - 1\<rparr>"

definition record_end :: "string \<Rightarrow> int \<Rightarrow> host_limiter \<Rightarrow> host_limiter" where
  "record_end host t hl = set_host host ((host_of hl host)\<lparr>hs_last_end := t, hs_has_run := True\<rparr>) hl"

text \<open>One operation of \<open>Wait\<close>, from its call to its return.\<close>

definition wait_step :: "act \<Rightarrow> int \<Rightarrow> pc \<Rightarrow> host_limiter \<Rightarrow> (pc \<times> host_limiter \<times> log_event list) option" where
  "wait_step a t p hl =
     (case (a, p) of
        (Call host, Idle) \<Rightarrow> Some (AtHost host, snd (get_host_state host hl), [])
      | (Proceed, AtHost host) \<Rightarrow> map_option (\<lambda>hl. (HasHost host, hl, [])) (acquire_host host hl)
      | (Cancel, AtHost host) \<Rightarrow> Some (Idle, hl, [])
      | (Proceed, HasHost host) \<Rightarrow>
          (let w = wait_duration hl (host_of hl host) t
           in Some (if 0 < w then Sleeping host (t + w) else AtGlobal host, hl, []))
      | (Proceed, Sleeping host wake) \<Rightarrow> if wake \<le> t then Some (AtGlobal host, hl, []) else None
      | (Cancel, Sleeping host _) \<Rightarrow> Some (Idle, release_host host hl, [])
      | (Proceed, AtGlobal host) \<Rightarrow> map_option (\<lambda>hl. (InFlight host, hl, [Started host t])) (acquire_global hl)
      | (Cancel, AtGlobal host) \<Rightarrow> Some (Idle, release_host host hl, [])
      | _ \<Rightarrow> None)"

text \<open>One operation of \<open>Done\<close>.\<close>

definition done_step :: "int \<Rightarrow> pc \<Rightarrow> host_limiter \<Rightarrow> (pc \<times> host_limiter \<times> log_event list) option" where
  "done_step t p hl =
     (case p of
        InFlight host \<Rightarrow> Some (ReleasedGlobal host, release_global hl, [])
      | ReleasedGlobal host \<Rightarrow> Some (Recorded host, record_end host t hl, [Ended host t])
      | Recorded host \<Rightarrow> Some (Idle, release_host host hl, [])
      | _ \<Rightarrow> None)"

definition thread_step :: "act \<Rightarrow> int \<Rightarrow> pc \<Rightarrow> host_limiter \<Rightarrow> (pc \<times> host_limiter \<times> log_event list) option" where
  "thread_step a t p hl =
     (case p of
        InFlight _ \<Rightarrow> if a = Proceed then done_step t p hl else None
      | ReleasedGlobal _ \<Rightarrow> if a = Proceed then done_step t p hl else None
      | Recorded _ \<Rightarrow> if a = Proceed then done_step t p hl else None
      | _ \<Rightarrow> wait_step a t p hl)"

text \<open>The goroutines, the limiter they share, the clock, and what happened, newest first.\<close>

record lsys =
  ls_limiter :: host_limiter
  ls_pcs :: "pc list"
  ls_clock :: int
  ls_log :: "log_event list"

inductive lsys_step :: "lsys \<Rightarrow> lsys \<Rightarrow> bool" where
  thread: "i < length (ls_pcs s) \<Longrightarrow> thread_step a (ls_clock s) (ls_pcs s ! i) (ls_limiter s) = Some (p, hl, es) \<Longrightarrow>
     lsys_step s (s\<lparr>ls_limiter := hl, ls_pcs := (ls_pcs s)[i := p], ls_log := es @ ls_log s\<rparr>)"
| tick: "0 \<le> d \<Longrightarrow> lsys_step s (s\<lparr>ls_clock := ls_clock s + d\<rparr>)"

definition start_lsys :: "host_limiter \<Rightarrow> nat \<Rightarrow> int \<Rightarrow> lsys" where
  "start_lsys hl n t = \<lparr>ls_limiter = hl, ls_pcs = replicate n Idle, ls_clock = t, ls_log = []\<rparr>"

inductive lsys_reaches :: "lsys \<Rightarrow> lsys \<Rightarrow> bool" for s0 where
  start: "lsys_reaches s0 s0"
| step: "lsys_reaches s0 s \<Longrightarrow> lsys_step s s' \<Longrightarrow> lsys_reaches s0 s'"

section \<open>What one operation changes\<close>

fun in_flight :: "pc \<Rightarrow> bool" where
  "in_flight (InFlight _) = True"
| "in_flight _ = False"

fun holds :: "string \<Rightarrow> pc \<Rightarrow> bool" where
  "holds h Idle = False"
| "holds h (AtHost k) = False"
| "holds h (HasHost k) = (k = h)"
| "holds h (Sleeping k _) = (k = h)"
| "holds h (AtGlobal k) = (k = h)"
| "holds h (InFlight k) = (k = h)"
| "holds h (ReleasedGlobal k) = (k = h)"
| "holds h (Recorded k) = (k = h)"

lemma host_of_set [simp]: "host_of (set_host k hs hl) h = (if h = k then hs else host_of hl h)"
  by (auto simp: host_of_def set_host_def get_host_state_def split: option.split)

lemma host_of_get [simp]: "host_of (snd (get_host_state k hl)) h = host_of hl h"
  by (simp add: host_of_def get_host_state_def split: option.split)

lemma host_of_global [simp]: "host_of (hl\<lparr>hl_global := g\<rparr>) h = host_of hl h"
  by (simp add: host_of_def get_host_state_def split: option.split)

lemma set_host_fields [simp]:
  "hl_global (set_host k hs hl) = hl_global hl" "hl_max_parallel (set_host k hs hl) = hl_max_parallel hl"
  "hl_min_interval (set_host k hs hl) = hl_min_interval hl"
  by (simp_all add: set_host_def)

lemma get_host_fields [simp]:
  "hl_global (snd (get_host_state k hl)) = hl_global hl" "hl_max_parallel (snd (get_host_state k hl)) = hl_max_parallel hl"
  "hl_min_interval (snd (get_host_state k hl)) = hl_min_interval hl"
  by (simp_all add: get_host_state_def split: option.split)

lemmas op_defs = thread_step_def wait_step_def done_step_def acquire_host_def release_host_def acquire_global_def
  release_global_def record_end_def Let_def

text \<open>The tokens follow the goroutine, and only recording an end changes what the next wait is computed from.\<close>

lemma thread_step_tokens:
  assumes "thread_step a t p hl = Some (p', hl', es)"
    "in_flight p \<Longrightarrow> 1 \<le> hl_global hl" "\<And>h. holds h p \<Longrightarrow> 1 \<le> hs_sem (host_of hl h)"
  shows "hl_global hl' + of_bool (in_flight p) = hl_global hl + of_bool (in_flight p')"
    "hs_sem (host_of hl' h) + of_bool (holds h p) = hs_sem (host_of hl h) + of_bool (holds h p')"
    "hl_global hl \<le> hl_max_parallel hl \<Longrightarrow> hl_global hl' \<le> hl_max_parallel hl"
    "hs_sem (host_of hl h) \<le> 1 \<Longrightarrow> hs_sem (host_of hl' h) \<le> 1"
    "hl_max_parallel hl' = hl_max_parallel hl" "hl_min_interval hl' = hl_min_interval hl"
  using assms by (cases p; cases a; auto simp: op_defs split: if_split_asm)+

lemma thread_step_times:
  assumes "thread_step a t p hl = Some (p', hl', es)"
  shows "hs_has_run (host_of hl' h) = (hs_has_run (host_of hl h) \<or> p = ReleasedGlobal h)"
    "hs_last_end (host_of hl' h) = (if p = ReleasedGlobal h then t else hs_last_end (host_of hl h))"
    "es = [] \<or> (\<exists>k. p = AtGlobal k \<and> es = [Started k t]) \<or> (\<exists>k. p = ReleasedGlobal k \<and> es = [Ended k t])"
  using assms by (cases p; cases a; auto simp: op_defs split: if_split_asm)+

section \<open>The invariant of the limiter\<close>

lemma length_filter_update:
  "i < length ps \<Longrightarrow> length (filter P (ps[i := p])) + of_bool (P (ps ! i)) = length (filter P ps) + of_bool (P p)"
proof (induction ps arbitrary: i)
  case (Cons q ps)
  then show ?case using Cons.IH [of "i - 1"] by (cases i) (auto simp del: of_bool_eq_0_iff)
qed simp

lemma filter_pos: "i < length ps \<Longrightarrow> P (ps ! i) \<Longrightarrow> 1 \<le> length (filter P ps)"
  using nth_mem [of i ps] by (fastforce simp: Suc_le_eq filter_empty_conv)

lemma filter_unique:
  assumes "length (filter P ps) \<le> 1" "i < length ps" "j < length ps" "P (ps ! i)" "P (ps ! j)"
  shows "i = j"
proof -
  have "card {k. k < length ps \<and> P (ps ! k)} \<le> Suc 0"
    using assms(1) by (simp add: length_filter_conv_card)
  then show ?thesis using assms by (subst (asm) card_le_Suc0_iff_eq) auto
qed

definition tokens_inv :: "lsys \<Rightarrow> bool" where
  "tokens_inv s \<longleftrightarrow> hl_global (ls_limiter s) = length (filter in_flight (ls_pcs s))
     \<and> hl_global (ls_limiter s) \<le> hl_max_parallel (ls_limiter s)
     \<and> (\<forall>h. hs_sem (host_of (ls_limiter s) h) = length (filter (holds h) (ls_pcs s)))
     \<and> (\<forall>h. length (filter (holds h) (ls_pcs s)) \<le> 1)"

lemma lsys_step_tokens: "lsys_step s s' \<Longrightarrow> tokens_inv s \<Longrightarrow> tokens_inv s'"
proof (induction rule: lsys_step.induct)
  case (thread i s a p hl es)
  note pos = filter_pos [OF thread(1)]
  have pre: "in_flight (ls_pcs s ! i) \<Longrightarrow> 1 \<le> hl_global (ls_limiter s)"
    "\<And>h. holds h (ls_pcs s ! i) \<Longrightarrow> 1 \<le> hs_sem (host_of (ls_limiter s) h)"
    using thread(3) pos by (auto simp: tokens_inv_def)
  note step = thread_step_tokens [OF thread(2) pre, simplified]
  have "hl_global hl = length (filter in_flight ((ls_pcs s)[i := p])) \<and> hl_global hl \<le> hl_max_parallel hl"
    using thread(3) step(1,3,5) length_filter_update [OF thread(1), of in_flight p] by (simp add: tokens_inv_def)
  moreover have "hs_sem (host_of hl h) = length (filter (holds h) ((ls_pcs s)[i := p]))
      \<and> length (filter (holds h) ((ls_pcs s)[i := p])) \<le> 1" for h
    using thread(3) step(2,4) [of h] length_filter_update [OF thread(1), of "holds h" p] by (simp add: tokens_inv_def)
  ultimately show ?case by (simp add: tokens_inv_def)
qed (simp add: tokens_inv_def)

fun gap_ok :: "int \<Rightarrow> int \<Rightarrow> host_limiter \<Rightarrow> pc \<Rightarrow> bool" where
  "gap_ok gap t hl (Sleeping h wake) = (hs_has_run (host_of hl h) \<longrightarrow> hs_last_end (host_of hl h) + gap \<le> wake)"
| "gap_ok gap t hl (AtGlobal h) = (hs_has_run (host_of hl h) \<longrightarrow> hs_last_end (host_of hl h) + gap \<le> t)"
| "gap_ok gap t hl p = True"

fun ended_by :: "string \<Rightarrow> int \<Rightarrow> log_event \<Rightarrow> bool" where
  "ended_by h t (Ended k t') = (k = h \<longrightarrow> t' \<le> t)"
| "ended_by h t (Started _ _) = True"

text \<open>Each start in the log, newest first, comes the gap after every earlier end for the same host.\<close>

fun spaced :: "int \<Rightarrow> log_event list \<Rightarrow> bool" where
  "spaced gap [] = True"
| "spaced gap (Started h t # es) = (list_all (ended_by h (t - gap)) es \<and> spaced gap es)"
| "spaced gap (Ended h t # es) = spaced gap es"

definition times_inv :: "lsys \<Rightarrow> bool" where
  "times_inv s \<longleftrightarrow> (\<forall>p \<in> set (ls_pcs s). gap_ok (hl_min_interval (ls_limiter s)) (ls_clock s) (ls_limiter s) p)
     \<and> (\<forall>h. hs_has_run (host_of (ls_limiter s) h) \<longrightarrow> hs_last_end (host_of (ls_limiter s) h) \<le> ls_clock s)
     \<and> (\<forall>h t. Ended h t \<in> set (ls_log s) \<longrightarrow>
          hs_has_run (host_of (ls_limiter s) h) \<and> t \<le> hs_last_end (host_of (ls_limiter s) h))
     \<and> spaced (hl_min_interval (ls_limiter s)) (ls_log s)"

lemma gap_ok_other:
  assumes "thread_step a t p hl = Some (p', hl', es)" "gap_ok gap t hl q" "\<And>h. p = ReleasedGlobal h \<Longrightarrow> \<not> holds h q"
  shows "gap_ok gap t hl' q"
  using assms(2,3) thread_step_times(1,2) [OF assms(1)] by (cases q) auto

lemma gap_ok_own:
  assumes "thread_step a t p hl = Some (p', hl', es)" "gap_ok gap t hl p" "hl_min_interval hl = gap"
    "0 \<le> gap" "gap \<le> max_int64" "\<And>h. hs_has_run (host_of hl h) \<Longrightarrow> hs_last_end (host_of hl h) \<le> t"
  shows "gap_ok gap t hl' p'"
proof (cases "\<exists>h. p = HasHost h")
  case True
  then obtain h where h: "p = HasHost h" by blast
  then have "hs_has_run (host_of hl h) \<Longrightarrow>
      t + max 0 (wait_duration hl (host_of hl h) t) = max t (hs_last_end (host_of hl h) + gap)"
    using assms(3-6) host_gap.wait_exact [of gap "hs_last_end (host_of hl h)" t] by (simp add: wait_duration_def)
  then show ?thesis
    using assms(1) h by (cases a; auto simp: thread_step_def wait_step_def Let_def max_def split: if_split_asm)
next
  case False
  then show ?thesis
    using assms(1,2) by (cases p; cases a; auto simp: op_defs split: if_split_asm)
qed

lemma ended_by_list:
  "list_all (ended_by h t) es \<longleftrightarrow> (\<forall>t'. Ended h t' \<in> set es \<longrightarrow> t' \<le> t)"
proof (induction es)
  case (Cons e es)
  then show ?case by (cases e) auto
qed simp

lemma in_flight_distinct:
  assumes "tokens_inv s" "i < length (ls_pcs s)" "j < length (ls_pcs s)" "holds h (ls_pcs s ! i)" "holds h (ls_pcs s ! j)"
  shows "i = j"
proof -
  have "length (filter (holds h) (ls_pcs s)) \<le> 1" using assms(1) by (simp add: tokens_inv_def)
  then show ?thesis using assms(2-5) by (rule filter_unique)
qed

lemma thread_step_log:
  assumes "thread_step a t p hl = Some (p', hl', es)" "gap_ok gap t hl p"
    "\<And>h. hs_has_run (host_of hl h) \<Longrightarrow> hs_last_end (host_of hl h) \<le> t"
    "\<forall>h t. Ended h t \<in> set log \<longrightarrow> hs_has_run (host_of hl h) \<and> t \<le> hs_last_end (host_of hl h)" "spaced gap log"
  shows "spaced gap (es @ log)"
    "\<forall>h t. Ended h t \<in> set (es @ log) \<longrightarrow> hs_has_run (host_of hl' h) \<and> t \<le> hs_last_end (host_of hl' h)"
proof -
  note times = thread_step_times [OF assms(1)]
  consider "es = []" | k where "p = AtGlobal k" "es = [Started k t]" | k where "p = ReleasedGlobal k" "es = [Ended k t]"
    using times(3) by blast
  note shapes = this
  show "spaced gap (es @ log)"
  proof (cases rule: shapes)
    case (2 k)
    then have "hs_has_run (host_of hl k) \<longrightarrow> hs_last_end (host_of hl k) + gap \<le> t" using assms(2) by simp
    then have "\<forall>t'. Ended k t' \<in> set log \<longrightarrow> t' \<le> t - gap" using assms(4) by force
    then show ?thesis using 2(2) assms(5) by (simp add: ended_by_list)
  qed (use assms(5) in simp_all)
  have old: "hs_has_run (host_of hl' h) \<and> u \<le> hs_last_end (host_of hl' h)" if "Ended h u \<in> set log" for h u
  proof -
    have "hs_has_run (host_of hl h)" "u \<le> hs_last_end (host_of hl h)" "hs_last_end (host_of hl h) \<le> t"
      using assms(3,4) that by blast+
    then show ?thesis using times(1,2) [of h] by simp
  qed
  show "\<forall>h t. Ended h t \<in> set (es @ log) \<longrightarrow> hs_has_run (host_of hl' h) \<and> t \<le> hs_last_end (host_of hl' h)"
  proof (cases rule: shapes)
    case (3 k)
    then show ?thesis using old times(1,2) [of k] by auto
  qed (use old in auto)
qed

lemma gap_ok_later: "gap_ok gap t hl p \<Longrightarrow> t \<le> t' \<Longrightarrow> gap_ok gap t' hl p"
  by (cases p) auto

lemma lsys_step_times:
  assumes "lsys_step s s'" "tokens_inv s" "times_inv s"
    "0 \<le> hl_min_interval (ls_limiter s)" "hl_min_interval (ls_limiter s) \<le> max_int64"
  shows "times_inv s'"
  using assms
proof (induction rule: lsys_step.induct)
  case (thread i s a p hl es)
  let ?p = "ls_pcs s ! i" and ?gap = "hl_min_interval (ls_limiter s)"
  have ran: "\<And>h. hs_has_run (host_of (ls_limiter s) h) \<Longrightarrow> hs_last_end (host_of (ls_limiter s) h) \<le> ls_clock s"
    and gaps: "\<And>j. j < length (ls_pcs s) \<Longrightarrow> gap_ok ?gap (ls_clock s) (ls_limiter s) (ls_pcs s ! j)"
    and logs: "spaced ?gap (ls_log s)"
      "\<forall>h t. Ended h t \<in> set (ls_log s) \<longrightarrow>
        hs_has_run (host_of (ls_limiter s) h) \<and> t \<le> hs_last_end (host_of (ls_limiter s) h)"
    using thread(4) by (auto simp: times_inv_def)
  have "gap_ok ?gap (ls_clock s) hl (((ls_pcs s)[i := p]) ! j)" if j: "j < length (ls_pcs s)" for j
  proof (cases "j = i")
    case True
    then show ?thesis
      using gap_ok_own [OF thread(2) gaps [OF thread(1)] refl thread(5,6) ran] thread(1) by simp
  next
    case False
    then have "?p = ReleasedGlobal h \<Longrightarrow> \<not> holds h (ls_pcs s ! j)" for h
      using in_flight_distinct [OF thread(3,1) j, of h] by auto
    then show ?thesis
      using gap_ok_other [OF thread(2) gaps [OF j]] False by simp
  qed
  moreover have "hl_min_interval hl = ?gap"
    using thread(2) by (cases ?p; cases a; auto simp: op_defs split: if_split_asm)
  moreover have "hs_has_run (host_of hl h) \<Longrightarrow> hs_last_end (host_of hl h) \<le> ls_clock s" for h
    using thread_step_times(1,2) [OF thread(2), of h] ran by (auto split: if_split_asm)
  ultimately show ?case
    using thread_step_log [OF thread(2) gaps [OF thread(1)] ran logs(2,1)]
    by (simp add: times_inv_def all_set_conv_all_nth)
next
  case (tick d s)
  then show ?case by (fastforce simp: times_inv_def intro: gap_ok_later)
qed

lemma lsys_step_config:
  assumes "lsys_step s s'"
  shows "hl_min_interval (ls_limiter s') = hl_min_interval (ls_limiter s)"
    "hl_max_parallel (ls_limiter s') = hl_max_parallel (ls_limiter s)" "length (ls_pcs s') = length (ls_pcs s)"
  using assms
proof (induction rule: lsys_step.induct)
  case (thread i s a p hl es)
  { case 1 show ?case using thread(2) by (cases "ls_pcs s ! i"; cases a; auto simp: op_defs split: if_split_asm) }
  { case 2 show ?case using thread(2) by (cases "ls_pcs s ! i"; cases a; auto simp: op_defs split: if_split_asm) }
  { case 3 show ?case by simp }
qed simp_all

lemma start_lsys_inv: "tokens_inv (start_lsys (new_host_limiter gap n) m t)" "times_inv (start_lsys (new_host_limiter gap n) m t)"
  by (auto simp: tokens_inv_def times_inv_def start_lsys_def new_host_limiter_def host_of_def get_host_state_def fresh_host_def)

lemma lsys_reaches_inv:
  assumes "lsys_reaches (start_lsys (new_host_limiter gap n) m t) s" "0 \<le> gap" "gap \<le> max_int64"
  shows "tokens_inv s \<and> times_inv s \<and> hl_min_interval (ls_limiter s) = gap
    \<and> hl_max_parallel (ls_limiter s) = (if n \<le> 0 then 1 else nat n) \<and> length (ls_pcs s) = m"
  using assms(1)
proof (induction rule: lsys_reaches.induct)
  case start
  then show ?case using start_lsys_inv by (simp add: start_lsys_def new_host_limiter_def)
next
  case (step s s')
  then show ?case
    using assms(2,3) lsys_step_tokens [OF step(2)] lsys_step_times [OF step(2)] lsys_step_config [OF step(2)] by simp
qed

section \<open>The sequential limiter\<close>

record limiter =
  lm_min_interval :: int
  lm_last_end :: int
  lm_has_run :: bool

definition new_limiter :: "int \<Rightarrow> limiter" where
  "new_limiter minInterval = \<lparr>lm_min_interval = minInterval, lm_last_end = 0, lm_has_run = False\<rparr>"

definition limiter_gap_wait :: "int \<Rightarrow> int \<Rightarrow> int \<Rightarrow> int" where
  "limiter_gap_wait minInterval lastEnd t = s64 (minInterval - time_sub t lastEnd)"

definition limiter_wait :: "int \<Rightarrow> limiter \<Rightarrow> int" where
  "limiter_wait t l = (if lm_has_run l then limiter_gap_wait (lm_min_interval l) (lm_last_end l) t else 0)"

text \<open>The instant at which \<open>Wait\<close>, called at an instant and not cancelled, returns.\<close>

definition wait_until :: "int \<Rightarrow> limiter \<Rightarrow> int" where
  "wait_until t l = (if limiter_wait t l \<le> 0 then t else t + limiter_wait t l)"

definition limiter_done :: "int \<Rightarrow> limiter \<Rightarrow> limiter" where
  "limiter_done t l = l\<lparr>lm_last_end := t, lm_has_run := True\<rparr>"

interpretation sequential_gap: gap_rule limiter_gap_wait
proof
  fix gap prev t :: int
  assume gap: "0 \<le> gap" "gap \<le> max_int64" and t: "prev \<le> t"
  have "s64 (gap - time_sub t prev) = gap - time_sub t prev"
    using gap time_sub_forward [OF t] by (intro s64_id) (auto simp: in_s64_def max_int64_def)
  then show "t + max 0 (limiter_gap_wait gap prev t) = max t (prev + gap)"
    using gap time_sub_forward [OF t] by (auto simp: limiter_gap_wait_def)
qed

text \<open>Requests one after another, each given by the idle time before it and how long it takes: their starts and ends.\<close>

fun paced_requests :: "int \<Rightarrow> limiter \<Rightarrow> (int \<times> int) list \<Rightarrow> (int \<times> int) list" where
  "paced_requests t l [] = []"
| "paced_requests t l ((idle, duration) # rs) =
     (let start = wait_until (t + idle) l; finish = start + duration
      in (start, finish) # paced_requests finish (limiter_done finish l) rs)"

lemma wait_until_exact:
  assumes "0 \<le> lm_min_interval l" "lm_min_interval l \<le> max_int64" "lm_has_run l" "lm_last_end l \<le> t"
  shows "wait_until t l = max t (lm_last_end l + lm_min_interval l)"
  using sequential_gap.wait_exact [OF assms(1,2,4)] assms(3) by (auto simp: wait_until_def limiter_wait_def)

lemma paced_from:
  assumes "0 \<le> lm_min_interval l" "lm_min_interval l \<le> max_int64" "\<forall>(i, d) \<in> set rs. 0 \<le> i \<and> 0 \<le> d"
    "lm_has_run l" "lm_last_end l = t"
  shows "successively (\<lambda>(s, e) (s', e'). e + lm_min_interval l \<le> s') ((s0, t) # paced_requests t l rs)"
  using assms
proof (induction rs arbitrary: t l s0)
  case (Cons r rs)
  obtain idle duration where r: "r = (idle, duration)" by fastforce
  define start where "start = wait_until (t + idle) l"
  let ?l = "limiter_done (start + duration) l"
  have "start = max (t + idle) (t + lm_min_interval l)"
    unfolding start_def using wait_until_exact [OF Cons.prems(1,2,4), of "t + idle"] Cons.prems(3,5) r by simp
  moreover have "successively (\<lambda>(s, e) (s', e'). e + lm_min_interval ?l \<le> s')
      ((start, start + duration) # paced_requests (start + duration) ?l rs)"
    using Cons.prems(1-3) by (intro Cons.IH) (auto simp: limiter_done_def)
  ultimately show ?case using r by (simp add: start_def Let_def limiter_done_def)
qed simp

section \<open>Properties\<close>

text \<open>C15: However the CAP poller's goroutines are interleaved and cancelled, at most the configured number of requests is in
  flight, no two of them go to the same host, and every request to a host starts at least the minimum interval
  after the recorded end of every earlier request to that host.\<close>

theorem host_limiter_polite:
  assumes "lsys_reaches (start_lsys (new_host_limiter gap maxParallel) m t) s" "0 \<le> gap" "gap \<le> max_int64"
  shows "int (length (filter in_flight (ls_pcs s))) \<le> max 1 maxParallel
    \<and> (\<forall>i j h. i < length (ls_pcs s) \<and> j < length (ls_pcs s) \<and> ls_pcs s ! i = InFlight h \<and> ls_pcs s ! j = InFlight h \<longrightarrow> i = j)
    \<and> spaced gap (ls_log s)"
proof -
  note inv = lsys_reaches_inv [OF assms]
  have "int (length (filter in_flight (ls_pcs s))) \<le> max 1 maxParallel"
    using inv by (auto simp: tokens_inv_def split: if_splits)
  moreover have "i = j" if "i < length (ls_pcs s)" "j < length (ls_pcs s)" "ls_pcs s ! i = InFlight h" "ls_pcs s ! j = InFlight h" for i j h
    using in_flight_distinct [of s i j h] inv that by simp
  moreover have "spaced gap (ls_log s)" using inv unfolding times_inv_def by blast
  ultimately show ?thesis by blast
qed

text \<open>Two goroutines call \<open>Wait\<close> for one host; the first gets it and the clock moves on.\<close>

definition demo_lsys :: lsys where
  "demo_lsys = start_lsys (new_host_limiter 5 1) 2 100"

lemma demo_lsys_reaches:
  "\<exists>s. lsys_reaches demo_lsys s \<and> ls_pcs s = [HasHost ''a'', AtHost ''a''] \<and> ls_clock s = 103"
proof -
  let ?hl = "\<lambda>n. \<lparr>hl_min_interval = 5, hl_max_parallel = 1, hl_global = 0,
      hl_hosts = [''a'' \<mapsto> fresh_host\<lparr>hs_sem := n\<rparr>]\<rparr>"
  let ?s = "\<lambda>n p q t. \<lparr>ls_limiter = ?hl n, ls_pcs = [p, q], ls_clock = t, ls_log = []\<rparr>"
  note ev = thread_step_def wait_step_def acquire_host_def get_host_state_def host_of_def set_host_def fresh_host_def
  have 1: "lsys_step demo_lsys (?s 0 (AtHost ''a'') Idle 100)"
    using lsys_step.thread [of 0 demo_lsys "Call ''a''"]
    by (simp add: demo_lsys_def start_lsys_def new_host_limiter_def ev numeral_2_eq_2)
  have 2: "lsys_step (?s 0 (AtHost ''a'') Idle 100) (?s 0 (AtHost ''a'') (AtHost ''a'') 100)"
    using lsys_step.thread [of 1 "?s 0 (AtHost ''a'') Idle 100" "Call ''a''"] by (simp add: ev)
  have 3: "lsys_step (?s 0 (AtHost ''a'') (AtHost ''a'') 100) (?s 1 (HasHost ''a'') (AtHost ''a'') 100)"
    using lsys_step.thread [of 0 "?s 0 (AtHost ''a'') (AtHost ''a'') 100" Proceed] by (simp add: ev Let_def)
  have 4: "lsys_step (?s 1 (HasHost ''a'') (AtHost ''a'') 100) (?s 1 (HasHost ''a'') (AtHost ''a'') 103)"
    using lsys_step.tick [of 3 "?s 1 (HasHost ''a'') (AtHost ''a'') 100"] by simp
  show ?thesis
    by (intro exI [of _ "?s 1 (HasHost ''a'') (AtHost ''a'') 103"] conjI)
      (rule lsys_reaches.step [OF lsys_reaches.step [OF lsys_reaches.step [OF lsys_reaches.step
        [OF lsys_reaches.start 1] 2] 3] 4], simp_all)
qed

theorem host_limiter_polite_witness:
  "\<exists>s :: lsys. ls_pcs s = [HasHost ''a'', AtHost ''a''] \<and> ls_clock s = 103 \<and> spaced 5 (ls_log s)"
proof -
  obtain s where s: "lsys_reaches demo_lsys s" "ls_pcs s = [HasHost ''a'', AtHost ''a'']" "ls_clock s = 103"
    using demo_lsys_reaches by blast
  have "spaced 5 (ls_log s)"
    using host_limiter_polite [of 5 1 2 100 s] s(1) by (simp add: demo_lsys_def max_int64_def)
  then show ?thesis using s by blast
qed

text \<open>The CAP poller's limiter never deadlocks: while any goroutine is inside \<open>Wait\<close> or its request, some goroutine can
  move on by itself, at once or after the clock has advanced.\<close>

theorem host_limiter_deadlock_free:
  assumes "lsys_reaches (start_lsys (new_host_limiter gap maxParallel) m t) s" "0 \<le> gap" "gap \<le> max_int64"
    "p \<in> set (ls_pcs s)" "p \<noteq> Idle"
  shows "\<exists>i < length (ls_pcs s). \<exists>d \<ge> 0. thread_step Proceed (ls_clock s + d) (ls_pcs s ! i) (ls_limiter s) \<noteq> None"
proof -
  have inv: "tokens_inv s" "0 < hl_max_parallel (ls_limiter s)" using lsys_reaches_inv [OF assms(1-3)] by auto
  have moves: "?thesis" if "i < length (ls_pcs s)" "0 \<le> d" "thread_step Proceed (ls_clock s + d) (ls_pcs s ! i) (ls_limiter s) \<noteq> None" for i d
    using that by blast
  consider (holder) q where "q \<in> set (ls_pcs s)" "\<exists>h. holds h q" "\<forall>h. q \<noteq> AtGlobal h"
    | (global) h where "AtGlobal h \<in> set (ls_pcs s)" "\<forall>q \<in> set (ls_pcs s). (\<exists>h. holds h q) \<longrightarrow> (\<exists>h. q = AtGlobal h)"
    | (waiting) "\<forall>q \<in> set (ls_pcs s). \<forall>h. \<not> holds h q"
    by fastforce
  then show ?thesis
  proof cases
    case holder
    then obtain i where i: "i < length (ls_pcs s)" "ls_pcs s ! i = q" by (metis in_set_conv_nth)
    let ?d = "case q of Sleeping _ wake \<Rightarrow> max 0 (wake - ls_clock s) | _ \<Rightarrow> 0"
    have "thread_step Proceed (ls_clock s + ?d) q (ls_limiter s) \<noteq> None" "0 \<le> ?d"
      using holder(2,3) by (cases q; simp add: op_defs)+
    then show ?thesis using i by (intro moves [of i ?d]) simp_all
  next
    case global
    then obtain i where i: "i < length (ls_pcs s)" "ls_pcs s ! i = AtGlobal h" by (metis in_set_conv_nth)
    have "filter in_flight (ls_pcs s) = []"
      using global(2) by (fastforce simp: filter_empty_conv elim: in_flight.elims)
    then have "hl_global (ls_limiter s) = 0" using inv(1) by (simp add: tokens_inv_def)
    then show ?thesis using i inv(2) by (intro moves [of i 0]) (simp_all add: op_defs)
  next
    case waiting
    obtain h where h: "p = AtHost h" using waiting assms(4,5) by (cases p) auto
    obtain i where i: "i < length (ls_pcs s)" "ls_pcs s ! i = AtHost h" using assms(4) h by (metis in_set_conv_nth)
    have "filter (holds h) (ls_pcs s) = []" using waiting by (simp add: filter_empty_conv)
    then have "hs_sem (host_of (ls_limiter s) h) = 0" using inv(1) by (simp add: tokens_inv_def)
    then show ?thesis using i by (intro moves [of i 0]) (simp_all add: op_defs)
  qed
qed

theorem host_limiter_deadlock_free_witness:
  "\<exists>s :: lsys. ls_pcs s = [HasHost ''a'', AtHost ''a''] \<and>
     (\<exists>i < 2. \<exists>d \<ge> 0. thread_step Proceed (103 + d) (ls_pcs s ! i) (ls_limiter s) \<noteq> None)"
proof -
  obtain s where s: "lsys_reaches demo_lsys s" "ls_pcs s = [HasHost ''a'', AtHost ''a'']" "ls_clock s = 103"
    using demo_lsys_reaches by blast
  have "\<exists>i < length (ls_pcs s). \<exists>d \<ge> 0. thread_step Proceed (ls_clock s + d) (ls_pcs s ! i) (ls_limiter s) \<noteq> None"
    by (rule host_limiter_deadlock_free [OF s(1) [unfolded demo_lsys_def], of "HasHost ''a''"])
      (simp_all add: s(2) max_int64_def)
  then have "\<exists>i < 2. \<exists>d \<ge> 0. thread_step Proceed (103 + d) (ls_pcs s ! i) (ls_limiter s) \<noteq> None"
    using s(2,3) by (simp add: numeral_2_eq_2)
  then show ?thesis using s(2) by blast
qed

text \<open>Requests made one after another through the GDACS limiter are each started at least the minimum interval after
  the previous one ended, whatever the idle times between them and their durations.\<close>

theorem limiter_spaces_requests:
  assumes "0 \<le> gap" "gap \<le> max_int64" "\<forall>(i, d) \<in> set rs. 0 \<le> i \<and> 0 \<le> d"
  shows "successively (\<lambda>(s, e) (s', e'). e + gap \<le> s') (paced_requests t (new_limiter gap) rs)"
proof (cases rs)
  case (Cons r rs')
  obtain idle duration where "r = (idle, duration)" by fastforce
  then show ?thesis
    using Cons paced_from [of "limiter_done (wait_until (t + idle) (new_limiter gap) + duration) (new_limiter gap)" rs'] assms
    by (simp add: Let_def limiter_done_def new_limiter_def)
qed simp

theorem limiter_spaces_requests_witness:
  "successively (\<lambda>(s, e) (s', e'). e + 10 \<le> s') (paced_requests 0 (new_limiter 10) [(0, 3), (4, 1), (100, 2)])"
  by (rule limiter_spaces_requests) (simp_all add: max_int64_def)

end
