(* ===== verification/Dedup.thy ===== *)
theory Dedup
  imports Poll "HOL-Library.Mapping"
begin

text \<open>
  The WIS2 adapter's duplicate filter (\<open>wis2_adapter/app/dedup/dedup.go\<close>): two tables of expiry times, one by
  notification id and one by data id, cleaned of expired entries only when they have grown.  Its abstract
  specification never forgets: a message is a duplicate of an accepted one whose time to live is not over.
\<close>

section \<open>The model\<close>

record cache =
  ca_notification_ttl :: int
  ca_data_id_ttl :: int
  ca_notifications :: "(string, int) mapping"
  ca_data_ids :: "(string, int) mapping"

definition new_with_ttl :: "int \<Rightarrow> int \<Rightarrow> cache" where
  "new_with_ttl notificationTTL dataIDTTL =
     \<lparr>ca_notification_ttl = notificationTTL, ca_data_id_ttl = dataIDTTL,
      ca_notifications = Mapping.empty, ca_data_ids = Mapping.empty\<rparr>"

definition new_cache :: cache where
  "new_cache = new_with_ttl (3600 * second) (24 * 3600 * second)"

definition cleanup_table :: "int \<Rightarrow> (string, int) mapping \<Rightarrow> (string, int) mapping" where
  "cleanup_table t m = (if 500 < Mapping.size m then Mapping.filter (\<lambda>_ exp. t < exp) m else m)"

definition cleanup :: "int \<Rightarrow> cache \<Rightarrow> cache" where
  "cleanup t c =
     c\<lparr>ca_notifications := cleanup_table t (ca_notifications c), ca_data_ids := cleanup_table t (ca_data_ids c)\<rparr>"

definition live :: "int \<Rightarrow> (string, int) mapping \<Rightarrow> string \<Rightarrow> bool" where
  "live t m k = (case Mapping.lookup m k of Some exp \<Rightarrow> t < exp | None \<Rightarrow> False)"

definition check_or_add :: "int \<Rightarrow> string \<Rightarrow> string \<Rightarrow> cache \<Rightarrow> bool \<times> cache" where
  "check_or_add t notificationID dataID c =
     (let c = cleanup t c;
          isDuplicate = (notificationID \<noteq> '''' \<and> live t (ca_notifications c) notificationID)
            \<or> (dataID \<noteq> '''' \<and> live t (ca_data_ids c) dataID)
      in if isDuplicate then (True, c)
         else
           (let c = (if notificationID \<noteq> '''' then
                       c\<lparr>ca_notifications := Mapping.update notificationID (t + ca_notification_ttl c) (ca_notifications c)\<rparr>
                     else c);
                c = (if dataID \<noteq> '''' then
                       c\<lparr>ca_data_ids := Mapping.update dataID (t + ca_data_id_ttl c) (ca_data_ids c)\<rparr>
                     else c)
            in (False, c)))"

text \<open>The answers to a sequence of calls, each with the time at which it is made.\<close>

fun dedup_answers :: "cache \<Rightarrow> (int \<times> string \<times> string) list \<Rightarrow> bool list" where
  "dedup_answers c [] = []"
| "dedup_answers c ((t, n, d) # calls) =
     (let (dup, c') = check_or_add t n d c in dup # dedup_answers c' calls)"

section \<open>The abstract specification\<close>

text \<open>An id was accepted at some time and its time to live is not over.\<close>

definition seen :: "int \<Rightarrow> int \<Rightarrow> (int \<times> string) list \<Rightarrow> string \<Rightarrow> bool" where
  "seen ttl t accepted k \<longleftrightarrow> k \<noteq> '''' \<and> list_ex (\<lambda>(t', k'). k' = k \<and> t < t' + ttl) accepted"

fun spec_answers :: "int \<Rightarrow> int \<Rightarrow> (int \<times> string) list \<Rightarrow> (int \<times> string) list \<Rightarrow> (int \<times> string \<times> string) list \<Rightarrow> bool list" where
  "spec_answers nttl dttl ns ds [] = []"
| "spec_answers nttl dttl ns ds ((t, n, d) # calls) =
     (if seen nttl t ns n \<or> seen dttl t ds d then True # spec_answers nttl dttl ns ds calls
      else False # spec_answers nttl dttl ((t, n) # ns) ((t, d) # ds) calls)"

text \<open>The table answers for every later time as the list of all accepted ids does.\<close>

definition tracks :: "int \<Rightarrow> int \<Rightarrow> (string, int) mapping \<Rightarrow> (int \<times> string) list \<Rightarrow> bool" where
  "tracks ttl t m accepted \<longleftrightarrow> (\<forall>k t'. k \<noteq> '''' \<longrightarrow> t \<le> t' \<longrightarrow> live t' m k = seen ttl t' accepted k)"

lemma tracks_empty: "tracks ttl t Mapping.empty []"
  by (simp add: tracks_def live_def seen_def)

lemma tracks_later: "tracks ttl t m acc \<Longrightarrow> t \<le> t' \<Longrightarrow> tracks ttl t' m acc"
  by (auto simp: tracks_def)

lemma live_cleanup: "t \<le> t' \<Longrightarrow> live t' (cleanup_table t m) k = live t' m k"
  by (auto simp: cleanup_table_def live_def lookup_filter split: option.split)

lemma tracks_cleanup: "tracks ttl t m acc \<Longrightarrow> tracks ttl t (cleanup_table t m) acc"
  by (auto simp: tracks_def live_cleanup)

lemma tracks_update:
  assumes "tracks ttl t m acc" "\<not> seen ttl t acc k" "k \<noteq> ''''"
  shows "tracks ttl t (Mapping.update k (t + ttl) m) ((t, k) # acc)"
  unfolding tracks_def
proof (intro allI impI)
  fix k' :: string and t' :: int
  assume k': "k' \<noteq> ''''" "t \<le> t'"
  have "live t' m k' = seen ttl t' acc k'" using assms(1) k' by (simp add: tracks_def)
  moreover have "\<not> seen ttl t' acc k" using assms(2,3) k'(2) by (fastforce simp: seen_def list_ex_iff)
  ultimately show "live t' (Mapping.update k (t + ttl) m) k' = seen ttl t' ((t, k) # acc) k'"
    using k' assms(3) by (cases "k' = k") (auto simp: live_def seen_def lookup_update lookup_update_neq)
qed

lemma tracks_anonymous: "tracks ttl t m acc \<Longrightarrow> tracks ttl t m ((t, '''') # acc)"
  by (auto simp: tracks_def seen_def)

lemma tracks_accept:
  assumes "tracks ttl t m acc" "\<not> seen ttl t acc k"
  shows "tracks ttl t (if k \<noteq> '''' then Mapping.update k (t + ttl) m else m) ((t, k) # acc)"
  using tracks_update [OF assms] tracks_anonymous [OF assms(1)] by auto

section \<open>Properties\<close>

lemma dedup_refines_from:
  assumes "tracks (ca_notification_ttl c) t0 (ca_notifications c) ns" "tracks (ca_data_id_ttl c) t0 (ca_data_ids c) ds"
    "sorted (map fst calls)" "\<forall>call \<in> set calls. t0 \<le> fst call"
  shows "dedup_answers c calls = spec_answers (ca_notification_ttl c) (ca_data_id_ttl c) ns ds calls"
  using assms
proof (induction calls arbitrary: c t0 ns ds)
  case (Cons call calls)
  obtain t n d where call: "call = (t, n, d)" by (metis prod.collapse)
  let ?N = "cleanup_table t (ca_notifications c)" and ?D = "cleanup_table t (ca_data_ids c)"
  have N: "tracks (ca_notification_ttl c) t ?N ns" and D: "tracks (ca_data_id_ttl c) t ?D ds"
    using Cons.prems call by (auto intro!: tracks_cleanup elim!: tracks_later)
  have dup: "(n \<noteq> '''' \<and> live t ?N n) = seen (ca_notification_ttl c) t ns n" "(d \<noteq> '''' \<and> live t ?D d) = seen (ca_data_id_ttl c) t ds d"
    using N D by (auto simp: tracks_def seen_def)
  have rest: "sorted (map fst calls)" "\<forall>call \<in> set calls. t \<le> fst call" using Cons.prems(3) call by auto
  show ?case
  proof (cases "seen (ca_notification_ttl c) t ns n \<or> seen (ca_data_id_ttl c) t ds d")
    case True
    then show ?thesis
      using Cons.IH [of "cleanup t c" t ns ds] N D rest dup call by (simp add: check_or_add_def cleanup_def Let_def)
  next
    case False
    let ?c = "c\<lparr>ca_notifications := if n \<noteq> '''' then Mapping.update n (t + ca_notification_ttl c) ?N else ?N,
      ca_data_ids := if d \<noteq> '''' then Mapping.update d (t + ca_data_id_ttl c) ?D else ?D\<rparr>"
    have "check_or_add t n d c = (False, ?c)"
      using False dup by (simp add: check_or_add_def cleanup_def Let_def)
    moreover have "dedup_answers ?c calls
        = spec_answers (ca_notification_ttl ?c) (ca_data_id_ttl ?c) ((t, n) # ns) ((t, d) # ds) calls"
      using tracks_accept [OF N, of n] tracks_accept [OF D, of d] False rest by (intro Cons.IH) auto
    ultimately show ?thesis using False call by simp
  qed
qed simp

text \<open>C13: The filter refines the specification that never forgets: while the clock does not go back, every answer is
  exactly whether a message with the same notification id or the same data id was accepted less than that
  id's time to live before.  Cleaning the tables changes no answer.\<close>

theorem dedup_refines_unbounded_memory:
  assumes "sorted (map fst calls)"
  shows "dedup_answers (new_with_ttl nttl dttl) calls = spec_answers nttl dttl [] [] calls"
proof (cases calls)
  case (Cons call cs)
  then show ?thesis
    using dedup_refines_from [of "new_with_ttl nttl dttl" "fst call" "[]" "[]" calls] assms
    by (auto simp: new_with_ttl_def tracks_empty)
qed simp

theorem dedup_refines_unbounded_memory_witness:
  "dedup_answers (new_with_ttl 10 100) [(0, ''n'', ''d''), (5, ''n'', ''''), (20, ''n'', ''d''), (20, ''n'', ''e''), (25, ''m'', ''e'')]
   = [False, True, True, False, True]"
  using dedup_refines_unbounded_memory [of "[(0, ''n'', ''d''), (5, ''n'', ''''), (20, ''n'', ''d''), (20, ''n'', ''e''), (25, ''m'', ''e'')]" 10 100]
  by (simp add: seen_def)

end
