(* ===== verification/Go_Encodings.thy ===== *)
theory Go_Encodings
  imports Prelude
begin

text \<open>
  The encodings of Go's standard library that the adapters use: \<open>encoding/base64\<close> in its standard alphabet with padding
  and \<open>encoding/hex\<close>.  Strings are byte strings.
\<close>

section \<open>Base64\<close>

definition b64_char :: "nat \<Rightarrow> char" where
  "b64_char n = char_of (if n < 26 then 65 + n else if n < 52 then 71 + n else if n < 62 then n - 4 else if n = 62 then 43 else 47)"

definition b64_val :: "char \<Rightarrow> nat option" where
  "b64_val c = (let n = of_char c :: nat in
     if 65 \<le> n \<and> n \<le> 90 then Some (n - 65)
     else if 97 \<le> n \<and> n \<le> 122 then Some (n - 71)
     else if 48 \<le> n \<and> n \<le> 57 then Some (n + 4)
     else if n = 43 then Some 62
     else if n = 47 then Some 63
     else None)"

fun b64_encode :: "string \<Rightarrow> string" where
  "b64_encode (a # b # c # s) =
     (let x = of_char a :: nat; y = of_char b; z = of_char c in
      b64_char (x div 4) # b64_char (x mod 4 * 16 + y div 16) # b64_char (y mod 16 * 4 + z div 64) # b64_char (z mod 64)
        # b64_encode s)"
| "b64_encode [a, b] =
     (let x = of_char a :: nat; y = of_char b in
      [b64_char (x div 4), b64_char (x mod 4 * 16 + y div 16), b64_char (y mod 16 * 4), CHR ''=''])"
| "b64_encode [a] =
     (let x = of_char a :: nat in [b64_char (x div 4), b64_char (x mod 4 * 16), CHR ''='', CHR ''=''])"
| "b64_encode [] = []"

text \<open>Line breaks are skipped; bits left over before the padding are ignored, not checked.\<close>

fun b64_quads :: "string \<Rightarrow> string option" where
  "b64_quads [] = Some []"
| "b64_quads (a # b # c # d # s) =
     (case (b64_val a, b64_val b) of
        (Some w, Some x) \<Rightarrow>
          (case b64_val c of
             None \<Rightarrow> if c = CHR ''='' \<and> d = CHR ''='' \<and> s = [] then Some [char_of (w * 4 + x div 16)] else None
           | Some y \<Rightarrow>
               (case b64_val d of
                  None \<Rightarrow>
                    if d = CHR ''='' \<and> s = [] then Some [char_of (w * 4 + x div 16), char_of (x mod 16 * 16 + y div 4)] else None
                | Some z \<Rightarrow>
                    map_option (\<lambda>t. char_of (w * 4 + x div 16) # char_of (x mod 16 * 16 + y div 4) # char_of (y mod 4 * 64 + z) # t)
                      (b64_quads s)))
      | _ \<Rightarrow> None)"
| "b64_quads _ = None"

definition b64_decode :: "string \<Rightarrow> string option" where
  "b64_decode s = b64_quads (filter (\<lambda>c. c \<noteq> CHR 0x0A \<and> c \<noteq> CHR 0x0D) s)"

lemma of_char_b64: "n < 64 \<Longrightarrow> of_char (b64_char n) = (if n < 26 then 65 + n else if n < 52 then 71 + n else if n < 62 then n - 4 else if n = 62 then 43 else (47 :: nat))"
  by (auto simp: b64_char_def)

lemma b64_val_char: "n < 64 \<Longrightarrow> b64_val (b64_char n) = Some n"
  by (auto simp: b64_val_def Let_def of_char_b64)

lemma b64_char_plain: "n < 64 \<Longrightarrow> b64_char n \<noteq> CHR 0x0A \<and> b64_char n \<noteq> CHR 0x0D"
  using of_char_b64 [of n] by (auto split: if_split_asm)

lemma b64_val_pad: "b64_val (CHR ''='') = None"
  by code_simp

lemma byte_bound: "(of_char c :: nat) < 256"
  using of_char_mod_256 [of c, where 'a = nat] by (metis mod_less_divisor zero_less_numeral)

lemma b64_bytes:
  fixes x y z :: nat
  assumes "x < 256" "y < 256" "z < 256"
  shows "x div 4 < 64" "x mod 4 * 16 + y div 16 < 64" "y mod 16 * 4 + z div 64 < 64" "z mod 64 < 64"
    "x div 4 * 4 + (x mod 4 * 16 + y div 16) div 16 = x"
    "(x mod 4 * 16 + y div 16) mod 16 * 16 + (y mod 16 * 4 + z div 64) div 4 = y"
    "(y mod 16 * 4 + z div 64) mod 4 * 64 + z mod 64 = z"
proof -
  have d: "y div 16 < 16" "z div 64 < 4" using assms by (simp_all add: less_mult_imp_div_less)
  show "x div 4 < 64" "z mod 64 < 64" using assms by (simp_all add: less_mult_imp_div_less)
  have "x mod 4 < 4" "y mod 16 < 16" by simp_all
  then show "x mod 4 * 16 + y div 16 < 64" "y mod 16 * 4 + z div 64 < 64" using d by linarith+
  show "x div 4 * 4 + (x mod 4 * 16 + y div 16) div 16 = x" using d by simp
  show "(x mod 4 * 16 + y div 16) mod 16 * 16 + (y mod 16 * 4 + z div 64) div 4 = y" using d by simp
  show "(y mod 16 * 4 + z div 64) mod 4 * 64 + z mod 64 = z" using d by simp
qed

lemma b64_quads_encode: "b64_quads (b64_encode s) = Some s"
proof (induction s rule: b64_encode.induct)
  case (1 a b c s)
  note p = b64_bytes [OF byte_bound [of a] byte_bound [of b] byte_bound [of c]]
  show ?case using 1 p by (simp add: Let_def b64_val_char)
next
  case (2 a b)
  note p = b64_bytes [OF byte_bound [of a] byte_bound [of b], of 0]
  show ?case using p by (simp add: Let_def b64_val_char b64_val_pad)
next
  case (3 a)
  note p = b64_bytes [OF byte_bound [of a], of 0 0]
  show ?case using p by (simp add: Let_def b64_val_char b64_val_pad)
qed simp

lemma b64_encode_plain: "filter (\<lambda>c. c \<noteq> CHR 0x0A \<and> c \<noteq> CHR 0x0D) (b64_encode s) = b64_encode s"
proof (induction s rule: b64_encode.induct)
  case (1 a b c s)
  note p = b64_bytes [OF byte_bound [of a] byte_bound [of b] byte_bound [of c]]
  show ?case using 1 p by (simp add: Let_def b64_char_plain)
next
  case (2 a b)
  note p = b64_bytes [OF byte_bound [of a] byte_bound [of b], of 0]
  show ?case using p by (simp add: Let_def b64_char_plain)
next
  case (3 a)
  note p = b64_bytes [OF byte_bound [of a], of 0 0]
  show ?case using p by (simp add: Let_def b64_char_plain)
qed simp

lemma b64_roundtrip: "b64_decode (b64_encode s) = Some s"
  by (simp add: b64_decode_def b64_encode_plain b64_quads_encode)

lemma b64_encode_inj: "b64_encode s = b64_encode t \<Longrightarrow> s = t"
  by (metis b64_roundtrip option.inject)

lemma b64_length: "length (b64_encode s) = 4 * ((length s + 2) div 3)"
proof (induction s rule: b64_encode.induct)
  case (1 a b c s)
  have "(length s + 2 + 3) div 3 = Suc ((length s + 2) div 3)" by simp
  then show ?case using 1 by (simp add: Let_def add.commute)
qed (simp_all add: Let_def)

lemma b64_char_ascii: "(of_char (b64_char n) :: nat) < 128"
  by (auto simp: b64_char_def)

lemma b64_ascii: "c \<in> set (b64_encode s) \<Longrightarrow> (of_char c :: nat) < 128"
  by (induction s rule: b64_encode.induct) (auto simp: Let_def b64_char_ascii)

section \<open>Hexadecimal\<close>

definition hex_char :: "nat \<Rightarrow> char" where
  "hex_char n = char_of (if n < 10 then 48 + n else 87 + n)"

fun hex_encode :: "string \<Rightarrow> string" where
  "hex_encode [] = []"
| "hex_encode (c # s) = (let n = of_char c :: nat in hex_char (n div 16) # hex_char (n mod 16) # hex_encode s)"

lemma of_char_hex: "n < 16 \<Longrightarrow> of_char (hex_char n) = (if n < 10 then 48 + n else 87 + n)"
  by (simp add: hex_char_def)

lemma hex_char_inj:
  assumes "m < 16" "n < 16"
  shows "hex_char m = hex_char n \<longleftrightarrow> m = n"
proof
  assume "hex_char m = hex_char n"
  then have "(if m < 10 then 48 + m else 87 + m) = (if n < 10 then 48 + n else 87 + n)"
    using of_char_hex [OF assms(1)] of_char_hex [OF assms(2)] by (simp only:)
  then show "m = n" by (simp split: if_split_asm)
qed simp

lemma hex_encode_inj: "hex_encode s = hex_encode t \<longleftrightarrow> s = t"
proof (induction s arbitrary: t)
  case Nil
  then show ?case by (cases t) (simp_all add: Let_def)
next
  case (Cons c s)
  show ?case
  proof (cases t)
    case (Cons d t')
    have nib: "(of_char x :: nat) div 16 < 16" for x using byte_bound [of x] by (simp add: less_mult_imp_div_less)
    have "c = d" if "(of_char c :: nat) div 16 = of_char d div 16" "(of_char c :: nat) mod 16 = of_char d mod 16"
    proof -
      have "(of_char c :: nat) = of_char d" using that by (metis mult_div_mod_eq)
      then show "c = d" by (simp add: of_char_eq_iff)
    qed
    then show ?thesis using Cons Cons.IH [of t'] hex_char_inj [OF nib nib, of c d] hex_char_inj [of "of_char c mod 16" "of_char d mod 16"]
      by (auto simp: Let_def)
  qed (simp add: Let_def)
qed

lemma hex_length: "length (hex_encode s) = 2 * length s"
  by (induction s) (simp_all add: Let_def)

end
