(* ===== verification/Go_Time.thy ===== *)
theory Go_Time
  imports Prelude Go_Strings
begin

text \<open>
  What the adapters use of Go's \<open>time\<close>: an instant is a number of seconds since the Unix epoch, in UTC;
  \<open>time.Date\<close> normalises fields that are out of range; the RFC 3339 layout prints an instant.  The
  calendar is the proleptic Gregorian one.
\<close>

section \<open>The calendar\<close>

definition is_leap :: "int \<Rightarrow> bool" where
  "is_leap y \<longleftrightarrow> y mod 4 = 0 \<and> (y mod 100 \<noteq> 0 \<or> y mod 400 = 0)"

definition month_lengths :: "int \<Rightarrow> int list" where
  "month_lengths y = [31, if is_leap y then 29 else 28, 31, 30, 31, 30, 31, 31, 30, 31, 30, 31]"

definition days_in_month :: "int \<Rightarrow> int \<Rightarrow> int" where
  "days_in_month y m = month_lengths y ! nat (m - 1)"

text \<open>Days from 1 January of year 1 to 1 January of a year.\<close>

definition days_before_year :: "int \<Rightarrow> int" where
  "days_before_year y = 365 * (y - 1) + (y - 1) div 4 - (y - 1) div 100 + (y - 1) div 400"

definition days_before_month :: "int \<Rightarrow> int \<Rightarrow> int" where
  "days_before_month y m = sum_list (take (nat (m - 1)) (month_lengths y))"

text \<open>Days since the Unix epoch of a day of a month.\<close>

definition days_of_civil :: "int \<Rightarrow> int \<Rightarrow> int \<Rightarrow> int" where
  "days_of_civil y m d = days_before_year y + days_before_month y m + (d - 1) - 719162"

text \<open>The year and the day of the year, both counted from 0, of a day counted from 1 January of year 1.\<close>

definition split_year :: "int \<Rightarrow> int \<times> int" where
  "split_year n =
     (let n400 = n div 146097; r400 = n mod 146097;
          n100 = min 3 (r400 div 36524); r100 = r400 - n100 * 36524;
          n4 = r100 div 1461; r4 = r100 mod 1461;
          n1 = min 3 (r4 div 365)
      in (400 * n400 + 100 * n100 + 4 * n4 + n1, r4 - n1 * 365))"

fun split_month :: "int \<Rightarrow> int list \<Rightarrow> int \<Rightarrow> int \<times> int" where
  "split_month m [] n = (m, n + 1)"
| "split_month m (l # ls) n = (if n < l then (m, n + 1) else split_month (m + 1) ls (n - l))"

definition civil_of_days :: "int \<Rightarrow> int \<times> int \<times> int" where
  "civil_of_days n =
     (let (y, yday) = split_year (n + 719162); (m, d) = split_month 1 (month_lengths (y + 1)) yday in (y + 1, m, d))"

section \<open>Instants\<close>

text \<open>\<open>time.Date(year, month, day, hour, min, sec, 0, time.UTC)\<close>: a month out of range carries into the year, the other fields into the instant.\<close>

definition go_date :: "int \<Rightarrow> int \<Rightarrow> int \<Rightarrow> int \<Rightarrow> int \<Rightarrow> int \<Rightarrow> int" where
  "go_date year month day hour minute sec =
     (let y = year + (month - 1) div 12; m = (month - 1) mod 12 + 1
      in 86400 * (days_of_civil y m 1 + (day - 1)) + 3600 * hour + 60 * minute + sec)"

text \<open>\<open>time.appendInt\<close> pads the digits, without counting the sign.\<close>

definition append_int :: "int \<Rightarrow> nat \<Rightarrow> string" where
  "append_int i w =
     (let ds = show_nat (nat \<bar>i\<bar>) in (if i < 0 then ''-'' else []) @ replicate (w - length ds) CHR ''0'' @ ds)"

definition format_rfc3339 :: "int \<Rightarrow> string" where
  "format_rfc3339 t =
     (let (y, m, d) = civil_of_days (t div 86400); s = t mod 86400
      in append_int y 4 @ ''-'' @ append_int m 2 @ ''-'' @ append_int d 2 @ ''T'' @ append_int (s div 3600) 2 @ '':'' @ append_int (s div 60 mod 60) 2 @ '':''
           @ append_int (s mod 60) 2 @ ''Z'')"

section \<open>The calendar is a bijection\<close>

lemma split_month_take:
  assumes "i < length ls" "0 \<le> d" "d < ls ! i" "\<forall>l \<in> set ls. 0 \<le> l"
  shows "split_month m ls (sum_list (take i ls) + d) = (m + int i, d + 1)"
  using assms
proof (induction ls arbitrary: i m)
  case (Cons l ls)
  show ?case
  proof (cases i)
    case (Suc j)
    have "0 \<le> sum_list (take j ls)" using Cons.prems(4) by (intro sum_list_nonneg) (auto dest: in_set_takeD)
    then show ?thesis using Cons.IH [of j "m + 1"] Cons.prems Suc by (simp add: add.assoc)
  qed (use Cons.prems in simp)
qed simp

lemma succ_mod_eq_0:
  fixes n y :: int
  assumes "0 < n"
  shows "(y + 1) mod n = 0 \<longleftrightarrow> y mod n = n - 1"
proof -
  have r: "0 \<le> y mod n" "y mod n < n" using assms by simp_all
  have "(y + 1) mod n = (y mod n + 1) mod n" by (simp add: mod_add_left_eq)
  then show ?thesis using r by (cases "y mod n = n - 1") simp_all
qed

lemma split_year_inverse:
  assumes "0 \<le> yday" "yday < (if is_leap (y + 1) then 366 else 365)"
  shows "split_year (days_before_year (y + 1) + yday) = (y, yday)"
proof -
  define a b c e where "a = y div 400" and "b = y mod 400 div 100" and "c = y mod 400 mod 100 div 4" and "e = y mod 400 mod 100 mod 4"
  have q: "y mod 400 mod 100 = 4 * c + e"
    unfolding c_def e_def by (simp only: mult_div_mod_eq)
  have y400: "y mod 400 = 100 * b + (4 * c + e)"
    using mult_div_mod_eq [of 100 "y mod 400"] unfolding q b_def by linarith
  have y100: "y mod 100 = 4 * c + e" using q mod_mod_cancel [of 100 400 y] by simp
  have y: "y = 400 * a + (100 * b + (4 * c + e))" "0 \<le> b" "b < 4" "0 \<le> c" "c < 25" "0 \<le> e" "e < 4"
  proof -
    show "y = 400 * a + (100 * b + (4 * c + e))" using mult_div_mod_eq [of 400 y] unfolding y400 a_def by linarith
  qed (simp_all add: b_def c_def e_def)
  have y4: "y mod 4 = e" by (rule int_mod_pos_eq [of _ _ "100 * a + 25 * b + c"]) (use y(1-7) in \<open>simp_all\<close>)
  have d4: "y div 4 = 100 * a + 25 * b + c" by (rule int_div_pos_eq [of _ _ _ e]) (use y(1-7) in \<open>simp_all\<close>)
  have d100: "y div 100 = 4 * a + b" by (rule int_div_pos_eq [of _ _ _ "4 * c + e"]) (use y(1-7) in \<open>simp_all\<close>)
  have d400: "y div 400 = a" by (rule int_div_pos_eq [of _ _ _ "100 * b + (4 * c + e)"]) (use y(1-7) in \<open>simp_all\<close>)
  have m4: "(y + 1) mod 4 = 0 \<longleftrightarrow> e = 3"
    using succ_mod_eq_0 [of 4 y] y4 by simp
  have m100: "(y + 1) mod 100 = 0 \<longleftrightarrow> 4 * c + e = 99"
    using succ_mod_eq_0 [of 100 y] y100 by simp
  have m400: "(y + 1) mod 400 = 0 \<longleftrightarrow> 100 * b + (4 * c + e) = 399"
    using succ_mod_eq_0 [of 400 y] y400 by simp
  have leap: "is_leap (y + 1) \<longleftrightarrow> e = 3 \<and> (c = 24 \<longrightarrow> b = 3)"
  proof -
    have le: "c \<le> 24" "e \<le> 3" "b \<le> 3" using y(3,5,7) by simp_all
    have "4 * c + e = 99 \<longleftrightarrow> c = 24 \<and> e = 3"
    proof
      assume "4 * c + e = 99"
      then have "24 \<le> c" "3 \<le> e" using le by linarith+
      then show "c = 24 \<and> e = 3" using le by simp
    qed simp
    moreover have "100 * b + (4 * c + e) = 399 \<longleftrightarrow> b = 3 \<and> c = 24 \<and> e = 3"
    proof
      assume "100 * b + (4 * c + e) = 399"
      then have "3 \<le> b" "24 \<le> c" "3 \<le> e" using le by linarith+
      then show "b = 3 \<and> c = 24 \<and> e = 3" using le by simp
    qed simp
    ultimately show ?thesis unfolding is_leap_def m4 m100 m400 by auto
  qed
  define n where "n = days_before_year (y + 1) + yday"
  have n: "n = 146097 * a + (36524 * b + (1461 * c + (365 * e + yday)))"
  proof -
    have "days_before_year (y + 1) = 365 * y + (100 * a + 25 * b + c) - (4 * a + b) + a"
      by (simp add: days_before_year_def d4 d100 d400)
    then show ?thesis using y(1) unfolding n_def by linarith
  qed
  have r4: "365 * e + yday < 1461" "c = 24 \<Longrightarrow> b \<noteq> 3 \<Longrightarrow> 365 * e + yday < 1460"
    using assms(2) leap y by (auto split: if_splits)
  have r100: "0 \<le> 1461 * c + (365 * e + yday)" "1461 * c + (365 * e + yday) < (if b = 3 then 36525 else 36524)"
    using r4 y(2-7) assms(1) by (cases "c = 24"; simp)+
  have r400: "0 \<le> 36524 * b + (1461 * c + (365 * e + yday))" "36524 * b + (1461 * c + (365 * e + yday)) < 146097"
    using r100 y(2,3) by (auto split: if_splits)
  have b: "min 3 ((36524 * b + (1461 * c + (365 * e + yday))) div 36524) = b"
    using r100 y(2,3) by (cases "1461 * c + (365 * e + yday) = 36524") (auto split: if_splits)
  have c: "(1461 * c + (365 * e + yday)) div 1461 = c" "(1461 * c + (365 * e + yday)) mod 1461 = 365 * e + yday"
    using r4(1) y(6) assms(1) by simp_all
  have e: "min 3 ((365 * e + yday) div 365) = e"
  proof (cases "yday = 365")
    case True
    then have "e = 3" using assms(2) leap by (auto split: if_splits)
    then show ?thesis using True by simp
  next
    case False
    then have "yday < 365" using assms(2) by (auto split: if_splits)
    then have "(365 * e + yday) div 365 = e" using assms(1) by simp
    then show ?thesis using y(7) by simp
  qed
  have minus: "36524 * b + (1461 * c + (365 * e + yday)) - b * 36524 = 1461 * c + (365 * e + yday)" by simp
  have "split_year n = (400 * a + 100 * b + 4 * c + e, 365 * e + yday - e * 365)"
    unfolding split_year_def Let_def int_div_pos_eq [OF n r400] int_mod_pos_eq [OF n r400] b minus c e ..
  also have "\<dots> = (y, yday)" using y(1) by simp
  finally show ?thesis unfolding n_def .
qed

lemma is_leap_lengths: "sum_list (month_lengths y) = (if is_leap y then 366 else 365)"
  by (simp add: month_lengths_def)

lemma length_month_lengths [simp]: "length (month_lengths y) = 12"
  by (simp add: month_lengths_def)

lemma month_lengths_nonneg: "\<forall>l \<in> set (month_lengths y). 0 \<le> l"
  by (simp add: month_lengths_def)

lemma day_of_year_bounds:
  assumes "1 \<le> m" "m \<le> 12" "1 \<le> d" "d \<le> days_in_month y m"
  shows "0 \<le> days_before_month y m + (d - 1)" "days_before_month y m + (d - 1) < (if is_leap y then 366 else 365)"
proof -
  let ?i = "nat (m - 1)"
  have i: "?i < length (month_lengths y)" using assms by simp
  have take: "0 \<le> sum_list (take ?i (month_lengths y))" and drop: "0 \<le> sum_list (drop (Suc ?i) (month_lengths y))"
    using month_lengths_nonneg by (auto intro!: sum_list_nonneg dest: in_set_takeD in_set_dropD)
  have "sum_list (month_lengths y) = sum_list (take ?i (month_lengths y)) + (month_lengths y ! ?i + sum_list (drop (Suc ?i) (month_lengths y)))"
    by (metis id_take_nth_drop [OF i] sum_list_append sum_list.Cons)
  then show "0 \<le> days_before_month y m + (d - 1)" "days_before_month y m + (d - 1) < (if is_leap y then 366 else 365)"
    using take drop assms(3,4) is_leap_lengths [of y] by (simp_all add: days_before_month_def days_in_month_def)
qed

lemma civil_of_days_of_civil:
  assumes "1 \<le> m" "m \<le> 12" "1 \<le> d" "d \<le> days_in_month y m"
  shows "civil_of_days (days_of_civil y m d) = (y, m, d)"
proof -
  have "split_year (days_before_year (y - 1 + 1) + (days_before_month y m + (d - 1))) = (y - 1, days_before_month y m + (d - 1))"
    using day_of_year_bounds [OF assms] by (intro split_year_inverse) simp_all
  moreover have "split_month 1 (month_lengths y) (days_before_month y m + (d - 1)) = (m, d)"
    using split_month_take [of "nat (m - 1)" "month_lengths y" "d - 1" 1] assms month_lengths_nonneg
    by (simp add: days_before_month_def days_in_month_def)
  moreover have "days_of_civil y m d + 719162 = days_before_year (y - 1 + 1) + (days_before_month y m + (d - 1))"
    by (simp add: days_of_civil_def)
  ultimately show ?thesis by (simp only: civil_of_days_def) simp
qed

text \<open>Fields in their ranges are printed as they are.\<close>

definition valid_fields :: "int \<Rightarrow> int \<Rightarrow> int \<Rightarrow> int \<Rightarrow> int \<Rightarrow> int \<Rightarrow> bool" where
  "valid_fields y m d h mi s \<longleftrightarrow> 1 \<le> m \<and> m \<le> 12 \<and> 1 \<le> d \<and> d \<le> days_in_month y m
     \<and> 0 \<le> h \<and> h \<le> 23 \<and> 0 \<le> mi \<and> mi \<le> 59 \<and> 0 \<le> s \<and> s \<le> 59"

lemma days_of_civil_day: "days_of_civil y m 1 + (d - 1) = days_of_civil y m d"
  by (simp add: days_of_civil_def)

lemma format_go_date:
  assumes "valid_fields y m d h mi s"
  shows "format_rfc3339 (go_date y m d h mi s)
    = append_int y 4 @ ''-'' @ append_int m 2 @ ''-'' @ append_int d 2 @ ''T''
      @ append_int h 2 @ '':'' @ append_int mi 2 @ '':'' @ append_int s 2 @ ''Z''"
proof -
  have v: "1 \<le> m" "m \<le> 12" "1 \<le> d" "d \<le> days_in_month y m" "0 \<le> h" "h \<le> 23" "0 \<le> mi" "mi \<le> 59" "0 \<le> s" "s \<le> 59"
    using assms by (simp_all add: valid_fields_def)
  have "(m - 1) div 12 = 0" "(m - 1) mod 12 = m - 1" using v(1,2) by simp_all
  then have t: "go_date y m d h mi s = 86400 * days_of_civil y m d + (3600 * h + (60 * mi + s))"
    by (simp add: go_date_def days_of_civil_day)
  have r: "0 \<le> 3600 * h + (60 * mi + s)" "3600 * h + (60 * mi + s) < 86400" using v by simp_all
  have "(3600 * h + (60 * mi + s)) div 3600 = h" by (rule int_div_pos_eq [of _ _ _ "60 * mi + s"]) (use v in simp_all)
  moreover have "(3600 * h + (60 * mi + s)) div 60 = 60 * h + mi" by (rule int_div_pos_eq [of _ _ _ s]) (use v in simp_all)
  moreover have "(60 * h + mi) mod 60 = mi" using v by simp
  moreover have "(3600 * h + (60 * mi + s)) mod 60 = s" by (rule int_mod_pos_eq [of _ _ "60 * h + mi"]) (use v in simp_all)
  ultimately show ?thesis
    unfolding format_rfc3339_def int_div_pos_eq [OF t r] int_mod_pos_eq [OF t r]
      civil_of_days_of_civil [OF v(1-4)] Let_def prod.case by simp
qed

end
