(* ===== verification/Wnm.thy ===== *)
theory Wnm
  imports JmaUrl Go_Encodings Go_Time
begin

text \<open>
  WIS2 notification messages (\<open>wis2_adapter/app/wnm/wnm.go\<close> and \<open>geometry.go\<close>): classifying a topic, choosing links,
  checking a payload against the announced digest, and flattening GeoJSON areas.  The JSON decoder, the parser of
  time stamps and of URLs, and the hash functions are arguments.
\<close>

section \<open>Messages\<close>

record wnm_integrity =
  ig_method :: string
  ig_value :: string

record wnm_content =
  ct_encoding :: string
  ct_size :: int
  ct_value :: string

record wnm_link =
  lk_href :: string
  lk_rel :: string
  lk_type :: string
  lk_title :: string
  lk_length :: int

record wnm_properties =
  pp_data_id :: string
  pp_pub_time :: string
  pp_date_time :: "string option"
  pp_integrity :: "wnm_integrity option"
  pp_content :: "wnm_content option"
  pp_object_id :: "string option"

record wnm_message =
  wm_id :: string
  wm_type :: string
  wm_geometry :: string
  wm_properties :: wnm_properties
  wm_links :: "wnm_link list"

definition classify_topic :: "string \<Rightarrow> string \<times> string \<times> string" where
  "classify_topic topic =
     (let channel = (if has_prefix topic ''cache/'' then ''cache''
                     else if has_prefix topic ''origin/'' then ''origin'' else ''other'');
          parts = split_at CHR ''/'' topic;
          centreID = (if 3 < length parts then parts ! 3 else '''');
          kind = (if contains_str topic ''/weather/advisories-warnings'' then ''warnings''
                  else if contains_str topic ''/deterministic/trajectory'' then ''trajectory''
                  else if contains_str topic ''/surface-based-observations/synop'' then ''synop''
                  else ''other'')
      in (channel, centreID, kind))"

text \<open>The layout \<open>RFC3339Nano\<close> of an instant in nanoseconds: the fraction without its trailing zeros.\<close>

definition format_rfc3339_nano :: "int \<Rightarrow> string" where
  "format_rfc3339_nano ns =
     (let f = nat (ns mod 10 ^ 9); digits = rev (dropWhile (\<lambda>c. c = CHR ''0'') (rev (append_int (int f) 9)));
          s = format_rfc3339 (ns div 10 ^ 9)
      in if f = 0 then s else butlast s @ ''.'' @ digits @ ''Z'')"

text \<open>\<open>FormatRFC3339\<close>; the two arguments are \<open>time.Parse\<close> with the layouts \<open>RFC3339Nano\<close> and \<open>RFC3339\<close>.\<close>

definition format_wnm_time :: "(string \<Rightarrow> int option) \<Rightarrow> (string \<Rightarrow> int option) \<Rightarrow> string \<Rightarrow> string \<times> bool" where
  "format_wnm_time parse_nano parse_sec ts =
     (case parse_nano ts of
        Some t \<Rightarrow> (format_rfc3339_nano t, True)
      | None \<Rightarrow> (case parse_sec ts of Some t \<Rightarrow> (format_rfc3339_nano t, True) | None \<Rightarrow> (ts, False)))"

section \<open>Integrity\<close>

record hashes =
  hs_sha512 :: "string \<Rightarrow> string"
  hs_sha3_512 :: "string \<Rightarrow> string"

definition integrity_digest :: "hashes \<Rightarrow> string \<Rightarrow> (string \<Rightarrow> string) option" where
  "integrity_digest H method =
     (let normMethod = lower_view (filter (\<lambda>c. c \<noteq> CHR ''-'') method) in
      if normMethod = ''sha512'' then Some (hs_sha512 H)
      else if normMethod = ''sha3512'' then Some (hs_sha3_512 H)
      else None)"

definition check_integrity :: "hashes \<Rightarrow> string \<Rightarrow> wnm_integrity option \<Rightarrow> bool" where
  "check_integrity H data integrity =
     (case integrity of
        None \<Rightarrow> True
      | Some i \<Rightarrow>
          if ig_method i = '''' \<or> ig_value i = '''' then True
          else (case integrity_digest H (ig_method i) of
                  None \<Rightarrow> False
                | Some h \<Rightarrow> ig_value i = b64_encode (h data) \<or> equal_fold (ig_value i) (hex_encode (h data))))"

section \<open>Links\<close>

definition find_link :: "string \<Rightarrow> wnm_link list \<Rightarrow> wnm_link option" where
  "find_link rel links = find (\<lambda>l. equal_fold (lk_rel l) rel \<and> lk_href l \<noteq> '''') links"

definition find_canonical_link :: "wnm_link list \<Rightarrow> wnm_link option" where
  "find_canonical_link = find_link ''canonical''"

definition find_geometry_link :: "wnm_link list \<Rightarrow> wnm_link option" where
  "find_geometry_link = find_link ''geometry''"

definition find_license_link :: "wnm_link list \<Rightarrow> wnm_link option" where
  "find_license_link = find_link ''license''"

definition find_data_fallback_links :: "wnm_link list \<Rightarrow> wnm_link list" where
  "find_data_fallback_links links =
     filter (\<lambda>l. trim_space (lk_href l) \<noteq> '''' \<and>
       lower_view (trim_space (lk_rel l)) \<notin> {''canonical'', ''license'', ''geometry'', ''json'', ''describedby''}) links"

definition resolve_area_key :: "url_parser \<Rightarrow> string option \<Rightarrow> string \<Rightarrow> string option" where
  "resolve_area_key parse objectID geomLinkHref =
     (case objectID of
        Some k \<Rightarrow> if trim_space k \<noteq> '''' then Some (trim_space k)
          else (if geomLinkHref = '''' then None
                else case parse geomLinkHref of None \<Rightarrow> None | Some u \<Rightarrow> if u_path u = '''' then None else Some (u_path u))
      | None \<Rightarrow>
          (if geomLinkHref = '''' then None
           else case parse geomLinkHref of None \<Rightarrow> None | Some u \<Rightarrow> if u_path u = '''' then None else Some (u_path u)))"

section \<open>Areas\<close>

text \<open>A GeoJSON object decoded one level deep: the coordinates and the geometry stay raw.\<close>

datatype raw_geo = RawGeo (rg_type: string) (rg_coordinates: string) (rg_geometry: string) (rg_features: "raw_geo list")

type_synonym 'p polygon = "'p list list"

record 'p geo_json =
  gj_object :: "string \<Rightarrow> raw_geo option"
  gj_polygon :: "string \<Rightarrow> 'p polygon option"
  gj_multi :: "string \<Rightarrow> 'p polygon list option"

definition polygons_of :: "'p geo_json \<Rightarrow> raw_geo \<Rightarrow> 'p polygon list" where
  "polygons_of J g =
     (let t = lower_view (rg_type g) in
      if t = ''polygon'' then
        (case gj_polygon J (rg_coordinates g) of Some p \<Rightarrow> if p = [] then [] else [p] | None \<Rightarrow> [])
      else if t = ''multipolygon'' then
        (case gj_multi J (rg_coordinates g) of Some ps \<Rightarrow> ps | None \<Rightarrow> [])
      else [])"

definition extract_geometry :: "'p geo_json \<Rightarrow> string \<Rightarrow> 'p polygon list" where
  "extract_geometry J raw =
     (if raw = '''' then []
      else case gj_object J raw of None \<Rightarrow> [] | Some g \<Rightarrow> polygons_of J g)"

text \<open>\<open>None\<close>: the document does not decode; \<open>Some None\<close>: it has no polygon.\<close>

definition flatten_to_multi_polygon :: "'p geo_json \<Rightarrow> string \<Rightarrow> 'p polygon list option option" where
  "flatten_to_multi_polygon J data =
     (case gj_object J data of
        None \<Rightarrow> None
      | Some root \<Rightarrow>
          (let t = lower_view (rg_type root);
               all = (if t = ''featurecollection'' then concat (map (\<lambda>f. extract_geometry J (rg_geometry f)) (rg_features root))
                      else if t = ''feature'' then extract_geometry J (rg_geometry root)
                      else polygons_of J root)
           in Some (if all = [] then None else Some all)))"

section \<open>A digest denotes one payload\<close>

lemma hex_digit_lower:
  assumes "n < 16"
  shows "(of_char (hex_char n) :: nat) < 128" "ascii_lower (hex_char n) = hex_char n"
  using of_char_hex [OF assms] assms by (auto simp: ascii_lower_def Let_def)

lemma hex_ascii: "\<forall>c \<in> set (hex_encode s). of_char c < (128 :: nat) \<and> ascii_lower c = c"
proof (induction s)
  case (Cons c s)
  have "(of_char c :: nat) div 16 < 16" using byte_bound [of c] by (simp add: less_mult_imp_div_less)
  then show ?case using Cons hex_digit_lower by (auto simp: Let_def)
qed simp

lemma fold_hex: "fold_case (hex_encode s) = hex_encode s"
  using fold_case_ascii [of "hex_encode s"] hex_ascii [of s] by (simp add: map_idI)

lemma fold_b64_length: "length (fold_case (b64_encode s)) = length (b64_encode s)"
  using fold_case_ascii [of "b64_encode s"] b64_ascii [of _ s] by simp

lemma accepted_digest:
  assumes "check_integrity H data (Some i)" "ig_method i \<noteq> ''''" "ig_value i \<noteq> ''''"
  obtains h where "integrity_digest H (ig_method i) = Some h"
    "ig_value i = b64_encode (h data) \<or> fold_case (ig_value i) = hex_encode (h data)"
  using assms by (auto simp: check_integrity_def equal_fold_def fold_hex split: option.splits)

lemma digest_determined:
  assumes "v = b64_encode s \<or> fold_case v = hex_encode s" "v = b64_encode t \<or> fold_case v = hex_encode t"
    "length s = 64" "length t = 64"
  shows "s = t"
proof -
  have mixed: False if "b64_encode x = v" "fold_case v = hex_encode y" "length x = 64" "length y = 64" for x y
    using that fold_b64_length [of x] by (auto simp: b64_length hex_length)
  from assms(1) show ?thesis
  proof
    assume v: "v = b64_encode s"
    then have "v = b64_encode t" using assms(2) mixed [of s t] assms(3,4) by blast
    then show ?thesis using v b64_encode_inj by blast
  next
    assume v: "fold_case v = hex_encode s"
    then have "fold_case v = hex_encode t" using assms(2) mixed [of t s] assms(3,4) by blast
    then have "hex_encode s = hex_encode t" using v by simp
    then show ?thesis by (simp only: hex_encode_inj)
  qed
qed

text \<open>Two payloads accepted under the same announced digest, in a supported method, have the same hash value,
  whether the digest is written in base64 or in hexadecimal of any case; an unsupported method accepts nothing.\<close>

theorem integrity_binds:
  assumes "ig_method i \<noteq> ''''" "ig_value i \<noteq> ''''" "check_integrity H d (Some i)" "check_integrity H d' (Some i)"
    "\<forall>x. length (hs_sha512 H x) = 64 \<and> length (hs_sha3_512 H x) = 64"
  shows "\<exists>h. integrity_digest H (ig_method i) = Some h \<and> h \<in> {hs_sha512 H, hs_sha3_512 H} \<and> h d = h d'"
proof -
  obtain h where h: "integrity_digest H (ig_method i) = Some h"
    "ig_value i = b64_encode (h d) \<or> fold_case (ig_value i) = hex_encode (h d)"
    using accepted_digest [OF assms(3,1,2)] .
  obtain h' where "integrity_digest H (ig_method i) = Some h'"
    "ig_value i = b64_encode (h' d') \<or> fold_case (ig_value i) = hex_encode (h' d')"
    using accepted_digest [OF assms(4,1,2)] .
  then have h': "ig_value i = b64_encode (h d') \<or> fold_case (ig_value i) = hex_encode (h d')" using h(1) by simp
  have which: "h = hs_sha512 H \<or> h = hs_sha3_512 H"
    using h(1) by (auto simp: integrity_digest_def Let_def split: if_split_asm)
  then have "length (h d) = 64" "length (h d') = 64" using assms(5) by auto
  then show ?thesis using digest_determined [OF h(2) h'] h(1) which by blast
qed

definition demo_hashes :: hashes where
  "demo_hashes = \<lparr>hs_sha512 = (\<lambda>s. take 64 (s @ replicate 64 (CHR 0x00))), hs_sha3_512 = (\<lambda>s. replicate 64 (CHR 0x01))\<rparr>"

theorem integrity_binds_witness:
  "\<exists>h. integrity_digest demo_hashes ''SHA-512'' = Some h \<and> h ''storm'' = h (''storm'' @ [CHR 0x00])
     \<and> check_integrity demo_hashes ''storm'' (Some \<lparr>ig_method = ''SHA-512'', ig_value = b64_encode (hs_sha512 demo_hashes ''storm'')\<rparr>)"
proof -
  let ?i = "\<lparr>ig_method = ''SHA-512'', ig_value = b64_encode (hs_sha512 demo_hashes ''storm'')\<rparr>"
  have chosen: "integrity_digest demo_hashes ''SHA-512'' = Some (hs_sha512 demo_hashes)"
  proof -
    have "lower_view (filter (\<lambda>c. c \<noteq> CHR ''-'') ''SHA-512'') = ''sha512''" by code_simp
    then show ?thesis by (simp only: integrity_digest_def Let_def if_True refl)
  qed
  have equal_digests: "hs_sha512 demo_hashes (''storm'' @ [CHR 0x00]) = hs_sha512 demo_hashes ''storm''"
    by (simp add: demo_hashes_def numeral_eq_Suc)
  have "check_integrity demo_hashes ''storm'' (Some ?i)" "check_integrity demo_hashes (''storm'' @ [CHR 0x00]) (Some ?i)"
    by (simp_all only: check_integrity_def option.case wnm_integrity.simps chosen equal_digests simp_thms split: if_split)
  moreover have "\<forall>x. length (hs_sha512 demo_hashes x) = 64 \<and> length (hs_sha3_512 demo_hashes x) = 64"
    by (auto simp: demo_hashes_def)
  moreover have "ig_method ?i \<noteq> []" "ig_value ?i \<noteq> []" by (simp_all add: demo_hashes_def)
  ultimately obtain h where "integrity_digest demo_hashes (ig_method ?i) = Some h" "h ''storm'' = h (''storm'' @ [CHR 0x00])"
    using integrity_binds [of ?i demo_hashes "''storm''" "''storm'' @ [CHR 0x00]"] by blast
  then show ?thesis using \<open>check_integrity demo_hashes ''storm'' (Some ?i)\<close> by (intro exI [of _ h]) simp
qed

end
