(* ===== verification/Cap.thy ===== *)
theory Cap
  imports Prelude Go_Strings
begin

text \<open>
  CAP alerts (\<open>adapters/common/cap/cap.go\<close>): bringing a document to UTF-8 by its declared encoding, decoding it in
  a strict and then a lenient way, and cleaning what was decoded.  \<open>encoding/xml\<close> and the character sets are the
  environment: they yield the first start element, the decoded elements or an error, and the transcoded text.
\<close>

section \<open>What is decoded\<close>

record raw_key_value =
  rk_value_name :: string
  rk_value :: string

record raw_resource =
  rr_resource_desc :: string
  rr_mime_type :: "string option"
  rr_size :: "string option"
  rr_uri :: "string option"
  rr_digest :: "string option"

record raw_area =
  ra_area_desc :: string
  ra_polygon :: "string list"
  ra_circle :: "string list"
  ra_geocode :: "raw_key_value list"
  ra_altitude :: "string option"
  ra_ceiling :: "string option"

record raw_info =
  ri_language :: "string option"
  ri_category :: "string list"
  ri_event :: string
  ri_response_type :: "string list"
  ri_urgency :: string
  ri_severity :: string
  ri_certainty :: string
  ri_audience :: "string option"
  ri_event_code :: "raw_key_value list"
  ri_effective :: "string option"
  ri_onset :: "string option"
  ri_expires :: "string option"
  ri_sender_name :: "string option"
  ri_headline :: "string option"
  ri_description :: "string option"
  ri_instruction :: "string option"
  ri_web :: "string option"
  ri_contact :: "string option"
  ri_parameter :: "raw_key_value list"
  ri_resource :: "raw_resource list"
  ri_area :: "raw_area list"

record raw_alert =
  rx_identifier :: string
  rx_sender :: string
  rx_sent :: string
  rx_status :: string
  rx_msg_type :: string
  rx_source :: "string option"
  rx_scope :: string
  rx_restriction :: "string option"
  rx_addresses :: "string option"
  rx_code :: "string list"
  rx_note :: "string option"
  rx_references :: "string option"
  rx_incidents :: "string option"
  rx_info :: "raw_info list"

record xml_start =
  xs_space :: string
  xs_local :: string
  xs_attrs :: "(string \<times> string \<times> string) list" \<comment> \<open>space and local name, value\<close>

text \<open>
  The environment: \<open>cx_root\<close> reads the tokens up to the first start element, \<open>cx_alert\<close> decodes that element; their
  first argument is the decoder's strictness.  \<open>cx_charset\<close> transcodes a text from the labelled character set.
\<close>

record cap_env =
  cx_root :: "bool \<Rightarrow> string \<Rightarrow> string + xml_start"
  cx_alert :: "bool \<Rightarrow> string \<Rightarrow> string + raw_alert"
  cx_charset :: "string \<Rightarrow> string \<Rightarrow> string option"

section \<open>Alerts\<close>

record cap_key_value =
  kv_value_name :: string
  kv_value :: string

record cap_resource =
  cr_resource_desc :: string
  cr_mime_type :: "string option"
  cr_size :: "int option"
  cr_uri :: "string option"
  cr_digest :: "string option"

record cap_area =
  ar_area_desc :: string
  ar_polygon :: "string list"
  ar_circle :: "string list"
  ar_geocode :: "cap_key_value list"
  ar_altitude :: "string option"
  ar_ceiling :: "string option"

record cap_info =
  in_language :: "string option"
  in_category :: "string list"
  in_event :: string
  in_response_type :: "string list"
  in_urgency :: string
  in_severity :: string
  in_certainty :: string
  in_audience :: "string option"
  in_event_code :: "cap_key_value list"
  in_effective :: "string option"
  in_onset :: "string option"
  in_expires :: "string option"
  in_sender_name :: "string option"
  in_headline :: "string option"
  in_description :: "string option"
  in_instruction :: "string option"
  in_web :: "string option"
  in_contact :: "string option"
  in_parameter :: "cap_key_value list"
  in_resource :: "cap_resource list"
  in_area :: "cap_area list"

record cap_alert =
  al_cap_version :: string
  al_identifier :: string
  al_sender :: string
  al_sent :: string
  al_status :: string
  al_msg_type :: string
  al_source :: "string option"
  al_scope :: string
  al_restriction :: "string option"
  al_addresses :: "string option"
  al_code :: "string list"
  al_note :: "string option"
  al_references :: "string option"
  al_incidents :: "string option"
  al_info :: "cap_info list"

record cap_result =
  res_cap :: "cap_alert option"
  res_error :: "string option"
  res_raw_xml :: "string option"

section \<open>Cleaning\<close>

definition clean_string_ptr :: "string option \<Rightarrow> string option" where
  "clean_string_ptr s =
     (case s of None \<Rightarrow> None | Some x \<Rightarrow> if trim_space x = '''' then None else Some (trim_space x))"

definition clean_string_slice :: "string list \<Rightarrow> string list" where
  "clean_string_slice s = filter (\<lambda>x. x \<noteq> '''') (map trim_space s)"

definition build_key_value_pairs :: "raw_key_value list \<Rightarrow> cap_key_value list" where
  "build_key_value_pairs pairs =
     map (\<lambda>p. \<lparr>kv_value_name = trim_space (rk_value_name p), kv_value = trim_space (rk_value p)\<rparr>) pairs"

text \<open>\<open>strconv.ParseInt\<close> to 64 bits reads what \<open>Atoi\<close> reads.\<close>

definition parse_size_ptr :: "string option \<Rightarrow> int option" where
  "parse_size_ptr s =
     (case s of None \<Rightarrow> None | Some x \<Rightarrow> if trim_space x = '''' then None else atoi (trim_space x))"

definition maxNonAlertRawSize :: nat where
  "maxNonAlertRawSize = 2 ^ 20"

definition truncate_raw :: "string \<Rightarrow> nat \<Rightarrow> string" where
  "truncate_raw data limit = (if limit < length data then take limit data else data)"

definition build_resource :: "raw_resource \<Rightarrow> cap_resource" where
  "build_resource r =
     \<lparr>cr_resource_desc = trim_space (rr_resource_desc r), cr_mime_type = clean_string_ptr (rr_mime_type r),
      cr_size = parse_size_ptr (rr_size r), cr_uri = clean_string_ptr (rr_uri r), cr_digest = clean_string_ptr (rr_digest r)\<rparr>"

definition build_area :: "raw_area \<Rightarrow> cap_area" where
  "build_area r =
     \<lparr>ar_area_desc = trim_space (ra_area_desc r), ar_polygon = clean_string_slice (ra_polygon r),
      ar_circle = clean_string_slice (ra_circle r), ar_geocode = build_key_value_pairs (ra_geocode r),
      ar_altitude = clean_string_ptr (ra_altitude r), ar_ceiling = clean_string_ptr (ra_ceiling r)\<rparr>"

definition build_info :: "raw_info \<Rightarrow> cap_info" where
  "build_info r =
     \<lparr>in_language = clean_string_ptr (ri_language r), in_category = clean_string_slice (ri_category r),
      in_event = trim_space (ri_event r), in_response_type = clean_string_slice (ri_response_type r),
      in_urgency = trim_space (ri_urgency r), in_severity = trim_space (ri_severity r),
      in_certainty = trim_space (ri_certainty r), in_audience = clean_string_ptr (ri_audience r),
      in_event_code = build_key_value_pairs (ri_event_code r), in_effective = clean_string_ptr (ri_effective r),
      in_onset = clean_string_ptr (ri_onset r), in_expires = clean_string_ptr (ri_expires r),
      in_sender_name = clean_string_ptr (ri_sender_name r), in_headline = clean_string_ptr (ri_headline r),
      in_description = clean_string_ptr (ri_description r), in_instruction = clean_string_ptr (ri_instruction r),
      in_web = clean_string_ptr (ri_web r), in_contact = clean_string_ptr (ri_contact r),
      in_parameter = build_key_value_pairs (ri_parameter r), in_resource = map build_resource (ri_resource r),
      in_area = map build_area (ri_area r)\<rparr>"

definition build_cap_alert :: "string \<Rightarrow> raw_alert \<Rightarrow> cap_alert" where
  "build_cap_alert capVersion raw =
     \<lparr>al_cap_version = capVersion, al_identifier = trim_space (rx_identifier raw), al_sender = trim_space (rx_sender raw),
      al_sent = trim_space (rx_sent raw), al_status = trim_space (rx_status raw), al_msg_type = trim_space (rx_msg_type raw),
      al_source = clean_string_ptr (rx_source raw), al_scope = trim_space (rx_scope raw),
      al_restriction = clean_string_ptr (rx_restriction raw), al_addresses = clean_string_ptr (rx_addresses raw),
      al_code = clean_string_slice (rx_code raw), al_note = clean_string_ptr (rx_note raw),
      al_references = clean_string_ptr (rx_references raw), al_incidents = clean_string_ptr (rx_incidents raw),
      al_info = map build_info (rx_info raw)\<rparr>"

definition detect_cap_version :: "xml_start \<Rightarrow> string" where
  "detect_cap_version start =
     (let ns = (if xs_space start = '''' then
                  (case find (\<lambda>(space, name, value). name = ''xmlns'' \<or> space = ''xmlns'') (xs_attrs start) of
                     Some (_, _, value) \<Rightarrow> value | None \<Rightarrow> '''')
                else xs_space start)
      in if contains_str ns ''1.2'' then ''1.2''
         else if contains_str ns ''1.1'' then ''1.1''
         else if contains_str ns ''1.0'' then ''1.0''
         else '''')"

section \<open>The declared encoding\<close>

text \<open>The two regular expressions, as matchers.  \<open>\s\<close> is ASCII white space; the words they spell have no letters that fold to others.\<close>

definition re_space :: "char \<Rightarrow> bool" where
  "re_space c \<longleftrightarrow> c \<in> {CHR 0x09, CHR 0x0A, CHR 0x0C, CHR 0x0D, CHR '' ''}"

definition re_word :: "char \<Rightarrow> bool" where
  "re_word c \<longleftrightarrow> (let n = of_char c :: nat in (48 \<le> n \<and> n \<le> 57) \<or> (65 \<le> n \<and> n \<le> 90) \<or> (97 \<le> n \<and> n \<le> 122) \<or> n = 95)"

definition re_quote :: "char \<Rightarrow> bool" where
  "re_quote c \<longleftrightarrow> c = CHR 0x22 \<or> c = CHR 0x27"

text \<open>\<open>^\s*<\?xml\b[^>]*\?>\<close>: the length of the declaration at the start.\<close>

definition xml_decl_length :: "string \<Rightarrow> nat option" where
  "xml_decl_length s =
     (let blanks = length (takeWhile re_space s); r = drop blanks s; body = takeWhile (\<lambda>c. c \<noteq> CHR ''>'') (drop 5 r) in
      if map ascii_lower (take 5 r) = ''<?xml'' \<and> 5 + length body < length r \<and> body \<noteq> [] \<and> \<not> re_word (hd body) \<and> last body = CHR ''?''
      then Some (blanks + 5 + length body + 1) else None)"

text \<open>\<open>(encoding\s*=\s*["'])([^"']+)(["'])\<close> at the start: the length of the first group, and the label.\<close>

definition xml_encoding_at :: "string \<Rightarrow> (nat \<times> string) option" where
  "xml_encoding_at s =
     (if map ascii_lower (take 8 s) \<noteq> ''encoding'' then None
      else
        (let r = dropWhile re_space (drop 8 s) in
         if r = [] \<or> hd r \<noteq> CHR ''='' then None
         else
           (let q = dropWhile re_space (tl r) in
            if q = [] \<or> \<not> re_quote (hd q) then None
            else
              (let label = takeWhile (\<lambda>c. \<not> re_quote c) (tl q) in
               if label = [] \<or> length label = length (tl q) then None
               else Some (length s - length (tl q), label)))))"

fun xml_encoding_label :: "string \<Rightarrow> string option" where
  "xml_encoding_label s =
     (case xml_encoding_at s of
        Some (_, label) \<Rightarrow> Some label
      | None \<Rightarrow> (case s of [] \<Rightarrow> None | _ # t \<Rightarrow> xml_encoding_label t))"

lemma xml_encoding_at_nonempty: "xml_encoding_at s = Some x \<Longrightarrow> s \<noteq> []"
  by (auto simp: xml_encoding_at_def)

text \<open>Every match with its label replaced; the closing quote stays.\<close>

function rewrite_encodings :: "string \<Rightarrow> string" where
  "rewrite_encodings s =
     (case xml_encoding_at s of
        Some (n, label) \<Rightarrow>
          take n s @ ''UTF-8'' @ take 1 (drop (n + length label) s) @ rewrite_encodings (drop (n + length label + 1) s)
      | None \<Rightarrow> (case s of [] \<Rightarrow> [] | c # t \<Rightarrow> c # rewrite_encodings t))"
  by pat_completeness auto
termination
  by (relation "measure length") (auto dest!: xml_encoding_at_nonempty)

declare xml_encoding_label.simps [simp del] rewrite_encodings.simps [simp del]

definition to_utf8 :: "cap_env \<Rightarrow> string \<Rightarrow> string option" where
  "to_utf8 E src =
     (case xml_decl_length src of
        None \<Rightarrow> Some src
      | Some n \<Rightarrow>
          (case xml_encoding_label (take n src) of
             None \<Rightarrow> Some src
           | Some l \<Rightarrow>
               (let label = trim_space l in
                if equal_fold label ''utf-8'' \<or> equal_fold label ''utf8'' \<or> label = '''' then Some src
                else
                  map_option (\<lambda>out.
                    case xml_decl_length out of
                      Some k \<Rightarrow> rewrite_encodings (take k out) @ drop k out
                    | None \<Rightarrow> out) (cx_charset E label src))))"

section \<open>Parsing\<close>

definition parse_cap_internal :: "cap_env \<Rightarrow> string \<Rightarrow> bool \<Rightarrow> cap_result" where
  "parse_cap_internal E utf8Data strict =
     (let failed = (\<lambda>e. \<lparr>res_cap = None, res_error = Some e, res_raw_xml = Some (truncate_raw utf8Data maxNonAlertRawSize)\<rparr>) in
      case cx_root E strict utf8Data of
        Inl e \<Rightarrow> failed (''xml parse error: '' @ e)
      | Inr rootStart \<Rightarrow>
          if lower_view (xs_local rootStart) \<noteq> ''alert'' then failed (''not a CAP alert: root <'' @ xs_local rootStart @ ''>'')
          else
            (case cx_alert E strict utf8Data of
               Inl e \<Rightarrow> failed (''decode CAP alert failed: '' @ e)
             | Inr raw \<Rightarrow>
                 \<lparr>res_cap = Some (build_cap_alert (detect_cap_version rootStart) raw), res_error = None,
                  res_raw_xml = Some utf8Data\<rparr>))"

definition byte_order_mark :: string where
  "byte_order_mark = [CHR 0xEF, CHR 0xBB, CHR 0xBF]"

definition utf8_text :: "cap_env \<Rightarrow> string \<Rightarrow> string" where
  "utf8_text E data =
     (let cleanData = (case cut_prefix data byte_order_mark of Some d \<Rightarrow> d | None \<Rightarrow> data)
      in case to_utf8 E cleanData of Some d \<Rightarrow> d | None \<Rightarrow> cleanData)"

definition parse_cap :: "cap_env \<Rightarrow> string \<Rightarrow> cap_result" where
  "parse_cap E data =
     (let utf8Data = utf8_text E data;
          res = parse_cap_internal E utf8Data True
      in if res_error res = None then res
         else
           (let fallbackRes = parse_cap_internal E utf8Data False
            in if res_error fallbackRes = None then fallbackRes else res))"

section \<open>Alerts are tidy\<close>

definition tidy :: "string \<Rightarrow> bool" where
  "tidy s \<longleftrightarrow> trim_space s = s"

definition tidy_opt :: "string option \<Rightarrow> bool" where
  "tidy_opt x = (case x of None \<Rightarrow> True | Some s \<Rightarrow> s \<noteq> '''' \<and> tidy s)"

definition tidy_list :: "string list \<Rightarrow> bool" where
  "tidy_list xs = list_all (\<lambda>s. s \<noteq> '''' \<and> tidy s) xs"

definition tidy_pairs :: "cap_key_value list \<Rightarrow> bool" where
  "tidy_pairs ps = list_all (\<lambda>p. tidy (kv_value_name p) \<and> tidy (kv_value p)) ps"

definition tidy_resource :: "cap_resource \<Rightarrow> bool" where
  "tidy_resource r \<longleftrightarrow> tidy (cr_resource_desc r) \<and> list_all tidy_opt [cr_mime_type r, cr_uri r, cr_digest r]
     \<and> (case cr_size r of None \<Rightarrow> True | Some n \<Rightarrow> in_s64 n)"

definition tidy_area :: "cap_area \<Rightarrow> bool" where
  "tidy_area a \<longleftrightarrow> tidy (ar_area_desc a) \<and> tidy_list (ar_polygon a) \<and> tidy_list (ar_circle a)
     \<and> tidy_pairs (ar_geocode a) \<and> tidy_opt (ar_altitude a) \<and> tidy_opt (ar_ceiling a)"

definition tidy_info :: "cap_info \<Rightarrow> bool" where
  "tidy_info i \<longleftrightarrow> list_all tidy [in_event i, in_urgency i, in_severity i, in_certainty i]
     \<and> list_all tidy_opt [in_language i, in_audience i, in_effective i, in_onset i, in_expires i, in_sender_name i, in_headline i,
         in_description i, in_instruction i, in_web i, in_contact i]
     \<and> tidy_list (in_category i) \<and> tidy_list (in_response_type i) \<and> tidy_pairs (in_event_code i) \<and> tidy_pairs (in_parameter i)
     \<and> list_all tidy_resource (in_resource i) \<and> list_all tidy_area (in_area i)"

definition tidy_alert :: "cap_alert \<Rightarrow> bool" where
  "tidy_alert a \<longleftrightarrow> al_cap_version a \<in> {''1.2'', ''1.1'', ''1.0'', ''''}
     \<and> list_all tidy [al_identifier a, al_sender a, al_sent a, al_status a, al_msg_type a, al_scope a]
     \<and> list_all tidy_opt [al_source a, al_restriction a, al_addresses a, al_note a, al_references a, al_incidents a]
     \<and> tidy_list (al_code a) \<and> list_all tidy_info (al_info a)"

named_theorems tidy_intros

lemma tidy_trim [tidy_intros]: "tidy (trim_space s)"
  by (simp add: tidy_def)

lemma tidy_ptr [tidy_intros]: "tidy_opt (clean_string_ptr s)"
  by (simp add: tidy_opt_def clean_string_ptr_def tidy_trim split: option.split)

lemma tidy_slice [tidy_intros]: "tidy_list (clean_string_slice xs)"
  by (auto simp: tidy_list_def clean_string_slice_def tidy_trim list_all_iff)

lemma tidy_key_values [tidy_intros]: "tidy_pairs (build_key_value_pairs ps)"
  by (auto simp: tidy_pairs_def build_key_value_pairs_def tidy_trim list_all_iff)

lemma parse_size_in_s64: "parse_size_ptr s = Some n \<Longrightarrow> in_s64 n"
  by (auto simp: parse_size_ptr_def dest: atoi_in_s64 split: option.splits if_split_asm)

lemma tidy_build_resource [tidy_intros]: "tidy_resource (build_resource r)"
  by (auto simp: tidy_resource_def build_resource_def tidy_intros dest: parse_size_in_s64 split: option.split)

lemma tidy_build_area [tidy_intros]: "tidy_area (build_area r)"
  by (simp add: tidy_area_def build_area_def tidy_intros)

lemma tidy_build_info [tidy_intros]: "tidy_info (build_info r)"
  by (simp add: tidy_info_def build_info_def tidy_intros list_all_iff)

lemma detected_version: "detect_cap_version start \<in> {''1.2'', ''1.1'', ''1.0'', ''''}"
  by (simp add: detect_cap_version_def Let_def)

lemma tidy_build_alert [tidy_intros]: "tidy_alert (build_cap_alert (detect_cap_version start) raw)"
  using detected_version [of start] by (simp add: tidy_alert_def build_cap_alert_def tidy_intros list_all_iff)

lemma parse_internal_cases:
  "(\<exists>a. parse_cap_internal E u strict = \<lparr>res_cap = Some a, res_error = None, res_raw_xml = Some u\<rparr> \<and> tidy_alert a)
   \<or> (\<exists>e. parse_cap_internal E u strict = \<lparr>res_cap = None, res_error = Some e, res_raw_xml = Some (truncate_raw u maxNonAlertRawSize)\<rparr>)"
  by (auto simp: parse_cap_internal_def Let_def tidy_build_alert split: sum.split)

lemma truncate_raw_bound: "length (truncate_raw s n) \<le> n"
  by (simp add: truncate_raw_def)

text \<open>Parsing any document yields either an alert, every text of which is trimmed and no optional or listed text empty, with the
  whole text it was read from, or an error with at most 1 MiB of it; an error means that the strict and the lenient
  reading both fail, and it is the strict one's.\<close>

theorem parse_cap_outcome:
  "(\<exists>a. parse_cap E data = \<lparr>res_cap = Some a, res_error = None, res_raw_xml = Some (utf8_text E data)\<rparr> \<and> tidy_alert a)
   \<or> (\<exists>e x. parse_cap E data = \<lparr>res_cap = None, res_error = Some e, res_raw_xml = Some x\<rparr> \<and> length x \<le> 2 ^ 20
        \<and> parse_cap_internal E (utf8_text E data) True = parse_cap E data
        \<and> res_error (parse_cap_internal E (utf8_text E data) False) \<noteq> None)"
proof -
  define u where "u = utf8_text E data"
  let ?s = "parse_cap_internal E u True" and ?l = "parse_cap_internal E u False"
  have p: "parse_cap E data = (if res_error ?s = None then ?s else if res_error ?l = None then ?l else ?s)"
    by (simp only: parse_cap_def u_def Let_def)
  have bound: "length (truncate_raw u maxNonAlertRawSize) \<le> 2 ^ 20"
    using truncate_raw_bound [of u "2 ^ 20"] by (simp only: maxNonAlertRawSize_def)
  from parse_internal_cases [of E u True] show ?thesis
  proof
    assume "\<exists>a. ?s = \<lparr>res_cap = Some a, res_error = None, res_raw_xml = Some u\<rparr> \<and> tidy_alert a"
    then show ?thesis using p u_def by auto
  next
    assume "\<exists>e. ?s = \<lparr>res_cap = None, res_error = Some e, res_raw_xml = Some (truncate_raw u maxNonAlertRawSize)\<rparr>"
    then obtain e where s: "?s = \<lparr>res_cap = None, res_error = Some e, res_raw_xml = Some (truncate_raw u maxNonAlertRawSize)\<rparr>" ..
    show ?thesis
    proof (cases "res_error ?l = None")
      case True
      then show ?thesis using p s parse_internal_cases [of E u False] u_def by auto
    next
      case False
      then have "parse_cap E data = ?s" using p by auto
      then show ?thesis using s bound False by (auto simp: u_def)
    qed
  qed
qed

end
