(* ===== verification/Float_Rounding.thy ===== *)
theory Float_Rounding
  imports Go_Float
begin

text \<open>
  Facts on the rounding of \<open>Go_Float\<close>: a result that is representable is exact, rounding never
  passes a power of two, and every result is in canonical range.  Addition and subtraction follow.
\<close>

section \<open>Rounding to an integer\<close>

lemma div_bounds_real:
  fixes n d :: int
  assumes "0 < d"
  shows "real_of_int (n div d) \<le> real_of_int n / real_of_int d" "real_of_int n / real_of_int d < real_of_int (n div d) + 1"
proof -
  have "real_of_int n = real_of_int d * real_of_int (n div d) + real_of_int (n mod d)"
    by (metis mult_div_mod_eq of_int_add of_int_mult)
  moreover have "0 \<le> real_of_int (n mod d)" "real_of_int (n mod d) < real_of_int d" using assms by simp_all
  ultimately show "real_of_int (n div d) \<le> real_of_int n / real_of_int d" "real_of_int n / real_of_int d < real_of_int (n div d) + 1"
    using assms by (simp_all add: field_simps)
qed

lemma round_half_even_le:
  assumes "0 < d" "real_of_int n / real_of_int d \<le> real_of_int z"
  shows "round_half_even n d \<le> z"
proof -
  have le: "n div d \<le> z" using div_bounds_real [OF assms(1), of n] assms(2) by linarith
  moreover have "n div d = z \<Longrightarrow> n mod d = 0"
  proof -
    assume z: "n div d = z"
    have "real_of_int n \<le> real_of_int (z * d)" using assms by (simp add: field_simps)
    then have "n \<le> z * d" by linarith
    then have "n mod d \<le> 0" using z by (simp add: minus_div_mult_eq_mod [symmetric])
    then show ?thesis using assms(1) by (simp add: order_antisym)
  qed
  ultimately show ?thesis using assms(1) by (cases "n div d = z") (auto simp: round_half_even_def Let_def)
qed

lemma round_half_even_ge:
  assumes "0 < d" "real_of_int z \<le> real_of_int n / real_of_int d"
  shows "z \<le> round_half_even n d"
proof -
  have "z \<le> n div d" using div_bounds_real [OF assms(1), of n] assms(2) by linarith
  then show ?thesis by (auto simp: round_half_even_def Let_def)
qed

lemma int_less_pow: "a < 2 ^ n \<Longrightarrow> real_of_int a + 1 \<le> 2 ^ n"
proof -
  assume "a < 2 ^ n"
  then have "a + 1 \<le> 2 ^ n" by simp
  then have "real_of_int (a + 1) \<le> real_of_int (2 ^ n)" by (simp only: of_int_le_iff)
  then show ?thesis by simp
qed

lemma int_ge_pow: "\<not> a < 2 ^ n \<Longrightarrow> 2 ^ n \<le> real_of_int a"
proof -
  assume "\<not> a < 2 ^ n"
  then have "real_of_int (2 ^ n) \<le> real_of_int a" by (simp only: of_int_le_iff not_less)
  then show ?thesis by simp
qed

section \<open>The exponent\<close>

lemma scale_ratio_val:
  assumes "0 < d" "scale_ratio n d e = (n', d')"
  shows "0 < d'" "real_of_int n' / real_of_int d' = real_of_int n / real_of_int d / 2 powi e"
  using assms by (auto simp: scale_ratio_def power_int_def field_simps split: if_splits)

lemma ratio_lower:
  assumes "0 < n" "0 < d"
  shows "2 powi (bitlen n - bitlen d - 1) < real_of_int n / real_of_int d"
proof -
  have n: "2 ^ nat (bitlen n - 1) \<le> n" and d: "d < 2 ^ nat (bitlen d)" using bitlen_bounds assms by blast+
  have pos: "1 \<le> bitlen n" "0 \<le> bitlen d" using assms bitlen_eq_zero_iff [of n] bitlen_nonneg [of n] bitlen_nonneg [of d] by linarith+
  have "2 powi (bitlen n - 1) \<le> real_of_int n"
    using n pos by (simp add: power_int_def)
  moreover have "real_of_int d < 2 powi bitlen d"
    using d pos by (simp add: power_int_def)
  moreover have "(2::real) powi (bitlen n - bitlen d - 1) = 2 powi (bitlen n - 1) / 2 powi bitlen d"
    by (simp flip: power_int_diff add: algebra_simps)
  moreover have "2 powi (bitlen n - 1) / 2 powi bitlen d < 2 powi (bitlen n - 1) / real_of_int d"
    using calculation(2) assms(2) by (intro divide_strict_left_mono) auto
  ultimately show ?thesis
    using assms(2) by (smt (verit) divide_right_mono of_int_0_less_iff)
qed

lemma ratio_upper:
  assumes "0 < n" "0 < d"
  shows "real_of_int n / real_of_int d < 2 powi (bitlen n - bitlen d + 1)"
proof -
  have "2 powi (bitlen d - bitlen n - 1) < real_of_int d / real_of_int n" by (rule ratio_lower) fact+
  then have "inverse (real_of_int d / real_of_int n) < inverse (2 powi (bitlen d - bitlen n - 1))"
    by (intro less_imp_inverse_less) auto
  then show ?thesis by (simp flip: power_int_minus add: algebra_simps)
qed

text \<open>The chosen exponent: large enough for the mantissa, and no larger than needed.\<close>

lemma ratio_exp_cases:
  assumes "0 < n" "0 < d"
  shows "real_of_int n / real_of_int d < 2 powi (53 + ratio_exp n d)"
    "- 1074 \<le> ratio_exp n d" "ratio_exp n d = - 1074 \<or> 2 powi (52 + ratio_exp n d) \<le> real_of_int n / real_of_int d"
proof -
  define e0 where "e0 = bitlen n - bitlen d - 53"
  obtain n' d' where r: "scale_ratio n d e0 = (n', d')" by fastforce
  let ?x = "real_of_int n / real_of_int d" and ?e = "if n' div d' < 2 ^ 53 then e0 else e0 + 1"
  have e: "ratio_exp n d = max ?e (- 1074)" by (simp add: ratio_exp_def r flip: e0_def)
  note v = scale_ratio_val [OF assms(2) r]
  have shift: "?x = real_of_int n' / real_of_int d' * 2 powi e0" using v(2) by simp
  have e52: "bitlen n - bitlen d - 1 = 52 + e0" "bitlen n - bitlen d + 1 = 53 + (e0 + 1)" by (simp_all add: e0_def)
  have up_low: "?x < 2 powi (53 + ?e) \<and> 2 powi (52 + ?e) \<le> ?x"
  proof (cases "n' div d' < 2 ^ 53")
    case True
    then have e: "?e = e0" by (rule if_P)
    have "real_of_int (n' div d') + 1 \<le> 2 ^ 53"
      by (rule int_less_pow [OF True])
    then have "real_of_int n' / real_of_int d' < 2 ^ 53" using div_bounds_real(2) [OF v(1), of n'] by linarith
    then have "?x < 2 ^ 53 * 2 powi e0" unfolding shift by (intro mult_strict_right_mono) auto
    then have u: "?x < 2 powi (53 + ?e)" unfolding e by (simp add: power_int_add)
    have l: "2 powi (52 + ?e) \<le> ?x" using ratio_lower [OF assms] unfolding e52 e by (rule less_imp_le)
    from u l show ?thesis ..
  next
    case False
    then have e: "?e = e0 + 1" by (rule if_not_P)
    have u: "?x < 2 powi (53 + ?e)" using ratio_upper [OF assms] unfolding e52 e .
    have "2 ^ 53 \<le> real_of_int (n' div d')"
      by (rule int_ge_pow [OF False])
    then have "2 ^ 53 \<le> real_of_int n' / real_of_int d'" using div_bounds_real(1) [OF v(1), of n'] by linarith
    then have "2 ^ 53 * 2 powi e0 \<le> ?x" unfolding shift by (intro mult_right_mono) auto
    moreover have "(2::real) powi (52 + (e0 + 1)) = 2 ^ 53 * 2 powi e0" by (simp add: power_int_add)
    ultimately have l: "2 powi (52 + ?e) \<le> ?x" unfolding e by (simp only:)
    from u l show ?thesis ..
  qed
  note up = conjunct1 [OF up_low] and low = conjunct2 [OF up_low]
  show "- 1074 \<le> ratio_exp n d" by (simp add: e)
  have "(2::real) powi (53 + ?e) \<le> 2 powi (53 + ratio_exp n d)" unfolding e by (intro power_int_increasing) auto
  then show "?x < 2 powi (53 + ratio_exp n d)" using up by linarith
  show "ratio_exp n d = - 1074 \<or> 2 powi (52 + ratio_exp n d) \<le> ?x" using low unfolding e by (auto simp: max_def)
qed

lemma powi_le_imp: "(2::real) powi a < 2 powi b \<Longrightarrow> a < b"
  by (metis linorder_not_less one_le_numeral power_int_increasing)

lemma powi_leD: "(2::real) powi a \<le> 2 powi b \<Longrightarrow> a \<le> b"
  by (metis linorder_not_less one_less_numeral_iff power_int_strict_increasing semiring_norm(76))

lemma ratio_exp_le:
  assumes "0 < n" "0 < d" "real_of_int n / real_of_int d < 2 powi (53 + k)" "- 1074 \<le> k"
  shows "ratio_exp n d \<le> k"
proof (cases "ratio_exp n d = - 1074")
  case False
  then have "(2::real) powi (52 + ratio_exp n d) < 2 powi (53 + k)"
    using ratio_exp_cases(3) [OF assms(1,2)] assms(3) by linarith
  then show ?thesis using powi_le_imp by fastforce
qed (use assms(4) in simp)

section \<open>Rounding a quotient\<close>

definition f_ok :: "f64 \<Rightarrow> bool" where
  "f_ok x = (case x of FNum s m e \<Rightarrow> 0 \<le> m \<and> m < 2 ^ 53 \<and> - 1074 \<le> e \<and> e \<le> 971 | _ \<Rightarrow> True)"

definition sgn_val :: "bool \<Rightarrow> real \<Rightarrow> real" where
  "sgn_val s x = (if s then - x else x)"

lemma f_val_FNum: "f_val (FNum s m e) = sgn_val s (real_of_int m * 2 powi e)"
  by (simp add: sgn_val_def signed_mant_def)

lemma round_ratio_unfold:
  assumes "0 < n" "0 < d"
  obtains q where "0 \<le> q" "q \<le> 2 ^ 53"
    "\<And>z. real_of_int n / real_of_int d / 2 powi ratio_exp n d \<le> real_of_int z \<Longrightarrow> q \<le> z"
    "\<And>z. real_of_int z \<le> real_of_int n / real_of_int d / 2 powi ratio_exp n d \<Longrightarrow> z \<le> q"
    "\<And>s. round_ratio s n d =
      (let (m, e') = (if q = 2 ^ 53 then (2 ^ 52, ratio_exp n d + 1) else (q, ratio_exp n d))
       in if 971 < e' then FInf s else if m = 0 then FNum s 0 0 else FNum s m e')"
proof -
  let ?e = "ratio_exp n d"
  obtain n' d' where r: "scale_ratio n d ?e = (n', d')" by fastforce
  note v = scale_ratio_val [OF assms(2) r]
  have up: "\<And>z. real_of_int n / real_of_int d / 2 powi ?e \<le> real_of_int z \<Longrightarrow> round_half_even n' d' \<le> z"
    using round_half_even_le [OF v(1), where n = n'] unfolding v(2) by blast
  have low: "\<And>z. real_of_int z \<le> real_of_int n / real_of_int d / 2 powi ?e \<Longrightarrow> z \<le> round_half_even n' d'"
    using round_half_even_ge [OF v(1), where n = n'] unfolding v(2) by blast
  have "real_of_int n / real_of_int d < 2 ^ 53 * 2 powi ?e"
    using ratio_exp_cases(1) [OF assms] by (simp add: power_int_add)
  then have "real_of_int n / real_of_int d / 2 powi ?e \<le> real_of_int (2 ^ 53)"
    by (subst pos_divide_le_eq) (auto intro: less_imp_le)
  then have "round_half_even n' d' \<le> 2 ^ 53" by (rule up)
  moreover have "0 \<le> round_half_even n' d'" using assms by (intro low) simp
  ultimately show thesis
    using assms(1) up low by (intro that [of "round_half_even n' d'"]) (simp_all add: round_ratio_def r Let_def)
qed

lemma round_ratio_ok: "0 \<le> n \<Longrightarrow> 0 < d \<Longrightarrow> f_ok (round_ratio s n d)"
proof (cases "n = 0")
  case False
  assume "0 \<le> n" "0 < d"
  with False have n: "0 < n" "0 < d" by simp_all
  obtain q where "0 \<le> q" "q \<le> 2 ^ 53" "round_ratio s n d =
      (let (m, e') = (if q = 2 ^ 53 then (2 ^ 52, ratio_exp n d + 1) else (q, ratio_exp n d))
       in if 971 < e' then FInf s else if m = 0 then FNum s 0 0 else FNum s m e')"
    by (rule round_ratio_unfold [OF n]) blast
  then show ?thesis using ratio_exp_cases(2) [OF n] by (auto simp: f_ok_def Let_def)
qed (simp add: round_ratio_def f_ok_def)

text \<open>A quotient that is a mantissa times a power of two in range is not rounded.\<close>

lemma round_ratio_exact:
  assumes "0 < n" "0 < d" "real_of_int n / real_of_int d = real_of_int v * 2 powi k" "v < 2 ^ 53" "- 1074 \<le> k" "k \<le> 971"
  shows "is_num (round_ratio s n d) \<and> f_val (round_ratio s n d) = sgn_val s (real_of_int v * 2 powi k)"
proof -
  let ?e = "ratio_exp n d"
  obtain q where q: "0 \<le> q" "q \<le> 2 ^ 53"
    "\<And>z. real_of_int n / real_of_int d / 2 powi ?e \<le> real_of_int z \<Longrightarrow> q \<le> z"
    "\<And>z. real_of_int z \<le> real_of_int n / real_of_int d / 2 powi ?e \<Longrightarrow> z \<le> q"
    "round_ratio s n d = (let (m, e') = (if q = 2 ^ 53 then (2 ^ 52, ?e + 1) else (q, ?e))
       in if 971 < e' then FInf s else if m = 0 then FNum s 0 0 else FNum s m e')"
    by (rule round_ratio_unfold [OF assms(1,2)]) blast
  have "real_of_int v < 2 ^ 53" using int_less_pow [OF assms(4)] by linarith
  then have "real_of_int n / real_of_int d < 2 powi (53 + k)"
    unfolding assms(3) by (simp add: power_int_add)
  then have e: "?e \<le> k" using assms(1,2,5) by (intro ratio_exp_le)
  have "real_of_int n / real_of_int d / 2 powi ?e = real_of_int (v * 2 ^ nat (k - ?e))"
    unfolding assms(3) using align_val [OF e, of v] by (auto simp add: field_simps)
  then have "q = v * 2 ^ nat (k - ?e)" using q(3,4) by (metis order_antisym order_refl)
  then have val: "real_of_int q * 2 powi ?e = real_of_int v * 2 powi k" using align_val [OF e, of v] by simp
  have "0 < v"
    using assms(1-3) by (smt (verit) divide_pos_pos mult_nonpos_nonneg of_int_0_less_iff of_int_nonneg zero_less_power_int)
  have less: "?e < k" if "q = 2 ^ 53"
  proof (rule ccontr)
    assume "\<not> ?e < k"
    then have "q = v" using \<open>q = v * 2 ^ nat (k - ?e)\<close> e by simp
    then show False using that assms(4) by simp
  qed
  show ?thesis
  proof (cases "q = 2 ^ 53")
    case True
    have "real_of_int (2 ^ 52) * 2 powi (?e + 1) = real_of_int q * 2 powi ?e" unfolding True by (simp add: power_int_add)
    then show ?thesis using q(5) True less assms(6) val by (simp add: sgn_val_def signed_mant_def)
  next
    case False
    then show ?thesis using q(5) e assms(6) val \<open>0 < v\<close> \<open>q = v * 2 ^ nat (k - ?e)\<close>
      by (simp add: sgn_val_def signed_mant_def)
  qed
qed

text \<open>Rounding does not pass a power of two.\<close>

lemma round_ratio_bounded:
  assumes "0 < n" "0 < d" "real_of_int n / real_of_int d \<le> 2 powi j" "- 1022 \<le> j" "j \<le> 1023"
  shows "is_num (round_ratio s n d) \<and> (\<exists>x. f_val (round_ratio s n d) = sgn_val s x \<and> 0 \<le> x \<and> x \<le> 2 powi j)"
proof -
  let ?e = "ratio_exp n d"
  obtain q where q: "0 \<le> q" "q \<le> 2 ^ 53"
    "\<And>z. real_of_int n / real_of_int d / 2 powi ?e \<le> real_of_int z \<Longrightarrow> q \<le> z"
    "round_ratio s n d = (let (m, e') = (if q = 2 ^ 53 then (2 ^ 52, ?e + 1) else (q, ?e))
       in if 971 < e' then FInf s else if m = 0 then FNum s 0 0 else FNum s m e')"
    by (rule round_ratio_unfold [OF assms(1,2)]) blast
  have "(2::real) powi j < 2 powi (53 + (j - 52))" by (simp add: power_int_strict_increasing)
  then have e: "?e \<le> j - 52" using assms by (intro ratio_exp_le) auto
  have "real_of_int n / real_of_int d / 2 powi ?e \<le> 2 powi j / 2 powi ?e"
    using assms(3) by (intro divide_right_mono) auto
  also have "\<dots> = real_of_int (2 ^ nat (j - ?e))" using align_val [of ?e j 1] e by (simp add: field_simps)
  finally have "q \<le> 2 ^ nat (j - ?e)" by (rule q(3))
  then have "real_of_int q \<le> real_of_int (2 ^ nat (j - ?e))" by (simp only: of_int_le_iff)
  then have le: "real_of_int q * 2 powi ?e \<le> 2 powi j"
    using align_val [of ?e j 1] e mult_right_mono [of "real_of_int q" "real_of_int (2 ^ nat (j - ?e))" "2 powi ?e"] by simp
  show ?thesis
  proof (cases "q = 2 ^ 53")
    case True
    have "(2::real) powi (53 + ?e) \<le> 2 powi j" using le unfolding True by (simp add: power_int_add)
    then have "53 + ?e \<le> j" by (rule powi_leD)
    then have "\<not> 971 < ?e + 1" using assms(5) by linarith
    moreover have "real_of_int (2 ^ 52) * 2 powi (?e + 1) = real_of_int q * 2 powi ?e" unfolding True by (simp add: power_int_add)
    ultimately show ?thesis using q(4) True le by (intro conjI exI [of _ "real_of_int q * 2 powi ?e"]) (simp_all add: sgn_val_def signed_mant_def)
  next
    case False
    then have "is_num (round_ratio s n d) \<and> f_val (round_ratio s n d) = sgn_val s (real_of_int q * 2 powi ?e)"
      using q(4) e assms(5) by (auto simp: sgn_val_def signed_mant_def Let_def)
    then show ?thesis using le q(1) by (intro conjI exI [of _ "real_of_int q * 2 powi ?e"]) auto
  qed
qed

section \<open>Addition and division\<close>

lemma round_int_num:
  assumes "v \<noteq> 0"
  obtains n d where "0 < n" "0 < d" "real_of_int n / real_of_int d = \<bar>real_of_int v * 2 powi k\<bar>"
    "\<And>s. round_int s v k = round_ratio (v < 0) n d"
proof (cases "0 \<le> k")
  case True
  then show thesis using assms
    by (intro that [of "\<bar>v\<bar> * 2 ^ nat k" 1]) (auto simp: round_int_def power_int_def abs_mult)
next
  case False
  then show thesis using assms
    by (intro that [of "\<bar>v\<bar>" "2 ^ nat (- k)"]) (auto simp: round_int_def power_int_def abs_mult field_simps)
qed

lemma round_int_ok: "f_ok (round_int s v k)"
proof (cases "v = 0")
  case False
  then obtain n d where "0 < n" "0 < d" "round_int s v k = round_ratio (v < 0) n d" by (rule round_int_num) blast
  then show ?thesis by (simp add: round_ratio_ok)
qed (simp add: round_int_def f_ok_def)

lemma sgn_val_abs: "sgn_val (v < 0) \<bar>real_of_int v * 2 powi k\<bar> = real_of_int v * 2 powi k"
  by (simp add: sgn_val_def abs_mult)

lemma round_int_exact:
  assumes "real_of_int v * 2 powi k = real_of_int w * 2 powi j" "\<bar>w\<bar> < 2 ^ 53" "- 1074 \<le> j" "j \<le> 971"
  shows "is_num (round_int s v k) \<and> f_val (round_int s v k) = real_of_int v * 2 powi k"
proof (cases "v = 0")
  case False
  then obtain n d where nd: "0 < n" "0 < d" "real_of_int n / real_of_int d = \<bar>real_of_int v * 2 powi k\<bar>"
    "round_int s v k = round_ratio (v < 0) n d" by (rule round_int_num) blast
  have "real_of_int n / real_of_int d = real_of_int \<bar>w\<bar> * 2 powi j" unfolding nd(3) assms(1) by (simp add: abs_mult)
  from round_ratio_exact [OF nd(1,2) this assms(2-4), of "v < 0"]
  show ?thesis unfolding nd(4) using sgn_val_abs [of v k] assms(1) by (simp add: abs_mult)
qed (simp add: round_int_def signed_mant_def)

lemma round_int_bounded:
  assumes "\<bar>real_of_int v * 2 powi k\<bar> \<le> 2 powi j" "- 1022 \<le> j" "j \<le> 1023"
  shows "is_num (round_int s v k) \<and> \<bar>f_val (round_int s v k)\<bar> \<le> 2 powi j
    \<and> (0 \<le> v \<longrightarrow> 0 \<le> f_val (round_int s v k))"
proof (cases "v = 0")
  case False
  then obtain n d where nd: "0 < n" "0 < d" "real_of_int n / real_of_int d = \<bar>real_of_int v * 2 powi k\<bar>"
    "round_int s v k = round_ratio (v < 0) n d" by (rule round_int_num) blast
  from round_ratio_bounded [OF nd(1,2), of j "v < 0"]
  show ?thesis unfolding nd(4) using assms by (auto simp: nd(3) sgn_val_def)
qed (simp add: round_int_def signed_mant_def)

lemma f_add_num:
  assumes "is_num x" "is_num y"
  obtains v k s where "f_add x y = round_int s v k" "real_of_int v * 2 powi k = f_val x + f_val y"
proof -
  obtain s m e t n g where xy: "x = FNum s m e" "y = FNum t n g" using assms by (metis is_num.elims(2))
  let ?k = "min e g"
  show thesis
  proof (rule that)
    show "f_add x y = round_int (s \<and> t) (signed_mant s m * 2 ^ nat (e - ?k) + signed_mant t n * 2 ^ nat (g - ?k)) ?k"
      using xy by (simp add: Let_def)
    show "real_of_int (signed_mant s m * 2 ^ nat (e - ?k) + signed_mant t n * 2 ^ nat (g - ?k)) * 2 powi ?k = f_val x + f_val y"
      using xy align_val [of ?k e "signed_mant s m"] align_val [of ?k g "signed_mant t n"]
      by (simp only: of_int_add distrib_right f_val.simps)
  qed
qed

lemma f_add_ok: "is_num x \<Longrightarrow> is_num y \<Longrightarrow> f_ok (f_add x y)"
  by (metis f_add_num round_int_ok)

lemma f_add_exact:
  assumes "is_num x" "is_num y" "f_val x + f_val y = real_of_int w * 2 powi j" "\<bar>w\<bar> < 2 ^ 53" "- 1074 \<le> j" "j \<le> 971"
  shows "is_num (f_add x y) \<and> f_val (f_add x y) = f_val x + f_val y"
  using f_add_num [OF assms(1,2)] round_int_exact [OF _ assms(4-6)] assms(3) by metis

lemma f_add_bounded:
  assumes "is_num x" "is_num y" "\<bar>f_val x + f_val y\<bar> \<le> 2 powi j" "- 1022 \<le> j" "j \<le> 1023" "0 \<le> f_val x + f_val y"
  shows "is_num (f_add x y) \<and> 0 \<le> f_val (f_add x y) \<and> f_val (f_add x y) \<le> 2 powi j"
proof -
  obtain v k s where v: "f_add x y = round_int s v k" "real_of_int v * 2 powi k = f_val x + f_val y"
    using f_add_num [OF assms(1,2)] by blast
  have "(0::real) < 2 powi k" by simp
  then have "0 \<le> v" using assms(6) v(2) by (metis of_int_0_le_iff linorder_not_less mult_neg_pos)
  then show ?thesis using round_int_bounded [of v k j s] assms(3-5) v by auto
qed

lemma f_neg_num [simp]: "is_num (f_neg x) = is_num x" "f_val (f_neg x) = - f_val x"
  by (cases x; simp add: signed_mant_def)+

lemma f_div_bounded:
  assumes "is_num x" "is_num y" "0 \<le> f_val x" "0 < f_val y" "f_val x / f_val y \<le> 2 powi j" "- 1022 \<le> j" "j \<le> 1023"
    "x = FNum s m e" "y = FNum False n g" "0 \<le> m"
  shows "is_num (f_div x y) \<and> \<bar>f_val (f_div x y)\<bar> \<le> 2 powi j \<and> (\<not> s \<longrightarrow> 0 \<le> f_val (f_div x y))"
proof -
  have "\<not> (2::real) powi g < 0" by (simp add: not_less)
  then have n: "0 < n" using assms(4,9) by (auto simp: signed_mant_def zero_less_mult_iff)
  obtain N D where ND: "f_div x y = round_ratio s N D" "0 \<le> N" "0 < D"
    "real_of_int N / real_of_int D = real_of_int m * 2 powi e / (real_of_int n * 2 powi g)"
  proof (cases "g \<le> e")
    case True
    then show thesis using n assms(8-10) align_val [of g e m]
      by (intro that [of "m * 2 ^ nat (e - g)" n]) (auto simp: field_simps)
  next
    case False
    then show thesis using n assms(8-10) align_val [of e g n]
      by (intro that [of m "n * 2 ^ nat (g - e)"]) (auto simp: field_simps)
  qed
  show ?thesis
  proof (cases "N = 0")
    case True
    then show ?thesis using ND(1) by (simp add: round_ratio_def signed_mant_def)
  next
    case False
    have "\<bar>f_val x\<bar> / f_val y = real_of_int N / real_of_int D"
      unfolding ND(4) using assms(8-10) by (simp add: signed_mant_def abs_mult)
    then show ?thesis
      using round_ratio_bounded [of N D j s] ND False assms(3,5-7) by (auto simp: sgn_val_def)
  qed
qed

end
