(* ===== verification/Tc.thy ===== *)
theory Tc
  imports BufrState Go_Time Float_Rounding
begin

text \<open>
  Tropical cyclone tracks from decoded BUFR messages (\<open>wis2_adapter/app/tc/tc.go\<close>): a pass over the values
  of the first subset that accumulates forecast points, flushed at each time period.  The loops of \<open>normalizeDeg\<close>
  need not end, so what depends on them is an option, \<open>None\<close> when it does not return.
\<close>

section \<open>Quadrants\<close>

definition deg360 :: f64 where
  "deg360 = f_of_int 360"

partial_function (option) reduce_deg :: "f64 \<Rightarrow> f64 option" where
  "reduce_deg deg = (if f_le deg360 deg then reduce_deg (f_sub deg deg360) else Some deg)"

partial_function (option) raise_deg :: "f64 \<Rightarrow> f64 option" where
  "raise_deg deg = (if f_lt deg (f_of_int 0) then raise_deg (f_add deg deg360) else Some deg)"

definition normalize_deg :: "f64 \<Rightarrow> f64 option" where
  "normalize_deg deg = Option.bind (reduce_deg deg) raise_deg"

definition azimuth_to_quadrant :: "f64 \<Rightarrow> int" where
  "azimuth_to_quadrant deg =
     (if f_le (f_of_int 0) deg \<and> f_lt deg (f_of_int 90) then 0
      else if f_le (f_of_int 90) deg \<and> f_lt deg (f_of_int 180) then 1
      else if f_le (f_of_int 180) deg \<and> f_lt deg (f_of_int 270) then 2
      else if f_le (f_of_int 270) deg \<and> f_lt deg deg360 then 3
      else - 1)"

definition map_quadrant :: "f64 list \<Rightarrow> int option" where
  "map_quadrant bearings =
     (if 2 \<le> length bearings then
        Option.bind (normalize_deg (bearings ! (length bearings - 2))) (\<lambda>b1.
        Option.bind (normalize_deg (bearings ! (length bearings - 1))) (\<lambda>b2.
          let b2 = (if f_lt b2 b1 \<and> (f_eq b2 (f_of_int 0) \<or> f_lt b2 (f_of_int 90)) then f_add b2 deg360 else b2);
              mid = f_div (f_add b1 b2) (f_of_int 2)
          in map_option azimuth_to_quadrant (normalize_deg mid)))
      else if length bearings = 1 then
        map_option (\<lambda>b.
          if f_eq b (f_of_int 0) then 0
          else if f_eq b (f_of_int 90) then 1
          else if f_eq b (f_of_int 180) then 2
          else if f_eq b (f_of_int 270) then 3
          else azimuth_to_quadrant b) (normalize_deg (bearings ! 0))
      else Some (- 1))"

section \<open>Tracks\<close>

record wind_radii =
  wr_threshold_ms :: f64
  wr_radii_m :: "f64 option list"

record forecast_point =
  fp_lead_hours :: int
  fp_time :: string
  fp_lat :: f64
  fp_lon :: f64
  fp_mslp_pa :: "f64 option"
  fp_max_wind_ms :: "f64 option"
  fp_max_wind_lat :: "f64 option"
  fp_max_wind_lon :: "f64 option"
  fp_wind_radii :: "wind_radii list"

record storm_track =
  st_message_index :: int
  st_originating_centre :: int
  st_storm_id :: string
  st_storm_name :: "string option"
  st_ensemble_member :: "int option"
  st_analysis_time :: string
  st_points :: "forecast_point list"

text \<open>The local variables of \<open>ExtractStorm\<close>; the second record has the fields of the current point.\<close>

record tc_point =
  centre_lat :: "f64 option"
  centre_lon :: "f64 option"
  mslp_pa :: "f64 option"
  max_wind_lat :: "f64 option"
  max_wind_lon :: "f64 option"
  max_wind_ms :: "f64 option"
  wind_radii_list :: "wind_radii list"
  curr_threshold :: "f64 option"
  curr_radii :: "f64 option list"
  bearings_since_radius :: "f64 list"
  fallback_quadrant :: int

record tc_state =
  storm_id :: string
  storm_name :: "string option"
  ensemble_member :: "int option"
  tc_year :: int
  tc_month :: int
  tc_day :: int
  tc_hour :: int
  tc_minute :: int
  tc_second :: int
  has_year :: bool
  has_month :: bool
  has_day :: bool
  tc_points :: "forecast_point list"
  step_started :: bool
  lead_hours :: int
  curr_significance :: int
  tc_current :: tc_point

definition empty_point :: tc_point where
  "empty_point = \<lparr>centre_lat = None, centre_lon = None, mslp_pa = None, max_wind_lat = None, max_wind_lon = None,
     max_wind_ms = None, wind_radii_list = [], curr_threshold = None, curr_radii = [None, None, None, None],
     bearings_since_radius = [], fallback_quadrant = 0\<rparr>"

definition tc_init :: tc_state where
  "tc_init = \<lparr>storm_id = '''', storm_name = None, ensemble_member = None, tc_year = 0, tc_month = 0, tc_day = 0,
     tc_hour = 0, tc_minute = 0, tc_second = 0, has_year = False, has_month = False, has_day = False, tc_points = [],
     step_started = False, lead_hours = 0, curr_significance = 0, tc_current = empty_point\<rparr>"

definition flush_threshold :: "tc_point \<Rightarrow> tc_point" where
  "flush_threshold p =
     (case curr_threshold p of
        None \<Rightarrow> p
      | Some th \<Rightarrow> p\<lparr>wind_radii_list := wind_radii_list p @ [\<lparr>wr_threshold_ms = th, wr_radii_m = curr_radii p\<rparr>],
          curr_threshold := None, curr_radii := [None, None, None, None], bearings_since_radius := [], fallback_quadrant := 0\<rparr>)"

definition analysis_instant :: "tc_state \<Rightarrow> int" where
  "analysis_instant st = go_date (tc_year st) (tc_month st) (tc_day st) (tc_hour st) (tc_minute st) (tc_second st)"

text \<open>\<open>Add\<close> of \<open>time.Duration(leadHours) * time.Hour\<close>: nanoseconds in an \<open>int64\<close>; the layout prints whole seconds.\<close>

definition point_time :: "tc_state \<Rightarrow> string" where
  "point_time st = format_rfc3339 (analysis_instant st + s64 (lead_hours st * 3600000000000) div 1000000000)"

definition flush_point :: "tc_state \<Rightarrow> tc_state" where
  "flush_point st =
     (if \<not> step_started st then st
      else
        (let p = flush_threshold (tc_current st);
             points = (case (centre_lat p, centre_lon p) of
                 (Some lat, Some lon) \<Rightarrow>
                   if has_year st \<and> has_month st \<and> has_day st then
                     tc_points st @ [\<lparr>fp_lead_hours = lead_hours st, fp_time = point_time st, fp_lat = lat, fp_lon = lon,
                       fp_mslp_pa = mslp_pa p, fp_max_wind_ms = max_wind_ms p, fp_max_wind_lat = max_wind_lat p,
                       fp_max_wind_lon = max_wind_lon p, fp_wind_radii = wind_radii_list p\<rparr>]
                   else tc_points st
               | _ \<Rightarrow> tc_points st)
         in st\<lparr>tc_points := points, tc_current := empty_point\<rparr>))"


definition set_radius :: "f64 option \<Rightarrow> tc_point \<Rightarrow> tc_point option" where
  "set_radius radius p =
     map_option (\<lambda>q.
       let q = (if q < 0 \<or> 3 < q then fallback_quadrant p mod 4 else q)
       in p\<lparr>fallback_quadrant := (q + 1) mod 4, curr_radii := (curr_radii p)[nat q := radius], bearings_since_radius := []\<rparr>)
       (map_quadrant (bearings_since_radius p))"

text \<open>One value: the switch on its descriptor.\<close>

definition tc_header :: "int \<Rightarrow> int \<Rightarrow> bvalue \<Rightarrow> tc_state \<Rightarrow> tc_state" where
  "tc_header ovf code v st =
     (if code = 1025 then (case v_string v of Some s \<Rightarrow> st\<lparr>storm_id := trim_space s\<rparr> | None \<Rightarrow> st)
      else if code = 1027 then
        (case v_string v of
           Some s \<Rightarrow> if trim_space s \<noteq> '''' then st\<lparr>storm_name := Some (trim_space s)\<rparr> else st
         | None \<Rightarrow> st)
      else
        (case v_float v of
           None \<Rightarrow> st
         | Some x \<Rightarrow>
             let i = round_to_int ovf x in
             if code = 1091 then st\<lparr>ensemble_member := Some i\<rparr>
             else if code = 4001 then st\<lparr>tc_year := i, has_year := True\<rparr>
             else if code = 4002 then st\<lparr>tc_month := i, has_month := True\<rparr>
             else if code = 4003 then st\<lparr>tc_day := i, has_day := True\<rparr>
             else if code = 4004 then st\<lparr>tc_hour := i\<rparr>
             else if code = 4005 then st\<lparr>tc_minute := i\<rparr>
             else if code = 4006 then st\<lparr>tc_second := i\<rparr>
             else st))"

definition tc_step_mark :: "int \<Rightarrow> int \<Rightarrow> bvalue \<Rightarrow> tc_state \<Rightarrow> tc_state" where
  "tc_step_mark ovf code v st =
     (if code = 4024 then
        (let st = (flush_point st)\<lparr>step_started := True\<rparr>;
             st = (case v_float v of Some x \<Rightarrow> st\<lparr>lead_hours := round_to_int ovf x\<rparr> | None \<Rightarrow> st)
         in st\<lparr>curr_significance := 0\<rparr>)
      else
        (let st = (if step_started st then st else st\<lparr>step_started := True, lead_hours := 0\<rparr>)
         in case v_float v of Some x \<Rightarrow> st\<lparr>curr_significance := round_to_int ovf x\<rparr> | None \<Rightarrow> st))"

definition tc_point_value :: "int \<Rightarrow> int \<Rightarrow> bvalue \<Rightarrow> tc_point \<Rightarrow> tc_point option" where
  "tc_point_value signif code v p =
     (if code = 5002 then
        Some (if signif = 1 then p\<lparr>centre_lat := v_float v\<rparr> else if signif = 3 then p\<lparr>max_wind_lat := v_float v\<rparr> else p)
      else if code = 6002 then
        Some (if signif = 1 then p\<lparr>centre_lon := v_float v\<rparr> else if signif = 3 then p\<lparr>max_wind_lon := v_float v\<rparr> else p)
      else if code = 10051 then Some (if signif = 1 \<or> signif = 5 then p\<lparr>mslp_pa := v_float v\<rparr> else p)
      else if code = 11012 then Some (if signif = 3 then p\<lparr>max_wind_ms := v_float v\<rparr> else p)
      else if code = 19003 then
        (let p = flush_threshold p in Some (if v_float v = None then p else p\<lparr>curr_threshold := v_float v\<rparr>))
      else if code = 5021 then
        Some (case v_float v of Some x \<Rightarrow> p\<lparr>bearings_since_radius := bearings_since_radius p @ [x]\<rparr> | None \<Rightarrow> p)
      else if code = 19004 then set_radius (v_float v) p
      else Some p)"

definition tc_value :: "int \<Rightarrow> bvalue \<Rightarrow> tc_state \<Rightarrow> tc_state option" where
  "tc_value ovf v st =
     (let code = desc_code (v_desc v) in
      if code \<in> {1025, 1027, 1091, 4001, 4002, 4003, 4004, 4005, 4006} then Some (tc_header ovf code v st)
      else if code = 4024 \<or> code = 8005 then Some (tc_step_mark ovf code v st)
      else map_option (\<lambda>p. st\<lparr>tc_current := p\<rparr>) (tc_point_value (curr_significance st) code v (tc_current st)))"

fun tc_values :: "int \<Rightarrow> bvalue list \<Rightarrow> tc_state \<Rightarrow> tc_state option" where
  "tc_values ovf [] st = Some st"
| "tc_values ovf (v # vs) st = Option.bind (tc_value ovf v st) (tc_values ovf vs)"

definition finish_storm :: "message \<Rightarrow> int \<Rightarrow> tc_state \<Rightarrow> storm_track option" where
  "finish_storm msg messageIndex st =
     (if storm_id st = '''' \<or> tc_points st = [] \<or> \<not> has_year st \<or> \<not> has_month st \<or> \<not> has_day st then None
      else Some \<lparr>st_message_index = messageIndex, st_originating_centre = (if m_centre msg = 0 then 98 else m_centre msg),
        st_storm_id = storm_id st, st_storm_name = storm_name st, st_ensemble_member = ensemble_member st,
        st_analysis_time = format_rfc3339 (analysis_instant st), st_points = tc_points st\<rparr>)"

text \<open>\<open>None\<close>: the extraction does not return; \<open>Some None\<close>: it returns no track.\<close>

definition extract_storm :: "int \<Rightarrow> message \<Rightarrow> int \<Rightarrow> storm_track option option" where
  "extract_storm ovf msg messageIndex =
     (case m_subsets msg of
        [] \<Rightarrow> Some None
      | values # _ \<Rightarrow>
          if values = [] then Some None
          else map_option (\<lambda>st. finish_storm msg messageIndex (flush_point st)) (tc_values ovf values tc_init))"

fun extract_storms :: "int \<Rightarrow> int \<Rightarrow> message list \<Rightarrow> storm_track list option" where
  "extract_storms ovf i [] = Some []"
| "extract_storms ovf i (msg # msgs) =
     Option.bind (extract_storm ovf msg i) (\<lambda>track.
       map_option (\<lambda>tracks. (case track of Some t \<Rightarrow> [t] | None \<Rightarrow> []) @ tracks) (extract_storms ovf (i + 1) msgs))"

section \<open>The loops of \<open>normalizeDeg\<close>\<close>

lemma f_of_int_small:
  assumes "\<bar>i\<bar> < 2 ^ 53"
  shows "is_num (f_of_int i)" "f_val (f_of_int i) = real_of_int i"
  using round_int_exact [of i 0 i 0 False] assms by (simp_all add: f_of_int_def)

lemma deg360 [simp]: "is_num deg360" "f_val deg360 = 360" "f_ok deg360"
  unfolding deg360_def using f_of_int_small [of 360] round_int_ok [of False 360 0] by (simp_all only: f_of_int_def) simp_all






text \<open>A bearing so large that subtracting 360 does not change it is never reduced.\<close>

lemma reduce_deg_diverges:
  assumes "f_le deg360 x" "f_sub x deg360 = x"
  shows "reduce_deg x = None"
proof -
  have "d \<noteq> x" if "reduce_deg d = Some y" for d y
  proof (rule reduce_deg.raw_induct [where P = "\<lambda>d _. d \<noteq> x" and y = y])
    show "reduce_deg d = Some y" by (rule that)
  next
    fix f d y
    assume "\<And>d y. f d = Some y \<Longrightarrow> d \<noteq> x" "(if f_le deg360 d then f (f_sub d deg360) else Some d) = Some y"
    then show "d \<noteq> x" using assms by (auto split: if_split_asm)
  qed
  then show ?thesis by (cases "reduce_deg x") auto
qed

section \<open>The extraction returns\<close>


















section \<open>Properties\<close>


definition tc_demo_value :: "int \<Rightarrow> int \<Rightarrow> f64 option \<Rightarrow> bvalue" where
  "tc_demo_value x y v = float_entry \<lparr>dF = 0, dX = x, dY = y\<rparr> '''' '''' v"

definition tc_demo :: "f64 option \<Rightarrow> message" where
  "tc_demo bearing = empty_message\<lparr>m_subsets := [[
     string_entry \<lparr>dF = 0, dX = 1, dY = 25\<rparr> '''' '''' (Some ''06E''), tc_demo_value 4 1 (Some (f_of_int 2026)),
     tc_demo_value 4 2 (Some (f_of_int 7)), tc_demo_value 4 3 (Some (f_of_int 4)), tc_demo_value 8 5 (Some (f_of_int 1)),
     tc_demo_value 5 2 (Some (f_of_int 21)), tc_demo_value 6 2 (Some (f_of_int 130)),
     tc_demo_value 19 3 (Some (f_of_int 18)), tc_demo_value 5 21 bearing, tc_demo_value 19 4 (Some (f_of_int 90000))]]\<rparr>"


text \<open>The azimuth 0 05 021 has scale 2; operator 2 02 106 changes it by -22, so that the raw value 1 decodes to 10^20.\<close>

definition runaway_bearing :: f64 where
  "runaway_bearing = decode_number 1 0 (2 + (106 - 128))"

lemma runaway_bearing_stuck: "f_le deg360 runaway_bearing \<and> f_sub runaway_bearing deg360 = runaway_bearing"
  by code_simp

lemma normalize_runaway: "normalize_deg runaway_bearing = None"
  using reduce_deg_diverges runaway_bearing_stuck by (simp add: normalize_deg_def)

lemma map_quadrant_runaway: "map_quadrant (bs @ [runaway_bearing]) = None"
proof (cases "bs = []")
  case False
  then have "Suc (Suc 0) \<le> Suc (length bs)" by (cases bs) auto
  then show ?thesis by (simp add: map_quadrant_def normalize_runaway nth_append numeral_2_eq_2 Option.bind_eq_None_conv)
qed (simp add: map_quadrant_def normalize_runaway)

lemma tc_values_append: "tc_values ovf (xs @ ys) st = Option.bind (tc_values ovf xs st) (tc_values ovf ys)"
proof (induction xs arbitrary: st)
  case (Cons x xs)
  then show ?case by (cases "tc_value ovf x st") simp_all
qed simp

text \<open>C17: A message can stop the extraction: with a bearing of 10^20, which the decoder yields for an azimuth of raw value 1
  under the operator 2 02 106, followed by a radius, the first loop of \<open>normalizeDeg\<close> never ends, because subtracting 360
  from so large a double does not change it, whatever comes before and after.\<close>

theorem extract_storm_diverges:
  assumes "m_subsets msg = (before @ v # w # after) # rest"
    "desc_code (v_desc v) = 5021" "v_float v = Some runaway_bearing" "desc_code (v_desc w) = 19004"
  shows "extract_storm ovf msg i = None"
proof -
  have "tc_values ovf (v # w # after) st = None" for st
    using assms(2-4) by (simp add: tc_value_def tc_point_value_def set_radius_def map_quadrant_runaway)
  then have "tc_values ovf (before @ v # w # after) tc_init = None"
    by (simp only: tc_values_append) (cases "tc_values ovf before tc_init", simp_all del: tc_values.simps)
  then show ?thesis using assms(1) by (simp add: extract_storm_def)
qed

theorem extract_storm_diverges_witness:
  "extract_storm 0 (tc_demo (Some runaway_bearing)) 0 = None"
  by (rule extract_storm_diverges [where before = "take 8 (hd (m_subsets (tc_demo None)))" and after = "[]" and rest = "[]"
        and v = "tc_demo_value 5 21 (Some runaway_bearing)" and w = "tc_demo_value 19 4 (Some (f_of_int 90000))"])
    (simp_all add: tc_demo_def tc_demo_value_def float_entry_def desc_code_def)

end
