(* ===== verification/Synop.thy ===== *)
theory Synop
  imports BufrState Go_Time
begin

text \<open>
  Surface observations from decoded BUFR messages (\<open>wis2_adapter/app/synop/synop.go\<close>): one pass over the values of
  a subset, then the checks that reject a subset without station, position or time.
\<close>

section \<open>The model\<close>

record precip_item =
  pr_period_h :: f64
  pr_mm :: f64

record observation =
  ob_data_id :: string
  ob_centre_id :: string
  ob_pub_time :: string
  ob_station_id :: string
  ob_station_name :: "string option"
  ob_lat :: f64
  ob_lon :: f64
  ob_elevation_m :: "f64 option"
  ob_observed_at :: string
  ob_wind_speed_ms :: "f64 option"
  ob_gust_ms :: "f64 option"
  ob_gust_period_min :: "int option"
  ob_precip :: "precip_item list"
  ob_mslp_pa :: "f64 option"

text \<open>The local variables of \<open>ExtractObservationWithReason\<close>.\<close>

record synop_state =
  sy_wigos_series :: "int option"
  sy_wigos_issuer :: "int option"
  sy_wigos_issue_no :: "int option"
  sy_wigos_local :: "string option"
  sy_block :: "int option"
  sy_station :: "int option"
  sy_station_name :: "string option"
  sy_lat :: "f64 option"
  sy_lon :: "f64 option"
  sy_elevation :: "f64 option"
  sy_year :: "int option"
  sy_month :: "int option"
  sy_day :: "int option"
  sy_hour :: "int option"
  sy_minute :: "int option"
  sy_second :: "int option"
  sy_recent_period_min :: "int option"
  sy_recent_period_h :: "f64 option"
  sy_mslp :: "f64 option"
  sy_wind :: "f64 option"
  sy_gust :: "f64 option"
  sy_gust_period :: "int option"
  sy_precip :: "precip_item list"
  sy_seen_periods :: "f64 list"

definition synop_init :: synop_state where
  "synop_init = \<lparr>sy_wigos_series = None, sy_wigos_issuer = None, sy_wigos_issue_no = None, sy_wigos_local = None,
     sy_block = None, sy_station = None, sy_station_name = None, sy_lat = None, sy_lon = None, sy_elevation = None,
     sy_year = None, sy_month = None, sy_day = None, sy_hour = None, sy_minute = None, sy_second = None,
     sy_recent_period_min = None, sy_recent_period_h = None, sy_mslp = None, sy_wind = None, sy_gust = None,
     sy_gust_period = None, sy_precip = [], sy_seen_periods = []\<rparr>"

definition synop_ident :: "int \<Rightarrow> int \<Rightarrow> bvalue \<Rightarrow> synop_state \<Rightarrow> synop_state" where
  "synop_ident ovf code v st =
     (let i = map_option (round_to_int ovf) (v_float v) in
      if code = 1128 then
        (let s = (case v_string v of
             Some s \<Rightarrow> trim_space s
           | None \<Rightarrow> (case i of Some n \<Rightarrow> show_int n | None \<Rightarrow> ''''))
         in if s \<noteq> '''' then st\<lparr>sy_wigos_local := Some s\<rparr> else st)
      else if code = 1015 \<or> code = 1019 then
        (case (sy_station_name st, v_string v) of
           (None, Some s) \<Rightarrow> if trim_space s \<noteq> '''' then st\<lparr>sy_station_name := Some (trim_space s)\<rparr> else st
         | _ \<Rightarrow> st)
      else if i = None then st
      else if code = 1125 then st\<lparr>sy_wigos_series := i\<rparr>
      else if code = 1126 then st\<lparr>sy_wigos_issuer := i\<rparr>
      else if code = 1127 then st\<lparr>sy_wigos_issue_no := i\<rparr>
      else if code = 1001 then st\<lparr>sy_block := i\<rparr>
      else if code = 1002 then st\<lparr>sy_station := i\<rparr>
      else if code = 4001 then st\<lparr>sy_year := i\<rparr>
      else if code = 4002 then st\<lparr>sy_month := i\<rparr>
      else if code = 4003 then st\<lparr>sy_day := i\<rparr>
      else if code = 4004 then st\<lparr>sy_hour := i\<rparr>
      else if code = 4005 then st\<lparr>sy_minute := i\<rparr>
      else if code = 4006 then st\<lparr>sy_second := i\<rparr>
      else st)"

definition first_of :: "'a option \<Rightarrow> 'a option \<Rightarrow> 'a option" where
  "first_of old new = (if old = None then new else old)"

definition synop_period :: "int \<Rightarrow> int \<Rightarrow> f64 option \<Rightarrow> synop_state \<Rightarrow> synop_state" where
  "synop_period ovf code x st =
     (case x of
        None \<Rightarrow> st\<lparr>sy_recent_period_h := None, sy_recent_period_min := None\<rparr>
      | Some x \<Rightarrow>
          if code = 4024 then
            st\<lparr>sy_recent_period_h := Some (f_abs x),
               sy_recent_period_min := Some (round_to_int ovf (f_mul (f_abs x) (f_of_int 60)))\<rparr>
          else
            st\<lparr>sy_recent_period_min := Some (round_to_int ovf (f_abs x)),
               sy_recent_period_h := Some (f_div (f_abs x) (f_of_int 60))\<rparr>)"

definition add_precip :: "f64 \<Rightarrow> f64 \<Rightarrow> synop_state \<Rightarrow> synop_state" where
  "add_precip period mm st =
     (if list_ex (f_eq period) (sy_seen_periods st) then st
      else st\<lparr>sy_seen_periods := period # sy_seen_periods st,
        sy_precip := sy_precip st @ [\<lparr>pr_period_h = period, pr_mm = mm\<rparr>]\<rparr>)"

definition add_gust :: "f64 \<Rightarrow> synop_state \<Rightarrow> synop_state" where
  "add_gust spd st =
     (if sy_gust st = None \<or> f_lt (the (sy_gust st)) spd
      then st\<lparr>sy_gust := Some spd, sy_gust_period := sy_recent_period_min st\<rparr> else st)"

definition synop_measure :: "int \<Rightarrow> f64 option \<Rightarrow> synop_state \<Rightarrow> synop_state" where
  "synop_measure code x st =
     (if code = 5001 \<or> code = 5002 then st\<lparr>sy_lat := first_of (sy_lat st) x\<rparr>
      else if code = 6001 \<or> code = 6002 then st\<lparr>sy_lon := first_of (sy_lon st) x\<rparr>
      else if code = 7030 \<or> code = 7001 then st\<lparr>sy_elevation := first_of (sy_elevation st) x\<rparr>
      else if code = 10051 then st\<lparr>sy_mslp := first_of (sy_mslp st) x\<rparr>
      else if code = 11002 \<or> code = 11012 then st\<lparr>sy_wind := first_of (sy_wind st) x\<rparr>
      else
        (case x of
           None \<Rightarrow> st
         | Some x \<Rightarrow>
             if code = 11041 then add_gust x st
             else if code = 13023 then add_precip (f_of_int 24) x st
             else if code = 13011 then
               (case sy_recent_period_h st of
                  Some h \<Rightarrow>
                    if f_lt (f_of_int 0) h
                    then add_precip (f_div (f_round (f_mul h (f_of_int 1000))) (f_of_int 1000)) x st
                    else st
                | None \<Rightarrow> st)
             else st))"

definition synop_value :: "int \<Rightarrow> bvalue \<Rightarrow> synop_state \<Rightarrow> synop_state" where
  "synop_value ovf v st =
     (let code = desc_code (v_desc v) in
      if code \<in> {1125, 1126, 1127, 1128, 1001, 1002, 1015, 1019, 4001, 4002, 4003, 4004, 4005, 4006}
      then synop_ident ovf code v st
      else if code = 4024 \<or> code = 4025 then synop_period ovf code (v_float v) st
      else synop_measure code (v_float v) st)"

definition station_id :: "synop_state \<Rightarrow> string" where
  "station_id st =
     (case (sy_wigos_series st, sy_wigos_issuer st, sy_wigos_issue_no st, sy_wigos_local st) of
        (Some a, Some b, Some c, Some l) \<Rightarrow>
          show_int a @ ''-'' @ show_int b @ ''-'' @ show_int c @ ''-'' @ l
      | _ \<Rightarrow>
          (case (sy_block st, sy_station st) of
             (Some b, Some s) \<Rightarrow> ''0-20000-0-'' @ show_int0 2 b @ show_int0 3 s
           | _ \<Rightarrow> ''''))"

definition time_in_range :: "int \<Rightarrow> int \<Rightarrow> int \<Rightarrow> int \<Rightarrow> int \<Rightarrow> bool" where
  "time_in_range month day hour minute sec \<longleftrightarrow> \<not> (month < 1 \<or> 12 < month \<or> day < 1 \<or> 31 < day \<or> hour < 0 \<or> 23 < hour
     \<or> minute < 0 \<or> 59 < minute \<or> sec < 0 \<or> 59 < sec)"

text \<open>The checks after the pass: \<open>Inl\<close> is the reason of a rejection.\<close>

definition finish_observation :: "string \<Rightarrow> string \<Rightarrow> string \<Rightarrow> synop_state \<Rightarrow> (string, observation) result" where
  "finish_observation dataID centreID pubTime st =
     (if station_id st = '''' then Inl ''missing_station_id''
      else case (sy_lat st, sy_lon st) of
        (Some lat, Some lon) \<Rightarrow>
          (case (sy_year st, sy_month st, sy_day st, sy_hour st, sy_minute st) of
             (Some year, Some month, Some day, Some hour, Some minute) \<Rightarrow>
               (let sec = (case sy_second st of Some s \<Rightarrow> s | None \<Rightarrow> 0) in
                if \<not> time_in_range month day hour minute sec then Inl ''missing_time''
                else Inr \<lparr>ob_data_id = dataID, ob_centre_id = centreID, ob_pub_time = pubTime, ob_station_id = station_id st,
                  ob_station_name = sy_station_name st, ob_lat = lat, ob_lon = lon, ob_elevation_m = sy_elevation st,
                  ob_observed_at = format_rfc3339 (go_date year month day hour minute sec),
                  ob_wind_speed_ms = sy_wind st, ob_gust_ms = sy_gust st, ob_gust_period_min = sy_gust_period st,
                  ob_precip = sy_precip st, ob_mslp_pa = sy_mslp st\<rparr>)
           | _ \<Rightarrow> Inl ''missing_time'')
      | _ \<Rightarrow> Inl ''missing_coordinates'')"

definition extract_observation :: "int \<Rightarrow> bvalue list \<Rightarrow> string \<Rightarrow> string \<Rightarrow> string \<Rightarrow> (string, observation) result" where
  "extract_observation ovf vs dataID centreID pubTime =
     finish_observation dataID centreID pubTime (fold (synop_value ovf) vs synop_init)"

fun extract_observations :: "int \<Rightarrow> bvalue list list \<Rightarrow> string \<Rightarrow> string \<Rightarrow> string \<Rightarrow> observation list \<times> string list" where
  "extract_observations ovf [] dataID centreID pubTime = ([], [])"
| "extract_observations ovf (vs # vss) dataID centreID pubTime =
     (let (features, rejections) = extract_observations ovf vss dataID centreID pubTime in
      case extract_observation ovf vs dataID centreID pubTime of
        Inl reason \<Rightarrow> (features, reason # rejections)
      | Inr feat \<Rightarrow> (feat # features, rejections))"

section \<open>What the pass accumulates\<close>

definition measured :: "int list \<Rightarrow> bvalue list \<Rightarrow> f64 \<Rightarrow> bool" where
  "measured cs vs x \<longleftrightarrow> (\<exists>v \<in> set vs. desc_code (v_desc v) \<in> set cs \<and> v_float v = Some x)"

text \<open>
  What a message says about precipitation, read off without the pass: the period an amount is for is that of
  the last period descriptor before it, in hours, or minutes divided by 60, to the thousandth of an hour; the
  24-hour amount has its period in its own descriptor.
\<close>

definition is_period :: "bvalue \<Rightarrow> bool" where
  "is_period v \<longleftrightarrow> desc_code (v_desc v) = 4024 \<or> desc_code (v_desc v) = 4025"

definition hours_of :: "bvalue \<Rightarrow> f64 option" where
  "hours_of v = map_option (\<lambda>x. if desc_code (v_desc v) = 4024 then f_abs x else f_div (f_abs x) (f_of_int 60)) (v_float v)"

definition period_before :: "bvalue list \<Rightarrow> f64 option" where
  "period_before vs = (case find is_period (rev vs) of None \<Rightarrow> None | Some v \<Rightarrow> hours_of v)"

definition amount_reported :: "bvalue list \<Rightarrow> bvalue \<Rightarrow> precip_item \<Rightarrow> bool" where
  "amount_reported before v p \<longleftrightarrow> v_float v = Some (pr_mm p)
     \<and> (desc_code (v_desc v) = 13023 \<and> pr_period_h p = f_of_int 24
        \<or> desc_code (v_desc v) = 13011
          \<and> (\<exists>h. period_before before = Some h \<and> f_lt (f_of_int 0) h
                \<and> pr_period_h p = f_div (f_round (f_mul h (f_of_int 1000))) (f_of_int 1000)))"

definition precip_reported :: "bvalue list \<Rightarrow> precip_item \<Rightarrow> bool" where
  "precip_reported vs p \<longleftrightarrow> (\<exists>before v after. vs = before @ v # after \<and> amount_reported before v p)"

definition precip_inv :: "bvalue list \<Rightarrow> synop_state \<Rightarrow> bool" where
  "precip_inv vs st \<longleftrightarrow> set (sy_seen_periods st) = pr_period_h ` set (sy_precip st)
     \<and> sorted_wrt (\<lambda>a b. \<not> f_eq (pr_period_h b) (pr_period_h a)) (sy_precip st)
     \<and> (\<forall>p \<in> set (sy_precip st). precip_reported vs p)
     \<and> (\<forall>p. precip_reported vs p \<longrightarrow>
          p \<in> set (sy_precip st) \<or> (\<exists>q \<in> set (sy_precip st). f_eq (pr_period_h p) (pr_period_h q)))"

definition period_inv :: "bvalue list \<Rightarrow> synop_state \<Rightarrow> bool" where
  "period_inv vs st \<longleftrightarrow> sy_recent_period_h st = period_before vs"

definition gust_inv :: "bvalue list \<Rightarrow> synop_state \<Rightarrow> bool" where
  "gust_inv vs st \<longleftrightarrow>
     (case sy_gust st of
        None \<Rightarrow> \<forall>x. \<not> measured [11041] vs x
      | Some g \<Rightarrow> measured [11041] vs g \<and> (\<forall>x. measured [11041] vs x \<longrightarrow> \<not> f_lt g x))"

lemma measured_snoc:
  "measured cs (vs @ [v]) x \<longleftrightarrow> measured cs vs x \<or> desc_code (v_desc v) \<in> set cs \<and> v_float v = Some x"
  by (auto simp: measured_def)

lemma precip_reported_snoc: "precip_reported (vs @ [v]) p \<longleftrightarrow> precip_reported vs p \<or> amount_reported vs v p"
proof -
  have "(\<exists>before w after. vs @ [v] = before @ w # after \<and> P before w) \<longleftrightarrow>
      (\<exists>before w after. vs = before @ w # after \<and> P before w) \<or> P vs v" for P :: "bvalue list \<Rightarrow> bvalue \<Rightarrow> bool"
  proof (intro iffI; (elim exE conjE disjE)?)
    fix before w after assume "vs @ [v] = before @ w # after" "P before w"
    then show "(\<exists>before w after. vs = before @ w # after \<and> P before w) \<or> P vs v"
      by (cases after rule: rev_cases) auto
  next
    fix before w after assume "vs = before @ w # after" "P before w"
    then show "\<exists>before w after. vs @ [v] = before @ w # after \<and> P before w" by (metis append.assoc append_Cons)
  qed blast
  then show ?thesis by (simp add: precip_reported_def)
qed

lemma period_before_snoc: "period_before (vs @ [v]) = (if is_period v then hours_of v else period_before vs)"
  by (simp add: period_before_def)

lemma precip_inv_frame:
  "precip_inv vs st \<Longrightarrow> sy_seen_periods st' = sy_seen_periods st \<Longrightarrow> sy_precip st' = sy_precip st \<Longrightarrow>
    (\<And>p. \<not> amount_reported vs v p) \<Longrightarrow> precip_inv (vs @ [v]) st'"
  by (auto simp: precip_inv_def precip_reported_snoc)

lemma gust_inv_frame:
  "gust_inv vs st \<Longrightarrow> sy_gust st' = sy_gust st \<Longrightarrow> desc_code (v_desc v) = 11041 \<Longrightarrow> v_float v = None \<Longrightarrow> gust_inv (vs @ [v]) st'"
  "gust_inv vs st \<Longrightarrow> sy_gust st' = sy_gust st \<Longrightarrow> desc_code (v_desc v) \<noteq> 11041 \<Longrightarrow> gust_inv (vs @ [v]) st'"
  by (cases "sy_gust st"; auto simp: gust_inv_def measured_snoc)+

lemma add_precip_inv:
  assumes "precip_inv vs st" "\<And>p. amount_reported vs v p \<longleftrightarrow> p = \<lparr>pr_period_h = period, pr_mm = mm\<rparr>"
  shows "precip_inv (vs @ [v]) (add_precip period mm st)"
proof (cases "list_ex (f_eq period) (sy_seen_periods st)")
  case False
  then have "\<forall>p \<in> set (sy_precip st). \<not> f_eq period (pr_period_h p)"
    using assms(1) by (auto simp: precip_inv_def list_ex_iff)
  then show ?thesis using False assms
    by (auto simp: add_precip_def precip_inv_def sorted_wrt_append precip_reported_snoc)
next
  case True
  then have "\<exists>q \<in> set (sy_precip st). f_eq period (pr_period_h q)"
    using assms(1) by (auto simp: precip_inv_def list_ex_iff)
  then show ?thesis using True assms by (auto simp: add_precip_def precip_inv_def precip_reported_snoc)
qed

lemma add_gust_inv:
  assumes "gust_inv vs st" "desc_code (v_desc v) = 11041" "v_float v = Some x"
  shows "gust_inv (vs @ [v]) (add_gust x st)"
proof (cases "sy_gust st")
  case None
  then show ?thesis using assms f_lt_irrefl by (auto simp: gust_inv_def add_gust_def measured_snoc)
next
  case (Some g)
  have "\<not> f_lt x y" if "f_lt g x" "measured [11041] vs y" for y
    using that assms(1) Some f_lt_trans [of g x y] by (auto simp: gust_inv_def)
  then show ?thesis using Some assms f_lt_irrefl by (auto simp: gust_inv_def add_gust_def measured_snoc)
qed

lemma add_frames [simp]:
  "sy_gust (add_precip p mm st) = sy_gust st" "sy_precip (add_gust x st) = sy_precip st"
  "sy_seen_periods (add_gust x st) = sy_seen_periods st"
  by (simp_all add: add_precip_def add_gust_def)

lemma ident_frames [simp]:
  "sy_gust (synop_ident ovf code v st) = sy_gust st" "sy_precip (synop_ident ovf code v st) = sy_precip st"
  "sy_seen_periods (synop_ident ovf code v st) = sy_seen_periods st"
  by (simp_all add: synop_ident_def Let_def split: option.split)

lemma period_frames [simp]:
  "sy_gust (synop_period ovf code x st) = sy_gust st" "sy_precip (synop_period ovf code x st) = sy_precip st"
  "sy_seen_periods (synop_period ovf code x st) = sy_seen_periods st"
  by (simp_all add: synop_period_def split: option.split)

lemma recent_frames [simp]:
  "sy_recent_period_h (synop_ident ovf code v st) = sy_recent_period_h st"
  "sy_recent_period_h (synop_measure code x st) = sy_recent_period_h st"
  by (simp_all add: synop_ident_def synop_measure_def add_gust_def add_precip_def Let_def split: option.split)

lemma synop_value_period:
  assumes "period_inv vs st"
  shows "period_inv (vs @ [v]) (synop_value ovf v st)"
proof (cases "is_period v")
  case True
  then show ?thesis
    by (cases "v_float v")
      (auto simp: is_period_def period_inv_def period_before_snoc synop_value_def synop_period_def hours_of_def)
next
  case False
  then show ?thesis using assms
    by (auto simp: is_period_def period_inv_def period_before_snoc synop_value_def Let_def)
qed

lemma precip_item_eq: "p = \<lparr>pr_period_h = a, pr_mm = b\<rparr> \<longleftrightarrow> pr_period_h p = a \<and> pr_mm p = b"
  by (cases p) simp

lemma synop_value_precip:
  assumes "precip_inv vs st" "period_inv vs st"
  shows "precip_inv (vs @ [v]) (synop_value ovf v st)"
proof (cases "desc_code (v_desc v) \<in> {13023, 13011} \<and> v_float v \<noteq> None")
  case True
  then obtain x where x: "v_float v = Some x" by blast
  from True consider (day) "desc_code (v_desc v) = 13023" | (period) "desc_code (v_desc v) = 13011" by blast
  then show ?thesis
  proof cases
    case day
    then have "precip_inv (vs @ [v]) (add_precip (f_of_int 24) x st)"
      by (intro add_precip_inv [OF assms(1)]) (auto simp: amount_reported_def precip_item_eq x)
    then show ?thesis using day x by (simp add: synop_value_def synop_measure_def)
  next
    case period
    have eq: "synop_value ovf v st = (case period_before vs of
        Some h \<Rightarrow> if f_lt (f_of_int 0) h then add_precip (f_div (f_round (f_mul h (f_of_int 1000))) (f_of_int 1000)) x st else st
      | None \<Rightarrow> st)"
      using period x assms(2) by (simp add: synop_value_def synop_measure_def period_inv_def)
    show ?thesis
    proof (cases "\<exists>h. period_before vs = Some h \<and> f_lt (f_of_int 0) h")
      case True
      then show ?thesis unfolding eq using period x
        by (auto simp: amount_reported_def precip_item_eq intro!: add_precip_inv [OF assms(1)])
    next
      case False
      then have "\<not> amount_reported vs v p" for p using period by (auto simp: amount_reported_def)
      then show ?thesis unfolding eq using False
        by (auto intro!: precip_inv_frame [OF assms(1)] split: option.split)
    qed
  qed
next
  case False
  then have "sy_seen_periods (synop_value ovf v st) = sy_seen_periods st" "sy_precip (synop_value ovf v st) = sy_precip st"
    by (auto simp: synop_value_def synop_measure_def Let_def split: option.split)
  moreover have "\<not> amount_reported vs v p" for p using False by (auto simp: amount_reported_def)
  ultimately show ?thesis by (rule precip_inv_frame [OF assms(1)])
qed

lemma synop_value_gust:
  assumes "gust_inv vs st"
  shows "gust_inv (vs @ [v]) (synop_value ovf v st)"
proof (cases "desc_code (v_desc v) = 11041")
  case True
  then show ?thesis
    using add_gust_inv [OF assms, of v] gust_inv_frame(1) [OF assms, of st v]
    by (cases "v_float v") (simp_all add: synop_value_def synop_measure_def)
next
  case False
  then have "sy_gust (synop_value ovf v st) = sy_gust st"
    by (auto simp: synop_value_def synop_measure_def Let_def split: option.split)
  then show ?thesis using False by (intro gust_inv_frame(2) [OF assms])
qed

lemma synop_fold_inv:
  "period_inv vs (fold (synop_value ovf) vs synop_init) \<and> precip_inv vs (fold (synop_value ovf) vs synop_init)
   \<and> gust_inv vs (fold (synop_value ovf) vs synop_init)"
proof (induction vs rule: rev_induct)
  case Nil
  then show ?case
    by (simp add: period_inv_def period_before_def precip_inv_def precip_reported_def gust_inv_def synop_init_def measured_def)
next
  case (snoc v vs)
  then show ?case using synop_value_period synop_value_precip synop_value_gust by simp
qed

lemma finish_observation_Inr:
  assumes "finish_observation d c p st = Inr obs"
  shows "ob_precip obs = sy_precip st" "ob_gust_ms obs = sy_gust st" "ob_station_id obs = station_id st" "station_id st \<noteq> ''''"
    "\<exists>year month day hour minute sec. time_in_range month day hour minute sec
      \<and> ob_observed_at obs = format_rfc3339 (go_date year month day hour minute sec)
      \<and> sy_year st = Some year \<and> sy_month st = Some month \<and> sy_day st = Some day \<and> sy_hour st = Some hour
      \<and> sy_minute st = Some minute \<and> sec = (case sy_second st of Some s \<Rightarrow> s | None \<Rightarrow> 0)"
  using assms by (auto simp: finish_observation_def Let_def split: option.splits if_split_asm)

section \<open>Properties\<close>

text \<open>C18: An observation the adapter accepts has a station identifier; each of its precipitation amounts is one the message
  reports, for the period the message reports it for (24 hours, or the last period descriptor before the amount, minutes
  being divided by 60); no two are for the same period, and a period the message reports an amount for is never left out;
  its gust is one the message reports and no other reported gust exceeds it, and it has none only if the message has none.\<close>

theorem accepted_observation:
  assumes "extract_observation ovf vs dataID centreID pubTime = Inr obs"
  shows "ob_station_id obs \<noteq> ''''
    \<and> sorted_wrt (\<lambda>a b. \<not> f_eq (pr_period_h b) (pr_period_h a)) (ob_precip obs)
    \<and> (\<forall>p \<in> set (ob_precip obs). precip_reported vs p)
    \<and> (\<forall>p. precip_reported vs p \<longrightarrow>
         p \<in> set (ob_precip obs) \<or> (\<exists>q \<in> set (ob_precip obs). f_eq (pr_period_h p) (pr_period_h q)))
    \<and> (case ob_gust_ms obs of
         None \<Rightarrow> \<forall>x. \<not> measured [11041] vs x
       | Some g \<Rightarrow> measured [11041] vs g \<and> (\<forall>x. measured [11041] vs x \<longrightarrow> \<not> f_lt g x))"
  using synop_fold_inv [of vs ovf] finish_observation_Inr [OF assms [unfolded extract_observation_def]]
  by (simp add: precip_inv_def gust_inv_def)

definition synop_demo_value :: "int \<Rightarrow> int \<Rightarrow> int \<Rightarrow> bvalue" where
  "synop_demo_value x y n = float_entry \<lparr>dF = 0, dX = x, dY = y\<rparr> '''' '''' (Some (f_of_int n))"

definition synop_demo :: "bvalue list" where
  "synop_demo = [synop_demo_value 1 1 3, synop_demo_value 1 2 772, synop_demo_value 4 1 2026, synop_demo_value 4 2 2,
     synop_demo_value 4 3 31, synop_demo_value 4 4 12, synop_demo_value 4 5 0, synop_demo_value 5 1 51,
     synop_demo_value 6 1 0, synop_demo_value 11 41 17, synop_demo_value 11 41 21, synop_demo_value 13 23 4]"

text \<open>The demonstration subset is dated 31 February: the range check accepts it.\<close>

lemma synop_demo_accepted:
  "case extract_observation 0 synop_demo ''d'' ''c'' ''p'' of
     Inl _ \<Rightarrow> False
   | Inr obs \<Rightarrow> ob_gust_ms obs = Some (f_of_int 21) \<and> ob_observed_at obs = ''2026-03-03T12:00:00Z''"
  by code_simp

theorem accepted_observation_witness:
  "\<exists>obs. extract_observation 0 synop_demo ''d'' ''c'' ''p'' = Inr obs \<and> ob_station_id obs \<noteq> ''''"
proof -
  obtain obs where obs: "extract_observation 0 synop_demo ''d'' ''c'' ''p'' = Inr obs"
    using synop_demo_accepted by (auto split: sum.splits)
  then show ?thesis using accepted_observation [OF obs] by blast
qed

end
