(* ===== verification/Go_Slices.thy ===== *)
theory Go_Slices
  imports Main
begin

text \<open>
  Go slices on an explicit store: a slice is a window of an array, slicing shares the array, and \<open>append\<close> writes
  into it while the capacity lasts and copies it otherwise.  The capacity of a copy is the runtime's choice: any
  \<open>grow\<close> is allowed, and at least the new length is taken.
\<close>

record slice =
  sl_arr :: nat
  sl_off :: nat
  sl_len :: nat
  sl_cap :: nat

record 'a store =
  st_arrays :: "nat \<Rightarrow> 'a list"
  st_next :: nat

definition read_slice :: "'a store \<Rightarrow> slice \<Rightarrow> 'a list" where
  "read_slice h s = take (sl_len s) (drop (sl_off s) (st_arrays h (sl_arr s)))"

text \<open>\<open>s[k:]\<close> and \<open>s[:k]\<close>; the capacity of the latter is that of \<open>s\<close>.\<close>

definition slice_from :: "nat \<Rightarrow> slice \<Rightarrow> slice" where
  "slice_from k s = s\<lparr>sl_off := sl_off s + k, sl_len := sl_len s - k, sl_cap := sl_cap s - k\<rparr>"

definition slice_to :: "nat \<Rightarrow> slice \<Rightarrow> slice" where
  "slice_to k s = s\<lparr>sl_len := k\<rparr>"

definition write_at :: "nat \<Rightarrow> 'a list \<Rightarrow> 'a list \<Rightarrow> 'a list" where
  "write_at i xs ys = take i ys @ xs @ drop (i + length xs) ys"

definition append_slice :: "(nat \<Rightarrow> nat) \<Rightarrow> 'a \<Rightarrow> slice \<Rightarrow> 'a list \<Rightarrow> 'a store \<Rightarrow> slice \<times> 'a store" where
  "append_slice grow z s xs h =
     (let n = sl_len s + length xs in
      if n \<le> sl_cap s then
        (s\<lparr>sl_len := n\<rparr>,
         h\<lparr>st_arrays := (st_arrays h)(sl_arr s := write_at (sl_off s + sl_len s) xs (st_arrays h (sl_arr s)))\<rparr>)
      else
        (let c = max n (grow n) in
         (\<lparr>sl_arr = st_next h, sl_off = 0, sl_len = n, sl_cap = c\<rparr>,
          h\<lparr>st_arrays := (st_arrays h)(st_next h := read_slice h s @ xs @ replicate (c - n) z), st_next := st_next h + 1\<rparr>)))"

text \<open>A slice of the store: within its array.\<close>

definition slice_ok :: "'a store \<Rightarrow> slice \<Rightarrow> bool" where
  "slice_ok h s \<longleftrightarrow> sl_arr s < st_next h \<and> sl_len s \<le> sl_cap s \<and> sl_off s + sl_cap s \<le> length (st_arrays h (sl_arr s))"

text \<open>The window of one slice ends before another one begins, or they are in different arrays.\<close>

definition before :: "slice \<Rightarrow> slice \<Rightarrow> bool" where
  "before f s \<longleftrightarrow> sl_arr f \<noteq> sl_arr s \<or> sl_off f + sl_len f \<le> sl_off s"

lemma length_read [simp]: "slice_ok h s \<Longrightarrow> length (read_slice h s) = sl_len s"
  by (auto simp: slice_ok_def read_slice_def)

lemma slice_from_ok: "slice_ok h s \<Longrightarrow> k \<le> sl_len s \<Longrightarrow> slice_ok h (slice_from k s)"
  by (auto simp: slice_ok_def slice_from_def)

lemma slice_to_ok: "slice_ok h s \<Longrightarrow> k \<le> sl_cap s \<Longrightarrow> slice_ok h (slice_to k s)"
  by (simp add: slice_ok_def slice_to_def)

lemma read_slice_from: "read_slice h (slice_from k s) = drop k (read_slice h s)"
  by (simp add: read_slice_def slice_from_def drop_take add.commute)

lemma read_slice_to: "k \<le> sl_len s \<Longrightarrow> read_slice h (slice_to k s) = take k (read_slice h s)"
  by (simp add: read_slice_def slice_to_def min_def)

lemma length_write_at: "i + length xs \<le> length ys \<Longrightarrow> length (write_at i xs ys) = length ys"
  by (simp add: write_at_def)

lemma write_at_own:
  assumes "i + n + length xs \<le> length ys"
  shows "take (n + length xs) (drop i (write_at (i + n) xs ys)) = take n (drop i ys) @ xs"
proof -
  have "take (i + n) ys = take i ys @ take n (drop i ys)" by (simp add: take_add)
  then show ?thesis using assms by (simp add: write_at_def)
qed

lemma write_at_other:
  assumes "i + n \<le> j" "j + length xs \<le> length ys"
  shows "take n (drop i (write_at j xs ys)) = take n (drop i ys)"
proof -
  have "drop i (write_at j xs ys) = take (j - i) (drop i ys) @ xs @ drop (j + length xs) ys"
    using assms by (simp add: write_at_def drop_take)
  moreover have "length (take (j - i) (drop i ys)) = j - i" "n - (j - i) = 0" "min n (j - i) = n" using assms by auto
  ultimately show ?thesis by (simp only: take_append take_take) simp
qed

lemma before_from: "before f s \<Longrightarrow> before f (slice_from k s)"
  by (auto simp: before_def slice_from_def)

lemma before_split: "k \<le> sl_len s \<Longrightarrow> before (slice_to k s) (slice_from k s)"
  by (simp add: before_def slice_to_def slice_from_def)

text \<open>What \<open>append\<close> does to the slice it extends, and to a slice that ends before it.\<close>

lemma append_slice_own:
  assumes "slice_ok h s" "append_slice grow z s xs h = (s', h')"
  shows "slice_ok h' s'" "read_slice h' s' = read_slice h s @ xs" "sl_len s' = sl_len s + length xs"
proof -
  have len: "length (read_slice h s) = sl_len s" using assms(1) by simp
  show "slice_ok h' s'"
    using assms len by (auto simp: append_slice_def Let_def slice_ok_def length_write_at split: if_split_asm)
  show "read_slice h' s' = read_slice h s @ xs"
  proof (cases "sl_len s + length xs \<le> sl_cap s")
    case True
    then have "sl_off s + sl_len s + length xs \<le> length (st_arrays h (sl_arr s))" using assms(1) by (simp add: slice_ok_def)
    then show ?thesis
      using True assms(2) write_at_own by (auto simp: append_slice_def read_slice_def)
  next
    case False
    then have "s' = \<lparr>sl_arr = st_next h, sl_off = 0, sl_len = sl_len s + length xs,
        sl_cap = max (sl_len s + length xs) (grow (sl_len s + length xs))\<rparr>"
      "\<exists>rest. st_arrays h' (st_next h) = read_slice h s @ xs @ rest"
      using assms(2) by (auto simp: append_slice_def Let_def)
    then show ?thesis using len by (auto simp: read_slice_def [of h'])
  qed
  show "sl_len s' = sl_len s + length xs"
    using assms(2) by (auto simp: append_slice_def Let_def split: if_split_asm)
qed

lemma append_slice_other:
  assumes "slice_ok h f" "slice_ok h s" "before f s" "append_slice grow z s xs h = (s', h')"
  shows "slice_ok h' f" "read_slice h' f = read_slice h f" "before f s'"
proof -
  show "slice_ok h' f"
    using assms by (auto simp: append_slice_def Let_def slice_ok_def length_write_at split: if_split_asm)
  show "read_slice h' f = read_slice h f"
  proof (cases "sl_len s + length xs \<le> sl_cap s \<and> sl_arr f = sl_arr s")
    case True
    then have "sl_off f + sl_len f \<le> sl_off s + sl_len s" using assms(3) by (auto simp: before_def)
    moreover have "sl_off s + sl_len s + length xs \<le> length (st_arrays h (sl_arr s))"
      using True assms(2) by (simp add: slice_ok_def)
    ultimately show ?thesis
      using True assms(4) write_at_other by (auto simp: append_slice_def read_slice_def)
  next
    case False
    then have "st_arrays h' (sl_arr f) = st_arrays h (sl_arr f)"
      using assms by (auto simp: append_slice_def Let_def slice_ok_def split: if_split_asm)
    then show ?thesis by (simp add: read_slice_def)
  qed
  show "before f s'"
    using assms by (auto simp: append_slice_def Let_def before_def slice_ok_def split: if_split_asm)
qed

end
