(* ===== verification/ObsQueue.thy ===== *)
theory ObsQueue
  imports Go_Slices Prelude
begin

text \<open>
  The WIS2 adapter's queue of observations (\<open>enqueueObservationFeature\<close> and \<open>flushObsBatch\<close> in
  \<open>wis2_adapter/app/controller/controller.go\<close>), on Go slices with their sharing.  A flush takes a batch off the queue
  under the mutex, sends it outside, and puts it back at the head when the core did not take it;
  workers and the ticker may have several flushes in flight.  Its abstract specification is the queue as a list.
\<close>

section \<open>The model\<close>

type_synonym feature = string

definition obsBatchLimit :: nat where
  "obsBatchLimit = 500"

definition defaultObsQueueCap :: int where
  "defaultObsQueueCap = 5000"

record obs_queue =
  oq_store :: "feature store"
  oq_batch :: slice
  oq_cap :: int
  oq_dropped :: int

definition new_obs_queue :: "int \<Rightarrow> obs_queue" where
  "new_obs_queue queueCap =
     \<lparr>oq_store = \<lparr>st_arrays = (\<lambda>_. [])(0 := replicate obsBatchLimit ''''), st_next = 1\<rparr>,
      oq_batch = \<lparr>sl_arr = 0, sl_off = 0, sl_len = 0, sl_cap = obsBatchLimit\<rparr>,
      oq_cap = queueCap, oq_dropped = 0\<rparr>"

text \<open>Slicing past the length is a panic: \<open>None\<close>.\<close>

definition drop_oldest :: "int \<Rightarrow> obs_queue \<Rightarrow> obs_queue option" where
  "drop_oldest excess q =
     (if excess < 0 \<or> int (sl_len (oq_batch q)) < excess then None
      else Some (q\<lparr>oq_batch := slice_from (nat excess) (oq_batch q), oq_dropped := oq_dropped q + excess\<rparr>))"

definition append_to :: "(nat \<Rightarrow> nat) \<Rightarrow> slice \<Rightarrow> feature list \<Rightarrow> obs_queue \<Rightarrow> obs_queue" where
  "append_to grow s xs q =
     (let (s', h) = append_slice grow '''' s xs (oq_store q) in q\<lparr>oq_batch := s', oq_store := h\<rparr>)"

text \<open>The queue after the feature is appended, and whether a flush is due.\<close>

definition enqueue_observation :: "(nat \<Rightarrow> nat) \<Rightarrow> feature \<Rightarrow> obs_queue \<Rightarrow> (obs_queue \<times> bool) option" where
  "enqueue_observation grow b q =
     (let n = int (sl_len (oq_batch q)) in
      map_option (\<lambda>q. let q = append_to grow (oq_batch q) [b] q in (q, obsBatchLimit \<le> sl_len (oq_batch q)))
        (if oq_cap q \<le> n then drop_oldest (n - oq_cap q + 1) q else Some q))"

text \<open>\<open>flushObsBatch\<close> up to the send: the batch taken, unless the queue is empty.\<close>

definition take_batch :: "obs_queue \<Rightarrow> (slice \<times> obs_queue) option" where
  "take_batch q =
     (let n = sl_len (oq_batch q) in
      if n = 0 then None
      else
        (let limit = (if n < obsBatchLimit then n else obsBatchLimit)
         in Some (slice_to limit (oq_batch q), q\<lparr>oq_batch := slice_from limit (oq_batch q)\<rparr>)))"

text \<open>After a send that failed: the batch goes back to the head.\<close>

definition requeue_batch :: "(nat \<Rightarrow> nat) \<Rightarrow> slice \<Rightarrow> obs_queue \<Rightarrow> obs_queue option" where
  "requeue_batch grow batch q =
     (let q = append_to grow batch (read_slice (oq_store q) (oq_batch q)) q;
          n = int (sl_len (oq_batch q))
      in if oq_cap q < n then drop_oldest (n - oq_cap q) q else Some q)"

text \<open>
  The queue with the flushes in flight and what was sent.  The request body is written at some moment
  between taking the batch and the outcome.
\<close>

record obs_sys =
  os_queue :: obs_queue
  os_flights :: "slice list"
  os_sent :: "feature list list"
  os_accepted :: nat

datatype obs_op = Enqueue feature | Take | Sent nat | Failed nat

definition remove_nth :: "nat \<Rightarrow> 'a list \<Rightarrow> 'a list" where
  "remove_nth i xs = take i xs @ drop (i + 1) xs"

definition obs_step :: "(nat \<Rightarrow> nat) \<Rightarrow> obs_op \<Rightarrow> obs_sys \<Rightarrow> obs_sys option" where
  "obs_step grow op s =
     (case op of
        Enqueue b \<Rightarrow>
          map_option (\<lambda>(q, _). s\<lparr>os_queue := q, os_accepted := os_accepted s + 1\<rparr>) (enqueue_observation grow b (os_queue s))
      | Take \<Rightarrow>
          (case take_batch (os_queue s) of
             None \<Rightarrow> Some s
           | Some (batch, q) \<Rightarrow> Some (s\<lparr>os_queue := q, os_flights := os_flights s @ [batch]\<rparr>))
      | Sent i \<Rightarrow>
          if i < length (os_flights s) then
            Some (s\<lparr>os_flights := remove_nth i (os_flights s),
              os_sent := os_sent s @ [read_slice (oq_store (os_queue s)) (os_flights s ! i)]\<rparr>)
          else None
      | Failed i \<Rightarrow>
          if i < length (os_flights s) then
            map_option (\<lambda>q. s\<lparr>os_queue := q, os_flights := remove_nth i (os_flights s)\<rparr>)
              (requeue_batch grow (os_flights s ! i) (os_queue s))
          else None)"

fun obs_run :: "(nat \<Rightarrow> nat) \<Rightarrow> obs_op list \<Rightarrow> obs_sys \<Rightarrow> obs_sys option" where
  "obs_run grow [] s = Some s"
| "obs_run grow (op # ops) s = Option.bind (obs_step grow op s) (obs_run grow ops)"

definition start_obs :: "int \<Rightarrow> obs_sys" where
  "start_obs queueCap = \<lparr>os_queue = new_obs_queue queueCap, os_flights = [], os_sent = [], os_accepted = 0\<rparr>"

section \<open>The abstract queue\<close>

record list_queue =
  lq_queue :: "feature list"
  lq_flights :: "feature list list"
  lq_sent :: "feature list list"
  lq_dropped :: int
  lq_accepted :: nat

definition cut_oldest :: "nat \<Rightarrow> list_queue \<Rightarrow> list_queue" where
  "cut_oldest queueCap a =
     (let excess = length (lq_queue a) - queueCap
      in a\<lparr>lq_queue := drop excess (lq_queue a), lq_dropped := lq_dropped a + int excess\<rparr>)"

definition list_step :: "nat \<Rightarrow> obs_op \<Rightarrow> list_queue \<Rightarrow> list_queue option" where
  "list_step queueCap op a =
     (case op of
        Enqueue b \<Rightarrow> Some (cut_oldest queueCap (a\<lparr>lq_queue := lq_queue a @ [b], lq_accepted := lq_accepted a + 1\<rparr>))
      | Take \<Rightarrow>
          if lq_queue a = [] then Some a
          else Some (a\<lparr>lq_queue := drop obsBatchLimit (lq_queue a), lq_flights := lq_flights a @ [take obsBatchLimit (lq_queue a)]\<rparr>)
      | Sent i \<Rightarrow>
          if i < length (lq_flights a) then
            Some (a\<lparr>lq_flights := remove_nth i (lq_flights a), lq_sent := lq_sent a @ [lq_flights a ! i]\<rparr>)
          else None
      | Failed i \<Rightarrow>
          if i < length (lq_flights a) then
            Some (cut_oldest queueCap (a\<lparr>lq_queue := lq_flights a ! i @ lq_queue a, lq_flights := remove_nth i (lq_flights a)\<rparr>))
          else None)"

text \<open>The abstraction: what the slices read as.\<close>

definition abs_queue :: "obs_sys \<Rightarrow> list_queue" where
  "abs_queue s =
     \<lparr>lq_queue = read_slice (oq_store (os_queue s)) (oq_batch (os_queue s)),
      lq_flights = map (read_slice (oq_store (os_queue s))) (os_flights s),
      lq_sent = os_sent s, lq_dropped = oq_dropped (os_queue s), lq_accepted = os_accepted s\<rparr>"

fun list_run :: "nat \<Rightarrow> obs_op list \<Rightarrow> list_queue \<Rightarrow> list_queue option" where
  "list_run queueCap [] a = Some a"
| "list_run queueCap (op # ops) a = Option.bind (list_step queueCap op a) (list_run queueCap ops)"

definition start_list :: list_queue where
  "start_list = \<lparr>lq_queue = [], lq_flights = [], lq_sent = [], lq_dropped = 0, lq_accepted = 0\<rparr>"

section \<open>Nothing is lost but what is counted\<close>

definition accounted :: "list_queue \<Rightarrow> bool" where
  "accounted a \<longleftrightarrow> int (lq_accepted a) = int (length (lq_queue a)) + int (length (concat (lq_flights a)))
     + int (length (concat (lq_sent a))) + lq_dropped a"

lemma length_remove_nth:
  assumes "i < length xs"
  shows "length (concat xs) = length (xs ! i) + length (concat (remove_nth i xs))"
proof -
  have "xs = take i xs @ xs ! i # drop (i + 1) xs" using assms by (simp add: Cons_nth_drop_Suc)
  then have "concat xs = concat (take i xs) @ xs ! i @ concat (drop (i + 1) xs)" by (metis concat.simps(2) concat_append)
  then show ?thesis by (simp add: remove_nth_def)
qed

lemma cut_oldest_accounted: "accounted a \<Longrightarrow> accounted (cut_oldest c a)"
  by (auto simp: accounted_def cut_oldest_def Let_def)

lemma cut_oldest_bound: "length (lq_queue (cut_oldest c a)) \<le> c"
  by (simp add: cut_oldest_def Let_def)

lemma list_step_accounted:
  assumes "accounted a" "list_step c op a = Some a'"
  shows "accounted a'"
proof (cases op)
  case (Enqueue b)
  have "accounted (a\<lparr>lq_queue := lq_queue a @ [b], lq_accepted := lq_accepted a + 1\<rparr>)"
    using assms(1) by (simp add: accounted_def)
  from cut_oldest_accounted [OF this] show ?thesis using Enqueue assms(2) by (auto simp: list_step_def)
next
  case Take
  then show ?thesis using assms by (auto simp: list_step_def accounted_def split: if_split_asm)
next
  case (Sent i)
  then show ?thesis using assms length_remove_nth [of i "lq_flights a"]
    by (auto simp: list_step_def accounted_def split: if_split_asm)
next
  case (Failed i)
  then have i: "i < length (lq_flights a)" using assms(2) by (simp add: list_step_def split: if_split_asm)
  then have "accounted (a\<lparr>lq_queue := lq_flights a ! i @ lq_queue a, lq_flights := remove_nth i (lq_flights a)\<rparr>)"
    using assms(1) length_remove_nth [OF i] by (simp add: accounted_def)
  from cut_oldest_accounted [OF this] show ?thesis using Failed assms(2) i by (auto simp: list_step_def)
qed

lemma list_step_bound:
  "list_step c op a = Some a' \<Longrightarrow> length (lq_queue a) \<le> c \<Longrightarrow> length (lq_queue a') \<le> c"
  by (cases op) (auto simp: list_step_def cut_oldest_bound split: if_split_asm)

lemma list_run_accounted:
  "list_run c ops a = Some a' \<Longrightarrow> accounted a \<Longrightarrow> length (lq_queue a) \<le> c \<Longrightarrow> accounted a' \<and> length (lq_queue a') \<le> c"
proof (induction ops arbitrary: a)
  case (Cons op ops)
  then obtain b where "list_step c op a = Some b" "list_run c ops b = Some a'" by (auto simp: bind_eq_Some_conv)
  then show ?case using Cons.IH [of b] Cons.prems(2,3) list_step_accounted list_step_bound by blast
qed simp

section \<open>Refinement with one flush at a time\<close>

text \<open>Runs in which no batch is taken while another one is in flight.\<close>

fun serial_run :: "(nat \<Rightarrow> nat) \<Rightarrow> obs_op list \<Rightarrow> obs_sys \<Rightarrow> obs_sys option" where
  "serial_run grow [] s = Some s"
| "serial_run grow (op # ops) s =
     (if op = Take \<and> os_flights s \<noteq> [] then None
      else Option.bind (obs_step grow op s) (serial_run grow ops))"

definition obs_inv :: "nat \<Rightarrow> obs_sys \<Rightarrow> bool" where
  "obs_inv c s \<longleftrightarrow> oq_cap (os_queue s) = int c \<and> slice_ok (oq_store (os_queue s)) (oq_batch (os_queue s))
     \<and> length (os_flights s) \<le> 1
     \<and> (\<forall>f \<in> set (os_flights s). slice_ok (oq_store (os_queue s)) f \<and> before f (oq_batch (os_queue s)))"

lemma drop_oldest_some:
  assumes "0 \<le> excess" "excess \<le> int (sl_len (oq_batch q))" "slice_ok (oq_store q) (oq_batch q)"
  obtains q' where "drop_oldest excess q = Some q'" "oq_store q' = oq_store q" "oq_cap q' = oq_cap q"
    "oq_batch q' = slice_from (nat excess) (oq_batch q)" "slice_ok (oq_store q') (oq_batch q')"
    "read_slice (oq_store q') (oq_batch q') = drop (nat excess) (read_slice (oq_store q) (oq_batch q))"
    "oq_dropped q' = oq_dropped q + excess"
  using assms slice_from_ok [OF assms(3), of "nat excess"]
  by (intro that [of "q\<lparr>oq_batch := slice_from (nat excess) (oq_batch q), oq_dropped := oq_dropped q + excess\<rparr>"])
    (auto simp: drop_oldest_def read_slice_from)

lemma append_to_own:
  assumes "slice_ok (oq_store q) s" "q' = append_to grow s xs q"
  shows "slice_ok (oq_store q') (oq_batch q')" "read_slice (oq_store q') (oq_batch q') = read_slice (oq_store q) s @ xs"
    "sl_len (oq_batch q') = sl_len s + length xs" "oq_cap q' = oq_cap q" "oq_dropped q' = oq_dropped q"
proof -
  obtain s' h where a: "append_slice grow '''' s xs (oq_store q) = (s', h)" by fastforce
  note own = append_slice_own [OF assms(1) a]
  show "slice_ok (oq_store q') (oq_batch q')" "read_slice (oq_store q') (oq_batch q') = read_slice (oq_store q) s @ xs"
    "sl_len (oq_batch q') = sl_len s + length xs" "oq_cap q' = oq_cap q" "oq_dropped q' = oq_dropped q"
    using own assms(2) a by (simp_all add: append_to_def)
qed

lemma append_to_other:
  assumes "slice_ok (oq_store q) f" "slice_ok (oq_store q) (oq_batch q)" "before f (oq_batch q)"
    "q' = append_to grow (oq_batch q) xs q"
  shows "slice_ok (oq_store q') f" "read_slice (oq_store q') f = read_slice (oq_store q) f" "before f (oq_batch q')"
proof -
  obtain s' h where a: "append_slice grow '''' (oq_batch q) xs (oq_store q) = (s', h)" by fastforce
  show "slice_ok (oq_store q') f" "read_slice (oq_store q') f = read_slice (oq_store q) f" "before f (oq_batch q')"
    using append_slice_other [OF assms(1-3) a] assms(4) a by (simp_all add: append_to_def)
qed

lemma enqueue_refines:
  assumes "obs_inv c s" "1 \<le> c"
  shows "\<exists>s'. obs_step grow (Enqueue b) s = Some s' \<and> obs_inv c s' \<and> list_step c (Enqueue b) (abs_queue s) = Some (abs_queue s')"
proof -
  let ?q = "os_queue s" and ?n = "int (sl_len (oq_batch (os_queue s)))"
  have inv: "oq_cap ?q = int c" "slice_ok (oq_store ?q) (oq_batch ?q)" "length (os_flights s) \<le> 1"
    "\<forall>f \<in> set (os_flights s). slice_ok (oq_store ?q) f \<and> before f (oq_batch ?q)" using assms(1) by (auto simp: obs_inv_def)
  let ?k = "sl_len (oq_batch ?q) + 1 - c"
  obtain q1 where q1: "(if oq_cap ?q \<le> ?n then drop_oldest (?n - oq_cap ?q + 1) ?q else Some ?q) = Some q1"
    "oq_store q1 = oq_store ?q" "oq_cap q1 = oq_cap ?q" "slice_ok (oq_store q1) (oq_batch q1)"
    "read_slice (oq_store q1) (oq_batch q1) = drop ?k (read_slice (oq_store ?q) (oq_batch ?q))"
    "oq_dropped q1 = oq_dropped ?q + int ?k" "\<forall>f \<in> set (os_flights s). before f (oq_batch q1)"
  proof (cases "oq_cap ?q \<le> ?n")
    case True
    then have "0 \<le> ?n - oq_cap ?q + 1" "?n - oq_cap ?q + 1 \<le> ?n" "nat (?n - oq_cap ?q + 1) = ?k"
      "?n - oq_cap ?q + 1 = int ?k" using inv(1) assms(2) by auto
    then show thesis using drop_oldest_some [of "?n - oq_cap ?q + 1" ?q] inv True before_from that by metis
  next
    case False
    then have "?k = 0" using inv(1) by simp
    then show thesis using that [of ?q] False inv by simp
  qed
  define q2 where "q2 = append_to grow (oq_batch q1) [b] q1"
  note own = append_to_own [OF q1(4) q2_def]
  have other: "slice_ok (oq_store q2) f \<and> read_slice (oq_store q2) f = read_slice (oq_store ?q) f \<and> before f (oq_batch q2)"
    if "f \<in> set (os_flights s)" for f
    using append_to_other [OF _ q1(4) _ q2_def, of f] that inv(4) q1(2,7) by simp
  let ?s = "s\<lparr>os_queue := q2, os_accepted := os_accepted s + 1\<rparr>"
  have "obs_step grow (Enqueue b) s = Some ?s"
    using q1(1) by (simp add: obs_step_def enqueue_observation_def Let_def q2_def)
  moreover have "obs_inv c ?s" using own other inv q1(3) by (auto simp: obs_inv_def)
  moreover have "?k = length (read_slice (oq_store ?q) (oq_batch ?q)) + 1 - c" using inv(2) by simp
  then have "list_step c (Enqueue b) (abs_queue s) = Some (abs_queue ?s)"
    using own other q1(5,6) assms(2) by (simp add: list_step_def abs_queue_def cut_oldest_def Let_def)
  ultimately show ?thesis by blast
qed

lemma take_refines:
  assumes "obs_inv c s" "os_flights s = []"
  shows "\<exists>s'. obs_step grow Take s = Some s' \<and> obs_inv c s' \<and> list_step c Take (abs_queue s) = Some (abs_queue s')"
proof -
  let ?q = "os_queue s" and ?b = "oq_batch (os_queue s)" and ?h = "oq_store (os_queue s)"
  have ok: "slice_ok ?h ?b" and len: "length (read_slice ?h ?b) = sl_len ?b" using assms(1) by (simp_all add: obs_inv_def)
  show ?thesis
  proof (cases "sl_len ?b = 0")
    case True
    then have "read_slice ?h ?b = []" using len by simp
    then show ?thesis using True assms by (simp add: obs_step_def take_batch_def list_step_def abs_queue_def)
  next
    case False
    define k where "k = (if sl_len ?b < obsBatchLimit then sl_len ?b else obsBatchLimit)"
    have k: "k \<le> sl_len ?b" "sl_len ?b \<le> sl_cap ?b" using ok by (auto simp: k_def slice_ok_def)
    have cut: "take k (read_slice ?h ?b) = take obsBatchLimit (read_slice ?h ?b)"
      "drop k (read_slice ?h ?b) = drop obsBatchLimit (read_slice ?h ?b)"
      using len by (auto simp: k_def)
    let ?s = "s\<lparr>os_queue := ?q\<lparr>oq_batch := slice_from k ?b\<rparr>, os_flights := [slice_to k ?b]\<rparr>"
    have "obs_step grow Take s = Some ?s"
      using False assms(2) by (simp add: obs_step_def take_batch_def Let_def k_def)
    moreover have "obs_inv c ?s"
      using assms(1) k ok slice_from_ok [OF ok k(1)] slice_to_ok [OF ok] before_split [OF k(1)]
      by (simp add: obs_inv_def)
    moreover have "read_slice ?h ?b \<noteq> []" using False len by fastforce
    then have "list_step c Take (abs_queue s) = Some (abs_queue ?s)"
      using assms(2) cut k(1) by (simp add: list_step_def abs_queue_def read_slice_from read_slice_to)
    ultimately show ?thesis by blast
  qed
qed

lemma sent_refines:
  assumes "obs_inv c s" "obs_step grow (Sent i) s = Some s'"
  shows "obs_inv c s' \<and> list_step c (Sent i) (abs_queue s) = Some (abs_queue s')"
proof -
  have "i < length (os_flights s)" using assms(2) by (simp add: obs_step_def split: if_split_asm)
  then obtain f where "os_flights s = [f]" "i = 0" using assms(1) by (auto simp: obs_inv_def le_Suc_eq length_Suc_conv)
  then show ?thesis using assms by (auto simp: obs_step_def obs_inv_def list_step_def abs_queue_def remove_nth_def)
qed

lemma failed_refines:
  assumes "obs_inv c s" "1 \<le> c" "i < length (os_flights s)"
  shows "\<exists>s'. obs_step grow (Failed i) s = Some s' \<and> obs_inv c s' \<and> list_step c (Failed i) (abs_queue s) = Some (abs_queue s')"
proof -
  let ?q = "os_queue s"
  obtain f where f: "os_flights s = [f]" "i = 0" using assms(1,3) by (auto simp: obs_inv_def le_Suc_eq length_Suc_conv)
  have inv: "oq_cap ?q = int c" "slice_ok (oq_store ?q) f" "slice_ok (oq_store ?q) (oq_batch ?q)" using assms(1) f by (auto simp: obs_inv_def)
  define xs where "xs = read_slice (oq_store ?q) (oq_batch ?q)"
  define q1 where "q1 = append_to grow f xs ?q"
  note own = append_to_own [OF inv(2) q1_def]
  let ?n = "int (sl_len (oq_batch q1))" and ?k = "sl_len (oq_batch q1) - c"
  obtain q2 where q2: "(if oq_cap q1 < ?n then drop_oldest (?n - oq_cap q1) q1 else Some q1) = Some q2"
    "oq_cap q2 = oq_cap q1" "slice_ok (oq_store q2) (oq_batch q2)"
    "read_slice (oq_store q2) (oq_batch q2) = drop ?k (read_slice (oq_store q1) (oq_batch q1))"
    "oq_dropped q2 = oq_dropped q1 + int ?k"
  proof (cases "oq_cap q1 < ?n")
    case True
    then have "0 \<le> ?n - oq_cap q1" "?n - oq_cap q1 \<le> ?n" "nat (?n - oq_cap q1) = ?k" "?n - oq_cap q1 = int ?k"
      using inv(1) own(4) by auto
    then show thesis using drop_oldest_some [of "?n - oq_cap q1" q1] own(1) True that by metis
  next
    case False
    then have "?k = 0" using inv(1) own(4) by simp
    then show thesis using that [of q1] False own by simp
  qed
  let ?s = "s\<lparr>os_queue := q2, os_flights := []\<rparr>"
  have "requeue_batch grow f ?q = Some q2"
    unfolding requeue_batch_def Let_def xs_def [symmetric] q1_def [symmetric] by (rule q2(1))
  then have "obs_step grow (Failed i) s = Some ?s"
    using f by (simp add: obs_step_def remove_nth_def)
  moreover have "obs_inv c ?s" using q2 own(4) inv(1) by (simp add: obs_inv_def)
  moreover have "?k = length (read_slice (oq_store ?q) f @ xs) - c" using own(3) inv(2) by (simp add: xs_def inv(3))
  then have "list_step c (Failed i) (abs_queue s) = Some (abs_queue ?s)"
    using q2(4,5) own(2,5) f by (simp add: list_step_def abs_queue_def cut_oldest_def Let_def remove_nth_def xs_def)
  ultimately show ?thesis by blast
qed

lemma serial_step_refines:
  assumes "obs_inv c s" "1 \<le> c" "op = Take \<Longrightarrow> os_flights s = []" "obs_step grow op s = Some s'"
  shows "obs_inv c s' \<and> list_step c op (abs_queue s) = Some (abs_queue s')"
proof (cases op)
  case (Enqueue b)
  then show ?thesis using enqueue_refines [OF assms(1,2), of grow b] assms(4) by auto
next
  case Take
  then show ?thesis using take_refines [OF assms(1), of grow] assms(3,4) by auto
next
  case (Sent i)
  then show ?thesis using sent_refines [OF assms(1)] assms(4) by simp
next
  case (Failed i)
  then have "i < length (os_flights s)" using assms(4) by (simp add: obs_step_def split: if_split_asm)
  then show ?thesis using Failed failed_refines [OF assms(1,2), of i grow] assms(4) by auto
qed

lemma serial_run_refines:
  assumes "serial_run grow ops s = Some s'" "obs_inv c s" "1 \<le> c"
  shows "list_run c ops (abs_queue s) = Some (abs_queue s')"
  using assms
proof (induction ops arbitrary: s)
  case (Cons op ops)
  then obtain t where t: "obs_step grow op s = Some t" "serial_run grow ops t = Some s'" "op = Take \<Longrightarrow> os_flights s = []"
    by (auto simp: bind_eq_Some_conv split: if_split_asm)
  then show ?case using serial_step_refines [OF Cons.prems(2,3) t(3,1)] Cons.IH [OF t(2)] Cons.prems(3) by simp
qed simp

lemma start_obs_inv: "obs_inv c (start_obs (int c))" "abs_queue (start_obs (int c)) = start_list"
  by (simp_all add: obs_inv_def start_obs_def new_obs_queue_def slice_ok_def abs_queue_def start_list_def read_slice_def)

section \<open>Properties\<close>

text \<open>C19: As long as one flush is in flight at a time, the queue on shared slices behaves as a list: the oldest observations are
  taken, a batch that failed goes back to the head, whatever arrived meanwhile follows it, the queue never
  exceeds its cap, and every accepted observation is queued, in flight, sent, or counted as dropped.\<close>

theorem serial_queue_refines_list:
  assumes "1 \<le> c" "serial_run grow ops (start_obs (int c)) = Some s"
  shows "list_run c ops start_list = Some (abs_queue s) \<and> length (lq_queue (abs_queue s)) \<le> c \<and> accounted (abs_queue s)"
proof -
  have "list_run c ops start_list = Some (abs_queue s)"
    using serial_run_refines [OF assms(2) start_obs_inv(1) assms(1)] by (simp add: start_obs_inv)
  then show ?thesis using list_run_accounted [of c ops start_list "abs_queue s"] by (simp add: start_list_def accounted_def)
qed

theorem serial_queue_refines_list_witness:
  "\<exists>s. serial_run (\<lambda>n. 2 * n) [Enqueue ''a'', Enqueue ''b'', Take, Enqueue ''c'', Failed 0] (start_obs (int 2)) = Some s
     \<and> lq_queue (abs_queue s) = [''b'', ''c''] \<and> lq_dropped (abs_queue s) = 1"
proof -
  let ?ops = "[Enqueue ''a'', Enqueue ''b'', Take, Enqueue ''c'', Failed 0]"
  have "serial_run (\<lambda>n. 2 * n) ?ops (start_obs (int 2)) \<noteq> None"
    by (simp add: obs_step_def start_obs_def new_obs_queue_def enqueue_observation_def append_to_def append_slice_def
        take_batch_def requeue_batch_def drop_oldest_def slice_from_def slice_to_def obsBatchLimit_def Let_def remove_nth_def
        read_slice_def write_at_def)
  then obtain s where s: "serial_run (\<lambda>n. 2 * n) ?ops (start_obs (int 2)) = Some s" by auto
  have "list_run 2 ?ops start_list = Some (abs_queue s)" using serial_queue_refines_list [OF _ s] by simp
  then have "abs_queue s = the (list_run 2 ?ops start_list)" by simp
  also have "\<dots> = \<lparr>lq_queue = [''b'', ''c''], lq_flights = [], lq_sent = [], lq_dropped = 1, lq_accepted = 3\<rparr>"
    by (simp add: list_step_def start_list_def cut_oldest_def Let_def remove_nth_def obsBatchLimit_def)
  finally show ?thesis using s by simp
qed

lemma enqueue_all:
  assumes "obs_inv c s" "1 \<le> c" "length (lq_queue (abs_queue s)) + length xs \<le> c"
  shows "\<exists>s'. obs_run grow (map Enqueue xs) s = Some s' \<and> obs_inv c s' \<and> abs_queue s' =
    (abs_queue s)\<lparr>lq_queue := lq_queue (abs_queue s) @ xs, lq_accepted := lq_accepted (abs_queue s) + length xs\<rparr>"
  using assms
proof (induction xs arbitrary: s)
  case Nil
  then show ?case by simp
next
  case (Cons x xs)
  obtain t where t: "obs_step grow (Enqueue x) s = Some t" "obs_inv c t"
    "list_step c (Enqueue x) (abs_queue s) = Some (abs_queue t)"
    using enqueue_refines [OF Cons.prems(1,2)] by blast
  have "(abs_queue s)\<lparr>lq_accepted := lq_accepted (abs_queue s) + 1, lq_queue := lq_queue (abs_queue s) @ [x]\<rparr> = abs_queue t"
    using t(3) Cons.prems(3) by (auto simp: list_step_def cut_oldest_def Let_def)
  then have abs: "abs_queue t = (abs_queue s)\<lparr>lq_queue := lq_queue (abs_queue s) @ [x], lq_accepted := lq_accepted (abs_queue s) + 1\<rparr>"
    by (cases "abs_queue s") simp
  then show ?case using Cons.IH [OF t(2) Cons.prems(2)] Cons.prems(3) t(1) by auto
qed

text \<open>Two batches in flight that both fail: putting the first back overwrites the second in the array they share.\<close>

lemma two_failures:
  assumes "obs_inv c s" "os_flights s = []" "xs = lq_queue (abs_queue s)" "3 * obsBatchLimit \<le> length xs" "length xs \<le> c"
  shows "\<exists>s'. obs_run grow [Take, Take, Failed 0, Failed 0] s = Some s' \<and>
    abs_queue s' = (abs_queue s)\<lparr>lq_queue :=
      take obsBatchLimit (drop (2 * obsBatchLimit) xs) @ take obsBatchLimit xs @ drop (2 * obsBatchLimit) xs\<rparr>"
proof -
  let ?q = "os_queue s" and ?h = "oq_store (os_queue s)" and ?b = "oq_batch (os_queue s)" and ?L = obsBatchLimit
  have ok: "slice_ok ?h ?b" and cap: "oq_cap ?q = int c" and xs: "read_slice ?h ?b = xs"
    using assms(1,3) by (simp_all add: obs_inv_def abs_queue_def)
  then have len: "sl_len ?b = length xs" by auto
  have pos: "0 < ?L" by (simp add: obsBatchLimit_def)
  have room: "length xs \<le> sl_cap ?b" "sl_off ?b + sl_cap ?b \<le> length (st_arrays ?h (sl_arr ?b))"
    using ok len by (simp_all add: slice_ok_def)
  let ?A = "slice_to ?L ?b" and ?B = "slice_to ?L (slice_from ?L ?b)" and ?R = "slice_from ?L (slice_from ?L ?b)"
  have R: "read_slice ?h ?R = drop (2 * ?L) xs" by (simp add: read_slice_from xs mult_2)
  define q1 where "q1 = append_to grow ?A (drop (2 * ?L) xs) (?q\<lparr>oq_batch := ?R\<rparr>)"
  have okA: "slice_ok ?h ?A" using ok assms(4) len by (intro slice_to_ok) (auto simp: slice_ok_def)
  have "?L \<le> sl_len ?b" using assms(4) len by simp
  then have A: "read_slice ?h ?A = take ?L xs" "sl_len ?A = ?L"
    by (simp_all only: read_slice_to xs) (simp add: slice_to_def)
  have "slice_ok (oq_store (?q\<lparr>oq_batch := ?R\<rparr>)) ?A" using okA by simp
  note own = append_to_own [OF this q1_def]
  have own1: "slice_ok (oq_store q1) (oq_batch q1)" "read_slice (oq_store q1) (oq_batch q1) = take ?L xs @ drop (2 * ?L) xs"
    "sl_len (oq_batch q1) = length xs - ?L" "oq_cap q1 = int c" "oq_dropped q1 = oq_dropped ?q"
    using own A assms(4) cap by simp_all
  have inplace: "oq_store q1 = ?h\<lparr>st_arrays := (st_arrays ?h)(sl_arr ?b :=
      write_at (sl_off ?b + ?L + 0) (drop (2 * ?L) xs) (st_arrays ?h (sl_arr ?b)))\<rparr>"
    using assms(4) room by (simp add: q1_def append_to_def append_slice_def slice_to_def Let_def)
  have "read_slice (oq_store q1) ?B = take ?L (take (0 + length (drop (2 * ?L) xs)) (drop (sl_off ?b + ?L)
      (write_at (sl_off ?b + ?L + 0) (drop (2 * ?L) xs) (st_arrays ?h (sl_arr ?b)))))"
    using assms(4) by (simp add: inplace read_slice_def slice_to_def slice_from_def min_def)
  also have "\<dots> = take ?L (drop (2 * ?L) xs)" using room assms(4) by (subst write_at_own) auto
  finally have B: "read_slice (oq_store q1) ?B = take ?L (drop (2 * ?L) xs)" .
  have okB: "slice_ok (oq_store q1) ?B"
    using ok assms(4) len room by (auto simp: inplace slice_ok_def slice_to_def slice_from_def length_write_at)
  define q2 where "q2 = append_to grow ?B (take ?L xs @ drop (2 * ?L) xs) q1"
  note own2 = append_to_own [OF okB q2_def]
  have "sl_len (oq_batch q2) = length xs" using own2(3) assms(4) pos by (auto simp: slice_to_def min_def)
  then have r2: "requeue_batch grow ?B q1 = Some q2"
    using assms(5) own1(2,4) own2(4) by (simp add: requeue_batch_def Let_def flip: q2_def)
  have r1: "requeue_batch grow ?A (?q\<lparr>oq_batch := ?R\<rparr>) = Some q1"
    using assms(5) own1(3,4) R pos by (auto simp: requeue_batch_def Let_def simp flip: q1_def)
  have t1: "take_batch ?q = Some (?A, ?q\<lparr>oq_batch := slice_from ?L ?b\<rparr>)"
    using assms(4) len pos by (auto simp: take_batch_def Let_def)
  have t2: "take_batch (?q\<lparr>oq_batch := slice_from ?L ?b\<rparr>) = Some (?B, ?q\<lparr>oq_batch := ?R\<rparr>)"
    using assms(4) len pos by (auto simp: take_batch_def Let_def slice_from_def [of _ ?b])
  have "obs_run grow [Take, Take, Failed 0, Failed 0] s = Some (s\<lparr>os_queue := q2, os_flights := []\<rparr>)"
    using assms(2) t1 t2 r1 r2 by (simp add: obs_step_def remove_nth_def)
  moreover have "read_slice (oq_store q2) (oq_batch q2) =
      take ?L (drop (2 * ?L) xs) @ take ?L xs @ drop (2 * ?L) xs" using own2(2) own1(2) B by simp
  then have "abs_queue (s\<lparr>os_queue := q2, os_flights := []\<rparr>) = (abs_queue s)\<lparr>lq_queue :=
      take ?L (drop (2 * ?L) xs) @ take ?L xs @ drop (2 * ?L) xs\<rparr>"
    using own2(5) own1(5) assms(2) by (simp add: abs_queue_def)
  ultimately show ?thesis by blast
qed

text \<open>C20: Two flushes in flight that both fail lose observations without counting them: after enqueuing distinct observations, at
  least three batches of them, the second batch is neither queued, in flight, sent nor counted as dropped, and
  the third one is queued twice.\<close>

theorem concurrent_flushes_lose_batch:
  assumes "distinct xs" "3 * obsBatchLimit \<le> length xs" "length xs \<le> c"
  shows "\<exists>s. obs_run grow (map Enqueue xs @ [Take, Take, Failed 0, Failed 0]) (start_obs (int c)) = Some s
    \<and> set (take obsBatchLimit (drop obsBatchLimit xs)) \<inter> set (lq_queue (abs_queue s)) = {}
    \<and> lq_flights (abs_queue s) = [] \<and> lq_sent (abs_queue s) = [] \<and> lq_dropped (abs_queue s) = 0"
proof -
  have L: "0 < obsBatchLimit" by (simp add: obsBatchLimit_def)
  obtain s where s: "obs_run grow (map Enqueue xs) (start_obs (int c)) = Some s" "obs_inv c s"
    "abs_queue s = start_list\<lparr>lq_queue := xs, lq_accepted := length xs\<rparr>"
    using enqueue_all [OF start_obs_inv(1), of c xs grow] L assms(2,3) by (auto simp: start_obs_inv(2) start_list_def)
  then have "lq_flights (abs_queue s) = []" "lq_queue (abs_queue s) = xs" by (simp_all add: start_list_def)
  then obtain t where t: "obs_run grow [Take, Take, Failed 0, Failed 0] s = Some t"
    "abs_queue t = (abs_queue s)\<lparr>lq_queue :=
      take obsBatchLimit (drop (2 * obsBatchLimit) xs) @ take obsBatchLimit xs @ drop (2 * obsBatchLimit) xs\<rparr>"
    using two_failures [OF s(2) _ _ assms(2,3), of grow] by (auto simp: abs_queue_def)
  have run: "obs_run grow (as @ bs) u = Option.bind (obs_run grow as u) (obs_run grow bs)" for as bs u
  proof (induction as arbitrary: u)
    case (Cons a as)
    then show ?case by (cases "obs_step grow a u") simp_all
  qed simp
  have "xs = take obsBatchLimit xs @ take obsBatchLimit (drop obsBatchLimit xs) @ drop (2 * obsBatchLimit) xs"
    by (metis append_take_drop_id drop_drop mult_2)
  then have "distinct (take obsBatchLimit xs @ take obsBatchLimit (drop obsBatchLimit xs) @ drop (2 * obsBatchLimit) xs)"
    using assms(1) by (rule subst)
  then have "set (take obsBatchLimit (drop obsBatchLimit xs)) \<inter> (set (take obsBatchLimit xs) \<union> set (drop (2 * obsBatchLimit) xs)) = {}"
    unfolding distinct_append set_append by blast
  then have "set (take obsBatchLimit (drop obsBatchLimit xs)) \<inter> set (lq_queue (abs_queue t)) = {}"
    using t(2) set_take_subset [of obsBatchLimit "drop (2 * obsBatchLimit) xs"] by auto
  then show ?thesis using t s by (intro exI [of _ t]) (simp add: run start_list_def)
qed

theorem concurrent_flushes_lose_batch_witness:
  "\<exists>s. obs_run (\<lambda>n. 2 * n) (map Enqueue (map (\<lambda>i. replicate i CHR ''a'') [0..<1500]) @ [Take, Take, Failed 0, Failed 0])
     (start_obs (int 5000)) = Some s \<and> lq_dropped (abs_queue s) = 0"
proof -
  let ?xs = "map (\<lambda>i. replicate i CHR ''a'') [0..<1500]"
  have "distinct ?xs" by (rule distinct_map [THEN iffD2]) (auto intro!: inj_onI dest: arg_cong [of _ _ length])
  then show ?thesis
    using concurrent_flushes_lose_batch [of ?xs 5000 "\<lambda>n. 2 * n"] by (auto simp: obsBatchLimit_def simp del: upt_conv_Cons)
qed

end
