(* ===== verification/Threads.thy ===== *)
theory Threads
  imports Prelude
begin

text \<open>
  Goroutines over a shared state.  A program is a tree of atomic actions; an action that is blocked yields
  \<open>None\<close>.  Operations are written with the rest of the program as their last argument.  Concurrent code is verified
  with ghost states: every thread has one, each of its actions is allowed by a guarantee that says how the shared
  state and the ghost may change, and an invariant over all ghosts and the state is stable under what is guaranteed.
\<close>

section \<open>Programs\<close>

datatype 's prog = Done | Act "'s \<Rightarrow> ('s prog \<times> 's) option"

definition act :: "('s \<Rightarrow> 'x \<times> 's) \<Rightarrow> ('x \<Rightarrow> 's prog) \<Rightarrow> 's prog" where
  "act f k = Act (\<lambda>s. case f s of (x, s') \<Rightarrow> Some (k x, s'))"

definition upd :: "('s \<Rightarrow> 's) \<Rightarrow> 's prog \<Rightarrow> 's prog" where
  "upd f k = Act (\<lambda>s. Some (k, f s))"

definition await :: "('s \<Rightarrow> ('x \<times> 's) option) \<Rightarrow> ('x \<Rightarrow> 's prog) \<Rightarrow> 's prog" where
  "await f k = Act (\<lambda>s. case f s of None \<Rightarrow> None | Some (x, s') \<Rightarrow> Some (k x, s'))"

definition stuck :: "'s prog" where
  "stuck = Act (\<lambda>_. None)"

primrec each_then :: "('a \<Rightarrow> 's prog \<Rightarrow> 's prog) \<Rightarrow> 'a list \<Rightarrow> 's prog \<Rightarrow> 's prog" where
  "each_then f [] k = k"
| "each_then f (x # xs) k = f x (each_then f xs k)"

text \<open>A thread of a pool: waiting for work, at work, at its last work, returned.\<close>

datatype 's thread = Idle | Running "'s prog" | Finishing "'s prog" | Exited

fun step_thread :: "'s thread \<Rightarrow> 's \<Rightarrow> ('s thread \<times> 's) option" where
  "step_thread (Running Done) s = Some (Idle, s)"
| "step_thread (Running (Act g)) s = map_option (\<lambda>(p, s'). (Running p, s')) (g s)"
| "step_thread (Finishing Done) s = Some (Exited, s)"
| "step_thread (Finishing (Act g)) s = map_option (\<lambda>(p, s'). (Finishing p, s')) (g s)"
| "step_thread _ s = None"

text \<open>Running a program alone to its end.\<close>

fun run_alone :: "nat \<Rightarrow> 's prog \<Rightarrow> 's \<Rightarrow> ('s prog \<times> 's) option" where
  "run_alone n Done s = Some (Done, s)"
| "run_alone 0 (Act g) s = Some (Act g, s)"
| "run_alone (Suc n) (Act g) s = Option.bind (g s) (\<lambda>(p, s'). run_alone n p s')"

section \<open>Contracts\<close>

text \<open>
  What a thread promises, depending on its ghost: what its actions may do, that it may only end when its ghost is quiet,
  when an action may block, and whether it may hang.  A thread whose ghost is busy in a state can move there; it holds
  something others may wait for.
\<close>

record ('s, 'l) contract =
  ct_pre :: "'s \<Rightarrow> bool"
  ct_step :: "'l \<Rightarrow> 's \<Rightarrow> 's \<Rightarrow> 'l \<Rightarrow> bool"
  ct_quiet :: "'l \<Rightarrow> bool"
  ct_block :: "'l \<Rightarrow> 's \<Rightarrow> bool"
  ct_hang :: "'l \<Rightarrow> bool"
  ct_busy :: "'l \<Rightarrow> 's \<Rightarrow> bool"

inductive guar :: "('s, 'l) contract \<Rightarrow> 'l \<Rightarrow> 's prog \<Rightarrow> bool" for C where
  guar_Done: "ct_quiet C l \<Longrightarrow> guar C l Done"
| guar_Act: "(\<And>s p s'. ct_pre C s \<Longrightarrow> g s = Some (p, s') \<Longrightarrow> \<exists>l'. ct_step C l s s' l' \<and> guar C l' p) \<Longrightarrow>
    (\<And>s. ct_pre C s \<Longrightarrow> g s = None \<Longrightarrow> ct_block C l s) \<Longrightarrow> guar C l (Act g)"
| guar_stuck: "ct_hang C l \<Longrightarrow> guar C l stuck"

inductive_cases guar_DoneE: "guar C l Done"

lemma guar_Done_iff [simp]: "guar C l Done \<longleftrightarrow> ct_quiet C l"
  by (auto elim: guar_DoneE intro: guar_Done simp: stuck_def)

lemma guar_act:
  assumes "\<And>s x s'. ct_pre C s \<Longrightarrow> f s = (x, s') \<Longrightarrow> \<exists>l'. ct_step C l s s' l' \<and> guar C l' (k x)"
  shows "guar C l (act f k)"
  unfolding act_def by (rule guar_Act) (auto split: prod.splits dest!: assms)

lemma guar_upd:
  assumes "\<And>s. ct_pre C s \<Longrightarrow> ct_step C l s (f s) l'" "guar C l' k"
  shows "guar C l (upd f k)"
  unfolding upd_def by (rule guar_Act) (use assms in auto)

lemma guar_await:
  assumes "\<And>s x s'. ct_pre C s \<Longrightarrow> f s = Some (x, s') \<Longrightarrow> \<exists>l'. ct_step C l s s' l' \<and> guar C l' (k x)"
    and "\<And>s. ct_pre C s \<Longrightarrow> f s = None \<Longrightarrow> ct_block C l s"
  shows "guar C l (await f k)"
  unfolding await_def
proof (rule guar_Act)
  fix s p s'
  assume "ct_pre C s" "(case f s of None \<Rightarrow> None | Some (x, s') \<Rightarrow> Some (k x, s')) = Some (p, s')"
  then show "\<exists>l'. ct_step C l s s' l' \<and> guar C l' p" using assms(1) by (auto split: option.splits prod.splits)
next
  fix s
  assume "ct_pre C s" "(case f s of None \<Rightarrow> None | Some (x, s') \<Rightarrow> Some (k x, s')) = None"
  then show "ct_block C l s" using assms(2) by (auto split: option.splits)
qed

lemma guar_each:
  assumes "\<And>x k. x \<in> set xs \<Longrightarrow> guar C l k \<Longrightarrow> guar C l (f x k)" "guar C l k"
  shows "guar C l (each_then f xs k)"
  using assms(1) by (induction xs) (simp_all add: assms(2))

fun thread_ok :: "('s, 'l) contract \<Rightarrow> 'l \<Rightarrow> 's thread \<Rightarrow> bool" where
  "thread_ok C l (Running p) = guar C l p"
| "thread_ok C l (Finishing p) = guar C l p"
| "thread_ok C l _ = ct_quiet C l"

fun active :: "'s thread \<Rightarrow> bool" where
  "active (Running p) = (p \<noteq> stuck)"
| "active (Finishing p) = (p \<noteq> stuck)"
| "active _ = False"

text \<open>
  A pool of threads with their ghosts, and one in which a blocked thread always waits for a busy one.
\<close>

locale ghost_pool =
  fixes C :: "('s, 'l) contract" and Inv :: "'l list \<Rightarrow> 's \<Rightarrow> bool"
  assumes inv_pre: "Inv ls s \<Longrightarrow> ct_pre C s"
    and stable: "Inv ls s \<Longrightarrow> i < length ls \<Longrightarrow> ct_step C (ls ! i) s s' l' \<Longrightarrow> Inv (ls[i := l']) s'"
    and busy: "ct_busy C l s \<Longrightarrow> \<not> ct_quiet C l \<and> \<not> ct_block C l s \<and> \<not> ct_hang C l"
begin

definition pool_ok :: "'l list \<Rightarrow> 's thread list \<Rightarrow> 's \<Rightarrow> bool" where
  "pool_ok ls ts s \<longleftrightarrow> Inv ls s \<and> list_all2 (thread_ok C) ls ts"

lemma pool_ok_length: "pool_ok ls ts s \<Longrightarrow> length ls = length ts"
  by (auto simp: pool_ok_def dest: list_all2_lengthD)

lemma pool_ok_nth: "pool_ok ls ts s \<Longrightarrow> i < length ts \<Longrightarrow> thread_ok C (ls ! i) (ts ! i)"
  by (simp add: pool_ok_def list_all2_conv_all_nth)

lemma pool_ok_update:
  "pool_ok ls ts s \<Longrightarrow> Inv (ls[i := l]) s' \<Longrightarrow> thread_ok C l t \<Longrightarrow> pool_ok (ls[i := l]) (ts[i := t]) s'"
  by (simp add: pool_ok_def list_all2_update_cong)

lemma prog_steps:
  assumes "pool_ok ls ts s" "i < length ts" "guar C (ls ! i) (Act g)" "g s = Some (p, s')"
  shows "\<exists>l'. Inv (ls[i := l']) s' \<and> guar C l' p"
proof -
  have "Inv ls s" "i < length ls" using assms(1,2) pool_ok_length by (auto simp: pool_ok_def)
  moreover from assms(3) have "\<exists>l'. ct_step C (ls ! i) s s' l' \<and> guar C l' p"
  proof (cases rule: guar.cases)
    case guar_Act
    then show ?thesis using assms(4) inv_pre [OF \<open>Inv ls s\<close>] by blast
  next
    case guar_stuck
    then show ?thesis using assms(4) by (simp add: stuck_def)
  qed
  ultimately show ?thesis using stable by blast
qed

text \<open>Every step keeps the pool in order, for some ghost.\<close>

lemma thread_steps:
  assumes ok: "pool_ok ls ts s" and i: "i < length ts" and step: "step_thread (ts ! i) s = Some (t, s')"
  shows "\<exists>l. pool_ok (ls[i := l]) (ts[i := t]) s'"
proof -
  have inv: "Inv ls s" using ok by (simp add: pool_ok_def)
  note now = pool_ok_nth [OF ok i]
  show ?thesis
  proof (cases "(ts ! i, s)" rule: step_thread.cases)
    case (1 s0)
    then have "t = Idle" "s' = s" "ct_quiet C (ls ! i)" using step now by auto
    then show ?thesis using pool_ok_update [OF ok, of i "ls ! i" s Idle] inv by (intro exI [of _ "ls ! i"]) simp
  next
    case (2 g s0)
    then obtain p where p: "g s = Some (p, s')" "t = Running p" "guar C (ls ! i) (Act g)" using step now by auto
    then obtain l' where l': "Inv (ls[i := l']) s'" "guar C l' p" using prog_steps [OF ok i p(3,1)] by blast
    then have "thread_ok C l' t" using p(2) by simp
    from pool_ok_update [OF ok l'(1) this] show ?thesis ..
  next
    case (3 s0)
    then have "t = Exited" "s' = s" "ct_quiet C (ls ! i)" using step now by auto
    then show ?thesis using pool_ok_update [OF ok, of i "ls ! i" s Exited] inv by (intro exI [of _ "ls ! i"]) simp
  next
    case (4 g s0)
    then obtain p where p: "g s = Some (p, s')" "t = Finishing p" "guar C (ls ! i) (Act g)" using step now by auto
    then obtain l' where l': "Inv (ls[i := l']) s'" "guar C l' p" using prog_steps [OF ok i p(3,1)] by blast
    then have "thread_ok C l' t" using p(2) by simp
    from pool_ok_update [OF ok l'(1) this] show ?thesis ..
  qed (use step in auto)
qed

lemma busy_moves:
  assumes ok: "pool_ok ls ts s" and i: "i < length ts" and b: "ct_busy C (ls ! i) s"
  shows "step_thread (ts ! i) s \<noteq> None"
proof -
  have pre: "ct_pre C s" using ok inv_pre by (auto simp: pool_ok_def)
  have moves: "\<exists>g. p = Act g \<and> g s \<noteq> None" if p: "guar C (ls ! i) p" for p
    using p
  proof (cases rule: guar.cases)
    case guar_Done
    then show ?thesis using busy [OF b] by blast
  next
    case (guar_Act g)
    then show ?thesis using pre busy [OF b] by blast
  next
    case guar_stuck
    then show ?thesis using busy [OF b] by blast
  qed
  show ?thesis
  proof (cases "ts ! i")
    case (Running p)
    then have "guar C (ls ! i) p" using pool_ok_nth [OF ok i] by simp
    from moves [OF this] show ?thesis using Running by auto
  next
    case (Finishing p)
    then have "guar C (ls ! i) p" using pool_ok_nth [OF ok i] by simp
    from moves [OF this] show ?thesis using Finishing by auto
  qed (use pool_ok_nth [OF ok i] busy [OF b] in auto)
qed

text \<open>A goroutine joins the pool; the shared state changes from outside.\<close>

lemma pool_ok_append: "pool_ok ls ts s \<Longrightarrow> Inv (ls @ [l]) s' \<Longrightarrow> thread_ok C l t \<Longrightarrow> pool_ok (ls @ [l]) (ts @ [t]) s'"
  by (simp add: pool_ok_def list_all2_appendI)

lemma pool_ok_shared: "pool_ok ls ts s \<Longrightarrow> Inv ls s' \<Longrightarrow> pool_ok ls ts s'"
  by (simp add: pool_ok_def)

lemma halted_blocks:
  assumes ok: "pool_ok ls ts s" and i: "i < length ts" and p: "ts ! i = Running p \<or> ts ! i = Finishing p"
    and halt: "step_thread (ts ! i) s = None"
  shows "ct_block C (ls ! i) s \<or> p = stuck \<and> ct_hang C (ls ! i)"
proof -
  have inv: "Inv ls s" using ok by (simp add: pool_ok_def)
  have "guar C (ls ! i) p" using pool_ok_nth [OF ok i] p by auto
  then show ?thesis
  proof (cases rule: guar.cases)
    case guar_Done
    then show ?thesis using halt p by auto
  next
    case (guar_Act g)
    then show ?thesis using halt p inv_pre [OF inv] by auto
  qed simp
qed

end

locale ghost_threads = ghost_pool +
  assumes blocker: "Inv ls s \<Longrightarrow> i < length ls \<Longrightarrow> ct_block C (ls ! i) s \<Longrightarrow> \<exists>j < length ls. ct_busy C (ls ! j) s"
begin

text \<open>No deadlock: when a thread is active, some thread can move.\<close>

lemma some_thread_moves:
  assumes ok: "pool_ok ls ts s" and i: "i < length ts" and act: "active (ts ! i)"
  shows "\<exists>j < length ts. step_thread (ts ! j) s \<noteq> None"
proof (cases "step_thread (ts ! i) s = None")
  case True
  have inv: "Inv ls s" and len: "length ls = length ts" using ok pool_ok_length by (auto simp: pool_ok_def)
  obtain p where "ts ! i = Running p \<or> ts ! i = Finishing p" "p \<noteq> stuck" using act by (cases "ts ! i") auto
  then have "ct_block C (ls ! i) s" using halted_blocks [OF ok i _ True] by blast
  then obtain j where "j < length ts" "ct_busy C (ls ! j) s" using blocker [OF inv] i len by auto
  then show ?thesis using busy_moves [OF ok] by blast
qed (use i in blast)

end

end
