(* ===== verification/Wis2Controller.thy ===== *)
theory Wis2Controller
  imports Wnm Cap Dedup Tc Synop BufrMessage CoreClient ObsQueue Threads
begin

text \<open>
  The WIS2 adapter's controller (\<open>wis2_adapter/app/controller/controller.go\<close>): the broker's callback fills an inbound
  queue, a pool of workers handles the notifications, one goroutine flushes the batches and another reports the
  health counters.  Every mutex section, channel operation and exchange with the outside is one atomic action of a program
  over the shared state.  The event list records what can be observed; logging and metrics are left out.
\<close>

section \<open>State and environment\<close>

definition capBatchLimit :: nat where "capBatchLimit = 50"
definition tcBatchLimit :: nat where "tcBatchLimit = 50"
definition defaultInboundCap :: nat where "defaultInboundCap = 1000"
definition defaultWorkerPoolSize :: int where "defaultWorkerPoolSize = 16"

record tc_feature =
  tf_notification_id :: string
  tf_data_id :: string
  tf_topic :: string
  tf_centre_id :: string
  tf_channel :: string
  tf_pub_time :: string
  tf_fetched_via :: string
  tf_download_url :: "string option"
  tf_storm :: storm_track

record cap_feature =
  cf_notification_id :: string
  cf_data_id :: string
  cf_topic :: string
  cf_centre_id :: string
  cf_channel :: string
  cf_pub_time :: string
  cf_date_time :: "string option"
  cf_license_url :: "string option"
  cf_fetched_via :: string
  cf_download_url :: "string option"
  cf_raw_xml :: string
  cf_cap :: cap_alert
  cf_area_key :: "string option"
  cf_area_geometry :: "f64 list polygon list option"
  cf_area_precision :: "string option"

type_synonym health_key = "string \<times> string"

record health_counters =
  hc_window_start :: int
  hc_received :: nat
  hc_duplicates :: nat
  hc_download_failed :: nat
  hc_decode_failed :: nat
  hc_integrity_failed :: nat
  hc_last_received_at :: "int option"

definition new_counters :: "int \<Rightarrow> health_counters" where
  "new_counters t = \<lparr>hc_window_start = t, hc_received = 0, hc_duplicates = 0, hc_download_failed = 0, hc_decode_failed = 0,
     hc_integrity_failed = 0, hc_last_received_at = None\<rparr>"

record health_feature =
  hf_centre_id :: string
  hf_kind :: string
  hf_window_start :: string
  hf_window_end :: string
  hf_received :: nat
  hf_duplicates :: nat
  hf_download_failed :: nat
  hf_decode_failed :: nat
  hf_integrity_failed :: nat
  hf_last_received_at :: "string option"

datatype wis2_event =
    EvRequest string
  | EvWait int
  | EvFeature string string string feature \<comment> \<open>topic, notification and payload a feature was made of\<close>
  | EvPost string poll_meta "feature list"
  | EvSnapshot health_key health_counters int

datatype dl_exchange = DlBadRequest | DlError | DlResponse (dl_status: int) (dl_header: header) (dl_body: string) (dl_broken: bool)

text \<open>
  The environment: libraries, configuration, and the outcomes of exchanges in the order in which they are
  made.  Readings of the clock advance by \<open>we_delta\<close>; \<open>we_choice\<close> says which ready case a \<open>select\<close> takes.
\<close>

record wis2_env =
  we_parse_wnm :: "string \<Rightarrow> wnm_message option"
  we_parse_nano :: "string \<Rightarrow> int option"
  we_parse_sec :: "string \<Rightarrow> int option"
  we_parse_http_time :: "string \<Rightarrow> int option"
  we_hashes :: hashes
  we_parse_url :: url_parser
  we_geo :: "f64 list geo_json"
  we_cap :: cap_env
  we_bufr :: bufr_env
  we_overflow :: int
  we_marshal_cap :: "cap_feature \<Rightarrow> feature option"
  we_marshal_tc :: "tc_feature \<Rightarrow> feature option"
  we_marshal_obs :: "observation \<Rightarrow> feature option"
  we_marshal_health :: "health_feature \<Rightarrow> feature option"
  we_decode_ack :: "string \<Rightarrow> ack option"
  we_download :: "nat \<Rightarrow> dl_exchange"
  we_core :: "nat \<Rightarrow> http_exchange"
  we_broker :: "nat \<Rightarrow> bool \<times> string \<times> string" \<comment> \<open>connected, last error, current broker\<close>
  we_delta :: "nat \<Rightarrow> nat"
  we_choice :: "nat \<Rightarrow> bool"
  we_grow :: "nat \<Rightarrow> nat"
  we_max_download_bytes :: int
  we_download_concurrency :: int

record wis2 =
  ws_tick :: nat
  ws_clock :: int
  ws_cancelled :: bool
  ws_slots :: nat \<comment> \<open>entries in \<open>downloadSem\<close>\<close>
  ws_dedup :: cache
  ws_health :: "(health_key \<times> health_counters) list"
  ws_health_locked :: bool
  ws_cap :: "feature list"
  ws_tc :: "feature list"
  ws_obs :: obs_queue
  ws_panicked :: bool
  ws_events :: "wis2_event list"

type_synonym wprog = "wis2 prog"

definition concurrency :: "wis2_env \<Rightarrow> nat" where
  "concurrency E = nat (if we_download_concurrency E \<le> 0 then 8 else we_download_concurrency E)"

definition worker_pool_size :: "wis2_env \<Rightarrow> nat" where
  "worker_pool_size E = (if 8 < concurrency E then nat (s64 (int (concurrency E) * 2)) else nat defaultWorkerPoolSize)"

definition new_wis2 :: "int \<Rightarrow> wis2" where
  "new_wis2 t = \<lparr>ws_tick = 0, ws_clock = t, ws_cancelled = False, ws_slots = 0, ws_dedup = new_cache, ws_health = [],
     ws_health_locked = False, ws_cap = [], ws_tc = [], ws_obs = new_obs_queue defaultObsQueueCap, ws_panicked = False, ws_events = []\<rparr>"

section \<open>Basic actions\<close>

definition emit_event :: "wis2_event \<Rightarrow> wis2 \<Rightarrow> wis2" where
  "emit_event e s = s\<lparr>ws_events := ws_events s @ [e]\<rparr>"

definition tick_on :: "wis2 \<Rightarrow> wis2" where
  "tick_on s = s\<lparr>ws_tick := ws_tick s + 1\<rparr>"

definition pass_time :: "wis2_env \<Rightarrow> wis2 \<Rightarrow> wis2" where
  "pass_time E s = tick_on (s\<lparr>ws_clock := ws_clock s + int (we_delta E (ws_tick s))\<rparr>)"

definition now_w :: "wis2_env \<Rightarrow> (int \<Rightarrow> wprog) \<Rightarrow> wprog" where
  "now_w E = act (\<lambda>s. let s = pass_time E s in (ws_clock s, s))"

definition broker_w :: "wis2_env \<Rightarrow> (bool \<times> string \<times> string \<Rightarrow> wprog) \<Rightarrow> wprog" where
  "broker_w E = act (\<lambda>s. (we_broker E (ws_tick s), tick_on s))"

section \<open>Health counters\<close>

fun update_health :: "health_key \<Rightarrow> (health_counters \<Rightarrow> health_counters) \<Rightarrow> (health_key \<times> health_counters) list
    \<Rightarrow> (health_key \<times> health_counters) list" where
  "update_health k f [] = []"
| "update_health k f ((k', c) # hs) = (if k' = k then (k', f c) # hs else (k', c) # update_health k f hs)"

text \<open>Entries are never removed, so a pointer to the counters is their key.  The report holds the lock of the map.\<close>

definition get_or_create_health :: "wis2_env \<Rightarrow> health_key \<Rightarrow> wprog \<Rightarrow> wprog" where
  "get_or_create_health E key k =
     await (\<lambda>s.
       if ws_health_locked s then None
       else if map_of (ws_health s) key \<noteq> None then Some ((), s)
       else (let s = pass_time E s in Some ((), s\<lparr>ws_health := ws_health s @ [(key, new_counters (ws_clock s))]\<rparr>))) (\<lambda>_. k)"

definition count :: "health_key \<Rightarrow> (health_counters \<Rightarrow> health_counters) \<Rightarrow> wprog \<Rightarrow> wprog" where
  "count key f = upd (\<lambda>s. s\<lparr>ws_health := update_health key f (ws_health s)\<rparr>)"

definition record_received :: "health_key \<Rightarrow> int \<Rightarrow> wprog \<Rightarrow> wprog" where
  "record_received key t = count key (\<lambda>c. c\<lparr>hc_received := hc_received c + 1, hc_last_received_at := Some t\<rparr>)"

definition record_duplicate :: "health_key \<Rightarrow> wprog \<Rightarrow> wprog" where
  "record_duplicate key = count key (\<lambda>c. c\<lparr>hc_duplicates := hc_duplicates c + 1\<rparr>)"

definition record_download_failed :: "health_key \<Rightarrow> wprog \<Rightarrow> wprog" where
  "record_download_failed key = count key (\<lambda>c. c\<lparr>hc_download_failed := hc_download_failed c + 1\<rparr>)"

definition record_decode_failed :: "health_key \<Rightarrow> wprog \<Rightarrow> wprog" where
  "record_decode_failed key = count key (\<lambda>c. c\<lparr>hc_decode_failed := hc_decode_failed c + 1\<rparr>)"

definition record_integrity_failed :: "health_key \<Rightarrow> wprog \<Rightarrow> wprog" where
  "record_integrity_failed key = count key (\<lambda>c. c\<lparr>hc_integrity_failed := hc_integrity_failed c + 1\<rparr>)"

section \<open>Sending to core\<close>

text \<open>\<open>Send\<close> and the look at the acknowledgement, which is only logged; the result says whether sending failed.\<close>

definition post :: "wis2_env \<Rightarrow> string \<Rightarrow> int \<Rightarrow> string \<Rightarrow> (wis2 \<Rightarrow> feature list) \<Rightarrow> nat \<Rightarrow> (bool \<Rightarrow> wprog) \<Rightarrow> wprog" where
  "post E path fetchedAt errStr features n k =
     broker_w E (\<lambda>(_, _, current).
       act (\<lambda>s.
         let meta = \<lparr>pm_fetched_at = format_rfc3339 (fetchedAt div 10 ^ 9), pm_http_status = 200, pm_feature_count = n,
                     pm_bytes = 0, pm_feed_url = current, pm_backfill = False, pm_error = errStr, pm_format = []\<rparr>
         in (case send (we_decode_ack E) (we_core E (ws_tick s)) of Inl _ \<Rightarrow> True | Inr _ \<Rightarrow> False,
             tick_on (emit_event (EvPost path meta (features s)) s))) k)"

definition flush_cap_batch :: "wis2_env \<Rightarrow> wprog \<Rightarrow> wprog" where
  "flush_cap_batch E k =
     act (\<lambda>s. (ws_cap s, s\<lparr>ws_cap := []\<rparr>)) (\<lambda>batch.
       if batch = [] then k
       else now_w E (\<lambda>t. post E ''wis2_data/cap'' t '''' (\<lambda>_. batch) (length batch) (\<lambda>_. k)))"

definition flush_tc_batch :: "wis2_env \<Rightarrow> wprog \<Rightarrow> wprog" where
  "flush_tc_batch E k =
     act (\<lambda>s. (ws_tc s, s\<lparr>ws_tc := []\<rparr>)) (\<lambda>batch.
       if batch = [] then k
       else now_w E (\<lambda>t. post E ''wis2_data/tc_tracks'' t '''' (\<lambda>_. batch) (length batch) (\<lambda>_. k)))"

text \<open>A panic ends the process: nothing follows.\<close>

definition obs_action :: "(obs_queue \<Rightarrow> ('x \<times> obs_queue) option) \<Rightarrow> ('x \<Rightarrow> wprog) \<Rightarrow> wprog" where
  "obs_action f k =
     Act (\<lambda>s. case f (ws_obs s) of
       None \<Rightarrow> Some (stuck, s\<lparr>ws_panicked := True\<rparr>)
     | Some (x, q) \<Rightarrow> Some (k x, s\<lparr>ws_obs := q\<rparr>))"

definition flush_obs_batch :: "wis2_env \<Rightarrow> wprog \<Rightarrow> wprog" where
  "flush_obs_batch E k =
     act (\<lambda>s. case take_batch (ws_obs s) of None \<Rightarrow> (None, s) | Some (batch, q) \<Rightarrow> (Some batch, s\<lparr>ws_obs := q\<rparr>))
       (\<lambda>taken. case taken of
          None \<Rightarrow> k
        | Some batch \<Rightarrow>
            now_w E (\<lambda>t.
            post E ''wis2_data/observations'' t '''' (\<lambda>s. read_slice (oq_store (ws_obs s)) batch) (sl_len batch) (\<lambda>failed.
            if failed then obs_action (\<lambda>q. map_option (Pair ()) (requeue_batch (we_grow E) batch q)) (\<lambda>_. k)
            else k)))"

definition enqueue_cap_feature :: "wis2_env \<Rightarrow> (feature \<Rightarrow> wis2_event) \<Rightarrow> cap_feature \<Rightarrow> wprog \<Rightarrow> wprog" where
  "enqueue_cap_feature E ev feat k =
     (case we_marshal_cap E feat of
        None \<Rightarrow> k
      | Some b \<Rightarrow>
          act (\<lambda>s. let s = emit_event (ev b) (s\<lparr>ws_cap := ws_cap s @ [b]\<rparr>) in (capBatchLimit \<le> length (ws_cap s), s))
            (\<lambda>flushNow. if flushNow then flush_cap_batch E k else k))"

definition enqueue_tc_feature :: "wis2_env \<Rightarrow> (feature \<Rightarrow> wis2_event) \<Rightarrow> tc_feature \<Rightarrow> wprog \<Rightarrow> wprog" where
  "enqueue_tc_feature E ev feat k =
     (case we_marshal_tc E feat of
        None \<Rightarrow> k
      | Some b \<Rightarrow>
          act (\<lambda>s. let s = emit_event (ev b) (s\<lparr>ws_tc := ws_tc s @ [b]\<rparr>) in (tcBatchLimit \<le> length (ws_tc s), s))
            (\<lambda>flushNow. if flushNow then flush_tc_batch E k else k))"

definition enqueue_observation_feature :: "wis2_env \<Rightarrow> (feature \<Rightarrow> wis2_event) \<Rightarrow> observation \<Rightarrow> wprog \<Rightarrow> wprog" where
  "enqueue_observation_feature E ev feat k =
     (case we_marshal_obs E feat of
        None \<Rightarrow> k
      | Some b \<Rightarrow>
          upd (emit_event (ev b)) (obs_action (\<lambda>q. map_option (\<lambda>(q, flushNow). (flushNow, q)) (enqueue_observation (we_grow E) b q))
            (\<lambda>flushNow. if flushNow then flush_obs_batch E k else k)))"

section \<open>Downloads\<close>

text \<open>\<open>readLimited\<close> on an \<open>int64\<close> limit: one more byte is asked for, which overflows for the largest limit.\<close>

definition read_body :: "int \<Rightarrow> string \<Rightarrow> bool \<Rightarrow> string option" where
  "read_body limit content broken =
     (let n = nat (s64 (limit + 1)) in
      if broken \<and> length content < n then None
      else if limit < int (length (take n content)) then None
      else Some (take n content))"

definition max_bytes :: "wis2_env \<Rightarrow> int" where
  "max_bytes E = (if we_max_download_bytes E \<le> 0 then 5 * 1024 * 1024 else we_max_download_bytes E)"

definition request :: "wis2_env \<Rightarrow> string \<Rightarrow> (dl_exchange \<Rightarrow> wprog) \<Rightarrow> wprog" where
  "request E url = act (\<lambda>s. (we_download E (ws_tick s), tick_on (emit_event (EvRequest url) s)))"

definition read_download :: "wis2_env \<Rightarrow> dl_exchange \<Rightarrow> string option" where
  "read_download E x =
     (case x of
        DlResponse status header content broken \<Rightarrow>
          if status < 200 \<or> 300 \<le> status then None else read_body (max_bytes E) content broken
      | _ \<Rightarrow> None)"

definition retry_wait :: "wis2_env \<Rightarrow> int \<Rightarrow> header \<Rightarrow> int" where
  "retry_wait E t h =
     (let c = \<lparr>now = t, parse_time = we_parse_http_time E\<rparr>;
          backoff = compute_backoff c h 0 (50 * 1000000) (10 * second)
      in case parse_retry_after c h of Some d \<Rightarrow> d | None \<Rightarrow> backoff)"

text \<open>The wait for the timer or the end of the context: the result says whether the context ended first.\<close>

definition wait_or_cancel :: "wis2_env \<Rightarrow> int \<Rightarrow> (bool \<Rightarrow> wprog) \<Rightarrow> wprog" where
  "wait_or_cancel E d =
     act (\<lambda>s. if ws_cancelled s \<and> we_choice E (ws_tick s) then (True, tick_on s)
       else (False, pass_time E (emit_event (EvWait d) (s\<lparr>ws_clock := ws_clock s + max 0 d\<rparr>))))"

definition download_payload :: "wis2_env \<Rightarrow> string \<Rightarrow> (string option \<Rightarrow> wprog) \<Rightarrow> wprog" where
  "download_payload E url k =
     request E url (\<lambda>x. case x of
       DlResponse status header content broken \<Rightarrow>
         if status = 429 then
           now_w E (\<lambda>t.
           wait_or_cancel E (retry_wait E t header) (\<lambda>cancelled.
             if cancelled then k None else request E url (\<lambda>x. k (read_download E x))))
         else k (read_download E x)
     | _ \<Rightarrow> k None)"

text \<open>The links in turn, until one yields a payload.\<close>

primrec try_links :: "wis2_env \<Rightarrow> wnm_link list \<Rightarrow> ((string \<times> string) option \<Rightarrow> wprog) \<Rightarrow> wprog" where
  "try_links E [] k = k None"
| "try_links E (l # ls) k =
     download_payload E (lk_href l) (\<lambda>d. case d of Some data \<Rightarrow> k (Some (data, lk_href l)) | None \<Rightarrow> try_links E ls k)"

definition acquire_slot :: "wis2_env \<Rightarrow> (bool \<Rightarrow> wprog) \<Rightarrow> wprog" where
  "acquire_slot E =
     await (\<lambda>s. if ws_cancelled s \<and> (we_choice E (ws_tick s) \<or> concurrency E \<le> ws_slots s) then Some (False, tick_on s)
       else if ws_slots s < concurrency E then Some (True, tick_on (s\<lparr>ws_slots := ws_slots s + 1\<rparr>))
       else None)"

definition release_slot :: "wprog \<Rightarrow> wprog" where
  "release_slot = upd (\<lambda>s. s\<lparr>ws_slots := ws_slots s - 1\<rparr>)"

section \<open>Notifications\<close>

text \<open>What the handlers are given: message, topic and its parts, publication time, how the payload came, and the payload.\<close>

record notice =
  nt_msg :: wnm_message
  nt_topic :: string
  nt_payload :: string
  nt_centre_id :: string
  nt_channel :: string
  nt_pub_time :: string
  nt_fetched_via :: string
  nt_download_url :: "string option"
  nt_data :: string

definition notice_event :: "notice \<Rightarrow> feature \<Rightarrow> wis2_event" where
  "notice_event n = EvFeature (nt_topic n) (nt_payload n) (nt_data n)"

definition nt_data_id :: "notice \<Rightarrow> string" where
  "nt_data_id n = pp_data_id (wm_properties (nt_msg n))"

definition is_bufr :: "string \<Rightarrow> bool" where
  "is_bufr data \<longleftrightarrow> 8 \<le> length data \<and> contains_str data ''BUFR''"

text \<open>The part the two BUFR handlers begin with: the decoded messages, or a counted failure.\<close>

definition decode_payload :: "wis2_env \<Rightarrow> health_key \<Rightarrow> notice \<Rightarrow> (message list \<Rightarrow> wprog) \<Rightarrow> wprog" where
  "decode_payload E key n k =
     (if \<not> is_bufr (nt_data n) then record_download_failed key Done
      else
        (let (msgs, errs) = decode (we_bufr E) (map of_char (nt_data n)) in
         if msgs = [] then record_decode_failed key Done
         else if \<not> list_ex (\<lambda>e. e = None) errs then record_decode_failed key Done
         else k msgs))"

definition tc_feature_of :: "notice \<Rightarrow> storm_track \<Rightarrow> tc_feature" where
  "tc_feature_of n storm =
     \<lparr>tf_notification_id = wm_id (nt_msg n), tf_data_id = nt_data_id n, tf_topic = nt_topic n, tf_centre_id = nt_centre_id n,
      tf_channel = nt_channel n, tf_pub_time = nt_pub_time n, tf_fetched_via = nt_fetched_via n,
      tf_download_url = nt_download_url n, tf_storm = storm\<rparr>"

text \<open>An extraction that does not return keeps its worker for good.\<close>

definition handle_trajectory :: "wis2_env \<Rightarrow> health_key \<Rightarrow> notice \<Rightarrow> wprog" where
  "handle_trajectory E key n =
     decode_payload E key n (\<lambda>msgs.
       case extract_storms (we_overflow E) 0 msgs of
         None \<Rightarrow> stuck
       | Some storms \<Rightarrow> each_then (\<lambda>storm. enqueue_tc_feature E (notice_event n) (tc_feature_of n storm)) storms Done)"

definition handle_synop :: "wis2_env \<Rightarrow> health_key \<Rightarrow> notice \<Rightarrow> wprog" where
  "handle_synop E key n =
     decode_payload E key n (\<lambda>msgs.
       each_then (\<lambda>msg. each_then (enqueue_observation_feature E (notice_event n))
           (fst (extract_observations (we_overflow E) (m_subsets msg) (nt_data_id n) (nt_centre_id n) (nt_pub_time n))))
         msgs Done)"

text \<open>The area of a warning: its key, its polygons and how precise they are.\<close>

type_synonym area = "string option \<times> f64 list polygon list option \<times> string option"

definition own_area :: "wis2_env \<Rightarrow> notice \<Rightarrow> string option \<Rightarrow> area" where
  "own_area E n key =
     (let g = wm_geometry (nt_msg n) in
      if g \<noteq> '''' \<and> g \<noteq> ''null'' then
        (case flatten_to_multi_polygon (we_geo E) g of
           Some (Some mp) \<Rightarrow> (key, Some mp, Some ''bbox'')
         | _ \<Rightarrow> (None, None, None))
      else (None, None, None))"

definition find_area :: "wis2_env \<Rightarrow> notice \<Rightarrow> (area \<Rightarrow> wprog) \<Rightarrow> wprog" where
  "find_area E n k =
     (case find_geometry_link (wm_links (nt_msg n)) of
        None \<Rightarrow> k (None, None, None)
      | Some l \<Rightarrow>
          (let key = resolve_area_key (we_parse_url E) (pp_object_id (wm_properties (nt_msg n))) (lk_href l) in
           download_payload E (lk_href l) (\<lambda>d.
             case Option.bind d (flatten_to_multi_polygon (we_geo E)) of
               Some (Some mp) \<Rightarrow> k (key, Some mp, Some ''exact'')
             | _ \<Rightarrow> k (own_area E n key))))"

definition message_time :: "wis2_env \<Rightarrow> string option \<Rightarrow> string option" where
  "message_time E x =
     (case x of None \<Rightarrow> None
      | Some t \<Rightarrow> if t = '''' then None else Some (fst (format_wnm_time (we_parse_nano E) (we_parse_sec E) t)))"

definition cap_feature_of :: "wis2_env \<Rightarrow> notice \<Rightarrow> cap_alert \<Rightarrow> string \<Rightarrow> area \<Rightarrow> cap_feature" where
  "cap_feature_of E n alert rawXML area =
     \<lparr>cf_notification_id = wm_id (nt_msg n), cf_data_id = nt_data_id n, cf_topic = nt_topic n, cf_centre_id = nt_centre_id n,
      cf_channel = nt_channel n, cf_pub_time = nt_pub_time n,
      cf_date_time = message_time E (pp_date_time (wm_properties (nt_msg n))),
      cf_license_url = map_option lk_href (find_license_link (wm_links (nt_msg n))),
      cf_fetched_via = nt_fetched_via n, cf_download_url = nt_download_url n, cf_raw_xml = rawXML, cf_cap = alert,
      cf_area_key = fst area, cf_area_geometry = fst (snd area), cf_area_precision = snd (snd area)\<rparr>"

definition handle_warnings :: "wis2_env \<Rightarrow> health_key \<Rightarrow> notice \<Rightarrow> wprog" where
  "handle_warnings E key n =
     (let r = parse_cap (we_cap E) (nt_data n) in
      case (res_error r, res_cap r) of
        (None, Some alert) \<Rightarrow>
          (let rawXML = (case res_raw_xml r of Some x \<Rightarrow> x | None \<Rightarrow> nt_data n) in
           find_area E n (\<lambda>area. enqueue_cap_feature E (notice_event n) (cap_feature_of E n alert rawXML area) Done))
      | _ \<Rightarrow> record_decode_failed key Done)"

text \<open>From the payload on: the integrity check, and the handler for the kind of the topic.\<close>

definition dispatch :: "wis2_env \<Rightarrow> health_key \<Rightarrow> notice \<Rightarrow> wprog" where
  "dispatch E key n =
     (if \<not> check_integrity (we_hashes E) (nt_data n) (pp_integrity (wm_properties (nt_msg n))) then record_integrity_failed key Done
      else if snd key = ''warnings'' then handle_warnings E key n
      else if snd key = ''trajectory'' then handle_trajectory E key n
      else if snd key = ''synop'' then handle_synop E key n
      else Done)"

definition inline_payload :: "wnm_content \<Rightarrow> string option" where
  "inline_payload c = (if equal_fold (ct_encoding c) ''base64'' then b64_decode (ct_value c) else Some (ct_value c))"

text \<open>The download of a payload under a slot of the semaphore: the canonical link first, then the others.\<close>

definition fetch_payload :: "wis2_env \<Rightarrow> wnm_link list \<Rightarrow> ((string \<times> string) option \<Rightarrow> wprog) \<Rightarrow> wprog \<Rightarrow> wprog" where
  "fetch_payload E links k stop =
     acquire_slot E (\<lambda>acquired.
       if \<not> acquired then stop
       else
         (let fallback = (\<lambda>_. try_links E (find_data_fallback_links links) (\<lambda>r. release_slot (k r))) in
          case find_canonical_link links of
            None \<Rightarrow> fallback ()
          | Some l \<Rightarrow>
              download_payload E (lk_href l) (\<lambda>d.
                case d of Some data \<Rightarrow> release_slot (k (Some (data, lk_href l))) | None \<Rightarrow> fallback ())))"

definition make_notice :: "wis2_env \<Rightarrow> string \<Rightarrow> string \<Rightarrow> string \<Rightarrow> string \<Rightarrow> wnm_message \<Rightarrow> string \<Rightarrow> string option \<Rightarrow> string \<Rightarrow> notice" where
  "make_notice E topic payload channel centreID msg fetchedVia downloadURL data =
     \<lparr>nt_msg = msg, nt_topic = topic, nt_payload = payload, nt_centre_id = centreID, nt_channel = channel,
      nt_pub_time = fst (format_wnm_time (we_parse_nano E) (we_parse_sec E) (pp_pub_time (wm_properties msg))),
      nt_fetched_via = fetchedVia, nt_download_url = downloadURL, nt_data = data\<rparr>"

definition download_and_dispatch :: "wis2_env \<Rightarrow> health_key \<Rightarrow> string \<Rightarrow> string \<Rightarrow> string \<Rightarrow> wnm_message \<Rightarrow> wprog" where
  "download_and_dispatch E key topic payload channel msg =
     fetch_payload E (wm_links msg) (\<lambda>r. case r of
       None \<Rightarrow> record_download_failed key Done
     | Some (data, url) \<Rightarrow> dispatch E key (make_notice E topic payload channel (fst key) msg channel (Some url) data)) Done"

text \<open>A decoded notification: unless it is a duplicate, its payload is obtained and handed on.\<close>

definition process_message :: "wis2_env \<Rightarrow> health_key \<Rightarrow> string \<Rightarrow> string \<Rightarrow> string \<Rightarrow> wnm_message \<Rightarrow> wprog" where
  "process_message E key topic payload channel msg =
     act (\<lambda>s. let s = pass_time E s; (dup, c) = check_or_add (ws_clock s) (wm_id msg) (pp_data_id (wm_properties msg)) (ws_dedup s)
              in (dup, s\<lparr>ws_dedup := c\<rparr>)) (\<lambda>dup.
     if dup then record_duplicate key Done
     else
       (case pp_content (wm_properties msg) of
          Some c \<Rightarrow>
            if ct_value c \<noteq> '''' then
              (case inline_payload c of
                 None \<Rightarrow> record_download_failed key Done
               | Some data \<Rightarrow> dispatch E key (make_notice E topic payload channel (fst key) msg ''inline'' None data))
            else download_and_dispatch E key topic payload channel msg
        | None \<Rightarrow> download_and_dispatch E key topic payload channel msg))"

definition handle_message :: "wis2_env \<Rightarrow> string \<Rightarrow> string \<Rightarrow> wprog" where
  "handle_message E topic payload =
     (let (channel, centreID, kind) = classify_topic topic; key = (centreID, kind) in
      get_or_create_health E key (
      now_w E (\<lambda>t.
      record_received key t (
        case we_parse_wnm E payload of
          None \<Rightarrow> record_decode_failed key Done
        | Some msg \<Rightarrow> process_message E key topic payload channel msg))))"

section \<open>The health report\<close>

definition swap_counters :: "health_key \<Rightarrow> int \<Rightarrow> wis2 \<Rightarrow> health_counters option \<times> wis2" where
  "swap_counters key windowEnd s =
     (case map_of (ws_health s) key of
        None \<Rightarrow> (None, s)
      | Some c \<Rightarrow>
          (Some c, emit_event (EvSnapshot key c windowEnd)
             (s\<lparr>ws_health := update_health key (\<lambda>_. new_counters windowEnd) (ws_health s)\<rparr>)))"

text \<open>The order in which Go ranges over the map is not specified; the model takes the order of creation.\<close>

primrec take_snapshots :: "health_key list \<Rightarrow> int \<Rightarrow> (health_key \<times> health_counters) list
    \<Rightarrow> ((health_key \<times> health_counters) list \<Rightarrow> wprog) \<Rightarrow> wprog" where
  "take_snapshots [] windowEnd acc k = k acc"
| "take_snapshots (key # keys) windowEnd acc k =
     act (swap_counters key windowEnd) (\<lambda>c.
       take_snapshots keys windowEnd (acc @ (case c of Some c \<Rightarrow> [(key, c)] | None \<Rightarrow> [])) k)"

definition health_feature_of :: "int \<Rightarrow> health_key \<times> health_counters \<Rightarrow> health_feature" where
  "health_feature_of windowEnd item =
     (case item of ((centreID, kind), c) \<Rightarrow>
        \<lparr>hf_centre_id = centreID, hf_kind = kind, hf_window_start = format_rfc3339 (hc_window_start c div 10 ^ 9),
         hf_window_end = format_rfc3339 (windowEnd div 10 ^ 9), hf_received = hc_received c, hf_duplicates = hc_duplicates c,
         hf_download_failed = hc_download_failed c, hf_decode_failed = hc_decode_failed c,
         hf_integrity_failed = hc_integrity_failed c,
         hf_last_received_at = map_option (\<lambda>t. format_rfc3339 (t div 10 ^ 9)) (hc_last_received_at c)\<rparr>)"

definition report_health :: "wis2_env \<Rightarrow> wprog \<Rightarrow> wprog" where
  "report_health E k =
     now_w E (\<lambda>windowEnd.
     await (\<lambda>s. if ws_health_locked s then None else Some (map fst (ws_health s), s\<lparr>ws_health_locked := True\<rparr>)) (\<lambda>keys.
     take_snapshots keys windowEnd [] (\<lambda>snapshots.
     upd (\<lambda>s. s\<lparr>ws_health_locked := False\<rparr>) (
       let features = List.map_filter (\<lambda>i. we_marshal_health E (health_feature_of windowEnd i)) snapshots in
       broker_w E (\<lambda>(connected, lastError, _).
       let errStr = (if connected then '''' else if lastError = '''' then ''disconnected'' else lastError) in
       post E ''wis2_data/health'' windowEnd errStr (\<lambda>_. features) (length features) (\<lambda>_. k))))))"

section \<open>The controller at work\<close>

text \<open>
  The goroutines of \<open>Execute\<close>: the workers, then the flusher, then the reporter.  The broker's callback delivers to
  the inbound queue or drops; \<open>ws_picked\<close> counts the jobs taken by topic for the statement of properties.
\<close>

record wis2_sys =
  sy_shared :: wis2
  sy_threads :: "wis2 thread list"
  sy_inbound :: "(string \<times> string) list"
  sy_inbound_cap :: nat
  sy_dropped_inbound :: nat
  sy_picked :: "(string \<times> string) list"

definition start_wis2 :: "wis2_env \<Rightarrow> int \<Rightarrow> wis2_sys" where
  "start_wis2 E t = \<lparr>sy_shared = new_wis2 t, sy_threads = replicate (worker_pool_size E + 2) Idle, sy_inbound = [],
     sy_inbound_cap = defaultInboundCap, sy_dropped_inbound = 0, sy_picked = []\<rparr>"

datatype sys_op =
    Deliver string string \<comment> \<open>the broker hands over a topic and a payload\<close>
  | Pick nat \<comment> \<open>a worker takes a job\<close>
  | Advance nat \<comment> \<open>a thread makes one action\<close>
  | TickBatches
  | TickObs
  | TickHealth
  | Cancel \<comment> \<open>the context ends\<close>
  | Stop nat \<comment> \<open>a thread sees that the context has ended\<close>

definition workers :: "wis2_sys \<Rightarrow> nat" where
  "workers S = length (sy_threads S) - 2"

definition start_thread :: "nat \<Rightarrow> wis2 thread \<Rightarrow> wis2_sys \<Rightarrow> wis2_sys option" where
  "start_thread i th S =
     (if i < length (sy_threads S) \<and> sy_threads S ! i = Idle then Some (S\<lparr>sy_threads := (sy_threads S)[i := th]\<rparr>) else None)"

definition sys_step :: "wis2_env \<Rightarrow> sys_op \<Rightarrow> wis2_sys \<Rightarrow> wis2_sys option" where
  "sys_step E op S =
     (case op of
        Deliver topic payload \<Rightarrow>
          Some (if length (sy_inbound S) < sy_inbound_cap S then S\<lparr>sy_inbound := sy_inbound S @ [(topic, payload)]\<rparr>
                else S\<lparr>sy_dropped_inbound := sy_dropped_inbound S + 1\<rparr>)
      | Pick i \<Rightarrow>
          if workers S \<le> i then None
          else (case sy_inbound S of
                  [] \<Rightarrow> None
                | (topic, payload) # jobs \<Rightarrow>
                    start_thread i (Running (handle_message E topic payload))
                      (S\<lparr>sy_inbound := jobs, sy_picked := sy_picked S @ [(topic, payload)]\<rparr>))
      | Advance i \<Rightarrow>
          if i < length (sy_threads S) then
            map_option (\<lambda>(th, s). S\<lparr>sy_threads := (sy_threads S)[i := th], sy_shared := s\<rparr>)
              (step_thread (sy_threads S ! i) (sy_shared S))
          else None
      | TickBatches \<Rightarrow> start_thread (workers S) (Running (flush_cap_batch E (flush_tc_batch E Done))) S
      | TickObs \<Rightarrow> start_thread (workers S) (Running (flush_obs_batch E Done)) S
      | TickHealth \<Rightarrow> start_thread (workers S + 1) (Running (report_health E Done)) S
      | Cancel \<Rightarrow> Some (S\<lparr>sy_shared := (sy_shared S)\<lparr>ws_cancelled := True\<rparr>\<rparr>)
      | Stop i \<Rightarrow>
          if \<not> ws_cancelled (sy_shared S) then None
          else if i = workers S then
            start_thread i (Finishing (flush_cap_batch E (flush_tc_batch E (flush_obs_batch E Done)))) S
          else if i = workers S + 1 then start_thread i (Finishing (report_health E Done)) S
          else start_thread i Exited S)"

fun sys_run :: "wis2_env \<Rightarrow> sys_op list \<Rightarrow> wis2_sys \<Rightarrow> wis2_sys option" where
  "sys_run E [] S = Some S"
| "sys_run E (op # ops) S = Option.bind (sys_step E op S) (sys_run E ops)"

end
