(* ===== verification/Wis2Safety.thy ===== *)
theory Wis2Safety
  imports Wis2Controller
begin

text \<open>
  The WIS2 controller under every interleaving of its goroutines: what the health counters add up to, which payloads
  become features, the bounds of the queues, and that the goroutines do not block each other for good.
\<close>

section \<open>What is counted\<close>

definition failures :: "health_counters \<Rightarrow> nat" where
  "failures c = hc_duplicates c + hc_download_failed c + hc_decode_failed c + hc_integrity_failed c"

definition snapshot_value :: "(health_counters \<Rightarrow> nat) \<Rightarrow> health_key \<Rightarrow> wis2_event \<Rightarrow> nat" where
  "snapshot_value f k e = (case e of EvSnapshot k' c _ \<Rightarrow> if k' = k then f c else 0 | _ \<Rightarrow> 0)"

text \<open>Over all reports and the counters at hand.\<close>

definition health_total :: "(health_counters \<Rightarrow> nat) \<Rightarrow> wis2 \<Rightarrow> health_key \<Rightarrow> nat" where
  "health_total f s k = sum_list (map (snapshot_value f k) (ws_events s))
     + (case map_of (ws_health s) k of None \<Rightarrow> 0 | Some c \<Rightarrow> f c)"

lemma map_of_update_health: "map_of (update_health k f hs) k' = (if k' = k then map_option f (map_of hs k) else map_of hs k')"
  by (induction k f hs rule: update_health.induct) auto

definition is_snapshot :: "wis2_event \<Rightarrow> bool" where
  "is_snapshot e = (case e of EvSnapshot _ _ _ \<Rightarrow> True | _ \<Rightarrow> False)"

lemma health_total_events:
  assumes "ws_events s' = ws_events s @ es" "ws_health s' = ws_health s" "\<forall>e \<in> set es. \<not> is_snapshot e"
  shows "health_total f s' k = health_total f s k"
proof -
  have "sum_list (map (snapshot_value f k) es) = 0"
    using assms(3) by (auto simp: snapshot_value_def is_snapshot_def sum_list_eq_0_iff split: wis2_event.splits)
  then show ?thesis using assms(1,2) by (simp add: health_total_def)
qed

lemma health_total_count:
  "health_total f (s\<lparr>ws_health := update_health key g (ws_health s)\<rparr>) k =
     (if k = key then (case map_of (ws_health s) key of None \<Rightarrow> health_total f s k
        | Some c \<Rightarrow> health_total f s k - f c + f (g c)) else health_total f s k)"
  by (auto simp: health_total_def map_of_update_health split: option.split)

lemma health_total_create:
  assumes "map_of (ws_health s) key = None" "f (new_counters t) = 0"
  shows "health_total f (s\<lparr>ws_health := ws_health s @ [(key, new_counters t)]\<rparr>) k = health_total f s k"
  using assms by (auto simp: health_total_def map_add_def split: option.splits)

lemma health_total_swap:
  assumes "f (new_counters t) = 0"
  shows "health_total f (snd (swap_counters key t s)) k = health_total f s k"
  using assms by (auto simp: swap_counters_def health_total_def emit_event_def map_of_update_health snapshot_value_def split: option.splits)

section \<open>The contract\<close>

text \<open>
  The ghost of a thread: the key of the notification it handles and whether its counters exist, whether it still has
  to count it as received and may still count it as failed, the slot and the lock it holds, and the flushes it owes.
\<close>

record ghost =
  gh_key :: health_key
  gh_known :: bool
  gh_pending :: nat
  gh_credit :: nat
  gh_slot :: nat
  gh_report :: nat
  gh_cap_due :: nat
  gh_tc_due :: nat

definition mine :: "(ghost \<Rightarrow> nat) \<Rightarrow> health_key \<Rightarrow> ghost \<Rightarrow> nat" where
  "mine f k l = (if gh_key l = k then f l else 0)"

text \<open>Where a payload comes from: inline, or the body of a successful response within the size limit.\<close>

definition obtained :: "wis2_env \<Rightarrow> wnm_message \<Rightarrow> string \<Rightarrow> bool" where
  "obtained E msg data \<longleftrightarrow>
     (\<exists>c. pp_content (wm_properties msg) = Some c \<and> ct_value c \<noteq> '''' \<and> inline_payload c = Some data)
     \<or> (\<exists>i. read_download E (we_download E i) = Some data)"

definition good_event :: "wis2_env \<Rightarrow> wis2_event \<Rightarrow> bool" where
  "good_event E e =
     (case e of
        EvFeature topic payload data _ \<Rightarrow>
          snd (snd (classify_topic topic)) \<in> {''warnings'', ''trajectory'', ''synop''}
          \<and> (\<exists>msg. we_parse_wnm E payload = Some msg \<and> obtained E msg data
                \<and> check_integrity (we_hashes E) data (pp_integrity (wm_properties msg)))
      | EvPost path meta fs \<Rightarrow> path \<noteq> ''wis2_data/observations'' \<longrightarrow> pm_feature_count meta = length fs
      | _ \<Rightarrow> True)"

definition obs_ok :: "obs_queue \<Rightarrow> bool" where
  "obs_ok q \<longleftrightarrow> oq_cap q = defaultObsQueueCap \<and> int (sl_len (oq_batch q)) \<le> oq_cap q"

text \<open>The batch may grow by what the thread is to flush.\<close>

definition batch_step :: "feature list \<Rightarrow> nat \<Rightarrow> feature list \<Rightarrow> nat \<Rightarrow> bool" where
  "batch_step b due b' due' \<longleftrightarrow> due' \<le> 1 \<and>
     (b' = [] \<or> due \<le> due' \<and> (length b' < 50 \<or> length b' \<le> length b + (due' - due)))"

definition wis2_step :: "wis2_env \<Rightarrow> ghost \<Rightarrow> wis2 \<Rightarrow> wis2 \<Rightarrow> ghost \<Rightarrow> bool" where
  "wis2_step E l s s' l' \<longleftrightarrow>
     ((gh_known l \<longrightarrow> map_of (ws_health s) (gh_key l) \<noteq> None) \<and> gh_slot l \<le> ws_slots s \<and> gh_cap_due l \<le> 1 \<and> gh_tc_due l \<le> 1 \<longrightarrow>
       gh_key l' = gh_key l
       \<and> (\<forall>k. map_of (ws_health s) k \<noteq> None \<longrightarrow> map_of (ws_health s') k \<noteq> None)
       \<and> (gh_known l' \<longrightarrow> map_of (ws_health s') (gh_key l) \<noteq> None)
       \<and> (\<forall>k. health_total hc_received s' k + mine gh_pending k l' = health_total hc_received s k + mine gh_pending k l)
       \<and> (\<forall>k. health_total failures s' k + mine gh_credit k l' + health_total hc_received s k
             \<le> health_total failures s k + mine gh_credit k l + health_total hc_received s' k)
       \<and> ws_slots s' + gh_slot l = ws_slots s + gh_slot l'
       \<and> (ws_slots s \<le> concurrency E \<longrightarrow> ws_slots s' \<le> concurrency E)
       \<and> (ws_health_locked s' \<longrightarrow> 1 \<le> gh_report l' \<or> ws_health_locked s \<and> gh_report l \<le> gh_report l')
       \<and> batch_step (ws_cap s) (gh_cap_due l) (ws_cap s') (gh_cap_due l')
       \<and> batch_step (ws_tc s) (gh_tc_due l) (ws_tc s') (gh_tc_due l')
       \<and> (obs_ok (ws_obs s) \<longrightarrow> obs_ok (ws_obs s'))
       \<and> (ws_panicked s' \<longrightarrow> ws_panicked s)
       \<and> (\<exists>es. ws_events s' = ws_events s @ es \<and> list_all (good_event E) es))"

definition wis2_contract :: "wis2_env \<Rightarrow> (wis2, ghost) contract" where
  "wis2_contract E =
     \<lparr>ct_pre = (\<lambda>s. obs_ok (ws_obs s)),
      ct_step = wis2_step E,
      ct_quiet = (\<lambda>l. gh_pending l = 0 \<and> gh_slot l = 0 \<and> gh_report l = 0 \<and> gh_cap_due l = 0 \<and> gh_tc_due l = 0),
      ct_block = (\<lambda>l s. gh_slot l = 0 \<and> gh_report l = 0 \<and> (ws_health_locked s \<or> concurrency E \<le> ws_slots s)),
      ct_hang = (\<lambda>l. gh_slot l = 0 \<and> gh_report l = 0),
      ct_busy = (\<lambda>l _. 0 < gh_slot l \<or> 0 < gh_report l)\<rparr>"

lemma contract_simps [simp]:
  "ct_pre (wis2_contract E) s = obs_ok (ws_obs s)"
  "ct_step (wis2_contract E) = wis2_step E"
  "ct_quiet (wis2_contract E) l \<longleftrightarrow> gh_pending l = 0 \<and> gh_slot l = 0 \<and> gh_report l = 0 \<and> gh_cap_due l = 0 \<and> gh_tc_due l = 0"
  "ct_block (wis2_contract E) l s \<longleftrightarrow> gh_slot l = 0 \<and> gh_report l = 0 \<and> (ws_health_locked s \<or> concurrency E \<le> ws_slots s)"
  "ct_hang (wis2_contract E) l \<longleftrightarrow> gh_slot l = 0 \<and> gh_report l = 0"
  "ct_busy (wis2_contract E) l s \<longleftrightarrow> 0 < gh_slot l \<or> 0 < gh_report l"
  by (simp_all add: wis2_contract_def)

abbreviation fulfils :: "wis2_env \<Rightarrow> ghost \<Rightarrow> wprog \<Rightarrow> bool" where
  "fulfils E \<equiv> guar (wis2_contract E)"

section \<open>Steps\<close>

lemma batch_step_same: "due \<le> 1 \<Longrightarrow> batch_step b due b due"
  by (simp add: batch_step_def)

lemma plain_step:
  assumes "ws_health s' = ws_health s" "ws_slots s' = ws_slots s" "ws_health_locked s' = ws_health_locked s"
    "ws_cap s' = ws_cap s" "ws_tc s' = ws_tc s" "ws_panicked s' = ws_panicked s" "obs_ok (ws_obs s) \<Longrightarrow> obs_ok (ws_obs s')"
    "ws_events s' = ws_events s @ es" "\<forall>e \<in> set es. good_event E e \<and> \<not> is_snapshot e"
  shows "wis2_step E l s s' l"
proof -
  have "health_total f s' k = health_total f s k" for f k using health_total_events [OF assms(8,1)] assms(9) by blast
  then show ?thesis using assms by (auto simp: wis2_step_def batch_step_same list_all_iff)
qed

lemma fulfils_plain:
  assumes "\<And>s x s'. f s = (x, s') \<Longrightarrow> ws_health s' = ws_health s \<and> ws_slots s' = ws_slots s \<and> ws_health_locked s' = ws_health_locked s
      \<and> ws_cap s' = ws_cap s \<and> ws_tc s' = ws_tc s \<and> ws_panicked s' = ws_panicked s \<and> (obs_ok (ws_obs s) \<longrightarrow> obs_ok (ws_obs s'))
      \<and> (\<exists>es. ws_events s' = ws_events s @ es \<and> (\<forall>e \<in> set es. good_event E e \<and> \<not> is_snapshot e))
      \<and> fulfils E l (k x)"
  shows "fulfils E l (act f k)"
proof (rule guar_act)
  fix s x s'
  assume "f s = (x, s')"
  from assms [OF this] show "\<exists>l'. ct_step (wis2_contract E) l s s' l' \<and> fulfils E l' (k x)"
    using plain_step by (intro exI [of _ l]) (auto intro!: plain_step)
qed

lemmas plain_state = pass_time_def tick_on_def emit_event_def

lemma g_now: "(\<And>t. fulfils E l (k t)) \<Longrightarrow> fulfils E l (now_w E k)"
  unfolding now_w_def by (rule fulfils_plain) (auto simp: plain_state Let_def)

lemma g_broker: "(\<And>b. fulfils E l (k b)) \<Longrightarrow> fulfils E l (broker_w E k)"
  unfolding broker_w_def by (rule fulfils_plain) (auto simp: plain_state)

lemma g_post:
  assumes "\<And>b. fulfils E l (k b)" "path = ''wis2_data/observations'' \<or> (\<forall>s. length (features s) = n)"
  shows "fulfils E l (post E path t errStr features n k)"
  unfolding post_def
proof (rule g_broker)
  fix b :: "bool \<times> string \<times> string"
  obtain up lastError current where b: "b = (up, lastError, current)" by (cases b)
  have good: "good_event E (EvPost path m (features s)) \<and> \<not> is_snapshot (EvPost path m (features s))"
    if "pm_feature_count m = n" for m s
    using assms(2) that by (auto simp: good_event_def is_snapshot_def)
  show "fulfils E l (case b of (_, _, current) \<Rightarrow>
      act (\<lambda>s.
         let meta = \<lparr>pm_fetched_at = format_rfc3339 (t div 10 ^ 9), pm_http_status = 200, pm_feature_count = n,
                     pm_bytes = 0, pm_feed_url = current, pm_backfill = False, pm_error = errStr, pm_format = []\<rparr>
         in (case send (we_decode_ack E) (we_core E (ws_tick s)) of Inl _ \<Rightarrow> True | Inr _ \<Rightarrow> False,
             tick_on (emit_event (EvPost path meta (features s)) s))) k)"
    unfolding b prod.case by (rule fulfils_plain) (auto simp: Let_def plain_state assms(1) good)
qed

lemma health_total_simps [simp]:
  "health_total f (s\<lparr>ws_cap := b\<rparr>) k = health_total f s k" "health_total f (s\<lparr>ws_tc := b\<rparr>) k = health_total f s k"
  "health_total f (s\<lparr>ws_slots := n\<rparr>) k = health_total f s k" "health_total f (s\<lparr>ws_tick := n\<rparr>) k = health_total f s k"
  "health_total f (s\<lparr>ws_clock := t\<rparr>) k = health_total f s k" "health_total f (s\<lparr>ws_health_locked := c\<rparr>) k = health_total f s k"
  "\<not> is_snapshot e \<Longrightarrow> health_total f (s\<lparr>ws_events := ws_events s @ [e]\<rparr>) k = health_total f s k"
  by (auto simp: health_total_def snapshot_value_def is_snapshot_def split: wis2_event.splits)

lemma mine_simps [simp]:
  "mine gh_pending k (l\<lparr>gh_cap_due := n\<rparr>) = mine gh_pending k l" "mine gh_credit k (l\<lparr>gh_cap_due := n\<rparr>) = mine gh_credit k l"
  "mine gh_pending k (l\<lparr>gh_tc_due := n\<rparr>) = mine gh_pending k l" "mine gh_credit k (l\<lparr>gh_tc_due := n\<rparr>) = mine gh_credit k l"
  "mine gh_pending k (l\<lparr>gh_slot := n\<rparr>) = mine gh_pending k l" "mine gh_credit k (l\<lparr>gh_slot := n\<rparr>) = mine gh_credit k l"
  "mine gh_pending k (l\<lparr>gh_report := n\<rparr>) = mine gh_pending k l" "mine gh_credit k (l\<lparr>gh_report := n\<rparr>) = mine gh_credit k l"
  "mine gh_pending k (l\<lparr>gh_known := b\<rparr>) = mine gh_pending k l" "mine gh_credit k (l\<lparr>gh_known := b\<rparr>) = mine gh_credit k l"
  by (simp_all add: mine_def)

lemma g_flush_cap:
  assumes "fulfils E (l\<lparr>gh_cap_due := 0\<rparr>) k"
  shows "fulfils E l (flush_cap_batch E k)"
  unfolding flush_cap_batch_def
proof (rule guar_act)
  fix s :: wis2 and batch s'
  assume "(ws_cap s, s\<lparr>ws_cap := []\<rparr>) = (batch, s')"
  then have s': "s' = s\<lparr>ws_cap := []\<rparr>" by simp
  have "wis2_step E l s s' (l\<lparr>gh_cap_due := 0\<rparr>)" by (simp add: s' wis2_step_def batch_step_def)
  moreover have "fulfils E (l\<lparr>gh_cap_due := 0\<rparr>) (if batch = [] then k
      else now_w E (\<lambda>t. post E ''wis2_data/cap'' t '''' (\<lambda>_. batch) (length batch) (\<lambda>_. k)))"
    using assms by (simp add: g_now g_post)
  ultimately show "\<exists>l'. ct_step (wis2_contract E) l s s' l' \<and> fulfils E l' (if batch = [] then k
      else now_w E (\<lambda>t. post E ''wis2_data/cap'' t '''' (\<lambda>_. batch) (length batch) (\<lambda>_. k)))"
    by (intro exI [of _ "l\<lparr>gh_cap_due := 0\<rparr>"]) simp
qed

lemma g_flush_tc:
  assumes "fulfils E (l\<lparr>gh_tc_due := 0\<rparr>) k"
  shows "fulfils E l (flush_tc_batch E k)"
  unfolding flush_tc_batch_def
proof (rule guar_act)
  fix s :: wis2 and batch s'
  assume "(ws_tc s, s\<lparr>ws_tc := []\<rparr>) = (batch, s')"
  then have s': "s' = s\<lparr>ws_tc := []\<rparr>" by simp
  have "wis2_step E l s s' (l\<lparr>gh_tc_due := 0\<rparr>)" by (simp add: s' wis2_step_def batch_step_def)
  moreover have "fulfils E (l\<lparr>gh_tc_due := 0\<rparr>) (if batch = [] then k
      else now_w E (\<lambda>t. post E ''wis2_data/tc_tracks'' t '''' (\<lambda>_. batch) (length batch) (\<lambda>_. k)))"
    using assms by (simp add: g_now g_post)
  ultimately show "\<exists>l'. ct_step (wis2_contract E) l s s' l' \<and> fulfils E l' (if batch = [] then k
      else now_w E (\<lambda>t. post E ''wis2_data/tc_tracks'' t '''' (\<lambda>_. batch) (length batch) (\<lambda>_. k)))"
    by (intro exI [of _ "l\<lparr>gh_tc_due := 0\<rparr>"]) simp
qed

text \<open>A thread appends to a batch only when it owes no flush of it.\<close>

lemma due_zero [simp]: "gh_cap_due l = 0 \<Longrightarrow> l\<lparr>gh_cap_due := 0\<rparr> = l" "gh_tc_due l = 0 \<Longrightarrow> l\<lparr>gh_tc_due := 0\<rparr> = l"
  by (cases l, simp)+

lemma g_enqueue_cap:
  assumes "gh_cap_due l = 0" "\<And>b. good_event E (ev b) \<and> \<not> is_snapshot (ev b)" "fulfils E l k"
  shows "fulfils E l (enqueue_cap_feature E ev feat k)"
proof (cases "we_marshal_cap E feat")
  case None
  then show ?thesis using assms(3) by (simp add: enqueue_cap_feature_def)
next
  case (Some b)
  show ?thesis
    unfolding enqueue_cap_feature_def Some option.case Let_def
  proof (rule guar_act)
    fix s :: wis2 and x s'
    assume "(capBatchLimit \<le> length (ws_cap (emit_event (ev b) (s\<lparr>ws_cap := ws_cap s @ [b]\<rparr>))),
      emit_event (ev b) (s\<lparr>ws_cap := ws_cap s @ [b]\<rparr>)) = (x, s')"
    then have x: "x \<longleftrightarrow> 50 \<le> length (ws_cap s) + 1" and s': "s' = s\<lparr>ws_cap := ws_cap s @ [b], ws_events := ws_events s @ [ev b]\<rparr>"
      by (auto simp: emit_event_def capBatchLimit_def)
    let ?l = "l\<lparr>gh_cap_due := if x then 1 else 0\<rparr>"
    have "health_total f s' k = health_total f s k" for f k
      by (rule health_total_events [of _ _ "[ev b]"]) (simp_all add: s' assms(2))
    then have "wis2_step E l s s' ?l" using assms(1,2) x by (auto simp: wis2_step_def batch_step_def) (simp_all add: s')
    moreover have "?l\<lparr>gh_cap_due := 0\<rparr> = l" using assms(1) by simp
    then have "fulfils E ?l (if x then flush_cap_batch E k else k)"
      using assms(1,3) g_flush_cap [of E ?l k] by (cases x) simp_all
    ultimately show "\<exists>l'. ct_step (wis2_contract E) l s s' l' \<and> fulfils E l' (if x then flush_cap_batch E k else k)"
      by (intro exI [of _ ?l]) simp
  qed
qed

lemma g_enqueue_tc:
  assumes "gh_tc_due l = 0" "\<And>b. good_event E (ev b) \<and> \<not> is_snapshot (ev b)" "fulfils E l k"
  shows "fulfils E l (enqueue_tc_feature E ev feat k)"
proof (cases "we_marshal_tc E feat")
  case None
  then show ?thesis using assms(3) by (simp add: enqueue_tc_feature_def)
next
  case (Some b)
  show ?thesis
    unfolding enqueue_tc_feature_def Some option.case Let_def
  proof (rule guar_act)
    fix s :: wis2 and x s'
    assume "(tcBatchLimit \<le> length (ws_tc (emit_event (ev b) (s\<lparr>ws_tc := ws_tc s @ [b]\<rparr>))),
      emit_event (ev b) (s\<lparr>ws_tc := ws_tc s @ [b]\<rparr>)) = (x, s')"
    then have x: "x \<longleftrightarrow> 50 \<le> length (ws_tc s) + 1" and s': "s' = s\<lparr>ws_tc := ws_tc s @ [b], ws_events := ws_events s @ [ev b]\<rparr>"
      by (auto simp: emit_event_def tcBatchLimit_def)
    let ?l = "l\<lparr>gh_tc_due := if x then 1 else 0\<rparr>"
    have "health_total f s' k = health_total f s k" for f k
      by (rule health_total_events [of _ _ "[ev b]"]) (simp_all add: s' assms(2))
    then have "wis2_step E l s s' ?l" using assms(1,2) x by (auto simp: wis2_step_def batch_step_def) (simp_all add: s')
    moreover have "?l\<lparr>gh_tc_due := 0\<rparr> = l" using assms(1) by simp
    then have "fulfils E ?l (if x then flush_tc_batch E k else k)"
      using assms(1,3) g_flush_tc [of E ?l k] by (cases x) simp_all
    ultimately show "\<exists>l'. ct_step (wis2_contract E) l s s' l' \<and> fulfils E l' (if x then flush_tc_batch E k else k)"
      by (intro exI [of _ ?l]) simp
  qed
qed

section \<open>The observation queue\<close>

lemma append_to_len [simp]: "sl_len (oq_batch (append_to grow s xs q)) = sl_len s + length xs"
  "oq_cap (append_to grow s xs q) = oq_cap q"
  by (auto simp: append_to_def append_slice_def Let_def split: prod.split)

lemma drop_oldest_len:
  assumes "0 \<le> n" "n \<le> int (sl_len (oq_batch q))"
  obtains q' where "drop_oldest n q = Some q'" "int (sl_len (oq_batch q')) = int (sl_len (oq_batch q)) - n" "oq_cap q' = oq_cap q"
  using assms by (auto simp: drop_oldest_def slice_from_def)

lemma enqueue_obs_ok:
  assumes "obs_ok q"
  obtains q' b where "enqueue_observation grow f q = Some (q', b)" "obs_ok q'"
proof (cases "oq_cap q \<le> int (sl_len (oq_batch q))")
  case True
  then have "0 \<le> int (sl_len (oq_batch q)) - oq_cap q + 1" "int (sl_len (oq_batch q)) - oq_cap q + 1 \<le> int (sl_len (oq_batch q))"
    using assms by (simp_all add: obs_ok_def defaultObsQueueCap_def)
  then obtain q' where q': "drop_oldest (int (sl_len (oq_batch q)) - oq_cap q + 1) q = Some q'"
    "int (sl_len (oq_batch q')) = int (sl_len (oq_batch q)) - (int (sl_len (oq_batch q)) - oq_cap q + 1)" "oq_cap q' = oq_cap q"
    by (rule drop_oldest_len)
  from q'(2) have "int (sl_len (oq_batch q')) = oq_cap q - 1" by linarith
  with q' show thesis using that True assms by (simp add: enqueue_observation_def Let_def obs_ok_def)
next
  case False
  then show thesis using that assms by (simp add: enqueue_observation_def Let_def obs_ok_def)
qed

lemma requeue_obs_ok:
  assumes "obs_ok q"
  obtains q' where "requeue_batch grow batch q = Some q'" "obs_ok q'"
proof -
  define q1 where "q1 = append_to grow batch (read_slice (oq_store q) (oq_batch q)) q"
  have cap: "oq_cap q1 = oq_cap q" by (simp add: q1_def)
  show thesis
  proof (cases "oq_cap q1 < int (sl_len (oq_batch q1))")
    case True
    then have "0 \<le> int (sl_len (oq_batch q1)) - oq_cap q1" "int (sl_len (oq_batch q1)) - oq_cap q1 \<le> int (sl_len (oq_batch q1))"
      using assms cap by (simp_all add: obs_ok_def defaultObsQueueCap_def)
    then obtain q' where "drop_oldest (int (sl_len (oq_batch q1)) - oq_cap q1) q1 = Some q'"
      "int (sl_len (oq_batch q')) = int (sl_len (oq_batch q1)) - (int (sl_len (oq_batch q1)) - oq_cap q1)" "oq_cap q' = oq_cap q1"
      using drop_oldest_len by blast
    then show thesis using that True assms cap by (simp add: requeue_batch_def Let_def obs_ok_def flip: q1_def)
  next
    case False
    then show thesis using that assms cap by (simp add: requeue_batch_def Let_def obs_ok_def flip: q1_def)
  qed
qed

lemma take_obs_ok: "obs_ok q \<Longrightarrow> take_batch q = Some (batch, q') \<Longrightarrow> obs_ok q'"
  by (auto simp: take_batch_def Let_def obs_ok_def slice_from_def split: if_split_asm)

text \<open>An action on the queue that does not panic.\<close>

lemma g_obs_action:
  assumes "\<And>q. obs_ok q \<Longrightarrow> \<exists>x q'. f q = Some (x, q') \<and> obs_ok q'" "\<And>x. fulfils E l (k x)"
  shows "fulfils E l (obs_action f k)"
  unfolding obs_action_def
proof (rule guar_Act)
  fix s :: wis2 and p s'
  assume "ct_pre (wis2_contract E) s" and step: "(case f (ws_obs s) of None \<Rightarrow> Some (stuck, s\<lparr>ws_panicked := True\<rparr>)
    | Some (x, q) \<Rightarrow> Some (k x, s\<lparr>ws_obs := q\<rparr>)) = Some (p, s')"
  then obtain x q where "f (ws_obs s) = Some (x, q)" "obs_ok q" using assms(1) [of "ws_obs s"] by auto
  then have p: "p = k x" and s': "s' = s\<lparr>ws_obs := q\<rparr>" and q: "obs_ok q" using step by auto
  have "wis2_step E l s s' l" by (rule plain_step [of _ _ "[]"]) (simp_all add: s' q)
  then show "\<exists>l'. ct_step (wis2_contract E) l s s' l' \<and> fulfils E l' p" using assms(2) p by auto
qed (auto split: option.splits prod.splits)

lemma requeue_some: "obs_ok q \<Longrightarrow> \<exists>q'. requeue_batch grow batch q = Some q' \<and> obs_ok q'"
  by (rule requeue_obs_ok) auto

lemma g_flush_obs: "fulfils E l k \<Longrightarrow> fulfils E l (flush_obs_batch E k)"
  unfolding flush_obs_batch_def
  by (rule fulfils_plain)
    (auto split: option.splits prod.splits if_splits intro!: g_now g_post g_obs_action requeue_some dest: take_obs_ok)

lemma g_enqueue_obs:
  assumes "\<And>b. good_event E (ev b) \<and> \<not> is_snapshot (ev b)" "fulfils E l k"
  shows "fulfils E l (enqueue_observation_feature E ev feat k)"
proof (cases "we_marshal_obs E feat")
  case None
  then show ?thesis using assms(2) by (simp add: enqueue_observation_feature_def)
next
  case (Some b)
  show ?thesis
    unfolding enqueue_observation_feature_def Some option.case
  proof (rule guar_upd [where l' = l])
    fix s :: wis2
    show "ct_step (wis2_contract E) l s (emit_event (ev b) s) l"
      by (simp, rule plain_step [of _ _ "[ev b]"]) (simp_all add: emit_event_def assms(1))
    show "fulfils E l (obs_action (\<lambda>q. map_option (\<lambda>(q, flushNow). (flushNow, q)) (enqueue_observation (we_grow E) b q))
        (\<lambda>flushNow. if flushNow then flush_obs_batch E k else k))"
    proof (rule g_obs_action)
      fix q
      assume "obs_ok q"
      then obtain q' c where "enqueue_observation (we_grow E) b q = Some (q', c)" "obs_ok q'" by (rule enqueue_obs_ok)
      then show "\<exists>x q'. map_option (\<lambda>(q, flushNow). (flushNow, q)) (enqueue_observation (we_grow E) b q) = Some (x, q') \<and> obs_ok q'"
        by auto
    qed (simp add: assms(2) g_flush_obs)
  qed
qed

section \<open>Downloads and slots\<close>

definition downloaded :: "wis2_env \<Rightarrow> string \<Rightarrow> bool" where
  "downloaded E data \<longleftrightarrow> (\<exists>i. read_download E (we_download E i) = Some data)"

lemma g_request: "(\<And>i. fulfils E l (k (we_download E i))) \<Longrightarrow> fulfils E l (request E url k)"
  unfolding request_def by (rule fulfils_plain) (auto simp: plain_state good_event_def is_snapshot_def)

lemma g_wait: "(\<And>c. fulfils E l (k c)) \<Longrightarrow> fulfils E l (wait_or_cancel E d k)"
  unfolding wait_or_cancel_def
  by (rule fulfils_plain) (auto simp: plain_state good_event_def is_snapshot_def split: if_split_asm)

lemma g_download:
  assumes "\<And>data. downloaded E data \<Longrightarrow> fulfils E l (k (Some data))" "fulfils E l (k None)"
  shows "fulfils E l (download_payload E url k)"
proof -
  have reply: "fulfils E l (k (read_download E (we_download E i)))" for i
    using assms by (cases "read_download E (we_download E i)") (auto simp: downloaded_def)
  have retry: "fulfils E l (now_w E (\<lambda>t. wait_or_cancel E (retry_wait E t h) (\<lambda>cancelled.
      if cancelled then k None else request E url (\<lambda>x. k (read_download E x)))))" for h
    using assms(2) reply by (auto intro!: g_now g_wait g_request)
  show ?thesis
    unfolding download_payload_def
  proof (rule g_request)
    fix i
    show "fulfils E l (case we_download E i of
        DlResponse status header content broken \<Rightarrow>
          if status = 429 then now_w E (\<lambda>t. wait_or_cancel E (retry_wait E t header) (\<lambda>cancelled.
            if cancelled then k None else request E url (\<lambda>x. k (read_download E x))))
          else k (read_download E (we_download E i))
      | _ \<Rightarrow> k None)"
      using assms(2) retry reply [of i] by (cases "we_download E i") simp_all
  qed
qed

lemma g_try_links:
  assumes "\<And>data url. downloaded E data \<Longrightarrow> fulfils E l (k (Some (data, url)))" "fulfils E l (k None)"
  shows "fulfils E l (try_links E ls k)"
  by (induction ls) (simp_all add: assms g_download)

lemma concurrency_pos: "0 < concurrency E"
  by (simp add: concurrency_def)

lemma g_acquire:
  assumes "gh_slot l = 0" "gh_report l = 0" "fulfils E (l\<lparr>gh_slot := 1\<rparr>) (k True)" "fulfils E l (k False)"
  shows "fulfils E l (acquire_slot E k)"
  unfolding acquire_slot_def
proof (rule guar_await)
  fix s :: wis2 and x s'
  assume step: "(if ws_cancelled s \<and> (we_choice E (ws_tick s) \<or> concurrency E \<le> ws_slots s) then Some (False, tick_on s)
    else if ws_slots s < concurrency E then Some (True, tick_on (s\<lparr>ws_slots := ws_slots s + 1\<rparr>)) else None) = Some (x, s')"
  show "\<exists>l'. ct_step (wis2_contract E) l s s' l' \<and> fulfils E l' (k x)"
  proof (cases x)
    case True
    then have "ws_slots s < concurrency E" and s': "s' = tick_on (s\<lparr>ws_slots := ws_slots s + 1\<rparr>)"
      using step by (auto split: if_split_asm)
    then have "wis2_step E l s s' (l\<lparr>gh_slot := 1\<rparr>)" using assms(1) by (simp add: wis2_step_def tick_on_def batch_step_same)
    then show ?thesis using assms(3) True by auto
  next
    case False
    then have "s' = tick_on s" using step by (auto split: if_split_asm)
    then have "wis2_step E l s s' l" by (intro plain_step [of _ _ "[]"]) (simp_all add: tick_on_def)
    then show ?thesis using assms(4) False by auto
  qed
next
  fix s :: wis2
  assume "(if ws_cancelled s \<and> (we_choice E (ws_tick s) \<or> concurrency E \<le> ws_slots s) then Some (False, tick_on s)
    else if ws_slots s < concurrency E then Some (True, tick_on (s\<lparr>ws_slots := ws_slots s + 1\<rparr>)) else None) = None"
  then show "ct_block (wis2_contract E) l s" using assms(1,2) by (auto split: if_split_asm)
qed

lemma g_release:
  assumes "gh_slot l = 1" "fulfils E (l\<lparr>gh_slot := 0\<rparr>) k"
  shows "fulfils E l (release_slot k)"
  unfolding release_slot_def
proof (rule guar_upd [where l' = "l\<lparr>gh_slot := 0\<rparr>"])
  fix s :: wis2
  show "ct_step (wis2_contract E) l s (s\<lparr>ws_slots := ws_slots s - 1\<rparr>) (l\<lparr>gh_slot := 0\<rparr>)"
    using assms(1) by (auto simp: wis2_step_def batch_step_same)
qed (rule assms(2))

lemma g_fetch:
  assumes "gh_slot l = 0" "gh_report l = 0" "\<And>data url. downloaded E data \<Longrightarrow> fulfils E l (k (Some (data, url)))"
    "fulfils E l (k None)" "fulfils E l stop"
  shows "fulfils E l (fetch_payload E links k stop)"
proof -
  let ?l = "l\<lparr>gh_slot := 1\<rparr>"
  have restored: "?l\<lparr>gh_slot := 0\<rparr> = l" using assms(1) by simp
  have found: "fulfils E ?l (release_slot (k (Some (data, url))))" if "downloaded E data" for data url
    using assms(3) [OF that] by (intro g_release) (simp_all only: restored, simp)
  have none: "fulfils E ?l (release_slot (k None))"
    using assms(4) by (intro g_release) (simp_all only: restored, simp)
  have "fulfils E ?l (try_links E ls (\<lambda>r. release_slot (k r)))" for ls
    by (rule g_try_links) (rule found none, assumption?)+
  then show ?thesis
    using assms(1,2,5) found unfolding fetch_payload_def by (auto intro!: g_acquire g_download split: option.splits)
qed

section \<open>Health\<close>

lemma g_create:
  assumes "gh_slot l = 0" "gh_report l = 0" "fulfils E (l\<lparr>gh_known := True\<rparr>) k"
  shows "fulfils E l (get_or_create_health E (gh_key l) k)"
  unfolding get_or_create_health_def
proof (rule guar_await)
  fix s :: wis2 and x s'
  assume step: "(if ws_health_locked s then None
    else if map_of (ws_health s) (gh_key l) \<noteq> None then Some ((), s)
    else (let s = pass_time E s in Some ((), s\<lparr>ws_health := ws_health s @ [(gh_key l, new_counters (ws_clock s))]\<rparr>))) = Some (x, s')"
  have "wis2_step E l s s' (l\<lparr>gh_known := True\<rparr>)"
  proof (cases "map_of (ws_health s) (gh_key l)")
    case None
    let ?s = "pass_time E s"
    have s': "s' = ?s\<lparr>ws_health := ws_health ?s @ [(gh_key l, new_counters (ws_clock ?s))]\<rparr>"
      using step None by (auto simp: Let_def split: if_split_asm)
    have "f (new_counters (ws_clock ?s)) = 0 \<Longrightarrow> health_total f s' k = health_total f s k" for f k
      unfolding s' using None by (subst health_total_create) (simp_all add: plain_state)
    then have "health_total hc_received s' k = health_total hc_received s k" "health_total failures s' k = health_total failures s k" for k
      by (simp_all add: new_counters_def failures_def)
    then show ?thesis by (simp add: wis2_step_def batch_step_same) (auto simp: s' plain_state map_add_def batch_step_same split: option.splits)
  next
    case (Some c)
    then have "s' = s" using step by (auto split: if_split_asm)
    then show ?thesis using Some by (auto simp: wis2_step_def batch_step_same)
  qed
  then show "\<exists>l'. ct_step (wis2_contract E) l s s' l' \<and> fulfils E l' k" using assms(3) by auto
next
  fix s :: wis2
  assume "(if ws_health_locked s then None
    else if map_of (ws_health s) (gh_key l) \<noteq> None then Some ((), s)
    else (let s = pass_time E s in Some ((), s\<lparr>ws_health := ws_health s @ [(gh_key l, new_counters (ws_clock s))]\<rparr>))) = None"
  then show "ct_block (wis2_contract E) l s" using assms(1,2) by (auto simp: Let_def split: if_split_asm)
qed

lemma health_total_counted:
  assumes "map_of (ws_health s) key = Some c"
  shows "health_total f (s\<lparr>ws_health := update_health key g (ws_health s)\<rparr>) k + (if k = key then f c else 0)
    = health_total f s k + (if k = key then f (g c) else 0)"
  using assms by (auto simp: health_total_def map_of_update_health)

lemma g_count:
  assumes "gh_known l" "gh_key l' = gh_key l" "gh_slot l' = gh_slot l" "gh_report l' = gh_report l"
    "gh_cap_due l' = gh_cap_due l" "gh_tc_due l' = gh_tc_due l"
    "\<And>c. hc_received (g c) + gh_pending l' = hc_received c + gh_pending l"
    "\<And>c. failures (g c) + gh_credit l' + hc_received c \<le> failures c + gh_credit l + hc_received (g c)"
    "fulfils E l' k"
  shows "fulfils E l (count (gh_key l) g k)"
  unfolding count_def
proof (rule guar_upd [where l' = l'])
  fix s :: wis2
  let ?s = "s\<lparr>ws_health := update_health (gh_key l) g (ws_health s)\<rparr>"
  have "wis2_step E l s ?s l'"
  proof (cases "map_of (ws_health s) (gh_key l)")
    case None
    then show ?thesis using assms(1) by (simp add: wis2_step_def)
  next
    case (Some c)
    note t = health_total_counted [OF Some, of _ g]
    have "health_total hc_received ?s k + mine gh_pending k l' = health_total hc_received s k + mine gh_pending k l" for k
      using t [of hc_received k] assms(7) [of c] assms(2) by (auto simp: mine_def split: if_split_asm)
    moreover have "health_total failures ?s k + mine gh_credit k l' + health_total hc_received s k
        \<le> health_total failures s k + mine gh_credit k l + health_total hc_received ?s k" for k
      using t [of failures k] t [of hc_received k] assms(8) [of c] assms(2) by (auto simp: mine_def split: if_split_asm)
    ultimately show ?thesis using assms(2-6) Some by (auto simp: wis2_step_def batch_step_same map_of_update_health)
  qed
  then show "ct_step (wis2_contract E) l s ?s l'" by simp
qed (rule assms(9))

section \<open>The handlers\<close>

text \<open>A thread that has counted its notification as received and may still count a failure.\<close>

definition handling :: "ghost \<Rightarrow> bool" where
  "handling l \<longleftrightarrow> gh_known l \<and> gh_pending l = 0 \<and> gh_credit l = 1 \<and> gh_slot l = 0 \<and> gh_report l = 0
     \<and> gh_cap_due l = 0 \<and> gh_tc_due l = 0"

lemma handling_Done: "handling l \<Longrightarrow> fulfils E l Done"
  by (simp add: handling_def)

lemma g_received:
  assumes "gh_known l" "gh_pending l = 1" "gh_credit l = 0" "fulfils E (l\<lparr>gh_pending := 0, gh_credit := 1\<rparr>) k"
  shows "fulfils E l (record_received (gh_key l) t k)"
  unfolding record_received_def
  by (rule g_count [where l' = "l\<lparr>gh_pending := 0, gh_credit := 1\<rparr>"]) (use assms in \<open>simp_all add: failures_def\<close>)

lemma g_failed:
  assumes "handling l" "\<And>c. failures (g c) = failures c + 1" "\<And>c. hc_received (g c) = hc_received c"
  shows "fulfils E l (count (gh_key l) g Done)"
  by (rule g_count [where l' = "l\<lparr>gh_credit := 0\<rparr>"]) (use assms in \<open>simp_all add: handling_def\<close>)

lemma g_failures:
  assumes "handling l"
  shows "fulfils E l (record_duplicate (gh_key l) Done)" "fulfils E l (record_download_failed (gh_key l) Done)"
    "fulfils E l (record_decode_failed (gh_key l) Done)" "fulfils E l (record_integrity_failed (gh_key l) Done)"
  using assms
  by (simp_all add: record_duplicate_def record_download_failed_def record_decode_failed_def record_integrity_failed_def
      g_failed failures_def)

definition good_notice :: "wis2_env \<Rightarrow> notice \<Rightarrow> bool" where
  "good_notice E n \<longleftrightarrow> we_parse_wnm E (nt_payload n) = Some (nt_msg n) \<and> obtained E (nt_msg n) (nt_data n)
     \<and> check_integrity (we_hashes E) (nt_data n) (pp_integrity (wm_properties (nt_msg n)))
     \<and> snd (snd (classify_topic (nt_topic n))) \<in> {''warnings'', ''trajectory'', ''synop''}"

lemma notice_event_good: "good_notice E n \<Longrightarrow> good_event E (notice_event n b) \<and> \<not> is_snapshot (notice_event n b)"
  by (auto simp: good_notice_def good_event_def notice_event_def is_snapshot_def)

lemma g_decode_payload:
  assumes "handling l" "\<And>msgs. fulfils E l (k msgs)"
  shows "fulfils E l (decode_payload E (gh_key l) n k)"
  using assms g_failures [OF assms(1)] by (auto simp: decode_payload_def Let_def split: prod.splits)

lemma g_trajectory:
  assumes "handling l" "good_notice E n"
  shows "fulfils E l (handle_trajectory E (gh_key l) n)"
  unfolding handle_trajectory_def
proof (rule g_decode_payload [OF assms(1)])
  fix msgs
  have "fulfils E l (each_then (\<lambda>storm. enqueue_tc_feature E (notice_event n) (tc_feature_of n storm)) storms Done)" for storms
    using assms(1) notice_event_good [OF assms(2)] handling_Done [OF assms(1)]
    by (auto intro!: guar_each g_enqueue_tc simp: handling_def)
  then show "fulfils E l (case extract_storms (we_overflow E) 0 msgs of None \<Rightarrow> stuck
      | Some storms \<Rightarrow> each_then (\<lambda>storm. enqueue_tc_feature E (notice_event n) (tc_feature_of n storm)) storms Done)"
    using assms(1) by (auto simp: handling_def intro: guar_stuck split: option.split)
qed

lemma g_synop:
  assumes "handling l" "good_notice E n"
  shows "fulfils E l (handle_synop E (gh_key l) n)"
  unfolding handle_synop_def
  using assms(1) notice_event_good [OF assms(2)] handling_Done [OF assms(1)]
  by (intro g_decode_payload) (auto intro!: guar_each g_enqueue_obs)

lemma g_find_area:
  assumes "\<And>a. fulfils E l (k a)"
  shows "fulfils E l (find_area E n k)"
proof -
  have any: "fulfils E l (k a)" for a by (rule assms)
  show ?thesis unfolding find_area_def Let_def by (auto intro!: g_download any split: option.split)
qed

lemma g_warnings:
  assumes "handling l" "good_notice E n"
  shows "fulfils E l (handle_warnings E (gh_key l) n)"
proof -
  have "fulfils E l (find_area E n (\<lambda>area. enqueue_cap_feature E (notice_event n) (cap_feature_of E n alert rawXML area) Done))"
    for alert rawXML
    using assms(1) notice_event_good [OF assms(2)] handling_Done [OF assms(1)]
    by (auto intro!: g_find_area g_enqueue_cap simp: handling_def)
  then show ?thesis
    using g_failures [OF assms(1)] by (auto simp: handle_warnings_def Let_def split: option.split)
qed

lemma g_dispatch:
  assumes "handling l" "we_parse_wnm E (nt_payload n) = Some (nt_msg n)" "obtained E (nt_msg n) (nt_data n)"
    "snd (snd (classify_topic (nt_topic n))) = snd (gh_key l)"
  shows "fulfils E l (dispatch E (gh_key l) n)"
proof (cases "check_integrity (we_hashes E) (nt_data n) (pp_integrity (wm_properties (nt_msg n)))
    \<and> snd (gh_key l) \<in> {''warnings'', ''trajectory'', ''synop''}")
  case True
  then have "good_notice E n" using assms by (simp add: good_notice_def)
  with True show ?thesis using g_warnings g_trajectory g_synop assms(1) unfolding dispatch_def by auto
next
  case False
  then show ?thesis using g_failures [OF assms(1)] handling_Done [OF assms(1)] unfolding dispatch_def by auto
qed

definition fresh_ghost :: "health_key \<Rightarrow> ghost" where
  "fresh_ghost key = \<lparr>gh_key = key, gh_known = False, gh_pending = 1, gh_credit = 0, gh_slot = 0, gh_report = 0, gh_cap_due = 0, gh_tc_due = 0\<rparr>"

definition key_of :: "string \<Rightarrow> health_key" where
  "key_of topic = snd (classify_topic topic)"

lemma make_notice_simps [simp]:
  "nt_msg (make_notice E topic payload channel centreID msg via url data) = msg"
  "nt_topic (make_notice E topic payload channel centreID msg via url data) = topic"
  "nt_payload (make_notice E topic payload channel centreID msg via url data) = payload"
  "nt_data (make_notice E topic payload channel centreID msg via url data) = data"
  by (simp_all add: make_notice_def)

lemma g_download_and_dispatch:
  assumes "handling l" "we_parse_wnm E payload = Some msg" "snd (snd (classify_topic topic)) = snd (gh_key l)"
  shows "fulfils E l (download_and_dispatch E (gh_key l) topic payload channel msg)"
  unfolding download_and_dispatch_def
  using assms g_failures [OF assms(1)] handling_Done [OF assms(1)]
  by (intro g_fetch) (auto simp: handling_def obtained_def downloaded_def intro!: g_dispatch)

lemma g_process_message:
  assumes "handling l" "we_parse_wnm E payload = Some msg" "snd (snd (classify_topic topic)) = snd (gh_key l)"
  shows "fulfils E l (process_message E (gh_key l) topic payload channel msg)"
proof -
  have "fulfils E l (dispatch E (gh_key l) (make_notice E topic payload channel (fst (gh_key l)) msg ''inline'' None data))"
    if "pp_content (wm_properties msg) = Some c" "ct_value c \<noteq> ''''" "inline_payload c = Some data" for c data
    using that assms by (intro g_dispatch) (auto simp: obtained_def)
  then show ?thesis
    unfolding process_message_def
    using g_failures [OF assms(1)] g_download_and_dispatch [OF assms]
    by (intro fulfils_plain) (auto simp: Let_def plain_state split: option.split prod.splits)
qed

lemma g_handle_message: "fulfils E (fresh_ghost (key_of topic)) (handle_message E topic payload)"
proof -
  obtain channel centreID kind where c: "classify_topic topic = (channel, centreID, kind)" by (cases "classify_topic topic")
  let ?f = "fresh_ghost (centreID, kind)"
  let ?k = "?f\<lparr>gh_known := True\<rparr>"
  let ?l = "?k\<lparr>gh_pending := 0, gh_credit := 1\<rparr>"
  have h: "handling ?l" by (simp add: handling_def fresh_ghost_def)
  have key: "gh_key ?f = (centreID, kind)" "gh_key ?k = (centreID, kind)" "gh_key ?l = (centreID, kind)" by (simp_all add: fresh_ghost_def)
  have "fulfils E ?l (case we_parse_wnm E payload of None \<Rightarrow> record_decode_failed (centreID, kind) Done
      | Some msg \<Rightarrow> process_message E (centreID, kind) topic payload channel msg)"
    using g_failures(3) [OF h] g_process_message [OF h, of E payload _ topic channel] c
    by (simp add: key split: option.split)
  then have "fulfils E ?k (record_received (gh_key ?k) t (case we_parse_wnm E payload of None \<Rightarrow> record_decode_failed (centreID, kind) Done
      | Some msg \<Rightarrow> process_message E (centreID, kind) topic payload channel msg))" for t
    by (intro g_received) (simp_all add: fresh_ghost_def)
  then have "fulfils E ?f (get_or_create_health E (gh_key ?f) (now_w E (\<lambda>t. record_received (centreID, kind) t
      (case we_parse_wnm E payload of None \<Rightarrow> record_decode_failed (centreID, kind) Done
      | Some msg \<Rightarrow> process_message E (centreID, kind) topic payload channel msg))))"
    unfolding key by (intro g_create [of ?f, unfolded key]) (auto intro!: g_now simp: fresh_ghost_def)
  then show ?thesis by (simp add: key_of_def c handle_message_def key Let_def)
qed

lemma g_snapshots:
  assumes "\<And>acc. fulfils E l (k acc)"
  shows "fulfils E l (take_snapshots keys windowEnd acc k)"
proof (induction keys arbitrary: acc)
  case (Cons key keys)
  have "wis2_step E l s s' l" if "swap_counters key windowEnd s = (c, s')" for s c s'
  proof -
    have s': "s' = snd (swap_counters key windowEnd s)" using that by simp
    have "health_total hc_received s' k = health_total hc_received s k" "health_total failures s' k = health_total failures s k" for k
      unfolding s' by (simp_all add: health_total_swap new_counters_def failures_def)
    moreover have "ws_slots s' = ws_slots s" "ws_health_locked s' = ws_health_locked s" "ws_cap s' = ws_cap s" "ws_tc s' = ws_tc s"
      "ws_obs s' = ws_obs s" "ws_panicked s' = ws_panicked s" "\<exists>es. ws_events s' = ws_events s @ es \<and> list_all (good_event E) es"
      "\<And>k. map_of (ws_health s') k = None \<longleftrightarrow> map_of (ws_health s) k = None"
      by (auto simp: s' swap_counters_def emit_event_def good_event_def map_of_update_health split: option.split)
    ultimately show ?thesis by (auto simp: wis2_step_def batch_step_same)
  qed
  then show ?case using Cons.IH by (auto intro!: guar_act exI [of _ l])
qed (simp add: assms)

lemma g_report:
  assumes "gh_slot l = 0" "gh_report l = 0" "fulfils E l k"
  shows "fulfils E l (report_health E k)"
  unfolding report_health_def
proof (rule g_now, rule guar_await)
  fix t and s :: wis2 and keys s'
  let ?l = "l\<lparr>gh_report := 1\<rparr>"
  have restored: "l\<lparr>gh_report := 0\<rparr> = l" using assms(2) by (cases l) simp
  assume "(if ws_health_locked s then None else Some (map fst (ws_health s), s\<lparr>ws_health_locked := True\<rparr>)) = Some (keys, s')"
  then have s': "s' = s\<lparr>ws_health_locked := True\<rparr>" by (simp split: if_split_asm)
  have "wis2_step E l s s' ?l" by (auto simp: s' wis2_step_def batch_step_same)
  moreover have unlock: "fulfils E ?l (upd (\<lambda>s. s\<lparr>ws_health_locked := False\<rparr>) rest)" if "fulfils E l rest" for rest
    by (rule guar_upd [where l' = "?l\<lparr>gh_report := 0\<rparr>"]) (auto simp: wis2_step_def batch_step_same assms(2) restored that)
  have "fulfils E ?l (take_snapshots keys t [] (\<lambda>snapshots.
     upd (\<lambda>s. s\<lparr>ws_health_locked := False\<rparr>) (
       let features = List.map_filter (\<lambda>i. we_marshal_health E (health_feature_of t i)) snapshots in
       broker_w E (\<lambda>(connected, lastError, _).
       let errStr = (if connected then '''' else if lastError = '''' then ''disconnected'' else lastError) in
       post E ''wis2_data/health'' t errStr (\<lambda>_. features) (length features) (\<lambda>_. k)))))"
    unfolding Let_def by (intro g_snapshots unlock g_broker) (auto intro!: g_post assms(3))
  ultimately show "\<exists>l'. ct_step (wis2_contract E) l s s' l' \<and> fulfils E l' (take_snapshots keys t [] (\<lambda>snapshots.
     upd (\<lambda>s. s\<lparr>ws_health_locked := False\<rparr>) (
       let features = List.map_filter (\<lambda>i. we_marshal_health E (health_feature_of t i)) snapshots in
       broker_w E (\<lambda>(connected, lastError, _).
       let errStr = (if connected then '''' else if lastError = '''' then ''disconnected'' else lastError) in
       post E ''wis2_data/health'' t errStr (\<lambda>_. features) (length features) (\<lambda>_. k)))))"
    by (intro exI [of _ ?l]) simp
next
  fix s :: wis2
  assume "(if ws_health_locked s then None else Some (map fst (ws_health s), s\<lparr>ws_health_locked := True\<rparr>)) = None"
  then show "ct_block (wis2_contract E) l s" using assms(1,2) by (simp split: if_split_asm)
qed

section \<open>The invariant of all threads\<close>

definition wis2_inv :: "wis2_env \<Rightarrow> (health_key \<Rightarrow> nat) \<Rightarrow> ghost list \<Rightarrow> wis2 \<Rightarrow> bool" where
  "wis2_inv E picked ls s \<longleftrightarrow>
     obs_ok (ws_obs s) \<and> \<not> ws_panicked s
     \<and> (\<forall>l \<in> set ls. (gh_known l \<longrightarrow> map_of (ws_health s) (gh_key l) \<noteq> None) \<and> gh_cap_due l \<le> 1 \<and> gh_tc_due l \<le> 1)
     \<and> (\<forall>k. health_total hc_received s k + sum_list (map (mine gh_pending k) ls) = picked k)
     \<and> (\<forall>k. health_total failures s k + sum_list (map (mine gh_credit k) ls) \<le> health_total hc_received s k)
     \<and> ws_slots s = sum_list (map gh_slot ls) \<and> ws_slots s \<le> concurrency E
     \<and> (ws_health_locked s \<longrightarrow> 1 \<le> sum_list (map gh_report ls))
     \<and> length (ws_cap s) \<le> 49 + sum_list (map gh_cap_due ls)
     \<and> length (ws_tc s) \<le> 49 + sum_list (map gh_tc_due ls)
     \<and> list_all (good_event E) (ws_events s)"

lemma sum_list_update_nat:
  fixes f :: "'a \<Rightarrow> nat"
  assumes "i < length ls"
  shows "sum_list (map f (ls[i := l])) + f (ls ! i) = sum_list (map f ls) + f l"
  using assms by (induction ls arbitrary: i) (auto simp: less_Suc_eq_0_disj split: nat.split)

lemma in_sum:
  fixes f :: "'a \<Rightarrow> nat"
  assumes "x \<in> set xs"
  shows "f x \<le> sum_list (map f xs)"
  using assms by (simp add: member_le_sum_list)

lemma batch_stable:
  assumes "batch_step b (due (ls ! i)) b' (due l)" "length b \<le> 49 + sum_list (map due ls)" "i < length ls"
  shows "length b' \<le> 49 + sum_list (map due (ls[i := l]))"
  using assms sum_list_update_nat [OF assms(3), of due l] by (auto simp: batch_step_def)

lemma wis2_stable:
  assumes inv: "wis2_inv E picked ls s" and i: "i < length ls" and step: "wis2_step E (ls ! i) s s' l"
  shows "wis2_inv E picked (ls[i := l]) s'"
proof -
  have mem: "ls ! i \<in> set ls" using i by simp
  note upd = sum_list_update_nat [OF i]
  have "gh_slot (ls ! i) \<le> ws_slots s" using inv in_sum [OF mem, of gh_slot] by (simp add: wis2_inv_def)
  then have G: "gh_key l = gh_key (ls ! i)" "\<And>k. map_of (ws_health s) k \<noteq> None \<Longrightarrow> map_of (ws_health s') k \<noteq> None"
    "gh_known l \<Longrightarrow> map_of (ws_health s') (gh_key (ls ! i)) \<noteq> None"
    "\<And>k. health_total hc_received s' k + mine gh_pending k l = health_total hc_received s k + mine gh_pending k (ls ! i)"
    "\<And>k. health_total failures s' k + mine gh_credit k l + health_total hc_received s k
       \<le> health_total failures s k + mine gh_credit k (ls ! i) + health_total hc_received s' k"
    "ws_slots s' + gh_slot (ls ! i) = ws_slots s + gh_slot l" "ws_slots s \<le> concurrency E \<Longrightarrow> ws_slots s' \<le> concurrency E"
    "ws_health_locked s' \<Longrightarrow> 1 \<le> gh_report l \<or> ws_health_locked s \<and> gh_report (ls ! i) \<le> gh_report l"
    "batch_step (ws_cap s) (gh_cap_due (ls ! i)) (ws_cap s') (gh_cap_due l)"
    "batch_step (ws_tc s) (gh_tc_due (ls ! i)) (ws_tc s') (gh_tc_due l)"
    "obs_ok (ws_obs s) \<Longrightarrow> obs_ok (ws_obs s')" "ws_panicked s' \<Longrightarrow> ws_panicked s"
    "\<exists>es. ws_events s' = ws_events s @ es \<and> list_all (good_event E) es"
    using step inv mem unfolding wis2_step_def wis2_inv_def by blast+
  have "obs_ok (ws_obs s')" "\<not> ws_panicked s'" using G(11,12) inv by (auto simp: wis2_inv_def)
  moreover have "(gh_known m \<longrightarrow> map_of (ws_health s') (gh_key m) \<noteq> None) \<and> gh_cap_due m \<le> 1 \<and> gh_tc_due m \<le> 1"
    if "m \<in> set (ls[i := l])" for m
  proof -
    from that have "m = l \<or> m \<in> set ls" using set_update_subset_insert by fast
    then show ?thesis
    proof
      assume "m = l"
      then show ?thesis using G(1,3,9,10) by (auto simp: batch_step_def)
    next
      assume "m \<in> set ls"
      then show ?thesis using inv G(2) unfolding wis2_inv_def by blast
    qed
  qed
  moreover have "health_total hc_received s' k + sum_list (map (mine gh_pending k) (ls[i := l])) = picked k" for k
  proof -
    have "health_total hc_received s k + sum_list (map (mine gh_pending k) ls) = picked k" using inv unfolding wis2_inv_def by blast
    then show ?thesis using G(4) [of k] upd [of "mine gh_pending k" l] by linarith
  qed
  moreover have "health_total failures s' k + sum_list (map (mine gh_credit k) (ls[i := l])) \<le> health_total hc_received s' k" for k
  proof -
    have "health_total failures s k + sum_list (map (mine gh_credit k) ls) \<le> health_total hc_received s k"
      using inv unfolding wis2_inv_def by blast
    then show ?thesis using G(5) [of k] upd [of "mine gh_credit k" l] by linarith
  qed
  moreover have "ws_slots s' = sum_list (map gh_slot (ls[i := l]))" "ws_slots s' \<le> concurrency E"
    using inv G(6,7) upd [of gh_slot l] by (auto simp: wis2_inv_def)
  moreover have "1 \<le> sum_list (map gh_report (ls[i := l]))" if "ws_health_locked s'"
    using G(8) [OF that] inv upd [of gh_report l] in_sum [of l "ls[i := l]" gh_report] i
    by (auto simp: wis2_inv_def set_update_memI)
  moreover have "length (ws_cap s') \<le> 49 + sum_list (map gh_cap_due (ls[i := l]))"
    using batch_stable [OF G(9) _ i] inv by (simp add: wis2_inv_def)
  moreover have "length (ws_tc s') \<le> 49 + sum_list (map gh_tc_due (ls[i := l]))"
    using batch_stable [OF G(10) _ i] inv by (simp add: wis2_inv_def)
  moreover have "list_all (good_event E) (ws_events s')" using G(13) inv by (auto simp: wis2_inv_def)
  ultimately show ?thesis unfolding wis2_inv_def by blast
qed

lemma sum_list_pos: "1 \<le> sum_list (map f ls) \<Longrightarrow> \<exists>j < length ls. 0 < (f (ls ! j) :: nat)"
  by (metis (no_types, lifting) gr0I in_set_conv_nth less_one linorder_not_less list.set_map sum_list_eq_0_iff image_iff)

interpretation wis2: ghost_threads "wis2_contract E" "wis2_inv E picked" for E picked
proof (unfold_locales, simp_all only: contract_simps)
  fix ls s and i :: nat
  assume inv: "wis2_inv E picked ls s"
  then show "obs_ok (ws_obs s)" by (simp add: wis2_inv_def)
  assume "i < length ls"
  then show "wis2_inv E picked (ls[i := l']) s'" if "wis2_step E (ls ! i) s s' l'" for s' l' using wis2_stable inv that by blast
  assume "gh_slot (ls ! i) = 0 \<and> gh_report (ls ! i) = 0 \<and> (ws_health_locked s \<or> concurrency E \<le> ws_slots s)"
  then have "1 \<le> sum_list (map gh_report ls) \<or> 1 \<le> sum_list (map gh_slot ls)"
    using inv concurrency_pos [of E] by (auto simp: wis2_inv_def)
  then show "\<exists>j < length ls. 0 < gh_slot (ls ! j) \<or> 0 < gh_report (ls ! j)" using sum_list_pos by blast
qed auto

section \<open>The system\<close>

definition picked_count :: "wis2_sys \<Rightarrow> health_key \<Rightarrow> nat" where
  "picked_count S k = length (filter (\<lambda>(topic, _). key_of topic = k) (sy_picked S))"

definition sys_inv :: "wis2_env \<Rightarrow> wis2_sys \<Rightarrow> bool" where
  "sys_inv E S \<longleftrightarrow> (\<exists>ls. wis2.pool_ok E (picked_count S) ls (sy_threads S) (sy_shared S))
     \<and> length (sy_threads S) = worker_pool_size E + 2 \<and> sy_inbound_cap S = defaultInboundCap \<and> length (sy_inbound S) \<le> defaultInboundCap"

lemma start_inv: "sys_inv E (start_wis2 E t)"
proof -
  let ?l = "(fresh_ghost ('''', ''''))\<lparr>gh_pending := 0\<rparr>"
  define n where "n = worker_pool_size E + 2"
  have "health_total f (new_wis2 t) k = 0" for f k by (simp add: health_total_def new_wis2_def)
  then have "wis2_inv E (\<lambda>_. 0) (replicate n ?l) (new_wis2 t)"
    by (simp add: wis2_inv_def sum_list_replicate mine_def fresh_ghost_def)
      (simp add: new_wis2_def new_obs_queue_def obs_ok_def defaultObsQueueCap_def)
  moreover have "list_all2 (thread_ok (wis2_contract E)) (replicate n ?l) (replicate n Idle)"
    by (simp add: list_all2_conv_all_nth fresh_ghost_def)
  ultimately have "wis2.pool_ok E (\<lambda>_. 0) (replicate n ?l) (replicate n Idle) (new_wis2 t)" by (simp add: wis2.pool_ok_def)
  moreover have "picked_count (start_wis2 E t) = (\<lambda>_. 0)" by (simp add: picked_count_def start_wis2_def fun_eq_iff)
  ultimately show ?thesis by (auto simp: sys_inv_def start_wis2_def n_def)
qed

lemma inv_start:
  assumes inv: "wis2_inv E picked ls s" and i: "i < length ls" and quiet: "ct_quiet (wis2_contract E) (ls ! i)"
  shows "wis2_inv E (picked(key := picked key + 1)) (ls[i := fresh_ghost key]) s"
proof -
  let ?l = "fresh_ghost key"
  note upd = sum_list_update_nat [OF i, of _ ?l]
  have z: "mine gh_pending k (ls ! i) = 0" "mine gh_credit k ?l = 0" "mine gh_pending k ?l = (if k = key then 1 else 0)" for k
    using quiet by (simp_all add: mine_def fresh_ghost_def)
  have zs: "gh_slot (ls ! i) = 0" "gh_report (ls ! i) = 0" "gh_cap_due (ls ! i) = 0" "gh_tc_due (ls ! i) = 0" using quiet by simp_all
  have c1: "health_total hc_received s k + sum_list (map (mine gh_pending k) (ls[i := ?l])) = (picked(key := picked key + 1)) k" for k
  proof -
    have "health_total hc_received s k + sum_list (map (mine gh_pending k) ls) = picked k" using inv unfolding wis2_inv_def by blast
    then show ?thesis using upd [of "mine gh_pending k"] z(1,3) [of k] by (simp split: if_split_asm)
  qed
  have c2: "health_total failures s k + sum_list (map (mine gh_credit k) (ls[i := ?l])) \<le> health_total hc_received s k" for k
  proof -
    have "health_total failures s k + sum_list (map (mine gh_credit k) ls) \<le> health_total hc_received s k"
      using inv unfolding wis2_inv_def by blast
    then show ?thesis using upd [of "mine gh_credit k"] z(2) [of k] by linarith
  qed
  have sums: "sum_list (map gh_slot (ls[i := ?l])) = sum_list (map gh_slot ls)" "sum_list (map gh_report (ls[i := ?l])) = sum_list (map gh_report ls)"
    "sum_list (map gh_cap_due (ls[i := ?l])) = sum_list (map gh_cap_due ls)" "sum_list (map gh_tc_due (ls[i := ?l])) = sum_list (map gh_tc_due ls)"
    using upd [of gh_slot] upd [of gh_report] upd [of gh_cap_due] upd [of gh_tc_due] zs by (simp_all add: fresh_ghost_def)
  have c3: "(gh_known m \<longrightarrow> map_of (ws_health s) (gh_key m) \<noteq> None) \<and> gh_cap_due m \<le> 1 \<and> gh_tc_due m \<le> 1"
    if "m \<in> set (ls[i := ?l])" for m
  proof -
    from that have "m = ?l \<or> m \<in> set ls" using set_update_subset_insert by fast
    then show ?thesis using inv unfolding wis2_inv_def by (auto simp: fresh_ghost_def)
  qed
  have base: "obs_ok (ws_obs s)" "\<not> ws_panicked s" "ws_slots s = sum_list (map gh_slot ls)" "ws_slots s \<le> concurrency E"
    "ws_health_locked s \<longrightarrow> 1 \<le> sum_list (map gh_report ls)" "length (ws_cap s) \<le> 49 + sum_list (map gh_cap_due ls)"
    "length (ws_tc s) \<le> 49 + sum_list (map gh_tc_due ls)" "list_all (good_event E) (ws_events s)"
    using inv unfolding wis2_inv_def by blast+
  show ?thesis unfolding wis2_inv_def sums using base c1 c2 c3 by blast
qed

lemma g_quiet:
  assumes "ct_quiet (wis2_contract E) l"
  shows "fulfils E l (flush_cap_batch E (flush_tc_batch E Done))" "fulfils E l (flush_obs_batch E Done)"
    "fulfils E l (report_health E Done)" "fulfils E l (flush_cap_batch E (flush_tc_batch E (flush_obs_batch E Done)))"
  using assms by (auto intro!: g_flush_cap g_flush_tc g_flush_obs g_report)

lemma start_keeps:
  assumes ok: "wis2.pool_ok E picked ls ts s" and i: "i < length ts" "ts ! i = Idle"
    and th: "\<And>l. ct_quiet (wis2_contract E) l \<Longrightarrow> thread_ok (wis2_contract E) l th"
  shows "\<exists>ls. wis2.pool_ok E picked ls (ts[i := th]) s"
proof -
  have "thread_ok (wis2_contract E) (ls ! i) th" using wis2.pool_ok_nth [OF ok i(1)] i(2) th by simp
  then have "wis2.pool_ok E picked (ls[i := ls ! i]) (ts[i := th]) s"
    using wis2.pool_ok_update [OF ok, of i "ls ! i" s th] ok by (simp add: wis2.pool_ok_def)
  then show ?thesis by blast
qed

lemma inv_cancel: "wis2_inv E picked ls s \<Longrightarrow> wis2_inv E picked ls (s\<lparr>ws_cancelled := True\<rparr>)"
  by (simp add: wis2_inv_def health_total_def)

lemma sys_step_inv:
  assumes inv: "sys_inv E S" and step: "sys_step E op S = Some S'"
  shows "sys_inv E S'"
proof -
  obtain ls where ok: "wis2.pool_ok E (picked_count S) ls (sy_threads S) (sy_shared S)" using inv by (auto simp: sys_inv_def)
  have rest: "length (sy_threads S) = worker_pool_size E + 2" "sy_inbound_cap S = defaultInboundCap"
    "length (sy_inbound S) \<le> defaultInboundCap" using inv by (simp_all add: sys_inv_def)
  have started: "sys_inv E S'" if "start_thread i th S = Some S'" "\<And>l. ct_quiet (wis2_contract E) l \<Longrightarrow> thread_ok (wis2_contract E) l th" for i th
  proof -
    have S': "i < length (sy_threads S)" "sy_threads S ! i = Idle" "S' = S\<lparr>sy_threads := (sy_threads S)[i := th]\<rparr>"
      using that(1) by (auto simp: start_thread_def split: if_split_asm)
    have "picked_count S' = picked_count S" by (simp add: S'(3) picked_count_def fun_eq_iff)
    then show ?thesis using start_keeps [OF ok S'(1,2) that(2)] rest S'(3) by (simp add: sys_inv_def)
  qed
  show ?thesis
  proof (cases op)
    case (Deliver topic payload)
    then have "picked_count S' = picked_count S" "sy_threads S' = sy_threads S" "sy_shared S' = sy_shared S"
      "sy_inbound_cap S' = sy_inbound_cap S" "length (sy_inbound S') \<le> defaultInboundCap"
      using step rest by (auto simp: sys_step_def picked_count_def fun_eq_iff split: if_split_asm)
    then show ?thesis using ok rest by (auto simp: sys_inv_def)
  next
    case (Pick i)
    then obtain topic payload jobs where job: "sy_inbound S = (topic, payload) # jobs"
      "start_thread i (Running (handle_message E topic payload)) (S\<lparr>sy_inbound := jobs, sy_picked := sy_picked S @ [(topic, payload)]\<rparr>) = Some S'"
      using step by (auto simp: sys_step_def split: if_split_asm list.splits)
    then have S': "i < length (sy_threads S)" "sy_threads S ! i = Idle" "S' = S\<lparr>sy_inbound := jobs, sy_picked := sy_picked S @ [(topic, payload)],
        sy_threads := (sy_threads S)[i := Running (handle_message E topic payload)]\<rparr>"
      by (auto simp: start_thread_def split: if_split_asm)
    let ?key = "key_of topic"
    have "picked_count S' = (picked_count S)(?key := picked_count S ?key + 1)" by (auto simp: S'(3) picked_count_def)
    moreover have "ct_quiet (wis2_contract E) (ls ! i)" using wis2.pool_ok_nth [OF ok S'(1)] S'(2) by simp
    then have "wis2_inv E ((picked_count S)(?key := picked_count S ?key + 1)) (ls[i := fresh_ghost ?key]) (sy_shared S)"
      using inv_start ok S'(1) wis2.pool_ok_length [OF ok] by (simp add: wis2.pool_ok_def)
    moreover have "list_all2 (thread_ok (wis2_contract E)) (ls[i := fresh_ghost ?key]) (sy_threads S')"
      using ok g_handle_message by (simp add: wis2.pool_ok_def S'(3) list_all2_update_cong)
    ultimately have "wis2.pool_ok E (picked_count S') (ls[i := fresh_ghost ?key]) (sy_threads S') (sy_shared S')"
      by (simp add: wis2.pool_ok_def S'(3))
    then show ?thesis using rest job(1) by (auto simp: sys_inv_def S'(3))
  next
    case (Advance i)
    then obtain th s where th: "i < length (sy_threads S)" "step_thread (sy_threads S ! i) (sy_shared S) = Some (th, s)"
      "S' = S\<lparr>sy_threads := (sy_threads S)[i := th], sy_shared := s\<rparr>"
      using step by (auto simp: sys_step_def split: if_split_asm)
    have "picked_count S' = picked_count S" by (simp add: th(3) picked_count_def fun_eq_iff)
    then show ?thesis using wis2.thread_steps [OF ok th(1,2)] rest th(3) by (auto simp: sys_inv_def)
  next
    case Cancel
    then have S': "S' = S\<lparr>sy_shared := (sy_shared S)\<lparr>ws_cancelled := True\<rparr>\<rparr>" using step by (simp add: sys_step_def)
    have "picked_count S' = picked_count S" by (simp add: S' picked_count_def fun_eq_iff)
    moreover have "wis2.pool_ok E (picked_count S) ls (sy_threads S) ((sy_shared S)\<lparr>ws_cancelled := True\<rparr>)"
      using ok inv_cancel by (simp add: wis2.pool_ok_def)
    ultimately show ?thesis using rest by (auto simp: sys_inv_def S')
  next
    case (Stop i)
    then show ?thesis using step started g_quiet by (auto simp: sys_step_def split: if_split_asm)
  qed (use step started g_quiet in \<open>auto simp: sys_step_def\<close>)
qed

lemma sys_run_inv: "sys_run E ops S = Some S' \<Longrightarrow> sys_inv E S \<Longrightarrow> sys_inv E S'"
  by (induction ops arbitrary: S) (auto simp: bind_eq_Some_conv intro: sys_step_inv)

section \<open>Properties\<close>

lemma reachable_inv: "sys_run E ops (start_wis2 E t) = Some S \<Longrightarrow> sys_inv E S"
  using sys_run_inv start_inv by blast

lemma reachable_ghosts:
  assumes "sys_run E ops (start_wis2 E t) = Some S"
  obtains ls where "wis2.pool_ok E (picked_count S) ls (sy_threads S) (sy_shared S)" "wis2_inv E (picked_count S) ls (sy_shared S)"
    "length ls = length (sy_threads S)"
  using reachable_inv [OF assms] wis2.pool_ok_length by (auto simp: sys_inv_def wis2.pool_ok_def dest: list_all2_lengthD)

lemma read_body_bound: "read_body limit content broken = Some data \<Longrightarrow> int (length data) \<le> limit"
  by (auto simp: read_body_def Let_def split: if_split_asm)

lemma downloaded_bound:
  assumes "downloaded E data"
  shows "int (length data) \<le> max_bytes E"
proof -
  obtain i where i: "read_download E (we_download E i) = Some data" using assms by (auto simp: downloaded_def)
  then show ?thesis
    by (cases "we_download E i") (auto simp: read_download_def intro: read_body_bound split: if_split_asm)
qed

definition quiet_thread :: "wis2 thread \<Rightarrow> bool" where
  "quiet_thread th \<longleftrightarrow> th = Idle \<or> th = Exited"

lemma sum_zero:
  assumes "\<forall>l \<in> set ls. f l = (0 :: nat)"
  shows "sum_list (map f ls) = 0"
  using assms by (simp add: sum_list_eq_0_iff)

lemma quiet_ghosts:
  assumes "wis2.pool_ok E picked ls ts s" "list_all quiet_thread ts"
  shows "\<forall>l \<in> set ls. gh_pending l = 0 \<and> gh_slot l = 0"
proof
  fix l
  assume "l \<in> set ls"
  then obtain i where i: "i < length ls" "l = ls ! i" by (auto simp: in_set_conv_nth)
  then have "thread_ok (wis2_contract E) l (ts ! i)" "quiet_thread (ts ! i)"
    using wis2.pool_ok_nth [OF assms(1)] wis2.pool_ok_length [OF assms(1)] assms(2) by (auto simp: list_all_length)
  then show "gh_pending l = 0 \<and> gh_slot l = 0" by (auto simp: quiet_thread_def)
qed

text \<open>C21: However the workers are interleaved, a payload becomes a feature only if its topic is of a kind the adapter handles, its notification decoded, and it passed
  the integrity check that notification announces; it came inline or from a response within the size limit.\<close>

theorem features_are_checked:
  assumes "sys_run E ops (start_wis2 E t) = Some S" "EvFeature topic payload data b \<in> set (ws_events (sy_shared S))"
  shows "snd (snd (classify_topic topic)) \<in> {''warnings'', ''trajectory'', ''synop''}
    \<and> (\<exists>msg. we_parse_wnm E payload = Some msg \<and> check_integrity (we_hashes E) data (pp_integrity (wm_properties msg))
         \<and> ((\<exists>c. pp_content (wm_properties msg) = Some c \<and> ct_value c \<noteq> '''' \<and> inline_payload c = Some data)
            \<or> (\<exists>i. read_download E (we_download E i) = Some data) \<and> int (length data) \<le> max_bytes E))"
proof -
  obtain ls where "wis2_inv E (picked_count S) ls (sy_shared S)" using reachable_ghosts [OF assms(1)] .
  then have "good_event E (EvFeature topic payload data b)" using assms(2) by (auto simp: wis2_inv_def list_all_iff)
  then show ?thesis using downloaded_bound [of E data] by (auto simp: good_event_def obtained_def downloaded_def)
qed

text \<open>C22: Over all reports and the counters at hand, every centre and kind has counted as received at most the notifications taken from the
  inbound queue, and all of them when no thread is at work; the failures never exceed the receipts.\<close>

theorem health_counts_add_up:
  assumes "sys_run E ops (start_wis2 E t) = Some S"
  shows "health_total failures (sy_shared S) k \<le> health_total hc_received (sy_shared S) k
    \<and> health_total hc_received (sy_shared S) k \<le> picked_count S k
    \<and> (list_all quiet_thread (sy_threads S) \<longrightarrow> health_total hc_received (sy_shared S) k = picked_count S k)"
proof -
  obtain ls where ok: "wis2.pool_ok E (picked_count S) ls (sy_threads S) (sy_shared S)" and inv: "wis2_inv E (picked_count S) ls (sy_shared S)"
    using reachable_ghosts [OF assms] .
  have r: "health_total hc_received (sy_shared S) k + sum_list (map (mine gh_pending k) ls) = picked_count S k"
    and f: "health_total failures (sy_shared S) k + sum_list (map (mine gh_credit k) ls) \<le> health_total hc_received (sy_shared S) k"
    using inv unfolding wis2_inv_def by blast+
  have "sum_list (map (mine gh_pending k) ls) = 0" if "list_all quiet_thread (sy_threads S)"
    using quiet_ghosts [OF ok that] by (intro sum_zero) (auto simp: mine_def)
  then show ?thesis using r f by linarith
qed


text \<open>C24: The goroutines of the controller never deadlock: while one is at work, and not lost in an extraction that does not end, some goroutine can
  move on.\<close>

theorem controller_never_deadlocks:
  assumes "sys_run E ops (start_wis2 E t) = Some S" "i < length (sy_threads S)" "active (sy_threads S ! i)"
  shows "\<exists>j < length (sy_threads S). sys_step E (Advance j) S \<noteq> None"
proof -
  obtain ls where "wis2.pool_ok E (picked_count S) ls (sy_threads S) (sy_shared S)" using reachable_ghosts [OF assms(1)] .
  then obtain j where "j < length (sy_threads S)" "step_thread (sy_threads S ! j) (sy_shared S) \<noteq> None"
    using wis2.some_thread_moves assms(2,3) by blast
  then show ?thesis by (auto simp: sys_step_def)
qed

section \<open>A run\<close>

text \<open>A warning with its payload inline, from its delivery until it is in the batch.\<close>

definition demo_topic :: string where
  "demo_topic = ''cache/a/wis2/x/data/core/weather/advisories-warnings''"

definition demo_wnm :: wnm_message where
  "demo_wnm = \<lparr>wm_id = ''n1'', wm_type = ''Feature'', wm_geometry = '''',
     wm_properties = \<lparr>pp_data_id = ''d1'', pp_pub_time = ''2026'', pp_date_time = None, pp_integrity = None,
       pp_content = Some \<lparr>ct_encoding = ''utf-8'', ct_size = 8, ct_value = ''<alert/>''\<rparr>, pp_object_id = None\<rparr>,
     wm_links = []\<rparr>"

definition demo_raw :: raw_alert where
  "demo_raw = \<lparr>rx_identifier = ''a'', rx_sender = ''s'', rx_sent = '''', rx_status = '''', rx_msg_type = '''', rx_source = None, rx_scope = '''',
     rx_restriction = None, rx_addresses = None, rx_code = [], rx_note = None, rx_references = None, rx_incidents = None, rx_info = []\<rparr>"

definition demo_wis2 :: wis2_env where
  "demo_wis2 = \<lparr>we_parse_wnm = (\<lambda>_. Some demo_wnm), we_parse_nano = (\<lambda>_. None), we_parse_sec = (\<lambda>_. None), we_parse_http_time = (\<lambda>_. None),
     we_hashes = demo_hashes, we_parse_url = (\<lambda>_. None),
     we_geo = \<lparr>gj_object = (\<lambda>_. None), gj_polygon = (\<lambda>_. None), gj_multi = (\<lambda>_. None)\<rparr>,
     we_cap = \<lparr>cx_root = (\<lambda>_ _. Inr \<lparr>xs_space = '''', xs_local = ''alert'', xs_attrs = []\<rparr>), cx_alert = (\<lambda>_ _. Inr demo_raw), cx_charset = (\<lambda>_ _. None)\<rparr>,
     we_bufr = demo_env, we_overflow = 0, we_marshal_cap = (\<lambda>_. Some ''{}''), we_marshal_tc = (\<lambda>_. None), we_marshal_obs = (\<lambda>_. None),
     we_marshal_health = (\<lambda>_. None), we_decode_ack = (\<lambda>_. None), we_download = (\<lambda>_. DlError), we_core = (\<lambda>_. DoError ''''),
     we_broker = (\<lambda>_. (True, '''', '''')), we_delta = (\<lambda>_. 1), we_choice = (\<lambda>_. False), we_grow = (\<lambda>n. 2 * n),
     we_max_download_bytes = 0, we_download_concurrency = 0\<rparr>"

definition demo_ops :: "sys_op list" where
  "demo_ops = [Deliver demo_topic ''p'', Pick 0, Advance 0, Advance 0, Advance 0, Advance 0, Advance 0]"

lemma demo_dispatch:
  "dispatch demo_wis2 (''x'', ''warnings'') (make_notice demo_wis2 demo_topic ''p'' ''cache'' ''x'' demo_wnm ''inline'' None ''<alert/>'')
     = act (\<lambda>s. let s = emit_event (EvFeature demo_topic ''p'' ''<alert/>'' ''{}'') (s\<lparr>ws_cap := ws_cap s @ [''{}'']\<rparr>)
          in (capBatchLimit \<le> length (ws_cap s), s)) (\<lambda>flushNow. if flushNow then flush_cap_batch demo_wis2 Done else Done)"
proof -
  have "parse_cap (we_cap demo_wis2) ''<alert/>'' = \<lparr>res_cap = Some (build_cap_alert '''' demo_raw), res_error = None, res_raw_xml = Some ''<alert/>''\<rparr>"
  proof -
    have "xml_decl_length ''<alert/>'' = None" "cut_prefix ''<alert/>'' byte_order_mark = None" "lower_view ''alert'' = ''alert''"
      by code_simp+
    moreover have "detect_cap_version \<lparr>xs_space = '''', xs_local = ''alert'', xs_attrs = []\<rparr> = ''''" by code_simp
    ultimately show ?thesis
      by (simp add: parse_cap_def utf8_text_def to_utf8_def parse_cap_internal_def demo_wis2_def Let_def)
  qed
  then have "handle_warnings demo_wis2 (''x'', ''warnings'') n = enqueue_cap_feature demo_wis2 (notice_event n)
      (cap_feature_of demo_wis2 n (build_cap_alert '''' demo_raw) ''<alert/>'' (None, None, None)) Done"
    if "nt_data n = ''<alert/>''" "nt_msg n = demo_wnm" for n
    using that by (simp add: handle_warnings_def find_area_def find_geometry_link_def find_link_def demo_wnm_def)
  moreover have "we_marshal_cap demo_wis2 f = Some ''{}''" for f by (simp add: demo_wis2_def)
  ultimately show ?thesis
    by (simp add: dispatch_def check_integrity_def enqueue_cap_feature_def notice_event_def) (simp add: demo_wnm_def)
qed

lemma demo_threads: "worker_pool_size demo_wis2 + 2 = 18"
  by (simp add: worker_pool_size_def concurrency_def demo_wis2_def defaultWorkerPoolSize_def)

lemma wis2_demo_run:
  "\<exists>S. sys_run demo_wis2 demo_ops (start_wis2 demo_wis2 0) = Some S
     \<and> ws_events (sy_shared S) = [EvFeature demo_topic ''p'' ''<alert/>'' ''{}'']
     \<and> sy_threads S ! 0 = Running Done \<and> length (sy_threads S) = 18 \<and> sy_picked S = [(demo_topic, ''p'')]
     \<and> ws_cap (sy_shared S) = [''{}'']"
proof -
  have topic: "classify_topic demo_topic = (''cache'', ''x'', ''warnings'')" by code_simp
  have ne: "ct_value \<lparr>ct_encoding = ''utf-8'', ct_size = 8, ct_value = ''<alert/>''\<rparr> \<noteq> ''''" by simp
  have inl: "inline_payload \<lparr>ct_encoding = ''utf-8'', ct_size = 8, ct_value = ''<alert/>''\<rparr> = Some ''<alert/>''" by code_simp
  have parse: "we_parse_wnm demo_wis2 x = Some demo_wnm" for x by (simp add: demo_wis2_def)
  have content: "pp_content (wm_properties demo_wnm) = Some \<lparr>ct_encoding = ''utf-8'', ct_size = 8, ct_value = ''<alert/>''\<rparr>"
    "wm_id demo_wnm = ''n1''" "pp_data_id (wm_properties demo_wnm) = ''d1''" by (simp_all add: demo_wnm_def)
  have dedup: "\<exists>c. check_or_add t ''n1'' ''d1'' new_cache = (False, c)" for t
    by (simp add: check_or_add_def cleanup_def cleanup_table_def new_cache_def new_with_ttl_def live_def Let_def lookup_empty)
  obtain c where c: "check_or_add 3 ''n1'' ''d1'' new_cache = (False, c)" using dedup by blast
  have delta: "we_delta demo_wis2 n = 1" for n by (simp add: demo_wis2_def)
  note make = sys_step_def start_thread_def workers_def handle_message_def topic get_or_create_health_def await_def now_w_def act_def
    record_received_def count_def upd_def parse plain_state Let_def delta
  define ts where "ts = replicate 17 (Idle :: wis2 thread)"
  have ts: "replicate 18 Idle = Idle # ts" "length ts = 17" by (simp_all add: ts_def eval_nat_numeral)
  define S1 where "S1 = \<lparr>sy_shared = new_wis2 0, sy_threads = Running (handle_message demo_wis2 demo_topic ''p'') # ts, sy_inbound = [],
    sy_inbound_cap = defaultInboundCap, sy_dropped_inbound = 0, sy_picked = [(demo_topic, ''p'')]\<rparr>"
  have 1: "sys_run demo_wis2 demo_ops (start_wis2 demo_wis2 0) = sys_run demo_wis2 [Advance 0, Advance 0, Advance 0, Advance 0, Advance 0] S1"
    unfolding demo_ops_def start_wis2_def demo_threads ts(1)
    by (simp add: sys_step_def start_thread_def workers_def defaultInboundCap_def S1_def ts(2))
  show ?thesis
    unfolding 1 S1_def
    by (simp add: make new_wis2_def process_message_def content inl c demo_dispatch capBatchLimit_def ts(2))
qed

theorem features_are_checked_witness:
  "\<exists>S. sys_run demo_wis2 demo_ops (start_wis2 demo_wis2 0) = Some S \<and> ws_cap (sy_shared S) = [''{}'']
     \<and> snd (snd (classify_topic demo_topic)) \<in> {''warnings'', ''trajectory'', ''synop''}"
proof -
  obtain S where S: "sys_run demo_wis2 demo_ops (start_wis2 demo_wis2 0) = Some S" "ws_cap (sy_shared S) = [''{}'']"
    "EvFeature demo_topic ''p'' ''<alert/>'' ''{}'' \<in> set (ws_events (sy_shared S))" using wis2_demo_run by auto
  show ?thesis using features_are_checked [OF S(1,3)] S(1,2) by blast
qed

theorem health_counts_add_up_witness:
  "\<exists>S. sys_run demo_wis2 demo_ops (start_wis2 demo_wis2 0) = Some S
     \<and> health_total hc_received (sy_shared S) (key_of demo_topic) \<le> 1"
proof -
  obtain S where S: "sys_run demo_wis2 demo_ops (start_wis2 demo_wis2 0) = Some S" "sy_picked S = [(demo_topic, ''p'')]"
    using wis2_demo_run by auto
  then have "picked_count S (key_of demo_topic) = 1" by (simp add: picked_count_def)
  then show ?thesis using health_counts_add_up [OF S(1), of "key_of demo_topic"] S(1) by auto
qed


theorem controller_never_deadlocks_witness:
  "\<exists>S. sys_run demo_wis2 demo_ops (start_wis2 demo_wis2 0) = Some S \<and> active (sy_threads S ! 0)
     \<and> (\<exists>j < 18. sys_step demo_wis2 (Advance j) S \<noteq> None)"
proof -
  obtain S where S: "sys_run demo_wis2 demo_ops (start_wis2 demo_wis2 0) = Some S" "sy_threads S ! 0 = Running Done" "length (sy_threads S) = 18"
    using wis2_demo_run by auto
  then have "active (sy_threads S ! 0)" by (simp add: stuck_def)
  then show ?thesis using controller_never_deadlocks [OF S(1), of 0] S by auto
qed

section \<open>A throttled download\<close>

lemma run_alone_0: "run_alone 0 p s = Some (p, s)"
  by (cases p) simp_all

text \<open>A download answered with status 429 sleeps for as long as the server's Retry-After says, keeping its slot of the semaphore, and sends exactly
  one more request, whose answer is final; the ten-second ceiling given to the backoff does not apply.\<close>

theorem throttled_download_waits:
  assumes "we_download E (ws_tick s) = DlResponse 429 h content broken" "hget h ''Retry-After'' = show_int n"
    "0 \<le> n" "in_s64 (n * second)" "in_s64 n" "\<not> ws_cancelled s"
  shows "\<exists>s'. run_alone 4 (download_payload E url k) s = Some (k (read_download E (we_download E (ws_tick s + 3))), s')
    \<and> ws_clock s + n * second \<le> ws_clock s' \<and> ws_slots s' = ws_slots s
    \<and> ws_events s' = ws_events s @ [EvRequest url, EvWait (n * second), EvRequest url]"
proof -
  have retry: "retry_wait E t h = n * second" for t
    using parse_retry_after_seconds [OF assms(2,3)] assms(4,5)
    by (simp add: retry_wait_def Let_def s64_id in_s64_def max_int64_def)
  have "0 \<le> n * second" using assms(3) by (simp add: second_def)
  then show ?thesis
    using assms(1,6) by (simp add: eval_nat_numeral download_payload_def request_def now_w_def wait_or_cancel_def act_def plain_state
        Let_def retry run_alone_0 del: run_alone.simps(2))
qed

theorem throttled_download_waits_witness:
  "\<exists>s'. run_alone 4 (download_payload (demo_wis2\<lparr>we_download := (\<lambda>_. DlResponse 429 [''Retry-After'' \<mapsto> show_int 86400] '''' False)\<rparr>) ''u'' (\<lambda>_. Done))
       (new_wis2 0) = Some (Done, s') \<and> 86400 * second \<le> ws_clock s'"
proof -
  let ?E = "demo_wis2\<lparr>we_download := (\<lambda>_. DlResponse 429 [''Retry-After'' \<mapsto> show_int 86400] '''' False)\<rparr>"
  show ?thesis
    using throttled_download_waits [of ?E "new_wis2 0" "[''Retry-After'' \<mapsto> show_int 86400]" "''''" False 86400 "''u''" "\<lambda>_. Done"]
    by (auto simp: hget_def in_s64_def max_int64_def second_def new_wis2_def)
qed

end
