(* ===== verification/Go_ParseFloat.thy ===== *)
theory Go_ParseFloat
  imports Go_Strings Go_Float
begin

text \<open>
  \<open>strconv.ParseFloat\<close> with 64 bits: a sign, decimal or hexadecimal digits with a point and underscores, and an
  exponent; the value written is rounded once.  The value is \<open>None\<close> where the function returns an error, for
  a string that is not a number as for a number out of range.
\<close>

definition split_sign :: "string \<Rightarrow> bool \<times> string" where
  "split_sign s =
     (case s of
        c # cs \<Rightarrow> if c = CHR ''+'' then (False, cs) else if c = CHR ''-'' then (True, cs) else (False, s)
      | [] \<Rightarrow> (False, s))"

definition digit_value :: "bool \<Rightarrow> char \<Rightarrow> nat option" where
  "digit_value hex c =
     (let n = of_char c :: nat; l = of_char (ascii_lower c) :: nat
      in if 48 \<le> n \<and> n \<le> 57 then Some (n - 48)
         else if hex \<and> 97 \<le> l \<and> l \<le> 102 then Some (l - 87)
         else None)"

text \<open>The digits up to the first character that is none: their value, their number, and how many follow the point.\<close>

fun scan_mantissa :: "bool \<Rightarrow> nat \<Rightarrow> nat \<Rightarrow> bool \<Rightarrow> nat \<Rightarrow> string \<Rightarrow> nat \<times> nat \<times> nat \<times> string" where
  "scan_mantissa hex m n dot fr [] = (m, n, fr, [])"
| "scan_mantissa hex m n dot fr (c # cs) =
     (if c = CHR ''_'' then scan_mantissa hex m n dot fr cs
      else if c = CHR ''.'' \<and> \<not> dot then scan_mantissa hex m n True fr cs
      else case digit_value hex c of
             Some d \<Rightarrow> scan_mantissa hex ((if hex then 16 else 10) * m + d) (n + 1) dot (if dot then fr + 1 else fr) cs
           | None \<Rightarrow> (m, n, fr, c # cs))"

text \<open>The digits of an exponent; one of 10000 or more grows no further.\<close>

fun scan_exponent :: "nat \<Rightarrow> string \<Rightarrow> nat option" where
  "scan_exponent e [] = Some e"
| "scan_exponent e (c # cs) =
     (if c = CHR ''_'' then scan_exponent e cs
      else case digit_value False c of
             Some d \<Rightarrow> scan_exponent (if e < 10000 then 10 * e + d else e) cs
           | None \<Rightarrow> None)"

definition read_exponent :: "string \<Rightarrow> int option" where
  "read_exponent s =
     (let (neg, ds) = split_sign s
      in case ds of
           [] \<Rightarrow> None
         | c # _ \<Rightarrow> if digit_value False c = None then None
                    else map_option (\<lambda>e. if neg then - int e else int e) (scan_exponent 0 ds))"

text \<open>The number after the sign: whether it is hexadecimal, the digits as a natural number, and its exponent.\<close>

definition read_float :: "string \<Rightarrow> (bool \<times> nat \<times> int) option" where
  "read_float s =
     (let hex = (2 < length s \<and> s ! 0 = CHR ''0'' \<and> ascii_lower (s ! 1) = CHR ''x'');
          (m, n, fr, rest) = scan_mantissa hex 0 0 False 0 (if hex then drop 2 s else s);
          scale = (if hex then 4 * int fr else int fr)
      in if n = 0 then None
         else case rest of
                [] \<Rightarrow> if hex then None else Some (hex, m, - scale)
              | c # cs \<Rightarrow>
                  if ascii_lower c = (if hex then CHR ''p'' else CHR ''e'') then
                    map_option (\<lambda>e. (hex, m, e - scale)) (read_exponent cs)
                  else None)"

text \<open>Underscores stand between digits only; \<open>saw\<close> is the last character seen, a digit being \<open>0\<close>.\<close>

fun underscores_ok :: "bool \<Rightarrow> char \<Rightarrow> string \<Rightarrow> bool" where
  "underscores_ok hex saw [] = (saw \<noteq> CHR ''_'')"
| "underscores_ok hex saw (c # cs) =
     (if digit_value hex c \<noteq> None then underscores_ok hex (CHR ''0'') cs
      else if c = CHR ''_'' then saw = CHR ''0'' \<and> underscores_ok hex (CHR ''_'') cs
      else saw \<noteq> CHR ''_'' \<and> underscores_ok hex (CHR ''!'') cs)"

definition underscore_ok :: "string \<Rightarrow> bool" where
  "underscore_ok s =
     (if 2 \<le> length s \<and> s ! 0 = CHR ''0'' \<and> ascii_lower (s ! 1) \<in> {CHR ''b'', CHR ''o'', CHR ''x''} then
        underscores_ok (ascii_lower (s ! 1) = CHR ''x'') (CHR ''0'') (drop 2 s)
      else underscores_ok False (CHR ''^'') s)"

text \<open>The double nearest to \<open>m * 10 ^ e\<close>, or for a hexadecimal number \<open>m * 2 ^ e\<close>.\<close>

definition scaled_float :: "bool \<Rightarrow> bool \<Rightarrow> nat \<Rightarrow> int \<Rightarrow> f64" where
  "scaled_float neg hex m e =
     (let b = (if hex then 2 else 10 :: int)
      in if 0 \<le> e then round_ratio neg (int m * b ^ nat e) 1 else round_ratio neg (int m) (b ^ nat (- e)))"

definition parse_float :: "string \<Rightarrow> f64 option" where
  "parse_float s =
     (let (neg, body) = split_sign s; low = map ascii_lower body
      in if low = ''inf'' \<or> low = ''infinity'' then Some (FInf neg)
         else if map ascii_lower s = ''nan'' then Some FNaN
         else case read_float body of
                None \<Rightarrow> None
              | Some (hex, m, e) \<Rightarrow>
                  if CHR ''_'' \<in> set body \<and> \<not> underscore_ok body then None
                  else (case scaled_float neg hex m e of FInf _ \<Rightarrow> None | f \<Rightarrow> Some f))"

text \<open>\<open>math.IsNaN\<close> or \<open>math.IsInf\<close>.\<close>

definition nonfinite :: "f64 \<Rightarrow> bool" where
  "nonfinite f \<longleftrightarrow> \<not> is_num f"

section \<open>Examples\<close>

lemma parse_float_examples:
  "parse_float ''1.5'' = Some (FNum False (3 * 2 ^ 51) (- 52))"
  "parse_float ''-0.5e1'' = Some (FNum True (5 * 2 ^ 50) (- 50))"
  "parse_float ''0x1p-2'' = Some (FNum False (2 ^ 52) (- 54))"
  "parse_float ''1_0'' = Some (FNum False (5 * 2 ^ 50) (- 49))"
  "parse_float ''-Infinity'' = Some (FInf True)"
  "parse_float ''nan'' = Some FNaN"
  "parse_float ''_1'' = None" "parse_float '''' = None" "parse_float ''+nan'' = None"
  "parse_float ''1.2.3'' = None" "parse_float ''.'' = None" "parse_float ''1e'' = None"
  by code_simp+

end
