(* ===== verification/JmaTelegram.thy ===== *)
theory JmaTelegram
  imports JmaUrl Go_ParseFloat Float_Rounding "HOL-Library.AList" "HOL-Library.List_Lexorder" "HOL-Library.Char_ord" "HOL-Library.Code_Target_Nat"
begin

text \<open>
  The parser of JMA telegrams (\<open>jma_adapter/app/parser/telegram.go\<close>): the coordinates of ISO 6709, the
  phenomenon a warning is about, the envelope of a message, the alerts of the tier of warnings that is
  used, the areas without warnings, and observed earthquakes.  Go strings are bytes, and the Japanese texts
  the code compares with are their UTF-8 bytes.  The XML tokenizer and decoder and the check of a timestamp
  are the environment's.
\<close>

section \<open>Texts\<close>

definition t_normal :: string where \<comment> \<open>normal operation\<close>
  "t_normal =
    [CHR 0xE9, CHR 0x80, CHR 0x9A, CHR 0xE5, CHR 0xB8, CHR 0xB8]"

definition t_issued :: string where \<comment> \<open>issued\<close>
  "t_issued =
    [CHR 0xE7, CHR 0x99, CHR 0xBA, CHR 0xE8, CHR 0xA1, CHR 0xA8]"

definition t_corrected :: string where \<comment> \<open>corrected\<close>
  "t_corrected =
    [CHR 0xE8, CHR 0xA8, CHR 0x82, CHR 0xE6, CHR 0xAD, CHR 0xA3]"

definition t_cancelled :: string where \<comment> \<open>cancelled\<close>
  "t_cancelled =
    [CHR 0xE5, CHR 0x8F, CHR 0x96, CHR 0xE6, CHR 0xB6, CHR 0x88]"

definition t_delayed :: string where \<comment> \<open>delayed\<close>
  "t_delayed =
    [CHR 0xE9, CHR 0x81, CHR 0x85, CHR 0xE5, CHR 0xBB, CHR 0xB6]"

definition t_blizzard :: string where \<comment> \<open>snow storm\<close>
  "t_blizzard =
    [CHR 0xE6, CHR 0x9A, CHR 0xB4, CHR 0xE9, CHR 0xA2, CHR 0xA8, CHR 0xE9, CHR 0x9B, CHR 0xAA]"

definition t_wind_snow :: string where \<comment> \<open>wind and snow\<close>
  "t_wind_snow =
    [CHR 0xE9, CHR 0xA2, CHR 0xA8, CHR 0xE9, CHR 0x9B, CHR 0xAA]"

definition t_storm :: string where \<comment> \<open>storm\<close>
  "t_storm =
    [CHR 0xE6, CHR 0x9A, CHR 0xB4, CHR 0xE9, CHR 0xA2, CHR 0xA8]"

definition t_strong_wind :: string where \<comment> \<open>strong wind\<close>
  "t_strong_wind =
    [CHR 0xE5, CHR 0xBC, CHR 0xB7, CHR 0xE9, CHR 0xA2, CHR 0xA8]"

definition t_wind :: string where \<comment> \<open>wind\<close>
  "t_wind =
    [CHR 0xE9, CHR 0xA2, CHR 0xA8]"

definition t_emergency :: string where \<comment> \<open>emergency warning\<close>
  "t_emergency =
    [CHR 0xE7, CHR 0x89, CHR 0xB9, CHR 0xE5, CHR 0x88, CHR 0xA5, CHR 0xE8, CHR 0xAD, CHR 0xA6, CHR 0xE5,
     CHR 0xA0, CHR 0xB1]"

definition t_warning :: string where \<comment> \<open>warning\<close>
  "t_warning =
    [CHR 0xE8, CHR 0xAD, CHR 0xA6, CHR 0xE5, CHR 0xA0, CHR 0xB1]"

definition t_advisory :: string where \<comment> \<open>advisory\<close>
  "t_advisory =
    [CHR 0xE6, CHR 0xB3, CHR 0xA8, CHR 0xE6, CHR 0x84, CHR 0x8F, CHR 0xE5, CHR 0xA0, CHR 0xB1]"

definition t_r06 :: string where \<comment> \<open>R06\<close>
  "t_r06 =
    [CHR 0xEF, CHR 0xBC, CHR 0xB2, CHR 0xEF, CHR 0xBC, CHR 0x90, CHR 0xEF, CHR 0xBC, CHR 0x96]"

definition t_none_issued :: string where \<comment> \<open>no warnings or advisories\<close>
  "t_none_issued =
    [CHR 0xE7, CHR 0x99, CHR 0xBA, CHR 0xE8, CHR 0xA1, CHR 0xA8, CHR 0xE8, CHR 0xAD, CHR 0xA6, CHR 0xE5,
     CHR 0xA0, CHR 0xB1, CHR 0xE3, CHR 0x83, CHR 0xBB, CHR 0xE6, CHR 0xB3, CHR 0xA8, CHR 0xE6, CHR 0x84,
     CHR 0x8F, CHR 0xE5, CHR 0xA0, CHR 0xB1, CHR 0xE3, CHR 0x81, CHR 0xAF, CHR 0xE3, CHR 0x81, CHR 0xAA,
     CHR 0xE3, CHR 0x81, CHR 0x97]"

definition t_downgraded :: string where \<comment> \<open>from warning to advisory\<close>
  "t_downgraded =
    [CHR 0xE8, CHR 0xAD, CHR 0xA6, CHR 0xE5, CHR 0xA0, CHR 0xB1, CHR 0xE3, CHR 0x81, CHR 0x8B, CHR 0xE3,
     CHR 0x82, CHR 0x89, CHR 0xE6, CHR 0xB3, CHR 0xA8, CHR 0xE6, CHR 0x84, CHR 0x8F, CHR 0xE5, CHR 0xA0, CHR 0xB1]"

definition t_hypo_intensity :: string where \<comment> \<open>hypocentre and intensity\<close>
  "t_hypo_intensity =
    [CHR 0xE9, CHR 0x9C, CHR 0x87, CHR 0xE6, CHR 0xBA, CHR 0x90, CHR 0xE3, CHR 0x83, CHR 0xBB, CHR 0xE9,
     CHR 0x9C, CHR 0x87, CHR 0xE5, CHR 0xBA, CHR 0xA6, CHR 0xE3, CHR 0x81, CHR 0xAB, CHR 0xE9, CHR 0x96,
     CHR 0xA2, CHR 0xE3, CHR 0x81, CHR 0x99, CHR 0xE3, CHR 0x82, CHR 0x8B, CHR 0xE6, CHR 0x83, CHR 0x85,
     CHR 0xE5, CHR 0xA0, CHR 0xB1]"

definition t_hypo :: string where \<comment> \<open>hypocentre\<close>
  "t_hypo =
    [CHR 0xE9, CHR 0x9C, CHR 0x87, CHR 0xE6, CHR 0xBA, CHR 0x90, CHR 0xE3, CHR 0x81, CHR 0xAB, CHR 0xE9,
     CHR 0x96, CHR 0xA2, CHR 0xE3, CHR 0x81, CHR 0x99, CHR 0xE3, CHR 0x82, CHR 0x8B, CHR 0xE6, CHR 0x83,
     CHR 0x85, CHR 0xE5, CHR 0xA0, CHR 0xB1]"

definition t_quake_info :: string where \<comment> \<open>earthquake information\<close>
  "t_quake_info =
    [CHR 0xE5, CHR 0x9C, CHR 0xB0, CHR 0xE9, CHR 0x9C, CHR 0x87, CHR 0xE6, CHR 0x83, CHR 0x85, CHR 0xE5,
     CHR 0xA0, CHR 0xB1]"

definition t_eew :: string where \<comment> \<open>earthquake early warning\<close>
  "t_eew =
    [CHR 0xE7, CHR 0xB7, CHR 0x8A, CHR 0xE6, CHR 0x80, CHR 0xA5, CHR 0xE5, CHR 0x9C, CHR 0xB0, CHR 0xE9,
     CHR 0x9C, CHR 0x87, CHR 0xE9, CHR 0x80, CHR 0x9F, CHR 0xE5, CHR 0xA0, CHR 0xB1]"

definition t_tsunami :: string where \<comment> \<open>tsunami\<close>
  "t_tsunami =
    [CHR 0xE6, CHR 0xB4, CHR 0xA5, CHR 0xE6, CHR 0xB3, CHR 0xA2]"

definition t_tokyo_datum :: string where \<comment> \<open>Tokyo datum\<close>
  "t_tokyo_datum =
    [CHR 0xE6, CHR 0x97, CHR 0xA5, CHR 0xE6, CHR 0x9C, CHR 0xAC, CHR 0xE6, CHR 0xB8, CHR 0xAC, CHR 0xE5,
     CHR 0x9C, CHR 0xB0, CHR 0xE7, CHR 0xB3, CHR 0xBB]"

definition t_world_datum :: string where \<comment> \<open>world geodetic system\<close>
  "t_world_datum =
    [CHR 0xE4, CHR 0xB8, CHR 0x96, CHR 0xE7, CHR 0x95, CHR 0x8C, CHR 0xE6, CHR 0xB8, CHR 0xAC, CHR 0xE5,
     CHR 0x9C, CHR 0xB0, CHR 0xE7, CHR 0xB3, CHR 0xBB]"

definition t_epicentre :: string where \<comment> \<open>position of the epicentre\<close>
  "t_epicentre =
    [CHR 0xE9, CHR 0x9C, CHR 0x87, CHR 0xE5, CHR 0xA4, CHR 0xAE, CHR 0xE4, CHR 0xBD, CHR 0x8D, CHR 0xE7,
     CHR 0xBD, CHR 0xAE]"

definition t_position :: string where \<comment> \<open>position\<close>
  "t_position =
    [CHR 0xE4, CHR 0xBD, CHR 0x8D, CHR 0xE7, CHR 0xBD, CHR 0xAE]"

text \<open>The four tiers of weather warnings: a common prefix and what stands in brackets after it.\<close>

definition t_met_warnings :: string where \<comment> \<open>weather warnings and advisories\<close>
  "t_met_warnings =
    [CHR 0xE6, CHR 0xB0, CHR 0x97, CHR 0xE8, CHR 0xB1, CHR 0xA1, CHR 0xE8, CHR 0xAD, CHR 0xA6, CHR 0xE5,
     CHR 0xA0, CHR 0xB1, CHR 0xE3, CHR 0x83, CHR 0xBB, CHR 0xE6, CHR 0xB3, CHR 0xA8, CHR 0xE6, CHR 0x84,
     CHR 0x8F, CHR 0xE5, CHR 0xA0, CHR 0xB1]"

definition t_municipal :: string where \<comment> \<open>municipalities\<close>
  "t_municipal =
    [CHR 0xEF, CHR 0xBC, CHR 0x88, CHR 0xE5, CHR 0xB8, CHR 0x82, CHR 0xE7, CHR 0x94, CHR 0xBA, CHR 0xE6,
     CHR 0x9D, CHR 0x91, CHR 0xE7, CHR 0xAD, CHR 0x89, CHR 0xEF, CHR 0xBC, CHR 0x89]"

definition t_regional :: string where \<comment> \<open>groups of municipalities\<close>
  "t_regional =
    [CHR 0xEF, CHR 0xBC, CHR 0x88, CHR 0xE5, CHR 0xB8, CHR 0x82, CHR 0xE7, CHR 0x94, CHR 0xBA, CHR 0xE6,
     CHR 0x9D, CHR 0x91, CHR 0xE7, CHR 0xAD, CHR 0x89, CHR 0xE3, CHR 0x82, CHR 0x92, CHR 0xE3, CHR 0x81,
     CHR 0xBE, CHR 0xE3, CHR 0x81, CHR 0xA8, CHR 0xE3, CHR 0x82, CHR 0x81, CHR 0xE3, CHR 0x81, CHR 0x9F,
     CHR 0xE5, CHR 0x9C, CHR 0xB0, CHR 0xE5, CHR 0x9F, CHR 0x9F, CHR 0xE7, CHR 0xAD, CHR 0x89, CHR 0xEF,
     CHR 0xBC, CHR 0x89]"

definition t_subdivision :: string where \<comment> \<open>primary subdivisions\<close>
  "t_subdivision =
    [CHR 0xEF, CHR 0xBC, CHR 0x88, CHR 0xE4, CHR 0xB8, CHR 0x80, CHR 0xE6, CHR 0xAC, CHR 0xA1, CHR 0xE7,
     CHR 0xB4, CHR 0xB0, CHR 0xE5, CHR 0x88, CHR 0x86, CHR 0xE5, CHR 0x8C, CHR 0xBA, CHR 0xE5, CHR 0x9F,
     CHR 0x9F, CHR 0xE7, CHR 0xAD, CHR 0x89, CHR 0xEF, CHR 0xBC, CHR 0x89]"

definition tiers :: "string list" where
  "tiers = [t_met_warnings @ t_municipal, t_met_warnings @ t_regional, t_met_warnings @ t_subdivision, t_met_warnings]"

section \<open>Raw reports\<close>

record raw_control =
  rc_title :: string
  rc_date_time :: string
  rc_status :: string
  rc_editorial_office :: string
  rc_publishing_office :: string

record name_code =
  nc_name :: string
  nc_code :: string

record raw_head_item =
  hi_kind :: name_code
  hi_code_type :: string
  hi_areas :: "name_code list"

record raw_head_info =
  hn_type :: string
  hn_items :: "raw_head_item list"

record raw_head =
  rh_title :: string
  rh_report_date_time :: string
  rh_target_date_time :: string
  rh_valid_date_time :: string
  rh_event_id :: string
  rh_info_type :: string
  rh_serial :: string
  rh_info_kind :: string
  rh_headline_text :: string
  rh_information :: "raw_head_info list"

record raw_coordinate =
  co_datum :: string
  co_type :: string
  co_description :: string
  co_value :: string

record raw_hypocenter =
  hy_name :: string
  hy_code :: string
  hy_coordinate :: raw_coordinate

record raw_magnitude =
  mg_type :: string
  mg_description :: string
  mg_value :: string

record raw_earthquake =
  eq_origin_time :: string
  eq_arrival_time :: string
  eq_hypocenter :: "raw_hypocenter option"
  eq_magnitude :: "raw_magnitude option"

record raw_warning_kind =
  wk_name :: string
  wk_code :: string
  wk_status :: string
  wk_property :: string

record raw_warning_item =
  wi_area :: name_code
  wi_kinds :: "raw_warning_kind list"

record raw_warning =
  rw_type :: string
  rw_items :: "raw_warning_item list"

text \<open>The intensity is the \<open>MaxInt\<close> of the observation, where there is one.\<close>

record raw_body =
  rb_space :: string
  rb_earthquake :: "raw_earthquake option"
  rb_intensity :: "string option option"
  rb_warnings :: "raw_warning list"

record raw_report =
  rr_local :: string
  rr_space :: string
  rr_control :: raw_control
  rr_head :: raw_head
  rr_body :: raw_body

section \<open>Messages\<close>

record jma_area =
  ja_name :: string
  ja_geocode :: string

record jma_alert =
  al_lifecycle_key :: string
  al_area_name :: string
  al_geocode :: string
  al_event :: string
  al_category :: "string option"
  al_status :: string
  al_severity :: string
  al_urgency :: string
  al_certainty :: string

record jma_earthquake =
  qk_origin_time :: string
  qk_latitude :: "f64 option"
  qk_longitude :: "f64 option"
  qk_depth_km :: "f64 option"
  qk_magnitude :: "f64 option"
  qk_magnitude_type :: "string option"
  qk_place :: "string option"
  qk_max_intensity :: "string option"

record jma_message =
  jm_identifier :: string
  jm_control_title :: string
  jm_status :: string
  jm_info_type :: string
  jm_event_id :: "string option"
  jm_series_key :: "string option"
  jm_sent :: string
  jm_effective :: "string option"
  jm_expires :: "string option"
  jm_headline :: "string option"
  jm_description :: "string option"
  jm_areas :: "jma_area list"
  jm_alerts :: "jma_alert list"
  jm_cleared_areas :: "string list"
  jm_earthquake :: "jma_earthquake option"

section \<open>Coordinates\<close>

datatype coord_error =
    NoMatch
  | BadLatitude
  | LatitudeRange
  | BadLongitude
  | LongitudeRange
  | BadAltitude
  | PositiveAltitude
  | BadDepth

text \<open>
  The regular expression: a latitude, a longitude and perhaps an altitude, each a sign, digits and perhaps a
  point and further digits, and a slash at the end.
\<close>

definition scan_number :: "string \<Rightarrow> (string \<times> string) option" where
  "scan_number s =
     (case s of
        [] \<Rightarrow> None
      | c # cs \<Rightarrow>
          (let ds = takeWhile is_digit cs; rest = dropWhile is_digit cs
           in if c \<noteq> CHR ''+'' \<and> c \<noteq> CHR ''-'' \<or> ds = '''' then None
              else case rest of
                     d # fraction \<Rightarrow>
                       if d = CHR ''.'' \<and> takeWhile is_digit fraction \<noteq> '''' then
                         Some (c # ds @ [d] @ takeWhile is_digit fraction, dropWhile is_digit fraction)
                       else Some (c # ds, rest)
                   | [] \<Rightarrow> Some (c # ds, rest)))"

definition match_iso6709 :: "string \<Rightarrow> (string \<times> string \<times> string) option" where
  "match_iso6709 s =
     Option.bind (scan_number s) (\<lambda>(lat, s).
     Option.bind (scan_number s) (\<lambda>(lon, s).
       if s = ''/'' then Some (lat, lon, '''')
       else Option.bind (scan_number s) (\<lambda>(alt, s). if s = ''/'' then Some (lat, lon, alt) else None)))"

definition parse_coordinate_part :: "string \<Rightarrow> bool \<Rightarrow> f64 option" where
  "parse_coordinate_part val isLon =
     (if length val < 2 \<or> hd val \<noteq> CHR ''-'' \<and> hd val \<noteq> CHR ''+'' then None
      else
        (let sign = f_of_int (if hd val = CHR ''-'' then - 1 else 1);
             num = tl val;
             degLen = (if isLon then 3 else 2 :: nat);
             intPart = takeWhile (\<lambda>c. c \<noteq> CHR ''.'') num
         in if length intPart = degLen + 2 then
              (case (parse_float (take degLen num), parse_float (drop degLen num)) of
                 (Some deg, Some minute) \<Rightarrow>
                   if nonfinite deg \<or> nonfinite minute then None
                   else if f_lt minute (f_of_int 0) \<or> f_le (f_of_int 60) minute then None
                   else (let v = f_mul sign (f_add deg (f_div minute (f_of_int 60))) in if nonfinite v then None else Some v)
               | _ \<Rightarrow> None)
            else (case parse_float val of None \<Rightarrow> None | Some v \<Rightarrow> if nonfinite v then None else Some v)))"

definition out_of_range :: "f64 \<Rightarrow> int \<Rightarrow> bool" where
  "out_of_range v n \<longleftrightarrow> f_lt v (f_of_int (- n)) \<or> f_lt (f_of_int n) v \<or> nonfinite v"

definition parse_depth :: "string \<Rightarrow> coord_error + f64" where
  "parse_depth altStr =
     (case parse_float altStr of
        None \<Rightarrow> Inl BadAltitude
      | Some alt \<Rightarrow>
          if nonfinite alt then Inl BadAltitude
          else if f_lt (f_of_int 0) alt then Inl PositiveAltitude
          else (let depth = f_div (f_neg alt) (f_of_int 1000) in if nonfinite depth then Inl BadDepth else Inr depth))"

definition parse_iso6709 :: "string \<Rightarrow> coord_error + (f64 \<times> f64 \<times> f64 option)" where
  "parse_iso6709 coordStr =
     (case match_iso6709 (trim_space coordStr) of
        None \<Rightarrow> Inl NoMatch
      | Some (latStr, lonStr, altStr) \<Rightarrow>
          (case parse_coordinate_part latStr False of
             None \<Rightarrow> Inl BadLatitude
           | Some lat \<Rightarrow>
               if out_of_range lat 90 then Inl LatitudeRange
               else
                 (case parse_coordinate_part lonStr True of
                    None \<Rightarrow> Inl BadLongitude
                  | Some lon \<Rightarrow>
                      if out_of_range lon 180 then Inl LongitudeRange
                      else if altStr \<noteq> '''' then ebind (parse_depth altStr) (\<lambda>d. Inr (lat, lon, Some d))
                      else Inr (lat, lon, None))))"

section \<open>Names and keys\<close>

text \<open>\<open>strings.ReplaceAll\<close> with nothing, for a text that is not empty.\<close>

fun remove_all :: "string \<Rightarrow> string \<Rightarrow> string" where
  "remove_all old [] = []"
| "remove_all old (c # cs) =
     (if old \<noteq> [] \<and> has_prefix (c # cs) old then remove_all old (drop (length old - 1) cs) else c # remove_all old cs)"

definition extract_phenomenon :: "string \<Rightarrow> string" where
  "extract_phenomenon name =
     (let name = trim_space name
      in if contains_str name t_blizzard \<or> contains_str name t_wind_snow then t_wind_snow
         else if contains_str name t_storm \<or> contains_str name t_strong_wind then t_wind
         else
           (let p = trim_space (remove_all t_advisory (remove_all t_warning (remove_all t_emergency name)))
            in if p \<noteq> '''' then p else name))"

text \<open>\<open>filepath.Base\<close>.\<close>

definition path_base :: "string \<Rightarrow> string" where
  "path_base path =
     (if path = '''' then ''.''
      else (let p = rev (takeWhile (\<lambda>c. c \<noteq> CHR ''/'') (dropWhile (\<lambda>c. c = CHR ''/'') (rev path)))
            in if p = '''' then ''/'' else p))"

definition derive_identifier :: "string \<Rightarrow> string \<Rightarrow> string \<Rightarrow> string" where
  "derive_identifier itemURL eventID serial =
     (let base = path_base itemURL
      in if has_suffix base ''.xml'' then take (length base - 4) base
         else if eventID \<noteq> '''' \<and> serial \<noteq> '''' then eventID @ ''_'' @ serial
         else if eventID \<noteq> '''' then eventID
         else base)"

definition build_series_key :: "string \<Rightarrow> string \<Rightarrow> string \<Rightarrow> string \<Rightarrow> string" where
  "build_series_key title office status eventID =
     (let title = trim_space title; office = trim_space office; status = trim_space status; eventID = trim_space eventID
      in if eventID \<noteq> '''' then title @ '':'' @ office @ '':'' @ status @ '':'' @ eventID
         else title @ '':'' @ office @ '':'' @ status)"

section \<open>Reading the document\<close>

datatype ts_error = EmptyTimestamp | InvalidDateTime

datatype tg_error =
    TgSyntax
  | TgDisallowedDTD
  | TgUnsupportedNamespace
  | TgInvalidRootElement
  | TgTrailingSyntax
  | TgTrailingRootElement
  | TgMissingStatus
  | TgControlDateTime ts_error
  | TgReportDateTime ts_error
  | TgUnsupportedDatum

datatype trail = TrailEnd | TrailSyntax | TrailElement

datatype decoded =
    DecodeFailed bool \<comment> \<open>whether the error is about a name space\<close>
  | Decoded raw_report trail

text \<open>
  The environment: the directives the tokenizer finds and whether it reaches the end of the document, what the
  decoder makes of the document and what it finds after the root, and the timestamps \<open>time.Parse\<close> accepts
  as RFC 3339 (with or without fractional seconds).
\<close>

record tg_env =
  tg_directives :: "string \<Rightarrow> string list \<times> bool"
  tg_decode :: "string \<Rightarrow> decoded"
  tg_rfc3339 :: "string \<Rightarrow> bool"

text \<open>
  \<open>strings.ToUpper\<close> as far as a search of the result for an ASCII string goes: the dotless i and the long s are
  the only other characters whose upper case is ASCII.
\<close>

definition ascii_upper :: "char \<Rightarrow> char" where
  "ascii_upper c = (let n = of_char c :: nat in if 97 \<le> n \<and> n \<le> 122 then char_of (n - 32) else c)"

fun upper_view :: "string \<Rightarrow> string" where
  "upper_view (a # b # s) =
     (if a = CHR 0xC4 \<and> b = CHR 0xB1 then CHR ''I'' # upper_view s
      else if a = CHR 0xC5 \<and> b = CHR 0xBF then CHR ''S'' # upper_view s
      else ascii_upper a # upper_view (b # s))"
| "upper_view [a] = [ascii_upper a]"
| "upper_view [] = []"

definition disallowed_directive :: "string \<Rightarrow> bool" where
  "disallowed_directive d \<longleftrightarrow> contains_str (upper_view d) ''DOCTYPE'' \<or> contains_str (upper_view d) ''ENTITY''"

definition pre_scan :: "tg_env \<Rightarrow> string \<Rightarrow> tg_error + unit" where
  "pre_scan E doc =
     (case tg_directives E doc of
        (ds, at_end) \<Rightarrow>
          if \<exists>d \<in> set ds. disallowed_directive d then Inl TgDisallowedDTD
          else if \<not> at_end then Inl TgSyntax
          else Inr ())"

definition report_namespace :: string where "report_namespace = ''http://xml.kishou.go.jp/jmaxml1/''"
definition mete_namespace :: string where "mete_namespace = ''http://xml.kishou.go.jp/jmaxml1/body/meteorology1/''"
definition seis_namespace :: string where "seis_namespace = ''http://xml.kishou.go.jp/jmaxml1/body/seismology1/''"

definition decode_report :: "tg_env \<Rightarrow> string \<Rightarrow> tg_error + raw_report" where
  "decode_report E doc =
     (case tg_decode E doc of
        DecodeFailed name_space \<Rightarrow> Inl (if name_space then TgUnsupportedNamespace else TgInvalidRootElement)
      | Decoded rep after_root \<Rightarrow>
          if rr_local rep \<noteq> ''Report'' then Inl TgInvalidRootElement
          else if rr_space rep \<noteq> report_namespace then Inl TgUnsupportedNamespace
          else (case after_root of
                  TrailEnd \<Rightarrow> Inr rep
                | TrailSyntax \<Rightarrow> Inl TgTrailingSyntax
                | TrailElement \<Rightarrow> Inl TgTrailingRootElement))"

definition check_timestamp :: "tg_env \<Rightarrow> string \<Rightarrow> ts_error + unit" where
  "check_timestamp E ts =
     (let ts = trim_space ts
      in if ts = '''' then Inl EmptyTimestamp else if tg_rfc3339 E ts then Inr () else Inl InvalidDateTime)"

section \<open>The envelope\<close>

definition info_type_of :: "raw_report \<Rightarrow> string" where
  "info_type_of rep = (let t = trim_space (rh_info_type (rr_head rep)) in if t = '''' then t_issued else t)"

definition known_info_type :: "string \<Rightarrow> bool" where
  "known_info_type t \<longleftrightarrow> t = t_issued \<or> t = t_corrected \<or> t = t_cancelled \<or> t = t_delayed"

definition note_area :: "(string \<times> string) list \<Rightarrow> name_code \<Rightarrow> (string \<times> string) list" where
  "note_area areas a = (if nc_code a \<noteq> '''' \<and> nc_name a \<noteq> '''' then AList.update (nc_code a) (nc_name a) areas else areas)"

text \<open>The areas of the headline and of the body; Go does not say in which order it ranges over the map.\<close>

definition all_areas :: "raw_report \<Rightarrow> name_code list" where
  "all_areas rep =
     concat (map (\<lambda>info. concat (map hi_areas (hn_items info))) (rh_information (rr_head rep)))
     @ concat (map (\<lambda>w. map wi_area (rw_items w)) (rb_warnings (rr_body rep)))"

definition collect_areas :: "raw_report \<Rightarrow> jma_area list" where
  "collect_areas rep =
     map (\<lambda>(code, name). \<lparr>ja_name = name, ja_geocode = code\<rparr>) (foldl note_area [] (all_areas rep))"

definition series_key_of :: "raw_report \<Rightarrow> string" where
  "series_key_of rep =
     build_series_key (rc_title (rr_control rep)) (rc_editorial_office (rr_control rep)) (rc_status (rr_control rep))
       (rh_event_id (rr_head rep))"

definition envelope :: "tg_env \<Rightarrow> string \<Rightarrow> raw_report \<Rightarrow> jma_message" where
  "envelope E itemURL rep =
     (let c = rr_control rep; h = rr_head rep;
          eventID = trim_space (rh_event_id h);
          validDT = trim_space (rh_valid_date_time h);
          headline = optional_text (trim_space (rh_headline_text h))
      in \<lparr>jm_identifier = derive_identifier itemURL eventID (rh_serial h),
          jm_control_title = trim_space (rc_title c),
          jm_status = trim_space (rc_status c),
          jm_info_type = info_type_of rep,
          jm_event_id = optional_text eventID,
          jm_series_key = Some (series_key_of rep),
          jm_sent = trim_space (rc_date_time c),
          jm_effective = optional_text (trim_space (rh_report_date_time h)),
          jm_expires = (if validDT \<noteq> '''' \<and> check_timestamp E validDT = Inr () then Some validDT else None),
          jm_headline = headline,
          jm_description = headline,
          jm_areas = collect_areas rep,
          jm_alerts = [],
          jm_cleared_areas = [],
          jm_earthquake = None\<rparr>)"

section \<open>Weather warnings\<close>

fun select_warning :: "string list \<Rightarrow> raw_warning list \<Rightarrow> raw_warning option" where
  "select_warning [] ws = None"
| "select_warning (t # ts) ws =
     (case find (\<lambda>w. rw_type w = t) ws of Some w \<Rightarrow> Some w | None \<Rightarrow> select_warning ts ws)"

definition no_warning_marker :: "raw_warning_kind \<Rightarrow> bool" where
  "no_warning_marker k \<longleftrightarrow>
     trim_space (wk_name k) = t_none_issued \<or> trim_space (wk_status k) = t_none_issued \<or> trim_space (wk_code k) = ''00''"

definition severity_of :: "string \<Rightarrow> string \<Rightarrow> string" where
  "severity_of eventName kindStatus =
     (if contains_str eventName t_emergency then ''Extreme''
      else if kindStatus = t_downgraded then ''Moderate''
      else if contains_str eventName t_warning then ''Severe''
      else ''Moderate'')"

definition alert_of :: "string \<Rightarrow> name_code \<Rightarrow> raw_warning_kind \<Rightarrow> jma_alert" where
  "alert_of seriesKey area k =
     (let eventName = trim_space (wk_name k);
          kindStatus = (let s = trim_space (wk_status k) in if s = '''' then t_issued else s)
      in \<lparr>al_lifecycle_key = seriesKey @ '':'' @ nc_code area @ '':'' @ extract_phenomenon eventName,
          al_area_name = nc_name area,
          al_geocode = nc_code area,
          al_event = eventName,
          al_category = Some ''Met'',
          al_status = kindStatus,
          al_severity = severity_of eventName kindStatus,
          al_urgency = ''Expected'',
          al_certainty = ''Observed''\<rparr>)"

text \<open>The loop over the kinds of one item, and over the items: the alerts, the geocodes with alerts and those marked free.\<close>

type_synonym scan = "jma_alert list \<times> string list \<times> string list"

definition add_geocode :: "string \<Rightarrow> string list \<Rightarrow> string list" where
  "add_geocode g gs = (if g \<noteq> '''' then List.insert g gs else gs)"

primrec scan_kinds :: "string \<Rightarrow> name_code \<Rightarrow> raw_warning_kind list \<Rightarrow> scan \<Rightarrow> scan" where
  "scan_kinds seriesKey area [] acc = acc"
| "scan_kinds seriesKey area (k # ks) acc =
     (case acc of (alerts, active, free) \<Rightarrow>
        scan_kinds seriesKey area ks
          (if no_warning_marker k then (alerts, active, add_geocode (nc_code area) free)
           else (alerts @ [alert_of seriesKey area k], add_geocode (nc_code area) active, free)))"

primrec scan_items :: "string \<Rightarrow> raw_warning_item list \<Rightarrow> scan \<Rightarrow> scan" where
  "scan_items seriesKey [] acc = acc"
| "scan_items seriesKey (i # items) acc = scan_items seriesKey items (scan_kinds seriesKey (wi_area i) (wi_kinds i) acc)"

definition is_r06 :: "string \<Rightarrow> bool" where
  "is_r06 title \<longleftrightarrow> contains_str title t_r06 \<or> contains_str title ''R06''"

definition with_warnings :: "raw_report \<Rightarrow> jma_message \<Rightarrow> jma_message" where
  "with_warnings rep msg =
     (if rb_space (rr_body rep) = mete_namespace \<and> \<not> is_r06 (jm_control_title msg) \<and> rb_warnings (rr_body rep) \<noteq> [] then
        (case select_warning tiers (rb_warnings (rr_body rep)) of
           None \<Rightarrow> msg
         | Some w \<Rightarrow>
             (case scan_items (series_key_of rep) (rw_items w) (jm_alerts msg, [], []) of
                (alerts, active, free) \<Rightarrow>
                  msg\<lparr>jm_alerts := alerts, jm_cleared_areas := sort (filter (\<lambda>g. g \<notin> set active) free)\<rparr>))
      else msg)"

section \<open>Observed earthquakes\<close>

definition observed_quake :: "string \<Rightarrow> string \<Rightarrow> bool" where
  "observed_quake title kind \<longleftrightarrow>
     (title = t_hypo_intensity \<or> title = t_hypo)
     \<and> (kind = t_quake_info \<or> kind = t_hypo_intensity \<or> kind = t_hypo)"

definition early_warning :: "string \<Rightarrow> string \<Rightarrow> bool" where
  "early_warning title kind \<longleftrightarrow> contains_str title t_eew \<or> contains_str kind t_eew"

definition tsunami_forecast :: "string \<Rightarrow> string \<Rightarrow> bool" where
  "tsunami_forecast title kind \<longleftrightarrow> contains_str title t_tsunami \<or> contains_str kind t_tsunami"

definition tokyo_datum :: "string \<Rightarrow> bool" where
  "tokyo_datum s \<longleftrightarrow> contains_str s t_tokyo_datum \<or> contains_str s ''Tokyo''"

definition supported_datum :: "string \<Rightarrow> bool" where
  "supported_datum d \<longleftrightarrow>
     d = '''' \<or> d = t_world_datum \<or> d = ''WGS-84'' \<or> d = ''WGS84'' \<or> has_prefix d ''ITRF'' \<or> has_prefix d ''JGD''"

definition check_datum :: "raw_coordinate \<Rightarrow> tg_error + unit" where
  "check_datum coord =
     (let datum = trim_space (co_datum coord); cType = trim_space (co_type coord)
      in if tokyo_datum datum \<or> tokyo_datum cType then Inl TgUnsupportedDatum
         else if datum \<noteq> '''' \<and> \<not> supported_datum datum then Inl TgUnsupportedDatum
         else if cType \<noteq> '''' \<and> \<not> supported_datum cType \<and> cType \<noteq> t_epicentre \<and> cType \<noteq> t_position then
           Inl TgUnsupportedDatum
         else Inr ())"

text \<open>The place and, where the coordinate can be read, the latitude, longitude and depth.\<close>

type_synonym location = "string option \<times> f64 option \<times> f64 option \<times> f64 option"

definition locate :: "raw_hypocenter option \<Rightarrow> tg_error + location" where
  "locate hypo =
     (case hypo of
        None \<Rightarrow> Inr (None, None, None, None)
      | Some h \<Rightarrow>
          (let place = optional_text (trim_space (hy_name h));
               raw = trim_space (co_value (hy_coordinate h))
           in ebind (check_datum (hy_coordinate h)) (\<lambda>_.
                if raw \<noteq> '''' \<and> raw \<noteq> ''/'' then
                  (case parse_iso6709 raw of
                     Inl _ \<Rightarrow> Inr (place, None, None, None)
                   | Inr (lat, lon, depth) \<Rightarrow> Inr (place, Some lat, Some lon, depth))
                else Inr (place, None, None, None))))"

definition read_magnitude :: "raw_magnitude option \<Rightarrow> f64 option" where
  "read_magnitude mag =
     (case mag of
        None \<Rightarrow> None
      | Some m \<Rightarrow>
          (let raw = trim_space (mg_value m)
           in if raw \<noteq> '''' \<and> raw \<noteq> ''NaN'' then
                (case parse_float raw of Some v \<Rightarrow> if nonfinite v then None else Some v | None \<Rightarrow> None)
              else None))"

definition max_intensity :: "string option option \<Rightarrow> string option" where
  "max_intensity i = (case i of Some (Some s) \<Rightarrow> optional_text (trim_space s) | _ \<Rightarrow> None)"

definition quake_of :: "raw_report \<Rightarrow> raw_earthquake \<Rightarrow> tg_error + jma_earthquake" where
  "quake_of rep q =
     ebind (locate (eq_hypocenter q)) (\<lambda>(place, lat, lon, depth).
       Inr \<lparr>qk_origin_time = trim_space (eq_origin_time q), qk_latitude = lat, qk_longitude = lon, qk_depth_km = depth,
            qk_magnitude = read_magnitude (eq_magnitude q), qk_magnitude_type = Some ''Mj'', qk_place = place,
            qk_max_intensity = max_intensity (rb_intensity (rr_body rep))\<rparr>)"

definition with_earthquake :: "raw_report \<Rightarrow> jma_message \<Rightarrow> tg_error + jma_message" where
  "with_earthquake rep msg =
     (let title = jm_control_title msg; kind = rh_info_kind (rr_head rep)
      in case rb_earthquake (rr_body rep) of
           None \<Rightarrow> Inr msg
         | Some q \<Rightarrow>
             if rb_space (rr_body rep) = seis_namespace \<and> observed_quake title kind \<and> \<not> early_warning title kind
                \<and> \<not> tsunami_forecast title kind then
               ebind (quake_of rep q) (\<lambda>quake. Inr (msg\<lparr>jm_earthquake := Some quake\<rparr>))
             else Inr msg)"

section \<open>Parsing a telegram\<close>

definition lift_error :: "('d \<Rightarrow> 'e) \<Rightarrow> 'd + 'a \<Rightarrow> 'e + 'a" where
  "lift_error f r = (case r of Inl e \<Rightarrow> Inl (f e) | Inr a \<Rightarrow> Inr a)"

definition parse_telegram :: "tg_env \<Rightarrow> string \<Rightarrow> string \<Rightarrow> tg_error + jma_message" where
  "parse_telegram E itemURL doc =
     ebind (pre_scan E doc) (\<lambda>_.
     ebind (decode_report E doc) (\<lambda>rep.
       if trim_space (rc_status (rr_control rep)) = '''' then Inl TgMissingStatus
       else
         ebind (lift_error TgControlDateTime (check_timestamp E (rc_date_time (rr_control rep)))) (\<lambda>_.
         ebind (lift_error TgReportDateTime (check_timestamp E (rh_report_date_time (rr_head rep)))) (\<lambda>_.
           (let msg = envelope E itemURL rep
            in if jm_status msg \<noteq> t_normal \<or> \<not> known_info_type (jm_info_type msg) \<or> jm_info_type msg = t_cancelled then Inr msg
               else with_earthquake rep (with_warnings rep msg))))))"

section \<open>The scan of the warnings\<close>

definition alerts_in :: "string \<Rightarrow> raw_warning_item list \<Rightarrow> jma_alert list" where
  "alerts_in seriesKey items =
     concat (map (\<lambda>i. map (alert_of seriesKey (wi_area i)) (filter (\<lambda>k. \<not> no_warning_marker k) (wi_kinds i))) items)"

definition has_alert :: "raw_warning_item list \<Rightarrow> string \<Rightarrow> bool" where
  "has_alert items g \<longleftrightarrow> (\<exists>i \<in> set items. nc_code (wi_area i) = g \<and> (\<exists>k \<in> set (wi_kinds i). \<not> no_warning_marker k))"

definition marked_free :: "raw_warning_item list \<Rightarrow> string \<Rightarrow> bool" where
  "marked_free items g \<longleftrightarrow> (\<exists>i \<in> set items. nc_code (wi_area i) = g \<and> (\<exists>k \<in> set (wi_kinds i). no_warning_marker k))"

lemma add_geocode_set [simp]: "set (add_geocode g gs) = set gs \<union> {g} - (if g = '''' then {''''} - set gs else {})"
  by (auto simp: add_geocode_def)

lemma distinct_add_geocode [simp]: "distinct gs \<Longrightarrow> distinct (add_geocode g gs)"
  by (simp add: add_geocode_def)

lemma scan_kinds_alerts:
  "fst (scan_kinds key area ks (alerts, active, free))
     = alerts @ map (alert_of key area) (filter (\<lambda>k. \<not> no_warning_marker k) ks)"
  by (induction ks arbitrary: alerts active free) auto

lemma scan_kinds_active:
  "set (fst (snd (scan_kinds key area ks (alerts, active, free))))
     = set active \<union> {g. g = nc_code area \<and> g \<noteq> '''' \<and> (\<exists>k \<in> set ks. \<not> no_warning_marker k)}"
  by (induction ks arbitrary: alerts active free) auto

lemma scan_kinds_free:
  "set (snd (snd (scan_kinds key area ks (alerts, active, free))))
     = set free \<union> {g. g = nc_code area \<and> g \<noteq> '''' \<and> (\<exists>k \<in> set ks. no_warning_marker k)}"
  by (induction ks arbitrary: alerts active free) auto

lemma scan_kinds_distinct:
  "distinct free \<Longrightarrow> distinct (snd (snd (scan_kinds key area ks (alerts, active, free))))"
  by (induction ks arbitrary: alerts active free) auto

lemmas scan_kinds_facts = scan_kinds_alerts scan_kinds_active scan_kinds_free

lemma scan_items_alerts: "fst (scan_items key items acc) = fst acc @ alerts_in key items"
  by (induction items arbitrary: acc) (auto simp: alerts_in_def scan_kinds_facts)

lemma scan_items_active:
  "set (fst (snd (scan_items key items acc))) = set (fst (snd acc)) \<union> {g. g \<noteq> '''' \<and> has_alert items g}"
proof (induction items arbitrary: acc)
  case (Cons i items)
  show ?case
    unfolding scan_items.simps Cons.IH by (cases acc) (auto simp: has_alert_def scan_kinds_facts)
qed (simp add: has_alert_def)

lemma scan_items_free:
  "set (snd (snd (scan_items key items acc))) = set (snd (snd acc)) \<union> {g. g \<noteq> '''' \<and> marked_free items g}"
proof (induction items arbitrary: acc)
  case (Cons i items)
  show ?case
    unfolding scan_items.simps Cons.IH by (cases acc) (auto simp: marked_free_def scan_kinds_facts)
qed (simp add: marked_free_def)

lemma scan_items_distinct: "distinct (snd (snd acc)) \<Longrightarrow> distinct (snd (snd (scan_items key items acc)))"
proof (induction items arbitrary: acc)
  case (Cons i items)
  show ?case using Cons.prems by (cases acc) (simp add: Cons.IH scan_kinds_distinct)
qed simp

section \<open>What a message was made of\<close>

lemma envelope_empty [simp]:
  "jm_alerts (envelope E url rep) = []" "jm_cleared_areas (envelope E url rep) = []" "jm_earthquake (envelope E url rep) = None"
  by (simp_all add: envelope_def Let_def)

lemma with_warnings_cases:
  assumes "jm_alerts m = []"
  obtains (plain) "with_warnings rep m = m"
  | (tier) w r where "rb_space (rr_body rep) = mete_namespace" "\<not> is_r06 (jm_control_title m)"
      "select_warning tiers (rb_warnings (rr_body rep)) = Some w" "r = scan_items (series_key_of rep) (rw_items w) ([], [], [])"
      "with_warnings rep m
         = m\<lparr>jm_alerts := fst r, jm_cleared_areas := sort (filter (\<lambda>g. g \<notin> set (fst (snd r))) (snd (snd r)))\<rparr>"
proof (cases "rb_space (rr_body rep) = mete_namespace \<and> \<not> is_r06 (jm_control_title m) \<and> rb_warnings (rr_body rep) \<noteq> []")
  case True
  show thesis
  proof (cases "select_warning tiers (rb_warnings (rr_body rep))")
    case None
    then show thesis using plain True by (simp add: with_warnings_def)
  next
    case (Some w)
    obtain a b c where "scan_items (series_key_of rep) (rw_items w) ([], [], []) = (a, b, c)" by (metis prod_cases3)
    then show thesis using tier [of w "(a, b, c)"] True Some assms by (simp add: with_warnings_def)
  qed
next
  case False
  then have "with_warnings rep m = m" unfolding with_warnings_def by (simp only: if_False)
  then show thesis by (rule plain)
qed

lemma with_warnings_envelope [simp]:
  assumes "jm_alerts m = []"
  shows "jm_control_title (with_warnings rep m) = jm_control_title m" "jm_sent (with_warnings rep m) = jm_sent m"
    "jm_series_key (with_warnings rep m) = jm_series_key m" "jm_earthquake (with_warnings rep m) = jm_earthquake m"
  by (rule with_warnings_cases [OF assms, of rep]; simp)+

lemma with_earthquake_cases:
  assumes "with_earthquake rep m = Inr m'"
  obtains (plain) "m' = m"
  | (quake) q quake where "rb_earthquake (rr_body rep) = Some q" "quake_of rep q = Inr quake" "m' = m\<lparr>jm_earthquake := Some quake\<rparr>"
      "rb_space (rr_body rep) = seis_namespace" "observed_quake (jm_control_title m) (rh_info_kind (rr_head rep))"
      "\<not> early_warning (jm_control_title m) (rh_info_kind (rr_head rep))"
      "\<not> tsunami_forecast (jm_control_title m) (rh_info_kind (rr_head rep))"
proof (cases "rb_earthquake (rr_body rep)")
  case None
  then show thesis using plain assms(1) by (simp add: with_earthquake_def)
next
  case (Some q)
  show thesis
  proof (cases "rb_space (rr_body rep) = seis_namespace \<and> observed_quake (jm_control_title m) (rh_info_kind (rr_head rep))
      \<and> \<not> early_warning (jm_control_title m) (rh_info_kind (rr_head rep))
      \<and> \<not> tsunami_forecast (jm_control_title m) (rh_info_kind (rr_head rep))")
    case True
    then have "ebind (quake_of rep q) (\<lambda>k. Inr (m\<lparr>jm_earthquake := Some k\<rparr>)) = Inr m'"
      using assms(1) Some by (simp add: with_earthquake_def)
    then obtain k where "quake_of rep q = Inr k" "m' = m\<lparr>jm_earthquake := Some k\<rparr>" by (auto simp: ebind_eq_Inr)
    then show thesis using quake Some True by blast
  next
    case False
    then have "m' = m" using assms(1) unfolding with_earthquake_def Let_def Some option.case by (simp only: if_False sum.inject)
    then show thesis by (rule plain)
  qed
qed

lemma decode_report_Inr:
  "decode_report E doc = Inr rep \<longleftrightarrow>
     tg_decode E doc = Decoded rep TrailEnd \<and> rr_local rep = ''Report'' \<and> rr_space rep = report_namespace"
  by (auto simp: decode_report_def split: decoded.split trail.split)

lemma pre_scan_Inr: "pre_scan E doc = Inr u \<longleftrightarrow> (\<forall>d \<in> set (fst (tg_directives E doc)). \<not> disallowed_directive d) \<and> snd (tg_directives E doc)"
  by (auto simp: pre_scan_def split: prod.split)

lemma lift_error_Inr [simp]: "lift_error f r = Inr a \<longleftrightarrow> r = Inr a"
  by (auto simp: lift_error_def split: sum.split)

lemma check_timestamp_Inr: "check_timestamp E ts = Inr u \<longleftrightarrow> trim_space ts \<noteq> '''' \<and> tg_rfc3339 E (trim_space ts)"
  by (auto simp: check_timestamp_def Let_def)

text \<open>A report accepted with live content.\<close>

definition live_report :: "tg_env \<Rightarrow> string \<Rightarrow> string \<Rightarrow> raw_report \<Rightarrow> jma_message \<Rightarrow> bool" where
  "live_report E url doc rep m \<longleftrightarrow>
     pre_scan E doc = Inr () \<and> decode_report E doc = Inr rep
     \<and> check_timestamp E (rc_date_time (rr_control rep)) = Inr ()
     \<and> check_timestamp E (rh_report_date_time (rr_head rep)) = Inr ()
     \<and> jm_status (envelope E url rep) = t_normal \<and> known_info_type (info_type_of rep) \<and> info_type_of rep \<noteq> t_cancelled
     \<and> with_earthquake rep (with_warnings rep (envelope E url rep)) = Inr m"

lemma envelope_info_type [simp]: "jm_info_type (envelope E url rep) = info_type_of rep"
  by (simp add: envelope_def Let_def)

lemma parse_telegram_live:
  assumes "parse_telegram E url doc = Inr m"
    and "jm_alerts m \<noteq> [] \<or> jm_cleared_areas m \<noteq> [] \<or> jm_earthquake m \<noteq> None"
  obtains rep where "live_report E url doc rep m"
  using assms by (auto simp: parse_telegram_def ebind_eq_Inr Let_def live_report_def split: if_splits)

text \<open>The message of a live report: the envelope with its warnings, or with its earthquake, never both.\<close>

lemma mete_not_seis: "mete_namespace \<noteq> seis_namespace"
  by (simp add: mete_namespace_def seis_namespace_def)

lemma live_report_cases:
  assumes "live_report E url doc rep m"
  obtains (plain) "m = envelope E url rep"
  | (warnings) w r where "rb_space (rr_body rep) = mete_namespace" "\<not> is_r06 (jm_control_title m)"
      "select_warning tiers (rb_warnings (rr_body rep)) = Some w" "r = scan_items (series_key_of rep) (rw_items w) ([], [], [])"
      "m = (envelope E url rep)\<lparr>jm_alerts := fst r, jm_cleared_areas := sort (filter (\<lambda>g. g \<notin> set (fst (snd r))) (snd (snd r)))\<rparr>"
  | (quake) q quake where "rb_earthquake (rr_body rep) = Some q" "quake_of rep q = Inr quake"
      "m = (envelope E url rep)\<lparr>jm_earthquake := Some quake\<rparr>"
      "rb_space (rr_body rep) = seis_namespace" "observed_quake (jm_control_title m) (rh_info_kind (rr_head rep))"
      "\<not> early_warning (jm_control_title m) (rh_info_kind (rr_head rep))"
      "\<not> tsunami_forecast (jm_control_title m) (rh_info_kind (rr_head rep))"
proof -
  let ?e = "envelope E url rep"
  have m: "with_earthquake rep (with_warnings rep ?e) = Inr m" using assms by (simp add: live_report_def)
  show thesis
  proof (rule with_warnings_cases [of ?e rep])
    assume e: "with_warnings rep ?e = ?e"
    show thesis
    proof (rule with_earthquake_cases [OF m [unfolded e]])
      assume "m = ?e"
      then show thesis by (rule plain)
    next
      fix q k
      assume q: "rb_earthquake (rr_body rep) = Some q" "quake_of rep q = Inr k" "m = ?e\<lparr>jm_earthquake := Some k\<rparr>"
        "rb_space (rr_body rep) = seis_namespace" "observed_quake (jm_control_title ?e) (rh_info_kind (rr_head rep))"
        "\<not> early_warning (jm_control_title ?e) (rh_info_kind (rr_head rep))"
        "\<not> tsunami_forecast (jm_control_title ?e) (rh_info_kind (rr_head rep))"
      have "jm_control_title m = jm_control_title ?e" unfolding q(3) by simp
      then show thesis using quake [OF q(1-4)] q(5-7) by simp
    qed
  next
    fix w r
    assume w: "rb_space (rr_body rep) = mete_namespace" "\<not> is_r06 (jm_control_title ?e)"
      "select_warning tiers (rb_warnings (rr_body rep)) = Some w" "r = scan_items (series_key_of rep) (rw_items w) ([], [], [])"
      "with_warnings rep ?e = ?e\<lparr>jm_alerts := fst r, jm_cleared_areas := sort (filter (\<lambda>g. g \<notin> set (fst (snd r))) (snd (snd r)))\<rparr>"
    show thesis
    proof (rule with_earthquake_cases [OF m])
      assume "m = with_warnings rep ?e"
      then show thesis using warnings [OF w(1) _ w(3,4)] w(2) unfolding w(5) by simp
    next
      assume "rb_space (rr_body rep) = seis_namespace"
      then show thesis using w(1) mete_not_seis by simp
    qed
  qed simp
qed

text \<open>Every accepted telegram, live or not: a clean document, a report of known name spaces, and the envelope.\<close>

definition accepted_report :: "tg_env \<Rightarrow> string \<Rightarrow> string \<Rightarrow> raw_report \<Rightarrow> jma_message \<Rightarrow> bool" where
  "accepted_report E url doc rep m \<longleftrightarrow>
     pre_scan E doc = Inr () \<and> decode_report E doc = Inr rep \<and> trim_space (rc_status (rr_control rep)) \<noteq> ''''
     \<and> check_timestamp E (rc_date_time (rr_control rep)) = Inr ()
     \<and> check_timestamp E (rh_report_date_time (rr_head rep)) = Inr ()
     \<and> (m = envelope E url rep \<or> live_report E url doc rep m)"

lemma parse_telegram_accepted:
  assumes "parse_telegram E url doc = Inr m"
  obtains rep where "accepted_report E url doc rep m"
  using assms by (auto simp: parse_telegram_def ebind_eq_Inr Let_def accepted_report_def live_report_def split: if_splits)

lemma live_report_sent: "live_report E url doc rep m \<Longrightarrow> jm_sent m = jm_sent (envelope E url rep)"
  by (erule live_report_cases) auto

lemma live_report_title: "live_report E url doc rep m \<Longrightarrow> jm_control_title m = jm_control_title (envelope E url rep)"
  by (erule live_report_cases) auto

section \<open>Accepted telegrams\<close>

text \<open>C26: A telegram is accepted, live or not, only if its document has no DTD and one root element, a report in JMA's name
  space, with a status and valid timestamps.  It yields alerts, cleared areas or an earthquake only if its status is
  normal operation, so no drill or test, and if it is an issue, a correction or a delayed issue.  Alerts and cleared areas
  come from a body in the name space of meteorology that is not in the R06 format, an earthquake from a body in that of
  seismology whose title is neither an early warning's nor a tsunami forecast's, and no message has both.\<close>

theorem live_content_is_authentic:
  assumes "parse_telegram E url doc = Inr m"
  shows "\<exists>rep. tg_decode E doc = Decoded rep TrailEnd \<and> rr_local rep = ''Report'' \<and> rr_space rep = report_namespace
    \<and> (\<forall>d \<in> set (fst (tg_directives E doc)). \<not> disallowed_directive d) \<and> snd (tg_directives E doc)
    \<and> tg_rfc3339 E (jm_sent m) \<and> tg_rfc3339 E (trim_space (rh_report_date_time (rr_head rep)))
    \<and> trim_space (rc_status (rr_control rep)) \<noteq> ''''
    \<and> (jm_alerts m \<noteq> [] \<or> jm_cleared_areas m \<noteq> [] \<or> jm_earthquake m \<noteq> None \<longrightarrow>
        trim_space (rc_status (rr_control rep)) = t_normal \<and> info_type_of rep \<in> {t_issued, t_corrected, t_delayed}
        \<and> (if jm_earthquake m = None
           then rb_space (rr_body rep) = mete_namespace \<and> \<not> is_r06 (jm_control_title m)
           else rb_space (rr_body rep) = seis_namespace \<and> jm_alerts m = [] \<and> jm_cleared_areas m = []
             \<and> observed_quake (jm_control_title m) (rh_info_kind (rr_head rep))
             \<and> \<not> early_warning (jm_control_title m) (rh_info_kind (rr_head rep))
             \<and> \<not> tsunami_forecast (jm_control_title m) (rh_info_kind (rr_head rep))))"
proof -
  obtain rep where A: "accepted_report E url doc rep m" using parse_telegram_accepted [OF assms] .
  then have "jm_sent m = jm_sent (envelope E url rep)" using live_report_sent by (auto simp: accepted_report_def)
  then have document: "tg_decode E doc = Decoded rep TrailEnd" "rr_local rep = ''Report''" "rr_space rep = report_namespace"
    "\<forall>d \<in> set (fst (tg_directives E doc)). \<not> disallowed_directive d" "snd (tg_directives E doc)"
    "tg_rfc3339 E (jm_sent m)" "tg_rfc3339 E (trim_space (rh_report_date_time (rr_head rep)))"
    "trim_space (rc_status (rr_control rep)) \<noteq> ''''"
    using A by (auto simp: accepted_report_def decode_report_Inr pre_scan_Inr check_timestamp_Inr envelope_def Let_def)
  have live: "trim_space (rc_status (rr_control rep)) = t_normal \<and> info_type_of rep \<in> {t_issued, t_corrected, t_delayed}"
    if "live_report E url doc rep m"
    using that by (auto simp: live_report_def known_info_type_def envelope_def Let_def)
  have content: "if jm_earthquake m = None
       then rb_space (rr_body rep) = mete_namespace \<and> \<not> is_r06 (jm_control_title m)
       else rb_space (rr_body rep) = seis_namespace \<and> jm_alerts m = [] \<and> jm_cleared_areas m = []
         \<and> observed_quake (jm_control_title m) (rh_info_kind (rr_head rep))
         \<and> \<not> early_warning (jm_control_title m) (rh_info_kind (rr_head rep))
         \<and> \<not> tsunami_forecast (jm_control_title m) (rh_info_kind (rr_head rep))"
    if "live_report E url doc rep m" "jm_alerts m \<noteq> [] \<or> jm_cleared_areas m \<noteq> [] \<or> jm_earthquake m \<noteq> None"
    using that(1) by (cases rule: live_report_cases) (use that(2) in auto)
  have "live_report E url doc rep m" if "jm_alerts m \<noteq> [] \<or> jm_cleared_areas m \<noteq> [] \<or> jm_earthquake m \<noteq> None"
    using A that by (auto simp: accepted_report_def)
  with document live content show ?thesis by blast
qed

text \<open>C27: The alerts of a message are exactly the kinds of warning of the best tier the telegram has (municipalities before
  regions before subdivisions) that are not markers for no warning, in their order.  The cleared areas are, sorted and
  each once, the areas marked free of warnings that no alert is about: no area is cleared while an alert for it stands.\<close>

theorem alerts_and_cleared_areas:
  assumes "parse_telegram E url doc = Inr m"
    and "jm_alerts m \<noteq> [] \<or> jm_cleared_areas m \<noteq> []"
  shows "\<exists>rep w. tg_decode E doc = Decoded rep TrailEnd \<and> select_warning tiers (rb_warnings (rr_body rep)) = Some w
    \<and> jm_alerts m = alerts_in (series_key_of rep) (rw_items w)
    \<and> set (jm_cleared_areas m) = {g. g \<noteq> '''' \<and> marked_free (rw_items w) g \<and> \<not> has_alert (rw_items w) g}
    \<and> sorted (jm_cleared_areas m) \<and> distinct (jm_cleared_areas m)"
proof -
  obtain rep where L: "live_report E url doc rep m" using parse_telegram_live assms by metis
  then have "tg_decode E doc = Decoded rep TrailEnd" by (simp add: live_report_def decode_report_Inr)
  from L show ?thesis
  proof (cases rule: live_report_cases)
    case (warnings w r)
    have "fst r = alerts_in (series_key_of rep) (rw_items w)" "set (fst (snd r)) = {g. g \<noteq> '''' \<and> has_alert (rw_items w) g}"
      "set (snd (snd r)) = {g. g \<noteq> '''' \<and> marked_free (rw_items w) g}" "distinct (snd (snd r))"
      unfolding warnings(4) scan_items_alerts scan_items_active scan_items_free by (simp_all add: scan_items_distinct)
    then show ?thesis using \<open>tg_decode E doc = Decoded rep TrailEnd\<close> warnings(3)
      by (intro exI [of _ rep] exI [of _ w]) (auto simp: warnings(5))
  qed (use assms(2) in auto)
qed

section \<open>Coordinates in range\<close>

lemma f_of_int_near:
  assumes "\<bar>n\<bar> < 2 ^ 53"
  shows "is_num (f_of_int n)" "f_val (f_of_int n) = real_of_int n"
  using round_int_exact [of n 0 n 0 False] assms by (auto simp: f_of_int_def)

lemma out_of_range_bounds:
  assumes "\<not> out_of_range v n" "0 \<le> n" "n < 2 ^ 53"
  shows "is_num v" "\<bar>f_val v\<bar> \<le> real_of_int n"
proof -
  show num: "is_num v" using assms(1) by (simp add: out_of_range_def nonfinite_def)
  have "\<not> f_val v < - real_of_int n" "\<not> real_of_int n < f_val v"
    using assms num f_lt_val [of v "f_of_int (- n)"] f_lt_val [of "f_of_int n" v] f_of_int_near [of n] f_of_int_near [of "- n"]
    by (auto simp: out_of_range_def)
  then show "\<bar>f_val v\<bar> \<le> real_of_int n" by linarith
qed

lemma f_ok_nonneg: "f_ok (FNum s m e) \<Longrightarrow> 0 \<le> m"
  by (simp add: f_ok_def)

lemma scaled_float_ok: "f_ok (scaled_float neg hex m e)"
  unfolding scaled_float_def Let_def by (simp add: round_ratio_ok)

lemma parse_float_ok: "parse_float s = Some v \<Longrightarrow> f_ok v"
proof -
  assume s: "parse_float s = Some v"
  consider b where "v = FInf b" | "v = FNaN" | neg hex m e where "v = scaled_float neg hex m e"
    using s unfolding parse_float_def Let_def by (auto split: prod.splits if_splits option.splits f64.splits)
  then show ?thesis
  proof cases
    case (3 neg hex m e)
    show ?thesis unfolding 3 by (rule scaled_float_ok)
  qed (simp_all add: f_ok_def)
qed

lemma round_ratio_sign: "round_ratio s n d = FNum t m e \<Longrightarrow> t = s"
  by (auto simp: round_ratio_unfold round_ratio_def Let_def split: if_splits prod.splits)

text \<open>A finite quotient of a number that is not negative by a positive integer is not negative.\<close>

lemma f_div_nonneg:
  assumes "0 \<le> m" "0 \<le> n" "is_num (f_div (FNum False m e) (FNum False n g))"
  shows "0 \<le> f_val (f_div (FNum False m e) (FNum False n g))"
proof -
  have "n \<noteq> 0" using assms(3) by (cases "m = 0") auto
  then obtain N D where ND: "f_div (FNum False m e) (FNum False n g) = round_ratio False N D" "0 \<le> N" "0 < D"
    using assms(1,2) by (cases "g \<le> e") auto
  obtain t k h where r: "round_ratio False N D = FNum t k h" using assms(3) ND(1) by (metis is_num.elims(2))
  then have "t = False" by (rule round_ratio_sign)
  moreover have "0 \<le> k" using round_ratio_ok [OF ND(2,3), of False] unfolding r by (rule f_ok_nonneg)
  ultimately show ?thesis using ND(1) r by (simp add: signed_mant_def)
qed

lemma parse_depth_nonneg:
  assumes "parse_depth s = Inr d"
  shows "is_num d" "0 \<le> f_val d"
proof -
  obtain alt where alt: "parse_float s = Some alt" "is_num alt" "\<not> f_lt (f_of_int 0) alt" "d = f_div (f_neg alt) (f_of_int 1000)"
    "is_num d"
    using assms by (auto simp: parse_depth_def nonfinite_def Let_def split: option.splits if_splits)
  show "is_num d" by (rule alt(5))
  have k: "f_of_int 1000 = FNum False (1000 * 2 ^ 43) (- 43)" by code_simp
  obtain b m e where a: "alt = FNum b m e" using alt(2) by (metis is_num.elims(2))
  then have "0 \<le> m" using parse_float_ok [OF alt(1)] by (auto intro: f_ok_nonneg)
  show "0 \<le> f_val d"
  proof (cases b)
    case True
    then have "d = f_div (FNum False m e) (FNum False (1000 * 2 ^ 43) (- 43))" using a alt(4) k by simp
    then show ?thesis using f_div_nonneg [OF \<open>0 \<le> m\<close>, of "1000 * 2 ^ 43" e "- 43"] alt(5) by simp
  next
    case False
    have "\<not> 0 < f_val alt" using alt(2,3) f_lt_val [of "f_of_int 0" alt] f_of_int_near [of 0] by simp
    moreover have "0 < (2::real) powi e" by simp
    ultimately have "m = 0" using a False \<open>0 \<le> m\<close> by (auto simp: signed_mant_def zero_less_mult_iff)
    then have "d = FNum True 0 0" using a alt(4) False k by (simp add: round_ratio_def)
    then show ?thesis by (simp add: signed_mant_def)
  qed
qed

lemma parse_iso6709_bounds:
  assumes "parse_iso6709 s = Inr (lat, lon, depth)"
  shows "is_num lat" "\<bar>f_val lat\<bar> \<le> 90" "is_num lon" "\<bar>f_val lon\<bar> \<le> 180" "\<And>d. depth = Some d \<Longrightarrow> is_num d \<and> 0 \<le> f_val d"
proof -
  obtain altStr where p: "\<not> out_of_range lat 90" "\<not> out_of_range lon 180" "depth = None \<or> (\<exists>d. parse_depth altStr = Inr d \<and> depth = Some d)"
    using assms by (auto simp: parse_iso6709_def ebind_eq_Inr split: option.splits if_splits)
  show "is_num lat" "\<bar>f_val lat\<bar> \<le> 90" using out_of_range_bounds [OF p(1)] by simp_all
  show "is_num lon" "\<bar>f_val lon\<bar> \<le> 180" using out_of_range_bounds [OF p(2)] by simp_all
  show "is_num d \<and> 0 \<le> f_val d" if "depth = Some d" for d using p(3) that parse_depth_nonneg [of altStr d] by auto
qed

definition in_range :: "f64 option \<Rightarrow> real \<Rightarrow> real \<Rightarrow> bool" where
  "in_range x lo hi \<longleftrightarrow> (\<forall>v. x = Some v \<longrightarrow> is_num v \<and> lo \<le> f_val v \<and> f_val v \<le> hi)"

lemma locate_range:
  assumes "locate hypo = Inr (place, lat, lon, depth)"
  shows "in_range lat (- 90) 90 \<and> in_range lon (- 180) 180 \<and> (\<forall>d. depth = Some d \<longrightarrow> is_num d \<and> 0 \<le> f_val d)
    \<and> (lat = None \<longleftrightarrow> lon = None) \<and> (lat = None \<longrightarrow> depth = None)"
proof -
  consider "lat = None \<and> lon = None \<and> depth = None" | s a b where "parse_iso6709 s = Inr (a, b, depth)" "lat = Some a" "lon = Some b"
    using assms by (auto simp: locate_def Let_def ebind_eq_Inr split: option.splits if_splits sum.splits)
  then show ?thesis
  proof cases
    case (2 s a b)
    from parse_iso6709_bounds [OF 2(1)] show ?thesis by (auto simp: in_range_def 2(2,3))
  qed (simp add: in_range_def)
qed

text \<open>C28: An earthquake a telegram yields has both coordinates or neither, and a depth only with them; a latitude is a number
  within 90 degrees, a longitude one within 180, a depth one of at least 0 kilometres, and a magnitude is a number.  The
  datum of its hypocentre is one the parser supports: an earthquake located by the Tokyo datum is refused.\<close>

theorem earthquake_is_located:
  assumes "parse_telegram E url doc = Inr m" and "jm_earthquake m = Some q"
  shows "in_range (qk_latitude q) (- 90) 90 \<and> in_range (qk_longitude q) (- 180) 180
    \<and> (\<forall>d. qk_depth_km q = Some d \<longrightarrow> is_num d \<and> 0 \<le> f_val d) \<and> (\<forall>g. qk_magnitude q = Some g \<longrightarrow> is_num g)
    \<and> (qk_latitude q = None \<longleftrightarrow> qk_longitude q = None) \<and> (qk_latitude q = None \<longrightarrow> qk_depth_km q = None)
    \<and> (\<exists>rep e. tg_decode E doc = Decoded rep TrailEnd \<and> rb_earthquake (rr_body rep) = Some e
        \<and> (\<forall>h. eq_hypocenter e = Some h \<longrightarrow> check_datum (hy_coordinate h) = Inr ()))"
proof -
  obtain rep where L: "live_report E url doc rep m" using parse_telegram_live assms by (metis option.distinct(1))
  then obtain e where e: "rb_earthquake (rr_body rep) = Some e" "quake_of rep e = Inr q"
    by (cases rule: live_report_cases) (use assms(2) in auto)
  then obtain place where loc: "locate (eq_hypocenter e) = Inr (place, qk_latitude q, qk_longitude q, qk_depth_km q)"
    and mag: "qk_magnitude q = read_magnitude (eq_magnitude e)"
    by (auto simp: quake_of_def ebind_eq_Inr split: prod.splits)
  have "\<forall>g. qk_magnitude q = Some g \<longrightarrow> is_num g"
    using mag by (auto simp: read_magnitude_def nonfinite_def Let_def split: option.splits if_splits)
  moreover have "\<forall>h. eq_hypocenter e = Some h \<longrightarrow> check_datum (hy_coordinate h) = Inr ()"
    using loc by (auto simp: locate_def Let_def ebind_eq_Inr)
  moreover have "tg_decode E doc = Decoded rep TrailEnd" using L by (simp add: live_report_def decode_report_Inr)
  ultimately show ?thesis using locate_range [OF loc] e(1) by blast
qed

section \<open>Examples\<close>

definition demo_report :: "string \<Rightarrow> string \<Rightarrow> raw_body \<Rightarrow> raw_report" where
  "demo_report title kind body =
     \<lparr>rr_local = ''Report'', rr_space = report_namespace,
      rr_control = \<lparr>rc_title = title, rc_date_time = ''2026-01-01T00:00:00Z'', rc_status = t_normal, rc_editorial_office = ''Tokyo'',
                    rc_publishing_office = ''JMA''\<rparr>,
      rr_head = \<lparr>rh_title = title, rh_report_date_time = ''2026-01-01T09:00:00+09:00'', rh_target_date_time = '''',
                 rh_valid_date_time = '''', rh_event_id = ''20260101'', rh_info_type = t_issued, rh_serial = ''1'',
                 rh_info_kind = kind, rh_headline_text = '''', rh_information = []\<rparr>,
      rr_body = body\<rparr>"

definition demo_kind :: "string \<Rightarrow> string \<Rightarrow> raw_warning_kind" where
  "demo_kind name code = \<lparr>wk_name = name, wk_code = code, wk_status = t_issued, wk_property = ''''\<rparr>"

text \<open>One area with a warning, one without, and one listed with both.\<close>

definition demo_items :: "raw_warning_item list" where
  "demo_items =
     [\<lparr>wi_area = \<lparr>nc_name = ''A'', nc_code = ''101''\<rparr>, wi_kinds = [demo_kind (''Rain'' @ t_warning) ''03'']\<rparr>,
      \<lparr>wi_area = \<lparr>nc_name = ''B'', nc_code = ''102''\<rparr>, wi_kinds = [demo_kind t_none_issued ''00'']\<rparr>,
      \<lparr>wi_area = \<lparr>nc_name = ''C'', nc_code = ''103''\<rparr>, wi_kinds = [demo_kind '''' ''00'', demo_kind (''Snow'' @ t_advisory) ''12'']\<rparr>]"

definition demo_tg_env :: "raw_report \<Rightarrow> tg_env" where
  "demo_tg_env rep = \<lparr>tg_directives = (\<lambda>_. ([], True)), tg_decode = (\<lambda>_. Decoded rep TrailEnd), tg_rfc3339 = (\<lambda>_. True)\<rparr>"

definition demo_warnings :: tg_env where
  "demo_warnings = demo_tg_env (demo_report ''Warnings'' ''''
     \<lparr>rb_space = mete_namespace, rb_earthquake = None, rb_intensity = None,
      rb_warnings = [\<lparr>rw_type = t_met_warnings, rw_items = []\<rparr>,
                     \<lparr>rw_type = t_met_warnings @ t_municipal, rw_items = demo_items\<rparr>]\<rparr>)"

definition demo_quake :: tg_env where
  "demo_quake = demo_tg_env (demo_report t_hypo t_quake_info
     \<lparr>rb_space = seis_namespace,
      rb_earthquake = Some \<lparr>eq_origin_time = ''2026-01-01T08:59:00+09:00'', eq_arrival_time = '''',
        eq_hypocenter = Some \<lparr>hy_name = ''Noto'', hy_code = ''390'',
          hy_coordinate = \<lparr>co_datum = t_world_datum, co_type = t_epicentre, co_description = '''', co_value = ''+3730+137.5-10000/''\<rparr>\<rparr>,
        eq_magnitude = Some \<lparr>mg_type = ''Mj'', mg_description = '''', mg_value = ''7.5''\<rparr>\<rparr>,
      rb_intensity = Some (Some ''7''), rb_warnings = []\<rparr>)"

lemma demo_warnings_message:
  "\<exists>m. parse_telegram demo_warnings ''u.xml'' ''d'' = Inr m \<and> jm_cleared_areas m = [''102''] \<and> map al_geocode (jm_alerts m) = [''101'', ''103'']"
proof -
  have "case parse_telegram demo_warnings ''u.xml'' ''d'' of
      Inr m \<Rightarrow> jm_cleared_areas m = [''102''] \<and> map al_geocode (jm_alerts m) = [''101'', ''103''] | Inl _ \<Rightarrow> False"
    by code_simp
  then show ?thesis by (auto split: sum.splits)
qed

lemma demo_quake_message:
  "\<exists>m q. parse_telegram demo_quake ''u.xml'' ''d'' = Inr m \<and> jm_earthquake m = Some q
     \<and> qk_latitude q = Some (FNum False (75 * 2 ^ 46) (- 47)) \<and> qk_depth_km q = Some (FNum False (5 * 2 ^ 50) (- 49))"
proof -
  have "case parse_telegram demo_quake ''u.xml'' ''d'' of
      Inr m \<Rightarrow> (case jm_earthquake m of
          Some q \<Rightarrow> qk_latitude q = Some (FNum False (75 * 2 ^ 46) (- 47)) \<and> qk_depth_km q = Some (FNum False (5 * 2 ^ 50) (- 49))
        | None \<Rightarrow> False)
    | Inl _ \<Rightarrow> False"
    by code_simp
  then show ?thesis by (auto split: sum.splits option.splits)
qed

theorem live_content_is_authentic_witness:
  "\<exists>m rep. parse_telegram demo_quake ''u.xml'' ''d'' = Inr m \<and> jm_earthquake m \<noteq> None
     \<and> tg_decode demo_quake ''d'' = Decoded rep TrailEnd \<and> rb_space (rr_body rep) = seis_namespace \<and> jm_alerts m = []"
proof -
  obtain m q where "parse_telegram demo_quake ''u.xml'' ''d'' = Inr m" "jm_earthquake m = Some q" using demo_quake_message by blast
  then show ?thesis using live_content_is_authentic [of demo_quake "''u.xml''" "''d''" m] by auto
qed

theorem alerts_and_cleared_areas_witness:
  "\<exists>m rep w. parse_telegram demo_warnings ''u.xml'' ''d'' = Inr m \<and> jm_cleared_areas m = [''102'']
     \<and> select_warning tiers (rb_warnings (rr_body rep)) = Some w \<and> jm_alerts m = alerts_in (series_key_of rep) (rw_items w)"
proof -
  obtain m where "parse_telegram demo_warnings ''u.xml'' ''d'' = Inr m" "jm_cleared_areas m = [''102'']" using demo_warnings_message by blast
  then show ?thesis using alerts_and_cleared_areas [of demo_warnings "''u.xml''" "''d''" m] by auto
qed

theorem earthquake_is_located_witness:
  "\<exists>m q. parse_telegram demo_quake ''u.xml'' ''d'' = Inr m \<and> jm_earthquake m = Some q \<and> qk_latitude q \<noteq> None
     \<and> in_range (qk_latitude q) (- 90) 90 \<and> in_range (qk_longitude q) (- 180) 180"
proof -
  obtain m q where "parse_telegram demo_quake ''u.xml'' ''d'' = Inr m" "jm_earthquake m = Some q" "qk_latitude q \<noteq> None"
    using demo_quake_message by blast
  then show ?thesis using earthquake_is_located [of demo_quake "''u.xml''" "''d''" m q] by blast
qed

end
