(* ===== verification/CapFeed.thy ===== *)
theory CapFeed
  imports Cap
begin

text \<open>
  What the CAP adapter reads of its sources: the index of a feed in RSS, RDF or Atom
  (\<open>cap_adapter/app/adapter/feed.go\<close>) and the registry of alerting authorities (\<open>cap_adapter/app/adapter/raa.go\<close>).
  The XML decoder is the environment: it finds the root element, the items, and the children of an item one after the
  other; net/url parses and resolves addresses.
\<close>

section \<open>Items\<close>

text \<open>
  A child element of an item: name space, local name, attributes, and its text, or \<open>None\<close> where the decoder fails
  inside the child.  The children of an item end with its end tag, at the end of the input, or in an error.
\<close>

record child =
  ch_space :: string
  ch_local :: string
  ch_attrs :: "(string \<times> string) list"
  ch_text :: "string option"

datatype ending = Closed | AtEof | Broken

record cap_link =
  at_href :: string
  at_rel :: string
  at_type :: string

record cap_entry =
  ae_id :: string
  ae_title :: string
  ae_updated :: string
  ae_published :: string
  ae_links :: "cap_link list"

record rss_item =
  ri_title :: string
  ri_link :: string
  ri_guid :: string
  ri_pub_date :: string
  ri_enclosure :: "string option"

text \<open>The value of an attribute: the last one of that local name counts.\<close>

definition attr_of :: "string \<Rightarrow> (string \<times> string) list \<Rightarrow> string" where
  "attr_of name attrs = foldl (\<lambda>v (n, x). if n = name then trim_space x else v) '''' attrs"

definition own_child :: "string \<Rightarrow> child \<Rightarrow> bool" where
  "own_child space c \<longleftrightarrow> ch_space c = '''' \<or> ch_space c = space"

definition atom_child :: "child \<Rightarrow> string \<Rightarrow> cap_entry \<Rightarrow> cap_entry" where
  "atom_child c v e =
     (if ch_local c = ''id'' then e\<lparr>ae_id := trim_space v\<rparr>
      else if ch_local c = ''title'' then (if ae_title e = '''' then e\<lparr>ae_title := trim_space v\<rparr> else e)
      else if ch_local c = ''updated'' then e\<lparr>ae_updated := trim_space v\<rparr>
      else if ch_local c = ''published'' then e\<lparr>ae_published := trim_space v\<rparr>
      else if ch_local c = ''link'' then
        e\<lparr>ae_links := ae_links e @ [\<lparr>at_href = attr_of ''href'' (ch_attrs c), at_rel = attr_of ''rel'' (ch_attrs c),
                                    at_type = attr_of ''type'' (ch_attrs c)\<rparr>]\<rparr>
      else e)"

definition rss_child :: "child \<Rightarrow> string \<Rightarrow> rss_item \<Rightarrow> rss_item" where
  "rss_child c v i =
     (if ch_local c = ''link'' then (if ri_link i = '''' then i\<lparr>ri_link := trim_space v\<rparr> else i)
      else if ch_local c = ''title'' then (if ri_title i = '''' then i\<lparr>ri_title := trim_space v\<rparr> else i)
      else if ch_local c = ''guid'' then i\<lparr>ri_guid := trim_space v\<rparr>
      else if ch_local c = ''pubDate'' then i\<lparr>ri_pub_date := trim_space v\<rparr>
      else if ch_local c = ''enclosure'' then i\<lparr>ri_enclosure := Some (attr_of ''url'' (ch_attrs c))\<rparr>
      else i)"

text \<open>The loop of both \<open>UnmarshalXML\<close>: an element of another name space is skipped.\<close>

fun read_children :: "(child \<Rightarrow> string \<Rightarrow> 'i \<Rightarrow> 'i) \<Rightarrow> string \<Rightarrow> child list \<Rightarrow> ending \<Rightarrow> 'i \<Rightarrow> 'i option" where
  "read_children f space [] e i = (if e = Broken then None else Some i)"
| "read_children f space (c # cs) e i =
     (case ch_text c of
        None \<Rightarrow> None
      | Some v \<Rightarrow> read_children f space cs e (if own_child space c then f c v i else i))"

type_synonym element = "string \<times> child list \<times> ending"

definition empty_entry :: cap_entry where
  "empty_entry = \<lparr>ae_id = '''', ae_title = '''', ae_updated = '''', ae_published = '''', ae_links = []\<rparr>"

definition empty_item :: rss_item where
  "empty_item = \<lparr>ri_title = '''', ri_link = '''', ri_guid = '''', ri_pub_date = '''', ri_enclosure = None\<rparr>"

definition cap_entry_of :: "element \<Rightarrow> cap_entry option" where
  "cap_entry_of x = (case x of (space, cs, e) \<Rightarrow> read_children atom_child space cs e empty_entry)"

definition rss_item_of :: "element \<Rightarrow> rss_item option" where
  "rss_item_of x = (case x of (space, cs, e) \<Rightarrow> read_children rss_child space cs e empty_item)"

text \<open>The decoder stops at the first item that cannot be read.\<close>

fun all_items :: "('x \<Rightarrow> 'i option) \<Rightarrow> 'x list \<Rightarrow> 'i list option" where
  "all_items f [] = Some []"
| "all_items f (x # xs) = Option.bind (f x) (\<lambda>i. map_option ((#) i) (all_items f xs))"

section \<open>Feeds\<close>

datatype root = Root string | RootEof | RootError string

datatype feed_kind = Rss | Rdf | Atom

record parsed_url =
  pu_abs :: bool
  pu_string :: string

text \<open>
  The environment; the boolean argument is the decoder's strictness.  \<open>fx_items\<close> yields the items of a document of a
  kind, or the error of the decoder; \<open>fx_item_error\<close> is the decoder's text for an item that it cannot read.
\<close>

record feed_env =
  fx_root :: "bool \<Rightarrow> string \<Rightarrow> root"
  fx_items :: "feed_kind \<Rightarrow> bool \<Rightarrow> string \<Rightarrow> string + element list"
  fx_item_error :: "feed_kind \<Rightarrow> bool \<Rightarrow> string \<Rightarrow> string"
  fx_parse_url :: "string \<Rightarrow> parsed_url option"
  fx_resolve :: "string \<Rightarrow> string \<Rightarrow> string"

record index_feature =
  if_guid :: "string option"
  if_title :: "string option"
  if_cap_url :: "string option"
  if_published :: "string option"

record feed_parse_result =
  fe_format :: string
  fe_features :: "index_feature list"
  fe_error :: string

definition clean_non_empty :: "string \<Rightarrow> string option" where
  "clean_non_empty s = (let t = trim_space s in if t = '''' then None else Some t)"

definition resolve_candidate_url :: "feed_env \<Rightarrow> string \<Rightarrow> string \<Rightarrow> string option" where
  "resolve_candidate_url E feedURL candidate =
     (let candidate = trim_space candidate
      in if candidate = '''' then None
         else case fx_parse_url E candidate of
                None \<Rightarrow> Some candidate
              | Some ref \<Rightarrow>
                  if pu_abs ref then Some (pu_string ref)
                  else case fx_parse_url E feedURL of
                         None \<Rightarrow> Some candidate
                       | Some _ \<Rightarrow> Some (fx_resolve E feedURL candidate))"

definition rss_candidate :: "rss_item \<Rightarrow> string" where
  "rss_candidate i =
     (let link = trim_space (ri_link i);
          guid = trim_space (ri_guid i);
          candidate = (if link = '''' \<and> (has_prefix (lower_view guid) ''http://'' \<or> has_prefix (lower_view guid) ''https://'')
                       then guid else link)
      in case ri_enclosure i of
           Some u \<Rightarrow> if candidate = '''' then trim_space u else candidate
         | None \<Rightarrow> candidate)"

definition rss_feature :: "feed_env \<Rightarrow> string \<Rightarrow> rss_item \<Rightarrow> index_feature" where
  "rss_feature E feedURL i =
     \<lparr>if_guid = clean_non_empty (ri_guid i), if_title = clean_non_empty (ri_title i),
      if_cap_url = resolve_candidate_url E feedURL (rss_candidate i), if_published = clean_non_empty (ri_pub_date i)\<rparr>"

definition first_href :: "(cap_link \<Rightarrow> bool) \<Rightarrow> cap_link list \<Rightarrow> string" where
  "first_href p ls = (case find (\<lambda>l. p l \<and> trim_space (at_href l) \<noteq> '''') ls of Some l \<Rightarrow> at_href l | None \<Rightarrow> '''')"

definition atom_candidate :: "cap_entry \<Rightarrow> string" where
  "atom_candidate e =
     (let c = first_href (\<lambda>l. contains_str (lower_view (at_type l)) ''cap'') (ae_links e);
          c = (if c = '''' then first_href (\<lambda>l. equal_fold (trim_space (at_rel l)) ''alternate'') (ae_links e) else c)
      in if c = '''' then first_href (\<lambda>_. True) (ae_links e) else c)"

definition atom_feature :: "feed_env \<Rightarrow> string \<Rightarrow> cap_entry \<Rightarrow> index_feature" where
  "atom_feature E feedURL e =
     \<lparr>if_guid = clean_non_empty (ae_id e), if_title = clean_non_empty (ae_title e),
      if_cap_url = resolve_candidate_url E feedURL (atom_candidate e),
      if_published = clean_non_empty (if trim_space (ae_published e) = '''' then ae_updated e else ae_published e)\<rparr>"

text \<open>\<open>parseRSS\<close>, \<open>parseRDF\<close> and \<open>parseAtom\<close>: the strict decoder, then the lenient one; the error is that of the first.\<close>

definition kind_format :: "feed_kind \<Rightarrow> string" where
  "kind_format k = (case k of Atom \<Rightarrow> ''atom'' | _ \<Rightarrow> ''rss'')"

definition kind_name :: "feed_kind \<Rightarrow> string" where
  "kind_name k = (case k of Rss \<Rightarrow> ''RSS'' | Rdf \<Rightarrow> ''RDF'' | Atom \<Rightarrow> ''Atom'')"

definition decode_features :: "feed_env \<Rightarrow> feed_kind \<Rightarrow> bool \<Rightarrow> string \<Rightarrow> string \<Rightarrow> string + index_feature list" where
  "decode_features E k strict feedURL data =
     ebind (fx_items E k strict data) (\<lambda>xs.
       case (case k of Atom \<Rightarrow> map_option (map (atom_feature E feedURL)) (all_items cap_entry_of xs)
             | _ \<Rightarrow> map_option (map (rss_feature E feedURL)) (all_items rss_item_of xs)) of
         None \<Rightarrow> Inl (fx_item_error E k strict data)
       | Some fs \<Rightarrow> Inr fs)"

definition parse_kind :: "feed_env \<Rightarrow> feed_kind \<Rightarrow> string \<Rightarrow> string \<Rightarrow> feed_parse_result" where
  "parse_kind E k feedURL data =
     (case decode_features E k True feedURL data of
        Inr fs \<Rightarrow> \<lparr>fe_format = kind_format k, fe_features = fs, fe_error = ''''\<rparr>
      | Inl err \<Rightarrow>
          (case decode_features E k False feedURL data of
             Inr fs \<Rightarrow> \<lparr>fe_format = kind_format k, fe_features = fs, fe_error = ''''\<rparr>
           | Inl _ \<Rightarrow>
               \<lparr>fe_format = kind_format k, fe_features = [],
                fe_error = ''failed to parse '' @ kind_name k @ '' feed: '' @ err\<rparr>))"

definition not_a_feed :: "string \<Rightarrow> feed_parse_result" where
  "not_a_feed err = \<lparr>fe_format = ''other'', fe_features = [], fe_error = err\<rparr>"

definition find_root :: "feed_env \<Rightarrow> string \<Rightarrow> string + string" where
  "find_root E data =
     (case fx_root E True data of
        Root name \<Rightarrow> Inr name
      | RootEof \<Rightarrow> Inl ''not an XML feed''
      | RootError _ \<Rightarrow>
          (case fx_root E False data of
             Root name \<Rightarrow> Inr name
           | RootEof \<Rightarrow> Inl ''not an XML feed''
           | RootError err \<Rightarrow> Inl (''xml parse error: '' @ err)))"

definition bom :: string where "bom = [CHR 0xEF, CHR 0xBB, CHR 0xBF]"

definition trim_bom :: "string \<Rightarrow> string" where
  "trim_bom s = (case cut_prefix s bom of Some r \<Rightarrow> r | None \<Rightarrow> s)"

definition parse_feed :: "feed_env \<Rightarrow> string \<Rightarrow> string \<Rightarrow> feed_parse_result" where
  "parse_feed E feedURL data =
     (let data = trim_bom data; trimmed = trim_space data
      in if trimmed = '''' \<or> hd trimmed = CHR ''{'' \<or> hd trimmed = CHR ''['' then not_a_feed ''not an XML feed''
         else case find_root E data of
                Inl err \<Rightarrow> not_a_feed err
              | Inr name \<Rightarrow>
                  (let local = lower_view name
                   in if local = ''rss'' then parse_kind E Rss feedURL data
                      else if local = ''rdf'' then parse_kind E Rdf feedURL data
                      else if local = ''feed'' then parse_kind E Atom feedURL data
                      else not_a_feed (''not an XML feed: root <'' @ name @ ''>'')))"

section \<open>The registry of alerting authorities\<close>

record raa_feed =
  rf_url :: string
  rf_language :: "string option"

record raw_raa_item =
  rw_title :: "string option"
  rw_country_code :: "string option"
  rw_link :: "string option"
  rw_description :: "string option"
  rw_pub_date :: "string option"
  rw_guid :: "string option"
  rw_abbrev :: "string option"
  rw_feeds :: "((string \<times> string) list \<times> string) list" \<comment> \<open>attributes and text of each feed\<close>

record raa_feature =
  rg_guid :: "string option"
  rg_title :: "string option"
  rg_country_iso3 :: "string option"
  rg_link :: "string option"
  rg_description :: "string option"
  rg_pub_date :: "string option"
  rg_abbrev :: "string option"
  rg_feeds :: "raa_feed list"

text \<open>\<open>RAAFeed.UnmarshalXML\<close>: the language is that of the last \<open>lang\<close> attribute that is not blank.\<close>

definition read_raa_feed :: "(string \<times> string) list \<times> string \<Rightarrow> raa_feed" where
  "read_raa_feed x =
     (case x of (attrs, content) \<Rightarrow>
        \<lparr>rf_url = trim_space content,
         rf_language = foldl (\<lambda>l (n, v). if n = ''lang'' \<and> trim_space v \<noteq> '''' then Some (trim_space v) else l) None attrs\<rparr>)"

definition raa_feeds :: "raw_raa_item \<Rightarrow> raa_feed list" where
  "raa_feeds item =
     map (\<lambda>f. \<lparr>rf_url = trim_space (rf_url f), rf_language = clean_string_ptr (rf_language f)\<rparr>)
       (filter (\<lambda>f. trim_space (rf_url f) \<noteq> '''') (map read_raa_feed (rw_feeds item)))"

definition raa_feature_of :: "raw_raa_item \<Rightarrow> raa_feature" where
  "raa_feature_of item =
     \<lparr>rg_guid = clean_string_ptr (rw_guid item), rg_title = clean_string_ptr (rw_title item),
      rg_country_iso3 = clean_string_ptr (rw_country_code item), rg_link = clean_string_ptr (rw_link item),
      rg_description = clean_string_ptr (rw_description item), rg_pub_date = clean_string_ptr (rw_pub_date item),
      rg_abbrev = clean_string_ptr (rw_abbrev item), rg_feeds = raa_feeds item\<rparr>"

definition parse_raa :: "(string \<Rightarrow> raw_raa_item list option) \<Rightarrow> string \<Rightarrow> raa_feature list option" where
  "parse_raa decode data = map_option (map raa_feature_of) (decode (trim_bom data))"

end
