(* ===== verification/Go_Duration.thy ===== *)
theory Go_Duration
  imports Go_ParseFloat Poll
begin

text \<open>
  \<open>time.ParseDuration\<close>: a sign, then numbers with a fraction and a unit each, summed up as nanoseconds in 64 bits.
  The value is \<open>None\<close> where the function returns an error.
\<close>

text \<open>\<open>leadingInt\<close>: the digits at the front as a number of at most 2^63, and what follows them.\<close>

fun leading_int :: "nat \<Rightarrow> string \<Rightarrow> (nat \<times> string) option" where
  "leading_int x [] = Some (x, [])"
| "leading_int x (c # cs) =
     (if \<not> is_digit c then Some (x, c # cs)
      else if 2 ^ 63 div 10 < x then None
      else (let x = 10 * x + (of_char c - 48) in if 2 ^ 63 < x then None else leading_int x cs))"

text \<open>\<open>leadingFraction\<close>: digits that would pass 2^63 are dropped; the scale is a power of ten as a double.\<close>

fun leading_fraction :: "nat \<Rightarrow> f64 \<Rightarrow> bool \<Rightarrow> string \<Rightarrow> nat \<times> f64 \<times> string" where
  "leading_fraction x scale overflow [] = (x, scale, [])"
| "leading_fraction x scale overflow (c # cs) =
     (if \<not> is_digit c then (x, scale, c # cs)
      else if overflow \<or> (2 ^ 63 - 1) div 10 < x then leading_fraction x scale True cs
      else (let y = 10 * x + (of_char c - 48)
            in if 2 ^ 63 < y then leading_fraction x scale True cs
               else leading_fraction y (f_mul scale (f_of_int 10)) False cs))"

definition unit_map :: "string \<Rightarrow> nat option" where
  "unit_map u = map_of
     [(''ns'', 1), (''us'', 1000), ([CHR 0xC2, CHR 0xB5, CHR ''s''], 1000), ([CHR 0xCE, CHR 0xBC, CHR ''s''], 1000),
      (''ms'', 10 ^ 6), (''s'', 10 ^ 9), (''m'', 60 * 10 ^ 9), (''h'', 3600 * 10 ^ 9)] u"

definition unit_char :: "char \<Rightarrow> bool" where
  "unit_char c \<longleftrightarrow> c \<noteq> CHR ''.'' \<and> \<not> is_digit c"

text \<open>
  What a fraction \<open>f\<close> at a scale adds to a unit: the product in double precision, cut to an integer.  It is below the
  unit, so the conversion stays in range.
\<close>

definition fraction_nanos :: "nat \<Rightarrow> f64 \<Rightarrow> nat \<Rightarrow> nat" where
  "fraction_nanos f scale unit =
     (if f = 0 then 0
      else case f_trunc (f_mul (f_of_int (int f)) (f_div (f_of_int (int unit)) scale)) of Some n \<Rightarrow> nat n | None \<Rightarrow> 0)"

text \<open>One number with its unit: its nanoseconds, of at most 2^63, and the rest.\<close>

definition parse_component :: "string \<Rightarrow> (nat \<times> string) option" where
  "parse_component s =
     Option.bind (leading_int 0 s) (\<lambda>(v, s1).
       (let pre = (length s1 \<noteq> length s);
            dot = (s1 \<noteq> [] \<and> hd s1 = CHR ''.'');
            (f, scale, s2) = (if dot then leading_fraction 0 (f_of_int 1) False (tl s1) else (0, f_of_int 1, s1));
            post = (dot \<and> length s2 \<noteq> length (tl s1))
        in if \<not> pre \<and> \<not> post then None
           else
             Option.bind (unit_map (takeWhile unit_char s2)) (\<lambda>unit.
               if 2 ^ 63 div unit < v then None
               else (let n = v * unit + fraction_nanos f scale unit
                     in if 2 ^ 63 < n then None else Some (n, dropWhile unit_char s2)))))"

lemma leading_int_length: "leading_int x s = Some (y, r) \<Longrightarrow> length r \<le> length s"
  by (induction x s rule: leading_int.induct) (auto simp: Let_def split: if_splits)

lemma leading_fraction_length: "leading_fraction x sc ov s = (y, k, r) \<Longrightarrow> length r \<le> length s"
proof (induction x sc ov s rule: leading_fraction.induct)
  case (2 x scale overflow c cs)
  show ?case
  proof (cases "is_digit c")
    case digit: True
    show ?thesis
    proof (cases "overflow \<or> (2 ^ 63 - 1) div 10 < x")
      case True
      then show ?thesis using "2.IH"(1) "2.prems" digit by simp
    next
      case False
      then show ?thesis
        using "2.IH"(2) [OF _ False refl] "2.IH"(3) [OF _ False refl] "2.prems" digit
        by (cases "2 ^ 63 < 10 * x + (of_char c - 48)") (simp_all only: leading_fraction.simps if_True if_False not_False_eq_True Let_def, auto)
    qed
  qed (use "2.prems" in auto)
qed simp

lemma unit_map_nonempty: "unit_map u = Some n \<Longrightarrow> u \<noteq> []"
  by (auto simp: unit_map_def)

lemma parse_component_shorter: "parse_component s = Some (n, r) \<Longrightarrow> length r < length s"
proof -
  assume p: "parse_component s = Some (n, r)"
  obtain v s1 where s1: "leading_int 0 s = Some (v, s1)" using p by (auto simp: parse_component_def bind_eq_Some_conv)
  define s2 where "s2 = snd (snd (if s1 \<noteq> [] \<and> hd s1 = CHR ''.'' then leading_fraction 0 (f_of_int 1) False (tl s1) else (0, f_of_int 1, s1)))"
  have "length s2 \<le> length s1"
    using leading_fraction_length [of 0 "f_of_int 1" False "tl s1"] unfolding s2_def
    by (cases "leading_fraction 0 (f_of_int 1) False (tl s1)") (fastforce dest: order_trans)
  moreover have "length s1 \<le> length s" by (rule leading_int_length [OF s1])
  moreover obtain u where "unit_map (takeWhile unit_char s2) = Some u" "r = dropWhile unit_char s2"
    using p s1 unfolding parse_component_def s2_def by (auto simp: bind_eq_Some_conv Let_def split: prod.splits if_splits)
  moreover then have "length (dropWhile unit_char s2) < length s2"
    using unit_map_nonempty by (metis length_append length_greater_0_conv less_add_same_cancel2 takeWhile_dropWhile_id)
  ultimately show "length r < length s" by simp
qed

function parse_components :: "nat \<Rightarrow> string \<Rightarrow> nat option" where
  "parse_components d s =
     (if s = [] then Some d
      else case parse_component s of
             None \<Rightarrow> None
           | Some (n, r) \<Rightarrow> if 2 ^ 63 < d + n then None else parse_components (d + n) r)"
  by pat_completeness auto
termination
  by (relation "measure (\<lambda>(d, s). length s)") (auto dest: parse_component_shorter)

declare parse_components.simps [simp del]

definition parse_duration :: "string \<Rightarrow> int option" where
  "parse_duration s =
     (let (neg, body) = split_sign s
      in if body = ''0'' then Some 0
         else if body = '''' then None
         else
           Option.bind (parse_components 0 body) (\<lambda>d.
             if neg then Some (s64 (- int d)) else if 2 ^ 63 - 1 < d then None else Some (int d)))"

lemma parse_components_le: "parse_components d s = Some n \<Longrightarrow> d \<le> 2 ^ 63 \<Longrightarrow> n \<le> 2 ^ 63"
proof (induction d s rule: parse_components.induct)
  case (1 d s)
  show ?case
  proof (cases "s = []")
    case True
    then show ?thesis using "1.prems" by (simp add: parse_components.simps)
  next
    case False
    have "(case parse_component s of None \<Rightarrow> None | Some (n, r) \<Rightarrow> if 2 ^ 63 < d + n then None else parse_components (d + n) r) = Some n"
      using "1.prems"(1) False by (subst (asm) parse_components.simps) simp
    then obtain k r where k: "parse_component s = Some (k, r)" "\<not> 2 ^ 63 < d + k" "parse_components (d + k) r = Some n"
      by (auto split: option.splits prod.splits if_splits)
    then show ?thesis using "1.IH" [OF False k(1) refl k(2,3)] by simp
  qed
qed

lemma parse_duration_in_s64:
  assumes "parse_duration s = Some d"
  shows "in_s64 d"
proof -
  consider "d = 0" | n where "d = s64 (- int n)" | n where "d = int n" "\<not> 2 ^ 63 - 1 < n"
    using assms by (auto simp: parse_duration_def bind_eq_Some_conv Let_def split: prod.splits if_splits)
  then show ?thesis by cases (auto simp: in_s64_def [of 0] in_s64_def [of "int _"])
qed

end
