(* ===== verification/Config.thy ===== *)
theory Config
  imports Go_Duration "HOL-Library.Code_Target_Nat"
begin

text \<open>
  What the adapters read from their environment variables: the configurations of the JMA adapter
  (\<open>jma_adapter/app/config/config.go\<close>), the WIS2 adapter (\<open>wis2_adapter/app/config/config.go\<close>) and, in their
  controllers, the CAP, GDACS and EMSC adapters, and the User-Agent header (\<open>adapters/common/useragent\<close>).  The
  environment is a function from names to values, the empty string for a variable that is not set.
\<close>

type_synonym getenv = "string \<Rightarrow> string"

section \<open>Readers of variables\<close>

text \<open>\<open>useragent.Build\<close>.\<close>

definition user_agent :: "getenv \<Rightarrow> string \<Rightarrow> string \<Rightarrow> string \<Rightarrow> string" where
  "user_agent getenv product contactEnvVar fallback =
     (let contact = getenv contactEnvVar
      in if contact \<noteq> '''' then product @ '' ('' @ contact @ '')''
         else if fallback = '''' then product
         else product @ '' ('' @ fallback @ '')'')"

definition split_comma_list :: "string \<Rightarrow> string list" where
  "split_comma_list s = filter (\<lambda>p. p \<noteq> '''') (map trim_space (split_at CHR '','' s))"

definition text_env :: "getenv \<Rightarrow> string \<Rightarrow> string \<Rightarrow> string" where
  "text_env getenv key def = (let v = trim_space (getenv key) in if v \<noteq> '''' then v else def)"

text \<open>A number or a duration that must be positive, or the default.\<close>

definition positive_env :: "(string \<Rightarrow> int option) \<Rightarrow> getenv \<Rightarrow> string \<Rightarrow> int \<Rightarrow> int" where
  "positive_env parse getenv key def =
     (let v = trim_space (getenv key)
      in if v = '''' then def else case parse v of Some n \<Rightarrow> if 0 < n then n else def | None \<Rightarrow> def)"

lemma positive_env_pos: "0 < def \<Longrightarrow> 0 < positive_env parse getenv key def"
  by (auto simp: positive_env_def Let_def split: option.split)

lemma split_comma_list_text: "s \<in> set (split_comma_list x) \<Longrightarrow> s \<noteq> '''' \<and> trim_space s = s"
  by (auto simp: split_comma_list_def)

section \<open>The JMA adapter\<close>

definition minute :: int where "minute = 60 * second"
definition hour :: int where "hour = 3600 * second"

definition defaultFeeds :: string where
  "defaultFeeds =
     ''https://www.data.jma.go.jp/developer/xml/feed/eqvol.xml,https://www.data.jma.go.jp/developer/xml/feed/extra.xml''"

definition defaultLongFeeds :: string where
  "defaultLongFeeds =
     ''https://www.data.jma.go.jp/developer/xml/feed/eqvol_l.xml,https://www.data.jma.go.jp/developer/xml/feed/extra_l.xml''"

definition maxAllowedByteLimit :: int where "maxAllowedByteLimit = 1073741824"
definition minAllowedByteLimit :: int where "minAllowedByteLimit = 1048576"
definition defaultMaxItemBytes :: int where "defaultMaxItemBytes = 8388608"
definition maxAllowedItemBytes :: int where "maxAllowedItemBytes = 33554432"
definition minAllowedItemBytes :: int where "minAllowedItemBytes = 1024"

record jma_config =
  jc_feeds :: "string list"
  jc_long_feeds :: "string list"
  jc_poll_interval :: int
  jc_long_poll_interval :: int
  jc_request_interval :: int
  jc_state_dir :: string
  jc_daily_byte_limit :: int
  jc_max_item_bytes :: int
  jc_user_agent :: string

definition parse_comma_separated_urls :: "getenv \<Rightarrow> string \<Rightarrow> string \<Rightarrow> string list" where
  "parse_comma_separated_urls getenv envKey defVal =
     split_comma_list (if getenv envKey = '''' then defVal else getenv envKey)"

definition parse_duration_env :: "getenv \<Rightarrow> string \<Rightarrow> int \<Rightarrow> int \<Rightarrow> int" where
  "parse_duration_env getenv key def least =
     (let val = getenv key
      in if val = '''' then def
         else case parse_duration val of None \<Rightarrow> def | Some d \<Rightarrow> if d < least then least else d)"

datatype config_error =
    NoFeeds
  | NoLongFeeds
  | BadInteger string
  | OutOfSafeBounds string

definition parse_int64_range_env :: "getenv \<Rightarrow> string \<Rightarrow> int \<Rightarrow> int \<Rightarrow> int \<Rightarrow> config_error + int" where
  "parse_int64_range_env getenv key def minVal maxVal =
     (let val = getenv key
      in if val = '''' then Inr def
         else case atoi val of
                None \<Rightarrow> Inl (BadInteger key)
              | Some n \<Rightarrow>
                  if n < 0 \<or> max_int64 - 1024 < n then Inl (OutOfSafeBounds key)
                  else if n < minVal then Inr minVal
                  else if maxVal < n then Inr maxVal
                  else Inr n)"

definition load :: "getenv \<Rightarrow> config_error + jma_config" where
  "load getenv =
     (let feeds = parse_comma_separated_urls getenv ''JMA_FEEDS'' defaultFeeds;
          longFeeds = parse_comma_separated_urls getenv ''JMA_LONG_FEEDS'' defaultLongFeeds;
          stateDir = getenv ''JMA_STATE_DIR''
      in if feeds = [] then Inl NoFeeds
         else if longFeeds = [] then Inl NoLongFeeds
         else
           ebind (parse_int64_range_env getenv ''JMA_DAILY_BYTE_LIMIT'' maxAllowedByteLimit minAllowedByteLimit maxAllowedByteLimit)
             (\<lambda>dailyByteLimit.
           ebind (parse_int64_range_env getenv ''JMA_MAX_ITEM_BYTES'' defaultMaxItemBytes minAllowedItemBytes maxAllowedItemBytes)
             (\<lambda>maxItemBytes.
             Inr \<lparr>jc_feeds = feeds, jc_long_feeds = longFeeds,
                  jc_poll_interval = parse_duration_env getenv ''JMA_POLL_INTERVAL'' minute minute,
                  jc_long_poll_interval = parse_duration_env getenv ''JMA_LONG_POLL_INTERVAL'' hour hour,
                  jc_request_interval = parse_duration_env getenv ''JMA_REQUEST_INTERVAL'' second second,
                  jc_state_dir = (if stateDir = '''' then ''/var/lib/jma'' else stateDir),
                  jc_daily_byte_limit = dailyByteLimit, jc_max_item_bytes = maxItemBytes,
                  jc_user_agent = user_agent getenv ''matrixwhale-jma-adapter'' ''JMA_CONTACT_EMAIL'' ''''\<rparr>)))"

section \<open>The WIS2 adapter\<close>

definition defaultBrokers :: string where
  "defaultBrokers =
     ''mqtts://globalbroker.meteo.fr:8883,mqtts://gb.wis.cma.cn:8883,mqtts://wis2globalbroker.nws.noaa.gov:8883,mqtts://globalbroker.inmet.gov.br:8883''"

definition defaultTopics :: string where
  "defaultTopics =
     ''cache/a/wis2/+/data/core/weather/advisories-warnings/#,''
     @ ''cache/a/wis2/+/data/core/weather/prediction/forecast/+/deterministic/trajectory/#,''
     @ ''cache/a/wis2/+/data/core/weather/surface-based-observations/synop/#''"

record wis2_config =
  wc_brokers :: "string list"
  wc_username :: string
  wc_password :: string
  wc_topics :: "string list"
  wc_contact_email :: string
  wc_max_download_bytes :: int
  wc_download_concurrency :: int
  wc_health_interval :: int

definition list_env :: "getenv \<Rightarrow> string \<Rightarrow> string \<Rightarrow> string list" where
  "list_env getenv key def =
     (let xs = split_comma_list (text_env getenv key def) in if xs = [] then split_comma_list def else xs)"

definition load_wis2_config :: "getenv \<Rightarrow> wis2_config" where
  "load_wis2_config getenv =
     \<lparr>wc_brokers = list_env getenv ''WIS2_BROKERS'' defaultBrokers,
      wc_username = text_env getenv ''WIS2_USERNAME'' ''everyone'',
      wc_password = text_env getenv ''WIS2_PASSWORD'' ''everyone'',
      wc_topics = list_env getenv ''WIS2_TOPICS'' defaultTopics,
      wc_contact_email = trim_space (getenv ''WIS2_CONTACT_EMAIL''),
      wc_max_download_bytes = positive_env atoi getenv ''WIS2_MAX_DOWNLOAD_BYTES'' (5 * 1024 * 1024),
      wc_download_concurrency = positive_env atoi getenv ''WIS2_DOWNLOAD_CONCURRENCY'' 8,
      wc_health_interval = positive_env parse_duration getenv ''WIS2_HEALTH_INTERVAL'' minute\<rparr>"

section \<open>The CAP, GDACS and EMSC adapters\<close>

record cap_config =
  cc_raa_url :: string
  cc_poll_interval :: int
  cc_registry_interval :: int
  cc_host_min_interval :: int
  cc_max_parallel_hosts :: int
  cc_contact_email :: string

definition load_cap_config :: "getenv \<Rightarrow> cap_config" where
  "load_cap_config getenv =
     \<lparr>cc_raa_url = text_env getenv ''CAP_RAA_URL'' ''https://alertingauthority.wmo.int/rss.xml'',
      cc_poll_interval = positive_env parse_duration getenv ''CAP_POLL_INTERVAL'' (5 * minute),
      cc_registry_interval = positive_env parse_duration getenv ''CAP_REGISTRY_INTERVAL'' (24 * hour),
      cc_host_min_interval = positive_env parse_duration getenv ''CAP_HOST_MIN_INTERVAL'' (2 * second),
      cc_max_parallel_hosts = positive_env atoi getenv ''CAP_MAX_PARALLEL_HOSTS'' 8,
      cc_contact_email = getenv ''CAP_CONTACT_EMAIL''\<rparr>"

record gdacs_config =
  gc_api_url :: string
  gc_backfill_days :: int
  gc_poll_interval :: int
  gc_min_request_interval :: int

definition load_gdacs_config :: "getenv \<Rightarrow> gdacs_config" where
  "load_gdacs_config getenv =
     \<lparr>gc_api_url = text_env getenv ''GDACS_API_URL'' ''https://www.gdacs.org/gdacsapi/api'',
      gc_backfill_days = positive_env atoi getenv ''GDACS_BACKFILL_DAYS'' 14,
      gc_poll_interval = positive_env parse_duration getenv ''GDACS_POLL_INTERVAL'' (5 * minute),
      gc_min_request_interval = positive_env parse_duration getenv ''GDACS_MIN_REQUEST_INTERVAL'' (10 * second)\<rparr>"

record emsc_config =
  ec_websocket_url :: string
  ec_fdsn_url :: string
  ec_backfill_days :: int

definition load_emsc_config :: "getenv \<Rightarrow> emsc_config" where
  "load_emsc_config getenv =
     \<lparr>ec_websocket_url = text_env getenv ''EMSC_WEBSOCKET_URL'' ''wss://www.seismicportal.eu/standing_order/websocket'',
      ec_fdsn_url = text_env getenv ''EMSC_FDSN_URL'' ''https://www.seismicportal.eu/fdsnws/event/1/query'',
      ec_backfill_days = positive_env atoi getenv ''EMSC_BACKFILL_DAYS'' 7\<rparr>"

section \<open>What a configuration is\<close>

lemma parse_duration_env_ge: "least \<le> def \<Longrightarrow> least \<le> parse_duration_env getenv key def least"
  by (auto simp: parse_duration_env_def Let_def split: option.split)

lemma parse_int64_range_env_bounds:
  "parse_int64_range_env getenv key def lo hi = Inr n \<Longrightarrow> lo \<le> def \<Longrightarrow> def \<le> hi \<Longrightarrow> lo \<le> n \<and> n \<le> hi"
  by (auto simp: parse_int64_range_env_def Let_def split: option.splits if_splits)

text \<open>C33: Whatever the environment says, a configuration the JMA adapter starts with has at least one feed of each kind, each a
  trimmed address; it polls at most once a minute, the long feeds at most once an hour, and sends at most one request a
  second; it may download between 1 MiB and 1 GiB a day and between 1 KiB and 32 MiB for one document.\<close>

theorem jma_config_is_polite:
  assumes "load getenv = Inr cfg"
  shows "jc_feeds cfg \<noteq> [] \<and> jc_long_feeds cfg \<noteq> []
    \<and> (\<forall>u \<in> set (jc_feeds cfg) \<union> set (jc_long_feeds cfg). u \<noteq> '''' \<and> trim_space u = u)
    \<and> minute \<le> jc_poll_interval cfg \<and> hour \<le> jc_long_poll_interval cfg \<and> second \<le> jc_request_interval cfg
    \<and> 2 ^ 20 \<le> jc_daily_byte_limit cfg \<and> jc_daily_byte_limit cfg \<le> 2 ^ 30
    \<and> 2 ^ 10 \<le> jc_max_item_bytes cfg \<and> jc_max_item_bytes cfg \<le> 2 ^ 25"
proof -
  obtain daily item where p:
    "parse_int64_range_env getenv ''JMA_DAILY_BYTE_LIMIT'' maxAllowedByteLimit minAllowedByteLimit maxAllowedByteLimit = Inr daily"
    "parse_int64_range_env getenv ''JMA_MAX_ITEM_BYTES'' defaultMaxItemBytes minAllowedItemBytes maxAllowedItemBytes = Inr item"
    and cfg: "jc_daily_byte_limit cfg = daily" "jc_max_item_bytes cfg = item"
      "jc_feeds cfg = parse_comma_separated_urls getenv ''JMA_FEEDS'' defaultFeeds" "jc_feeds cfg \<noteq> []"
      "jc_long_feeds cfg = parse_comma_separated_urls getenv ''JMA_LONG_FEEDS'' defaultLongFeeds" "jc_long_feeds cfg \<noteq> []"
      "jc_poll_interval cfg = parse_duration_env getenv ''JMA_POLL_INTERVAL'' minute minute"
      "jc_long_poll_interval cfg = parse_duration_env getenv ''JMA_LONG_POLL_INTERVAL'' hour hour"
      "jc_request_interval cfg = parse_duration_env getenv ''JMA_REQUEST_INTERVAL'' second second"
    using assms by (auto simp: load_def Let_def ebind_eq_Inr split: if_splits)
  have "minAllowedByteLimit \<le> daily \<and> daily \<le> maxAllowedByteLimit" "minAllowedItemBytes \<le> item \<and> item \<le> maxAllowedItemBytes"
    using parse_int64_range_env_bounds [OF p(1)] parse_int64_range_env_bounds [OF p(2)]
    by (simp_all add: minAllowedByteLimit_def maxAllowedByteLimit_def defaultMaxItemBytes_def minAllowedItemBytes_def maxAllowedItemBytes_def)
  moreover have "u \<noteq> '''' \<and> trim_space u = u" if "u \<in> set (jc_feeds cfg) \<union> set (jc_long_feeds cfg)" for u
    using that unfolding cfg(3,5) parse_comma_separated_urls_def by (auto dest: split_comma_list_text)
  ultimately show ?thesis
    using cfg(1,2,4,6) unfolding cfg(7-9)
    by (auto simp: parse_duration_env_ge minAllowedByteLimit_def maxAllowedByteLimit_def minAllowedItemBytes_def maxAllowedItemBytes_def)
qed

definition demo_getenv :: getenv where
  "demo_getenv key =
     (if key = ''JMA_POLL_INTERVAL'' then ''10s'' else if key = ''JMA_LONG_POLL_INTERVAL'' then ''1h30m''
      else if key = ''JMA_DAILY_BYTE_LIMIT'' then ''99999999999'' else '''')"

lemma demo_load:
  "\<exists>cfg. load demo_getenv = Inr cfg \<and> jc_poll_interval cfg = minute \<and> jc_long_poll_interval cfg = 5400 * 1000000000
     \<and> jc_daily_byte_limit cfg = 2 ^ 30"
proof -
  have "case load demo_getenv of
      Inr cfg \<Rightarrow> jc_poll_interval cfg = minute \<and> jc_long_poll_interval cfg = 5400 * 1000000000 \<and> jc_daily_byte_limit cfg = 2 ^ 30
    | Inl _ \<Rightarrow> False"
    by code_simp
  then show ?thesis by (auto split: sum.splits)
qed

theorem jma_config_is_polite_witness:
  "\<exists>cfg. load demo_getenv = Inr cfg \<and> jc_feeds cfg \<noteq> [] \<and> minute \<le> jc_poll_interval cfg \<and> hour < jc_long_poll_interval cfg
     \<and> jc_daily_byte_limit cfg = 2 ^ 30 \<and> jc_max_item_bytes cfg \<le> 2 ^ 25"
proof -
  obtain cfg where "load demo_getenv = Inr cfg" "jc_long_poll_interval cfg = 5400 * 1000000000" "jc_daily_byte_limit cfg = 2 ^ 30"
    using demo_load by blast
  then show ?thesis using jma_config_is_polite [of demo_getenv cfg] by (intro exI [of _ cfg]) (auto simp: hour_def second_def)
qed

lemma default_lists: "split_comma_list defaultBrokers \<noteq> []" "split_comma_list defaultTopics \<noteq> []"
  by code_simp+

lemma list_env_nonempty: "split_comma_list def \<noteq> [] \<Longrightarrow> list_env getenv key def \<noteq> []"
  by (auto simp: list_env_def Let_def)

text \<open>The CAP, GDACS, EMSC and WIS2 adapters start with positive intervals, limits and counts, and the WIS2 adapter with at
  least one broker and one topic, whatever their variables say.\<close>

theorem adapter_configs_are_positive:
  "0 < cc_poll_interval (load_cap_config getenv) \<and> 0 < cc_registry_interval (load_cap_config getenv)
   \<and> 0 < cc_host_min_interval (load_cap_config getenv) \<and> 0 < cc_max_parallel_hosts (load_cap_config getenv)
   \<and> 0 < gc_backfill_days (load_gdacs_config getenv) \<and> 0 < gc_poll_interval (load_gdacs_config getenv)
   \<and> 0 < gc_min_request_interval (load_gdacs_config getenv) \<and> 0 < ec_backfill_days (load_emsc_config getenv)
   \<and> 0 < wc_max_download_bytes (load_wis2_config getenv) \<and> 0 < wc_download_concurrency (load_wis2_config getenv)
   \<and> 0 < wc_health_interval (load_wis2_config getenv)
   \<and> wc_brokers (load_wis2_config getenv) \<noteq> [] \<and> wc_topics (load_wis2_config getenv) \<noteq> []"
  by (simp add: load_cap_config_def load_gdacs_config_def load_emsc_config_def load_wis2_config_def positive_env_pos
      list_env_nonempty default_lists minute_def hour_def second_def)

end
