(* ===== verification/CapController.thy ===== *)
theory CapController
  imports CapFeed Limiter Config CoreClient Go_Time Threads
begin

text \<open>
  The CAP adapter (\<open>cap_adapter/app/controller/controller.go\<close>) and its client of the core
  (\<open>cap_adapter/app/adapter/matrix_whale.go\<close>): the registry poll, the cycle of feed polls with one goroutine per
  host, and the draining of pending alerts with one goroutine per host and a collector of their results.  Goroutines
  are programs over the shared state.  Loops without end are not programs: the main goroutine is in a phase, and
  each turn of its loops is a program of its own that ends by choosing the next phase.
\<close>

section \<open>Data\<close>

record feed_entry =
  fd_url :: string
  fd_poll_interval_seconds :: int

record pending_entry =
  pe_cap_url :: string
  pe_feed_url :: string

record alert_result =
  ar_cap_url :: string
  ar_feed_url :: string
  ar_fetched_at :: string
  ar_http_status :: int
  ar_error :: "string option"
  ar_cap :: "cap_alert option"
  ar_raw_xml :: "string option"

datatype payload =
    Registry "raa_feature list"
  | Index "index_feature list"
  | Alerts "alert_result list"

fun payload_size :: "payload \<Rightarrow> nat" where
  "payload_size (Registry fs) = length fs"
| "payload_size (Index fs) = length fs"
| "payload_size (Alerts rs) = length rs"

text \<open>What happens: requests with the validators sent, responses to feed polls, and posts with their success.\<close>

datatype cap_event =
    EvRegistryRequest string string
  | EvFeedRequest string string string \<comment> \<open>address, ETag and modification date sent\<close>
  | EvAlertRequest string
  | EvFetched string header string \<comment> \<open>a successful response with its body\<close>
  | EvPost string poll_meta payload bool
  | EvWait int
  | EvSlot log_event \<comment> \<open>a request slot of the limiter is taken or given back\<close>

datatype exchange = HttpError string | HttpResponse (hx_status: int) (hx_header: header) (hx_body: string) (hx_broken: bool)

datatype phase =
    Cycle
  | Draining int
  | Collecting int "alert_result list" nat
  | Discarding int
  | Resting int
  | Stopped

text \<open>A goroutine to start: the feeds of one host, or the pending alerts of one host.\<close>

datatype job =
    PollFeeds string "feed_entry list" int
  | FetchAlerts string "pending_entry list" int

text \<open>The contexts: that of the process, that of a feed cycle with its deadline, that of one round of draining.\<close>

datatype ctx = ProcessCtx | FeedCtx | DrainCtx

record poller_env =
  ce_config :: cap_config
  ce_http :: "nat \<Rightarrow> exchange"
  ce_core :: "nat \<Rightarrow> http_exchange"
  ce_decode_ack :: "string \<Rightarrow> ack option"
  ce_decode_feeds :: "string \<Rightarrow> feed_entry list option"
  ce_decode_pending :: "string \<Rightarrow> pending_entry list option"
  ce_bad_url :: "string \<Rightarrow> string option"
  ce_host_from_url :: "string \<Rightarrow> string"
  ce_feed :: feed_env
  ce_raa :: "string \<Rightarrow> raw_raa_item list option"
  ce_cap :: cap_env
  ce_root_end :: "string \<Rightarrow> nat option"
  ce_delta :: "nat \<Rightarrow> nat"
  ce_choice :: "nat \<Rightarrow> bool"

record poller =
  ps_tick :: nat
  ps_clock :: int
  ps_cancelled :: bool
  ps_feed_deadline :: int
  ps_feed_expired :: bool
  ps_drain_cancelled :: bool
  ps_limiter :: host_limiter
  ps_last_raa :: "int option"
  ps_raa_etag :: string
  ps_raa_last_modified :: string
  ps_due :: "string \<rightharpoonup> int"
  ps_etags :: "string \<Rightarrow> string"
  ps_last_modified :: "string \<Rightarrow> string"
  ps_last_format :: "string \<Rightarrow> string"
  ps_spawn :: "job list"
  ps_wg :: nat
  ps_results :: "alert_result list"
  ps_phase :: phase
  ps_events :: "cap_event list"

type_synonym pprog = "poller prog"

definition maxBodyBytes :: nat where "maxBodyBytes = 8 * 2 ^ 20"
definition pendingFetchLimit :: int where "pendingFetchLimit = 50"
definition alertBatchSize :: nat where "alertBatchSize = 10"
definition alertBatchMaxBytes :: nat where "alertBatchMaxBytes = 16 * 2 ^ 20"
definition minCoreBackoff :: int where "minCoreBackoff = 200 * 1000000"
definition maxCoreBackoff :: int where "maxCoreBackoff = 5 * second"
definition maxCoreRetries :: nat where "maxCoreRetries = 3"

definition new_controller :: "poller_env \<Rightarrow> int \<Rightarrow> poller" where
  "new_controller E t =
     \<lparr>ps_tick = 0, ps_clock = t, ps_cancelled = False, ps_feed_deadline = t, ps_feed_expired = False, ps_drain_cancelled = False,
      ps_limiter = new_host_limiter (cc_host_min_interval (ce_config E)) (cc_max_parallel_hosts (ce_config E)),
      ps_last_raa = None, ps_raa_etag = '''', ps_raa_last_modified = '''', ps_due = Map.empty, ps_etags = (\<lambda>_. ''''),
      ps_last_modified = (\<lambda>_. ''''), ps_last_format = (\<lambda>_. ''''), ps_spawn = [], ps_wg = 0, ps_results = [], ps_phase = Cycle,
      ps_events = []\<rparr>"

section \<open>Basic actions\<close>

definition emit_event :: "cap_event \<Rightarrow> poller \<Rightarrow> poller" where
  "emit_event e s = s\<lparr>ps_events := ps_events s @ [e]\<rparr>"

definition tick_on :: "poller \<Rightarrow> poller" where
  "tick_on s = s\<lparr>ps_tick := ps_tick s + 1\<rparr>"

definition pass_time :: "poller_env \<Rightarrow> poller \<Rightarrow> poller" where
  "pass_time E s = tick_on (s\<lparr>ps_clock := ps_clock s + int (ce_delta E (ps_tick s))\<rparr>)"

definition now_c :: "poller_env \<Rightarrow> (int \<Rightarrow> pprog) \<Rightarrow> pprog" where
  "now_c E = act (\<lambda>s. let s = pass_time E s in (ps_clock s, s))"

definition stamp :: "int \<Rightarrow> string" where
  "stamp t = format_rfc3339 (t div 10 ^ 9)"

fun ctx_done :: "ctx \<Rightarrow> poller \<Rightarrow> bool" where
  "ctx_done ProcessCtx s = ps_cancelled s"
| "ctx_done FeedCtx s = (ps_cancelled s \<or> ps_feed_expired s)"
| "ctx_done DrainCtx s = (ps_cancelled s \<or> ps_drain_cancelled s)"

definition check_ctx :: "ctx \<Rightarrow> (bool \<Rightarrow> pprog) \<Rightarrow> pprog" where
  "check_ctx c = act (\<lambda>s. (ctx_done c s, s))"

text \<open>
  A timer against a context.  The clock is moved to the instant of the timer; a goroutine that sleeps longer is one
  that is scheduled later.
\<close>

definition wait_timer :: "poller_env \<Rightarrow> ctx \<Rightarrow> int \<Rightarrow> (bool \<Rightarrow> pprog) \<Rightarrow> pprog" where
  "wait_timer E c d =
     act (\<lambda>s. if ctx_done c s \<and> ce_choice E (ps_tick s) then (False, tick_on s)
       else (True, pass_time E (emit_event (EvWait d) (s\<lparr>ps_clock := ps_clock s + max 0 d\<rparr>))))"

section \<open>The limiter in use\<close>

text \<open>One operation of the limiter by the goroutine at a point of it; the result is the point it gets to.\<close>

definition limiter_op :: "act \<Rightarrow> pc \<Rightarrow> poller \<Rightarrow> (pc \<times> poller) option" where
  "limiter_op a p s =
     map_option (\<lambda>(p', hl, es). (p', s\<lparr>ps_limiter := hl, ps_events := ps_events s @ map EvSlot (rev es)\<rparr>))
       (thread_step a (ps_clock s) p (ps_limiter s))"

text \<open>A wait for a semaphore against a context: when both are ready the choice is free.\<close>

definition acquire_or_cancel :: "poller_env \<Rightarrow> ctx \<Rightarrow> pc \<Rightarrow> poller \<Rightarrow> (pc \<times> poller) option" where
  "acquire_or_cancel E c p s =
     (let s' = tick_on s
      in if ctx_done c s \<and> (ce_choice E (ps_tick s) \<or> limiter_op Proceed p s' = None) then limiter_op Cancel p s'
         else limiter_op Proceed p s')"

definition wake_or_cancel :: "poller_env \<Rightarrow> ctx \<Rightarrow> string \<Rightarrow> int \<Rightarrow> poller \<Rightarrow> (pc \<times> poller) option" where
  "wake_or_cancel E c host wake s =
     (if ctx_done c s \<and> ce_choice E (ps_tick s) then limiter_op Cancel (Sleeping host wake) (tick_on s)
      else limiter_op Proceed (Sleeping host wake) (pass_time E (s\<lparr>ps_clock := max (ps_clock s) wake\<rparr>)))"

definition global_wait :: "poller_env \<Rightarrow> ctx \<Rightarrow> string \<Rightarrow> (bool \<Rightarrow> pprog) \<Rightarrow> pprog" where
  "global_wait E c host k = await (acquire_or_cancel E c (AtGlobal host)) (\<lambda>p. k (p \<noteq> pc.Idle))"

definition host_sleep :: "poller_env \<Rightarrow> ctx \<Rightarrow> string \<Rightarrow> pc \<Rightarrow> (bool \<Rightarrow> pprog) \<Rightarrow> pprog" where
  "host_sleep E c host p k =
     (case p of
        Sleeping _ wake \<Rightarrow>
          await (wake_or_cancel E c host wake) (\<lambda>p. if p = pc.Idle then k False else global_wait E c host k)
      | _ \<Rightarrow> global_wait E c host k)"

definition host_limiter_wait :: "poller_env \<Rightarrow> ctx \<Rightarrow> string \<Rightarrow> (bool \<Rightarrow> pprog) \<Rightarrow> pprog" where
  "host_limiter_wait E c host k =
     await (limiter_op (Call host) pc.Idle) (\<lambda>_.
     await (acquire_or_cancel E c (AtHost host)) (\<lambda>p.
       if p = pc.Idle then k False
       else await (\<lambda>s. limiter_op Proceed (HasHost host) (pass_time E s)) (\<lambda>p. host_sleep E c host p k)))"

definition host_limiter_done :: "poller_env \<Rightarrow> string \<Rightarrow> pprog \<Rightarrow> pprog" where
  "host_limiter_done E host k =
     await (limiter_op Proceed (InFlight host)) (\<lambda>_.
     await (\<lambda>s. limiter_op Proceed (ReleasedGlobal host) (pass_time E s)) (\<lambda>_.
     await (limiter_op Proceed (Recorded host)) (\<lambda>_. k)))"

section \<open>The client of the core\<close>

definition ack_ok :: "poller_env \<Rightarrow> http_exchange \<Rightarrow> nat \<Rightarrow> bool" where
  "ack_ok E x n = (case send (ce_decode_ack E) x of Inl _ \<Rightarrow> False | Inr ack \<Rightarrow> validate_ack ack (int n) = None)"

definition core_post :: "poller_env \<Rightarrow> string \<Rightarrow> poll_meta \<Rightarrow> payload \<Rightarrow> (bool \<Rightarrow> pprog) \<Rightarrow> pprog" where
  "core_post E path meta fs =
     act (\<lambda>s. let ok = ack_ok E (ce_core E (ps_tick s)) (payload_size fs) in (ok, tick_on (emit_event (EvPost path meta fs ok) s)))"

text \<open>\<open>sendWithRetry\<close>, for the attempts left; the result says whether the core has accepted.\<close>

primrec send_attempts :: "poller_env \<Rightarrow> ctx \<Rightarrow> string \<Rightarrow> poll_meta \<Rightarrow> payload \<Rightarrow> nat \<Rightarrow> int \<Rightarrow> (bool \<Rightarrow> pprog) \<Rightarrow> pprog" where
  "send_attempts E c path meta fs 0 backoff k = k False"
| "send_attempts E c path meta fs (Suc n) backoff k =
     check_ctx c (\<lambda>cancelled.
       if cancelled then k False
       else core_post E path meta fs (\<lambda>ok.
         if ok then k True
         else if n = 0 then k False
         else
           (let backoff = compute_backoff \<lparr>now = 0, parse_time = (\<lambda>_. None)\<rparr> (\<lambda>_. None) backoff minCoreBackoff maxCoreBackoff
            in wait_timer E c backoff (\<lambda>fired. if fired then send_attempts E c path meta fs n backoff k else k False))))"

definition send_with_retry :: "poller_env \<Rightarrow> ctx \<Rightarrow> string \<Rightarrow> poll_meta \<Rightarrow> payload \<Rightarrow> (bool \<Rightarrow> pprog) \<Rightarrow> pprog" where
  "send_with_retry E c path meta fs = send_attempts E c path meta fs maxCoreRetries 0"

definition send_registry :: "poller_env \<Rightarrow> ctx \<Rightarrow> poll_meta \<Rightarrow> raa_feature list \<Rightarrow> (bool \<Rightarrow> pprog) \<Rightarrow> pprog" where
  "send_registry E c meta fs = send_with_retry E c ''cap_data/registry'' meta (Registry fs)"

definition send_feed_index :: "poller_env \<Rightarrow> ctx \<Rightarrow> poll_meta \<Rightarrow> index_feature list \<Rightarrow> (bool \<Rightarrow> pprog) \<Rightarrow> pprog" where
  "send_feed_index E c meta fs = send_with_retry E c ''cap_data/index'' meta (Index fs)"

definition send_alerts :: "poller_env \<Rightarrow> ctx \<Rightarrow> poll_meta \<Rightarrow> alert_result list \<Rightarrow> (bool \<Rightarrow> pprog) \<Rightarrow> pprog" where
  "send_alerts E c meta rs = send_with_retry E c ''cap_data/alerts'' meta (Alerts rs)"

text \<open>A list the core answers with: \<open>None\<close> is an error.\<close>

definition decode_list :: "(string \<Rightarrow> 'a list option) \<Rightarrow> http_exchange \<Rightarrow> 'a list option" where
  "decode_list decode x =
     (case x of
        DoError _ \<Rightarrow> None
      | Response status content broken \<Rightarrow> if status < 200 \<or> 300 \<le> status then None else decode content)"

definition fetch_feeds :: "poller_env \<Rightarrow> (feed_entry list option \<Rightarrow> pprog) \<Rightarrow> pprog" where
  "fetch_feeds E = act (\<lambda>s. (decode_list (ce_decode_feeds E) (ce_core E (ps_tick s)), tick_on s))"

definition fetch_pending :: "poller_env \<Rightarrow> (pending_entry list option \<Rightarrow> pprog) \<Rightarrow> pprog" where
  "fetch_pending E = act (\<lambda>s. (decode_list (ce_decode_pending E) (ce_core E (ps_tick s)), tick_on s))"

section \<open>The registry\<close>

definition http_get :: "poller_env \<Rightarrow> (poller \<Rightarrow> cap_event) \<Rightarrow> (exchange \<Rightarrow> pprog) \<Rightarrow> pprog" where
  "http_get E ev = act (\<lambda>s. (ce_http E (ps_tick s), tick_on (emit_event (ev s) s)))"

definition blank_meta :: poll_meta where
  "blank_meta = \<lparr>pm_fetched_at = '''', pm_http_status = 0, pm_feature_count = 0, pm_bytes = 0, pm_feed_url = '''', pm_backfill = False,
     pm_error = '''', pm_format = ''''\<rparr>"

definition note_raa_fetch :: "poller_env \<Rightarrow> pprog \<Rightarrow> pprog" where
  "note_raa_fetch E k = now_c E (\<lambda>t. upd (\<lambda>s. s\<lparr>ps_last_raa := Some t\<rparr>) k)"

definition store_raa :: "header \<Rightarrow> poller \<Rightarrow> poller" where
  "store_raa h s =
     s\<lparr>ps_raa_etag := (if hget h ''ETag'' \<noteq> '''' then hget h ''ETag'' else ps_raa_etag s),
       ps_raa_last_modified := (if hget h ''Last-Modified'' \<noteq> '''' then hget h ''Last-Modified'' else ps_raa_last_modified s)\<rparr>"

definition ingest_registry :: "poller_env \<Rightarrow> string \<Rightarrow> int \<Rightarrow> header \<Rightarrow> string \<Rightarrow> pprog \<Rightarrow> pprog" where
  "ingest_registry E fetchedAt status h body k =
     (if status = 304 then note_raa_fetch E k
      else if status < 200 \<or> 300 \<le> status then k
      else case parse_raa (ce_raa E) body of
             None \<Rightarrow> k
           | Some features \<Rightarrow>
               send_registry E ProcessCtx
                 (blank_meta\<lparr>pm_fetched_at := fetchedAt, pm_http_status := status, pm_feature_count := length features,
                             pm_bytes := length body, pm_feed_url := cc_raa_url (ce_config E)\<rparr>) features
                 (\<lambda>ok. if ok then upd (store_raa h) (note_raa_fetch E k) else k))"

definition poll_raa :: "poller_env \<Rightarrow> pprog \<Rightarrow> pprog" where
  "poll_raa E k =
     (let url = cc_raa_url (ce_config E); host = ce_host_from_url E url
      in host_limiter_wait E ProcessCtx host (\<lambda>ok.
           if \<not> ok then k
           else now_c E (\<lambda>t.
             if ce_bad_url E url \<noteq> None then host_limiter_done E host k
             else http_get E (\<lambda>s. EvRegistryRequest (ps_raa_etag s) (ps_raa_last_modified s)) (\<lambda>x.
               case x of
                 HttpError _ \<Rightarrow> host_limiter_done E host k
               | HttpResponse status h content broken \<Rightarrow>
                   host_limiter_done E host
                     (case read_limited content broken maxBodyBytes of
                        Inl _ \<Rightarrow> k
                      | Inr body \<Rightarrow> ingest_registry E (stamp t) status h body k)))))"

section \<open>The feed cycle\<close>

text \<open>The entries by host, hosts in the order they first occur; Go's range over the map has no fixed order.\<close>

fun group_by :: "('a \<Rightarrow> string) \<Rightarrow> 'a list \<Rightarrow> (string \<times> 'a list) list \<Rightarrow> (string \<times> 'a list) list" where
  "group_by f [] acc = acc"
| "group_by f (x # xs) acc =
     group_by f xs
       (if \<exists>(h, _) \<in> set acc. h = f x then map (\<lambda>(h, ys). if h = f x then (h, ys @ [x]) else (h, ys)) acc
        else acc @ [(f x, [x])])"

definition feed_interval :: "feed_entry \<Rightarrow> int \<Rightarrow> int" where
  "feed_interval feed fallback =
     (if 0 < fd_poll_interval_seconds feed then s64 (fd_poll_interval_seconds feed * second) else fallback)"

definition set_due :: "poller_env \<Rightarrow> feed_entry \<Rightarrow> int \<Rightarrow> poller \<Rightarrow> poller" where
  "set_due E feed cycleStart s =
     s\<lparr>ps_due := (ps_due s)(fd_url feed \<mapsto> cycleStart + feed_interval feed (cc_poll_interval (ce_config E)))\<rparr>"

definition post_feed_failure :: "poller_env \<Rightarrow> ctx \<Rightarrow> string \<Rightarrow> int \<Rightarrow> string \<Rightarrow> string \<Rightarrow> pprog \<Rightarrow> pprog" where
  "post_feed_failure E c feedURL status errMsg fetchedAt k =
     send_feed_index E c
       (blank_meta\<lparr>pm_fetched_at := fetchedAt, pm_http_status := status, pm_feed_url := feedURL, pm_format := ''other'',
                   pm_error := errMsg\<rparr>) [] (\<lambda>_. k)"

text \<open>After the core has accepted the index: the format, and the validators of a feed that could be parsed.\<close>

definition store_feed :: "string \<Rightarrow> feed_parse_result \<Rightarrow> header \<Rightarrow> poller \<Rightarrow> poller" where
  "store_feed url r h s =
     (let s = (if fe_format r \<noteq> '''' then s\<lparr>ps_last_format := (ps_last_format s)(url := fe_format r)\<rparr> else s)
      in if fe_error r = '''' then
           (let s = (if hget h ''ETag'' \<noteq> '''' then s\<lparr>ps_etags := (ps_etags s)(url := hget h ''ETag'')\<rparr> else s)
            in if hget h ''Last-Modified'' \<noteq> '''' then
                 s\<lparr>ps_last_modified := (ps_last_modified s)(url := hget h ''Last-Modified'')\<rparr> else s)
         else s)"

definition ingest_feed :: "poller_env \<Rightarrow> string \<Rightarrow> string \<Rightarrow> int \<Rightarrow> header \<Rightarrow> string \<Rightarrow> pprog \<Rightarrow> pprog" where
  "ingest_feed E url fetchedAt status h body k =
     (let r = parse_feed (ce_feed E) url body
      in upd (emit_event (EvFetched url h body))
         (send_feed_index E FeedCtx
           (blank_meta\<lparr>pm_fetched_at := fetchedAt, pm_http_status := (if fe_error r \<noteq> '''' then 0 else status),
                       pm_feature_count := length (fe_features r), pm_bytes := length body, pm_feed_url := url,
                       pm_format := fe_format r, pm_error := fe_error r\<rparr>) (fe_features r)
           (\<lambda>ok. if ok then upd (store_feed url r h) k else k)))"

text \<open>A poll that got no response.\<close>

definition feed_unreachable :: "poller_env \<Rightarrow> string \<Rightarrow> feed_entry \<Rightarrow> int \<Rightarrow> string \<Rightarrow> string \<Rightarrow> pprog \<Rightarrow> pprog" where
  "feed_unreachable E host feed cycleStart err fetchedAt k =
     host_limiter_done E host (check_ctx FeedCtx (\<lambda>cancelled.
       if cancelled then k
       else upd (set_due E feed cycleStart) (post_feed_failure E FeedCtx (fd_url feed) 0 err fetchedAt k)))"

definition feed_not_modified :: "poller_env \<Rightarrow> string \<Rightarrow> feed_entry \<Rightarrow> int \<Rightarrow> string \<Rightarrow> string \<Rightarrow> pprog \<Rightarrow> pprog" where
  "feed_not_modified E host feed cycleStart lastFmt fetchedAt k =
     host_limiter_done E host (upd (set_due E feed cycleStart)
       (send_feed_index E FeedCtx
         (blank_meta\<lparr>pm_fetched_at := fetchedAt, pm_http_status := 304, pm_feed_url := fd_url feed, pm_format := lastFmt\<rparr>) []
         (\<lambda>_. k)))"

definition poll_single_feed :: "poller_env \<Rightarrow> string \<Rightarrow> feed_entry \<Rightarrow> int \<Rightarrow> pprog \<Rightarrow> pprog" where
  "poll_single_feed E host feed cycleStart k =
     (let url = fd_url feed
      in host_limiter_wait E FeedCtx host (\<lambda>ok.
           if \<not> ok then k
           else now_c E (\<lambda>t.
             case ce_bad_url E url of
               Some err \<Rightarrow> feed_unreachable E host feed cycleStart err (stamp t) k
             | None \<Rightarrow>
                 act (\<lambda>s. ((ps_etags s url, ps_last_modified s url, ps_last_format s url), s)) (\<lambda>(etag, lm, lastFmt).
                 http_get E (\<lambda>_. EvFeedRequest url etag lm) (\<lambda>x.
                   case x of
                     HttpError err \<Rightarrow> feed_unreachable E host feed cycleStart err (stamp t) k
                   | HttpResponse status h content broken \<Rightarrow>
                       if status = 304 then feed_not_modified E host feed cycleStart lastFmt (stamp t) k
                       else
                         host_limiter_done E host (check_ctx FeedCtx (\<lambda>cancelled.
                           if cancelled then k
                           else upd (set_due E feed cycleStart)
                             (case read_limited content broken maxBodyBytes of
                                Inl err \<Rightarrow> post_feed_failure E FeedCtx url 0 err (stamp t) k
                              | Inr body \<Rightarrow>
                                  if status < 200 \<or> 300 \<le> status then
                                    post_feed_failure E FeedCtx url status (''HTTP '' @ show_int status) (stamp t) k
                                  else ingest_feed E url (stamp t) status h body k))))))))"

definition wg_done :: "pprog \<Rightarrow> pprog" where
  "wg_done = upd (\<lambda>s. s\<lparr>ps_wg := ps_wg s - 1\<rparr>)"

primrec poll_host_feeds :: "poller_env \<Rightarrow> string \<Rightarrow> feed_entry list \<Rightarrow> int \<Rightarrow> pprog" where
  "poll_host_feeds E host [] cycleStart = wg_done Done"
| "poll_host_feeds E host (feed # fl) cycleStart =
     check_ctx FeedCtx (\<lambda>cancelled.
       if cancelled then wg_done Done else poll_single_feed E host feed cycleStart (poll_host_feeds E host fl cycleStart))"

definition next_phase :: "phase \<Rightarrow> pprog" where
  "next_phase p = upd (\<lambda>s. s\<lparr>ps_phase := p\<rparr>) Done"

text \<open>Starting goroutines, and waiting for them.\<close>

definition go_jobs :: "job list \<Rightarrow> poller \<Rightarrow> poller" where
  "go_jobs js s = s\<lparr>ps_spawn := ps_spawn s @ js, ps_wg := ps_wg s + length js\<rparr>"

definition wg_wait :: "pprog \<Rightarrow> pprog" where
  "wg_wait k = await (\<lambda>s. if ps_wg s = 0 then Some ((), s) else None) (\<lambda>_. k)"

definition feed_deadline :: "poller_env \<Rightarrow> int \<Rightarrow> int" where
  "feed_deadline E cycleStart = cycleStart + s64 (cc_poll_interval (ce_config E) * 60) sdiv 100"

definition due_feeds :: "int \<Rightarrow> feed_entry list \<Rightarrow> poller \<Rightarrow> feed_entry list" where
  "due_feeds cycleStart feeds s =
     filter (\<lambda>f. case ps_due s (fd_url f) of None \<Rightarrow> True | Some due \<Rightarrow> \<not> cycleStart < due) feeds"

definition poll_feeds_cycle :: "poller_env \<Rightarrow> int \<Rightarrow> pprog \<Rightarrow> pprog" where
  "poll_feeds_cycle E cycleStart k =
     fetch_feeds E (\<lambda>feeds. case feeds of
       None \<Rightarrow> k
     | Some feeds \<Rightarrow>
         act (\<lambda>s. (due_feeds cycleStart feeds s, s)) (\<lambda>due.
           if due = [] then k
           else
             upd (\<lambda>s. go_jobs (map (\<lambda>(h, fl). PollFeeds h fl cycleStart) (group_by (\<lambda>f. ce_host_from_url E (fd_url f)) due []))
                   (s\<lparr>ps_feed_deadline := feed_deadline E cycleStart, ps_feed_expired := False\<rparr>))
               (wg_wait k)))"

section \<open>Alerts\<close>

definition sanitize_raw_xml :: "poller_env \<Rightarrow> string option \<Rightarrow> string option" where
  "sanitize_raw_xml E s =
     map_option (\<lambda>v. let v = filter (\<lambda>c. c \<noteq> CHR 0x00) v
       in case ce_root_end E v of
            Some offset \<Rightarrow> if 0 < offset \<and> offset \<le> length v then take offset v else v
          | None \<Rightarrow> v) s"

definition failed_result :: "pending_entry \<Rightarrow> string \<Rightarrow> int \<Rightarrow> string \<Rightarrow> alert_result" where
  "failed_result item fetchedAt status err =
     \<lparr>ar_cap_url = pe_cap_url item, ar_feed_url = pe_feed_url item, ar_fetched_at = fetchedAt, ar_http_status = status,
      ar_error = Some err, ar_cap = None, ar_raw_xml = None\<rparr>"

definition alert_of_response :: "poller_env \<Rightarrow> pending_entry \<Rightarrow> string \<Rightarrow> int \<Rightarrow> string \<Rightarrow> bool \<Rightarrow> alert_result" where
  "alert_of_response E item fetchedAt status content broken =
     (case read_limited content broken maxBodyBytes of
        Inl err \<Rightarrow> failed_result item fetchedAt 0 err
      | Inr body \<Rightarrow>
          if status < 200 \<or> 300 \<le> status then failed_result item fetchedAt status (''HTTP '' @ show_int status)
          else
            (let r = parse_cap (ce_cap E) body
             in \<lparr>ar_cap_url = pe_cap_url item, ar_feed_url = pe_feed_url item, ar_fetched_at = fetchedAt, ar_http_status = status,
                 ar_error = res_error r, ar_cap = res_cap r, ar_raw_xml = sanitize_raw_xml E (res_raw_xml r)\<rparr>))"

definition fetch_single_cap :: "poller_env \<Rightarrow> string \<Rightarrow> pending_entry \<Rightarrow> (alert_result \<Rightarrow> pprog) \<Rightarrow> pprog" where
  "fetch_single_cap E host item k =
     host_limiter_wait E DrainCtx host (\<lambda>ok.
       now_c E (\<lambda>t.
         if \<not> ok then k (failed_result item (stamp t) 0 ''context canceled'')
         else case ce_bad_url E (pe_cap_url item) of
                Some err \<Rightarrow> host_limiter_done E host (k (failed_result item (stamp t) 0 err))
              | None \<Rightarrow>
                  http_get E (\<lambda>_. EvAlertRequest (pe_cap_url item)) (\<lambda>x.
                    host_limiter_done E host (k (case x of
                      HttpError err \<Rightarrow> failed_result item (stamp t) 0 err
                    | HttpResponse status h content broken \<Rightarrow> alert_of_response E item (stamp t) status content broken)))))"

text \<open>The channel holds all results of a round, so a send never blocks; a cancelled round may drop the result.\<close>

definition push_result :: "poller_env \<Rightarrow> alert_result \<Rightarrow> (bool \<Rightarrow> pprog) \<Rightarrow> pprog" where
  "push_result E r =
     act (\<lambda>s. if ctx_done DrainCtx s \<and> ce_choice E (ps_tick s) then (False, tick_on s)
       else (True, tick_on (s\<lparr>ps_results := ps_results s @ [r]\<rparr>)))"

primrec fetch_host_alerts :: "poller_env \<Rightarrow> string \<Rightarrow> pending_entry list \<Rightarrow> int \<Rightarrow> pprog" where
  "fetch_host_alerts E host [] deadline = wg_done Done"
| "fetch_host_alerts E host (p # ps) deadline =
     check_ctx DrainCtx (\<lambda>cancelled.
     now_c E (\<lambda>t.
       if cancelled \<or> \<not> t < deadline then wg_done Done
       else fetch_single_cap E host p (\<lambda>res.
         push_result E res (\<lambda>pushed. if pushed then fetch_host_alerts E host ps deadline else wg_done Done))))"

definition send_alerts_batch :: "poller_env \<Rightarrow> alert_result list \<Rightarrow> (bool \<Rightarrow> pprog) \<Rightarrow> pprog" where
  "send_alerts_batch E batch k =
     (if batch = [] then k True
      else now_c E (\<lambda>t.
        send_alerts E ProcessCtx
          (blank_meta\<lparr>pm_fetched_at := stamp t, pm_http_status := 200, pm_feature_count := length batch\<rparr>) batch k))"

definition drain_alerts :: "poller_env \<Rightarrow> int \<Rightarrow> pprog" where
  "drain_alerts E deadline =
     now_c E (\<lambda>t.
       if \<not> t < deadline then next_phase (Resting deadline)
       else check_ctx ProcessCtx (\<lambda>cancelled.
         if cancelled then next_phase (Resting deadline)
         else fetch_pending E (\<lambda>items. case items of
           None \<Rightarrow> next_phase (Resting deadline)
         | Some items \<Rightarrow>
             if items = [] then next_phase (Resting deadline)
             else
               upd (\<lambda>s. go_jobs (map (\<lambda>(h, ps). FetchAlerts h ps deadline)
                                     (group_by (\<lambda>p. ce_host_from_url E (pe_cap_url p)) items []))
                     (s\<lparr>ps_drain_cancelled := False, ps_results := []\<rparr>))
                 (next_phase (Collecting deadline [] 0)))))"

text \<open>A receive from the channel: \<open>None\<close> when it is empty and all workers are done.\<close>

definition receive :: "(alert_result option \<Rightarrow> pprog) \<Rightarrow> pprog" where
  "receive =
     await (\<lambda>s. case ps_results s of
       r # rs \<Rightarrow> Some (Some r, s\<lparr>ps_results := rs\<rparr>)
     | [] \<Rightarrow> if ps_wg s = 0 then Some (None, s) else None)"

definition cancel_drain :: "pprog \<Rightarrow> pprog" where
  "cancel_drain = upd (\<lambda>s. s\<lparr>ps_drain_cancelled := True\<rparr>)"

definition result_bytes :: "alert_result \<Rightarrow> nat" where
  "result_bytes r = (case ar_raw_xml r of None \<Rightarrow> 0 | Some x \<Rightarrow> length x)"

definition add_result :: "poller_env \<Rightarrow> int \<Rightarrow> alert_result list \<Rightarrow> nat \<Rightarrow> alert_result \<Rightarrow> pprog" where
  "add_result E deadline batch batchBytes r =
     (let batch = batch @ [r]; batchBytes = batchBytes + result_bytes r
      in if alertBatchSize \<le> length batch \<or> alertBatchMaxBytes \<le> batchBytes then
           send_alerts_batch E batch (\<lambda>ok.
             if ok then next_phase (Collecting deadline [] 0) else cancel_drain (next_phase (Discarding deadline)))
         else next_phase (Collecting deadline batch batchBytes))"

definition collect :: "poller_env \<Rightarrow> int \<Rightarrow> alert_result list \<Rightarrow> nat \<Rightarrow> pprog" where
  "collect E deadline batch batchBytes =
     receive (\<lambda>x. case x of
       None \<Rightarrow>
         cancel_drain (send_alerts_batch E batch (\<lambda>ok.
           next_phase (if batch = [] \<or> ok then Draining deadline else Resting deadline)))
     | Some r \<Rightarrow>
         if batch \<noteq> [] \<and> alertBatchMaxBytes < batchBytes + result_bytes r then
           send_alerts_batch E batch (\<lambda>ok.
             if ok then add_result E deadline [] 0 r else cancel_drain (next_phase (Discarding deadline)))
         else add_result E deadline batch batchBytes r)"

definition discard :: "int \<Rightarrow> pprog" where
  "discard deadline = receive (\<lambda>x. next_phase (case x of None \<Rightarrow> Resting deadline | Some _ \<Rightarrow> Discarding deadline))"

section \<open>The main loop\<close>

definition execute_cycle :: "poller_env \<Rightarrow> pprog" where
  "execute_cycle E =
     (let feeds =
        check_ctx ProcessCtx (\<lambda>cancelled.
          if cancelled then next_phase Stopped
          else now_c E (\<lambda>cycleStart.
            poll_feeds_cycle E cycleStart (check_ctx ProcessCtx (\<lambda>cancelled.
              next_phase (if cancelled then Stopped else Draining (cycleStart + cc_poll_interval (ce_config E)))))))
      in check_ctx ProcessCtx (\<lambda>cancelled.
           if cancelled then next_phase Stopped
           else now_c E (\<lambda>t.
             act (\<lambda>s. (case ps_last_raa s of None \<Rightarrow> True | Some l \<Rightarrow> cc_registry_interval (ce_config E) \<le> time_sub t l, s)) (\<lambda>due.
               if due then poll_raa E feeds else feeds))))"

definition rest :: "poller_env \<Rightarrow> int \<Rightarrow> pprog" where
  "rest E deadline =
     check_ctx ProcessCtx (\<lambda>cancelled.
       if cancelled then next_phase Stopped
       else now_c E (\<lambda>t.
         if 0 < time_sub deadline t then
           wait_timer E ProcessCtx (time_sub deadline t) (\<lambda>fired. next_phase (if fired then Cycle else Stopped))
         else next_phase Cycle))"

definition main_turn :: "poller_env \<Rightarrow> phase \<Rightarrow> pprog" where
  "main_turn E p =
     (case p of
        Cycle \<Rightarrow> execute_cycle E
      | Draining deadline \<Rightarrow> drain_alerts E deadline
      | Collecting deadline batch batchBytes \<Rightarrow> collect E deadline batch batchBytes
      | Discarding deadline \<Rightarrow> discard deadline
      | Resting deadline \<Rightarrow> rest E deadline
      | Stopped \<Rightarrow> Done)"

definition job_prog :: "poller_env \<Rightarrow> job \<Rightarrow> pprog" where
  "job_prog E j =
     (case j of
        PollFeeds host fl cycleStart \<Rightarrow> poll_host_feeds E host fl cycleStart
      | FetchAlerts host ps deadline \<Rightarrow> fetch_host_alerts E host ps deadline)"

record cap_sys =
  cy_shared :: poller
  cy_threads :: "poller thread list" \<comment> \<open>the main goroutine first\<close>

definition start_cap :: "poller_env \<Rightarrow> int \<Rightarrow> cap_sys" where
  "start_cap E t = \<lparr>cy_shared = new_controller E t, cy_threads = [thread.Idle]\<rparr>"

datatype cap_op =
    Turn \<comment> \<open>the main goroutine begins the next turn of its loops\<close>
  | Spawn \<comment> \<open>a goroutine that was started begins to run\<close>
  | Step nat
  | CancelProcess
  | ExpireFeeds

definition cap_step :: "poller_env \<Rightarrow> cap_op \<Rightarrow> cap_sys \<Rightarrow> cap_sys option" where
  "cap_step E op S =
     (let s = cy_shared S; ts = cy_threads S
      in case op of
           Turn \<Rightarrow>
             if (case ts ! 0 of thread.Idle \<Rightarrow> ps_phase s \<noteq> Stopped | _ \<Rightarrow> False) then
               Some (S\<lparr>cy_threads := ts[0 := Running (main_turn E (ps_phase s))]\<rparr>)
             else None
         | Spawn \<Rightarrow>
             (case ps_spawn s of
                [] \<Rightarrow> None
              | j # js \<Rightarrow> Some \<lparr>cy_shared = s\<lparr>ps_spawn := js\<rparr>, cy_threads = ts @ [Finishing (job_prog E j)]\<rparr>)
         | Step i \<Rightarrow>
             if i < length ts then
               map_option (\<lambda>(th, s). \<lparr>cy_shared = s, cy_threads = ts[i := th]\<rparr>) (step_thread (ts ! i) s)
             else None
         | CancelProcess \<Rightarrow> Some (S\<lparr>cy_shared := s\<lparr>ps_cancelled := True\<rparr>\<rparr>)
         | ExpireFeeds \<Rightarrow>
             if ps_feed_deadline s \<le> ps_clock s then Some (S\<lparr>cy_shared := s\<lparr>ps_feed_expired := True\<rparr>\<rparr>) else None)"

fun cap_run :: "poller_env \<Rightarrow> cap_op list \<Rightarrow> cap_sys \<Rightarrow> cap_sys option" where
  "cap_run E [] S = Some S"
| "cap_run E (op # ops) S = Option.bind (cap_step E op S) (cap_run E ops)"

end
