(* ===== verification/CapSafety.thy ===== *)
theory CapSafety
  imports CapController
begin

text \<open>
  The CAP adapter under every interleaving of its goroutines: conditional requests only with the validators of
  feeds the core has accepted, every upstream request inside its slot of the limiter, the bounds of the alert posts,
  and that the goroutines do not block each other for good.
\<close>

section \<open>The trace\<close>

fun slot_log :: "cap_event list \<Rightarrow> log_event list" where
  "slot_log [] = []"
| "slot_log (EvSlot e # es) = e # slot_log es"
| "slot_log (_ # es) = slot_log es"

lemma slot_log_append [simp]: "slot_log (xs @ ys) = slot_log xs @ slot_log ys"
  by (induction xs rule: slot_log.induct) simp_all

lemma slot_log_map [simp]: "slot_log (map EvSlot es) = es"
  by (induction es) simp_all

definition starts :: "string \<Rightarrow> log_event list \<Rightarrow> nat" where
  "starts h es = length (filter (\<lambda>e. case e of Started k _ \<Rightarrow> k = h | _ \<Rightarrow> False) es)"

definition ends :: "string \<Rightarrow> log_event list \<Rightarrow> nat" where
  "ends h es = length (filter (\<lambda>e. case e of Ended k _ \<Rightarrow> k = h | _ \<Rightarrow> False) es)"

lemma starts_simps [simp]:
  "starts h [] = 0" "starts h (xs @ ys) = starts h xs + starts h ys"
  "starts h (Started k t # es) = of_bool (k = h) + starts h es" "starts h (Ended k t # es) = starts h es"
  by (simp_all add: starts_def)

lemma ends_simps [simp]:
  "ends h [] = 0" "ends h (xs @ ys) = ends h xs + ends h ys"
  "ends h (Ended k t # es) = of_bool (k = h) + ends h es" "ends h (Started k t # es) = ends h es"
  by (simp_all add: ends_def)

text \<open>A slot for the host is open: taken once more than given back.\<close>

definition slot_open :: "string \<Rightarrow> cap_event list \<Rightarrow> bool" where
  "slot_open h evs \<longleftrightarrow> starts h (slot_log evs) = ends h (slot_log evs) + 1"

text \<open>The body of a response was parsed as a feed without error, and the core has then accepted what was found in it.\<close>

definition delivered :: "poller_env \<Rightarrow> cap_event list \<Rightarrow> string \<Rightarrow> header \<Rightarrow> bool" where
  "delivered E evs url h \<longleftrightarrow>
     (\<exists>a b c body meta. evs = a @ EvFetched url h body # b
          @ EvPost ''cap_data/index'' meta (Index (fe_features (parse_feed (ce_feed E) url body))) True # c
        \<and> fe_error (parse_feed (ce_feed E) url body) = '''' \<and> pm_feed_url meta = url)"

lemma delivered_append: "delivered E evs url h \<Longrightarrow> delivered E (evs @ es) url h"
  unfolding delivered_def by (metis append_Cons append_assoc)

lemma delivered_prefix: "delivered E evs url h \<Longrightarrow> prefix evs evs' \<Longrightarrow> delivered E evs' url h"
  by (auto elim!: prefixE intro: delivered_append)

definition validator_ok :: "poller_env \<Rightarrow> string \<Rightarrow> cap_event list \<Rightarrow> string \<Rightarrow> string \<Rightarrow> bool" where
  "validator_ok E field evs url v \<longleftrightarrow> v = '''' \<or> (\<exists>h. hget h field = v \<and> delivered E evs url h)"

lemma validator_ok_empty [simp]: "validator_ok E field evs url ''''"
  by (simp add: validator_ok_def)

lemma validator_ok_prefix: "validator_ok E field evs url v \<Longrightarrow> prefix evs evs' \<Longrightarrow> validator_ok E field evs' url v"
  using delivered_prefix by (fastforce simp: validator_ok_def)

lemma validator_ok_append: "validator_ok E field evs url v \<Longrightarrow> validator_ok E field (evs @ es) url v"
  using validator_ok_prefix by (metis prefixI)

text \<open>A result holds an alert only if it was parsed from a successful response that was read within the limit.\<close>

definition good_result :: "poller_env \<Rightarrow> alert_result \<Rightarrow> bool" where
  "good_result E r \<longleftrightarrow> ar_cap r = None \<or>
     (200 \<le> ar_http_status r \<and> ar_http_status r < 300
       \<and> (\<exists>body. length body \<le> maxBodyBytes \<and> ar_cap r = res_cap (parse_cap (ce_cap E) body)
             \<and> ar_raw_xml r = sanitize_raw_xml E (res_raw_xml (parse_cap (ce_cap E) body))))"

definition total_bytes :: "alert_result list \<Rightarrow> nat" where
  "total_bytes rs = sum_list (map result_bytes rs)"

lemma total_bytes_simps [simp]:
  "total_bytes [] = 0" "total_bytes [r] = result_bytes r" "total_bytes (rs @ [r]) = total_bytes rs + result_bytes r"
  by (simp_all add: total_bytes_def)

definition good_batch :: "poller_env \<Rightarrow> alert_result list \<Rightarrow> bool" where
  "good_batch E rs \<longleftrightarrow> 1 \<le> length rs \<and> length rs \<le> alertBatchSize
     \<and> (total_bytes rs \<le> alertBatchMaxBytes \<or> length rs = 1) \<and> list_all (good_result E) rs"

fun good_event :: "poller_env \<Rightarrow> cap_event list \<Rightarrow> cap_event \<Rightarrow> bool" where
  "good_event E evs (EvRegistryRequest etag lm) = slot_open (ce_host_from_url E (cc_raa_url (ce_config E))) evs"
| "good_event E evs (EvFeedRequest url etag lm) =
     (slot_open (ce_host_from_url E url) evs \<and> validator_ok E ''ETag'' evs url etag
      \<and> validator_ok E ''Last-Modified'' evs url lm)"
| "good_event E evs (EvAlertRequest url) = slot_open (ce_host_from_url E url) evs"
| "good_event E evs (EvPost path meta (Alerts rs) ok) = (good_batch E rs \<and> pm_feature_count meta = length rs)"
| "good_event E evs _ = True"

definition trace_ok :: "poller_env \<Rightarrow> cap_event list \<Rightarrow> bool" where
  "trace_ok E evs \<longleftrightarrow> (\<forall>a e b. evs = a @ e # b \<longrightarrow> good_event E a e)"

lemma trace_ok_Nil [simp]: "trace_ok E []"
  by (simp add: trace_ok_def)

lemma trace_ok_snoc: "trace_ok E evs \<Longrightarrow> good_event E evs e \<Longrightarrow> trace_ok E (evs @ [e])"
  unfolding trace_ok_def
proof (intro allI impI)
  fix a x b
  assume ok: "\<forall>a e b. evs = a @ e # b \<longrightarrow> good_event E a e" and e: "good_event E evs e" and split: "evs @ [e] = a @ x # b"
  show "good_event E a x"
  proof (cases b rule: rev_cases)
    case Nil
    then show ?thesis using split e by simp
  next
    case (snoc c z)
    then have "evs = a @ x # c" using split by simp
    then show ?thesis using ok by blast
  qed
qed

section \<open>The contract\<close>

text \<open>The ghost of a goroutine: where it stands in the limiter, whether others wait for its end, and what it has seen happen.\<close>

record cap_ghost =
  cg_pc :: pc
  cg_job :: bool
  cg_seen :: "cap_event list"

fun open_at :: "string \<Rightarrow> pc \<Rightarrow> bool" where
  "open_at h (InFlight k) = (k = h)"
| "open_at h (ReleasedGlobal k) = (k = h)"
| "open_at h _ = False"

fun phase_ok :: "poller_env \<Rightarrow> phase \<Rightarrow> bool" where
  "phase_ok E (Collecting deadline batch n) =
     (length batch < alertBatchSize \<and> n = total_bytes batch \<and> n < alertBatchMaxBytes \<and> list_all (good_result E) batch)"
| "phase_ok E _ = True"

fun job_ok :: "poller_env \<Rightarrow> job \<Rightarrow> bool" where
  "job_ok E (PollFeeds host fl _) = (\<forall>f \<in> set fl. ce_host_from_url E (fd_url f) = host)"
| "job_ok E (FetchAlerts host ps _) = (\<forall>p \<in> set ps. ce_host_from_url E (pe_cap_url p) = host)"

definition state_ok :: "poller_env \<Rightarrow> poller \<Rightarrow> bool" where
  "state_ok E s \<longleftrightarrow> phase_ok E (ps_phase s) \<and> list_all (good_result E) (ps_results s) \<and> list_all (job_ok E) (ps_spawn s)
     \<and> (\<forall>url. validator_ok E ''ETag'' (ps_events s) url (ps_etags s url))
     \<and> (\<forall>url. validator_ok E ''Last-Modified'' (ps_events s) url (ps_last_modified s url))"

text \<open>What the invariant says of one goroutine.\<close>

definition own :: "cap_ghost \<Rightarrow> poller \<Rightarrow> bool" where
  "own l s \<longleftrightarrow> prefix (cg_seen l) (ps_events s) \<and> (cg_job l \<longrightarrow> 1 \<le> ps_wg s)
     \<and> (\<forall>h. open_at h (cg_pc l) \<longrightarrow> slot_open h (ps_events s))"

text \<open>An action moves in the limiter, at the instant it ends, or does at most one thing that is seen.\<close>

definition moves :: "cap_ghost \<Rightarrow> poller \<Rightarrow> poller \<Rightarrow> cap_ghost \<Rightarrow> bool" where
  "moves l s s' l' \<longleftrightarrow>
     (\<exists>a es. thread_step a (ps_clock s') (cg_pc l) (ps_limiter s) = Some (cg_pc l', ps_limiter s', es)
        \<and> ps_events s' = ps_events s @ map EvSlot (rev es))"

definition acts :: "poller_env \<Rightarrow> cap_ghost \<Rightarrow> poller \<Rightarrow> poller \<Rightarrow> cap_ghost \<Rightarrow> bool" where
  "acts E l s s' l' \<longleftrightarrow> ps_limiter s' = ps_limiter s \<and> cg_pc l' = cg_pc l
     \<and> (ps_events s' = ps_events s
        \<or> (\<exists>e. ps_events s' = ps_events s @ [e] \<and> slot_log [e] = [] \<and> good_event E (ps_events s) e))"

definition cap_guarantee :: "poller_env \<Rightarrow> cap_ghost \<Rightarrow> poller \<Rightarrow> poller \<Rightarrow> cap_ghost \<Rightarrow> bool" where
  "cap_guarantee E l s s' l' \<longleftrightarrow>
     (own l s \<and> state_ok E s \<longrightarrow>
        (moves l s s' l' \<or> acts E l s s' l') \<and> ps_clock s \<le> ps_clock s'
        \<and> ps_wg s' + of_bool (cg_job l) + length (ps_spawn s) = ps_wg s + of_bool (cg_job l') + length (ps_spawn s')
        \<and> prefix (cg_seen l') (ps_events s') \<and> state_ok E s')"

definition quiet :: "cap_ghost \<Rightarrow> bool" where
  "quiet l \<longleftrightarrow> cg_pc l = pc.Idle \<and> \<not> cg_job l"

fun blocked :: "pc \<Rightarrow> bool \<Rightarrow> poller \<Rightarrow> bool" where
  "blocked (AtHost h) _ s = (1 \<le> hs_sem (host_of (ps_limiter s) h))"
| "blocked (AtGlobal h) _ s = (hl_max_parallel (ps_limiter s) \<le> hl_global (ps_limiter s))"
| "blocked pc.Idle job s = (\<not> job \<and> 0 < ps_wg s)"
| "blocked _ _ _ = False"

definition cap_contract :: "poller_env \<Rightarrow> (poller, cap_ghost) contract" where
  "cap_contract E =
     \<lparr>ct_pre = state_ok E,
      ct_step = cap_guarantee E,
      ct_quiet = quiet,
      ct_block = (\<lambda>l. blocked (cg_pc l) (cg_job l)),
      ct_hang = (\<lambda>_. False),
      ct_busy = (\<lambda>l s. \<not> quiet l \<and> \<not> blocked (cg_pc l) (cg_job l) s)\<rparr>"

lemma cap_contract_simps [simp]:
  "ct_pre (cap_contract E) = state_ok E" "ct_step (cap_contract E) = cap_guarantee E" "ct_quiet (cap_contract E) = quiet"
  "ct_block (cap_contract E) l = blocked (cg_pc l) (cg_job l)"
  "\<not> ct_hang (cap_contract E) l"
  "ct_busy (cap_contract E) l s \<longleftrightarrow> \<not> quiet l \<and> \<not> blocked (cg_pc l) (cg_job l) s"
  by (simp_all add: cap_contract_def)

text \<open>A program that keeps the contract from a point of the limiter, for whoever is counted or not, having seen what is given.\<close>

definition keeps :: "poller_env \<Rightarrow> pc \<Rightarrow> bool \<Rightarrow> cap_event list \<Rightarrow> pprog \<Rightarrow> bool" where
  "keeps E p job sn = guar (cap_contract E) \<lparr>cg_pc = p, cg_job = job, cg_seen = sn\<rparr>"

abbreviation here :: "pc \<Rightarrow> bool \<Rightarrow> cap_event list \<Rightarrow> cap_ghost" where
  "here p job sn \<equiv> \<lparr>cg_pc = p, cg_job = job, cg_seen = sn\<rparr>"

section \<open>Steps\<close>

text \<open>An action that leaves alone what others rely on.\<close>

definition harmless :: "poller_env \<Rightarrow> poller \<Rightarrow> poller \<Rightarrow> bool" where
  "harmless E s s' \<longleftrightarrow> ps_limiter s' = ps_limiter s \<and> ps_clock s \<le> ps_clock s' \<and> ps_wg s' = ps_wg s \<and> ps_spawn s' = ps_spawn s
     \<and> ps_events s' = ps_events s \<and> (state_ok E s \<longrightarrow> state_ok E s')"

lemma harmless_guarantee: "harmless E s s' \<Longrightarrow> cap_guarantee E (here p job sn) s s' (here p job sn)"
  by (simp add: harmless_def cap_guarantee_def acts_def own_def)

text \<open>What was seen may be brought up to date.\<close>

lemma harmless_seen: "harmless E s s' \<Longrightarrow> cap_guarantee E (here p job sn) s s' (here p job (ps_events s))"
  by (simp add: harmless_def cap_guarantee_def acts_def own_def)

lemma harmless_refl [simp]: "harmless E s s"
  by (simp add: harmless_def)

lemma harmless_tick [simp]: "harmless E s (tick_on s)"
  by (simp add: harmless_def tick_on_def state_ok_def)

lemma harmless_time [simp]: "harmless E s (pass_time E' s)"
  by (simp add: harmless_def pass_time_def tick_on_def state_ok_def)

lemma event_guarantee:
  assumes "own (here p job sn) s \<Longrightarrow> state_ok E s \<Longrightarrow> good_event E (ps_events s) e" "slot_log [e] = []"
    "ps_limiter s' = ps_limiter s" "ps_clock s \<le> ps_clock s'" "ps_wg s' = ps_wg s" "ps_spawn s' = ps_spawn s"
    "ps_events s' = ps_events s @ [e]" "ps_phase s' = ps_phase s" "ps_results s' = ps_results s" "ps_etags s' = ps_etags s"
    "ps_last_modified s' = ps_last_modified s"
  shows "cap_guarantee E (here p job sn) s s' (here p job (ps_events s'))"
  using assms by (auto simp: cap_guarantee_def acts_def state_ok_def intro: validator_ok_append)

lemma keeps_Done [simp]: "keeps E p job sn Done \<longleftrightarrow> p = pc.Idle \<and> \<not> job"
  by (simp add: keeps_def quiet_def)

lemma keeps_upd:
  assumes "\<And>s. cap_guarantee E (here p job sn) s (f s) (here p' job' sn')" "keeps E p' job' sn' k"
  shows "keeps E p job sn (upd f k)"
  using assms unfolding keeps_def by (intro guar_upd) auto

lemma keeps_update:
  assumes "\<And>s. harmless E s (f s)" "keeps E p job sn k"
  shows "keeps E p job sn (upd f k)"
  using assms harmless_guarantee by (blast intro: keeps_upd)

lemma keeps_act:
  assumes "\<And>s x s'. state_ok E s \<Longrightarrow> f s = (x, s') \<Longrightarrow>
      cap_guarantee E (here p job sn) s s' (here p job (sn' s)) \<and> keeps E p job (sn' s) (k x)"
  shows "keeps E p job sn (act f k)"
  unfolding keeps_def by (rule guar_act) (use assms in \<open>auto simp: keeps_def\<close>)

lemma keeps_read:
  assumes "\<And>s. harmless E s (snd (f s))" "\<And>s. keeps E p job sn (k (fst (f s)))"
  shows "keeps E p job sn (act f k)"
  using assms by (intro keeps_act [where sn' = "\<lambda>_. sn"]) (metis fst_conv snd_conv harmless_guarantee)

lemma keeps_now: "(\<And>t. keeps E p job sn (k t)) \<Longrightarrow> keeps E p job sn (now_c E' k)"
  unfolding now_c_def by (rule keeps_read) (simp_all add: Let_def)

lemma keeps_check: "(\<And>b. keeps E p job sn (k b)) \<Longrightarrow> keeps E p job sn (check_ctx c k)"
  unfolding check_ctx_def by (rule keeps_read) simp_all

lemma prefix_own: "own (here p job sn) s \<Longrightarrow> prefix sn (ps_events s)"
  by (simp add: own_def)

section \<open>The limiter\<close>

text \<open>Between two states only time passes.\<close>

definition later :: "poller \<Rightarrow> poller \<Rightarrow> bool" where
  "later s s1 \<longleftrightarrow> ps_clock s \<le> ps_clock s1
     \<and> s1\<lparr>ps_clock := ps_clock s, ps_tick := ps_tick s\<rparr> = s"

lemma later_simps [simp]:
  "later s s" "later s (tick_on s)" "later s (pass_time E s)" "later s (pass_time E (s\<lparr>ps_clock := max (ps_clock s) w\<rparr>))"
  by (simp_all add: later_def tick_on_def pass_time_def)

lemma later_fields:
  assumes "later s s1"
  shows "ps_limiter s1 = ps_limiter s" "ps_events s1 = ps_events s" "ps_wg s1 = ps_wg s" "ps_spawn s1 = ps_spawn s"
    "ps_phase s1 = ps_phase s" "ps_results s1 = ps_results s" "ps_etags s1 = ps_etags s"
    "ps_last_modified s1 = ps_last_modified s" "ps_clock s \<le> ps_clock s1"
  using assms unfolding later_def by (metis poller.select_convs(1-20) poller.update_convs(1,2) poller.surjective)+

lemma limiter_guarantee:
  assumes "limiter_op a p s1 = Some (p', s')" "later s s1"
  shows "cap_guarantee E (here p job sn) s s' (here p' job sn)"
proof -
  obtain hl es where step: "thread_step a (ps_clock s1) p (ps_limiter s) = Some (p', hl, es)"
    and s': "s' = s1\<lparr>ps_limiter := hl, ps_events := ps_events s @ map EvSlot (rev es)\<rparr>"
    using assms by (auto simp: limiter_op_def later_fields)
  note same = later_fields [OF assms(2)]
  have "moves (here p job sn) s s' (here p' job sn)" using step s' by (auto simp: moves_def)
  moreover have "state_ok E s'" if "state_ok E s"
    using that by (auto simp: state_ok_def s' same intro: validator_ok_append)
  ultimately show ?thesis by (auto simp: cap_guarantee_def own_def s' same)
qed

lemma keeps_await:
  assumes "\<And>s x s'. state_ok E s \<Longrightarrow> f s = Some (x, s') \<Longrightarrow>
      cap_guarantee E (here p job sn) s s' (here (q x) job sn) \<and> keeps E (q x) job sn (k x)"
    and "\<And>s. f s = None \<Longrightarrow> blocked p job s"
  shows "keeps E p job sn (await f k)"
  unfolding keeps_def by (rule guar_await) (use assms in \<open>auto simp: keeps_def\<close>)

lemmas limiter_defs = limiter_op_def thread_step_def wait_step_def done_step_def acquire_host_def acquire_global_def

lemma call_step: "limiter_op (Call host) pc.Idle s = Some (p, s') \<Longrightarrow> p = AtHost host"
  "limiter_op (Call host) pc.Idle s \<noteq> None"
  by (auto simp: limiter_defs)

lemma host_step: "limiter_op Proceed (AtHost host) s = Some (p, s') \<Longrightarrow> p = HasHost host"
  "limiter_op Proceed (AtHost host) s = None \<Longrightarrow> blocked (AtHost host) job s"
  "limiter_op Cancel (AtHost host) s = Some (p, s') \<Longrightarrow> p = pc.Idle" "limiter_op Cancel (AtHost host) s \<noteq> None"
  by (auto simp: limiter_defs Let_def split: if_split_asm)

lemma gap_step: "limiter_op Proceed (HasHost host) s = Some (p, s') \<Longrightarrow> p = AtGlobal host \<or> (\<exists>w. p = Sleeping host w)"
  "limiter_op Proceed (HasHost host) s \<noteq> None"
  by (auto simp: limiter_defs Let_def split: if_split_asm)

lemma sleep_step: "limiter_op Proceed (Sleeping host w) s = Some (p, s') \<Longrightarrow> p = AtGlobal host"
  "w \<le> ps_clock s \<Longrightarrow> limiter_op Proceed (Sleeping host w) s \<noteq> None"
  "limiter_op Cancel (Sleeping host w) s = Some (p, s') \<Longrightarrow> p = pc.Idle" "limiter_op Cancel (Sleeping host w) s \<noteq> None"
  by (auto simp: limiter_defs split: if_split_asm)

lemma global_step: "limiter_op Proceed (AtGlobal host) s = Some (p, s') \<Longrightarrow> p = InFlight host"
  "limiter_op Proceed (AtGlobal host) s = None \<Longrightarrow> blocked (AtGlobal host) job s"
  "limiter_op Cancel (AtGlobal host) s = Some (p, s') \<Longrightarrow> p = pc.Idle" "limiter_op Cancel (AtGlobal host) s \<noteq> None"
  by (auto simp: limiter_defs split: if_split_asm)

lemma finish_step: "limiter_op Proceed (InFlight host) s = Some (p, s') \<Longrightarrow> p = ReleasedGlobal host"
  "limiter_op Proceed (ReleasedGlobal host) s = Some (p, s') \<Longrightarrow> p = Recorded host"
  "limiter_op Proceed (Recorded host) s = Some (p, s') \<Longrightarrow> p = pc.Idle"
  "limiter_op Proceed (InFlight host) s \<noteq> None" "limiter_op Proceed (ReleasedGlobal host) s \<noteq> None"
  "limiter_op Proceed (Recorded host) s \<noteq> None"
  by (auto simp: limiter_defs)

lemma blocked_tick [simp]: "blocked p job (tick_on s) = blocked p job s"
  by (cases p) (simp_all add: tick_on_def)

text \<open>A wait for a semaphore either gets it or is cancelled.\<close>

lemma acquire_cases:
  assumes "acquire_or_cancel E c p s = Some (p', s')"
  shows "\<exists>a \<in> {Proceed, Cancel}. limiter_op a p (tick_on s) = Some (p', s')"
  using assms by (auto simp: acquire_or_cancel_def Let_def split: if_split_asm)

lemma keeps_global:
  assumes "keeps E pc.Idle job sn (k False)" "keeps E (InFlight host) job sn (k True)"
  shows "keeps E (AtGlobal host) job sn (global_wait E' c host k)"
  unfolding global_wait_def
proof (rule keeps_await [where q = id])
  fix s x s'
  assume "acquire_or_cancel E' c (AtGlobal host) s = Some (x, s')"
  from acquire_cases [OF this] obtain a where a: "a \<in> {Proceed, Cancel}" "limiter_op a (AtGlobal host) (tick_on s) = Some (x, s')"
    by blast
  then have "x = InFlight host \<or> x = pc.Idle" using global_step(1,3) by blast
  then show "cap_guarantee E (here (AtGlobal host) job sn) s s' (here (id x) job sn) \<and> keeps E (id x) job sn (k (x \<noteq> pc.Idle))"
    using limiter_guarantee [OF a(2)] assms by auto
next
  fix s
  assume "acquire_or_cancel E' c (AtGlobal host) s = None"
  then have "limiter_op Proceed (AtGlobal host) (tick_on s) = None"
    using global_step(4) [of host "tick_on s"] by (auto simp: acquire_or_cancel_def Let_def split: if_split_asm)
  then show "blocked (AtGlobal host) job s" using global_step(2) [of host "tick_on s" job] by simp
qed

lemma keeps_sleep:
  assumes "keeps E pc.Idle job sn (k False)" "keeps E (InFlight host) job sn (k True)"
    "p = AtGlobal host \<or> (\<exists>w. p = Sleeping host w)"
  shows "keeps E p job sn (host_sleep E' c host p k)"
proof (cases "p = AtGlobal host")
  case True
  then show ?thesis using keeps_global [OF assms(1,2)] by (simp add: host_sleep_def)
next
  case False
  then obtain w where p: "p = Sleeping host w" using assms(3) by blast
  let ?t = "\<lambda>s. pass_time E' (s\<lparr>ps_clock := max (ps_clock s) w\<rparr>)"
  have woken: "w \<le> ps_clock (?t s)" for s :: poller by (simp add: pass_time_def tick_on_def)
  show ?thesis
    unfolding p host_sleep_def pc.case
  proof (rule keeps_await [where q = id])
    fix s x s'
    assume wake: "wake_or_cancel E' c host w s = Some (x, s')"
    then consider "limiter_op Cancel (Sleeping host w) (tick_on s) = Some (x, s')"
      | "limiter_op Proceed (Sleeping host w) (?t s) = Some (x, s')"
      by (auto simp: wake_or_cancel_def split: if_split_asm)
    then have "(x = pc.Idle \<or> x = AtGlobal host) \<and> cap_guarantee E (here (Sleeping host w) job sn) s s' (here x job sn)"
      by cases (use sleep_step(1,3) limiter_guarantee in \<open>fastforce intro: later_simps\<close>)+
    then show "cap_guarantee E (here (Sleeping host w) job sn) s s' (here (id x) job sn) \<and>
        keeps E (id x) job sn (if x = pc.Idle then k False else global_wait E' c host k)"
      using assms(1) keeps_global [OF assms(1,2)] by auto
  next
    fix s
    assume "wake_or_cancel E' c host w s = None"
    then show "blocked (Sleeping host w) job s"
      using sleep_step(2) [OF woken [of s], of host] sleep_step(4) [of host w "tick_on s"]
        by (auto simp: wake_or_cancel_def split: if_split_asm)
  qed
qed

lemma keeps_limiter_op:
  assumes "\<And>s. later s (f s)" "\<And>s p' s'. limiter_op a p (f s) = Some (p', s') \<Longrightarrow> keeps E p' job sn (k p')"
    "\<And>s. limiter_op a p (f s) \<noteq> None"
  shows "keeps E p job sn (await (\<lambda>s. limiter_op a p (f s)) k)"
  by (rule keeps_await [where q = id]) (use assms limiter_guarantee in auto)

lemma keeps_host_wait:
  assumes "keeps E pc.Idle job sn (k False)" "keeps E (InFlight host) job sn (k True)"
  shows "keeps E pc.Idle job sn (host_limiter_wait E' c host k)"
  unfolding host_limiter_wait_def
proof (rule keeps_limiter_op [where f = "\<lambda>s. s"])
  fix s p1 s'
  assume "limiter_op (Call host) pc.Idle s = Some (p1, s')"
  then have p1: "p1 = AtHost host" using call_step by blast
  have has: "keeps E (HasHost host) job sn
      (await (\<lambda>s. limiter_op Proceed (HasHost host) (pass_time E' s)) (\<lambda>p. host_sleep E' c host p k))"
    using gap_step keeps_sleep [OF assms] by (intro keeps_limiter_op) auto
  show "keeps E p1 job sn (await (acquire_or_cancel E' c (AtHost host)) (\<lambda>p. if p = pc.Idle then k False
      else await (\<lambda>s. limiter_op Proceed (HasHost host) (pass_time E' s)) (\<lambda>p. host_sleep E' c host p k)))"
    unfolding p1
  proof (rule keeps_await [where q = id])
    fix s x s'
    assume "acquire_or_cancel E' c (AtHost host) s = Some (x, s')"
    from acquire_cases [OF this] obtain a where a: "a \<in> {Proceed, Cancel}" "limiter_op a (AtHost host) (tick_on s) = Some (x, s')"
      by blast
    then have "x = HasHost host \<or> x = pc.Idle" using host_step(1,3) by blast
    then show "cap_guarantee E (here (AtHost host) job sn) s s' (here (id x) job sn) \<and>
        keeps E (id x) job sn (if x = pc.Idle then k False
          else await (\<lambda>s. limiter_op Proceed (HasHost host) (pass_time E' s)) (\<lambda>p. host_sleep E' c host p k))"
      using limiter_guarantee [OF a(2)] assms(1) has by auto
  next
    fix s
    assume "acquire_or_cancel E' c (AtHost host) s = None"
    then have "limiter_op Proceed (AtHost host) (tick_on s) = None"
      using host_step(4) [of host "tick_on s"] by (auto simp: acquire_or_cancel_def Let_def split: if_split_asm)
    then show "blocked (AtHost host) job s" using host_step(2) [of host "tick_on s" job] by simp
  qed
qed (use call_step in simp_all)

lemma keeps_host_done:
  assumes "keeps E pc.Idle job sn k"
  shows "keeps E (InFlight host) job sn (host_limiter_done E' host k)"
  unfolding host_limiter_done_def
proof (rule keeps_limiter_op [where f = "\<lambda>s. s"])
  fix s p1 s'
  assume "limiter_op Proceed (InFlight host) s = Some (p1, s')"
  then have p1: "p1 = ReleasedGlobal host" using finish_step by blast
  have "keeps E (Recorded host) job sn (await (limiter_op Proceed (Recorded host)) (\<lambda>_. k))"
    using assms finish_step(3,6) by (intro keeps_limiter_op [where f = "\<lambda>s. s"]) auto
  then show "keeps E p1 job sn (await (\<lambda>s. limiter_op Proceed (ReleasedGlobal host) (pass_time E' s))
      (\<lambda>_. await (limiter_op Proceed (Recorded host)) (\<lambda>_. k)))"
    unfolding p1 using finish_step(2,5) by (intro keeps_limiter_op) auto
qed (use finish_step in simp_all)

section \<open>Posts and requests\<close>

lemma emit_fields [simp]:
  "ps_limiter (emit_event e s) = ps_limiter s" "ps_clock (emit_event e s) = ps_clock s" "ps_wg (emit_event e s) = ps_wg s"
  "ps_spawn (emit_event e s) = ps_spawn s" "ps_events (emit_event e s) = ps_events s @ [e]" "ps_phase (emit_event e s) = ps_phase s"
  "ps_results (emit_event e s) = ps_results s" "ps_etags (emit_event e s) = ps_etags s"
  "ps_last_modified (emit_event e s) = ps_last_modified s" "ps_tick (emit_event e s) = ps_tick s"
  by (simp_all add: emit_event_def)

lemma tick_fields [simp]:
  "ps_limiter (tick_on s) = ps_limiter s" "ps_clock (tick_on s) = ps_clock s" "ps_wg (tick_on s) = ps_wg s"
  "ps_spawn (tick_on s) = ps_spawn s" "ps_events (tick_on s) = ps_events s" "ps_phase (tick_on s) = ps_phase s"
  "ps_results (tick_on s) = ps_results s" "ps_etags (tick_on s) = ps_etags s" "ps_last_modified (tick_on s) = ps_last_modified s"
  by (simp_all add: tick_on_def)

lemma unseen_guarantee:
  assumes "cap_guarantee E (here p job sn) s s' (here p job sn')" "prefix (ps_events s) (ps_events s')"
  shows "cap_guarantee E (here p job sn) s s' (here p job sn)"
  using assms by (auto simp: cap_guarantee_def own_def moves_def acts_def intro: prefix_order.trans)

lemma keeps_timer:
  assumes "\<And>b. keeps E p job sn (k b)"
  shows "keeps E p job sn (wait_timer E' c d k)"
  unfolding wait_timer_def
proof (rule keeps_act [where sn' = "\<lambda>_. sn"])
  fix s x s'
  assume "(if ctx_done c s \<and> ce_choice E' (ps_tick s) then (False, tick_on s)
     else (True, pass_time E' (emit_event (EvWait d) (s\<lparr>ps_clock := ps_clock s + max 0 d\<rparr>)))) = (x, s')"
  then consider "s' = tick_on s" | "s' = pass_time E' (emit_event (EvWait d) (s\<lparr>ps_clock := ps_clock s + max 0 d\<rparr>))"
    by (auto split: if_split_asm)
  then have "cap_guarantee E (here p job sn) s s' (here p job sn)"
  proof cases
    case 1
    then show ?thesis by (simp add: harmless_guarantee)
  next
    case 2
    then show ?thesis
      by (intro unseen_guarantee [OF event_guarantee [where e = "EvWait d"]]) (simp_all add: pass_time_def)
  qed
  then show "cap_guarantee E (here p job sn) s s' (here p job sn) \<and> keeps E p job sn (k x)" using assms by blast
qed

text \<open>An action that is seen, whose goroutine remembers it and all before it.\<close>

lemma keeps_event:
  assumes "\<And>s. own (here p job sn) s \<Longrightarrow> state_ok E s \<Longrightarrow> good_event E (ps_events s) (e s)" "\<And>s. slot_log [e s] = []"
    "\<And>s m. keeps E p job (sn @ m @ [e s]) (k (x s))" "\<And>s. g s = emit_event (e s) s \<or> g s = tick_on (emit_event (e s) s)"
  shows "keeps E p job sn (act (\<lambda>s. (x s, g s)) k)"
proof (rule keeps_act [where sn' = "\<lambda>s. if prefix sn (ps_events s) then ps_events s @ [e s] else sn @ [e s]"])
  fix s y s'
  assume "(x s, g s) = (y, s')"
  then have y: "y = x s" "s' = emit_event (e s) s \<or> s' = tick_on (emit_event (e s) s)" using assms(4) by auto
  let ?sn = "if prefix sn (ps_events s) then ps_events s @ [e s] else sn @ [e s]"
  have "cap_guarantee E (here p job sn) s s' (here p job (ps_events s'))"
    by (rule event_guarantee [where e = "e s"]) (use assms(1,2) y(2) in \<open>elim disjE; simp\<close>)+
  then have "cap_guarantee E (here p job sn) s s' (here p job ?sn)"
    using y(2) by (auto simp: cap_guarantee_def own_def)
  moreover have "keeps E p job ?sn (k y)"
    using assms(3) [of "[]" s] assms(3) [of _ s] y(1) by (auto elim!: prefixE)
  ultimately show "cap_guarantee E (here p job sn) s s' (here p job ?sn) \<and> keeps E p job ?sn (k y)" ..
qed

lemma keeps_http_get:
  assumes "\<And>s. own (here p job sn) s \<Longrightarrow> state_ok E s \<Longrightarrow> good_event E (ps_events s) (ev s)" "\<And>s. slot_log [ev s] = []"
    "\<And>m x. keeps E p job (sn @ m) (k x)"
  shows "keeps E p job sn (http_get E' ev k)"
  unfolding http_get_def by (rule keeps_event [where e = ev]) (use assms in auto)

fun good_payload :: "poller_env \<Rightarrow> poll_meta \<Rightarrow> payload \<Rightarrow> bool" where
  "good_payload E meta (Alerts rs) = (good_batch E rs \<and> pm_feature_count meta = length rs)"
| "good_payload E meta _ = True"

lemma keeps_core_post:
  assumes "good_payload E meta fs" "\<And>m ok. keeps E p job (sn @ m @ [EvPost path meta fs ok]) (k ok)"
  shows "keeps E p job sn (core_post E' path meta fs k)"
proof -
  have "good_event E evs (EvPost path meta fs ok)" for evs ok using assms(1) by (cases fs) auto
  then show ?thesis
    unfolding core_post_def Let_def
    by (intro keeps_event [where e = "\<lambda>s. EvPost path meta fs (ack_ok E' (ce_core E' (ps_tick s)) (payload_size fs))"])
      (use assms(2) in auto)
qed

lemma keeps_attempts:
  assumes "good_payload E meta fs" "\<And>m. keeps E p job (sn @ m) (k False)"
    "\<And>m. keeps E p job (sn @ m @ [EvPost path meta fs True]) (k True)"
  shows "keeps E p job sn (send_attempts E' c path meta fs n backoff k)"
  using assms(2,3)
proof (induction n arbitrary: sn backoff)
  case 0
  then show ?case using "0.prems"(1) [of "[]"] by simp
next
  case (Suc n)
  have "keeps E p job (sn @ m @ [EvPost path meta fs False]) (send_attempts E' c path meta fs n backoff' k)" for m backoff'
  proof (rule Suc.IH)
    fix q
    show "keeps E p job ((sn @ m @ [EvPost path meta fs False]) @ q) (k False)"
      using Suc.prems(1) [of "m @ EvPost path meta fs False # q"] by simp
    show "keeps E p job ((sn @ m @ [EvPost path meta fs False]) @ q @ [EvPost path meta fs True]) (k True)"
      using Suc.prems(2) [of "m @ EvPost path meta fs False # q"] by simp
  qed
  then show ?case
    unfolding send_attempts.simps Let_def
    using Suc.prems(1) [of "[]"] Suc.prems
    by (auto intro!: keeps_check keeps_core_post keeps_timer assms(1) split: if_split)
qed

lemmas send_defs = send_with_retry_def send_registry_def send_feed_index_def send_alerts_def

section \<open>The programs keep the contract\<close>

abbreviation keeps_always :: "poller_env \<Rightarrow> bool \<Rightarrow> pprog \<Rightarrow> bool" where
  "keeps_always E job k \<equiv> (\<forall>sn. keeps E pc.Idle job sn k)"

lemma keeps_send:
  assumes "good_payload E meta fs" "\<And>sn ok. keeps E p job sn (k ok)"
  shows "keeps E p job sn (send_with_retry E' c path meta fs k)"
  unfolding send_with_retry_def by (rule keeps_attempts) (use assms in auto)

lemma keeps_note_raa: "keeps_always E job k \<Longrightarrow> keeps E pc.Idle job sn (note_raa_fetch E' k)"
  unfolding note_raa_fetch_def
  by (intro keeps_now keeps_update) (simp_all add: harmless_def state_ok_def)

lemma keeps_ingest_registry:
  "keeps_always E job k \<Longrightarrow> keeps E pc.Idle job sn (ingest_registry E fetchedAt status h body k)"
  unfolding ingest_registry_def send_registry_def
  by (auto intro!: keeps_note_raa keeps_send keeps_update simp: harmless_def state_ok_def store_raa_def split: option.split)

lemma own_slot: "own (here (InFlight host) job sn) s \<Longrightarrow> slot_open host (ps_events s)"
  by (simp add: own_def)

lemma keeps_poll_raa:
  assumes "keeps_always E job k"
  shows "keeps E pc.Idle job sn (poll_raa E k)"
  unfolding poll_raa_def Let_def
  using assms
  by (auto intro!: keeps_host_wait keeps_now keeps_host_done keeps_http_get keeps_ingest_registry
      simp: own_slot split: exchange.split sum.split if_split)

lemma harmless_due: "harmless E s (set_due E' feed t s)"
  by (simp add: harmless_def state_ok_def set_due_def)

lemma keeps_feed_failure:
  "keeps_always E job k \<Longrightarrow> keeps E pc.Idle job sn (post_feed_failure E' c url status err fetchedAt k)"
  unfolding post_feed_failure_def send_feed_index_def by (rule keeps_send) auto

lemma keeps_unreachable:
  "keeps_always E job k \<Longrightarrow> keeps E (InFlight host) job sn (feed_unreachable E' host feed t err fetchedAt k)"
  unfolding feed_unreachable_def
  by (auto intro!: keeps_host_done keeps_check keeps_update harmless_due keeps_feed_failure)

lemma keeps_not_modified:
  "keeps_always E job k \<Longrightarrow> keeps E (InFlight host) job sn (feed_not_modified E' host feed t fmt fetchedAt k)"
  unfolding feed_not_modified_def send_feed_index_def
  by (intro keeps_host_done keeps_update harmless_due keeps_send) auto

text \<open>The validators are stored when the core has accepted the index.\<close>

lemma store_guarantee:
  assumes "fe_error r = '''' \<Longrightarrow> delivered E sn url h"
  shows "cap_guarantee E (here p job sn) s (store_feed url r h s) (here p job sn)"
proof -
  have unchanged: "ps_limiter (store_feed url r h s) = ps_limiter s" "ps_clock (store_feed url r h s) = ps_clock s"
    "ps_wg (store_feed url r h s) = ps_wg s" "ps_spawn (store_feed url r h s) = ps_spawn s"
    "ps_events (store_feed url r h s) = ps_events s" "ps_phase (store_feed url r h s) = ps_phase s"
    "ps_results (store_feed url r h s) = ps_results s"
    by (simp_all add: store_feed_def Let_def)
  have ok: "state_ok E (store_feed url r h s)" if seen: "own (here p job sn) s" and ok: "state_ok E s"
  proof -
    have "fe_error r = '''' \<Longrightarrow> delivered E (ps_events s) url h"
      using assms prefix_own [OF seen] by (blast intro: delivered_prefix)
    then have "validator_ok E ''ETag'' (ps_events s) u (ps_etags (store_feed url r h s) u)"
      "validator_ok E ''Last-Modified'' (ps_events s) u (ps_last_modified (store_feed url r h s) u)" for u
      using ok by (auto simp: state_ok_def store_feed_def Let_def validator_ok_def)
    then show ?thesis using ok unchanged by (simp add: state_ok_def)
  qed
  then show ?thesis by (auto simp: cap_guarantee_def acts_def own_def unchanged)
qed

lemma delivered_now:
  "fe_error (parse_feed (ce_feed E) url body) = '''' \<Longrightarrow> pm_feed_url meta = url \<Longrightarrow>
   delivered E ((sn @ m @ [EvFetched url h body]) @ q @
     [EvPost ''cap_data/index'' meta (Index (fe_features (parse_feed (ce_feed E) url body))) True]) url h"
  unfolding delivered_def by (rule exI [of _ "sn @ m"], rule exI [of _ q]) auto

lemma keeps_ingest_feed:
  assumes "keeps_always E job k"
  shows "keeps E pc.Idle job sn (ingest_feed E url fetchedAt status h body k)"
proof -
  let ?r = "parse_feed (ce_feed E) url body"
  let ?meta = "blank_meta\<lparr>pm_fetched_at := fetchedAt, pm_http_status := (if fe_error ?r \<noteq> '''' then 0 else status),
     pm_feature_count := length (fe_features ?r), pm_bytes := length body, pm_feed_url := url,
     pm_format := fe_format ?r, pm_error := fe_error ?r\<rparr>"
  let ?send = "send_feed_index E FeedCtx ?meta (fe_features ?r) (\<lambda>ok. if ok then upd (store_feed url ?r h) k else k)"
  have "keeps E pc.Idle job (sn @ m @ [EvFetched url h body]) ?send" for m
    unfolding send_feed_index_def send_with_retry_def
  proof (rule keeps_attempts)
    fix q
    let ?sn = "(sn @ m @ [EvFetched url h body]) @ q @ [EvPost ''cap_data/index'' ?meta (Index (fe_features ?r)) True]"
    have "fe_error ?r = '''' \<Longrightarrow> delivered E ?sn url h" by (rule delivered_now) (simp_all add: blank_meta_def)
    from store_guarantee [OF this] have "keeps E pc.Idle job ?sn (upd (store_feed url ?r h) k)"
      by (rule keeps_upd) (rule assms [rule_format] | assumption)+
    then show "keeps E pc.Idle job ?sn (if True then upd (store_feed url ?r h) k else k)" by simp
  qed (use assms in auto)
  then have "keeps E pc.Idle job sn (act (\<lambda>s. ((), emit_event (EvFetched url h body) s)) (\<lambda>_. ?send))"
    by (intro keeps_event [where e = "\<lambda>_. EvFetched url h body"]) auto
  then show ?thesis by (simp add: ingest_feed_def Let_def act_def upd_def)
qed

lemma keeps_feed_request:
  assumes host: "ce_host_from_url E url = host" and etag: "validator_ok E ''ETag'' sn url etag" and lm: "validator_ok E ''Last-Modified'' sn url lm"
    and rest: "\<And>sn x. keeps E (InFlight host) job sn (f x)"
  shows "keeps E (InFlight host) job sn (http_get E (\<lambda>_. EvFeedRequest url etag lm) f)"
proof (rule keeps_http_get)
  fix s
  assume "own (here (InFlight host) job sn) s"
  then show "good_event E (ps_events s) (EvFeedRequest url etag lm)"
    using own_slot validator_ok_prefix [OF etag] validator_ok_prefix [OF lm] prefix_own host by auto
qed (use rest in auto)

lemma keeps_single_feed:
  assumes k: "keeps_always E job k" and host: "ce_host_from_url E (fd_url feed) = host"
  shows "keeps E pc.Idle job sn (poll_single_feed E host feed t k)"
proof -
  let ?url = "fd_url feed"
  have answer: "keeps E (InFlight host) job sn (case x of
      HttpError err \<Rightarrow> feed_unreachable E host feed t err (stamp u) k
    | HttpResponse status h content broken \<Rightarrow>
        if status = 304 then feed_not_modified E host feed t lastFmt (stamp u) k
        else host_limiter_done E host (check_ctx FeedCtx (\<lambda>cancelled.
          if cancelled then k
          else upd (set_due E feed t)
            (case read_limited content broken maxBodyBytes of
               Inl err \<Rightarrow> post_feed_failure E FeedCtx ?url 0 err (stamp u) k
             | Inr body \<Rightarrow>
                 if status < 200 \<or> 300 \<le> status then
                   post_feed_failure E FeedCtx ?url status (''HTTP '' @ show_int status) (stamp u) k
                 else ingest_feed E ?url (stamp u) status h body k))))" for sn x lastFmt u
    using k by (auto intro!: keeps_unreachable keeps_not_modified keeps_host_done keeps_check keeps_update harmless_due
        keeps_feed_failure keeps_ingest_feed split: exchange.split sum.split)
  have ask: "keeps E (InFlight host) job sn
      (act (\<lambda>s. ((ps_etags s ?url, ps_last_modified s ?url, ps_last_format s ?url), s)) (\<lambda>(etag, lm, lastFmt).
         http_get E (\<lambda>_. EvFeedRequest ?url etag lm) (f lastFmt)))"
    if f: "\<And>sn x fmt. keeps E (InFlight host) job sn (f fmt x)" for sn f
  proof (rule keeps_act [where sn' = ps_events], clarify)
    fix s
    assume ok: "state_ok E s"
    have "cap_guarantee E (here (InFlight host) job sn) s s (here (InFlight host) job (ps_events s))"
      by (rule harmless_seen) simp
    moreover have "keeps E (InFlight host) job (ps_events s)
        (http_get E (\<lambda>_. EvFeedRequest ?url (ps_etags s ?url) (ps_last_modified s ?url)) (f (ps_last_format s ?url)))"
      using ok by (intro keeps_feed_request host f) (auto simp: state_ok_def)
    ultimately show "cap_guarantee E (here (InFlight host) job sn) s s (here (InFlight host) job (ps_events s)) \<and>
        keeps E (InFlight host) job (ps_events s)
          (http_get E (\<lambda>_. EvFeedRequest ?url (ps_etags s ?url) (ps_last_modified s ?url)) (f (ps_last_format s ?url)))" ..
  qed
  show ?thesis
    unfolding poll_single_feed_def Let_def
    by (intro keeps_host_wait) (use k in \<open>auto intro!: keeps_now keeps_unreachable ask answer split: option.split\<close>)
qed

lemma keeps_wg_done: "keeps E pc.Idle True sn (wg_done Done)"
  unfolding wg_done_def
  by (rule keeps_upd [where p' = pc.Idle and job' = False and sn' = sn])
    (auto simp: cap_guarantee_def acts_def own_def state_ok_def)

lemma keeps_host_feeds:
  "\<forall>f \<in> set fl. ce_host_from_url E (fd_url f) = host \<Longrightarrow> keeps E pc.Idle True sn (poll_host_feeds E host fl t)"
  by (induction fl arbitrary: sn) (auto intro!: keeps_wg_done keeps_check keeps_single_feed)

lemma keeps_next_phase: "phase_ok E p \<Longrightarrow> keeps E pc.Idle False sn (next_phase p)"
  unfolding next_phase_def by (rule keeps_update) (auto simp: harmless_def state_ok_def)

lemma keeps_wg_wait: "keeps_always E False k \<Longrightarrow> keeps E pc.Idle False sn (wg_wait k)"
  unfolding wg_wait_def
  by (rule keeps_await [where q = "\<lambda>_. pc.Idle"]) (auto simp: harmless_guarantee split: if_split_asm)

text \<open>Goroutines are started with their entries grouped by host.\<close>

lemma group_by_host:
  "(\<And>h ys y. (h, ys) \<in> set acc \<Longrightarrow> y \<in> set ys \<Longrightarrow> f y = h) \<Longrightarrow> (h, ys) \<in> set (group_by f xs acc) \<Longrightarrow> y \<in> set ys \<Longrightarrow> f y = h"
proof (induction f xs acc rule: group_by.induct)
  case (2 f x xs acc)
  show ?case
  proof (rule "2.IH")
    show "f y' = h'" if "(h', ys') \<in> set (if \<exists>(h, _) \<in> set acc. h = f x
        then map (\<lambda>(h, ys). if h = f x then (h, ys @ [x]) else (h, ys)) acc else acc @ [(f x, [x])])" "y' \<in> set ys'" for h' ys' y'
      using that "2.prems"(1) by (auto split: if_split_asm)
  qed (use "2.prems" in simp_all)
qed simp

lemma grouped_jobs:
  "list_all (job_ok E) (map (\<lambda>(h, fl). PollFeeds h fl t) (group_by (\<lambda>f. ce_host_from_url E (fd_url f)) feeds []))"
  "list_all (job_ok E) (map (\<lambda>(h, ps). FetchAlerts h ps t) (group_by (\<lambda>p. ce_host_from_url E (pe_cap_url p)) items []))"
proof -
  have "(h, fl) \<in> set (group_by g xs []) \<Longrightarrow> \<forall>f \<in> set fl. g f = h"
    for g :: "feed_entry \<Rightarrow> string" and h fl xs using group_by_host [of "[]" g h fl xs] by auto
  then show "list_all (job_ok E) (map (\<lambda>(h, fl). PollFeeds h fl t) (group_by (\<lambda>f. ce_host_from_url E (fd_url f)) feeds []))"
    by (fastforce simp: list_all_iff)
next
  have "(h, fl) \<in> set (group_by g xs []) \<Longrightarrow> \<forall>f \<in> set fl. g f = h"
    for g :: "pending_entry \<Rightarrow> string" and h fl xs using group_by_host [of "[]" g h fl xs] by auto
  then show "list_all (job_ok E) (map (\<lambda>(h, ps). FetchAlerts h ps t) (group_by (\<lambda>p. ce_host_from_url E (pe_cap_url p)) items []))"
    by (fastforce simp: list_all_iff)
qed

lemma keeps_go:
  assumes "list_all (job_ok E) js" "\<And>s. harmless E s (f s)" "keeps_always E False k"
  shows "keeps E pc.Idle False sn (upd (\<lambda>s. go_jobs js (f s)) k)"
proof (rule keeps_upd)
  fix s
  show "cap_guarantee E (here pc.Idle False sn) s (go_jobs js (f s)) (here pc.Idle False sn)"
    using assms(1) assms(2) [of s] by (auto simp: cap_guarantee_def acts_def own_def state_ok_def go_jobs_def harmless_def)
qed (use assms(3) in blast)

lemma keeps_feeds_cycle: "keeps_always E False k \<Longrightarrow> keeps E pc.Idle False sn (poll_feeds_cycle E t k)"
  unfolding poll_feeds_cycle_def fetch_feeds_def
  by (auto intro!: keeps_read keeps_go keeps_wg_wait grouped_jobs simp: harmless_def state_ok_def split: option.split)

text \<open>Alerts: what is fetched, pushed and posted.\<close>

lemma failed_good [simp]: "good_result E (failed_result item fetchedAt status err)"
  by (simp add: good_result_def failed_result_def)

lemma read_limited_bound: "read_limited content broken n = Inr body \<Longrightarrow> length body \<le> n"
  by (auto simp: read_limited_def Let_def split: if_split_asm)

lemma response_good [simp]: "good_result E (alert_of_response E item fetchedAt status content broken)"
  unfolding alert_of_response_def
  by (auto simp: good_result_def failed_result_def Let_def dest: read_limited_bound split: sum.split)

lemma keeps_single_cap:
  assumes "\<And>sn r. good_result E r \<Longrightarrow> keeps E pc.Idle job sn (k r)" "ce_host_from_url E (pe_cap_url item) = host"
  shows "keeps E pc.Idle job sn (fetch_single_cap E host item k)"
proof -
  have "keeps E (InFlight host) job sn (http_get E (\<lambda>_. EvAlertRequest (pe_cap_url item)) (\<lambda>x.
      host_limiter_done E host (k (case x of
        HttpError err \<Rightarrow> failed_result item (stamp t) 0 err
      | HttpResponse status h content broken \<Rightarrow> alert_of_response E item (stamp t) status content broken))))" for t
    using assms by (auto intro!: keeps_http_get keeps_host_done simp: own_slot split: exchange.split)
  then show ?thesis
    unfolding fetch_single_cap_def
    by (auto intro!: keeps_host_wait keeps_now keeps_host_done assms(1) split: option.split)
qed

lemma keeps_push:
  assumes "good_result E r" "\<And>b. keeps E pc.Idle job sn (k b)"
  shows "keeps E pc.Idle job sn (push_result E' r k)"
  unfolding push_result_def
proof (rule keeps_act [where sn' = "\<lambda>_. sn"])
  fix s x s'
  assume "(if ctx_done DrainCtx s \<and> ce_choice E' (ps_tick s) then (False, tick_on s)
     else (True, tick_on (s\<lparr>ps_results := ps_results s @ [r]\<rparr>))) = (x, s')"
  then have "harmless E s s'" using assms(1) by (auto simp: harmless_def state_ok_def split: if_split_asm)
  then show "cap_guarantee E (here pc.Idle job sn) s s' (here pc.Idle job sn) \<and> keeps E pc.Idle job sn (k x)"
    using assms(2) harmless_guarantee by blast
qed

lemma keeps_host_alerts:
  "\<forall>p \<in> set ps. ce_host_from_url E (pe_cap_url p) = host \<Longrightarrow> keeps E pc.Idle True sn (fetch_host_alerts E host ps t)"
  by (induction ps arbitrary: sn) (auto intro!: keeps_wg_done keeps_check keeps_now keeps_single_cap keeps_push)

lemma keeps_job: "job_ok E j \<Longrightarrow> keeps E pc.Idle True sn (job_prog E j)"
  by (cases j) (simp_all add: job_prog_def keeps_host_feeds keeps_host_alerts)

lemma keeps_alerts_batch:
  assumes "batch \<noteq> [] \<Longrightarrow> good_batch E batch" "\<And>sn ok. keeps E pc.Idle job sn (k ok)"
  shows "keeps E pc.Idle job sn (send_alerts_batch E' batch k)"
  using assms by (auto simp: send_alerts_batch_def send_alerts_def blank_meta_def intro!: keeps_now keeps_send)

lemma keeps_receive:
  assumes "\<And>x. (\<And>r. x = Some r \<Longrightarrow> good_result E r) \<Longrightarrow> keeps E pc.Idle False sn (k x)"
  shows "keeps E pc.Idle False sn (receive k)"
  unfolding receive_def
proof (rule keeps_await [where q = "\<lambda>_. pc.Idle"])
  fix s x s'
  assume "state_ok E s" "(case ps_results s of r # rs \<Rightarrow> Some (Some r, s\<lparr>ps_results := rs\<rparr>)
     | [] \<Rightarrow> if ps_wg s = 0 then Some (None, s) else None) = Some (x, s')"
  then have "harmless E s s'" "\<And>r. x = Some r \<Longrightarrow> good_result E r"
    by (auto simp: harmless_def state_ok_def split: list.split_asm if_split_asm)
  then show "cap_guarantee E (here pc.Idle False sn) s s' (here pc.Idle False sn) \<and> keeps E pc.Idle False sn (k x)"
    using assms harmless_guarantee by blast
qed (auto split: list.split_asm if_split_asm)

lemma keeps_cancel_drain: "keeps E p job sn k \<Longrightarrow> keeps E p job sn (cancel_drain k)"
  unfolding cancel_drain_def by (rule keeps_update) (simp_all add: harmless_def state_ok_def)

lemma batch_limits: "alertBatchSize = 10" "0 < alertBatchMaxBytes"
  by (simp_all add: alertBatchSize_def alertBatchMaxBytes_def)

lemma keeps_add_result:
  assumes "length batch < alertBatchSize" "n = total_bytes batch" "list_all (good_result E) batch" "good_result E r"
    "batch = [] \<or> n + result_bytes r \<le> alertBatchMaxBytes"
  shows "keeps E pc.Idle False sn (add_result E' t batch n r)"
proof -
  have "good_batch E (batch @ [r])" using assms by (auto simp: good_batch_def)
  then show ?thesis
    using assms batch_limits
    by (auto simp: add_result_def Let_def intro!: keeps_alerts_batch keeps_next_phase keeps_cancel_drain)
qed

lemma keeps_collect:
  assumes "phase_ok E (Collecting t batch n)"
  shows "keeps E pc.Idle False sn (collect E' t batch n)"
proof -
  have good: "good_batch E batch" if "batch \<noteq> []" using assms that by (auto simp: good_batch_def Suc_le_eq)
  show ?thesis
    unfolding collect_def
  proof (rule keeps_receive)
    fix x
    assume x: "\<And>r. x = Some r \<Longrightarrow> good_result E r"
    show "keeps E pc.Idle False sn (case x of
        None \<Rightarrow> cancel_drain (send_alerts_batch E' batch (\<lambda>ok. next_phase (if batch = [] \<or> ok then Draining t else Resting t)))
      | Some r \<Rightarrow>
          if batch \<noteq> [] \<and> alertBatchMaxBytes < n + result_bytes r then
            send_alerts_batch E' batch (\<lambda>ok.
              if ok then add_result E' t [] 0 r else cancel_drain (next_phase (Discarding t)))
          else add_result E' t batch n r)"
    proof (cases x)
      case None
      then show ?thesis using good by (auto intro!: keeps_cancel_drain keeps_alerts_batch keeps_next_phase)
    next
      case (Some r)
      have "keeps E pc.Idle False sn (add_result E' t [] 0 r)" for sn
        by (rule keeps_add_result) (use x Some batch_limits in auto)
      moreover have "keeps E pc.Idle False sn (add_result E' t batch n r)"
        if "batch = [] \<or> n + result_bytes r \<le> alertBatchMaxBytes" for sn
        by (rule keeps_add_result) (use assms x Some that in auto)
      ultimately show ?thesis
        using Some good by (auto intro!: keeps_alerts_batch keeps_cancel_drain keeps_next_phase)
    qed
  qed
qed

lemma keeps_drain: "keeps E pc.Idle False sn (drain_alerts E t)"
  unfolding drain_alerts_def fetch_pending_def
  by (auto intro!: keeps_now keeps_next_phase keeps_check keeps_read keeps_go grouped_jobs
      simp: harmless_def state_ok_def batch_limits split: option.split)

lemma keeps_cycle: "keeps E pc.Idle False sn (execute_cycle E)"
  unfolding execute_cycle_def Let_def
  by (auto intro!: keeps_check keeps_next_phase keeps_now keeps_read keeps_poll_raa keeps_feeds_cycle)

lemma keeps_turn: "phase_ok E p \<Longrightarrow> keeps E pc.Idle False sn (main_turn E p)"
  unfolding main_turn_def discard_def rest_def
  by (auto intro!: keeps_cycle keeps_drain keeps_collect keeps_receive keeps_check keeps_now keeps_timer keeps_next_phase
      split: phase.split option.split)

section \<open>The invariant of all goroutines\<close>

text \<open>The goroutines as the limiter sees them.\<close>

definition limiter_view :: "cap_ghost list \<Rightarrow> poller \<Rightarrow> lsys" where
  "limiter_view ls s =
     \<lparr>ls_limiter = ps_limiter s, ls_pcs = map cg_pc ls, ls_clock = ps_clock s, ls_log = rev (slot_log (ps_events s))\<rparr>"

lemma view_simps [simp]:
  "ls_limiter (limiter_view ls s) = ps_limiter s" "ls_pcs (limiter_view ls s) = map cg_pc ls"
  "ls_clock (limiter_view ls s) = ps_clock s" "ls_log (limiter_view ls s) = rev (slot_log (ps_events s))"
  by (simp_all add: limiter_view_def)

abbreviation host_gap_of :: "poller_env \<Rightarrow> int" where
  "host_gap_of E \<equiv> cc_host_min_interval (ce_config E)"

definition cap_inv :: "poller_env \<Rightarrow> cap_ghost list \<Rightarrow> poller \<Rightarrow> bool" where
  "cap_inv E ls s \<longleftrightarrow> state_ok E s \<and> trace_ok E (ps_events s)
     \<and> tokens_inv (limiter_view ls s) \<and> (0 \<le> host_gap_of E \<and> host_gap_of E \<le> max_int64 \<longrightarrow> times_inv (limiter_view ls s))
     \<and> hl_min_interval (ps_limiter s) = host_gap_of E \<and> 1 \<le> hl_max_parallel (ps_limiter s)
     \<and> (\<forall>h. starts h (slot_log (ps_events s)) = ends h (slot_log (ps_events s)) + length (filter (open_at h) (map cg_pc ls)))
     \<and> ps_wg s = length (filter cg_job ls) + length (ps_spawn s)
     \<and> (\<forall>l \<in> set ls. prefix (cg_seen l) (ps_events s))"

lemma open_holds: "open_at h p \<Longrightarrow> holds h p"
  by (cases p) auto

lemma open_counts:
  assumes "thread_step a t p hl = Some (p', hl', es)"
  shows "starts h (rev es) + of_bool (open_at h p) = ends h (rev es) + of_bool (open_at h p')" "length es \<le> 1"
  using assms by (cases p; cases a; auto simp: op_defs split: if_split_asm)+

lemma cap_inv_own:
  assumes inv: "cap_inv E ls s" and i: "i < length ls"
  shows "own (ls ! i) s"
proof -
  have job: "1 \<le> ps_wg s" if "cg_job (ls ! i)" using inv i that filter_pos [OF i, of cg_job] by (simp add: cap_inv_def)
  have slot: "slot_open h (ps_events s)" if h: "open_at h (cg_pc (ls ! i))" for h
  proof -
    have "length (filter (open_at h) (map cg_pc ls)) \<le> length (filter (holds h) (map cg_pc ls))"
      by (induction ls) (auto dest: open_holds)
    moreover have "length (filter (holds h) (map cg_pc ls)) \<le> 1" using inv by (simp add: cap_inv_def tokens_inv_def)
    moreover have "1 \<le> length (filter (open_at h) (map cg_pc ls))"
      using filter_pos [of i "map cg_pc ls" "open_at h"] i h by simp
    ultimately have "length (filter (open_at h) (map cg_pc ls)) = 1" by linarith
    then show ?thesis using inv by (simp add: cap_inv_def slot_open_def)
  qed
  show ?thesis using inv i job slot by (simp add: own_def cap_inv_def)
qed

lemma slot_events_good: "trace_ok E evs \<Longrightarrow> trace_ok E (evs @ map EvSlot es)"
proof (induction es rule: rev_induct)
  case (snoc e es)
  then show ?case using trace_ok_snoc [of E "evs @ map EvSlot es" "EvSlot e"] by simp
qed simp

text \<open>In the view of the limiter, time passes and a goroutine moves or not.\<close>

lemma view_moves:
  assumes "moves (ls ! i) s s' l'" "i < length ls" "ps_clock s \<le> ps_clock s'"
  shows "\<exists>v. lsys_step (limiter_view ls s) v \<and> lsys_step v (limiter_view (ls[i := l']) s')"
proof -
  obtain a es where step: "thread_step a (ps_clock s') (cg_pc (ls ! i)) (ps_limiter s) = Some (cg_pc l', ps_limiter s', es)"
    and evs: "ps_events s' = ps_events s @ map EvSlot (rev es)"
    using assms(1) by (auto simp: moves_def)
  let ?v = "(limiter_view ls s)\<lparr>ls_clock := ps_clock s + (ps_clock s' - ps_clock s)\<rparr>"
  have "lsys_step (limiter_view ls s) ?v"
    using lsys_step.tick [of "ps_clock s' - ps_clock s" "limiter_view ls s"] assms(3) by simp
  moreover have "lsys_step ?v (?v\<lparr>ls_limiter := ps_limiter s', ls_pcs := (ls_pcs ?v)[i := cg_pc l'], ls_log := es @ ls_log ?v\<rparr>)"
    by (rule lsys_step.thread [where a = a]) (use step assms(2) in simp_all)
  moreover have "?v\<lparr>ls_limiter := ps_limiter s', ls_pcs := (ls_pcs ?v)[i := cg_pc l'], ls_log := es @ ls_log ?v\<rparr>
      = limiter_view (ls[i := l']) s'"
    using evs by (simp add: limiter_view_def map_update)
  ultimately show ?thesis by auto
qed

lemma view_acts:
  assumes "acts E (ls ! i) s s' l'" "i < length ls" "ps_clock s \<le> ps_clock s'"
  shows "lsys_step (limiter_view ls s) (limiter_view (ls[i := l']) s')"
proof -
  have "map cg_pc (ls[i := l']) = map cg_pc ls" using assms(1,2) by (simp add: acts_def map_update list_update_same_conv)
  moreover have "slot_log (ps_events s') = slot_log (ps_events s)" using assms(1) by (auto simp: acts_def)
  ultimately have "limiter_view (ls[i := l']) s' = (limiter_view ls s)\<lparr>ls_clock := ps_clock s + (ps_clock s' - ps_clock s)\<rparr>"
    using assms(1) by (simp add: limiter_view_def acts_def)
  then show ?thesis using lsys_step.tick [of "ps_clock s' - ps_clock s" "limiter_view ls s"] assms(3) by simp
qed

lemma lsys_step_all:
  assumes "lsys_step v v'" "tokens_inv v" "0 \<le> g \<and> g \<le> max_int64 \<longrightarrow> times_inv v" "hl_min_interval (ls_limiter v) = g"
  shows "tokens_inv v' \<and> (0 \<le> g \<and> g \<le> max_int64 \<longrightarrow> times_inv v') \<and> hl_min_interval (ls_limiter v') = g
    \<and> hl_max_parallel (ls_limiter v') = hl_max_parallel (ls_limiter v)"
  using assms lsys_step_tokens [OF assms(1)] lsys_step_times [OF assms(1)] lsys_step_config [OF assms(1)] by simp

lemma cap_stable:
  assumes inv: "cap_inv E ls s" and i: "i < length ls" and step: "cap_guarantee E (ls ! i) s s' l'"
  shows "cap_inv E (ls[i := l']) s'"
proof -
  let ?v = "limiter_view ls s" and ?v' = "limiter_view (ls[i := l']) s'" and ?g = "host_gap_of E"
  have ok: "state_ok E s" "trace_ok E (ps_events s)" "tokens_inv ?v" "0 \<le> ?g \<and> ?g \<le> max_int64 \<longrightarrow> times_inv ?v"
    "hl_min_interval (ps_limiter s) = ?g" "1 \<le> hl_max_parallel (ps_limiter s)"
    using inv by (simp_all add: cap_inv_def)
  have did: "moves (ls ! i) s s' l' \<or> acts E (ls ! i) s s' l'" "ps_clock s \<le> ps_clock s'"
    "ps_wg s' + of_bool (cg_job (ls ! i)) + length (ps_spawn s) = ps_wg s + of_bool (cg_job l') + length (ps_spawn s')"
    "prefix (cg_seen l') (ps_events s')" "state_ok E s'"
    using step cap_inv_own [OF inv i] ok(1) by (auto simp: cap_guarantee_def)
  have view: "tokens_inv ?v' \<and> (0 \<le> ?g \<and> ?g \<le> max_int64 \<longrightarrow> times_inv ?v') \<and> hl_min_interval (ls_limiter ?v') = ?g
      \<and> hl_max_parallel (ls_limiter ?v') = hl_max_parallel (ls_limiter ?v)"
    using did(1)
  proof
    assume "moves (ls ! i) s s' l'"
    then obtain v where v: "lsys_step ?v v" "lsys_step v ?v'" using view_moves [OF _ i did(2)] by blast
    from lsys_step_all [OF v(1) ok(3,4)] ok(5) have 1: "tokens_inv v \<and> (0 \<le> ?g \<and> ?g \<le> max_int64 \<longrightarrow> times_inv v)
        \<and> hl_min_interval (ls_limiter v) = ?g \<and> hl_max_parallel (ls_limiter v) = hl_max_parallel (ls_limiter ?v)" by simp
    from lsys_step_all [OF v(2)] 1 show ?thesis by simp
  next
    assume "acts E (ls ! i) s s' l'"
    from lsys_step_all [OF view_acts [OF this i did(2)] ok(3,4)] ok(5) show ?thesis by simp
  qed
  have opens: "starts h (slot_log (ps_events s')) = ends h (slot_log (ps_events s'))
      + length (filter (open_at h) (map cg_pc (ls[i := l'])))" for h
  proof -
    have before: "starts h (slot_log (ps_events s)) = ends h (slot_log (ps_events s)) + length (filter (open_at h) (map cg_pc ls))"
      using inv by (simp add: cap_inv_def)
    have count: "length (filter (open_at h) (map cg_pc (ls[i := l']))) + of_bool (open_at h (cg_pc (ls ! i)))
        = length (filter (open_at h) (map cg_pc ls)) + of_bool (open_at h (cg_pc l'))"
      using length_filter_update [of i "map cg_pc ls" "open_at h" "cg_pc l'"] i by (simp add: map_update)
    show ?thesis using did(1)
    proof
      assume "moves (ls ! i) s s' l'"
      then obtain a es where "thread_step a (ps_clock s') (cg_pc (ls ! i)) (ps_limiter s) = Some (cg_pc l', ps_limiter s', es)"
        and evs: "ps_events s' = ps_events s @ map EvSlot (rev es)" by (auto simp: moves_def)
      from open_counts(1) [OF this(1), of h] show ?thesis using before count by (simp add: evs)
    next
      assume "acts E (ls ! i) s s' l'"
      then have "cg_pc l' = cg_pc (ls ! i)" "slot_log (ps_events s') = slot_log (ps_events s)" by (auto simp: acts_def)
      then show ?thesis using before count by simp
    qed
  qed
  have grows: "\<exists>es. ps_events s' = ps_events s @ es" using did(1) by (auto simp: moves_def acts_def)
  have trace: "trace_ok E (ps_events s')"
    using did(1) ok(2) slot_events_good trace_ok_snoc by (auto simp: moves_def acts_def)
  have seen: "prefix (cg_seen l) (ps_events s')" if l: "l \<in> set (ls[i := l'])" for l
  proof (cases "l = l'")
    case False
    then have "l \<in> set ls" using l by (meson insert_iff set_update_subset_insert subsetD)
    then show ?thesis using inv grows by (auto simp: cap_inv_def intro: prefix_prefix)
  qed (use did(4) in simp)
  have "ps_wg s' = length (filter cg_job (ls[i := l'])) + length (ps_spawn s')"
    using did(3) inv length_filter_update [OF i, of cg_job l'] by (simp add: cap_inv_def)
  then show ?thesis using did(5) trace view opens seen ok(6) by (simp add: cap_inv_def)
qed

interpretation cap: ghost_pool "cap_contract E" "cap_inv E" for E
proof (unfold_locales, simp_all only: cap_contract_simps)
  show "state_ok E s" if "cap_inv E ls s" for ls s using that by (simp add: cap_inv_def)
  show "cap_inv E (ls[i := l']) s'" if "cap_inv E ls s" "i < length ls" "cap_guarantee E (ls ! i) s s' l'" for ls s i s' l'
    using cap_stable that by blast
qed auto

section \<open>The running adapter\<close>

text \<open>The main goroutine comes back from each turn.\<close>

fun comes_back :: "poller thread \<Rightarrow> bool" where
  "comes_back thread.Idle = True"
| "comes_back (Running p) = True"
| "comes_back _ = False"

lemma step_comes_back: "step_thread th s = Some (th', s') \<Longrightarrow> comes_back th \<Longrightarrow> comes_back th'"
  by (induction th s rule: step_thread.induct) auto

definition cap_ok :: "poller_env \<Rightarrow> cap_sys \<Rightarrow> bool" where
  "cap_ok E S \<longleftrightarrow> cy_threads S \<noteq> [] \<and> comes_back (cy_threads S ! 0) \<and> (\<exists>ls. cap.pool_ok E ls (cy_threads S) (cy_shared S))"

lemma cap_inv_start: "cap_inv E [here pc.Idle False []] (new_controller E t)"
  by (auto simp: cap_inv_def new_controller_def state_ok_def tokens_inv_def times_inv_def new_host_limiter_def host_of_def
      get_host_state_def fresh_host_def)

lemma start_cap_ok: "cap_ok E (start_cap E t)"
  unfolding cap_ok_def
  by (auto simp: start_cap_def cap.pool_ok_def quiet_def cap_inv_start intro!: exI [of _ "[here pc.Idle False []]"])

lemma quiet_ghost: "quiet l \<Longrightarrow> l = here pc.Idle False (cg_seen l)"
  by (cases l) (simp add: quiet_def)

lemma cap_inv_spawn:
  assumes inv: "cap_inv E ls s" and spawn: "ps_spawn s = j # js"
  shows "cap_inv E (ls @ [here pc.Idle True []]) (s\<lparr>ps_spawn := js\<rparr>)"
  using inv spawn by (auto simp: cap_inv_def state_ok_def tokens_inv_def times_inv_def)

lemma cap_inv_flags:
  "cap_inv E ls s \<Longrightarrow> cap_inv E ls (s\<lparr>ps_cancelled := b\<rparr>)" "cap_inv E ls s \<Longrightarrow> cap_inv E ls (s\<lparr>ps_feed_expired := b\<rparr>)"
  by (simp_all add: cap_inv_def state_ok_def limiter_view_def)

lemma cap_step_ok:
  assumes ok: "cap_ok E S" and step: "cap_step E op S = Some S'"
  shows "cap_ok E S'"
proof -
  let ?s = "cy_shared S" and ?ts = "cy_threads S"
  obtain ls where pool: "cap.pool_ok E ls ?ts ?s" and ts: "?ts \<noteq> []" "comes_back (?ts ! 0)" using ok by (auto simp: cap_ok_def)
  have inv: "cap_inv E ls ?s" using pool by (simp add: cap.pool_ok_def)
  have len: "length ls = length ?ts" using cap.pool_ok_length [OF pool] .
  show ?thesis
  proof (cases op)
    case Turn
    then have idle: "?ts ! 0 = thread.Idle" and S': "S' = S\<lparr>cy_threads := ?ts[0 := Running (main_turn E (ps_phase ?s))]\<rparr>"
      using step by (auto simp: cap_step_def Let_def split: if_split_asm thread.split_asm)
    have "quiet (ls ! 0)" using cap.pool_ok_nth [OF pool, of 0] idle ts by simp
    from quiet_ghost [OF this] have "guar (cap_contract E) (ls ! 0) (main_turn E (ps_phase ?s))"
      using keeps_turn [of E "ps_phase ?s"] inv unfolding keeps_def by (metis cap_inv_def state_ok_def)
    then have "cap.pool_ok E (ls[0 := ls ! 0]) (?ts[0 := Running (main_turn E (ps_phase ?s))]) ?s"
      by (intro cap.pool_ok_update [OF pool]) (simp_all add: inv)
    then show ?thesis using S' ts by (auto simp: cap_ok_def)
  next
    case Spawn
    then obtain j js where j: "ps_spawn ?s = j # js"
      and S': "S' = \<lparr>cy_shared = ?s\<lparr>ps_spawn := js\<rparr>, cy_threads = ?ts @ [Finishing (job_prog E j)]\<rparr>"
      using step by (auto simp: cap_step_def Let_def split: list.split_asm)
    have "job_ok E j" using inv j by (simp add: cap_inv_def state_ok_def)
    then have "thread_ok (cap_contract E) (here pc.Idle True []) (Finishing (job_prog E j))"
      using keeps_job unfolding keeps_def by simp
    then have "cap.pool_ok E (ls @ [here pc.Idle True []]) (?ts @ [Finishing (job_prog E j)]) (?s\<lparr>ps_spawn := js\<rparr>)"
      by (intro cap.pool_ok_append [OF pool] cap_inv_spawn [OF inv j])
    then show ?thesis using S' ts by (auto simp: cap_ok_def nth_append)
  next
    case (Step i)
    then obtain th s' where i: "i < length ?ts" "step_thread (?ts ! i) ?s = Some (th, s')"
      and S': "S' = \<lparr>cy_shared = s', cy_threads = ?ts[i := th]\<rparr>"
      using step by (auto simp: cap_step_def Let_def split: if_split_asm)
    have "comes_back (?ts[i := th] ! 0)" using step_comes_back [OF i(2)] ts(2) i(1) by (cases "i = 0") auto
    then show ?thesis using cap.thread_steps [OF pool i] ts S' by (auto simp: cap_ok_def)
  next
    case CancelProcess
    then have S': "S' = S\<lparr>cy_shared := ?s\<lparr>ps_cancelled := True\<rparr>\<rparr>" using step by (simp add: cap_step_def Let_def)
    then show ?thesis using cap.pool_ok_shared [OF pool cap_inv_flags(1) [OF inv]] ts by (auto simp: cap_ok_def)
  next
    case ExpireFeeds
    then have S': "S' = S\<lparr>cy_shared := ?s\<lparr>ps_feed_expired := True\<rparr>\<rparr>"
      using step by (auto simp: cap_step_def Let_def split: if_split_asm)
    then show ?thesis using cap.pool_ok_shared [OF pool cap_inv_flags(2) [OF inv]] ts by (auto simp: cap_ok_def)
  qed
qed

lemma cap_run_ok: "cap_run E ops S = Some S' \<Longrightarrow> cap_ok E S \<Longrightarrow> cap_ok E S'"
  by (induction ops arbitrary: S) (auto simp: Option.bind_eq_Some_conv dest: cap_step_ok)

lemma cap_run_inv:
  assumes "cap_run E ops (start_cap E t) = Some S"
  obtains ls where "cap.pool_ok E ls (cy_threads S) (cy_shared S)" "cap_inv E ls (cy_shared S)"
    "cy_threads S \<noteq> []" "comes_back (cy_threads S ! 0)"
  using cap_run_ok [OF assms start_cap_ok] that by (auto simp: cap_ok_def cap.pool_ok_def)

lemma cap_run_trace:
  assumes "cap_run E ops (start_cap E t) = Some S" "ps_events (cy_shared S) = a @ e # b"
  shows "good_event E a e"
  using cap_run_inv [OF assms(1)] assms(2) unfolding cap_inv_def trace_ok_def by metis

section \<open>No deadlock\<close>

text \<open>While anyone is in the limiter or counted, someone is not blocked.\<close>

lemma someone_moves:
  assumes inv: "cap_inv E ls s" and l: "l \<in> set ls" "\<not> quiet l"
  shows "\<exists>j < length ls. \<not> quiet (ls ! j) \<and> \<not> blocked (cg_pc (ls ! j)) (cg_job (ls ! j)) s"
proof -
  have tok: "tokens_inv (limiter_view ls s)" "1 \<le> hl_max_parallel (ps_limiter s)" using inv by (simp_all add: cap_inv_def)
  have found: ?thesis if "q \<in> set ls" "\<not> quiet q" "\<not> blocked (cg_pc q) (cg_job q) s" for q
    using that by (metis in_set_conv_nth)
  consider (holder) q h where "q \<in> set ls" "holds h (cg_pc q)" "\<forall>h. cg_pc q \<noteq> AtGlobal h"
    | (global) q h where "q \<in> set ls" "cg_pc q = AtGlobal h" "\<forall>q \<in> set ls. (\<exists>h. holds h (cg_pc q)) \<longrightarrow> (\<exists>h. cg_pc q = AtGlobal h)"
    | (waiting) "\<forall>q \<in> set ls. \<forall>h. \<not> holds h (cg_pc q)"
    by blast
  then show ?thesis
  proof cases
    case holder
    then show ?thesis by (intro found [of q]; cases "cg_pc q"; auto simp: quiet_def)
  next
    case global
    have "filter (in_flight \<circ> cg_pc) ls = []"
      using global(3) by (fastforce simp: filter_empty_conv elim: in_flight.elims)
    then have "hl_global (ps_limiter s) = 0" using tok(1) by (simp add: tokens_inv_def filter_map)
    then show ?thesis using global(1,2) tok(2) by (intro found [of q]) (simp_all add: quiet_def)
  next
    case waiting
    show ?thesis
    proof (cases "cg_pc l")
      case Idle
      then show ?thesis using l by (intro found [of l]) (auto simp: quiet_def)
    next
      case (AtHost h)
      have "filter (holds h \<circ> cg_pc) ls = []" using waiting by (simp add: filter_empty_conv)
      then have "hs_sem (host_of (ps_limiter s) h) = 0" using tok(1) by (simp add: tokens_inv_def filter_map)
      then show ?thesis using AtHost l by (intro found [of l]) (auto simp: quiet_def)
    qed (use waiting l(1) in force)+
  qed
qed

lemma blocked_waits:
  assumes inv: "cap_inv E ls s" and i: "i < length ls" "blocked (cg_pc (ls ! i)) (cg_job (ls ! i)) s"
  shows "ps_spawn s \<noteq> [] \<or> (\<exists>l \<in> set ls. \<not> quiet l)"
proof (cases "quiet (ls ! i)")
  case True
  then have "0 < ps_wg s" using i(2) by (simp add: quiet_def)
  then have "ps_spawn s \<noteq> [] \<or> filter cg_job ls \<noteq> []" using inv by (auto simp: cap_inv_def)
  then show ?thesis by (auto simp: filter_empty_conv quiet_def)
qed (use i(1) in auto)

section \<open>Properties\<close>

text \<open>C29: However the goroutines of the CAP adapter are interleaved, cancelled and answered, a poll of a feed carries only
  an \<open>ETag\<close> and a modification date that came with a response to an earlier poll of that feed which was parsed without
  error and whose index the core has accepted since: nothing the core has not got is hidden by an answer of 304.\<close>

theorem validators_of_delivered_feeds:
  assumes "cap_run E ops (start_cap E t) = Some S" "ps_events (cy_shared S) = before @ EvFeedRequest url etag lm # after"
  shows "(etag \<noteq> '''' \<longrightarrow> (\<exists>h. hget h ''ETag'' = etag \<and> delivered E before url h))
    \<and> (lm \<noteq> '''' \<longrightarrow> (\<exists>h. hget h ''Last-Modified'' = lm \<and> delivered E before url h))"
  using cap_run_trace [OF assms] by (auto simp: validator_ok_def)

text \<open>The host a request goes to.\<close>

fun requested_host :: "poller_env \<Rightarrow> cap_event \<Rightarrow> string option" where
  "requested_host E (EvRegistryRequest _ _) = Some (ce_host_from_url E (cc_raa_url (ce_config E)))"
| "requested_host E (EvFeedRequest url _ _) = Some (ce_host_from_url E url)"
| "requested_host E (EvAlertRequest url) = Some (ce_host_from_url E url)"
| "requested_host E _ = None"

text \<open>C30: Every request to a publisher, be it for the registry, a feed or an alert, is made while the goroutine holds the one
  slot of that host: slots of a host are never open twice, and each is taken at least the configured interval after
  every earlier one of the host was given back.\<close>

theorem requests_within_slots:
  assumes "cap_run E ops (start_cap E t) = Some S" "0 \<le> cc_host_min_interval (ce_config E)"
    "cc_host_min_interval (ce_config E) \<le> max_int64"
  shows "(\<forall>before e after h. ps_events (cy_shared S) = before @ e # after \<and> requested_host E e = Some h \<longrightarrow> slot_open h before)
    \<and> (\<forall>h. starts h (slot_log (ps_events (cy_shared S))) \<le> ends h (slot_log (ps_events (cy_shared S))) + 1)
    \<and> spaced (cc_host_min_interval (ce_config E)) (rev (slot_log (ps_events (cy_shared S))))"
proof -
  let ?evs = "ps_events (cy_shared S)"
  have inside: "slot_open h before" if "?evs = before @ e # after" "requested_host E e = Some h" for before e after h
    using cap_run_trace [OF assms(1) that(1)] that(2) by (cases e) auto
  obtain ls where inv: "cap_inv E ls (cy_shared S)" using cap_run_inv [OF assms(1)] by blast
  have "starts h (slot_log ?evs) \<le> ends h (slot_log ?evs) + 1" for h
  proof -
    have "length (filter (open_at h) (map cg_pc ls)) \<le> length (filter (holds h) (map cg_pc ls))"
      by (induction ls) (auto dest: open_holds)
    moreover have "length (filter (holds h) (map cg_pc ls)) \<le> 1" using inv by (simp add: cap_inv_def tokens_inv_def)
    ultimately show ?thesis using inv by (simp add: cap_inv_def)
  qed
  moreover have "times_inv (limiter_view ls (cy_shared S))" "hl_min_interval (ps_limiter (cy_shared S)) = host_gap_of E"
    using inv assms(2,3) by (simp_all add: cap_inv_def)
  then have "spaced (host_gap_of E) (rev (slot_log ?evs))" by (simp add: times_inv_def)
  ultimately show ?thesis using inside by blast
qed

text \<open>C31: Every post of alerts carries between one and ten results and says how many; their raw texts come to at most 16 MiB
  unless a single result is larger; and a result holds an alert only if it was parsed from a successful response of at
  most 8 MiB, whose text it carries.\<close>

theorem alert_posts_bounded:
  assumes "cap_run E ops (start_cap E t) = Some S" "EvPost path meta (Alerts rs) ok \<in> set (ps_events (cy_shared S))"
  shows "1 \<le> length rs \<and> length rs \<le> 10 \<and> pm_feature_count meta = length rs
    \<and> (sum_list (map result_bytes rs) \<le> 16 * 2 ^ 20 \<or> length rs = 1)
    \<and> (\<forall>r \<in> set rs. ar_cap r \<noteq> None \<longrightarrow> 200 \<le> ar_http_status r \<and> ar_http_status r < 300
         \<and> (\<exists>body. length body \<le> 8 * 2 ^ 20 \<and> ar_cap r = res_cap (parse_cap (ce_cap E) body)
               \<and> ar_raw_xml r = sanitize_raw_xml E (res_raw_xml (parse_cap (ce_cap E) body))))"
proof -
  obtain before after where "ps_events (cy_shared S) = before @ EvPost path meta (Alerts rs) ok # after"
    using assms(2) by (auto simp: in_set_conv_decomp)
  from cap_run_trace [OF assms(1) this] have "good_batch E rs" "pm_feature_count meta = length rs" by auto
  then show ?thesis
    unfolding good_batch_def good_result_def alertBatchSize_def alertBatchMaxBytes_def maxBodyBytes_def total_bytes_def list_all_iff
    by auto
qed

text \<open>C32: The goroutines of the CAP adapter never deadlock: until the main loop has ended and all goroutines have returned, some
  goroutine can take a step, a started one can begin, or the main loop can go on.\<close>

theorem cap_never_deadlocks:
  assumes "cap_run E ops (start_cap E t) = Some S"
    "ps_phase (cy_shared S) \<noteq> Stopped \<or> (\<exists>th \<in> set (cy_threads S). th \<noteq> thread.Idle \<and> th \<noteq> Exited)"
  shows "cap_step E Turn S \<noteq> None \<or> cap_step E Spawn S \<noteq> None \<or> (\<exists>i. cap_step E (Step i) S \<noteq> None)"
proof (rule ccontr)
  assume none: "\<not> ?thesis"
  let ?s = "cy_shared S" and ?ts = "cy_threads S"
  obtain ls where pool: "cap.pool_ok E ls ?ts ?s" and inv: "cap_inv E ls ?s" and ts: "?ts \<noteq> []" "comes_back (?ts ! 0)"
    using cap_run_inv [OF assms(1)] .
  note len = cap.pool_ok_length [OF pool]
  have spawn: "ps_spawn ?s = []" using none by (auto simp: cap_step_def Let_def split: list.split_asm)
  have halted: "step_thread (?ts ! i) ?s = None" if "i < length ?ts" for i
  proof -
    have "cap_step E (Step i) S = None" using none by blast
    then show ?thesis using that by (simp add: cap_step_def Let_def)
  qed
  have none_busy: "quiet l" if l: "l \<in> set ls" for l
  proof (rule ccontr)
    assume "\<not> quiet l"
    then obtain j where "j < length ls" "\<not> quiet (ls ! j)" "\<not> blocked (cg_pc (ls ! j)) (cg_job (ls ! j)) ?s"
      using someone_moves [OF inv l] by blast
    then show False using cap.busy_moves [OF pool, of j] halted len by simp
  qed
  have returned: "?ts ! i = thread.Idle \<or> ?ts ! i = Exited" if i: "i < length ?ts" for i
  proof (cases "?ts ! i")
    case (Running p)
    then have "blocked (cg_pc (ls ! i)) (cg_job (ls ! i)) ?s" using cap.halted_blocks [OF pool i _ halted [OF i]] by simp
    then show ?thesis using blocked_waits [OF inv] i len spawn none_busy by auto
  next
    case (Finishing p)
    then have "blocked (cg_pc (ls ! i)) (cg_job (ls ! i)) ?s" using cap.halted_blocks [OF pool i _ halted [OF i]] by simp
    then show ?thesis using blocked_waits [OF inv] i len spawn none_busy by auto
  qed simp_all
  then have "\<not> (\<exists>th \<in> set ?ts. th \<noteq> thread.Idle \<and> th \<noteq> Exited)" by (metis in_set_conv_nth)
  then have "ps_phase ?s \<noteq> Stopped" using assms(2) by blast
  moreover have "?ts ! 0 = thread.Idle" using returned [of 0] ts by (cases "?ts ! 0") auto
  ultimately show False using none by (simp add: cap_step_def Let_def)
qed

section \<open>A run\<close>

text \<open>
  A publisher with one feed and one alert.  The feed is polled, its index accepted; the alert is fetched, and the core
  refuses it three times; the next cycle polls the feed with the \<open>ETag\<close> of the first response.
\<close>

definition demo_alert :: raw_alert where
  "demo_alert = \<lparr>rx_identifier = ''a'', rx_sender = ''s'', rx_sent = '''', rx_status = '''', rx_msg_type = '''', rx_source = None, rx_scope = '''',
     rx_restriction = None, rx_addresses = None, rx_code = [], rx_note = None, rx_references = None, rx_incidents = None, rx_info = []\<rparr>"

definition demo_poller :: poller_env where
  "demo_poller =
     \<lparr>ce_config = \<lparr>cc_raa_url = ''r'', cc_poll_interval = 300 * 10 ^ 9, cc_registry_interval = 86400 * 10 ^ 9,
        cc_host_min_interval = 2 * 10 ^ 9, cc_max_parallel_hosts = 1, cc_contact_email = ''''\<rparr>,
      ce_http = (\<lambda>_. HttpResponse 200 [''ETag'' \<mapsto> ''v1''] ''<rss/>'' False),
      ce_core = (\<lambda>_. Response 200 ''{}'' False),
      ce_decode_ack = (\<lambda>_. Some \<lparr>ack_received = Some 0, ack_deduped = Some 0, ack_written = Some 0, ack_dropped = Some 0, ack_message = Some ''''\<rparr>),
      ce_decode_feeds = (\<lambda>_. Some [\<lparr>fd_url = ''u'', fd_poll_interval_seconds = 0\<rparr>]),
      ce_decode_pending = (\<lambda>_. Some [\<lparr>pe_cap_url = ''c'', pe_feed_url = ''u''\<rparr>]),
      ce_bad_url = (\<lambda>u. if u = ''r'' then Some ''bad'' else None),
      ce_host_from_url = (\<lambda>_. ''h''),
      ce_feed = \<lparr>fx_root = (\<lambda>_ _. Root ''rss''), fx_items = (\<lambda>_ _ _. Inr []), fx_item_error = (\<lambda>_ _ _. ''''),
        fx_parse_url = (\<lambda>_. None), fx_resolve = (\<lambda>_ u. u)\<rparr>,
      ce_raa = (\<lambda>_. None),
      ce_cap = \<lparr>cx_root = (\<lambda>_ _. Inr \<lparr>xs_space = '''', xs_local = ''alert'', xs_attrs = []\<rparr>), cx_alert = (\<lambda>_ _. Inr demo_alert), cx_charset = (\<lambda>_ _. None)\<rparr>,
      ce_root_end = (\<lambda>_. None),
      ce_delta = (\<lambda>_. 1),
      ce_choice = (\<lambda>_. False)\<rparr>"

definition demo_ops :: "cap_op list" where
  "demo_ops = [Turn] @ replicate 16 (Step 0) @ [Spawn] @ replicate 19 (Step 1) @ replicate 4 (Step 0) @ [Step 1] @ [Turn]
     @ replicate 6 (Step 0) @ [Spawn] @ replicate 15 (Step 2) @ [Turn] @ replicate 3 (Step 0) @ [Turn] @ replicate 13 (Step 0) @ [Turn]
     @ replicate 5 (Step 0) @ [Turn] @ replicate 16 (Step 0) @ [Spawn] @ replicate 11 (Step 3)"

text \<open>What the run shows: the second poll, and the alert that was posted.\<close>

fun sends_validator :: "cap_event \<Rightarrow> bool" where
  "sends_validator (EvFeedRequest url etag lm) = (url = ''u'' \<and> etag = ''v1'')"
| "sends_validator _ = False"

fun posts_alert :: "cap_event \<Rightarrow> bool" where
  "posts_alert (EvPost path meta (Alerts rs) ok) = (\<not> ok \<and> list_ex (\<lambda>r. case ar_cap r of None \<Rightarrow> False | Some _ \<Rightarrow> True) rs)"
| "posts_alert _ = False"

text \<open>Evaluation: programs are unfolded at their head only, and a step is taken once its action is evaluated.\<close>

lemma demo_congs:
  "act f1 k1 = act f1 k1"
  "upd f2 k2 = upd f2 k2"
  "await f3 k3 = await f3 k3"
  "now_c E4 k4 = now_c E4 k4"
  "check_ctx c5 k5 = check_ctx c5 k5"
  "wait_timer E6 c6 d6 k6 = wait_timer E6 c6 d6 k6"
  "global_wait E7 c7 h7 k7 = global_wait E7 c7 h7 k7"
  "host_sleep E8 c8 h8 p8 k8 = host_sleep E8 c8 h8 p8 k8"
  "CapController.host_limiter_wait E9 c9 h9 k9 = CapController.host_limiter_wait E9 c9 h9 k9"
  "host_limiter_done E10 h10 k10 = host_limiter_done E10 h10 k10"
  "core_post E11 p11 m11 fs11 k11 = core_post E11 p11 m11 fs11 k11"
  "send_attempts E12 c12 p12 m12 fs12 n12 b12 k12 = send_attempts E12 c12 p12 m12 fs12 n12 b12 k12"
  "send_with_retry E13 c13 p13 m13 fs13 k13 = send_with_retry E13 c13 p13 m13 fs13 k13"
  "send_registry E14 c14 m14 fs14 k14 = send_registry E14 c14 m14 fs14 k14"
  "send_feed_index E15 c15 m15 fs15 k15 = send_feed_index E15 c15 m15 fs15 k15"
  "send_alerts E16 c16 m16 fs16 k16 = send_alerts E16 c16 m16 fs16 k16"
  "fetch_feeds E17 k17 = fetch_feeds E17 k17"
  "fetch_pending E18 k18 = fetch_pending E18 k18"
  "http_get E19 ev19 k19 = http_get E19 ev19 k19"
  "note_raa_fetch E20 k20 = note_raa_fetch E20 k20"
  "ingest_registry E21 a21 b21 c21 d21 k21 = ingest_registry E21 a21 b21 c21 d21 k21"
  "poll_raa E22 k22 = poll_raa E22 k22"
  "post_feed_failure E23 a23 b23 c23 d23 e23 k23 = post_feed_failure E23 a23 b23 c23 d23 e23 k23"
  "ingest_feed E24 a24 b24 c24 d24 e24 k24 = ingest_feed E24 a24 b24 c24 d24 e24 k24"
  "feed_unreachable E25 a25 b25 c25 d25 e25 k25 = feed_unreachable E25 a25 b25 c25 d25 e25 k25"
  "feed_not_modified E26 a26 b26 c26 d26 e26 k26 = feed_not_modified E26 a26 b26 c26 d26 e26 k26"
  "poll_single_feed E27 a27 b27 c27 k27 = poll_single_feed E27 a27 b27 c27 k27"
  "wg_wait k28 = wg_wait k28"
  "poll_feeds_cycle E29 a29 k29 = poll_feeds_cycle E29 a29 k29"
  "fetch_single_cap E30 a30 b30 k30 = fetch_single_cap E30 a30 b30 k30"
  "push_result E31 a31 k31 = push_result E31 a31 k31"
  "send_alerts_batch E32 a32 k32 = send_alerts_batch E32 a32 k32"
  "receive k33 = receive k33"
  "cancel_drain k34 = cancel_drain k34"
  by (rule refl)+

lemma step_prog:
  "f s = (x, s') \<Longrightarrow> step_thread (Running (act f k)) s = Some (Running (k x), s')"
  "f s = (x, s') \<Longrightarrow> step_thread (Finishing (act f k)) s = Some (Finishing (k x), s')"
  "u s = s' \<Longrightarrow> step_thread (Running (upd u p)) s = Some (Running p, s')"
  "u s = s' \<Longrightarrow> step_thread (Finishing (upd u p)) s = Some (Finishing p, s')"
  "g s = Some (x, s') \<Longrightarrow> step_thread (Running (await g k)) s = Some (Running (k x), s')"
  "g s = Some (x, s') \<Longrightarrow> step_thread (Finishing (await g k)) s = Some (Finishing (k x), s')"
  by (simp_all add: act_def upd_def await_def)

lemma step_decided:
  "f s = (True, s') \<Longrightarrow> step_thread (Running (act f k)) s = Some (Running (k True), s')"
  "f s = (False, s') \<Longrightarrow> step_thread (Running (act f k)) s = Some (Running (k False), s')"
  "f s = (True, s') \<Longrightarrow> step_thread (Finishing (act f k)) s = Some (Finishing (k True), s')"
  "f s = (False, s') \<Longrightarrow> step_thread (Finishing (act f k)) s = Some (Finishing (k False), s')"
  by (simp_all add: act_def)

lemma replicate_steps: "replicate (numeral n) x = x # replicate (pred_numeral n) x" by (simp add: numeral_eq_Suc)

lemmas demo_defs = now_c_def check_ctx_def wait_timer_def global_wait_def host_sleep_def host_limiter_wait_def host_limiter_done_def core_post_def send_with_retry_def send_registry_def send_feed_index_def send_alerts_def fetch_feeds_def fetch_pending_def http_get_def note_raa_fetch_def ingest_registry_def poll_raa_def post_feed_failure_def ingest_feed_def feed_unreachable_def feed_not_modified_def poll_single_feed_def wg_wait_def poll_feeds_cycle_def fetch_single_cap_def push_result_def send_alerts_batch_def receive_def cancel_drain_def
  execute_cycle_def main_turn_def job_prog_def drain_alerts_def collect_def discard_def rest_def add_result_def next_phase_def wg_done_def


lemma demo_fields:
  "ce_config demo_poller = \<lparr>cc_raa_url = ''r'', cc_poll_interval = 300 * 10 ^ 9, cc_registry_interval = 86400 * 10 ^ 9,
        cc_host_min_interval = 2 * 10 ^ 9, cc_max_parallel_hosts = 1, cc_contact_email = ''''\<rparr>"
  "ce_http demo_poller n = HttpResponse 200 [''ETag'' \<mapsto> ''v1''] ''<rss/>'' False"
  "ce_core demo_poller n = Response 200 ''{}'' False"
  "ce_decode_feeds demo_poller x = Some [\<lparr>fd_url = ''u'', fd_poll_interval_seconds = 0\<rparr>]"
  "ce_decode_pending demo_poller x = Some [\<lparr>pe_cap_url = ''c'', pe_feed_url = ''u''\<rparr>]"
  "ce_bad_url demo_poller u = (if u = ''r'' then Some ''bad'' else None)"
  "ce_host_from_url demo_poller u = ''h''"
  "ce_delta demo_poller n = 1" "ce_choice demo_poller n = False" "ce_root_end demo_poller x = None"
  by (simp_all add: demo_poller_def)

lemma demo_values:
  "ack_ok demo_poller (Response 200 ''{}'' False) n \<longleftrightarrow> n = 0"
  "parse_feed (ce_feed demo_poller) ''u'' ''<rss/>'' = \<lparr>fe_format = ''rss'', fe_features = [], fe_error = ''''\<rparr>"
  "parse_cap (ce_cap demo_poller) ''<rss/>'' = \<lparr>res_cap = Some (build_cap_alert '''' demo_alert), res_error = None, res_raw_xml = Some ''<rss/>''\<rparr>"
  "read_limited ''<rss/>'' False maxBodyBytes = Inr ''<rss/>''"
  "compute_backoff \<lparr>now = 0, parse_time = (\<lambda>_. None)\<rparr> (\<lambda>_. None) 0 minCoreBackoff maxCoreBackoff = 200000000"
  "compute_backoff \<lparr>now = 0, parse_time = (\<lambda>_. None)\<rparr> (\<lambda>_. None) 200000000 minCoreBackoff maxCoreBackoff = 400000000"
  subgoal
  proof -
    have "trim_space ''{}'' = ''{}''" by code_simp
    then show ?thesis
      by (cases n) (simp_all add: ack_ok_def send_def demo_poller_def validate_ack_def read_limited_def maxResponseBodySize_def Let_def s64_def)
  qed
  subgoal by code_simp
  subgoal by code_simp
  subgoal by code_simp
  subgoal by code_simp
  subgoal by code_simp
  done

lemma three_retries: "maxCoreRetries = Suc (Suc (Suc 0))" by (simp add: maxCoreRetries_def)

lemmas demo_eval = start_cap_def new_controller_def cap_step_def Let_def step_prog step_decided demo_defs demo_fields demo_values
  pass_time_def tick_on_def emit_event_def limiter_op_def acquire_or_cancel_def wake_or_cancel_def op_defs
  get_host_state_def host_of_def set_host_def fresh_host_def wait_duration_def host_wait_def time_sub_def new_host_limiter_def
  decode_list_def due_feeds_def go_jobs_def feed_deadline_def set_due_def feed_interval_def store_feed_def hget_def blank_meta_def
  alert_of_response_def result_bytes_def alertBatchSize_def alertBatchMaxBytes_def three_retries max_int64_def s64_def signed_divide_int_def

lemma demo_cap_run:
  "\<exists>S. cap_run demo_poller demo_ops (start_cap demo_poller 0) = Some S
     \<and> list_ex sends_validator (ps_events (cy_shared S)) \<and> list_ex posts_alert (ps_events (cy_shared S))
     \<and> (case cy_threads S ! 0 of Running _ \<Rightarrow> True | _ \<Rightarrow> False)"
  by (simp add: demo_ops_def demo_eval replicate_steps sanitize_raw_xml_def cong: demo_congs)

theorem validators_of_delivered_feeds_witness:
  "\<exists>S before after lm. cap_run demo_poller demo_ops (start_cap demo_poller 0) = Some S
     \<and> ps_events (cy_shared S) = before @ EvFeedRequest ''u'' ''v1'' lm # after
     \<and> (\<exists>h. hget h ''ETag'' = ''v1'' \<and> delivered demo_poller before ''u'' h)"
proof -
  obtain S where S: "cap_run demo_poller demo_ops (start_cap demo_poller 0) = Some S"
    "list_ex sends_validator (ps_events (cy_shared S))" using demo_cap_run by blast
  then obtain e where "e \<in> set (ps_events (cy_shared S))" "sends_validator e" by (auto simp: list_ex_iff)
  moreover from this(2) obtain lm where "e = EvFeedRequest ''u'' ''v1'' lm" by (cases e) auto
  ultimately obtain before after where split: "ps_events (cy_shared S) = before @ EvFeedRequest ''u'' ''v1'' lm # after"
    by (auto simp: in_set_conv_decomp)
  then show ?thesis using S(1) validators_of_delivered_feeds [OF S(1) split] by auto
qed

theorem requests_within_slots_witness:
  "\<exists>S. cap_run demo_poller demo_ops (start_cap demo_poller 0) = Some S
     \<and> spaced (2 * 10 ^ 9) (rev (slot_log (ps_events (cy_shared S))))"
proof -
  obtain S where S: "cap_run demo_poller demo_ops (start_cap demo_poller 0) = Some S" using demo_cap_run by blast
  have "spaced (2 * 10 ^ 9) (rev (slot_log (ps_events (cy_shared S))))"
    using requests_within_slots [OF S] by (simp add: demo_fields max_int64_def)
  then show ?thesis using S by blast
qed

theorem alert_posts_bounded_witness:
  "\<exists>S (rs :: alert_result list) r body. cap_run demo_poller demo_ops (start_cap demo_poller 0) = Some S \<and> length rs \<le> 10 \<and> r \<in> set rs
     \<and> ar_cap r \<noteq> None \<and> ar_cap r = res_cap (parse_cap (ce_cap demo_poller) body)"
proof -
  obtain S where S: "cap_run demo_poller demo_ops (start_cap demo_poller 0) = Some S"
    "list_ex posts_alert (ps_events (cy_shared S))" using demo_cap_run by blast
  then obtain e where e: "e \<in> set (ps_events (cy_shared S))" "posts_alert e" by (auto simp: list_ex_iff)
  then obtain path meta rs ok where post: "e = EvPost path meta (Alerts rs) ok" by (cases e rule: posts_alert.cases) auto
  then obtain r where r: "r \<in> set rs" "ar_cap r \<noteq> None" using e(2) by (auto simp: list_ex_iff split: option.splits)
  then obtain body where "length rs \<le> 10" "ar_cap r = res_cap (parse_cap (ce_cap demo_poller) body)"
    using alert_posts_bounded [OF S(1) e(1) [unfolded post]] r by blast
  then show ?thesis using S(1) r by (intro exI [of _ S] exI [of _ rs] exI [of _ r] exI [of _ body] conjI)
qed

theorem cap_never_deadlocks_witness:
  "\<exists>S. cap_run demo_poller demo_ops (start_cap demo_poller 0) = Some S
     \<and> (cap_step demo_poller Turn S \<noteq> None \<or> cap_step demo_poller Spawn S \<noteq> None \<or> (\<exists>i. cap_step demo_poller (Step i) S \<noteq> None))"
proof -
  obtain S where S: "cap_run demo_poller demo_ops (start_cap demo_poller 0) = Some S"
    "case cy_threads S ! 0 of Running _ \<Rightarrow> True | _ \<Rightarrow> False" using demo_cap_run by blast
  have "cy_threads S \<noteq> []" using cap_run_inv [OF S(1)] by blast
  then have "\<exists>th \<in> set (cy_threads S). th \<noteq> thread.Idle \<and> th \<noteq> Exited"
    using S(2) nth_mem [of 0 "cy_threads S"] by (intro bexI [of _ "cy_threads S ! 0"]) (auto split: thread.splits)
  then show ?thesis using S(1) cap_never_deadlocks [OF S(1)] by blast
qed

end
