(* ===== verification/Sequential.thy ===== *)
theory Sequential
  imports Actions Poll CoreClient Go_Time
begin

text \<open>
  What the sequential adapters (NOAA, USGS, GDACS, EMSC) share: one goroutine that asks a publisher over HTTP, posts
  to the core and sleeps, in a state that holds the clock, whether the context has ended, everything that was asked,
  posted and slept, and the adapter's own variables.  The answers, the passing of time and the end of the context are
  functions of the number of the interaction.  An endless loop is given as the action of one of its turns.
\<close>

datatype answer = NoAnswer string
  | Answer (an_status: int) (an_header: header) (an_body: string) (an_broken: bool)

datatype seq_event =
    EvRequest string string string answer \<comment> \<open>address, ETag and modification date sent, and what came back\<close>
  | EvLookup string answer \<comment> \<open>a question to the core\<close>
  | EvPost string poll_meta "string list" bool
  | EvPause int

record seq_env =
  sq_http :: "nat \<Rightarrow> answer"
  sq_core :: "nat \<Rightarrow> http_exchange"
  sq_decode_ack :: "string \<Rightarrow> ack option"
  sq_cancel :: "nat \<Rightarrow> bool"
  sq_woken :: "nat \<Rightarrow> bool" \<comment> \<open>a timer and the end of the context are both ready: which is taken\<close>
  sq_delta :: "nat \<Rightarrow> nat"
  sq_random :: "nat \<Rightarrow> int \<Rightarrow> int"
  sq_parse_time :: "string \<Rightarrow> int option"
  sq_type :: "string \<Rightarrow> string option" \<comment> \<open>the \<open>type\<close> of a JSON object, empty when missing; \<open>None\<close>: it cannot be read\<close>
  sq_features :: "string \<Rightarrow> string list option option" \<comment> \<open>its \<open>features\<close>, which may be missing or null; \<open>None\<close>: cannot be read\<close>

record 'v seq_run =
  rn_tick :: nat
  rn_clock :: int
  rn_cancelled :: bool
  rn_events :: "seq_event list"
  rn_vars :: 'v

definition start_run :: "'v \<Rightarrow> int \<Rightarrow> 'v seq_run" where
  "start_run v t = \<lparr>rn_tick = 0, rn_clock = t, rn_cancelled = False, rn_events = [], rn_vars = v\<rparr>"

definition get_var :: "('v \<Rightarrow> 'a) \<Rightarrow> ('v seq_run, 'a) state" where
  "get_var f = gets (\<lambda>s. f (rn_vars s))"

definition set_var :: "('v \<Rightarrow> 'v) \<Rightarrow> ('v seq_run, unit) state" where
  "set_var f = modify (\<lambda>s. s\<lparr>rn_vars := f (rn_vars s)\<rparr>)"

text \<open>Every interaction takes a tick and some time, and the context may end in it.\<close>

definition pass :: "seq_env \<Rightarrow> 'v seq_run \<Rightarrow> 'v seq_run" where
  "pass E s = s\<lparr>rn_tick := rn_tick s + 1, rn_clock := rn_clock s + int (sq_delta E (rn_tick s)),
     rn_cancelled := rn_cancelled s \<or> sq_cancel E (rn_tick s)\<rparr>"

definition seq_emit :: "seq_event \<Rightarrow> 'v seq_run \<Rightarrow> 'v seq_run" where
  "seq_emit e s = s\<lparr>rn_events := rn_events s @ [e]\<rparr>"

definition ctx_ended :: "seq_env \<Rightarrow> ('v seq_run, bool) state" where
  "ctx_ended E = do { modify (pass E); gets rn_cancelled }"

definition clock_now :: "seq_env \<Rightarrow> ('v seq_run, int) state" where
  "clock_now E = do { modify (pass E); gets rn_clock }"

definition http_do :: "seq_env \<Rightarrow> string \<Rightarrow> string \<Rightarrow> string \<Rightarrow> ('v seq_run, answer) state" where
  "http_do E url etag lm = do {
     x \<leftarrow> gets (\<lambda>s. sq_http E (rn_tick s));
     modify (\<lambda>s. pass E (seq_emit (EvRequest url etag lm x) s));
     ret x
   }"

definition core_lookup :: "seq_env \<Rightarrow> string \<Rightarrow> ('v seq_run, answer) state" where
  "core_lookup E path = do {
     x \<leftarrow> gets (\<lambda>s. sq_http E (rn_tick s));
     modify (\<lambda>s. pass E (seq_emit (EvLookup path x) s));
     ret x
   }"

definition post_core :: "seq_env \<Rightarrow> string \<Rightarrow> poll_meta \<Rightarrow> string list \<Rightarrow> ('v seq_run, bool) state" where
  "post_core E path meta fs = do {
     ok \<leftarrow> gets (\<lambda>s. case send (sq_decode_ack E) (sq_core E (rn_tick s)) of
             Inl _ \<Rightarrow> False | Inr ack \<Rightarrow> validate_ack ack (int (length fs)) = None);
     modify (\<lambda>s. pass E (seq_emit (EvPost path meta fs ok) s));
     ret ok
   }"

text \<open>The wait functions of the adapters: whether the timer fired.\<close>

definition pause :: "seq_env \<Rightarrow> int \<Rightarrow> ('v seq_run, bool) state" where
  "pause E d = do {
     woken \<leftarrow> gets (\<lambda>s. sq_woken E (rn_tick s));
     modify (\<lambda>s. pass E (seq_emit (EvPause d) (s\<lparr>rn_clock := rn_clock s + max 0 d\<rparr>)));
     gets (\<lambda>s. rn_cancelled s \<longrightarrow> woken)
   }"

definition random_below :: "seq_env \<Rightarrow> ('v seq_run, int \<Rightarrow> int) state" where
  "random_below E = do { f \<leftarrow> gets (\<lambda>s. sq_random E (rn_tick s)); modify (pass E); ret f }"

definition clock_at :: "seq_env \<Rightarrow> ('v seq_run, clock_env) state" where
  "clock_at E = do { t \<leftarrow> clock_now E; ret \<lparr>now = t, parse_time = sq_parse_time E\<rparr> }"

text \<open>Delays of the adapters: the next poll, and the next attempt with the backoff it leaves.\<close>

definition next_poll_delay :: "seq_env \<Rightarrow> header \<Rightarrow> int \<Rightarrow> int \<Rightarrow> ('v seq_run, int) state" where
  "next_poll_delay E h floor maxJitter = do {
     c \<leftarrow> clock_at E;
     f \<leftarrow> random_below E;
     ret (jitter (compute_next_poll_delay c h floor) maxJitter f)
   }"

definition retry_delay :: "seq_env \<Rightarrow> header \<Rightarrow> int \<Rightarrow> int \<Rightarrow> int \<Rightarrow> int \<Rightarrow> ('v seq_run, int \<times> int) state" where
  "retry_delay E h previous minBackoff maxBackoff maxJitter = do {
     c \<leftarrow> clock_at E;
     f \<leftarrow> random_below E;
     (let backoff = compute_backoff c h previous minBackoff maxBackoff in ret (backoff, jitter backoff maxJitter f))
   }"

definition rfc3339 :: "int \<Rightarrow> string" where
  "rfc3339 t = format_rfc3339 (t div 10 ^ 9)"

definition seq_meta :: "string \<Rightarrow> int \<Rightarrow> nat \<Rightarrow> nat \<Rightarrow> string \<Rightarrow> bool \<Rightarrow> poll_meta" where
  "seq_meta fetchedAt status n nbytes url backfill =
     \<lparr>pm_fetched_at = fetchedAt, pm_http_status = status, pm_feature_count = n, pm_bytes = nbytes, pm_feed_url = url,
      pm_backfill = backfill, pm_error = '''', pm_format = ''''\<rparr>"

text \<open>Turns of a loop.\<close>

fun turns :: "nat \<Rightarrow> ('v seq_run, unit) state \<Rightarrow> 'v seq_run \<Rightarrow> 'v seq_run" where
  "turns 0 m s = s"
| "turns (Suc n) m s = turns n m (snd (run_state m s))"

lemma turns_keep: "keeps I m \<Longrightarrow> I s \<Longrightarrow> I (turns n m s)"
  by (induction n arbitrary: s) (auto dest: keeps_snd)

section \<open>What the interactions do\<close>

lemma pass_simps [simp]:
  "rn_events (pass E s) = rn_events s" "rn_vars (pass E s) = rn_vars s"
  by (simp_all add: pass_def)

lemma seq_emit_simps [simp]: "rn_events (seq_emit e s) = rn_events s @ [e]" "rn_vars (seq_emit e s) = rn_vars s"
  by (simp_all add: seq_emit_def)

text \<open>
  A property of the trace and the variables, which neither the clock nor the context enters: the weakest preconditions
  of the interactions for it.
\<close>

definition obs :: "(seq_event list \<Rightarrow> 'v \<Rightarrow> bool) \<Rightarrow> 'v seq_run \<Rightarrow> bool" where
  "obs P s \<longleftrightarrow> P (rn_events s) (rn_vars s)"

lemma obs_pass [simp]: "obs P (pass E s) = obs P s"
  by (simp add: obs_def)

text \<open>Whatever an interaction answers, it leaves this of the trace and the variables.\<close>

definition wpo :: "('v seq_run, 'a) state \<Rightarrow> ('a \<Rightarrow> seq_event list \<Rightarrow> 'v \<Rightarrow> bool) \<Rightarrow> seq_event list \<Rightarrow> 'v \<Rightarrow> bool" where
  "wpo m Q evs v \<longleftrightarrow> (\<forall>s. rn_events s = evs \<longrightarrow> rn_vars s = v \<longrightarrow> wp m (\<lambda>x s'. Q x (rn_events s') (rn_vars s')) s)"

lemma wpo_return: "Q x evs v \<Longrightarrow> wpo (ret x) Q evs v"
  by (simp add: wpo_def wp_simps)

lemma wpo_bind: "wpo m (\<lambda>x evs v. wpo (f x) Q evs v) evs v \<Longrightarrow> wpo (State_Monad.bind m f) Q evs v"
  unfolding wpo_def wp_bind by (blast intro: wp_mono)

lemma wpo_mono: "wpo m Q evs v \<Longrightarrow> (\<And>x evs v. Q x evs v \<Longrightarrow> R x evs v) \<Longrightarrow> wpo m R evs v"
  unfolding wpo_def by (blast intro: wp_mono)

lemma wpo_get_var: "Q (f v) evs v \<Longrightarrow> wpo (get_var f) Q evs v"
  by (simp add: wpo_def get_var_def wp_simps)

lemma wpo_set_var: "Q () evs (f v) \<Longrightarrow> wpo (set_var f) Q evs v"
  by (simp add: wpo_def set_var_def wp_simps)

lemma wpo_ctx_ended: "(\<And>b. Q b evs v) \<Longrightarrow> wpo (ctx_ended E) Q evs v"
  by (simp add: wpo_def ctx_ended_def wp_simps)

lemma wpo_clock_now: "(\<And>t. Q t evs v) \<Longrightarrow> wpo (clock_now E) Q evs v"
  by (simp add: wpo_def clock_now_def wp_simps)

lemma wpo_clock_at: "(\<And>t. Q t evs v) \<Longrightarrow> wpo (clock_at E) Q evs v"
  by (simp add: wpo_def clock_at_def clock_now_def wp_simps)

lemma wpo_random_below: "(\<And>f. Q f evs v) \<Longrightarrow> wpo (random_below E) Q evs v"
  by (simp add: wpo_def random_below_def wp_simps)

lemma wpo_http_do: "(\<And>x. Q x (evs @ [EvRequest url etag lm x]) v) \<Longrightarrow> wpo (http_do E url etag lm) Q evs v"
  by (simp add: wpo_def http_do_def wp_simps)

lemma wpo_core_lookup: "(\<And>x. Q x (evs @ [EvLookup path x]) v) \<Longrightarrow> wpo (core_lookup E path) Q evs v"
  by (simp add: wpo_def core_lookup_def wp_simps)

lemma wpo_post_core: "(\<And>ok. Q ok (evs @ [EvPost path meta fs ok]) v) \<Longrightarrow> wpo (post_core E path meta fs) Q evs v"
  by (simp add: wpo_def post_core_def wp_simps)

lemma wpo_pause: "(\<And>b. Q b (evs @ [EvPause d]) v) \<Longrightarrow> wpo (pause E d) Q evs v"
  by (simp add: wpo_def pause_def wp_simps seq_emit_def)

lemma wpo_next_poll_delay: "(\<And>d. Q d evs v) \<Longrightarrow> wpo (next_poll_delay E h floor maxJitter) Q evs v"
  unfolding next_poll_delay_def by (intro wpo_bind wpo_clock_at wpo_random_below wpo_return)

lemma wpo_retry_delay: "(\<And>x. Q x evs v) \<Longrightarrow> wpo (retry_delay E h p lo hi maxJitter) Q evs v"
  unfolding retry_delay_def Let_def by (intro wpo_bind wpo_clock_at wpo_random_below wpo_return)

lemma wpo_if: "(b \<Longrightarrow> wpo m Q evs v) \<Longrightarrow> (\<not> b \<Longrightarrow> wpo n Q evs v) \<Longrightarrow> wpo (if b then m else n) Q evs v"
  by simp

lemmas wpo_rules = wpo_bind wpo_return wpo_get_var wpo_set_var wpo_ctx_ended wpo_clock_now wpo_clock_at wpo_random_below
  wpo_http_do wpo_core_lookup wpo_post_core wpo_pause wpo_next_poll_delay wpo_retry_delay

lemma wpo_prod: "(\<And>a b. x = (a, b) \<Longrightarrow> wpo (f a b) Q evs v) \<Longrightarrow> wpo (case x of (a, b) \<Rightarrow> f a b) Q evs v"
  by (cases x) simp

text \<open>A trace in which each event is right after those before it.\<close>

definition judged :: "('e list \<Rightarrow> 'e \<Rightarrow> bool) \<Rightarrow> 'e list \<Rightarrow> bool" where
  "judged J evs \<longleftrightarrow> (\<forall>i<length evs. J (take i evs) (evs ! i))"

lemma judged_Nil [simp]: "judged J []"
  by (simp add: judged_def)

lemma judged_snoc [simp]: "judged J (evs @ [e]) \<longleftrightarrow> judged J evs \<and> J evs e"
  by (auto simp: judged_def nth_append less_Suc_eq)

lemma turns_invariant:
  assumes "\<And>evs v. P evs v \<Longrightarrow> wpo m (\<lambda>_. P) evs v" "P [] v0"
  shows "P (rn_events (turns n m (start_run v0 t))) (rn_vars (turns n m (start_run v0 t)))"
proof -
  have "keeps (obs P) m" using assms(1) by (auto simp: keeps_def obs_def [abs_def] wpo_def)
  moreover have "obs P (start_run v0 t)" using assms(2) by (simp add: obs_def start_run_def)
  ultimately show ?thesis using turns_keep [of "obs P" m] by (simp add: obs_def)
qed

section \<open>An adapter and its judgement\<close>

text \<open>
  What the theorems on runs rest on: an invariant of trace and variables that every turn keeps and that contains the
  judgement on every event.
\<close>

locale judged_adapter =
  fixes turn :: "('v seq_run, unit) state"
    and start :: 'v
    and inv :: "seq_event list \<Rightarrow> 'v \<Rightarrow> bool"
    and J :: "seq_event list \<Rightarrow> seq_event \<Rightarrow> bool"
  assumes inv_start: "inv [] start"
    and inv_turn: "inv evs v \<Longrightarrow> wpo turn (\<lambda>_. inv) evs v"
    and inv_judged: "inv evs v \<Longrightarrow> judged J evs"
begin

lemma run_inv: "inv (rn_events (turns n turn (start_run start t))) (rn_vars (turns n turn (start_run start t)))"
  by (rule turns_invariant [OF inv_turn inv_start])

lemma run_judged: "judged J (rn_events (turns n turn (start_run start t)))"
  by (rule inv_judged [OF run_inv])

lemma run_event:
  assumes "i < length (rn_events (turns n turn (start_run start t)))"
  shows "J (take i (rn_events (turns n turn (start_run start t)))) (rn_events (turns n turn (start_run start t)) ! i)"
  using run_judged assms by (simp add: judged_def)

end

end
