(* ===== verification/RestPollers.thy ===== *)
theory RestPollers
  imports Sequential Go_ParseFloat "HOL-Library.Code_Target_Nat"
begin

text \<open>
  The two adapters that poll one GeoJSON feed: USGS (\<open>usgs_adapter/app/controller/controller.go\<close>, \<open>adapter/usgs.go\<close>,
  \<open>adapter/matrix_whale.go\<close>) and NOAA (\<open>noaa_adapter/app/controller/controller.go\<close>, \<open>adapter/noaa_adapter.go\<close>,
  \<open>adapter/matrix_whale.go\<close>).
\<close>

section \<open>USGS\<close>

definition usgs_day_url :: string where
  "usgs_day_url = ''https://earthquake.usgs.gov/earthquakes/feed/v1.0/summary/all_day.geojson''"

definition usgs_week_url :: string where
  "usgs_week_url = ''https://earthquake.usgs.gov/earthquakes/feed/v1.0/summary/all_week.geojson''"

definition maxFeedBodyBytes :: nat where "maxFeedBodyBytes = 16 * 2 ^ 20"
definition usgsMinPollDelay :: int where "usgsMinPollDelay = 60 * second"
definition noaaMinPollDelay :: int where "noaaMinPollDelay = 30 * second"
definition pollMaxBackoff :: int where "pollMaxBackoff = 600 * second"
definition pollMaxJitter :: int where "pollMaxJitter = 5 * second"

record poll_result =
  pr_body :: string
  pr_fetched_at :: int
  pr_status :: int
  pr_header :: header
  pr_bytes :: nat
  pr_feed_url :: string

definition no_result :: poll_result where
  "no_result = \<lparr>pr_body = '''', pr_fetched_at = 0, pr_status = 0, pr_header = (\<lambda>_. None), pr_bytes = 0, pr_feed_url = ''''\<rparr>"

text \<open>The environment of the adapter: the smallest magnitude wanted, and the magnitude of a feature.\<close>

record usgs_env =
  ue_seq :: seq_env
  ue_min_mag :: string
  ue_magnitude :: "string \<Rightarrow> f64 option option" \<comment> \<open>\<open>None\<close>: the feature cannot be read\<close>

definition validate_feature_collection :: "seq_env \<Rightarrow> string \<Rightarrow> string option" where
  "validate_feature_collection E body =
     (case (sq_type E body, sq_features E body) of
        (Some t, Some features) \<Rightarrow>
          if t \<noteq> ''FeatureCollection'' then Some (''top-level type is '' @ t)
          else if features = None then Some ''features is missing or null''
          else None
      | _ \<Rightarrow> Some ''the body cannot be read'')"

text \<open>\<open>FetchFeed\<close>: the result, and whether it comes with an error.\<close>

definition fetch_usgs :: "seq_env \<Rightarrow> string \<Rightarrow> string \<Rightarrow> ('v seq_run, poll_result \<times> bool) state" where
  "fetch_usgs E feedURL previousLastModified =
     (if feedURL = '''' then ret (no_result, True)
      else do {
        x \<leftarrow> http_do E feedURL '''' previousLastModified;
        case x of
          NoAnswer _ \<Rightarrow> ret (no_result, True)
        | Answer status h content broken \<Rightarrow> do {
            t \<leftarrow> clock_now E;
            (let r = no_result\<lparr>pr_fetched_at := t, pr_status := status, pr_header := h, pr_feed_url := feedURL\<rparr>
             in if status = 304 then ret (r, False)
                else case read_limited content broken maxFeedBodyBytes of
                       Inl _ \<Rightarrow> ret (r, True)
                     | Inr body \<Rightarrow>
                         (let r = r\<lparr>pr_body := body, pr_bytes := length body\<rparr>
                          in ret (r, status < 200 \<or> 300 \<le> status \<or> validate_feature_collection E body \<noteq> None)))
          }
      })"

definition configured_min_magnitude :: "string \<Rightarrow> f64 option" where
  "configured_min_magnitude v =
     (let v = trim_space v
      in if v = '''' then None
         else case parse_float v of None \<Rightarrow> None | Some m \<Rightarrow> if nonfinite m then None else Some m)"

definition filter_features :: "usgs_env \<Rightarrow> string list \<Rightarrow> f64 option \<Rightarrow> string list" where
  "filter_features U features least =
     (case least of
        None \<Rightarrow> features
      | Some m \<Rightarrow> filter (\<lambda>raw. case ue_magnitude U raw of Some (Some mag) \<Rightarrow> \<not> f_lt mag m | _ \<Rightarrow> True) features)"

text \<open>\<open>MatrixWhaleAdapter\<close>: whether the core has accepted.\<close>

definition features_of :: "seq_env \<Rightarrow> poll_result \<Rightarrow> string list option" where
  "features_of E r =
     (if pr_status r = 304 then Some []
      else map_option (case_option [] id) (sq_features E (pr_body r)))"

definition post_usgs :: "usgs_env \<Rightarrow> poll_result \<Rightarrow> bool \<Rightarrow> ('v seq_run, bool) state" where
  "post_usgs U r backfill =
     (case features_of (ue_seq U) r of
        None \<Rightarrow> ret False
      | Some features \<Rightarrow>
          (let fs = filter_features U features (configured_min_magnitude (ue_min_mag U))
           in post_core (ue_seq U) ''usgs_data/send''
                (seq_meta (rfc3339 (pr_fetched_at r)) (pr_status r) (length fs) (pr_bytes r) (pr_feed_url r) backfill) fs))"

record usgs_vars =
  uv_backfill :: bool
  uv_backfill_last_modified :: string
  uv_last_modified :: string
  uv_backoff :: int
  uv_running :: bool

definition start_usgs :: usgs_vars where
  "start_usgs = \<lparr>uv_backfill = True, uv_backfill_last_modified = '''', uv_last_modified = '''', uv_backoff = 0, uv_running = True\<rparr>"

definition stop_usgs :: "(usgs_vars seq_run, unit) state" where
  "stop_usgs = set_var (\<lambda>v. v\<lparr>uv_running := False\<rparr>)"

definition rest_usgs :: "seq_env \<Rightarrow> int \<Rightarrow> (usgs_vars seq_run, unit) state" where
  "rest_usgs E delay = do { ok \<leftarrow> pause E delay; if ok then ret () else stop_usgs }"

definition usgs_failed :: "seq_env \<Rightarrow> poll_result \<Rightarrow> (usgs_vars seq_run, unit) state" where
  "usgs_failed E r = do {
     previous \<leftarrow> get_var uv_backoff;
     (backoff, delay) \<leftarrow> retry_delay E (pr_header r) previous usgsMinPollDelay pollMaxBackoff pollMaxJitter;
     set_var (\<lambda>v. v\<lparr>uv_backoff := backoff\<rparr>);
     rest_usgs E delay
   }"

definition usgs_accepted :: "poll_result \<Rightarrow> usgs_vars \<Rightarrow> usgs_vars" where
  "usgs_accepted r v =
     (let v = v\<lparr>uv_backoff := 0\<rparr>
      in if uv_backfill v then
           (let v = (if pr_status r \<noteq> 304 then v\<lparr>uv_backfill_last_modified := hget (pr_header r) ''Last-Modified''\<rparr> else v)
            in v\<lparr>uv_backfill := False\<rparr>)
         else if pr_status r \<noteq> 304 then v\<lparr>uv_last_modified := hget (pr_header r) ''Last-Modified''\<rparr>
         else v)"

text \<open>One turn of the loop of \<open>run\<close>.\<close>

definition usgs_settle :: "usgs_env \<Rightarrow> poll_result \<Rightarrow> bool \<Rightarrow> (usgs_vars seq_run, unit) state" where
  "usgs_settle U r ok =
     (if \<not> ok then usgs_failed (ue_seq U) r
      else do {
        set_var (usgs_accepted r);
        delay \<leftarrow> next_poll_delay (ue_seq U) (pr_header r) usgsMinPollDelay pollMaxJitter;
        rest_usgs (ue_seq U) delay
      })"

definition usgs_poll :: "usgs_env \<Rightarrow> (usgs_vars seq_run, unit) state" where
  "usgs_poll U = do {
     backfill \<leftarrow> get_var uv_backfill;
     validator \<leftarrow> get_var (\<lambda>v. if uv_backfill v then uv_backfill_last_modified v else uv_last_modified v);
     (r, failed) \<leftarrow> fetch_usgs (ue_seq U) (if backfill then usgs_week_url else usgs_day_url) validator;
     ok \<leftarrow> (if failed then ret False else post_usgs U r backfill);
     usgs_settle U r ok
   }"

definition usgs_turn :: "usgs_env \<Rightarrow> (usgs_vars seq_run, unit) state" where
  "usgs_turn U = do {
     running \<leftarrow> get_var uv_running;
     if \<not> running then ret ()
     else do {
       ended \<leftarrow> ctx_ended (ue_seq U);
       if ended then stop_usgs else usgs_poll U
     }
   }"

section \<open>The requests and posts of USGS\<close>

text \<open>
  What a trace calls for: whether the week has been accepted, and the modification date of the last answer of an
  address that the core has accepted (\<open>pending\<close>: that of an answer not yet accepted).
\<close>

definition backfilled :: "seq_event list \<Rightarrow> bool" where
  "backfilled evs = list_ex (\<lambda>e. case e of EvPost _ meta _ ok \<Rightarrow> ok \<and> pm_backfill meta | _ \<Rightarrow> False) evs"

fun note_accepted :: "string \<Rightarrow> seq_event \<Rightarrow> string option \<times> string \<Rightarrow> string option \<times> string" where
  "note_accepted url (EvRequest u _ _ (Answer status h _ _)) (_, lm) =
     (if u = url \<and> status \<noteq> 304 then Some (hget h ''Last-Modified'') else None, lm)"
| "note_accepted url (EvRequest _ _ _ (NoAnswer _)) (_, lm) = (None, lm)"
| "note_accepted url (EvPost _ _ _ ok) (pending, lm) = (None, if ok then case_option lm id pending else lm)"
| "note_accepted url _ x = x"

definition accepted_date :: "string \<Rightarrow> seq_event list \<Rightarrow> string" where
  "accepted_date url evs = snd (fold (note_accepted url) evs (None, ''''))"

definition wanted_feature :: "usgs_env \<Rightarrow> string \<Rightarrow> bool" where
  "wanted_feature U raw =
     (case (configured_min_magnitude (ue_min_mag U), ue_magnitude U raw) of
        (Some m, Some (Some mag)) \<Rightarrow> \<not> f_lt mag m
      | _ \<Rightarrow> True)"

fun usgs_event_ok :: "usgs_env \<Rightarrow> seq_event list \<Rightarrow> seq_event \<Rightarrow> bool" where
  "usgs_event_ok U evs (EvRequest url etag lm _) =
     (etag = '''' \<and>
      (if backfilled evs then url = usgs_day_url \<and> lm = accepted_date usgs_day_url evs
       else url = usgs_week_url \<and> lm = ''''))"
| "usgs_event_ok U evs (EvPost path meta fs ok) =
     (path = ''usgs_data/send'' \<and> pm_backfill meta = (\<not> backfilled evs) \<and> pm_feature_count meta = length fs \<and>
      pm_feed_url meta = (if backfilled evs then usgs_day_url else usgs_week_url) \<and> list_all (wanted_feature U) fs)"
| "usgs_event_ok U evs (EvPause d) = True"
| "usgs_event_ok U evs (EvLookup _ _) = False"

lemma backfilled_simps [simp]:
  "backfilled (evs @ [EvRequest u e l x]) = backfilled evs"
  "backfilled (evs @ [EvPost p meta fs ok]) = (backfilled evs \<or> ok \<and> pm_backfill meta)"
  "backfilled (evs @ [EvPause d]) = backfilled evs"
  by (simp_all add: backfilled_def)

lemma filter_wanted:
  "list_all (wanted_feature U) (filter_features U fs (configured_min_magnitude (ue_min_mag U)))"
  by (auto simp: filter_features_def wanted_feature_def list_all_iff split: option.splits)

lemma wpo_fetch_usgs:
  assumes "url \<noteq> ''''"
    and "\<And>why. Q (no_result, True) (evs @ [EvRequest url '''' lm (NoAnswer why)]) v"
    and "\<And>r failed status h content broken. pr_status r = status \<Longrightarrow> pr_header r = h \<Longrightarrow> pr_feed_url r = url \<Longrightarrow>
      Q (r, failed) (evs @ [EvRequest url '''' lm (Answer status h content broken)]) v"
  shows "wpo (fetch_usgs E url lm) Q evs v"
  unfolding fetch_usgs_def Let_def
  using assms(1,2) by (auto intro!: wpo_rules assms(3) simp: no_result_def split: answer.split sum.split)

text \<open>The variables say what the trace calls for.\<close>

definition usgs_inv :: "usgs_env \<Rightarrow> seq_event list \<Rightarrow> usgs_vars \<Rightarrow> bool" where
  "usgs_inv U evs v \<longleftrightarrow>
     judged (usgs_event_ok U) evs \<and> uv_backfill v = (\<not> backfilled evs) \<and>
     (uv_backfill v \<longrightarrow> uv_backfill_last_modified v = '''') \<and> uv_last_modified v = accepted_date usgs_day_url evs"

lemma usgs_urls [simp]: "usgs_day_url \<noteq> ''''" "usgs_week_url \<noteq> ''''" "usgs_week_url \<noteq> usgs_day_url"
  by (simp_all add: usgs_day_url_def usgs_week_url_def)

lemma accepted_date_simps [simp]:
  "accepted_date url (evs @ [EvRequest u e l x]) = accepted_date url evs"
  "accepted_date url (evs @ [EvPause d]) = accepted_date url evs"
  "accepted_date url (evs @ [EvPost p meta fs False]) = accepted_date url evs"
  "accepted_date url (evs @ [EvRequest u e l (Answer status h c b), EvPost p meta fs True]) =
     (if u = url \<and> status \<noteq> 304 then hget h ''Last-Modified'' else accepted_date url evs)"
  by (cases "fold (note_accepted url) evs (None, '''')"; cases x; simp add: accepted_date_def)+

lemma wpo_post_usgs:
  assumes "Q False evs v"
    and "\<And>meta fs ok. pm_backfill meta = backfill \<Longrightarrow> pm_feature_count meta = length fs \<Longrightarrow>
      pm_feed_url meta = pr_feed_url r \<Longrightarrow> list_all (wanted_feature U) fs \<Longrightarrow> Q ok (evs @ [EvPost ''usgs_data/send'' meta fs ok]) v"
  shows "wpo (post_usgs U r backfill) Q evs v"
  unfolding post_usgs_def Let_def
  using assms(1) filter_wanted by (auto intro!: wpo_rules assms(2) simp: seq_meta_def split: option.split)

lemma wpo_rest_usgs:
  assumes "usgs_inv U evs v"
  shows "wpo (rest_usgs E delay) (\<lambda>_. usgs_inv U) evs v"
  unfolding rest_usgs_def stop_usgs_def
  using assms by (auto intro!: wpo_rules wpo_if simp: usgs_inv_def)

lemma wpo_usgs_failed:
  assumes "usgs_inv U evs v"
  shows "wpo (usgs_failed E r) (\<lambda>_. usgs_inv U) evs v"
  unfolding usgs_failed_def
  using assms by (auto intro!: wpo_rules wpo_prod wpo_rest_usgs simp: usgs_inv_def)


lemma usgs_inv_request:
  assumes "usgs_inv U evs v"
  shows "usgs_inv U (evs @ [EvRequest (if uv_backfill v then usgs_week_url else usgs_day_url) ''''
    (if uv_backfill v then uv_backfill_last_modified v else uv_last_modified v) x]) v"
  using assms by (auto simp: usgs_inv_def)

lemma usgs_inv_accepted:
  assumes "usgs_inv U (evs @ [EvRequest (if uv_backfill v then usgs_week_url else usgs_day_url) etag lm
      (Answer (pr_status r) (pr_header r) c b)]) v"
    and "pm_backfill meta = uv_backfill v"
    and "usgs_event_ok U (evs @ [EvRequest (if uv_backfill v then usgs_week_url else usgs_day_url) etag lm
      (Answer (pr_status r) (pr_header r) c b)]) (EvPost p meta fs True)"
  shows "usgs_inv U (evs @ [EvRequest (if uv_backfill v then usgs_week_url else usgs_day_url) etag lm
      (Answer (pr_status r) (pr_header r) c b), EvPost p meta fs True]) (usgs_accepted r v)"
proof -
  let ?url = "if uv_backfill v then usgs_week_url else usgs_day_url"
  let ?evs = "evs @ [EvRequest ?url etag lm (Answer (pr_status r) (pr_header r) c b)]"
  have "judged (usgs_event_ok U) (?evs @ [EvPost p meta fs True])"
    using assms(1,3) unfolding judged_snoc by (auto simp: usgs_inv_def)
  then show ?thesis
    using assms(1,2) backfilled_simps(2) [of ?evs]
    by (auto simp: usgs_inv_def usgs_accepted_def Let_def simp del: judged_snoc)
qed

lemma usgs_inv_rejected:
  assumes "usgs_inv U evs v" "usgs_event_ok U evs (EvPost p meta fs False)"
  shows "usgs_inv U (evs @ [EvPost p meta fs False]) v"
  using assms by (auto simp: usgs_inv_def simp del: usgs_event_ok.simps)

lemma wpo_usgs_settle:
  assumes "if ok then usgs_inv U evs (usgs_accepted r v) else usgs_inv U evs v"
  shows "wpo (usgs_settle U r ok) (\<lambda>_. usgs_inv U) evs v"
  unfolding usgs_settle_def
  using assms by (auto intro!: wpo_rules wpo_rest_usgs wpo_usgs_failed)

lemma usgs_posted:
  assumes "usgs_inv U evs v"
    and "pr_feed_url r = (if uv_backfill v then usgs_week_url else usgs_day_url)"
    and "pm_backfill meta = uv_backfill v" "pm_feature_count meta = length fs"
    and "pm_feed_url meta = pr_feed_url r" "list_all (wanted_feature U) fs"
  shows "usgs_event_ok U (evs @ [EvRequest u e l x]) (EvPost ''usgs_data/send'' meta fs ok)"
  using assms by (auto simp: usgs_inv_def)

lemma wpo_usgs_poll:
  assumes inv: "usgs_inv U evs v"
  shows "wpo (usgs_poll U) (\<lambda>_. usgs_inv U) evs v"
  unfolding usgs_poll_def
proof (intro wpo_bind wpo_get_var, rule wpo_fetch_usgs, goal_cases)
  case 1
  then show ?case by simp
next
  case 2
  show ?case using usgs_inv_request [OF inv] by (auto intro!: wpo_rules wpo_usgs_settle)
next
  case (3 r failed status h content broken)
  note asked = usgs_inv_request [OF inv, of "Answer status h content broken"]
  have posted: "usgs_inv U (evs @ [EvRequest (if uv_backfill v then usgs_week_url else usgs_day_url) ''''
      (if uv_backfill v then uv_backfill_last_modified v else uv_last_modified v) (Answer status h content broken),
      EvPost ''usgs_data/send'' meta fs ok]) (if ok then usgs_accepted r v else v)"
    if "pm_backfill meta = uv_backfill v" "pm_feature_count meta = length fs" "pm_feed_url meta = pr_feed_url r"
      "list_all (wanted_feature U) fs" for ok meta fs
  proof -
    have url: "pr_feed_url r = (if uv_backfill v then usgs_week_url else usgs_day_url)" using 3 by simp
    have r: "status = pr_status r" "h = pr_header r" using 3 by simp_all
    show ?thesis
      using usgs_inv_accepted [OF asked [unfolded r] that(1) usgs_posted [OF inv url that]]
        usgs_inv_rejected [OF asked usgs_posted [OF inv url that]]
      by (cases ok; simp add: r)
  qed
  show ?case
  proof (cases failed)
    case True
    then show ?thesis using asked by (auto intro!: wpo_rules wpo_usgs_settle)
  next
    case False
    show ?thesis
      unfolding prod.case if_not_P [OF False]
    proof (rule wpo_bind, rule wpo_post_usgs, goal_cases)
      case 1
      show ?case using asked by (intro wpo_usgs_settle) simp
    next
      case (2 meta fs ok)
      show ?case using posted [OF 2, of ok] by (intro wpo_usgs_settle) (cases ok; simp)
    qed
  qed
qed

interpretation usgs_runs: judged_adapter "usgs_turn U" start_usgs "usgs_inv U" "usgs_event_ok U" for U
proof
  show "usgs_inv U [] start_usgs"
    by (simp add: usgs_inv_def start_usgs_def backfilled_def accepted_date_def)
  show "wpo (usgs_turn U) (\<lambda>_. usgs_inv U) evs v" if "usgs_inv U evs v" for evs v
    unfolding usgs_turn_def stop_usgs_def
    using that by (intro wpo_bind wpo_get_var wpo_if wpo_return wpo_ctx_ended wpo_set_var wpo_usgs_poll)
      (simp_all add: usgs_inv_def)
qed (simp add: usgs_inv_def)

text \<open>C34: the requests of the USGS adapter follow from what has been asked and accepted.  In every run, until the core has
  accepted a week of earthquakes the adapter asks for the week, without a condition; from then on it asks only for the
  day, with the modification date of the last answer for the day that the core has accepted, so an answer that was
  rejected or could not be sent is fetched again.  Every post is for the feed just asked for, is marked as backfill
  exactly until one backfill has been accepted, counts its features, and holds no feature below the magnitude
  configured.\<close>

theorem usgs_requests_follow_acceptance:
  "judged (usgs_event_ok U) (rn_events (turns n (usgs_turn U) (start_run start_usgs t)))"
  by (rule usgs_runs.run_judged)

section \<open>NOAA\<close>

definition noaa_url :: string where
  "noaa_url = ''https://api.weather.gov/alerts/active''"

record noaa_vars =
  nv_etag :: string
  nv_last_modified :: string
  nv_backoff :: int

definition start_noaa :: noaa_vars where
  "start_noaa = \<lparr>nv_etag = '''', nv_last_modified = '''', nv_backoff = 0\<rparr>"

text \<open>\<open>NoaaAlertsAdapter\<close>; the body is read without a limit.\<close>

definition fetch_noaa :: "seq_env \<Rightarrow> string \<Rightarrow> string \<Rightarrow> ('v seq_run, poll_result \<times> bool) state" where
  "fetch_noaa E prevETag prevLastModified = do {
     x \<leftarrow> http_do E noaa_url prevETag prevLastModified;
     case x of
       NoAnswer _ \<Rightarrow> ret (no_result, True)
     | Answer status h content broken \<Rightarrow>
         if broken then ret (no_result\<lparr>pr_status := status, pr_header := h\<rparr>, True)
         else do {
           t \<leftarrow> clock_now E;
           (let r = no_result\<lparr>pr_fetched_at := t, pr_status := status, pr_header := h, pr_bytes := length content\<rparr>
            in if status = 304 then ret (r, False)
               else if 200 \<le> status \<and> status < 300 then ret (r\<lparr>pr_body := content\<rparr>, False)
               else ret (r, True))
         }
   }"

definition post_noaa :: "seq_env \<Rightarrow> poll_result \<Rightarrow> ('v seq_run, bool) state" where
  "post_noaa E r =
     (case features_of E r of
        None \<Rightarrow> ret False
      | Some fs \<Rightarrow>
          post_core E ''noaa_data/send'' (seq_meta (rfc3339 (pr_fetched_at r)) (pr_status r) (length fs) (pr_bytes r) '''' False) fs)"

definition note_validators :: "poll_result \<Rightarrow> noaa_vars \<Rightarrow> noaa_vars" where
  "note_validators r v =
     (if pr_status r = 304 then v
      else v\<lparr>nv_etag := (if hget (pr_header r) ''ETag'' \<noteq> '''' then hget (pr_header r) ''ETag'' else nv_etag v),
             nv_last_modified := (if hget (pr_header r) ''Last-Modified'' \<noteq> '''' then hget (pr_header r) ''Last-Modified''
                                  else nv_last_modified v)\<rparr>)"

text \<open>A sleep that nothing ends early.\<close>

definition sleep_through :: "seq_env \<Rightarrow> int \<Rightarrow> ('v seq_run, unit) state" where
  "sleep_through E d = do { _ \<leftarrow> pause E d; ret () }"

definition noaa_failed :: "seq_env \<Rightarrow> poll_result \<Rightarrow> (noaa_vars seq_run, unit) state" where
  "noaa_failed E r = do {
     previous \<leftarrow> get_var nv_backoff;
     (backoff, delay) \<leftarrow> retry_delay E (pr_header r) previous noaaMinPollDelay pollMaxBackoff pollMaxJitter;
     set_var (\<lambda>v. v\<lparr>nv_backoff := backoff\<rparr>);
     sleep_through E delay
   }"

definition noaa_settle :: "seq_env \<Rightarrow> poll_result \<Rightarrow> bool \<Rightarrow> (noaa_vars seq_run, unit) state" where
  "noaa_settle E r failed =
     (if failed then noaa_failed E r
      else do {
        set_var (\<lambda>v. v\<lparr>nv_backoff := 0\<rparr>);
        set_var (note_validators r);
        _ \<leftarrow> post_noaa E r;
        delay \<leftarrow> next_poll_delay E (pr_header r) noaaMinPollDelay pollMaxJitter;
        sleep_through E delay
      })"

text \<open>One turn of the endless loop; an error of the post is only logged.\<close>

definition noaa_turn :: "seq_env \<Rightarrow> (noaa_vars seq_run, unit) state" where
  "noaa_turn E = do {
     etag \<leftarrow> get_var nv_etag;
     lastModified \<leftarrow> get_var nv_last_modified;
     (r, failed) \<leftarrow> fetch_noaa E etag lastModified;
     noaa_settle E r failed
   }"

section \<open>The requests and posts of NOAA\<close>

text \<open>The validators that the answers so far leave, whatever became of their features.\<close>

fun note_answer :: "seq_event \<Rightarrow> string \<times> string \<Rightarrow> string \<times> string" where
  "note_answer (EvRequest _ _ _ (Answer status h _ broken)) (etag, lm) =
     (if \<not> broken \<and> 200 \<le> status \<and> status < 300 then
        (if hget h ''ETag'' \<noteq> '''' then hget h ''ETag'' else etag,
         if hget h ''Last-Modified'' \<noteq> '''' then hget h ''Last-Modified'' else lm)
      else (etag, lm))"
| "note_answer _ x = x"

definition answered_validators :: "seq_event list \<Rightarrow> string \<times> string" where
  "answered_validators evs = fold note_answer evs ('''', '''')"

fun answered_features :: "seq_env \<Rightarrow> seq_event \<Rightarrow> string list option" where
  "answered_features E (EvRequest _ _ _ (Answer status h content broken)) =
     (if broken then None
      else if status = 304 then Some []
      else if 200 \<le> status \<and> status < 300 then map_option (case_option [] id) (sq_features E content)
      else None)"
| "answered_features E _ = None"

fun noaa_event_ok :: "seq_env \<Rightarrow> seq_event list \<Rightarrow> seq_event \<Rightarrow> bool" where
  "noaa_event_ok E evs (EvRequest url etag lm _) = (url = noaa_url \<and> (etag, lm) = answered_validators evs)"
| "noaa_event_ok E evs (EvPost path meta fs _) =
     (path = ''noaa_data/send'' \<and> evs \<noteq> [] \<and> answered_features E (last evs) = Some fs \<and> pm_feature_count meta = length fs)"
| "noaa_event_ok E evs (EvPause _) = True"
| "noaa_event_ok E evs (EvLookup _ _) = False"

definition noaa_inv :: "seq_env \<Rightarrow> seq_event list \<Rightarrow> noaa_vars \<Rightarrow> bool" where
  "noaa_inv E evs v \<longleftrightarrow> judged (noaa_event_ok E) evs \<and> answered_validators evs = (nv_etag v, nv_last_modified v)"

lemma answered_validators_snoc [simp]:
  "answered_validators (evs @ [e]) = note_answer e (answered_validators evs)"
  by (simp add: answered_validators_def)

lemma wpo_fetch_noaa:
  assumes "\<And>why. Q (no_result, True) (evs @ [EvRequest noaa_url etag lm (NoAnswer why)]) v"
    and "\<And>r failed status h content broken. pr_status r = status \<Longrightarrow> pr_header r = h \<Longrightarrow>
      failed = (broken \<or> status \<noteq> 304 \<and> \<not> (200 \<le> status \<and> status < 300)) \<Longrightarrow>
      (\<not> failed \<Longrightarrow> status \<noteq> 304 \<Longrightarrow> pr_body r = content) \<Longrightarrow>
      Q (r, failed) (evs @ [EvRequest noaa_url etag lm (Answer status h content broken)]) v"
  shows "wpo (fetch_noaa E etag lm) Q evs v"
  unfolding fetch_noaa_def Let_def
  using assms(1) by (auto intro!: wpo_rules assms(2) simp: no_result_def split: answer.split)

lemma wpo_sleep: "(\<And>b. Q () (evs @ [EvPause d]) v) \<Longrightarrow> wpo (sleep_through E d) Q evs v"
  unfolding sleep_through_def by (intro wpo_rules)

lemma wpo_noaa_failed: "noaa_inv E evs v \<Longrightarrow> wpo (noaa_failed E' r) (\<lambda>_. noaa_inv E) evs v"
  unfolding noaa_failed_def by (auto intro!: wpo_rules wpo_prod wpo_sleep simp: noaa_inv_def)

lemma noaa_inv_asked:
  assumes "noaa_inv E evs v" "answered_validators (evs @ [EvRequest noaa_url (nv_etag v) (nv_last_modified v) x]) =
    (nv_etag w, nv_last_modified w)"
  shows "noaa_inv E (evs @ [EvRequest noaa_url (nv_etag v) (nv_last_modified v) x]) w"
  using assms by (auto simp: noaa_inv_def)

lemma noaa_inv_posted:
  assumes "noaa_inv E (evs @ [e]) v" "answered_features E e = Some fs" "pm_feature_count meta = length fs"
  shows "noaa_inv E (evs @ [e, EvPost ''noaa_data/send'' meta fs ok]) v"
proof -
  have "noaa_inv E ((evs @ [e]) @ [EvPost ''noaa_data/send'' meta fs ok]) v"
    using assms unfolding noaa_inv_def judged_snoc answered_validators_snoc by auto
  then show ?thesis by simp
qed

lemma wpo_noaa_settle:
  assumes "noaa_inv E evs v"
  shows "wpo (do { delay \<leftarrow> next_poll_delay E h noaaMinPollDelay pollMaxJitter; sleep_through E delay }) (\<lambda>_. noaa_inv E) evs v"
  using assms by (auto intro!: wpo_rules wpo_sleep simp: noaa_inv_def)

lemma wpo_post_noaa:
  assumes "noaa_inv E (evs @ [e]) v" "features_of E r = answered_features E e"
  shows "wpo (post_noaa E r) (\<lambda>_. noaa_inv E) (evs @ [e]) v"
  unfolding post_noaa_def
  using assms by (auto intro!: wpo_rules simp: noaa_inv_posted seq_meta_def split: option.split)

lemma wpo_noaa_answered:
  assumes inv: "noaa_inv E evs v"
    and x: "x = Answer status h content broken" "pr_status r = status" "pr_header r = h"
      "failed = (broken \<or> status \<noteq> 304 \<and> \<not> (200 \<le> status \<and> status < 300))"
      "\<not> failed \<Longrightarrow> status \<noteq> 304 \<Longrightarrow> pr_body r = content"
    and evs': "evs' = evs @ [EvRequest noaa_url (nv_etag v) (nv_last_modified v) x]"
  shows "wpo (noaa_settle E r failed) (\<lambda>_. noaa_inv E) evs' v"
proof (cases failed)
  case True
  then have "noaa_inv E evs' v" using inv x unfolding evs' by (intro noaa_inv_asked) (auto simp: noaa_inv_def)
  then show ?thesis using True by (simp add: noaa_settle_def wpo_noaa_failed)
next
  case False
  let ?v = "note_validators r (v\<lparr>nv_backoff := 0\<rparr>)"
  have "noaa_inv E evs' ?v"
    using inv x False unfolding evs' by (intro noaa_inv_asked) (auto simp: noaa_inv_def note_validators_def)
  moreover have "features_of E r = answered_features E (EvRequest noaa_url (nv_etag v) (nv_last_modified v) x)"
    using x False by (auto simp: features_of_def)
  ultimately have "wpo (post_noaa E r) (\<lambda>_. noaa_inv E) evs' ?v" unfolding evs' by (rule wpo_post_noaa)
  then have "wpo (post_noaa E r) (\<lambda>x. wpo (next_poll_delay E (pr_header r) noaaMinPollDelay pollMaxJitter \<bind> sleep_through E)
      (\<lambda>_. noaa_inv E)) evs' ?v"
    by (rule wpo_mono) (rule wpo_noaa_settle)
  then show ?thesis using False by (auto intro!: wpo_bind wpo_set_var simp: noaa_settle_def)
qed

interpretation noaa_runs: judged_adapter "noaa_turn E" start_noaa "noaa_inv E" "noaa_event_ok E" for E
proof
  show "noaa_inv E [] start_noaa"
    by (simp add: noaa_inv_def start_noaa_def answered_validators_def)
  show "wpo (noaa_turn E) (\<lambda>_. noaa_inv E) evs v" if inv: "noaa_inv E evs v" for evs v
    unfolding noaa_turn_def
  proof (intro wpo_bind wpo_get_var, rule wpo_fetch_noaa, goal_cases)
    case (1 why)
    have "noaa_inv E (evs @ [EvRequest noaa_url (nv_etag v) (nv_last_modified v) (NoAnswer why)]) v"
      using inv by (intro noaa_inv_asked) (auto simp: noaa_inv_def)
    then show ?case by (simp add: noaa_settle_def wpo_noaa_failed)
  next
    case (2 r failed status h content broken)
    show ?case unfolding prod.case by (rule wpo_noaa_answered [OF inv refl 2 refl])
  qed
qed (simp add: noaa_inv_def)

text \<open>C35: the validators of the NOAA adapter do not wait for the core.  In every run each request asks for the active
  alerts with the last non-empty ETag and modification date of the answers so far, whether or not the core has accepted
  those answers; and each post holds the features of the answer just received, none after a 304.  So an update that the
  core refuses (or that cannot be parsed) is asked for with its own ETag at the next poll, and is not sent again as long
  as the publisher answers 304.\<close>

theorem noaa_validators_ignore_acceptance:
  "judged (noaa_event_ok E) (rn_events (turns n (noaa_turn E) (start_run start_noaa t)))"
  by (rule noaa_runs.run_judged)

end
