(* ===== verification/Gdacs.thy ===== *)
theory Gdacs
  imports Sequential Limiter Config
begin

text \<open>
  The GDACS adapter (\<open>gdacs_adapter/app/controller/controller.go\<close>, \<open>adapter/gdacs.go\<close>, \<open>adapter/matrix_whale.go\<close>).
  Its loops nest (the ticks of \<open>run\<close>, the pages of \<open>pollAllPages\<close>, the batches of \<open>drainGeometry\<close>, the entries of a
  batch and the attempts of \<open>fetchGeometryWithRetry\<close>), and three of them have no bound; a turn here is one round of
  the innermost one, and the phase says which that is and what its variables hold.
\<close>

section \<open>The publisher's API\<close>

datatype event_query = PrimaryEventListQuery | TsunamiEventListQuery

definition event_list :: "event_query \<Rightarrow> string" where
  "event_list q = (case q of PrimaryEventListQuery \<Rightarrow> ''EQ;TC;FL;VO;WF;DR'' | TsunamiEventListQuery \<Rightarrow> ''TS'')"

definition endpoint :: "event_query \<Rightarrow> string" where
  "endpoint q = (case q of PrimaryEventListQuery \<Rightarrow> ''events/geteventlist/latest''
     | TsunamiEventListQuery \<Rightarrow> ''events/geteventlist/search'')"

definition date_text :: "int \<Rightarrow> string" where
  "date_text t =
     (let (y, m, d) = civil_of_days (t div 10 ^ 9 div 86400)
      in append_int y 4 @ ''-'' @ append_int m 2 @ ''-'' @ append_int d 2)"

definition datetime_text :: "int \<Rightarrow> string" where
  "datetime_text t =
     (let s = t div 10 ^ 9 mod 86400
      in date_text t @ ''T'' @ append_int (s div 3600) 2 @ '':'' @ append_int (s div 60 mod 60) 2 @ '':'' @ append_int (s mod 60) 2)"

definition date_query :: "event_query \<Rightarrow> int \<Rightarrow> int \<Rightarrow> string" where
  "date_query q since until =
     (case q of PrimaryEventListQuery \<Rightarrow> ''datemodified='' @ datetime_text since
      | TsunamiEventListQuery \<Rightarrow> ''fromDate='' @ date_text since @ ''&toDate='' @ date_text until)"

definition pageSize :: nat where "pageSize = 100"
definition gdacsMaxBodyBytes :: nat where "gdacsMaxBodyBytes = 16 * 2 ^ 20"

definition trim_slashes :: "string \<Rightarrow> string" where
  "trim_slashes s = rev (dropWhile (\<lambda>c. c = CHR ''/'') (rev s))"

definition build_event_list_url :: "string \<Rightarrow> event_query \<Rightarrow> int \<Rightarrow> int \<Rightarrow> int \<Rightarrow> string" where
  "build_event_list_url baseURL q since until pageNumber =
     trim_slashes baseURL @ ''/'' @ endpoint q @ ''?'' @ ''eventlist='' @ event_list q @ ''&alertlevel=green;orange;red&'' @
     date_query q since until @ ''&pageSize='' @ show_int (int pageSize) @ ''&pageNumber='' @ show_int pageNumber @ ''&caller=matrixwhale''"

record pending_episode =
  pe_event_type :: string
  pe_event_id :: int
  pe_episode_id :: int

definition build_geometry_url :: "string \<Rightarrow> pending_episode \<Rightarrow> string" where
  "build_geometry_url baseURL e =
     trim_slashes baseURL @ ''/polygons/getgeometry?eventtype='' @ pe_event_type e @ ''&eventid='' @ show_int (pe_event_id e) @
     ''&episodeid='' @ show_int (pe_episode_id e)"

record event_page =
  ep_features :: "string list"
  ep_done :: bool
  ep_status :: int
  ep_header :: header
  ep_url :: string
  ep_bytes :: nat

definition no_page :: event_page where
  "no_page = \<lparr>ep_features = [], ep_done = False, ep_status = 0, ep_header = (\<lambda>_. None), ep_url = '''', ep_bytes = 0\<rparr>"

text \<open>
  A page and whether it comes with an error; an address that no request can be built from answers like one that
  cannot be reached.
\<close>

definition read_page :: "seq_env \<Rightarrow> string \<Rightarrow> answer \<Rightarrow> event_page \<times> bool" where
  "read_page E target x =
     (case x of
        NoAnswer _ \<Rightarrow> (no_page, True)
      | Answer status h content broken \<Rightarrow>
          (let page = no_page\<lparr>ep_status := status, ep_header := h, ep_url := target\<rparr>
           in if status = 204 then (page\<lparr>ep_done := True\<rparr>, False)
              else case read_limited content broken gdacsMaxBodyBytes of
                     Inl _ \<Rightarrow> (page, True)
                   | Inr body \<Rightarrow>
                       (let page = page\<lparr>ep_bytes := length body\<rparr>
                        in if status < 200 \<or> 300 \<le> status then (page, True)
                           else case (sq_type E body, sq_features E body) of
                                  (Some t, Some (Some features)) \<Rightarrow>
                                    if t \<noteq> ''FeatureCollection'' then (page, True)
                                    else (page\<lparr>ep_features := features, ep_done := length features < pageSize\<rparr>, False)
                                | _ \<Rightarrow> (page, True))))"

definition fetch_event_page :: "seq_env \<Rightarrow> string \<Rightarrow> event_query \<Rightarrow> int \<Rightarrow> int \<Rightarrow> int \<Rightarrow> ('v seq_run, event_page \<times> bool) state" where
  "fetch_event_page E baseURL q since until pageNumber = do {
     (let target = build_event_list_url baseURL q since until pageNumber in do {
        x \<leftarrow> http_do E target '''' '''';
        ret (read_page E target x)
      })
   }"

text \<open>The geometry of an episode (none after a 204) and the status, or an error.\<close>

definition read_geometry :: "seq_env \<Rightarrow> answer \<Rightarrow> (string option \<times> int) option" where
  "read_geometry E x =
     (case x of
        NoAnswer _ \<Rightarrow> None
      | Answer status h content broken \<Rightarrow>
          if status = 204 then Some (None, status)
          else case read_limited content broken gdacsMaxBodyBytes of
                 Inl _ \<Rightarrow> None
               | Inr body \<Rightarrow>
                   if status < 200 \<or> 300 \<le> status then None
                   else if sq_type E body \<noteq> Some ''FeatureCollection'' then None
                   else Some (Some body, status))"

definition fetch_geometry :: "seq_env \<Rightarrow> string \<Rightarrow> pending_episode \<Rightarrow> ('v seq_run, (string option \<times> int) option) state" where
  "fetch_geometry E baseURL e = do {
     x \<leftarrow> http_do E (build_geometry_url baseURL e) '''' '''';
     ret (read_geometry E x)
   }"

section \<open>The core\<close>

record geometry_result =
  gr_entry :: pending_episode
  gr_status :: int
  gr_geometry :: "string option"

record gdacs_env =
  ge_seq :: seq_env
  ge_config :: gdacs_config
  ge_episodes :: "string \<Rightarrow> pending_episode list option" \<comment> \<open>the \<open>episodes\<close> of a JSON body\<close>
  ge_entry_json :: "geometry_result \<Rightarrow> string"

definition gdacs_page_url :: "gdacs_env \<Rightarrow> event_query \<Rightarrow> int \<Rightarrow> int \<Rightarrow> int \<Rightarrow> string" where
  "gdacs_page_url G = build_event_list_url (gc_api_url (ge_config G))"

definition pendingLimit :: int where "pendingLimit = 20"
definition geometryBatchSize :: nat where "geometryBatchSize = 10"
definition maxPageAttempts :: int where "maxPageAttempts = 3"
definition gdacsMinBackoff :: int where "gdacsMinBackoff = 30 * second"
definition gdacsMaxBackoff :: int where "gdacsMaxBackoff = 600 * second"
definition gdacsMaxJitter :: int where "gdacsMaxJitter = 5 * second"

definition send_events :: "gdacs_env \<Rightarrow> poll_meta \<Rightarrow> string list \<Rightarrow> ('v seq_run, bool) state" where
  "send_events G meta features = post_core (ge_seq G) ''gdacs_data/send'' meta features"

definition pending_geometry :: "gdacs_env \<Rightarrow> int \<Rightarrow> ('v seq_run, pending_episode list option) state" where
  "pending_geometry G limit = do {
     x \<leftarrow> core_lookup (ge_seq G) (''/gdacs_data/geometry/pending?limit='' @ show_int limit);
     ret (case x of
            NoAnswer _ \<Rightarrow> None
          | Answer status _ content broken \<Rightarrow>
              (case read_limited content broken maxResponseBodySize of
                 Inl _ \<Rightarrow> None
               | Inr body \<Rightarrow> if status < 200 \<or> 300 \<le> status then None else ge_episodes G body))
   }"

definition send_geometry :: "gdacs_env \<Rightarrow> poll_meta \<Rightarrow> geometry_result list \<Rightarrow> ('v seq_run, bool) state" where
  "send_geometry G meta entries = post_core (ge_seq G) ''gdacs_data/geometry'' meta (map (ge_entry_json G) entries)"

section \<open>The controller\<close>

record tick_window =
  tw_query :: event_query
  tw_since :: int
  tw_until :: int

datatype gdacs_phase = Top
  | Pages "tick_window list" int int int bool \<comment> \<open>the windows left, page number, backoff, failed attempts, all done so far\<close>
  | Draining
  | Entries "pending_episode list" "geometry_result list" \<comment> \<open>the entries left, and the results not yet sent\<close>
  | Fetching pending_episode int "pending_episode list" "geometry_result list" \<comment> \<open>with the backoff\<close>
  | Finishing
  | Halted

record gdacs_vars =
  gv_backfill :: bool
  gv_startup :: "int option"
  gv_tick :: int
  gv_limiter :: limiter
  gv_phase :: gdacs_phase

definition start_gdacs :: "gdacs_env \<Rightarrow> gdacs_vars" where
  "start_gdacs G =
     \<lparr>gv_backfill = True, gv_startup = None, gv_tick = 0,
      gv_limiter = new_limiter (gc_min_request_interval (ge_config G)), gv_phase = Top\<rparr>"

text \<open>\<open>AddDate\<close> for days, in UTC.\<close>

definition add_days :: "int \<Rightarrow> int \<Rightarrow> int" where
  "add_days t n = t + n * 86400 * 10 ^ 9"

text \<open>The zero time, year 1, in nanoseconds since 1970.\<close>

definition gdacs_zero_time :: int where
  "gdacs_zero_time = days_of_civil 1 1 1 * 86400 * 10 ^ 9"

definition compute_since :: "gdacs_config \<Rightarrow> bool \<Rightarrow> int \<Rightarrow> int" where
  "compute_since cfg backfill t =
     (if backfill then add_days t (- gc_backfill_days cfg) else t + s64 (-3 * gc_poll_interval cfg))"

definition tick_windows :: "gdacs_config \<Rightarrow> bool \<Rightarrow> int \<Rightarrow> tick_window list" where
  "tick_windows cfg backfill tick =
     [\<lparr>tw_query = PrimaryEventListQuery, tw_since = compute_since cfg backfill tick, tw_until = gdacs_zero_time\<rparr>,
      \<lparr>tw_query = TsunamiEventListQuery, tw_since = add_days tick (- gc_backfill_days cfg), tw_until = add_days tick 7\<rparr>]"

definition is_non_retryable_status :: "int \<Rightarrow> bool" where
  "is_non_retryable_status status \<longleftrightarrow> 400 \<le> status \<and> status < 500 \<and> status \<noteq> 429"

definition set_phase :: "gdacs_phase \<Rightarrow> (gdacs_vars seq_run, unit) state" where
  "set_phase p = set_var (\<lambda>v. v\<lparr>gv_phase := p\<rparr>)"

text \<open>\<open>Limiter.Wait\<close>, and whether it returned without an error; \<open>Limiter.Done\<close>.\<close>

definition gdacs_wait :: "seq_env \<Rightarrow> (gdacs_vars seq_run, bool) state" where
  "gdacs_wait E = do {
     t \<leftarrow> clock_now E;
     d \<leftarrow> get_var (\<lambda>v. limiter_wait t (gv_limiter v));
     if d \<le> 0 then do { ended \<leftarrow> ctx_ended E; ret (\<not> ended) } else pause E d
   }"

definition gdacs_done :: "seq_env \<Rightarrow> (gdacs_vars seq_run, unit) state" where
  "gdacs_done E = do {
     t \<leftarrow> clock_now E;
     set_var (\<lambda>v. v\<lparr>gv_limiter := limiter_done t (gv_limiter v)\<rparr>)
   }"

text \<open>The loop of \<open>run\<close>, up to \<open>pollTick\<close>.\<close>

definition gdacs_top :: "gdacs_env \<Rightarrow> (gdacs_vars seq_run, unit) state" where
  "gdacs_top G = do {
     ended \<leftarrow> ctx_ended (ge_seq G);
     if ended then set_phase Halted
     else do {
       currentTick \<leftarrow> clock_now (ge_seq G);
       set_var (\<lambda>v. v\<lparr>gv_tick := currentTick,
         gv_startup := (if gv_backfill v \<and> gv_startup v = None then Some currentTick else gv_startup v)\<rparr>);
       backfill \<leftarrow> get_var gv_backfill;
       queryTick \<leftarrow> get_var (\<lambda>v. if gv_backfill v then the (gv_startup v) else currentTick);
       set_phase (Pages (tick_windows (ge_config G) backfill queryTick) 1 0 0 True)
     }
   }"

text \<open>A query that is abandoned leaves the tick not all done; the next window starts at page 1.\<close>

definition abandon_query :: "tick_window list \<Rightarrow> (gdacs_vars seq_run, unit) state" where
  "abandon_query ws = set_phase (Pages ws 1 0 0 False)"

definition page_failed ::
    "gdacs_env \<Rightarrow> event_page \<Rightarrow> tick_window \<Rightarrow> tick_window list \<Rightarrow> int \<Rightarrow> int \<Rightarrow> int \<Rightarrow> bool \<Rightarrow> (gdacs_vars seq_run, unit) state" where
  "page_failed G page w ws pageNumber backoff attempts allDone =
     (if is_non_retryable_status (ep_status page) then abandon_query ws
      else if maxPageAttempts \<le> attempts + 1 then abandon_query ws
      else do {
        (backoff, delay) \<leftarrow> retry_delay (ge_seq G) (ep_header page) backoff gdacsMinBackoff gdacsMaxBackoff gdacsMaxJitter;
        ok \<leftarrow> pause (ge_seq G) delay;
        set_phase (if ok then Pages (w # ws) pageNumber backoff (attempts + 1) allDone else Halted)
      })"

definition page_fetched ::
    "gdacs_env \<Rightarrow> event_page \<Rightarrow> tick_window \<Rightarrow> tick_window list \<Rightarrow> int \<Rightarrow> bool \<Rightarrow> (gdacs_vars seq_run, unit) state" where
  "page_fetched G page w ws pageNumber allDone = do {
     t \<leftarrow> clock_now (ge_seq G);
     backfill \<leftarrow> get_var gv_backfill;
     ok \<leftarrow> send_events G (seq_meta (rfc3339 t) (ep_status page) (length (ep_features page)) (ep_bytes page) (ep_url page) backfill)
       (ep_features page);
     if \<not> ok then abandon_query ws
     else if ep_done page then set_phase (Pages ws 1 0 0 allDone)
     else set_phase (Pages (w # ws) (pageNumber + 1) 0 0 allDone)
   }"

text \<open>One round of the loop of \<open>pollAllPages\<close>, and what follows its waits.\<close>

definition ask_page ::
    "gdacs_env \<Rightarrow> tick_window \<Rightarrow> tick_window list \<Rightarrow> int \<Rightarrow> int \<Rightarrow> int \<Rightarrow> bool \<Rightarrow> (gdacs_vars seq_run, unit) state" where
  "ask_page G w ws pageNumber backoff attempts allDone = do {
     (page, failed) \<leftarrow> fetch_event_page (ge_seq G) (gc_api_url (ge_config G)) (tw_query w) (tw_since w) (tw_until w) pageNumber;
     gdacs_done (ge_seq G);
     if failed then page_failed G page w ws pageNumber backoff attempts allDone
     else page_fetched G page w ws pageNumber allDone
   }"

definition poll_page ::
    "gdacs_env \<Rightarrow> tick_window \<Rightarrow> tick_window list \<Rightarrow> int \<Rightarrow> int \<Rightarrow> int \<Rightarrow> bool \<Rightarrow> (gdacs_vars seq_run, unit) state" where
  "poll_page G w ws pageNumber backoff attempts allDone = do {
     ended \<leftarrow> ctx_ended (ge_seq G);
     if ended then set_phase Halted
     else do {
       ok \<leftarrow> gdacs_wait (ge_seq G);
       if \<not> ok then set_phase Halted else ask_page G w ws pageNumber backoff attempts allDone
     }
   }"

text \<open>The end of \<open>pollTick\<close>, with what \<open>run\<close> makes of its result.\<close>

definition tick_polled :: "bool \<Rightarrow> (gdacs_vars seq_run, unit) state" where
  "tick_polled allDone = set_var (\<lambda>v. v\<lparr>gv_backfill := gv_backfill v \<and> \<not> allDone, gv_phase := Draining\<rparr>)"

definition gdacs_deadline :: "gdacs_env \<Rightarrow> gdacs_vars \<Rightarrow> int" where
  "gdacs_deadline G v = gv_tick v + gc_poll_interval (ge_config G)"

text \<open>The head of the outer loop of \<open>drainGeometry\<close>.\<close>

definition drain_geometry :: "gdacs_env \<Rightarrow> (gdacs_vars seq_run, unit) state" where
  "drain_geometry G = do {
     t \<leftarrow> clock_now (ge_seq G);
     deadline \<leftarrow> get_var (gdacs_deadline G);
     if \<not> t < deadline then set_phase Finishing
     else do {
       ended \<leftarrow> ctx_ended (ge_seq G);
       if ended then set_phase Halted
       else do {
         entries \<leftarrow> pending_geometry G pendingLimit;
         set_phase (case entries of None \<Rightarrow> Finishing | Some es \<Rightarrow> if es = [] then Finishing else Entries es [])
       }
     }
   }"

text \<open>\<open>flushGeometry\<close>: whether the core has the results.\<close>

definition flush_geometry :: "gdacs_env \<Rightarrow> geometry_result list \<Rightarrow> (gdacs_vars seq_run, bool) state" where
  "flush_geometry G results =
     (if results = [] then ret True
      else do {
        t \<leftarrow> clock_now (ge_seq G);
        send_geometry G (seq_meta (rfc3339 t) 0 (length results) 0 '''' False) results
      })"

definition batch_over :: "gdacs_env \<Rightarrow> geometry_result list \<Rightarrow> (gdacs_vars seq_run, unit) state" where
  "batch_over G results = do {
     ok \<leftarrow> flush_geometry G results;
     set_phase (if ok then Draining else Finishing)
   }"

text \<open>The head of the loop over the entries.\<close>

definition next_entry :: "gdacs_env \<Rightarrow> pending_episode list \<Rightarrow> geometry_result list \<Rightarrow> (gdacs_vars seq_run, unit) state" where
  "next_entry G entries results =
     (case entries of
        [] \<Rightarrow> batch_over G results
      | e # es \<Rightarrow> do {
          ended \<leftarrow> ctx_ended (ge_seq G);
          if ended then set_phase Halted
          else do {
            t \<leftarrow> clock_now (ge_seq G);
            deadline \<leftarrow> get_var (gdacs_deadline G);
            if \<not> t < deadline then batch_over G results
            else set_phase (Fetching e 0 es results)
          }
        })"

definition entry_fetched :: "gdacs_env \<Rightarrow> geometry_result \<Rightarrow> pending_episode list \<Rightarrow> geometry_result list \<Rightarrow> (gdacs_vars seq_run, unit) state" where
  "entry_fetched G r entries results =
     (let results = results @ [r]
      in if length results = geometryBatchSize then do {
           ok \<leftarrow> flush_geometry G results;
           set_phase (if ok then Entries entries [] else Finishing)
         }
         else set_phase (Entries entries results))"

text \<open>\<open>fetchGeometryWithRetry\<close> gave up, which it does only when the context has ended.\<close>

definition fetch_given_up :: "gdacs_env \<Rightarrow> (gdacs_vars seq_run, unit) state" where
  "fetch_given_up G = do {
     ended \<leftarrow> ctx_ended (ge_seq G);
     set_phase (if ended then Halted else Finishing)
   }"

text \<open>One round of the loop of \<open>fetchGeometryWithRetry\<close>, and what follows its waits; it has no limit of attempts.\<close>

definition ask_geometry ::
    "gdacs_env \<Rightarrow> pending_episode \<Rightarrow> int \<Rightarrow> pending_episode list \<Rightarrow> geometry_result list \<Rightarrow> (gdacs_vars seq_run, unit) state" where
  "ask_geometry G e backoff entries results = do {
     x \<leftarrow> fetch_geometry (ge_seq G) (gc_api_url (ge_config G)) e;
     gdacs_done (ge_seq G);
     case x of
       Some (geometry, status) \<Rightarrow>
         entry_fetched G \<lparr>gr_entry = e, gr_status = status, gr_geometry = geometry\<rparr> entries results
     | None \<Rightarrow> do {
         (backoff, delay) \<leftarrow> retry_delay (ge_seq G) (\<lambda>_. None) backoff gdacsMinBackoff gdacsMaxBackoff gdacsMaxJitter;
         ok \<leftarrow> pause (ge_seq G) delay;
         if ok then set_phase (Fetching e backoff entries results) else fetch_given_up G
       }
   }"

definition fetch_entry ::
    "gdacs_env \<Rightarrow> pending_episode \<Rightarrow> int \<Rightarrow> pending_episode list \<Rightarrow> geometry_result list \<Rightarrow> (gdacs_vars seq_run, unit) state" where
  "fetch_entry G e backoff entries results = do {
     ended \<leftarrow> ctx_ended (ge_seq G);
     if ended then fetch_given_up G
     else do {
       ok \<leftarrow> gdacs_wait (ge_seq G);
       if \<not> ok then fetch_given_up G else ask_geometry G e backoff entries results
     }
   }"

text \<open>The end of a tick: sleep until its deadline.\<close>

definition finish_tick :: "gdacs_env \<Rightarrow> (gdacs_vars seq_run, unit) state" where
  "finish_tick G = do {
     t \<leftarrow> clock_now (ge_seq G);
     deadline \<leftarrow> get_var (gdacs_deadline G);
     ok \<leftarrow> pause (ge_seq G) (max 0 (time_sub deadline t));
     set_phase (if ok then Top else Halted)
   }"

definition gdacs_turn :: "gdacs_env \<Rightarrow> (gdacs_vars seq_run, unit) state" where
  "gdacs_turn G = do {
     p \<leftarrow> get_var gv_phase;
     case p of
       Top \<Rightarrow> gdacs_top G
     | Pages ws pageNumber backoff attempts allDone \<Rightarrow>
         (case ws of
            [] \<Rightarrow> tick_polled allDone
          | w # ws \<Rightarrow> poll_page G w ws pageNumber backoff attempts allDone)
     | Draining \<Rightarrow> drain_geometry G
     | Entries entries results \<Rightarrow> next_entry G entries results
     | Fetching e backoff entries results \<Rightarrow> fetch_entry G e backoff entries results
     | Finishing \<Rightarrow> finish_tick G
     | Halted \<Rightarrow> ret ()
   }"

section \<open>What the trace shows\<close>

text \<open>How many requests in a row, up to now and not counting pauses, were for an address.\<close>

definition count_request :: "string \<Rightarrow> seq_event \<Rightarrow> nat \<Rightarrow> nat" where
  "count_request url e n =
     (case e of EvRequest u _ _ _ \<Rightarrow> if u = url then n + 1 else 0 | EvPause _ \<Rightarrow> n | _ \<Rightarrow> 0)"

definition trailing :: "string \<Rightarrow> seq_event list \<Rightarrow> nat" where
  "trailing url evs = fold (count_request url) evs 0"

text \<open>The core has accepted the answer of an address with a full page; it has accepted a last page of a query; and
  of the primary query and then of the tsunami query.\<close>

definition full_page_accepted :: "string \<Rightarrow> seq_event list \<Rightarrow> bool" where
  "full_page_accepted url evs \<longleftrightarrow>
     (\<exists>meta fs. EvPost ''gdacs_data/send'' meta fs True \<in> set evs \<and> pm_feed_url meta = url \<and> pageSize \<le> length fs)"

definition query_completed :: "gdacs_env \<Rightarrow> event_query \<Rightarrow> seq_event list \<Rightarrow> bool" where
  "query_completed G q evs \<longleftrightarrow>
     (\<exists>meta fs since until n. EvPost ''gdacs_data/send'' meta fs True \<in> set evs \<and>
        pm_feed_url meta = gdacs_page_url G q since until n \<and> length fs < pageSize)"

definition backfill_completed :: "gdacs_env \<Rightarrow> seq_event list \<Rightarrow> bool" where
  "backfill_completed G evs \<longleftrightarrow>
     (\<exists>xs ys. evs = xs @ ys \<and> query_completed G PrimaryEventListQuery xs \<and> query_completed G TsunamiEventListQuery ys)"

text \<open>An episode the core has named as pending; a geometry that came in answer to a request for its episode.\<close>

definition pending_named :: "gdacs_env \<Rightarrow> pending_episode \<Rightarrow> seq_event list \<Rightarrow> bool" where
  "pending_named G e evs \<longleftrightarrow>
     (\<exists>path status h content broken es. EvLookup path (Answer status h content broken) \<in> set evs \<and>
        ge_episodes G content = Some es \<and> e \<in> set es)"

definition geometry_answered :: "gdacs_env \<Rightarrow> geometry_result \<Rightarrow> seq_event list \<Rightarrow> bool" where
  "geometry_answered G r evs \<longleftrightarrow>
     (\<exists>x. EvRequest (build_geometry_url (gc_api_url (ge_config G)) (gr_entry r)) '''' '''' x \<in> set evs \<and>
        read_geometry (ge_seq G) x = Some (gr_geometry r, gr_status r))"

definition page_request_ok :: "gdacs_env \<Rightarrow> seq_event list \<Rightarrow> string \<Rightarrow> bool" where
  "page_request_ok G evs url \<longleftrightarrow>
     trailing url evs < 3 \<and>
     (\<exists>q since until n. 1 \<le> n \<and> url = gdacs_page_url G q since until n \<and>
        (n = 1 \<or> full_page_accepted (gdacs_page_url G q since until (n - 1)) evs))"

definition page_post_ok :: "gdacs_env \<Rightarrow> seq_event list \<Rightarrow> poll_meta \<Rightarrow> string list \<Rightarrow> bool" where
  "page_post_ok G evs meta fs \<longleftrightarrow>
     (pm_backfill meta \<or> backfill_completed G evs) \<and>
     (\<exists>x page. evs \<noteq> [] \<and> last evs = EvRequest (pm_feed_url meta) '''' '''' x \<and>
        read_page (ge_seq G) (pm_feed_url meta) x = (page, False) \<and> fs = ep_features page)"

definition geometry_post_ok :: "gdacs_env \<Rightarrow> seq_event list \<Rightarrow> string list \<Rightarrow> bool" where
  "geometry_post_ok G evs fs \<longleftrightarrow>
     1 \<le> length fs \<and> length fs \<le> geometryBatchSize \<and>
     (\<exists>rs. fs = map (ge_entry_json G) rs \<and> (\<forall>r \<in> set rs. geometry_answered G r evs))"

definition gdacs_event_ok :: "gdacs_env \<Rightarrow> seq_event list \<Rightarrow> seq_event \<Rightarrow> bool" where
  "gdacs_event_ok G evs e =
     (case e of
        EvRequest url etag lm _ \<Rightarrow>
          etag = '''' \<and> lm = '''' \<and>
          (page_request_ok G evs url \<or>
           (\<exists>p. url = build_geometry_url (gc_api_url (ge_config G)) p \<and> pending_named G p evs))
      | EvPost path meta fs _ \<Rightarrow>
          pm_feature_count meta = length fs \<and>
          (if path = ''gdacs_data/send'' then page_post_ok G evs meta fs
           else path = ''gdacs_data/geometry'' \<and> geometry_post_ok G evs fs)
      | _ \<Rightarrow> True)"

section \<open>The invariant of a run\<close>

definition no_primary :: "gdacs_env \<Rightarrow> seq_event list \<Rightarrow> bool" where
  "no_primary G evs \<longleftrightarrow> (\<forall>since until n. trailing (gdacs_page_url G PrimaryEventListQuery since until n) evs = 0)"

definition window_url :: "gdacs_env \<Rightarrow> tick_window \<Rightarrow> int \<Rightarrow> string" where
  "window_url G w n = gdacs_page_url G (tw_query w) (tw_since w) (tw_until w) n"

definition windows_ok :: "gdacs_env \<Rightarrow> seq_event list \<Rightarrow> tick_window list \<Rightarrow> int \<Rightarrow> int \<Rightarrow> bool \<Rightarrow> bool" where
  "windows_ok G evs ws n attempts allDone \<longleftrightarrow>
     (case ws of
        [] \<Rightarrow> no_primary G evs \<and> (allDone \<longrightarrow> backfill_completed G evs)
      | w # ws \<Rightarrow>
          1 \<le> n \<and> (n = 1 \<or> full_page_accepted (window_url G w (n - 1)) evs) \<and> 0 \<le> attempts \<and> attempts < maxPageAttempts \<and>
          int (trailing (window_url G w n) evs) \<le> attempts \<and>
          (tw_query w = PrimaryEventListQuery \<and> map tw_query ws = [TsunamiEventListQuery] \<or>
           tw_query w = TsunamiEventListQuery \<and> ws = [] \<and> (allDone \<longrightarrow> query_completed G PrimaryEventListQuery evs)))"

definition results_ok :: "gdacs_env \<Rightarrow> seq_event list \<Rightarrow> pending_episode list \<Rightarrow> geometry_result list \<Rightarrow> bool" where
  "results_ok G evs es rs \<longleftrightarrow>
     no_primary G evs \<and> (\<forall>e \<in> set es. pending_named G e evs) \<and> length rs < geometryBatchSize \<and> (\<forall>r \<in> set rs. geometry_answered G r evs)"

definition gdacs_phase_ok :: "gdacs_env \<Rightarrow> seq_event list \<Rightarrow> gdacs_phase \<Rightarrow> bool" where
  "gdacs_phase_ok G evs p \<longleftrightarrow>
     (case p of
        Pages ws n _ attempts allDone \<Rightarrow> windows_ok G evs ws n attempts allDone
      | Entries es rs \<Rightarrow> results_ok G evs es rs
      | Fetching e _ es rs \<Rightarrow> results_ok G evs (e # es) rs
      | Halted \<Rightarrow> True
      | _ \<Rightarrow> no_primary G evs)"

definition trace_inv :: "gdacs_env \<Rightarrow> seq_event list \<Rightarrow> gdacs_vars \<Rightarrow> bool" where
  "trace_inv G evs v \<longleftrightarrow> judged (gdacs_event_ok G) evs \<and> (gv_backfill v \<or> backfill_completed G evs)"

definition gdacs_inv :: "gdacs_env \<Rightarrow> seq_event list \<Rightarrow> gdacs_vars \<Rightarrow> bool" where
  "gdacs_inv G evs v \<longleftrightarrow> trace_inv G evs v \<and> gdacs_phase_ok G evs (gv_phase v)"

lemma trailing_snoc [simp]:
  "trailing url [] = 0"
  "trailing url (evs @ [EvRequest u etag lm x]) = (if u = url then trailing url evs + 1 else 0)"
  "trailing url (evs @ [EvPost path meta fs ok]) = 0"
  "trailing url (evs @ [EvLookup path x]) = 0"
  "trailing url (evs @ [EvPause d]) = trailing url evs"
  by (simp_all add: trailing_def count_request_def)

named_theorems grows \<comment> \<open>what a longer trace still shows\<close>

lemma full_page_accepted_snoc [grows]: "full_page_accepted url evs \<Longrightarrow> full_page_accepted url (evs @ [e])"
  by (auto simp: full_page_accepted_def)

lemma query_completed_snoc [grows]: "query_completed G q evs \<Longrightarrow> query_completed G q (evs @ [e])"
  by (fastforce simp: query_completed_def)

lemma backfill_completed_snoc [grows]: "backfill_completed G evs \<Longrightarrow> backfill_completed G (evs @ [e])"
  unfolding backfill_completed_def by (metis append.assoc query_completed_snoc)

lemma pending_named_snoc [grows]: "pending_named G p evs \<Longrightarrow> pending_named G p (evs @ [e])"
  by (fastforce simp: pending_named_def)

lemma geometry_answered_snoc [grows]: "geometry_answered G r evs \<Longrightarrow> geometry_answered G r (evs @ [e])"
  by (fastforce simp: geometry_answered_def)

text \<open>Addresses of the two queries and of the geometries differ.\<close>

lemma urls_differ [simp]:
  "gdacs_page_url G TsunamiEventListQuery s u n \<noteq> gdacs_page_url G PrimaryEventListQuery s' u' n'"
  "gdacs_page_url G PrimaryEventListQuery s u n \<noteq> gdacs_page_url G TsunamiEventListQuery s' u' n'"
  "build_geometry_url (gc_api_url (ge_config G)) p \<noteq> gdacs_page_url G q s u n"
  by (cases q; simp add: gdacs_page_url_def build_event_list_url_def build_geometry_url_def endpoint_def)+

lemma no_primary_snoc [simp]:
  "no_primary G []"
  "no_primary G (evs @ [EvRequest (build_geometry_url (gc_api_url (ge_config G)) p) etag lm x])"
  "no_primary G (evs @ [EvRequest (gdacs_page_url G TsunamiEventListQuery s u n) etag lm x])"
  "no_primary G (evs @ [EvPost path meta fs ok])"
  "no_primary G (evs @ [EvLookup path y])"
  "no_primary G (evs @ [EvPause d]) = no_primary G evs"
  by (simp_all add: no_primary_def)

section \<open>Every turn keeps it\<close>

lemma gdacs_phase_ok_pause [simp]: "gdacs_phase_ok G evs p \<Longrightarrow> gdacs_phase_ok G (evs @ [EvPause d]) p"
  by (auto simp: gdacs_phase_ok_def windows_ok_def results_ok_def intro: grows split: gdacs_phase.splits list.splits)

lemma trace_inv_snoc: "trace_inv G evs v \<Longrightarrow> gdacs_event_ok G evs e \<Longrightarrow> trace_inv G (evs @ [e]) v"
  by (auto simp: trace_inv_def intro: grows)

lemma trace_inv_pause [simp]: "trace_inv G evs v \<Longrightarrow> trace_inv G (evs @ [EvPause d]) v"
  by (rule trace_inv_snoc) (simp_all add: gdacs_event_ok_def)

lemma trace_inv_vars [simp]:
  "trace_inv G evs (v\<lparr>gv_phase := p\<rparr>) = trace_inv G evs v"
  "trace_inv G evs (v\<lparr>gv_limiter := l\<rparr>) = trace_inv G evs v"
  "trace_inv G evs (v\<lparr>gv_tick := t, gv_startup := s\<rparr>) = trace_inv G evs v"
  by (simp_all add: trace_inv_def)

lemma wpo_set_phase: "trace_inv G evs v \<Longrightarrow> gdacs_phase_ok G evs p \<Longrightarrow> wpo (set_phase p) (\<lambda>_. gdacs_inv G) evs v"
  unfolding set_phase_def by (rule wpo_set_var) (simp add: gdacs_inv_def)

lemma wpo_gdacs_wait:
  "(\<And>b. Q b evs v) \<Longrightarrow> (\<And>b d. Q b (evs @ [EvPause d]) v) \<Longrightarrow> wpo (gdacs_wait E) Q evs v"
  unfolding gdacs_wait_def by (intro wpo_rules wpo_if)

lemma wpo_gdacs_done: "(\<And>l. Q () evs (v\<lparr>gv_limiter := l\<rparr>)) \<Longrightarrow> wpo (gdacs_done E) Q evs v"
  unfolding gdacs_done_def by (intro wpo_rules)

lemma windows_abandoned:
  assumes "windows_ok G evs (w # ws) n a d"
  shows "windows_ok G (evs @ [EvRequest (window_url G w n) etag lm x]) ws 1 0 False"
    "windows_ok G (evs @ [EvRequest (window_url G w n) etag lm x, EvPost path meta fs ok]) ws 1 0 False"
  using assms trailing_snoc(3) [where evs = "evs @ [EvRequest (window_url G w n) etag lm x]"]
    no_primary_snoc(4) [where evs = "evs @ [EvRequest (window_url G w n) etag lm x]"]
  by (auto simp: windows_ok_def window_url_def maxPageAttempts_def)

lemma windows_retried:
  assumes "windows_ok G evs (w # ws) n a d" "a + 1 < maxPageAttempts"
  shows "windows_ok G (evs @ [EvRequest (window_url G w n) etag lm x]) (w # ws) n (a + 1) d"
  using assms by (auto simp: windows_ok_def window_url_def intro: grows)

lemma windows_completed:
  assumes "windows_ok G evs (w # ws) n a d" "pm_feed_url meta = window_url G w n" "length fs < pageSize"
  shows "windows_ok G (evs @ [e, EvPost ''gdacs_data/send'' meta fs True]) ws 1 0 d"
proof -
  let ?post = "EvPost ''gdacs_data/send'' meta fs True"
  have new: "query_completed G (tw_query w) [?post]"
    using assms(2,3) by (auto simp: query_completed_def window_url_def)
  have both: "backfill_completed G (evs @ [e, ?post])"
    if "query_completed G PrimaryEventListQuery evs" "tw_query w = TsunamiEventListQuery"
    unfolding backfill_completed_def
    using that new query_completed_snoc [of G PrimaryEventListQuery evs e] by (intro exI [of _ "evs @ [e]"] exI [of _ "[?post]"]) simp
  have "query_completed G PrimaryEventListQuery (evs @ [e, ?post])" if "tw_query w = PrimaryEventListQuery"
    using new that by (fastforce simp: query_completed_def)
  then show ?thesis
    using assms(1) both trailing_snoc(3) [where evs = "evs @ [e]"] no_primary_snoc(4) [where evs = "evs @ [e]"]
    by (auto simp: windows_ok_def maxPageAttempts_def)
qed

lemma windows_next_page:
  assumes "windows_ok G evs (w # ws) n a d" "pm_feed_url meta = window_url G w n" "pageSize \<le> length fs"
  shows "windows_ok G (evs @ [e, EvPost ''gdacs_data/send'' meta fs True]) (w # ws) (n + 1) 0 d"
proof -
  have "full_page_accepted (window_url G w n) (evs @ [e, EvPost ''gdacs_data/send'' meta fs True])"
    using assms(2,3) by (auto simp: full_page_accepted_def)
  moreover have "query_completed G q (evs @ [e, EvPost ''gdacs_data/send'' meta fs True])" if "query_completed G q evs" for q
    using that query_completed_snoc [OF query_completed_snoc [OF that, of e]] by simp
  ultimately show ?thesis
    using assms(1) trailing_snoc(3) [where evs = "evs @ [e]"] by (auto simp: windows_ok_def maxPageAttempts_def)
qed

lemma page_request_allowed:
  assumes "windows_ok G evs (w # ws) n a d"
  shows "gdacs_event_ok G evs (EvRequest (window_url G w n) '''' '''' x)"
  using assms by (auto simp: windows_ok_def gdacs_event_ok_def page_request_ok_def window_url_def maxPageAttempts_def)

lemma read_page_done: "read_page E url x = (page, False) \<Longrightarrow> ep_url page = url \<and> ep_done page = (length (ep_features page) < pageSize)"
  by (auto simp: read_page_def Let_def no_page_def pageSize_def split: answer.splits if_splits sum.splits option.splits)

lemma page_post_allowed:
  assumes "trace_inv G evs v" "read_page (ge_seq G) (pm_feed_url meta) x = (page, False)" "pm_backfill meta = gv_backfill v"
    "pm_feature_count meta = length (ep_features page)"
  shows "gdacs_event_ok G (evs @ [EvRequest (pm_feed_url meta) '''' '''' x]) (EvPost ''gdacs_data/send'' meta (ep_features page) ok)"
  using assms by (auto simp: trace_inv_def gdacs_event_ok_def page_post_ok_def intro: grows)

lemma inv_posted:
  assumes "trace_inv G evs v" "gdacs_event_ok G evs e" "gdacs_event_ok G (evs @ [e]) e'"
  shows "trace_inv G (evs @ [e, e']) v"
  using trace_inv_snoc [OF trace_inv_snoc [OF assms(1,2)] assms(3)] by simp

lemma wpo_page_failed:
  assumes "trace_inv G evs v" "windows_ok G evs (w # ws) n a d"
    "windows_ok G evs' ws 1 0 False" "a + 1 < maxPageAttempts \<Longrightarrow> windows_ok G evs' (w # ws) n (a + 1) d" "trace_inv G evs' v"
  shows "wpo (page_failed G page w ws n b a d) (\<lambda>_. gdacs_inv G) evs' v"
  unfolding page_failed_def abandon_query_def
  using assms by (auto intro!: wpo_if wpo_bind wpo_retry_delay wpo_prod wpo_pause wpo_set_phase
      gdacs_phase_ok_pause [of _ _ "Pages _ _ _ _ _", unfolded gdacs_phase_ok_def, simplified] simp: gdacs_phase_ok_def)

lemma wpo_page_fetched:
  assumes inv: "trace_inv G evs v" and ws: "windows_ok G evs (w # ws) n a d"
    and page: "read_page (ge_seq G) (window_url G w n) x = (page, False)"
  shows "wpo (page_fetched G page w ws n d) (\<lambda>_. gdacs_inv G) (evs @ [EvRequest (window_url G w n) '''' '''' x]) v"
proof -
  note asked = page_request_allowed [OF ws, of x]
  have posted: "gdacs_inv G (evs @ [EvRequest (window_url G w n) '''' '''' x, EvPost ''gdacs_data/send'' meta (ep_features page) ok])
      (v\<lparr>gv_phase := if \<not> ok then Pages ws 1 0 0 False else if ep_done page then Pages ws 1 0 0 d else Pages (w # ws) (n + 1) 0 0 d\<rparr>)"
    if "pm_feed_url meta = window_url G w n" "pm_backfill meta = gv_backfill v" "pm_feature_count meta = length (ep_features page)"
    for meta ok
    using inv_posted [OF inv asked page_post_allowed [OF inv _ that(2,3), unfolded that(1), OF page]]
      windows_abandoned(2) [OF ws] windows_completed [OF ws that(1)] windows_next_page [OF ws that(1)] read_page_done [OF page]
    by (auto simp: gdacs_inv_def gdacs_phase_ok_def)
  note posted = posted [of "seq_meta f s (length (ep_features page)) b (window_url G w n) (gv_backfill v)" for f s b]
  show ?thesis
    unfolding page_fetched_def send_events_def abandon_query_def set_phase_def
    using posted [where ok = False] posted [where ok = True] read_page_done [OF page]
    by (intro wpo_bind wpo_clock_now wpo_get_var wpo_post_core wpo_if wpo_set_var) (auto simp: seq_meta_def)
qed

lemma trace_inv_limiter: "trace_inv G evs v \<Longrightarrow> trace_inv G evs (v\<lparr>gv_limiter := l\<rparr>)"
  by simp

lemma wpo_ask_page:
  assumes inv: "trace_inv G evs v" and ws: "windows_ok G evs (w # ws) n a d"
  shows "wpo (ask_page G w ws n b a d) (\<lambda>_. gdacs_inv G) evs v"
  unfolding ask_page_def fetch_event_page_def Let_def
proof (intro wpo_bind wpo_http_do wpo_return wpo_prod wpo_gdacs_done wpo_if, goal_cases)
  case (1 x page failed l)
  have "trace_inv G (evs @ [EvRequest (window_url G w n) '''' '''' x]) (v\<lparr>gv_limiter := l\<rparr>)"
    using trace_inv_snoc [OF inv page_request_allowed [OF ws]] by simp
  then show ?case
    using wpo_page_failed [OF trace_inv_limiter [OF inv] ws windows_abandoned(1) [OF ws] windows_retried [OF ws]]
    by (simp add: window_url_def gdacs_page_url_def)
next
  case (2 x page failed l)
  then show ?case
    using wpo_page_fetched [OF trace_inv_limiter [OF inv] ws] by (simp add: window_url_def gdacs_page_url_def)
qed

lemma wpo_poll_page:
  assumes inv: "trace_inv G evs v" and ws: "windows_ok G evs (w # ws) n a d"
  shows "wpo (poll_page G w ws n b a d) (\<lambda>_. gdacs_inv G) evs v"
proof -
  have "windows_ok G (evs @ [EvPause t]) (w # ws) n a d" for t
    using gdacs_phase_ok_pause [of G evs "Pages (w # ws) n 0 a d" t] ws by (simp add: gdacs_phase_ok_def)
  then show ?thesis
    unfolding poll_page_def
    using assms by (intro wpo_bind wpo_ctx_ended wpo_if wpo_gdacs_wait wpo_set_phase wpo_ask_page) (simp_all add: gdacs_phase_ok_def)
qed

lemma wpo_gdacs_top:
  assumes "trace_inv G evs v" "no_primary G evs"
  shows "wpo (gdacs_top G) (\<lambda>_. gdacs_inv G) evs v"
  unfolding gdacs_top_def
  using assms by (intro wpo_bind wpo_ctx_ended wpo_if wpo_set_phase wpo_clock_now wpo_set_var wpo_get_var)
    (simp_all add: gdacs_phase_ok_def windows_ok_def tick_windows_def window_url_def no_primary_def maxPageAttempts_def)

lemma wpo_tick_polled:
  assumes "trace_inv G evs v" "windows_ok G evs [] n a d"
  shows "wpo (tick_polled d) (\<lambda>_. gdacs_inv G) evs v"
  unfolding tick_polled_def
  using assms by (intro wpo_set_var) (auto simp: gdacs_inv_def trace_inv_def windows_ok_def gdacs_phase_ok_def)

lemma lookup_named:
  "x = Answer status h content broken \<Longrightarrow> ge_episodes G content = Some es \<Longrightarrow> e \<in> set es \<Longrightarrow>
    pending_named G e (evs @ [EvLookup path x])"
  unfolding pending_named_def
  by (rule exI [of _ path], rule exI [of _ status], rule exI [of _ h], rule exI [of _ content], rule exI [of _ broken], rule exI [of _ es]) simp

lemma wpo_pending_geometry:
  assumes "\<And>x. Q None (evs @ [EvLookup (''/gdacs_data/geometry/pending?limit='' @ show_int limit) x]) v"
    and "\<And>x es. \<forall>e \<in> set es. pending_named G e (evs @ [EvLookup (''/gdacs_data/geometry/pending?limit='' @ show_int limit) x]) \<Longrightarrow>
      Q (Some es) (evs @ [EvLookup (''/gdacs_data/geometry/pending?limit='' @ show_int limit) x]) v"
  shows "wpo (pending_geometry G limit) Q evs v"
  unfolding pending_geometry_def
proof (intro wpo_bind wpo_core_lookup wpo_return, goal_cases)
  case (1 x)
  let ?evs = "evs @ [EvLookup (''/gdacs_data/geometry/pending?limit='' @ show_int limit) x]"
  show ?case
  proof (cases x)
    case (Answer status h content broken)
    show ?thesis
    proof (cases "\<exists>body es. read_limited content broken maxResponseBodySize = Inr body \<and> 200 \<le> status \<and> status < 300 \<and> ge_episodes G body = Some es")
      case True
      then obtain es where es: "read_limited content broken maxResponseBodySize = Inr content" "200 \<le> status" "status < 300"
        "ge_episodes G content = Some es"
        by (auto simp: read_limited_def split: if_splits)
      then have "\<forall>e \<in> set es. pending_named G e ?evs" using lookup_named [OF Answer es(4)] by blast
      then show ?thesis using assms(2) [of es x] Answer es by simp
    next
      case False
      then show ?thesis using assms(1) [of x] Answer by (cases "ge_episodes G content") (auto split: sum.split)
    qed
  next
    case (NoAnswer why)
    then show ?thesis using assms(1) [of x] by simp
  qed
qed

lemma wpo_drain_geometry:
  assumes "trace_inv G evs v" "no_primary G evs"
  shows "wpo (drain_geometry G) (\<lambda>_. gdacs_inv G) evs v"
proof -
  have "trace_inv G (evs @ [EvLookup path x]) v" for path x
    using assms by (intro trace_inv_snoc) (auto simp: gdacs_event_ok_def)
  then show ?thesis
    unfolding drain_geometry_def
    using assms by (intro wpo_bind wpo_clock_now wpo_get_var wpo_if wpo_ctx_ended wpo_pending_geometry wpo_set_phase)
      (auto simp: gdacs_phase_ok_def results_ok_def geometryBatchSize_def)
qed

lemma wpo_flush_geometry:
  assumes inv: "trace_inv G evs v" and rs: "results_ok G evs es rs \<or> length rs = geometryBatchSize" "\<forall>r \<in> set rs. geometry_answered G r evs"
    and Q: "\<And>ok. Q ok evs v"
    and Q': "\<And>ok meta. trace_inv G (evs @ [EvPost ''gdacs_data/geometry'' meta (map (ge_entry_json G) rs) ok]) v \<Longrightarrow>
      Q ok (evs @ [EvPost ''gdacs_data/geometry'' meta (map (ge_entry_json G) rs) ok]) v"
  shows "wpo (flush_geometry G rs) Q evs v"
proof (cases "rs = []")
  case False
  have "gdacs_event_ok G evs (EvPost ''gdacs_data/geometry'' meta (map (ge_entry_json G) rs) ok)"
    if "pm_feature_count meta = length rs" for meta ok
    using rs that False by (auto simp: gdacs_event_ok_def geometry_post_ok_def results_ok_def Suc_le_eq)
  then show ?thesis
    unfolding flush_geometry_def send_geometry_def
    using False trace_inv_snoc [OF inv] by (auto intro!: wpo_bind wpo_clock_now wpo_post_core Q' simp: seq_meta_def)
qed (use Q in \<open>simp add: flush_geometry_def wpo_return\<close>)

lemma wpo_batch_over:
  assumes "trace_inv G evs v" "results_ok G evs es rs"
  shows "wpo (batch_over G rs) (\<lambda>_. gdacs_inv G) evs v"
  unfolding batch_over_def
  using assms by (intro wpo_bind wpo_flush_geometry [of _ _ _ es] wpo_set_phase) (auto simp: gdacs_phase_ok_def results_ok_def)

lemma wpo_next_entry:
  assumes "trace_inv G evs v" "results_ok G evs es rs"
  shows "wpo (next_entry G es rs) (\<lambda>_. gdacs_inv G) evs v"
  unfolding next_entry_def
  using assms wpo_batch_over [OF assms]
  by (cases es) (auto intro!: wpo_bind wpo_clock_now wpo_get_var wpo_if wpo_ctx_ended wpo_set_phase simp: gdacs_phase_ok_def)

lemma wpo_entry_fetched:
  assumes inv: "trace_inv G evs v" and rs: "results_ok G evs es rs" and r: "geometry_answered G r evs"
  shows "wpo (entry_fetched G r es rs) (\<lambda>_. gdacs_inv G) evs v"
proof (cases "length (rs @ [r]) = geometryBatchSize")
  case True
  have "\<forall>e \<in> set es. pending_named G e (evs @ [e'])" for e'
    using rs by (auto simp: results_ok_def intro: grows)
  then show ?thesis
    unfolding entry_fetched_def Let_def
    using assms True by (intro wpo_if wpo_bind wpo_flush_geometry [of _ _ _ es] wpo_set_phase)
      (auto simp: gdacs_phase_ok_def results_ok_def geometryBatchSize_def)
next
  case False
  then show ?thesis
    unfolding entry_fetched_def Let_def
    using assms by (auto intro!: wpo_set_phase simp: gdacs_phase_ok_def results_ok_def)
qed

lemma wpo_fetch_given_up: "trace_inv G evs v \<Longrightarrow> no_primary G evs \<Longrightarrow> wpo (fetch_given_up G) (\<lambda>_. gdacs_inv G) evs v"
  unfolding fetch_given_up_def
  by (intro wpo_bind wpo_ctx_ended wpo_set_phase) (auto simp: gdacs_phase_ok_def)

lemma wpo_ask_geometry:
  assumes inv: "trace_inv G evs v" and rs: "results_ok G evs (e # es) rs"
  shows "wpo (ask_geometry G e b es rs) (\<lambda>_. gdacs_inv G) evs v"
  unfolding ask_geometry_def fetch_geometry_def
proof (intro wpo_bind wpo_http_do wpo_return wpo_gdacs_done, goal_cases)
  case (1 x l)
  let ?evs = "evs @ [EvRequest (build_geometry_url (gc_api_url (ge_config G)) e) '''' '''' x]"
  have inv': "trace_inv G ?evs (v\<lparr>gv_limiter := l\<rparr>)"
    using trace_inv_snoc [OF inv, of "EvRequest _ _ _ x"] rs by (fastforce simp: gdacs_event_ok_def results_ok_def)
  have rs': "results_ok G ?evs (e # es) rs" using rs by (auto simp: results_ok_def intro: grows)
  show ?case
  proof (cases "read_geometry (ge_seq G) x")
    case None
    then show ?thesis
      using inv' rs' gdacs_phase_ok_pause [of G ?evs "Fetching e _ es rs"] trace_inv_pause [of G ?evs "v\<lparr>gv_limiter := l\<rparr>"]
      by (auto intro!: wpo_bind wpo_retry_delay wpo_prod wpo_pause wpo_if wpo_set_phase wpo_fetch_given_up simp: gdacs_phase_ok_def results_ok_def)
  next
    case (Some y)
    obtain geometry status where y: "y = (geometry, status)" by (cases y)
    let ?r = "\<lparr>gr_entry = e, gr_status = status, gr_geometry = geometry\<rparr>"
    have "geometry_answered G ?r ?evs" using Some y by (auto simp: geometry_answered_def)
    then show ?thesis
      using Some y inv' rs' wpo_entry_fetched [of G ?evs "v\<lparr>gv_limiter := l\<rparr>" es rs ?r] by (simp add: results_ok_def)
  qed
qed

lemma wpo_fetch_entry:
  assumes "trace_inv G evs v" "results_ok G evs (e # es) rs"
  shows "wpo (fetch_entry G e b es rs) (\<lambda>_. gdacs_inv G) evs v"
proof -
  have "results_ok G (evs @ [EvPause t]) (e # es) rs" for t
    using gdacs_phase_ok_pause [of G evs "Fetching e 0 es rs" t] assms(2) by (simp add: gdacs_phase_ok_def)
  then show ?thesis
    unfolding fetch_entry_def
    using assms by (intro wpo_bind wpo_ctx_ended wpo_if wpo_gdacs_wait wpo_fetch_given_up wpo_ask_geometry) (auto simp: results_ok_def)
qed

lemma wpo_finish_tick: "trace_inv G evs v \<Longrightarrow> no_primary G evs \<Longrightarrow> wpo (finish_tick G) (\<lambda>_. gdacs_inv G) evs v"
  unfolding finish_tick_def
  by (intro wpo_bind wpo_clock_now wpo_get_var wpo_pause wpo_set_phase) (auto simp: gdacs_phase_ok_def)

interpretation gdacs_runs: judged_adapter "gdacs_turn G" "start_gdacs G" "gdacs_inv G" "gdacs_event_ok G" for G
proof
  show "gdacs_inv G [] (start_gdacs G)"
    by (simp add: gdacs_inv_def trace_inv_def gdacs_phase_ok_def start_gdacs_def)
  show "wpo (gdacs_turn G) (\<lambda>_. gdacs_inv G) evs v" if "gdacs_inv G evs v" for evs v
    unfolding gdacs_turn_def
    using that by (intro wpo_bind wpo_get_var, cases "gv_phase v")
      (auto simp: gdacs_inv_def gdacs_phase_ok_def wpo_gdacs_top wpo_tick_polled wpo_drain_geometry wpo_next_entry wpo_fetch_entry
        wpo_finish_tick wpo_poll_page wpo_return split: list.split)
qed (simp add: gdacs_inv_def trace_inv_def)

text \<open>C39: the GDACS adapter asks, posts and counts in the right order.  In every run, each request is for a page of one of the two
  event lists, or for the geometry of an episode the core has named; a page after the first is asked for only when the
  core has accepted the page before it, a full one; no page is asked for more than three times in a row, pauses not
  counted; every post of events holds exactly the features of the answer just received, and is marked as backfill until
  the core has accepted the last page of the primary query and then that of the tsunami query; and every post of
  geometries holds one to ten, each read from an answer to a request for its episode.\<close>

theorem gdacs_runs_in_order:
  "judged (gdacs_event_ok G) (rn_events (turns n (gdacs_turn G) (start_run (start_gdacs G) t)))"
  by (rule gdacs_runs.run_judged)

section \<open>A geometry that never comes\<close>

text \<open>Nothing but the geometry of one episode has been asked for since.\<close>

definition stuck_on :: "gdacs_env \<Rightarrow> pending_episode \<Rightarrow> pending_episode list \<Rightarrow> geometry_result list \<Rightarrow> seq_event list \<Rightarrow> gdacs_vars seq_run \<Rightarrow> bool" where
  "stuck_on G e es rs evs s \<longleftrightarrow>
     (\<exists>b. gv_phase (rn_vars s) = Fetching e b es rs) \<and> \<not> rn_cancelled s \<and>
     (\<exists>later. rn_events s = evs @ later \<and>
        list_all (\<lambda>x. case x of
           EvRequest url _ _ _ \<Rightarrow> url = build_geometry_url (gc_api_url (ge_config G)) e
         | EvPause _ \<Rightarrow> True | _ \<Rightarrow> False) later)"

text \<open>The context goes on, and no answer holds a geometry.\<close>

definition never_answered :: "gdacs_env \<Rightarrow> bool" where
  "never_answered G \<longleftrightarrow> (\<forall>k. \<not> sq_cancel (ge_seq G) k) \<and> (\<forall>k. read_geometry (ge_seq G) (sq_http (ge_seq G) k) = None)"

lemma stuck_on_pass:
  assumes "never_answered G" "stuck_on G e es rs evs s"
  shows "stuck_on G e es rs evs (pass (ge_seq G) s)"
  using assms by (simp add: stuck_on_def pass_def never_answered_def)

lemma stuck_on_event:
  assumes "stuck_on G e es rs evs s"
  shows "stuck_on G e es rs evs (seq_emit (EvPause d) s)"
    "stuck_on G e es rs evs (seq_emit (EvRequest (build_geometry_url (gc_api_url (ge_config G)) e) etag lm x) s)"
proof -
  obtain later where "rn_events s = evs @ later"
    "list_all (\<lambda>x. case x of EvRequest url _ _ _ \<Rightarrow> url = build_geometry_url (gc_api_url (ge_config G)) e
       | EvPause _ \<Rightarrow> True | _ \<Rightarrow> False) later"
    using assms by (auto simp: stuck_on_def)
  then show "stuck_on G e es rs evs (seq_emit (EvPause d) s)"
    "stuck_on G e es rs evs (seq_emit (EvRequest (build_geometry_url (gc_api_url (ge_config G)) e) etag lm x) s)"
    using assms by (auto simp: stuck_on_def seq_emit_def)
qed

lemma stuck_on_clock: "stuck_on G e es rs evs s \<Longrightarrow> stuck_on G e es rs evs (s\<lparr>rn_clock := c\<rparr>)"
  by (simp add: stuck_on_def)

lemma stuck_on_vars: "stuck_on G e es rs evs s \<Longrightarrow> stuck_on G e es rs evs (s\<lparr>rn_vars := (rn_vars s)\<lparr>gv_limiter := l\<rparr>\<rparr>)"
  "stuck_on G e es rs evs s \<Longrightarrow> stuck_on G e es rs evs (s\<lparr>rn_vars := (rn_vars s)\<lparr>gv_phase := Fetching e b es rs\<rparr>\<rparr>)"
  by (simp_all add: stuck_on_def)

lemma stuck_on_running: "stuck_on G e es rs evs s \<Longrightarrow> \<not> rn_cancelled s"
  by (simp add: stuck_on_def)

lemma stuck_ctx_ended:
  assumes "never_answered G" "stuck_on G e es rs evs s" "\<And>s. stuck_on G e es rs evs s \<Longrightarrow> Q False s"
  shows "wp (ctx_ended (ge_seq G)) Q s"
proof -
  note passed = stuck_on_pass [OF assms(1,2)]
  then show ?thesis using assms(3) [OF passed] stuck_on_running [OF passed] by (simp add: ctx_ended_def wp_simps)
qed

lemma stuck_clock_now:
  assumes "never_answered G" "stuck_on G e es rs evs s" "\<And>t s. stuck_on G e es rs evs s \<Longrightarrow> Q t s"
  shows "wp (clock_now (ge_seq G)) Q s"
  using assms(3) [OF stuck_on_pass [OF assms(1,2)]] by (simp add: clock_now_def wp_simps)

lemma stuck_pause:
  assumes "never_answered G" "stuck_on G e es rs evs s" "\<And>s. stuck_on G e es rs evs s \<Longrightarrow> Q True s"
  shows "wp (pause (ge_seq G) d) Q s"
proof -
  note passed = stuck_on_pass [OF assms(1) stuck_on_event(1) [OF stuck_on_clock [OF assms(2)]]]
  show ?thesis using assms(3) [OF passed] stuck_on_running [OF passed] by (simp add: pause_def wp_simps)
qed

lemma stuck_get_var: "stuck_on G e es rs evs s \<Longrightarrow> (\<And>x. Q x s) \<Longrightarrow> wp (get_var f) Q s"
  by (simp add: get_var_def wp_simps)

lemma stuck_wait:
  assumes "never_answered G" "stuck_on G e es rs evs s" "\<And>s. stuck_on G e es rs evs s \<Longrightarrow> Q True s"
  shows "wp (gdacs_wait (ge_seq G)) Q s"
  unfolding gdacs_wait_def wp_bind
  using assms by (auto intro!: stuck_clock_now [of G] stuck_get_var [of G] stuck_ctx_ended [of G] stuck_pause [of G] simp: wp_simps)

lemma stuck_http:
  assumes "never_answered G" "stuck_on G e es rs evs s"
    "\<And>x s. read_geometry (ge_seq G) x = None \<Longrightarrow> stuck_on G e es rs evs s \<Longrightarrow> Q x s"
  shows "wp (http_do (ge_seq G) (build_geometry_url (gc_api_url (ge_config G)) e) '''' '''') Q s"
  using assms(3) [OF _ stuck_on_pass [OF assms(1) stuck_on_event(2) [OF assms(2)]]] assms(1)
  by (simp add: http_do_def wp_simps never_answered_def)

lemma stuck_done:
  assumes "never_answered G" "stuck_on G e es rs evs s" "\<And>s. stuck_on G e es rs evs s \<Longrightarrow> Q () s"
  shows "wp (gdacs_done (ge_seq G)) Q s"
  unfolding gdacs_done_def wp_bind
  by (rule stuck_clock_now [OF assms(1,2)]) (simp add: set_var_def wp_simps assms(3) stuck_on_vars)

lemma stuck_random:
  assumes "never_answered G" "stuck_on G e es rs evs s" "\<And>f s. stuck_on G e es rs evs s \<Longrightarrow> Q f s"
  shows "wp (random_below (ge_seq G)) Q s"
  using assms(3) [OF stuck_on_pass [OF assms(1,2)]] by (simp add: random_below_def wp_simps)

lemma stuck_retry:
  assumes "never_answered G" "stuck_on G e es rs evs s" "\<And>x s. stuck_on G e es rs evs s \<Longrightarrow> Q x s"
  shows "wp (retry_delay (ge_seq G) h p lo hi j) Q s"
  unfolding retry_delay_def clock_at_def wp_bind Let_def wp_return
  by (rule stuck_clock_now [OF assms(1,2)], rule stuck_random [OF assms(1)], assumption, rule assms(3))

lemma stuck_turn:
  assumes "never_answered G" "stuck_on G e es rs evs s"
  shows "stuck_on G e es rs evs (snd (run_state (gdacs_turn G) s))"
proof -
  obtain b where b: "gv_phase (rn_vars s) = Fetching e b es rs" using assms by (auto simp: stuck_on_def)
  have ask: "wp (ask_geometry G e b es rs) (\<lambda>_. stuck_on G e es rs evs) s" if "stuck_on G e es rs evs s" for s
    unfolding ask_geometry_def fetch_geometry_def wp_bind
    using that assms(1) by (auto intro!: stuck_http stuck_done stuck_retry stuck_pause [of G]
        stuck_on_vars simp: wp_simps set_phase_def set_var_def)
  have "wp (gdacs_turn G) (\<lambda>_. stuck_on G e es rs evs) s"
    unfolding gdacs_turn_def wp_bind get_var_def wp_gets b fetch_entry_def
    using assms by (auto intro!: stuck_ctx_ended [of G] stuck_wait [of G] ask simp: wp_simps)
  then show ?thesis by (cases "run_state (gdacs_turn G) s") (simp add: wp_def)
qed

text \<open>C40: an episode whose geometry never comes stops the GDACS adapter.  \<open>fetchGeometryWithRetry\<close> has no limit of attempts and no
  status that ends it: once the adapter fetches the geometry of an episode and every answer fails (a persistent 404, say),
  then for as long as the context lives it only pauses and asks for that geometry again, and neither polls events, nor sends
  the geometries it already has, nor sees its deadline.\<close>

theorem unanswered_geometry_stops_polling:
  assumes "never_answered G" "gv_phase (rn_vars s) = Fetching e b es rs" "\<not> rn_cancelled s"
  shows "stuck_on G e es rs (rn_events s) (turns n (gdacs_turn G) s)"
proof -
  have "stuck_on G e es rs evs (turns n (gdacs_turn G) s)" if "stuck_on G e es rs evs s" for evs s
    using that by (induction n arbitrary: s) (simp_all add: stuck_turn [OF assms(1)])
  moreover have "stuck_on G e es rs (rn_events s) s" using assms(2,3) by (auto simp: stuck_on_def)
  ultimately show ?thesis .
qed

text \<open>A publisher that answers everything with 404, and the adapter at the second of its pending episodes.\<close>

definition demo_gdacs :: gdacs_env where
  "demo_gdacs =
     \<lparr>ge_seq = \<lparr>sq_http = (\<lambda>_. Answer 404 (\<lambda>_. None) '''' False), sq_core = (\<lambda>_. DoError ''''), sq_decode_ack = (\<lambda>_. None),
        sq_cancel = (\<lambda>_. False), sq_woken = (\<lambda>_. True), sq_delta = (\<lambda>_. 0), sq_random = (\<lambda>_ _. 0), sq_parse_time = (\<lambda>_. None),
        sq_type = (\<lambda>_. None), sq_features = (\<lambda>_. None)\<rparr>,
      ge_config = load_gdacs_config (\<lambda>_. ''''), ge_episodes = (\<lambda>_. None), ge_entry_json = (\<lambda>_. '''')\<rparr>"

definition demo_episode :: "int \<Rightarrow> pending_episode" where
  "demo_episode n = \<lparr>pe_event_type = ''EQ'', pe_event_id = n, pe_episode_id = 1\<rparr>"

definition demo_stuck :: "gdacs_vars seq_run" where
  "demo_stuck = start_run ((start_gdacs demo_gdacs)\<lparr>gv_phase := Fetching (demo_episode 2) 0 []
     [\<lparr>gr_entry = demo_episode 1, gr_status = 204, gr_geometry = None\<rparr>]\<rparr>) 0"

theorem unanswered_geometry_stops_polling_witness:
  "stuck_on demo_gdacs (demo_episode 2) [] [\<lparr>gr_entry = demo_episode 1, gr_status = 204, gr_geometry = None\<rparr>] []
     (turns 1000 (gdacs_turn demo_gdacs) demo_stuck)"
  using unanswered_geometry_stops_polling [of demo_gdacs demo_stuck "demo_episode 2" 0 "[]" _ 1000]
  by (simp add: demo_stuck_def start_run_def never_answered_def demo_gdacs_def read_geometry_def read_limited_def)

end
