(* ===== verification/Emsc.thy ===== *)
theory Emsc
  imports Sequential Config "HOL-Library.Sublist"
begin

text \<open>
  The EMSC adapter (\<open>emsc_adapter/app/controller/controller.go\<close>, \<open>adapter/emsc.go\<close>, \<open>adapter/batch.go\<close>,
  \<open>adapter/matrix_whale.go\<close>): a backfill by FDSN queries, then the live feed, with a query for the gap after each
  disconnection.  The batcher between the subscription and the controller is a step function of what its \<open>select\<close>
  takes; the controller is a sequence of turns that receives the batches.
\<close>

section \<open>Messages and their dates\<close>

text \<open>Go compares strings bytewise.\<close>

fun go_less :: "string \<Rightarrow> string \<Rightarrow> bool" where
  "go_less _ [] = False"
| "go_less [] (_ # _) = True"
| "go_less (a # as) (b # bs) =
     ((of_char a :: nat) < of_char b \<or> (of_char a :: nat) = of_char b \<and> go_less as bs)"

definition later_of :: "string \<Rightarrow> string \<Rightarrow> string" where
  "later_of m u = (if go_less m u then u else m)"

record live_message =
  lm_raw :: string
  lm_last_update :: string

record fdsn_query =
  fq_start :: int
  fq_end :: int
  fq_order_by :: string
  fq_limit :: int
  fq_offset :: int
  fq_updated_after :: string

record emsc_env =
  ee_seq :: seq_env
  ee_config :: emsc_config
  ee_url :: "string \<Rightarrow> (string \<times> string) list \<Rightarrow> string option"
    \<comment> \<open>a base address with these values set in its query; \<open>None\<close>: it cannot be parsed\<close>
  ee_envelope :: "string \<Rightarrow> (string \<times> string) option" \<comment> \<open>\<open>action\<close> and \<open>data\<close> of a JSON object\<close>
  ee_last_update :: "string \<Rightarrow> string \<times> bool" \<comment> \<open>\<open>properties.lastupdate\<close> as decoded, and whether without an error\<close>
  ee_wrap :: "string \<Rightarrow> string" \<comment> \<open>the JSON of a create action\<close>
  ee_parse_date :: "string \<Rightarrow> int option" \<comment> \<open>\<open>time.Parse(time.RFC3339Nano, _)\<close> in nanoseconds\<close>
  ee_batch :: "nat \<Rightarrow> string list option" \<comment> \<open>the frames of the next batch; \<open>None\<close>: the channel is closed\<close>

definition parse_live_message :: "emsc_env \<Rightarrow> string \<Rightarrow> live_message option" where
  "parse_live_message E raw =
     (case ee_envelope E raw of
        None \<Rightarrow> None
      | Some (action, data) \<Rightarrow>
          if action = '''' \<or> data = '''' then None
          else Some \<lparr>lm_raw = raw, lm_last_update = fst (ee_last_update E data)\<rparr>)"

text \<open>The messages that the reading loop of \<open>Subscribe\<close> forwards from the frames it reads.\<close>

definition forwarded :: "emsc_env \<Rightarrow> string list \<Rightarrow> live_message list" where
  "forwarded E frames = List.map_filter (parse_live_message E) frames"

definition max_last_update_of_features :: "emsc_env \<Rightarrow> string list \<Rightarrow> string" where
  "max_last_update_of_features E features =
     fold (\<lambda>raw m. case ee_last_update E raw of (u, ok) \<Rightarrow> if ok then later_of m u else m) features ''''"

definition max_last_update_of_messages :: "live_message list \<Rightarrow> string" where
  "max_last_update_of_messages messages = fold (\<lambda>x m. later_of m (lm_last_update x)) messages ''''"

section \<open>The batcher\<close>

record batcher =
  bt_buf :: "live_message list"
  bt_timer :: bool
  bt_stopped :: bool

datatype batcher_input = Received live_message | InClosed | TimerFired | ContextDone

definition start_batcher :: batcher where
  "start_batcher = \<lparr>bt_buf = [], bt_timer = False, bt_stopped = False\<rparr>"

text \<open>What \<open>flush\<close> sends; once the context has ended its \<open>select\<close> may drop the batch instead.\<close>

definition flush_batch :: "bool \<Rightarrow> batcher \<Rightarrow> batcher \<times> live_message list list" where
  "flush_batch taken b =
     (if bt_buf b = [] then (b, [])
      else (b\<lparr>bt_buf := [], bt_timer := False\<rparr>, if taken then [bt_buf b] else []))"

text \<open>One round of the loop of \<open>Run\<close>, which has returned once stopped.\<close>

definition batcher_step :: "nat \<Rightarrow> bool \<Rightarrow> batcher_input \<Rightarrow> batcher \<Rightarrow> batcher \<times> live_message list list" where
  "batcher_step bsize taken i b =
     (case i of
        Received m \<Rightarrow>
          (let b = b\<lparr>bt_buf := bt_buf b @ [m], bt_timer := True\<rparr>
           in if bsize \<le> length (bt_buf b) then flush_batch taken b else (b, []))
      | TimerFired \<Rightarrow> flush_batch taken b
      | _ \<Rightarrow> (case flush_batch taken b of (b, out) \<Rightarrow> (b\<lparr>bt_stopped := True\<rparr>, out)))"

text \<open>A timer can only fire when it is set, and nothing is read after the loop has returned.\<close>

fun batcher_enabled :: "batcher_input \<Rightarrow> batcher \<Rightarrow> bool" where
  "batcher_enabled TimerFired b = (bt_timer b \<and> \<not> bt_stopped b)"
| "batcher_enabled _ b = (\<not> bt_stopped b)"

fun batcher_run :: "nat \<Rightarrow> (batcher_input \<times> bool) list \<Rightarrow> batcher \<Rightarrow> (batcher \<times> live_message list list) option" where
  "batcher_run bsize [] b = Some (b, [])"
| "batcher_run bsize ((i, taken) # is) b =
     (if batcher_enabled i b then
        (case batcher_step bsize taken i b of
           (b, out) \<Rightarrow> map_option (\<lambda>(b, outs). (b, out @ outs)) (batcher_run bsize is b))
      else None)"

section \<open>FDSN queries\<close>

definition maxFDSNBodySize :: nat where "maxFDSNBodySize = 64 * 2 ^ 20"
definition fdsnPageLimit :: nat where "fdsnPageLimit = 20000"
definition emscMinBackoff :: int where "emscMinBackoff = 5 * second"
definition emscMaxBackoff :: int where "emscMaxBackoff = 600 * second"
definition emscMaxJitter :: int where "emscMaxJitter = 5 * second"
definition gapFillLookback :: int where "gapFillLookback = 300 * second"

definition build_fdsn_url :: "emsc_env \<Rightarrow> fdsn_query \<Rightarrow> string option" where
  "build_fdsn_url E q =
     ee_url E (ec_fdsn_url (ee_config E))
       ([(''format'', ''json''), (''starttime'', rfc3339 (fq_start q)), (''endtime'', rfc3339 (fq_end q))] @
        (if fq_order_by q \<noteq> '''' then [(''orderby'', fq_order_by q)] else []) @
        (if 0 < fq_limit q then [(''limit'', show_int (fq_limit q))] else []) @
        [(''offset'', show_int (fq_offset q))] @
        (if fq_updated_after q \<noteq> '''' then [(''updatedafter'', fq_updated_after q)] else []))"

record fetch_result =
  fr_features :: "string list"
  fr_fetched_at :: int
  fr_status :: int
  fr_bytes :: nat
  fr_url :: string

definition no_fetch :: fetch_result where
  "no_fetch = \<lparr>fr_features = [], fr_fetched_at = 0, fr_status = 0, fr_bytes = 0, fr_url = ''''\<rparr>"

text \<open>The features of an answer, or an error.\<close>

definition answer_features :: "emsc_env \<Rightarrow> answer \<Rightarrow> string list option" where
  "answer_features E x =
     (case x of
        NoAnswer _ \<Rightarrow> None
      | Answer status _ content broken \<Rightarrow>
          (case read_limited content broken maxFDSNBodySize of
             Inl _ \<Rightarrow> None
           | Inr body \<Rightarrow>
               if status = 204 \<or> status = 404 then Some []
               else if status < 200 \<or> 300 \<le> status then None
               else map_option (case_option [] id) (sq_features (ee_seq E) body)))"

definition fetch_backfill_page :: "emsc_env \<Rightarrow> fdsn_query \<Rightarrow> ('v seq_run, fetch_result option) state" where
  "fetch_backfill_page E q =
     (case build_fdsn_url E q of
        None \<Rightarrow> ret None
      | Some target \<Rightarrow> do {
          x \<leftarrow> http_do (ee_seq E) target '''' '''';
          t \<leftarrow> clock_now (ee_seq E);
          ret (case x of
                 NoAnswer _ \<Rightarrow> None
               | Answer status _ content _ \<Rightarrow>
                   map_option (\<lambda>fs. \<lparr>fr_features = fs, fr_fetched_at = t, fr_status = status, fr_bytes = length content, fr_url = target\<rparr>)
                     (answer_features E x))
        })"

section \<open>Batches for the core\<close>

record emsc_batch =
  eb_features :: "string list"
  eb_fetched_at :: int
  eb_status :: int
  eb_bytes :: nat
  eb_feed_url :: string
  eb_backfill :: bool

definition backfill_batch :: "emsc_env \<Rightarrow> fetch_result \<Rightarrow> emsc_batch" where
  "backfill_batch E r =
     \<lparr>eb_features = map (ee_wrap E) (fr_features r), eb_fetched_at = fr_fetched_at r, eb_status = fr_status r,
      eb_bytes = fr_bytes r, eb_feed_url = fr_url r, eb_backfill = True\<rparr>"

definition live_batch :: "live_message list \<Rightarrow> string \<Rightarrow> int \<Rightarrow> emsc_batch" where
  "live_batch messages wsURL t =
     \<lparr>eb_features = map lm_raw messages, eb_fetched_at = t, eb_status = 200,
      eb_bytes = sum_list (map (\<lambda>m. length (lm_raw m)) messages), eb_feed_url = wsURL, eb_backfill = False\<rparr>"

definition post_batch :: "emsc_env \<Rightarrow> emsc_batch \<Rightarrow> ('v seq_run, bool) state" where
  "post_batch E b =
     post_core (ee_seq E) ''emsc_data/send''
       (seq_meta (rfc3339 (eb_fetched_at b)) (eb_status b) (length (eb_features b)) (eb_bytes b) (eb_feed_url b) (eb_backfill b))
       (eb_features b)"

section \<open>The controller\<close>

text \<open>The layout RFC3339Nano: a fraction without trailing zeros.\<close>

definition rfc3339_nano :: "int \<Rightarrow> string" where
  "rfc3339_nano t =
     (let n = t mod 10 ^ 9;
          digits = rev (dropWhile (\<lambda>c. c = CHR ''0'') (rev (append_int n 9)))
      in butlast (rfc3339 t) @ (if n = 0 then '''' else ''.'' @ digits) @ ''Z'')"

definition gap_fill_updated_after :: "emsc_env \<Rightarrow> string \<Rightarrow> string" where
  "gap_fill_updated_after E lastUpdate =
     (if lastUpdate = '''' then ''''
      else case ee_parse_date E lastUpdate of
             None \<Rightarrow> ''''
           | Some t \<Rightarrow> rfc3339_nano (t - gapFillLookback))"

text \<open>Where \<open>run\<close>, \<open>runFDSNSync\<close> and \<open>runLive\<close> stand; \<open>backoff\<close> of \<open>run\<close> is carried along.\<close>

datatype emsc_phase =
    SyncStart string \<comment> \<open>the date of the gap, empty at startup\<close>
  | Syncing fdsn_query int \<comment> \<open>the next page and the backoff\<close>
  | Connecting int
  | Live int int \<comment> \<open>the backoff of \<open>runLive\<close>, then of \<open>run\<close>\<close>
  | Delivering "live_message list" int int
  | Disconnected int
  | Ended

record emsc_vars =
  mv_last_update :: string
  mv_phase :: emsc_phase

definition start_emsc :: emsc_vars where
  "start_emsc = \<lparr>mv_last_update = '''', mv_phase = SyncStart ''''\<rparr>"

definition emsc_goto :: "emsc_phase \<Rightarrow> (emsc_vars seq_run, unit) state" where
  "emsc_goto p = set_var (\<lambda>v. v\<lparr>mv_phase := p\<rparr>)"

definition note_update :: "string \<Rightarrow> (emsc_vars seq_run, unit) state" where
  "note_update u = set_var (\<lambda>v. v\<lparr>mv_last_update := later_of (mv_last_update v) u\<rparr>)"

definition emsc_retry :: "emsc_env \<Rightarrow> int \<Rightarrow> (int \<Rightarrow> emsc_phase) \<Rightarrow> emsc_phase \<Rightarrow> (emsc_vars seq_run, unit) state" where
  "emsc_retry E backoff again given_up = do {
     (backoff, delay) \<leftarrow> retry_delay (ee_seq E) (\<lambda>_. None) backoff emscMinBackoff emscMaxBackoff emscMaxJitter;
     ok \<leftarrow> pause (ee_seq E) delay;
     emsc_goto (if ok then again backoff else given_up)
   }"

definition sync_start :: "emsc_env \<Rightarrow> string \<Rightarrow> (emsc_vars seq_run, unit) state" where
  "sync_start E updatedAfter = do {
     t \<leftarrow> clock_now (ee_seq E);
     emsc_goto (Syncing \<lparr>fq_start = t + s64 (- ec_backfill_days (ee_config E) * 24 * 3600 * second), fq_end = t,
       fq_order_by = ''time-asc'', fq_limit = int fdsnPageLimit, fq_offset = 1, fq_updated_after = updatedAfter\<rparr> 0)
   }"

text \<open>What follows a page that the core has accepted.\<close>

definition page_accepted :: "emsc_env \<Rightarrow> fdsn_query \<Rightarrow> string list \<Rightarrow> (emsc_vars seq_run, unit) state" where
  "page_accepted E q features = do {
     note_update (max_last_update_of_features E features);
     emsc_goto (if length features < fdsnPageLimit then Connecting 0
                else Syncing (q\<lparr>fq_offset := fq_offset q + int fdsnPageLimit\<rparr>) 0)
   }"

definition sync_page :: "emsc_env \<Rightarrow> fdsn_query \<Rightarrow> int \<Rightarrow> (emsc_vars seq_run, unit) state" where
  "sync_page E q backoff = do {
     ended \<leftarrow> ctx_ended (ee_seq E);
     if ended then emsc_goto Ended
     else do {
       x \<leftarrow> fetch_backfill_page E q;
       case x of
         None \<Rightarrow> emsc_retry E backoff (Syncing q) Ended
       | Some r \<Rightarrow> do {
           ok \<leftarrow> post_batch E (backfill_batch E r);
           if ok then page_accepted E q (fr_features r) else emsc_retry E backoff (Syncing q) Ended
         }
     }
   }"

text \<open>The head of the loop of \<open>run\<close>.\<close>

definition connect_live :: "emsc_env \<Rightarrow> int \<Rightarrow> (emsc_vars seq_run, unit) state" where
  "connect_live E r = do {
     ended \<leftarrow> ctx_ended (ee_seq E);
     emsc_goto (if ended then Ended else Live 0 r)
   }"

definition next_batch :: "emsc_env \<Rightarrow> ('v seq_run, live_message list option) state" where
  "next_batch E = do {
     x \<leftarrow> gets (\<lambda>s. ee_batch E (rn_tick s));
     modify (pass (ee_seq E));
     ret (map_option (forwarded E) x)
   }"

definition live_round :: "emsc_env \<Rightarrow> int \<Rightarrow> int \<Rightarrow> (emsc_vars seq_run, unit) state" where
  "live_round E backoff r = do {
     x \<leftarrow> next_batch E;
     emsc_goto (case x of None \<Rightarrow> Disconnected r | Some batch \<Rightarrow> Delivering batch backoff r)
   }"

text \<open>One attempt to send a batch; giving up, \<open>runLive\<close> returns, and the context has ended.\<close>

definition deliver_live :: "emsc_env \<Rightarrow> live_message list \<Rightarrow> int \<Rightarrow> int \<Rightarrow> (emsc_vars seq_run, unit) state" where
  "deliver_live E batch backoff r = do {
     t \<leftarrow> clock_now (ee_seq E);
     ok \<leftarrow> post_batch E (live_batch batch (ec_websocket_url (ee_config E)) t);
     if ok then do {
       note_update (max_last_update_of_messages batch);
       emsc_goto (Live 0 r)
     }
     else emsc_retry E backoff (\<lambda>b. Delivering batch b r) Ended
   }"

text \<open>The rest of the loop of \<open>run\<close>; after the sync its backoff is 0 again.\<close>

definition reconnect :: "emsc_env \<Rightarrow> int \<Rightarrow> (emsc_vars seq_run, unit) state" where
  "reconnect E r = do {
     ended \<leftarrow> ctx_ended (ee_seq E);
     if ended then emsc_goto Ended
     else do {
       m \<leftarrow> get_var mv_last_update;
       emsc_retry E r (\<lambda>_. SyncStart (gap_fill_updated_after E m)) Ended
     }
   }"

definition emsc_turn :: "emsc_env \<Rightarrow> (emsc_vars seq_run, unit) state" where
  "emsc_turn E = do {
     p \<leftarrow> get_var mv_phase;
     case p of
       SyncStart u \<Rightarrow> sync_start E u
     | Syncing q b \<Rightarrow> sync_page E q b
     | Connecting r \<Rightarrow> connect_live E r
     | Live b r \<Rightarrow> live_round E b r
     | Delivering batch b r \<Rightarrow> deliver_live E batch b r
     | Disconnected r \<Rightarrow> reconnect E r
     | Ended \<Rightarrow> ret ()
   }"

section \<open>The batcher keeps every message\<close>

fun received :: "(batcher_input \<times> bool) list \<Rightarrow> live_message list" where
  "received [] = []"
| "received ((Received m, _) # is) = m # received is"
| "received (_ # is) = received is"

definition batcher_ok :: "nat \<Rightarrow> batcher \<Rightarrow> bool" where
  "batcher_ok bsize b \<longleftrightarrow>
     bt_timer b = (bt_buf b \<noteq> []) \<and> length (bt_buf b) < bsize \<and> (bt_stopped b \<longrightarrow> bt_buf b = [])"

lemma batcher_step_ok:
  assumes "batcher_step bsize taken i b = (b', out)" "batcher_ok bsize b" "batcher_enabled i b"
  shows "batcher_ok bsize b'" "\<forall>x \<in> set out. 0 < length x \<and> length x \<le> bsize"
    "taken \<Longrightarrow> concat out @ bt_buf b' = bt_buf b @ received [(i, taken)]"
    "subseq (concat out @ bt_buf b') (bt_buf b @ received [(i, taken)])"
  using assms by (cases i; auto simp: batcher_step_def flush_batch_def batcher_ok_def Let_def split: if_splits)+

lemma received_Cons: "received (x # is) = received [x] @ received is"
  by (cases x; cases "fst x") auto

lemma batcher_run_ok:
  assumes "batcher_run bsize is b = Some (b', out)" "batcher_ok bsize b"
  shows "batcher_ok bsize b' \<and> (\<forall>x \<in> set out. 0 < length x \<and> length x \<le> bsize) \<and>
    (list_all snd is \<longrightarrow> concat out @ bt_buf b' = bt_buf b @ received is) \<and>
    subseq (concat out @ bt_buf b') (bt_buf b @ received is)"
  using assms
proof (induction "is" arbitrary: b out)
  case (Cons x "is")
  obtain i taken where x: "x = (i, taken)" by fastforce
  obtain b1 out1 out2 where step: "batcher_enabled i b" "batcher_step bsize taken i b = (b1, out1)"
    and rest: "batcher_run bsize is b1 = Some (b', out2)" and out: "out = out1 @ out2"
    using Cons.prems(1) unfolding x by (auto split: if_splits prod.splits)
  note now = batcher_step_ok [OF step(2) Cons.prems(2) step(1)]
  note later = Cons.IH [OF rest now(1)]
  have "subseq (concat out1 @ (concat out2 @ bt_buf b')) (concat out1 @ (bt_buf b1 @ received is))"
    by (rule list_emb_append_mono [OF subseq_order.order_refl]) (use later in blast)
  moreover have "subseq ((concat out1 @ bt_buf b1) @ received is) ((bt_buf b @ received [x]) @ received is)"
    by (rule list_emb_append_mono [OF _ subseq_order.order_refl]) (use now(4) in \<open>simp add: x\<close>)
  ultimately have sub: "subseq (concat out @ bt_buf b') (bt_buf b @ received (x # is))"
    unfolding out received_Cons [of x "is"] by (auto intro: subseq_order.trans)
  have all: "concat out @ bt_buf b' = bt_buf b @ received (x # is)" if "list_all snd (x # is)"
  proof -
    have "concat out1 @ bt_buf b1 = bt_buf b @ received [x]" "concat out2 @ bt_buf b' = bt_buf b1 @ received is"
      using that now(3) later unfolding x by auto
    then show ?thesis unfolding out received_Cons [of x "is"] by (metis append.assoc concat_append)
  qed
  show ?case using now later sub all unfolding out by auto
qed simp

text \<open>C38: the batcher of the EMSC adapter loses and reorders nothing.  Whatever it reads and however its timer fires, the
  batches it sends have between one message and the batch size, the timer runs exactly while messages are buffered, and
  the batches one after another followed by the buffer are the messages read, in order; once it has returned the
  buffer is empty, so a disconnection drops nothing.  Only when the context has ended may batches be dropped, and the
  others still come in order.\<close>

theorem batches_are_the_messages:
  assumes "batcher_run bsize is start_batcher = Some (b, out)" "0 < bsize"
  shows "(\<forall>x \<in> set out. 0 < length x \<and> length x \<le> bsize) \<and>
    bt_timer b = (bt_buf b \<noteq> []) \<and> (bt_stopped b \<longrightarrow> bt_buf b = []) \<and>
    subseq (concat out @ bt_buf b) (received is) \<and>
    (list_all snd is \<longrightarrow> concat out @ bt_buf b = received is)"
  using batcher_run_ok [OF assms(1)] assms(2) by (auto simp: batcher_ok_def start_batcher_def)

theorem batches_are_the_messages_witness:
  "let m = \<lambda>c. \<lparr>lm_raw = [c], lm_last_update = ''''\<rparr> in
   batcher_run 2 [(Received (m CHR ''a''), True), (Received (m CHR ''b''), True), (Received (m CHR ''c''), True), (TimerFired, True),
     (Received (m CHR ''d''), True), (InClosed, True)] start_batcher
   = Some (\<lparr>bt_buf = [], bt_timer = False, bt_stopped = True\<rparr>, [[m CHR ''a'', m CHR ''b''], [m CHR ''c''], [m CHR ''d'']])
   \<and> concat [[m CHR ''a'', m CHR ''b''], [m CHR ''c''], [m CHR ''d'']] = [m CHR ''a'', m CHR ''b'', m CHR ''c'', m CHR ''d'']"
proof -
  let ?m = "\<lambda>c. \<lparr>lm_raw = [c], lm_last_update = ''''\<rparr>"
  let ?is = "[(Received (?m CHR ''a''), True), (Received (?m CHR ''b''), True), (Received (?m CHR ''c''), True), (TimerFired, True),
     (Received (?m CHR ''d''), True), (InClosed, True)]"
  have "batcher_run 2 ?is start_batcher = Some (\<lparr>bt_buf = [], bt_timer = False, bt_stopped = True\<rparr>,
      [[?m CHR ''a'', ?m CHR ''b''], [?m CHR ''c''], [?m CHR ''d'']])"
    by (simp add: batcher_step_def flush_batch_def start_batcher_def Let_def)
  then show ?thesis using batches_are_the_messages [of 2 ?is] by (simp add: Let_def)
qed

section \<open>What the trace calls for\<close>

text \<open>The greatest date among what the core has accepted, with the features of the last answer.\<close>

definition note_emsc :: "emsc_env \<Rightarrow> seq_event \<Rightarrow> string list \<times> string \<Rightarrow> string list \<times> string" where
  "note_emsc E e p =
     (case e of
        EvRequest _ _ _ x \<Rightarrow> (case_option [] id (answer_features E x), snd p)
      | EvPost _ meta sent ok \<Rightarrow>
          (fst p,
           if ok then later_of (snd p) (if pm_backfill meta then max_last_update_of_features E (fst p)
                                        else max_last_update_of_messages (forwarded E sent))
           else snd p)
      | _ \<Rightarrow> p)"

definition accepted_update :: "emsc_env \<Rightarrow> seq_event list \<Rightarrow> string" where
  "accepted_update E evs = snd (fold (note_emsc E) evs ([], ''''))"

text \<open>A live batch that the core has refused and not yet accepted.\<close>

definition note_refused :: "seq_event \<Rightarrow> string list option \<Rightarrow> string list option" where
  "note_refused e u =
     (case e of
        EvPost _ meta fs ok \<Rightarrow> if ok \<or> pm_backfill meta then None else Some fs
      | EvPause _ \<Rightarrow> u
      | _ \<Rightarrow> None)"

definition refused_batch :: "seq_event list \<Rightarrow> string list option" where
  "refused_batch evs = fold note_refused evs None"

definition page_taken :: "emsc_env \<Rightarrow> fdsn_query \<Rightarrow> seq_event list \<Rightarrow> bool" where
  "page_taken E q evs \<longleftrightarrow>
     (\<exists>meta fs. EvPost ''emsc_data/send'' meta fs True \<in> set evs \<and> pm_backfill meta \<and>
        build_fdsn_url E q = Some (pm_feed_url meta) \<and> fdsnPageLimit \<le> length fs)"

definition synced :: "seq_event list \<Rightarrow> bool" where
  "synced evs \<longleftrightarrow>
     (\<exists>meta fs. EvPost ''emsc_data/send'' meta fs True \<in> set evs \<and> pm_backfill meta \<and> length fs < fdsnPageLimit)"

text \<open>The date of a gap is that of the moment of the run since which no live batch has been posted.\<close>

fun live_post :: "seq_event \<Rightarrow> bool" where
  "live_post (EvPost _ meta _ _) = (\<not> pm_backfill meta)"
| "live_post _ = False"

definition gap_of :: "emsc_env \<Rightarrow> seq_event list \<Rightarrow> string \<Rightarrow> bool" where
  "gap_of E evs u \<longleftrightarrow>
     (\<exists>xs ys. evs = xs @ ys \<and> \<not> list_ex live_post ys \<and> u = gap_fill_updated_after E (accepted_update E xs))"

definition query_ok :: "emsc_env \<Rightarrow> seq_event list \<Rightarrow> fdsn_query \<Rightarrow> bool" where
  "query_ok E evs q \<longleftrightarrow>
     fq_limit q = int fdsnPageLimit \<and> fq_order_by q = ''time-asc'' \<and> gap_of E evs (fq_updated_after q) \<and> 1 \<le> fq_offset q \<and>
     (fq_offset q = 1 \<or> page_taken E (q\<lparr>fq_offset := fq_offset q - int fdsnPageLimit\<rparr>) evs)"

definition emsc_event_ok :: "emsc_env \<Rightarrow> seq_event list \<Rightarrow> seq_event \<Rightarrow> bool" where
  "emsc_event_ok E evs e =
     (case e of
        EvRequest url etag lm _ \<Rightarrow>
          etag = '''' \<and> lm = '''' \<and> refused_batch evs = None \<and> (\<exists>q. build_fdsn_url E q = Some url \<and> query_ok E evs q)
      | EvPost path meta fs _ \<Rightarrow>
          path = ''emsc_data/send'' \<and> pm_feature_count meta = length fs \<and>
          (if pm_backfill meta then
             (\<exists>x raw. evs \<noteq> [] \<and> last evs = EvRequest (pm_feed_url meta) '''' '''' x \<and> answer_features E x = Some raw \<and>
                fs = map (ee_wrap E) raw)
           else synced evs \<and> (refused_batch evs = None \<or> refused_batch evs = Some fs))
      | EvPause _ \<Rightarrow> True
      | EvLookup _ _ \<Rightarrow> False)"

definition emsc_phase_ok :: "emsc_env \<Rightarrow> seq_event list \<Rightarrow> emsc_phase \<Rightarrow> bool" where
  "emsc_phase_ok E evs p \<longleftrightarrow>
     (case p of
        SyncStart u \<Rightarrow> refused_batch evs = None \<and> gap_of E evs u
      | Syncing q _ \<Rightarrow> refused_batch evs = None \<and> query_ok E evs q
      | Delivering batch _ _ \<Rightarrow>
          synced evs \<and> forwarded E (map lm_raw batch) = batch \<and>
          (refused_batch evs = None \<or> refused_batch evs = Some (map lm_raw batch))
      | Ended \<Rightarrow> True
      | _ \<Rightarrow> refused_batch evs = None \<and> synced evs)"

definition emsc_trace_inv :: "emsc_env \<Rightarrow> seq_event list \<Rightarrow> emsc_vars \<Rightarrow> bool" where
  "emsc_trace_inv E evs v \<longleftrightarrow> judged (emsc_event_ok E) evs \<and> mv_last_update v = accepted_update E evs"

definition emsc_inv :: "emsc_env \<Rightarrow> seq_event list \<Rightarrow> emsc_vars \<Rightarrow> bool" where
  "emsc_inv E evs v \<longleftrightarrow> emsc_trace_inv E evs v \<and> emsc_phase_ok E evs (mv_phase v)"

lemma refused_batch_snoc [simp]:
  "refused_batch [] = None"
  "refused_batch (evs @ [EvRequest u etag lm x]) = None"
  "refused_batch (evs @ [EvPost path meta fs ok]) = (if ok \<or> pm_backfill meta then None else Some fs)"
  "refused_batch (evs @ [EvPause d]) = refused_batch evs"
  by (simp_all add: refused_batch_def note_refused_def)

lemma accepted_update_snoc [simp]:
  "accepted_update E [] = ''''"
  "accepted_update E (evs @ [EvRequest u etag lm x]) = accepted_update E evs"
  "accepted_update E (evs @ [EvPost path meta fs False]) = accepted_update E evs"
  "accepted_update E (evs @ [EvPause d]) = accepted_update E evs"
  by (simp_all add: accepted_update_def note_emsc_def)

lemma accepted_update_live:
  "\<not> pm_backfill meta \<Longrightarrow> accepted_update E (evs @ [EvPost path meta fs True]) =
     later_of (accepted_update E evs) (max_last_update_of_messages (forwarded E fs))"
  by (simp add: accepted_update_def note_emsc_def)

lemma accepted_update_page:
  "pm_backfill meta \<Longrightarrow> answer_features E x = Some raw \<Longrightarrow>
    accepted_update E (evs @ [EvRequest u etag lm x, EvPost path meta fs True]) =
      later_of (accepted_update E evs) (max_last_update_of_features E raw)"
  by (simp add: accepted_update_def note_emsc_def)

named_theorems emsc_grows \<comment> \<open>what a longer trace still shows\<close>

lemma page_taken_snoc [emsc_grows]: "page_taken E q evs \<Longrightarrow> page_taken E q (evs @ [e])"
  by (fastforce simp: page_taken_def)

lemma synced_snoc [emsc_grows]: "synced evs \<Longrightarrow> synced (evs @ [e])"
  by (fastforce simp: synced_def)

lemma gap_of_snoc [emsc_grows]:
  assumes "gap_of E evs u" "\<not> live_post e"
  shows "gap_of E (evs @ [e]) u"
proof -
  obtain xs ys where "evs = xs @ ys" "\<not> list_ex live_post ys" "u = gap_fill_updated_after E (accepted_update E xs)"
    using assms(1) unfolding gap_of_def by blast
  then show ?thesis unfolding gap_of_def using assms(2) by (intro exI [of _ xs] exI [of _ "ys @ [e]"]) simp
qed

lemma query_ok_snoc [emsc_grows]: "query_ok E evs q \<Longrightarrow> \<not> live_post e \<Longrightarrow> query_ok E (evs @ [e]) q"
  by (auto simp: query_ok_def intro: emsc_grows)

lemma gap_of_now: "gap_of E evs (gap_fill_updated_after E (accepted_update E evs))"
  unfolding gap_of_def by (intro exI [of _ evs] exI [of _ "[]"]) simp

lemma forwarded_raw: "forwarded E (map lm_raw (forwarded E frames)) = forwarded E frames"
  by (induction frames)
    (auto simp: forwarded_def map_filter_def parse_live_message_def split: option.splits if_splits)

section \<open>Every turn keeps it\<close>

lemma emsc_phase_ok_pause [simp]: "emsc_phase_ok E evs p \<Longrightarrow> emsc_phase_ok E (evs @ [EvPause d]) p"
  by (auto simp: emsc_phase_ok_def intro: emsc_grows split: emsc_phase.splits)

lemma emsc_trace_inv_pause [simp]: "emsc_trace_inv E evs v \<Longrightarrow> emsc_trace_inv E (evs @ [EvPause d]) v"
  by (simp add: emsc_trace_inv_def emsc_event_ok_def)

lemma wpo_emsc_goto:
  "emsc_trace_inv E evs v \<Longrightarrow> emsc_phase_ok E evs p \<Longrightarrow> wpo (emsc_goto p) (\<lambda>_. emsc_inv E) evs v"
  unfolding emsc_goto_def by (rule wpo_set_var) (simp add: emsc_inv_def emsc_trace_inv_def)

lemma wpo_emsc_retry:
  assumes "emsc_trace_inv E evs v" "\<And>b. emsc_phase_ok E evs (again b)" "emsc_phase_ok E evs given_up"
  shows "wpo (emsc_retry E b again given_up) (\<lambda>_. emsc_inv E) evs v"
  unfolding emsc_retry_def
  using assms by (intro wpo_bind wpo_retry_delay wpo_prod wpo_pause wpo_emsc_goto) simp_all

lemma wpo_sync_start:
  assumes "emsc_trace_inv E evs v" "refused_batch evs = None" "gap_of E evs u"
  shows "wpo (sync_start E u) (\<lambda>_. emsc_inv E) evs v"
  unfolding sync_start_def
  using assms by (intro wpo_bind wpo_clock_now wpo_emsc_goto) (simp_all add: emsc_phase_ok_def query_ok_def)

lemma wpo_connect_live:
  assumes "emsc_trace_inv E evs v" "refused_batch evs = None" "synced evs"
  shows "wpo (connect_live E r) (\<lambda>_. emsc_inv E) evs v"
  unfolding connect_live_def
  using assms by (intro wpo_bind wpo_ctx_ended wpo_emsc_goto) (simp_all add: emsc_phase_ok_def)

lemma wpo_next_batch: "(\<And>x. Q (map_option (forwarded E) x) evs v) \<Longrightarrow> wpo (next_batch E) Q evs v"
  by (simp add: wpo_def next_batch_def wp_simps)

lemma wpo_live_round:
  assumes "emsc_trace_inv E evs v" "refused_batch evs = None" "synced evs"
  shows "wpo (live_round E b r) (\<lambda>_. emsc_inv E) evs v"
  unfolding live_round_def
  using assms by (intro wpo_bind wpo_next_batch wpo_emsc_goto)
    (auto simp: emsc_phase_ok_def forwarded_raw split: option.split)

lemma wpo_reconnect:
  assumes "emsc_trace_inv E evs v" "refused_batch evs = None"
  shows "wpo (reconnect E r) (\<lambda>_. emsc_inv E) evs v"
  unfolding reconnect_def
  using assms gap_of_now [of E evs]
  by (intro wpo_bind wpo_ctx_ended wpo_if wpo_get_var wpo_emsc_goto wpo_emsc_retry) (auto simp: emsc_phase_ok_def emsc_trace_inv_def)

lemma wpo_post_batch:
  assumes "\<And>meta ok. pm_backfill meta = eb_backfill b \<Longrightarrow> pm_feature_count meta = length (eb_features b) \<Longrightarrow>
    pm_feed_url meta = eb_feed_url b \<Longrightarrow> Q ok (evs @ [EvPost ''emsc_data/send'' meta (eb_features b) ok]) v"
  shows "wpo (post_batch E b) Q evs v"
  unfolding post_batch_def by (intro wpo_post_core assms) (simp_all add: seq_meta_def)

lemma wpo_deliver_live:
  assumes inv: "emsc_trace_inv E evs v" and ok: "emsc_phase_ok E evs (Delivering batch b r)"
  shows "wpo (deliver_live E batch b r) (\<lambda>_. emsc_inv E) evs v"
  unfolding deliver_live_def
proof (intro wpo_bind wpo_clock_now wpo_post_batch wpo_if, goal_cases)
  case (1 t meta accepted)
  let ?evs = "evs @ [EvPost ''emsc_data/send'' meta (map lm_raw batch) True]"
  have "emsc_trace_inv E ?evs (v\<lparr>mv_last_update := later_of (mv_last_update v) (max_last_update_of_messages batch)\<rparr>)"
    using inv ok 1 by (auto simp: emsc_trace_inv_def emsc_event_ok_def emsc_phase_ok_def live_batch_def accepted_update_live)
  moreover have "emsc_phase_ok E ?evs (Live 0 r)"
    using ok by (auto simp: emsc_phase_ok_def intro: emsc_grows)
  ultimately show ?case
    using 1 by (auto intro!: wpo_bind wpo_set_var wpo_emsc_goto simp: note_update_def live_batch_def)
next
  case (2 t meta accepted)
  let ?evs = "evs @ [EvPost ''emsc_data/send'' meta (map lm_raw batch) False]"
  have "emsc_trace_inv E ?evs v"
    using inv ok 2 by (auto simp: emsc_trace_inv_def emsc_event_ok_def emsc_phase_ok_def live_batch_def)
  moreover have "emsc_phase_ok E ?evs (Delivering batch b' r)" for b'
    using ok 2 by (auto simp: emsc_phase_ok_def live_batch_def intro: emsc_grows)
  ultimately show ?case
    using 2 by (auto intro!: wpo_emsc_retry simp: live_batch_def emsc_phase_ok_def [of _ _ Ended])
qed

lemma wpo_fetch_backfill_page:
  assumes "Q None evs v"
    and "\<And>url x. build_fdsn_url E q = Some url \<Longrightarrow> Q None (evs @ [EvRequest url '''' '''' x]) v"
    and "\<And>url x r. build_fdsn_url E q = Some url \<Longrightarrow> answer_features E x = Some (fr_features r) \<Longrightarrow> fr_url r = url \<Longrightarrow>
      Q (Some r) (evs @ [EvRequest url '''' '''' x]) v"
  shows "wpo (fetch_backfill_page E q) Q evs v"
proof (cases "build_fdsn_url E q")
  case (Some url)
  show ?thesis
    unfolding fetch_backfill_page_def Some option.case
  proof (intro wpo_bind wpo_http_do wpo_clock_now wpo_return, goal_cases)
    case (1 x t)
    show ?case
    proof (cases "answer_features E x")
      case None
      then show ?thesis using assms(2) [OF Some] by (cases x) (auto simp: answer_features_def)
    next
      case features: (Some fs)
      then show ?thesis using assms(3) [OF Some] by (cases x) (auto simp: answer_features_def)
    qed
  qed
qed (simp add: fetch_backfill_page_def wpo_return assms(1))

lemma emsc_asked:
  assumes "emsc_trace_inv E evs v" "refused_batch evs = None" "query_ok E evs q" "build_fdsn_url E q = Some url"
  shows "emsc_trace_inv E (evs @ [EvRequest url '''' '''' x]) v"
  using assms by (auto simp: emsc_trace_inv_def emsc_event_ok_def)

lemma wpo_page_accepted:
  assumes inv: "emsc_trace_inv E (evs @ [EvRequest url '''' '''' x]) v" and q: "query_ok E evs q" "build_fdsn_url E q = Some url"
    and post: "pm_backfill meta" "pm_feature_count meta = length fs" "pm_feed_url meta = url"
      "answer_features E x = Some raw" "fs = map (ee_wrap E) raw"
  shows "wpo (page_accepted E q raw) (\<lambda>_. emsc_inv E) (evs @ [EvRequest url '''' '''' x, EvPost ''emsc_data/send'' meta fs True]) v"
proof -
  let ?asked = "evs @ [EvRequest url '''' '''' x]"
  let ?post = "EvPost ''emsc_data/send'' meta fs True"
  let ?evs = "evs @ [EvRequest url '''' '''' x, ?post]"
  have "judged (emsc_event_ok E) (?asked @ [?post])"
    using inv post unfolding judged_snoc emsc_trace_inv_def by (auto simp: emsc_event_ok_def)
  then have "emsc_trace_inv E ?evs (v\<lparr>mv_last_update := later_of (mv_last_update v) (max_last_update_of_features E raw)\<rparr>)"
    using inv accepted_update_page [OF post(1,4)] by (simp add: emsc_trace_inv_def del: judged_snoc)
  moreover have "synced ?evs" if "length raw < fdsnPageLimit" using that post by (fastforce simp: synced_def)
  moreover have "page_taken E q ?evs" if "fdsnPageLimit \<le> length raw" using that post q(2) by (fastforce simp: page_taken_def)
  moreover have "query_ok E ?evs q" using query_ok_snoc [OF query_ok_snoc [OF q(1)]] post(1) by simp
  moreover have "refused_batch ?evs = None" using refused_batch_snoc(3) [where evs = ?asked] by simp
  ultimately have "emsc_trace_inv E ?evs (v\<lparr>mv_last_update := later_of (mv_last_update v) (max_last_update_of_features E raw)\<rparr>)"
    "emsc_phase_ok E ?evs (if length raw < fdsnPageLimit then Connecting 0 else Syncing (q\<lparr>fq_offset := fq_offset q + int fdsnPageLimit\<rparr>) 0)"
    by (auto simp: emsc_phase_ok_def query_ok_def)
  then show ?thesis
    unfolding page_accepted_def note_update_def by (intro wpo_bind wpo_set_var wpo_emsc_goto)
qed

lemma wpo_sync_page:
  assumes inv: "emsc_trace_inv E evs v" and q: "refused_batch evs = None" "query_ok E evs q"
  shows "wpo (sync_page E q b) (\<lambda>_. emsc_inv E) evs v"
  unfolding sync_page_def
proof (intro wpo_bind wpo_ctx_ended wpo_if wpo_fetch_backfill_page, goal_cases)
  case (1 ended)
  then show ?case using inv by (simp add: wpo_emsc_goto emsc_phase_ok_def)
next
  case (2 ended)
  then show ?case using inv q by (auto intro!: wpo_emsc_retry simp: emsc_phase_ok_def)
next
  case (3 ended url x)
  show ?case
    using emsc_asked [OF inv q 3(2)] query_ok_snoc [OF q(2)] by (auto intro!: wpo_emsc_retry simp: emsc_phase_ok_def)
next
  case (4 ended url x r)
  note asked = emsc_asked [OF inv q 4(2), of x]
  have refused: "emsc_trace_inv E (evs @ [EvRequest url '''' '''' x, EvPost ''emsc_data/send'' meta fs False]) v"
    if "pm_backfill meta" "pm_feature_count meta = length fs" "pm_feed_url meta = url" "fs = map (ee_wrap E) (fr_features r)" for meta fs
  proof -
    have "judged (emsc_event_ok E) ((evs @ [EvRequest url '''' '''' x]) @ [EvPost ''emsc_data/send'' meta fs False])"
      using asked that 4(3) unfolding judged_snoc emsc_trace_inv_def by (auto simp: emsc_event_ok_def)
    then show ?thesis
      using asked accepted_update_snoc(3) [where evs = "evs @ [EvRequest url '''' '''' x]"]
      by (simp add: emsc_trace_inv_def del: judged_snoc)
  qed
  have again: "emsc_phase_ok E (evs @ [EvRequest url '''' '''' x, EvPost ''emsc_data/send'' meta fs False]) (Syncing q b')"
    if "pm_backfill meta" for meta fs b'
    using that query_ok_snoc [OF query_ok_snoc [OF q(2)]] refused_batch_snoc(3) [where evs = "evs @ [EvRequest url '''' '''' x]"]
    by (simp add: emsc_phase_ok_def)
  show ?case
    unfolding option.case
  proof (intro wpo_bind wpo_post_batch wpo_if, goal_cases)
    case (1 meta ok)
    then show ?case
      using wpo_page_accepted [OF asked q(2) 4(2), of meta] 4(3,4) by (simp add: backfill_batch_def)
  next
    case (2 meta ok)
    then show ?case
      using refused again 4(4) by (auto intro!: wpo_emsc_retry simp: backfill_batch_def emsc_phase_ok_def [of _ _ Ended])
  qed
qed

interpretation emsc_runs: judged_adapter "emsc_turn E" start_emsc "emsc_inv E" "emsc_event_ok E" for E
proof
  show "emsc_inv E [] start_emsc"
    by (simp add: emsc_inv_def emsc_trace_inv_def emsc_phase_ok_def start_emsc_def gap_of_def gap_fill_updated_after_def)
  show "wpo (emsc_turn E) (\<lambda>_. emsc_inv E) evs v" if "emsc_inv E evs v" for evs v
    unfolding emsc_turn_def
    using that by (intro wpo_bind wpo_get_var, cases "mv_phase v")
      (auto simp: emsc_inv_def emsc_phase_ok_def [of _ _ "SyncStart _"] emsc_phase_ok_def [of _ _ "Syncing _ _"]
        emsc_phase_ok_def [of _ _ "Connecting _"] emsc_phase_ok_def [of _ _ "Live _ _"] emsc_phase_ok_def [of _ _ "Disconnected _"]
        wpo_sync_start wpo_sync_page wpo_connect_live wpo_live_round wpo_deliver_live wpo_reconnect wpo_return)
qed (simp add: emsc_inv_def emsc_trace_inv_def)

text \<open>C37: the EMSC adapter neither skips nor reorders.  In every run it first asks for the startup backfill, page by page from offset 1,
  a further page only after the core has accepted the full page before it; each gap is asked for from the greatest date among
  all that the core had accepted when the live feed was lost (no live batch is posted in between), less the lookback; a page is posted exactly as received, wrapped; live
  batches are posted only after a last backfill page has been accepted, and after a refused live batch nothing is asked
  and nothing else is posted until that same batch has been accepted.\<close>

theorem emsc_runs_in_order:
  "judged (emsc_event_ok E) (rn_events (turns n (emsc_turn E) (start_run start_emsc t)))"
  by (rule emsc_runs.run_judged)

end
