(* ===== verification/Telemetry.thy ===== *)
theory Telemetry
  imports Prelude
begin

text \<open>
  What the adapters report of themselves: the counting transport around every HTTP client
  (\<open>adapters/common/metrics/metrics.go\<close>) and the log handler that posts records to the core
  (\<open>adapters/common/logging/handler.go\<close>).  The Prometheus library's counters and gauges are the fields of a record.
\<close>

section \<open>The metrics\<close>

record telemetry =
  tl_requests :: "string \<times> string \<Rightarrow> nat" \<comment> \<open>by peer and code\<close>
  tl_durations :: "string \<Rightarrow> int list"
  tl_last_success :: "string \<Rightarrow> int option"
  tl_connected :: bool
  tl_messages :: nat

definition no_telemetry :: telemetry where
  "no_telemetry = \<lparr>tl_requests = (\<lambda>_. 0), tl_durations = (\<lambda>_. []), tl_last_success = (\<lambda>_. None), tl_connected = False,
     tl_messages = 0\<rparr>"

text \<open>An exchange: who was asked, when it began and ended, and the status or an error.\<close>

record exchange =
  xc_peer :: string
  xc_start :: int
  xc_end :: int
  xc_outcome :: "int option"

definition exchange_code :: "exchange \<Rightarrow> string" where
  "exchange_code x = (case xc_outcome x of None \<Rightarrow> ''error'' | Some status \<Rightarrow> show_int status)"

definition exchange_ok :: "exchange \<Rightarrow> bool" where
  "exchange_ok x = (case xc_outcome x of None \<Rightarrow> False | Some status \<Rightarrow> 200 \<le> status \<and> status < 300 \<or> status = 304)"

definition set_success :: "string \<Rightarrow> int \<Rightarrow> telemetry \<Rightarrow> telemetry" where
  "set_success peer t s = s\<lparr>tl_last_success := (tl_last_success s)(peer := Some t)\<rparr>"

definition round_trip :: "exchange \<Rightarrow> telemetry \<Rightarrow> telemetry" where
  "round_trip x s =
     (let s = s\<lparr>tl_durations := (tl_durations s)(xc_peer x := tl_durations s (xc_peer x) @ [xc_end x - xc_start x])\<rparr>;
          l = (xc_peer x, exchange_code x);
          s = s\<lparr>tl_requests := (tl_requests s)(l := tl_requests s l + 1)\<rparr>
      in if exchange_ok x then set_success (xc_peer x) (xc_end x) s else s)"

definition set_websocket_connected :: "bool \<Rightarrow> telemetry \<Rightarrow> telemetry" where
  "set_websocket_connected connected s = s\<lparr>tl_connected := connected\<rparr>"

definition record_websocket_message :: "int \<Rightarrow> telemetry \<Rightarrow> telemetry" where
  "record_websocket_message t s = set_success ''upstream'' t (s\<lparr>tl_messages := tl_messages s + 1\<rparr>)"

lemma round_trip_requests:
  "tl_requests (round_trip x s) l = tl_requests s l + (if l = (xc_peer x, exchange_code x) then 1 else 0)"
  by (simp add: round_trip_def set_success_def Let_def)

lemma round_trip_success:
  "tl_last_success (round_trip x s) p = (if exchange_ok x \<and> p = xc_peer x then Some (xc_end x) else tl_last_success s p)"
  by (simp add: round_trip_def set_success_def Let_def)

text \<open>A counter is the number of exchanges with its labels, and the last success is that of the last good exchange.\<close>

lemma requests_are_counted:
  "tl_requests (fold round_trip xs s) l = tl_requests s l + length (filter (\<lambda>x. l = (xc_peer x, exchange_code x)) xs)"
  by (induction xs arbitrary: s) (simp_all add: round_trip_requests)

lemma last_success_is_kept:
  assumes "\<forall>x \<in> set ys. \<not> (exchange_ok x \<and> xc_peer x = p)" "exchange_ok x" "xc_peer x = p"
  shows "tl_last_success (fold round_trip (xs @ x # ys) s) p = Some (xc_end x)"
proof -
  have "tl_last_success (fold round_trip ys s) p = tl_last_success s p" for s
    using assms(1) by (induction ys arbitrary: s) (auto simp: round_trip_success)
  then show ?thesis using assms(2,3) by (simp add: round_trip_success)
qed

section \<open>Log records for the core\<close>

record log_record =
  lr_time :: string
  lr_level :: string
  lr_message :: string
  lr_attrs :: "(string \<times> string) list"

record core_handler =
  ch_url :: string
  ch_attrs :: "(string \<times> string) list"

definition new_core_handler :: "string \<Rightarrow> string \<Rightarrow> core_handler" where
  "new_core_handler baseURL service = \<lparr>ch_url = baseURL @ ''/logs'', ch_attrs = [(''service'', service)]\<rparr>"

text \<open>The entry that \<open>Handle\<close> posts: later assignments to a key win.\<close>

definition set_attrs :: "(string \<times> string) list \<Rightarrow> (string \<rightharpoonup> string) \<Rightarrow> (string \<rightharpoonup> string)" where
  "set_attrs = fold (\<lambda>(k, v) m. m(k \<mapsto> v))"

definition log_entry :: "core_handler \<Rightarrow> log_record \<Rightarrow> (string \<rightharpoonup> string)" where
  "log_entry h r =
     set_attrs (lr_attrs r) (set_attrs (ch_attrs h) [''time'' \<mapsto> lr_time r, ''level'' \<mapsto> lr_level r, ''msg'' \<mapsto> lr_message r])"

definition with_attrs :: "(string \<times> string) list \<Rightarrow> core_handler \<Rightarrow> core_handler" where
  "with_attrs attrs h = h\<lparr>ch_attrs := ch_attrs h @ attrs\<rparr>"

definition with_group :: "string \<Rightarrow> core_handler \<Rightarrow> core_handler" where
  "with_group name h = h"

lemma set_attrs_map_of: "set_attrs attrs m = m ++ map_of (rev attrs)"
  by (induction attrs arbitrary: m) (auto simp: set_attrs_def map_add_def fun_eq_iff split: option.splits)

text \<open>An attribute of a record overrides one of the handler, and either may override the record's own fields.\<close>

lemma log_entry_lookup:
  "log_entry h r k =
     (case map_of (rev (lr_attrs r)) k of
        Some v \<Rightarrow> Some v
      | None \<Rightarrow>
          (case map_of (rev (ch_attrs h)) k of
             Some v \<Rightarrow> Some v
           | None \<Rightarrow>
               if k = ''msg'' then Some (lr_message r)
               else if k = ''level'' then Some (lr_level r)
               else if k = ''time'' then Some (lr_time r) else None))"
  by (simp add: log_entry_def set_attrs_map_of map_add_def split: option.split)

lemma with_attrs_entry:
  "log_entry (with_attrs attrs h) r = log_entry h (r\<lparr>lr_attrs := attrs @ lr_attrs r\<rparr>)"
  by (simp add: log_entry_def with_attrs_def set_attrs_def)

end
