(* ===== verification/Spec2Isabelle.thy ===== *)
theory Spec2Isabelle
  imports Poll BufrMessage JmaProgress Broker Limiter Dedup Wis2Safety JmaTelegram CapSafety RestPollers Gdacs Emsc Telemetry
begin

text \<open>
  MatrixWhale's Go adapters.  Each adapter is a process that collects hazard data from one kind of publisher (weather alerts,
  earthquakes, tropical cyclones, surface observations), brings it into the shape the MatrixWhale core expects, and posts it
  to the core over HTTP; the core answers with counts that the adapter checks.  This development models the adapters
  under \<open>src/\<close> and the packages they share, and states what makes them correct.

  How the parts interact.  Every adapter has a controller with a loop that decides when to ask a publisher
  (\<open>adapters/common/poll\<close>), asks it within the limits it has set itself, decodes the answer, posts the result
  through \<open>adapters/common/core\<close>, and keeps what it needs for the next round (validators, schedules, budgets, the
  last update), in most adapters only as far as the core has accepted it (NOAA does not wait for that, and \<open>RestPollers\<close>
  says what follows).  JMA keeps that on disk; WIS2 and CAP share it between
  goroutines; the others keep it in variables of one goroutine.

  Foundations.
  \<^item> \<open>Prelude\<close>: 64-bit integers on \<open>int\<close> with the wrap-around written as \<open>s64\<close>, results with errors, list facts.
  \<^item> \<open>Go_Strings\<close>, \<open>Go_Encodings\<close>, \<open>Go_Time\<close>, \<open>Go_Duration\<close>, \<open>Go_Float\<close>, \<open>Float_Rounding\<close>, \<open>Go_ParseFloat\<close>, \<open>Go_Slices\<close>: what the
    code uses of Go's strings and UTF-8, base64 and hex, the calendar and RFC 3339, durations, binary64 arithmetic and its
    rounding, numbers in text, and slices that share an array.
  \<^item> \<open>Actions\<close>: the state monad with a weakest precondition; \<open>Threads\<close>: goroutines as trees of atomic actions over a
    shared state, with guarantees and ghost states; \<open>Sequential\<close>: the environment and the trace of the adapters with one
    goroutine, and the locale \<open>judged_adapter\<close> that gives the judgement on every event of every run from an
    invariant that each turn keeps (interpreted for USGS, NOAA, GDACS and EMSC).

  Shared packages.
  \<^item> \<open>Poll\<close> (\<open>adapters/common/poll\<close>), \<open>CoreClient\<close> (\<open>adapters/common/core\<close> and \<open>jma_adapter/app/client/core_client.go\<close>), \<open>Cap\<close>
    (\<open>adapters/common/cap\<close>), \<open>Telemetry\<close> (\<open>adapters/common/metrics\<close>, \<open>adapters/common/logging\<close>), \<open>Config\<close> (the
    environment variables of all adapters and \<open>adapters/common/useragent\<close>), \<open>Limiter\<close> (the limiters of CAP and GDACS).

  The JMA adapter (\<open>jma_adapter/app\<close>).
  \<^item> \<open>JmaUrl\<close> (the allowlist of addresses and the items of an Atom feed), \<open>JmaTelegram\<close> (the parser of telegrams), \<open>JmaStore\<close> (the
    state directory), \<open>JmaClient\<close> (backoff, pacing, budget), \<open>JmaController\<close> (replay, polling, draining, acquisition).
  \<^item> \<open>JmaInvariant\<close>, \<open>JmaSafety\<close>, \<open>JmaRuns\<close>: a judgement on every event of every run, kept by every operation: documents are
    spooled before they are sent and their address is in the durable history before they leave the spool; no request while
    a backoff lasts, outside the pace, without a budget on disk that covers it, within the interval of its feed (each
    configured feed has its own), nor for a document that was fetched.  Nothing is assumed of what the servers send: where a
    response exceeds its reservation, the budget passes the limit by that excess and no more.
    \<open>JmaProgress\<close>: draining ends, and what the store wrote it reads back; the history is the bytes of its file, and a write
    that fails may leave the beginning of its line there.

  The WIS2 adapter (\<open>wis2_adapter/app\<close>).
  \<^item> \<open>BitReader\<close>, \<open>BufrTables\<close>, \<open>BufrState\<close>, \<open>BufrUncompressed\<close>, \<open>BufrCompressed\<close>, \<open>BufrMessage\<close>: the BUFR decoder from the
    bit cursor to the stream of messages.  Reading is refined by slices of the bit string; the decoders stay within their
    limits, the uncompressed form is never read past the payload and the compressed one only
    at a delayed replication; a stream decodes as its messages do one by one; the
    compressed form yields subsets of one shape.  Every index, every slice and the size of every \<open>make\<close> is checked where Go
    checks it: one that fails is a panic (\<open>ReadPanic\<close>, \<open>GoPanic\<close>), which becomes \<open>Recovered\<close> under the deferred \<open>recover\<close> of
    a message, and decoding is shown never to panic.
  \<^item> \<open>Synop\<close> and \<open>Tc\<close>: observations and storm tracks from decoded messages, with floats as they round; \<open>Tc\<close> shows for which
    bearings the extraction returns, and that for others it does not.
  \<^item> \<open>Wnm\<close> (notifications, integrity, areas), \<open>Dedup\<close> (refines a memory that never forgets), \<open>Broker\<close> (rotation and connection),
    \<open>ObsQueue\<close> (the queue of observations on shared slices, which refines a bounded list as long as flushes do not overlap, and
    loses a batch when two that overlap fail), \<open>Wis2Controller\<close> (every handler as a program), \<open>Wis2Safety\<close> (all
    interleavings: checked payloads, health counts, bounds, and no deadlock as long as no extraction of a storm runs for ever).

  The CAP adapter (\<open>cap_adapter/app\<close>).  \<open>CapFeed\<close> (feeds and the registry), \<open>CapController\<close> (goroutines per host, the collector, the
  phases of the main loop), \<open>CapSafety\<close> (all interleavings: validators only of accepted feeds, requests only in the slot
  of their host, bounded posts, no deadlock).

  The pollers with one goroutine.  \<open>RestPollers\<close> (\<open>usgs_adapter/app\<close>, \<open>noaa_adapter/app\<close>), \<open>Gdacs\<close> (\<open>gdacs_adapter/app\<close>), \<open>Emsc\<close>
  (\<open>emsc_adapter/app\<close>).  A turn is one round of the innermost loop; the phase is the place in the nested loops with the local
  variables there.  The judgements say which request and which post may follow which events.  For GDACS there is also
  the converse of progress: a geometry that never comes stops everything else.  The batcher of EMSC is a
  step function of what its \<open>select\<close> takes, and its batches are the messages read.

  Bounds and fuel.  The recursion of the BUFR decoders is on the depth the code bounds by 64 and on the budget of 100000
  descriptors, which also ends the one case in which the position does not move.  Draining in \<open>JmaController\<close> runs on fuel of one
  more than the time left to the deadline, and \<open>JmaProgress\<close> shows that this is enough when the clock advances.  The loops of \<open>Tc\<close> that
  may not end are \<open>partial_function (option)\<close>: that they return is proved, where they do.  Endless loops are given by
  their turns, and the theorems hold for any number of them; the rounds that the connection loop of \<open>Broker\<close> needs are bounded
  by the number of brokers.  Counters of events (the WIS2 health counters, the Prometheus counters) are natural numbers: they
  would wrap after 2^63 events.

  The environment.  Answers of servers, of the core, of the file system and of the MQTT library, the choice a
  \<open>select\<close> makes when several cases are ready, the order of goroutines, random numbers, and the passing of time (monotone, as
  Go's clock is) are inputs over which the theorems quantify.  So are the library functions that are not modelled:
  encoding/json, encoding/xml, net/url, http.ParseTime and time.Parse, gzip, the hash functions, the transcoders of character sets,
  and the conversion of a float out of range to an integer.  JSON that is only passed on is the text itself.  A map is
  iterated in the order in which its keys came in.  A day added by \<open>AddDate\<close> is 86400 seconds, the zone being UTC.

  Not modelled.  Log lines and the cleaning of error texts for them; the WIS2 metrics, which are single calls of Prometheus;
  \<open>connectOne\<close> of the MQTT broker and the WebSocket session of \<open>Subscribe\<close> (dialling, pings, closing), which are calls of their
  libraries (the outcomes are inputs); \<open>RandomClientID\<close> and \<open>HostFromURL\<close>; the fake broker, which is for tests; \<open>main\<close> and
  \<open>initialize\<close> of every adapter, which only wire the parts; the RSS feed adapter and the federation orchestrator, which serve
  a health endpoint beside generated code; the core in Gleam, the web client and the database.  The controller of JMA takes the
  outcome of the telegram parser as an input; the parser itself is \<open>JmaTelegram\<close>.  In \<open>Emsc\<close> the controller receives the
  batches as inputs; what batches the batcher makes of the messages is shown of the batcher alone.
\<close>

end
